(* ===== verification/Prelude.thy ===== *)
theory Prelude
  imports Main "HOL-Library.Word"
begin

text \<open>
  Shared vocabulary of the development: the error codes of ESP-IDF and of the components,
  C strings and the few C library routines the components lean on (\<open>snprintf\<close>,
  \<open>strncpy\<close>, \<open>strtok\<close>-style splitting), and generic lemmas on lists that
  several component theories use.

  A C string is the \<open>string\<close> of its bytes before the terminating NUL, so
  \<open>strlen\<close> is \<open>length\<close>; a pointer that may be NULL is an \<open>option\<close>.
\<close>

section \<open>Error codes\<close>

text \<open>
  \<open>esp_err_t\<close> is an \<open>int\<close> in C. The codes the components name are distinct, so the
  model gives each its own constructor; a code that only the platform produces is
  \<open>ESP_ERR_OTHER\<close>.
\<close>

datatype esp_err_t =
    ESP_OK
  | ESP_FAIL
  | ESP_ERR_NO_MEM
  | ESP_ERR_INVALID_ARG
  | ESP_ERR_INVALID_STATE
  | ESP_ERR_INVALID_SIZE
  | ESP_ERR_NOT_FOUND
  | ESP_ERR_NOT_SUPPORTED
  | ESP_ERR_TIMEOUT
  | ESP_ERR_INVALID_RESPONSE
  | ESP_ERR_INVALID_CRC
  | CONFIG_STORE_ERR_TOO_LARGE
  | MQTT_MANAGER_ERR_TOPIC_TOO_LONG
  | HTTP_SERVER_ERR_NO_PASSWORD
  | OTA_ERR_NOT_AN_IMAGE
  | OTA_ERR_WRONG_PROJECT
  | OTA_ERR_TRUNCATED
  | ESP_ERR_NAU7802_WITHIN_NOISE
  | ESP_ERR_NAU7802_CAL_FAILED
  | ESP_ERR_NAU7802_TOO_FEW_SAMPLES
  | ESP_ERR_AW9523B_WRONG_PART
  | ESP_ERR_PI4IOE5V6408_WRONG_PART
  | ESP_ERR_HX711_CLOCK_STRETCHED
  | ESP_ERR_HX711_NO_CLOCK
  | ESP_ERR_HX711_STUCK_READING
  | ESP_ERR_HX711_WITHIN_NOISE
  | ESP_ERR_HX711_TOO_FEW_SAMPLES
  | ESP_ERR_RX8130CE_NOT_SET
  | ESP_ERR_RX8130CE_BAD_TIME
  | ESP_ERR_SHT4X_CRC
  | ESP_ERR_LM75BDP_WRONG_PART
  | ESP_ERR_INA219_WRONG_PART
  | ESP_ERR_INA219_BAD_RANGE
  | ESP_ERR_INA226_WRONG_PART
  | ESP_ERR_INA226_BAD_RANGE
  | ESP_ERR_INA237_WRONG_PART
  | ESP_ERR_INA239_WRONG_PART
  | ESP_ERR_INA239_WRONG_DEVICE
  | ESP_ERR_OTHER nat

section \<open>Rule collections\<close>

named_theorems c_lib \<open>definitions of the modelled C library routines\<close>
named_theorems reg_laws \<open>what a registration does to its table\<close>

section \<open>C strings\<close>

type_synonym cstr = "string"
type_synonym cptr = "string option"

text \<open>\<open>snprintf(out, size, "%s...", ...)\<close> for a text already assembled: the buffer
  receives at most \<open>size - 1\<close> bytes, the result is the length the text would have had.\<close>

definition snprintf :: "nat \<Rightarrow> string \<Rightarrow> nat \<times> string" where
  "snprintf n txt = (length txt, take (n - 1) txt)"

lemma snprintf_fits [simp]: "length s < n \<Longrightarrow> snprintf n s = (length s, s)"
  by (simp add: snprintf_def)

text \<open>\<open>strncpy(dst, src, n - 1); dst[n - 1] = 0\<close>: the truncating copy the components use.\<close>

definition strncpy_term :: "nat \<Rightarrow> string \<Rightarrow> string" where
  "strncpy_term n src = take (n - 1) src"

lemma strncpy_term_id [simp]: "length s < n \<Longrightarrow> strncpy_term n s = s"
  by (simp add: strncpy_term_def)

lemma length_strncpy_term: "0 < n \<Longrightarrow> length (strncpy_term n s) < n"
  by (simp add: strncpy_term_def min_def) arith

lemma of_char_less_256 [simp]: "(of_char c :: nat) < 256"
proof -
  have "(of_char c :: nat) = of_char (char_of (of_char c :: nat))" by simp
  also have "\<dots> = of_char c mod 256" by (simp only: of_char_of)
  finally show ?thesis by simp
qed

text \<open>Bit facts both for \<open>nat\<close> (lengths) and words.\<close>

lemma xor_eq_0_iff:
  fixes a b :: "'a::semiring_bit_operations"
  shows "xor a b = 0 \<longleftrightarrow> a = b"
  by (auto simp: bit_eq_iff bit_simps)

text \<open>Words of one width read at another.\<close>

lemma unat_lt_8 [simp]: "unat (w :: 8 word) < 256"
proof -
  have "unat w < 2 ^ LENGTH(8)" by (rule unsigned_less)
  then show ?thesis by simp
qed

lemma unat_lt_16 [simp]: "unat (w :: 16 word) < 65536"
proof -
  have "unat w < 2 ^ LENGTH(16)" by (rule unsigned_less)
  then show ?thesis by simp
qed

lemma unat_lt_32 [simp]: "unat (w :: 32 word) < 4294967296"
proof -
  have "unat w < 2 ^ LENGTH(32)" by (rule unsigned_less)
  then show ?thesis by simp
qed

lemma unat_ucast_64: "unat (ucast w :: 64 word) = unat w" for w :: "32 word"
proof -
  have "unat w < 2 ^ 64" by (rule less_trans [OF unat_lt_32]) simp
  then show ?thesis by (simp add: unsigned_ucast_eq take_bit_nat_eq_self)
qed

lemma unat_push_bit:
  "unat w * 2 ^ n < 2 ^ LENGTH('a) \<Longrightarrow> unat (push_bit n w) = unat w * 2 ^ n" for w :: "'a::len word"
proof -
  assume "unat w * 2 ^ n < 2 ^ LENGTH('a)"
  then have "take_bit LENGTH('a) (push_bit n (unat w)) = unat w * 2 ^ n"
    by (simp add: push_bit_eq_mult take_bit_nat_eq_self)
  moreover have "unat (push_bit n w) = take_bit LENGTH('a) (push_bit n (unat w))"
    by (rule unsigned_push_bit_eq)
  ultimately show ?thesis by simp
qed

section \<open>Lists\<close>

lemma all_less_Suc_iff: "(\<forall>k < Suc n. P k) \<longleftrightarrow> P 0 \<and> (\<forall>k < n. P (Suc k))"
  by (auto simp: less_Suc_eq_0_disj)

lemma drop_eq_Cons:
  "i < length xs \<Longrightarrow> drop i xs = xs ! i # drop (Suc i) xs"
  by (simp add: Cons_nth_drop_Suc)

lemma length_dropWhile_drop:
  "length xs - length (dropWhile P xs) = length (takeWhile P xs)"
proof -
  have "length (takeWhile P xs) + length (dropWhile P xs) = length xs"
    by (metis length_append takeWhile_dropWhile_id)
  then show ?thesis by arith
qed

lemma hd_dropWhile_neg: "dropWhile P xs = y # ys \<Longrightarrow> \<not> P y"
  by (metis hd_dropWhile list.distinct(1) list.sel(1))

lemma last_snoc_Cons: "last (x # xs @ [y]) = y"
  by simp

section \<open>Histories\<close>

lemma steps_keep:
  assumes "r\<^sup>*\<^sup>* s t" "P s" "\<And>x y. r x y \<Longrightarrow> P x \<Longrightarrow> P y"
  shows "P t"
  using assms(1) by (induction rule: rtranclp_induct) (use assms(2,3) in blast)+

lemma two_steps: "r x y \<Longrightarrow> r y z \<Longrightarrow> r\<^sup>*\<^sup>* x z"
  by (blast intro: converse_rtranclp_into_rtranclp)

lemma three_steps: "r w x \<Longrightarrow> r x y \<Longrightarrow> r y z \<Longrightarrow> r\<^sup>*\<^sup>* w z"
  by (blast intro: converse_rtranclp_into_rtranclp)

section \<open>Bounded registration tables\<close>

text \<open>
  Four components keep a statically sized table of registrations behind the same
  contract: \<open>int_dispatch_register\<close>, \<open>diag_sink_register\<close>,
  \<open>mqtt_manager_subscribe\<close> and \<open>cli_register_group\<close>. A registration either
  returns an error and leaves the table alone, or returns \<open>ESP_OK\<close> and adds exactly
  one entry; a full table answers with an error. The laws below are all that the
  facts about sequences of registrations need.
\<close>

fun run_all :: "('s \<Rightarrow> 'e \<Rightarrow> esp_err_t \<times> 's) \<Rightarrow> 's \<Rightarrow> 'e list \<Rightarrow> esp_err_t list \<times> 's" where
  "run_all reg s [] = ([], s)"
| "run_all reg s (e # es) =
     (let (r, s') = reg s e; (rs, t) = run_all reg s' es in (r # rs, t))"

locale bounded_table =
  fixes reg :: "'s \<Rightarrow> 'e \<Rightarrow> esp_err_t \<times> 's"
    and entries :: "'s \<Rightarrow> 'x list"
    and capacity :: nat
    and ok :: "'s \<Rightarrow> bool"
  assumes reg_inv: "ok s \<Longrightarrow> ok (snd (reg s e))"
    and inv_capacity: "ok s \<Longrightarrow> length (entries s) \<le> capacity"
    and reg_ok: "ok s \<Longrightarrow> fst (reg s e) = ESP_OK \<Longrightarrow>
          length (entries (snd (reg s e))) = Suc (length (entries s))
          \<and> set (entries s) \<subseteq> set (entries (snd (reg s e)))"
    and reg_err: "ok s \<Longrightarrow> fst (reg s e) \<noteq> ESP_OK \<Longrightarrow> entries (snd (reg s e)) = entries s"
begin

lemma reg_full: "ok s \<Longrightarrow> length (entries s) = capacity \<Longrightarrow> fst (reg s e) \<noteq> ESP_OK"
  using reg_ok [of s e] inv_capacity [OF reg_inv, of s e] by auto

lemma run_all_inv: "ok s \<Longrightarrow> ok (snd (run_all reg s es))"
  by (induction es arbitrary: s) (auto simp: split_beta Let_def reg_inv)

lemma run_all_count:
  "ok s \<Longrightarrow> length (entries (snd (run_all reg s es)))
     = length (entries s) + length (filter (\<lambda>r. r = ESP_OK) (fst (run_all reg s es)))"
proof (induction es arbitrary: s)
  case Nil
  then show ?case by simp
next
  case (Cons e es)
  then have "ok (snd (reg s e))" by (simp add: reg_inv)
  from Cons.IH [OF this] Cons.prems show ?case
    by (cases "fst (reg s e) = ESP_OK") (simp_all add: split_beta Let_def reg_ok reg_err)
qed

lemma run_all_keeps:
  "ok s \<Longrightarrow> set (entries s) \<subseteq> set (entries (snd (run_all reg s es)))"
proof (induction es arbitrary: s)
  case Nil
  then show ?case by simp
next
  case (Cons e es)
  have "set (entries s) \<subseteq> set (entries (snd (reg s e)))"
    using Cons.prems reg_ok reg_err by (cases "fst (reg s e) = ESP_OK") auto
  with Cons.IH [OF reg_inv [OF Cons.prems]] show ?case
    by (force simp: split_beta Let_def)
qed

lemma run_all_accepts_at_most:
  "ok s \<Longrightarrow> length (filter (\<lambda>r. r = ESP_OK) (fst (run_all reg s es)))
     \<le> capacity - length (entries s)"
  using run_all_count [of s es] inv_capacity [OF run_all_inv [of s es]] by simp

end

end
