(* ===== verification/Mqtt_Topic.thy ===== *)
theory Mqtt_Topic
  imports Prelude "HOL-Library.Sublist"
begin

text \<open>
  The topic strings of \<open>mqtt_manager/src/mqtt_topic.c\<close>: matching a received topic
  against a subscription filter, and building a full topic from prefix and suffix.
  The loops keep the code's two indices; a list view of the matcher carries the proofs,
  and the level-wise wildcard rules of the MQTT specification are the reference.
\<close>

section \<open>The matcher\<close>

text \<open>The inner loop of the \<open>+\<close> case: advance to the next separator.\<close>

function skip_level :: "string \<Rightarrow> nat \<Rightarrow> nat" where
  "skip_level topic t =
     (if t < length topic \<and> topic ! t \<noteq> CHR ''/'' then skip_level topic (Suc t) else t)"
  by pat_completeness auto
termination by (relation "measure (\<lambda>(topic, t). length topic - t)") auto

declare skip_level.simps [simp del]

text \<open>The loop of \<open>mqtt_topic_matches\<close> from the indices \<open>f\<close> and \<open>t\<close>, with the
  final tests that follow it.\<close>

function match_loop :: "string \<Rightarrow> string \<Rightarrow> nat \<Rightarrow> nat \<Rightarrow> bool" where
  "match_loop filt topic f t =
    (let flen = length filt; topic_len = length topic in
     if f < flen \<and> t < topic_len then
       if filt ! f = CHR ''#'' then
         f = flen - 1 \<and> (f = 0 \<or> filt ! (f - 1) = CHR ''/'')
       else if filt ! f = CHR ''+'' then
         if f > 0 \<and> filt ! (f - 1) \<noteq> CHR ''/'' then False
         else if f + 1 < flen \<and> filt ! (f + 1) \<noteq> CHR ''/'' then False
         else
           let t' = skip_level topic t; f' = f + 1 in
           if f' < flen \<and> t' < topic_len \<and> filt ! f' = CHR ''/'' \<and> topic ! t' = CHR ''/''
           then match_loop filt topic (f' + 1) (t' + 1)
           else match_loop filt topic f' t'
       else if filt ! f \<noteq> topic ! t then False
       else match_loop filt topic (f + 1) (t + 1)
     else if t = topic_len \<and> flen - f = 2 \<and> filt ! f = CHR ''/'' \<and> filt ! (f + 1) = CHR ''#''
     then True
     else f = flen \<and> t = topic_len)"
  by pat_completeness auto
termination by (relation "measure (\<lambda>(filt, topic, f, t). length filt - f)") auto

declare match_loop.simps [simp del]

definition mqtt_topic_matches :: "cptr \<Rightarrow> cptr \<Rightarrow> bool" where
  "mqtt_topic_matches filt topic =
     (case filt of None \<Rightarrow> False
      | Some f \<Rightarrow> (case topic of None \<Rightarrow> False | Some t \<Rightarrow> match_loop f t 0 0))"

section \<open>The list view\<close>

text \<open>The same loop over what is left of filter and topic; \<open>p\<close> is the filter character
  just before, \<open>None\<close> at the start.\<close>

definition at_level_start :: "char option \<Rightarrow> bool" where
  "at_level_start p \<longleftrightarrow> p = None \<or> p = Some (CHR ''/'')"

function (sequential) mtch :: "char option \<Rightarrow> string \<Rightarrow> string \<Rightarrow> bool" where
  "mtch p (c # fs) (d # ts) =
    (if c = CHR ''#'' then fs = [] \<and> at_level_start p
     else if c = CHR ''+'' then
       if \<not> at_level_start p then False
       else if fs \<noteq> [] \<and> hd fs \<noteq> CHR ''/'' then False
       else
         let ts' = dropWhile (\<lambda>x. x \<noteq> CHR ''/'') (d # ts) in
         if fs \<noteq> [] \<and> ts' \<noteq> [] then mtch (Some (CHR ''/'')) (tl fs) (tl ts')
         else mtch (Some (CHR ''+'')) fs ts'
     else c = d \<and> mtch (Some c) fs ts)"
| "mtch p fs ts = ((ts = [] \<and> fs = ''/#'') \<or> (fs = [] \<and> ts = []))"
  by pat_completeness auto
termination by (relation "measure (\<lambda>(p, fs, ts). length fs)") auto

lemma skip_level_drop:
  "drop (skip_level topic t) topic = dropWhile (\<lambda>x. x \<noteq> CHR ''/'') (drop t topic)"
proof (induction topic t rule: skip_level.induct)
  case (1 topic t)
  show ?case
  proof (cases "t < length topic")
    case True
    then show ?thesis
      using 1 by (simp add: skip_level.simps [of topic t] drop_eq_Cons)
  qed (simp add: skip_level.simps [of topic t])
qed

lemma skip_level_le: "t \<le> length topic \<Longrightarrow> skip_level topic t \<le> length topic"
proof (induction topic t rule: skip_level.induct)
  case (1 topic t)
  then show ?case
    by (cases "t < length topic \<and> topic ! t \<noteq> CHR ''/''")
       (auto simp: skip_level.simps [of topic t])
qed

lemma skip_level_sep: "skip_level topic t < length topic \<Longrightarrow> topic ! skip_level topic t = CHR ''/''"
proof (induction topic t rule: skip_level.induct)
  case (1 topic t)
  then show ?case
    by (cases "t < length topic \<and> topic ! t \<noteq> CHR ''/''")
       (auto simp: skip_level.simps [of topic t])
qed

text \<open>The filter character before index \<open>f\<close>.\<close>

definition prev_char :: "string \<Rightarrow> nat \<Rightarrow> char option" where
  "prev_char filt f = (if f = 0 then None else Some (filt ! (f - 1)))"

lemma prev_char_Suc [simp]: "prev_char filt (Suc f) = Some (filt ! f)"
  by (simp add: prev_char_def)

lemma two_left:
  "(length filt - f = 2 \<and> filt ! f = a \<and> filt ! (f + 1) = b) = (drop f filt = [a, b])"
proof (cases "length filt - f = 2")
  case True
  then have "drop f filt = [filt ! f, filt ! (f + 1)]"
    by (intro nth_equalityI) (auto simp: less_2_cases_iff)
  with True show ?thesis by simp
next
  case False
  then have "length (drop f filt) \<noteq> 2" by simp
  then have "drop f filt \<noteq> [a, b]" by (metis length_Cons list.size(3) numeral_2_eq_2)
  with False show ?thesis by simp
qed

lemma tl_drop_Suc: "tl (drop n xs) = drop (Suc n) xs"
  by (simp add: drop_Suc tl_drop)

lemma match_loop_plus:
  assumes "f < length filt" and "t < length topic" and "filt ! f = CHR ''+''"
  shows "match_loop filt topic f t =
    (at_level_start (prev_char filt f)
     \<and> (f + 1 < length filt \<longrightarrow> filt ! (f + 1) = CHR ''/'')
     \<and> (if f + 1 < length filt \<and> skip_level topic t < length topic
        then match_loop filt topic (f + 2) (skip_level topic t + 1)
        else match_loop filt topic (f + 1) (skip_level topic t)))"
proof -
  have sep: "topic ! skip_level topic t = CHR ''/''" if "skip_level topic t < length topic"
    using that by (rule skip_level_sep)
  have start: "at_level_start (prev_char filt f) = (\<not> (f > 0 \<and> filt ! (f - 1) \<noteq> CHR ''/''))"
    by (auto simp: at_level_start_def prev_char_def)
  have "match_loop filt topic f t =
    (if f > 0 \<and> filt ! (f - 1) \<noteq> CHR ''/'' then False
     else if f + 1 < length filt \<and> filt ! (f + 1) \<noteq> CHR ''/'' then False
     else if f + 1 < length filt \<and> skip_level topic t < length topic
             \<and> filt ! (f + 1) = CHR ''/'' \<and> topic ! skip_level topic t = CHR ''/''
     then match_loop filt topic (f + 2) (skip_level topic t + 1)
     else match_loop filt topic (f + 1) (skip_level topic t))"
    using assms by (subst match_loop.simps) (simp add: Let_def)
  then show ?thesis unfolding start using sep by (simp split: if_split)
qed

lemma match_loop_mtch:
  "f \<le> length filt \<Longrightarrow> t \<le> length topic \<Longrightarrow>
   match_loop filt topic f t = mtch (prev_char filt f) (drop f filt) (drop t topic)"
proof (induction filt topic f t rule: match_loop.induct)
  case (1 filt topic f t)
  show ?case
  proof (cases "f < length filt \<and> t < length topic")
    case False
    then have "drop f filt = [] \<or> drop t topic = []" by auto
    then have "mtch (prev_char filt f) (drop f filt) (drop t topic)
        = ((drop t topic = [] \<and> drop f filt = ''/#'') \<or> (drop f filt = [] \<and> drop t topic = []))"
      by (cases "drop f filt"; cases "drop t topic") simp_all
    moreover have "match_loop filt topic f t
        = (t = length topic \<and> drop f filt = ''/#'' \<or> f = length filt \<and> t = length topic)"
      using False by (subst match_loop.simps) (simp only: Let_def if_False two_left, auto)
    moreover have "(t = length topic) = (drop t topic = [])" "(f = length filt) = (drop f filt = [])"
      using 1(4,5) by auto
    ultimately show ?thesis by simp
  next
    case True
    then have df: "drop f filt = filt ! f # drop (Suc f) filt"
      and dt: "drop t topic = topic ! t # drop (Suc t) topic"
      by (simp_all add: drop_eq_Cons)
    consider (hash) "filt ! f = CHR ''#''" | (plus) "filt ! f = CHR ''+''"
      | (lit) "filt ! f \<noteq> CHR ''#''" "filt ! f \<noteq> CHR ''+''" by blast
    then show ?thesis
    proof cases
      case hash
      have "match_loop filt topic f t =
          (f = length filt - 1 \<and> at_level_start (prev_char filt f))"
        using True hash
        by (subst match_loop.simps) (auto simp: Let_def at_level_start_def prev_char_def)
      moreover have "(f = length filt - 1) = (drop (Suc f) filt = [])"
        using True by auto
      ultimately show ?thesis using hash df dt by simp
    next
      case lit
      then show ?thesis
        using True 1(3) [OF refl refl True] df dt
        by (subst match_loop.simps) (simp add: Let_def)
    next
      case plus
      define t' where "t' = skip_level topic t"
      have t': "t' \<le> length topic" using 1(5) unfolding t'_def by (rule skip_level_le)
      have ts: "dropWhile (\<lambda>x. x \<noteq> CHR ''/'') (topic ! t # drop (Suc t) topic) = drop t' topic"
        using skip_level_drop [of topic t] dt by (simp add: t'_def)
      have sep: "topic ! t' = CHR ''/''" if "t' < length topic"
        using that unfolding t'_def by (rule skip_level_sep)
      define G where "G \<longleftrightarrow> at_level_start (prev_char filt f)
        \<and> (f + 1 < length filt \<longrightarrow> filt ! (f + 1) = CHR ''/'')"
      have g: "\<not> (f > 0 \<and> filt ! (f - 1) \<noteq> CHR ''/'')"
        "\<not> (f + 1 < length filt \<and> filt ! (f + 1) \<noteq> CHR ''/'')" if G
        using that by (auto simp: G_def at_level_start_def prev_char_def split: if_splits)
      have nh: "filt ! f \<noteq> CHR ''#''" using plus by simp
      have hd1: "(f + 1 < length filt \<longrightarrow> filt ! (f + 1) = CHR ''/'')
          = (drop (Suc f) filt = [] \<or> hd (drop (Suc f) filt) = CHR ''/'')"
        by (cases "Suc f < length filt") (simp_all add: hd_drop_conv_nth)
      have left: "match_loop filt topic f t = (G \<and>
          (if f + 1 < length filt \<and> t' < length topic
           then match_loop filt topic (f + 2) (t' + 1) else match_loop filt topic (f + 1) t'))"
        using True plus by (subst match_loop_plus) (auto simp: t'_def G_def)
      have right: "mtch (prev_char filt f) (drop f filt) (drop t topic) = (G \<and>
          (if f + 1 < length filt \<and> t' < length topic
           then mtch (Some (CHR ''/'')) (drop (f + 2) filt) (drop (t' + 1) topic)
           else mtch (Some (CHR ''+'')) (drop (f + 1) filt) (drop t' topic)))"
        unfolding df dt G_def hd1 using plus ts by (auto simp: Let_def tl_drop_Suc)
      have "match_loop filt topic (f + 2) (t' + 1)
          = mtch (Some (CHR ''/'')) (drop (f + 2) filt) (drop (t' + 1) topic)"
        if G "f + 1 < length filt" "t' < length topic"
        using 1(1) [OF refl refl True nh plus g [OF that(1)] t'_def refl] that g [OF that(1)] sep
        by simp
      moreover have "match_loop filt topic (f + 1) t'
          = mtch (Some (CHR ''+'')) (drop (f + 1) filt) (drop t' topic)"
        if G "\<not> (f + 1 < length filt \<and> t' < length topic)"
        using 1(2) [OF refl refl True nh plus g [OF that(1)] t'_def refl] that True t' plus
        by auto
      ultimately show ?thesis unfolding left right by auto
    qed
  qed
qed

lemma mqtt_topic_matches_mtch:
  "mqtt_topic_matches (Some f) (Some t) = mtch None f t"
  by (simp add: mqtt_topic_matches_def match_loop_mtch prev_char_def)

section \<open>The wildcard rules, level by level\<close>

text \<open>A topic or filter is a list of levels separated by \<open>/\<close>.\<close>

fun levels :: "string \<Rightarrow> string list" where
  "levels [] = [[]]"
| "levels (c # cs) =
     (if c = CHR ''/'' then [] # levels cs
      else (c # hd (levels cs)) # tl (levels cs))"

definition plain_level :: "string \<Rightarrow> bool" where
  "plain_level l \<longleftrightarrow> CHR ''#'' \<notin> set l \<and> CHR ''+'' \<notin> set l"

text \<open>A well-formed filter: every level is plain, or is exactly \<open>+\<close>, or is exactly
  \<open>#\<close> and the last.\<close>

fun valid_levels :: "string list \<Rightarrow> bool" where
  "valid_levels [] = True"
| "valid_levels (l # ls) =
     ((l = ''#'' \<and> ls = []) \<or> ((l = ''+'' \<or> plain_level l) \<and> valid_levels ls))"

text \<open>\<open>+\<close> matches one level, \<open>#\<close> whatever is left, the parent level included.\<close>

fun levels_match :: "string list \<Rightarrow> string list \<Rightarrow> bool" where
  "levels_match [] ts = (ts = [])"
| "levels_match (l # ls) [] = (l = ''#'' \<and> ls = [])"
| "levels_match (l # ls) (t # ts) =
     (if l = ''#'' \<and> ls = [] then True
      else (l = ''+'' \<or> l = t) \<and> levels_match ls ts)"

lemma levels_nonempty [simp]: "levels s \<noteq> []"
  by (cases s) auto

lemma levels_split:
  "CHR ''/'' \<notin> set l \<Longrightarrow> levels (l @ CHR ''/'' # s) = l # levels s"
  by (induction l) auto

lemma levels_single: "CHR ''/'' \<notin> set l \<Longrightarrow> levels l = [l]"
  by (induction l) auto

text \<open>Every string is one level, or one level, a separator and more.\<close>

lemma level_cases:
  obtains (one) "CHR ''/'' \<notin> set s"
  | (more) l r where "s = l @ CHR ''/'' # r" "CHR ''/'' \<notin> set l"
  by (meson split_list_first)

lemma first_level_unique:
  assumes "l @ CHR ''/'' # r = l' @ CHR ''/'' # r'" "CHR ''/'' \<notin> set l" "CHR ''/'' \<notin> set l'"
  shows "l = l' \<and> r = r'"
  using assms
proof (induction l arbitrary: l')
  case Nil
  then show ?case by (cases l') auto
next
  case (Cons c l)
  then show ?case by (cases l') auto
qed

text \<open>Through a plain prefix the matcher compares characters.\<close>

definition last_of :: "char option \<Rightarrow> string \<Rightarrow> char option" where
  "last_of p l = (if l = [] then p else Some (last l))"

lemma mtch_plain:
  assumes "plain_level l" and "CHR ''/'' \<notin> set l"
  shows "mtch p (l @ fs) ts = (\<exists>ts'. ts = l @ ts' \<and> mtch (last_of p l) fs ts')"
  using assms
proof (induction l arbitrary: p ts)
  case Nil
  then show ?case by (simp add: last_of_def)
next
  case (Cons c l)
  then have c: "c \<noteq> CHR ''#''" "c \<noteq> CHR ''+''" "c \<noteq> CHR ''/''"
    and l: "plain_level l" "CHR ''/'' \<notin> set l"
    by (auto simp: plain_level_def)
  have lo: "last_of p (c # l) = last_of (Some c) l" by (simp add: last_of_def)
  show ?case
  proof (cases ts)
    case Nil
    then show ?thesis using c by simp
  next
    case (Cons d ts1)
    then show ?thesis using c Cons.IH [OF l, of "Some c" ts1] lo by auto
  qed
qed

text \<open>After a level, the filter is at its end or at a separator.\<close>

lemma mtch_sep:
  "mtch p (CHR ''/'' # fs) ts =
    (case ts of [] \<Rightarrow> fs = ''#'' | d # ts' \<Rightarrow> d = CHR ''/'' \<and> mtch (Some (CHR ''/'')) fs ts')"
  by (cases ts) auto

lemma mtch_end: "mtch p [] ts = (ts = [])"
  by (cases ts) auto

lemma mtch_level_plus:
  assumes "at_level_start p" and "ts \<noteq> []"
  shows "mtch p (CHR ''+'' # fs) ts =
    (fs = [] \<and> CHR ''/'' \<notin> set ts
     \<or> (\<exists>fs'. fs = CHR ''/'' # fs' \<and>
         (if CHR ''/'' \<in> set ts
          then mtch (Some (CHR ''/'')) fs' (tl (dropWhile (\<lambda>x. x \<noteq> CHR ''/'') ts))
          else fs' = ''#'')))"
proof -
  obtain d ts0 where ts: "ts = d # ts0" using assms(2) by (cases ts) auto
  define w where "w = dropWhile (\<lambda>x. x \<noteq> CHR ''/'') ts"
  have w: "(w = []) = (CHR ''/'' \<notin> set ts)"
    by (auto simp: w_def dropWhile_eq_Nil_conv)
  have eq: "mtch p (CHR ''+'' # fs) ts =
    (if fs \<noteq> [] \<and> hd fs \<noteq> CHR ''/'' then False
     else if fs \<noteq> [] \<and> w \<noteq> [] then mtch (Some (CHR ''/'')) (tl fs) (tl w)
     else mtch (Some (CHR ''+'')) fs w)"
    using assms(1) unfolding w_def ts by (simp only: mtch.simps Let_def) simp
  show ?thesis
  proof (cases fs)
    case Nil
    then show ?thesis unfolding eq by (simp add: mtch_end w)
  next
    case (Cons e fs')
    then show ?thesis
      using w unfolding eq w_def [symmetric]
      by (cases w; cases "e = CHR ''/''") (simp_all add: mtch_sep)
  qed
qed

text \<open>A topic that is not empty and does not end in a separator; the empty last level of
  one that does is the one case where the code departs from the rules (see below).\<close>

definition proper_topic :: "string \<Rightarrow> bool" where
  "proper_topic t \<longleftrightarrow> t \<noteq> [] \<and> last t \<noteq> CHR ''/''"

lemma proper_topic_rest:
  "proper_topic (l @ CHR ''/'' # r) \<Longrightarrow> proper_topic r"
  by (auto simp: proper_topic_def split: if_splits)

lemma dropWhile_level:
  "CHR ''/'' \<notin> set l \<Longrightarrow>
   dropWhile (\<lambda>x. x \<noteq> CHR ''/'') (l @ CHR ''/'' # r) = CHR ''/'' # r"
  by (induction l) auto

lemma levels_match_nil: "levels_match (levels fs) [] = (fs = ''#'')"
proof (cases fs rule: level_cases)
  case one
  then show ?thesis by (simp add: levels_single)
next
  case (more l r)
  then have "fs \<noteq> ''#''" by (cases l) auto
  with more show ?thesis by (simp add: levels_split)
qed

lemma ex_append_cases:
  "(\<exists>ts'. t = l @ ts' \<and> Q ts') = (t = l \<and> Q [] \<or> (\<exists>d u. t = l @ d # u \<and> Q (d # u)))"
proof -
  have "(\<exists>x. P x) = (P [] \<or> (\<exists>d u. P (d # u)))" for P :: "'a list \<Rightarrow> bool"
    by (metis neq_Nil_conv)
  from this [of "\<lambda>ts'. t = l @ ts' \<and> Q ts'"] show ?thesis by simp
qed

text \<open>One level of filter against a whole topic, for each shape of level.\<close>

lemma mtch_plain_last:
  assumes "plain_level l" "CHR ''/'' \<notin> set l" "proper_topic t"
  shows "mtch p l t = levels_match [l] (levels t)"
proof -
  have "mtch p l t = (t = l)"
    using mtch_plain [OF assms(1,2), of p "[]" t] by (auto simp: mtch_end)
  moreover have "l \<noteq> ''#''" "l \<noteq> ''+''" using assms(1) by (auto simp: plain_level_def)
  moreover have "(t = l) = (levels t = [l])"
  proof (cases t rule: level_cases)
    case one
    then show ?thesis by (simp add: levels_single)
  next
    case (more l' r)
    then show ?thesis using assms(2) by (auto simp: levels_split)
  qed
  ultimately show ?thesis by (cases "levels t") auto
qed

lemma mtch_plain_more:
  assumes "plain_level l" "CHR ''/'' \<notin> set l"
    and IH: "\<And>t'. proper_topic t' \<Longrightarrow>
       mtch (Some (CHR ''/'')) fs t' = levels_match (levels fs) (levels t')"
    and "proper_topic t"
  shows "mtch p (l @ CHR ''/'' # fs) t = levels_match (l # levels fs) (levels t)"
proof -
  have l: "l \<noteq> ''#''" "l \<noteq> ''+''" using assms(1) by (auto simp: plain_level_def)
  have m: "mtch p (l @ CHR ''/'' # fs) t =
     (t = l \<and> fs = ''#'' \<or> (\<exists>t'. t = l @ CHR ''/'' # t' \<and> mtch (Some (CHR ''/'')) fs t'))"
    using mtch_plain [OF assms(1,2), of p "CHR ''/'' # fs" t] by (simp add: mtch_sep ex_append_cases)
  show ?thesis
  proof (cases t rule: level_cases)
    case one
    then have "\<And>t'. t \<noteq> l @ CHR ''/'' # t'" by auto
    moreover have "levels_match (l # levels fs) (levels t) = (t = l \<and> fs = ''#'')"
      using one l by (auto simp: levels_single levels_match_nil)
    ultimately show ?thesis unfolding m by simp
  next
    case (more l' r)
    then have "proper_topic r" using assms(4) proper_topic_rest by blast
    with more assms(2) l show ?thesis
      unfolding m by (auto simp: levels_split IH dest: first_level_unique)
  qed
qed

lemma mtch_plus_last:
  assumes "at_level_start p" "proper_topic t"
  shows "mtch p ''+'' t = levels_match [''+''] (levels t)"
proof -
  have "mtch p ''+'' t = (CHR ''/'' \<notin> set t)"
    using mtch_level_plus [OF assms(1), of t "[]"] assms(2) by (simp add: proper_topic_def)
  then show ?thesis
    by (cases t rule: level_cases) (auto simp: levels_single levels_split)
qed

lemma mtch_plus_more:
  assumes "at_level_start p"
    and IH: "\<And>t'. proper_topic t' \<Longrightarrow>
       mtch (Some (CHR ''/'')) fs t' = levels_match (levels fs) (levels t')"
    and "proper_topic t"
  shows "mtch p (CHR ''+'' # CHR ''/'' # fs) t = levels_match (''+'' # levels fs) (levels t)"
proof -
  have t: "t \<noteq> []" using assms(3) by (simp add: proper_topic_def)
  show ?thesis
  proof (cases t rule: level_cases)
    case one
    then show ?thesis
      using mtch_level_plus [OF assms(1) t, of "CHR ''/'' # fs"]
      by (simp add: levels_single levels_match_nil)
  next
    case (more l r)
    then have "proper_topic r" using assms(3) proper_topic_rest by blast
    with more show ?thesis
      using mtch_level_plus [OF assms(1) t, of "CHR ''/'' # fs"]
      by (simp add: levels_split IH dropWhile_level)
  qed
qed

lemma mtch_levels:
  assumes "valid_levels (levels f)" "at_level_start p" "proper_topic t"
  shows "mtch p f t = levels_match (levels f) (levels t)"
  using assms
proof (induction "length f" arbitrary: f p t rule: less_induct)
  case less
  have t: "t \<noteq> []" using less.prems(3) by (simp add: proper_topic_def)
  show ?case
  proof (cases f rule: level_cases)
    case one
    then have lf: "levels f = [f]" by (rule levels_single)
    with less.prems(1) consider "f = ''#''" | "f = ''+''" | "plain_level f" by auto
    then show ?thesis
    proof cases
      case 1
      then show ?thesis
        using t less.prems(2) by (cases t; cases "levels t") (auto simp: lf)
    next
      case 2
      with mtch_plus_last [OF less.prems(2,3)] show ?thesis by simp
    next
      case 3
      with mtch_plain_last [OF 3 one less.prems(3)] lf show ?thesis by simp
    qed
  next
    case (more l r)
    then have lf: "levels f = l # levels r" by (simp add: levels_split)
    with less.prems(1) have v: "valid_levels (levels r)" and l: "l = ''+'' \<or> plain_level l"
      by auto
    have IH: "mtch (Some (CHR ''/'')) r t' = levels_match (levels r) (levels t')"
      if "proper_topic t'" for t'
      using less.hyps [of r "Some (CHR ''/'')" t'] more(1) v that
      by (simp add: at_level_start_def)
    from l show ?thesis
    proof
      assume "l = ''+''"
      with mtch_plus_more [OF less.prems(2) IH less.prems(3)] lf more(1) show ?thesis by simp
    next
      assume "plain_level l"
      from mtch_plain_more [OF this more(2) IH less.prems(3)] lf more(1) show ?thesis by simp
    qed
  qed
qed

section \<open>Malformed filters\<close>

text \<open>What is left of a filter, given the character before: mid-level it must go on with a
  plain rest of level, and after a wildcard with a separator.\<close>

definition valid_rest :: "char option \<Rightarrow> string \<Rightarrow> bool" where
  "valid_rest p fs \<longleftrightarrow>
     (if at_level_start p then valid_levels (levels fs)
      else plain_level (hd (levels fs)) \<and> valid_levels (tl (levels fs))
           \<and> (p = Some (CHR ''+'') \<longrightarrow> hd (levels fs) = []))"

lemma valid_rest_sep:
  "valid_rest (Some (CHR ''/'')) fs \<Longrightarrow> valid_rest p (CHR ''/'' # fs)"
  by (simp add: valid_rest_def at_level_start_def plain_level_def)

lemma valid_levels_Cons:
  "c \<noteq> CHR ''/'' \<Longrightarrow> plain_level (hd (levels fs)) \<Longrightarrow> valid_levels (tl (levels fs)) \<Longrightarrow>
   (c = CHR ''+'' \<longrightarrow> hd (levels fs) = []) \<Longrightarrow> c \<noteq> CHR ''#'' \<Longrightarrow> valid_levels (levels (c # fs))"
  by (auto simp: plain_level_def)

lemma mtch_valid_rest: "mtch p fs ts \<Longrightarrow> p \<noteq> Some (CHR ''+'') \<Longrightarrow> valid_rest p fs"
proof (induction p fs ts rule: mtch.induct)
  case (1 p c fs d ts)
  consider (hash) "c = CHR ''#''" | (plus) "c = CHR ''+''"
    | (lit) "c \<noteq> CHR ''#''" "c \<noteq> CHR ''+''" by blast
  then show ?case
  proof cases
    case hash
    with "1.prems" show ?thesis by (auto simp: valid_rest_def)
  next
    case lit
    with "1.prems" have "mtch (Some c) fs ts" "Some c \<noteq> Some (CHR ''+'')" by auto
    with lit "1.prems" have "valid_rest (Some c) fs" using "1.IH"(3) by auto
    then show ?thesis
      using lit "1.prems"(2) by (cases "c = CHR ''/''")
        (auto simp: valid_rest_def at_level_start_def plain_level_def)
  next
    case plus
    with "1.prems" have st: "at_level_start p" by (auto split: if_splits)
    let ?w = "dropWhile (\<lambda>x. x \<noteq> CHR ''/'') (d # ts)"
    from plus "1.prems"(1) have fs: "fs = [] \<or> hd fs = CHR ''/''"
      by (auto split: if_splits)
    show ?thesis
    proof (cases fs)
      case Nil
      with st plus show ?thesis by (simp add: valid_rest_def)
    next
      case (Cons e r)
      with fs have e: "fs = CHR ''/'' # r" by simp
      have "valid_levels (levels r)"
      proof (cases "?w = []")
        case True
        with plus "1.prems"(1) e st have "mtch (Some (CHR ''+'')) fs []"
          by (simp only: mtch.simps Let_def) simp
        then show ?thesis by (simp add: e)
      next
        case False
        with plus "1.prems"(1) e st have m: "mtch (Some (CHR ''/'')) r (tl ?w)"
          by (simp only: mtch.simps Let_def) simp
        have "\<not> (fs \<noteq> [] \<and> hd fs \<noteq> CHR ''/'')" "fs \<noteq> [] \<and> ?w \<noteq> []" using e False by auto
        from "1.IH"(1) [OF _ plus _ this(1) refl this(2)] m e st plus
        have "valid_rest (Some (CHR ''/'')) r" by simp
        then show ?thesis by (simp add: valid_rest_def at_level_start_def)
      qed
      with st plus e show ?thesis by (simp add: valid_rest_def)
    qed
  qed
qed (auto simp: valid_rest_def plain_level_def at_level_start_def)

lemma mqtt_topic_matches_levels:
  "proper_topic t \<Longrightarrow> mqtt_topic_matches (Some f) (Some t)
     = (valid_levels (levels f) \<and> levels_match (levels f) (levels t))"
  using mtch_levels [of f None t] mtch_valid_rest [of None f t]
  by (auto simp: mqtt_topic_matches_mtch valid_rest_def at_level_start_def)

section \<open>Building a topic\<close>

text \<open>\<open>strstr\<close>: the offset of the first occurrence.\<close>

fun strstr :: "string \<Rightarrow> string \<Rightarrow> nat option" where
  "strstr h n = (if prefix n h then Some 0
     else case h of [] \<Rightarrow> None | _ # t \<Rightarrow> map_option Suc (strstr t n))"

declare strstr.simps [simp del]

definition TOKEN :: "string" where
  "TOKEN = ''$DEVICE$''"

text \<open>\<open>append\<close>: \<open>used\<close> is the length of what the buffer holds.\<close>

definition append_topic :: "nat \<Rightarrow> string \<Rightarrow> string \<Rightarrow> bool \<times> string" where
  "append_topic out_size out txt =
     (if length out + length txt + 1 > out_size then (False, out) else (True, out @ txt))"

text \<open>The loop over the prefix, \<open>out\<close> being the buffer so far and \<open>p\<close> what is left.\<close>

function build_prefix :: "nat \<Rightarrow> string \<Rightarrow> string \<Rightarrow> string \<Rightarrow> bool \<times> string" where
  "build_prefix out_size name out p =
    (if p = [] then (True, out)
     else case strstr p TOKEN of
       None \<Rightarrow> append_topic out_size out p
     | Some hit \<Rightarrow>
         (let (ok1, out1) = append_topic out_size out (take hit p) in
          if \<not> ok1 then (False, out1)
          else let (ok2, out2) = append_topic out_size out1 name in
          if \<not> ok2 then (False, out2)
          else build_prefix out_size name out2 (drop (hit + length TOKEN) p)))"
  by pat_completeness auto
termination by (relation "measure (\<lambda>(_, _, _, p). length p)") (auto simp: TOKEN_def)

declare build_prefix.simps [simp del]

definition mqtt_topic_build :: "nat \<Rightarrow> cptr \<Rightarrow> cptr \<Rightarrow> cptr \<Rightarrow> bool \<times> string" where
  "mqtt_topic_build out_size pre device_name suf =
    (if out_size = 0 then (False, [])
     else
       let (ok1, out) = build_prefix out_size
             (case device_name of None \<Rightarrow> [] | Some d \<Rightarrow> d) []
             (case pre of None \<Rightarrow> [] | Some p \<Rightarrow> p) in
       if \<not> ok1 then (False, out)
       else case suf of None \<Rightarrow> (True, out) | Some sf \<Rightarrow>
         if sf = [] then (True, out)
         else
           let prefix_ends_slash = (length out > 0 \<and> last out = CHR ''/'');
               suffix_starts_slash = (hd sf = CHR ''/'') in
           if prefix_ends_slash \<and> suffix_starts_slash then append_topic out_size out (tl sf)
           else if length out > 0 \<and> \<not> prefix_ends_slash \<and> \<not> suffix_starts_slash then
             (let (ok2, out2) = append_topic out_size out ''/'' in
              if \<not> ok2 then (False, out2) else append_topic out_size out2 sf)
           else append_topic out_size out sf)"

definition mqtt_topic_needs_device :: "cptr \<Rightarrow> bool" where
  "mqtt_topic_needs_device pre =
     (case pre of None \<Rightarrow> False | Some p \<Rightarrow> strstr p ''$DEVICE$'' \<noteq> None)"

text \<open>The topic that is meant: every token replaced, then exactly one separator at the
  join unless one side is empty.\<close>

function subst_device :: "string \<Rightarrow> string \<Rightarrow> string" where
  "subst_device name p =
     (if p = [] then []
      else case strstr p TOKEN of None \<Rightarrow> p
      | Some hit \<Rightarrow> take hit p @ name @ subst_device name (drop (hit + length TOKEN) p))"
  by pat_completeness auto
termination by (relation "measure (\<lambda>(_, p). length p)") (auto simp: TOKEN_def)

declare subst_device.simps [simp del]

definition join_topic :: "string \<Rightarrow> string \<Rightarrow> string" where
  "join_topic a b =
     (if b = [] then a
      else if a \<noteq> [] \<and> last a = CHR ''/'' \<and> hd b = CHR ''/'' then a @ tl b
      else if a \<noteq> [] \<and> last a \<noteq> CHR ''/'' \<and> hd b \<noteq> CHR ''/'' then a @ ''/'' @ b
      else a @ b)"

definition whole_topic :: "cptr \<Rightarrow> cptr \<Rightarrow> cptr \<Rightarrow> string" where
  "whole_topic pre device_name suf =
     join_topic (subst_device (case device_name of None \<Rightarrow> [] | Some d \<Rightarrow> d)
                              (case pre of None \<Rightarrow> [] | Some p \<Rightarrow> p))
                (case suf of None \<Rightarrow> [] | Some sf \<Rightarrow> sf)"

lemma append_topic_spec:
  "append_topic n out txt =
     (if length (out @ txt) < n then (True, out @ txt) else (False, out))"
  by (auto simp: append_topic_def)

lemma append_topic_bound: "length out < n \<Longrightarrow> length (snd (append_topic n out txt)) < n"
  by (simp add: append_topic_def)

lemma build_prefix_spec:
  "length out < n \<Longrightarrow>
   fst (build_prefix n name out p) = (length (out @ subst_device name p) < n)
   \<and> (fst (build_prefix n name out p) \<longrightarrow> snd (build_prefix n name out p) = out @ subst_device name p)
   \<and> length (snd (build_prefix n name out p)) < n"
proof (induction n name out p rule: build_prefix.induct)
  case (1 n name out p)
  show ?case
  proof (cases "p = [] \<or> strstr p TOKEN = None")
    case True
    then show ?thesis
      using "1.prems"
      by (auto simp: build_prefix.simps [of n name out p] subst_device.simps [of name p]
          append_topic_spec split: if_splits)
  next
    case False
    then obtain hit where p: "p \<noteq> []" and hit: "strstr p TOKEN = Some hit" by auto
    define r where "r = drop (hit + length TOKEN) p"
    define o1 where "o1 = out @ take hit p"
    have sub: "subst_device name p = take hit p @ name @ subst_device name r"
      using p hit by (simp add: subst_device.simps [of name p] r_def)
    have bld: "build_prefix n name out p =
       (if length o1 < n then
          if length (o1 @ name) < n then build_prefix n name (o1 @ name) r else (False, o1)
        else (False, out))"
      using p hit by (simp add: build_prefix.simps [of n name out p] r_def o1_def append_topic_spec)
    show ?thesis
    proof (cases "length (o1 @ name) < n")
      case True
      then have fits: "append_topic n out (take hit p) = (True, o1)"
        "append_topic n o1 name = (True, o1 @ name)"
        by (simp_all add: append_topic_spec o1_def)
      have "length o1 < n" using True by simp
      with True have "build_prefix n name out p = build_prefix n name (o1 @ name) r"
        by (simp only: bld) simp
      moreover have "out @ subst_device name p = (o1 @ name) @ subst_device name r"
        by (simp add: sub o1_def)
      ultimately show ?thesis
        using "1.IH" [OF p hit fits(1) [symmetric] refl _ fits(2) [symmetric] refl] True
        by (simp only: r_def) simp
    next
      case False
      then have "build_prefix n name out p = (False, if length o1 < n then o1 else out)"
        by (simp only: bld) simp
      moreover have "\<not> length (out @ subst_device name p) < n"
        using False by (simp add: sub o1_def)
      ultimately show ?thesis using "1.prems" by simp
    qed
  qed
qed

lemma mqtt_topic_build_spec:
  "fst (mqtt_topic_build n pre d suf) = (length (whole_topic pre d suf) < n)
   \<and> (fst (mqtt_topic_build n pre d suf) \<longrightarrow>
        snd (mqtt_topic_build n pre d suf) = whole_topic pre d suf)
   \<and> length (snd (mqtt_topic_build n pre d suf)) \<le> n - 1"
proof (cases "n = 0")
  case True
  then show ?thesis by (simp add: mqtt_topic_build_def)
next
  case False
  define name where "name = (case d of None \<Rightarrow> [] | Some x \<Rightarrow> x)"
  define p where "p = (case pre of None \<Rightarrow> [] | Some x \<Rightarrow> x)"
  define a where "a = subst_device name p"
  obtain ok out where b: "build_prefix n name [] p = (ok, out)" by (cases "build_prefix n name [] p")
  have spec: "ok = (length a < n)" "ok \<Longrightarrow> out = a" "length out < n"
    using build_prefix_spec [of "[]" n name p] False b by (auto simp: a_def)
  have whole: "whole_topic pre d suf = join_topic a (case suf of None \<Rightarrow> [] | Some sf \<Rightarrow> sf)"
    by (simp add: whole_topic_def a_def name_def p_def)
  show ?thesis
  proof (cases ok)
    case True
    then have a: "length a < n" "build_prefix n (case d of None \<Rightarrow> [] | Some x \<Rightarrow> x) []
        (case pre of None \<Rightarrow> [] | Some x \<Rightarrow> x) = (True, a)"
      using spec b by (auto simp: name_def p_def)
    show ?thesis
    proof (cases suf)
      case None
      then show ?thesis
        using False a unfolding mqtt_topic_build_def whole by (auto simp: join_topic_def)
    next
      case (Some sf)
      show ?thesis
        using False a unfolding mqtt_topic_build_def whole
        by (cases a rule: rev_cases; cases sf)
           (simp_all add: Some join_topic_def append_topic_spec Let_def, arith+)
    qed
  next
    case F: False
    have "length a \<le> length (whole_topic pre d suf)"
      unfolding whole by (auto simp: join_topic_def)
    moreover have "build_prefix n (case d of None \<Rightarrow> [] | Some x \<Rightarrow> x) []
        (case pre of None \<Rightarrow> [] | Some x \<Rightarrow> x) = (False, out)"
      using F b by (simp add: name_def p_def)
    ultimately show ?thesis
      using False F spec by (simp add: mqtt_topic_build_def)
  qed
qed

text \<open>A prefix without the token is left as it is.\<close>

lemma subst_device_id: "strstr p TOKEN = None \<Longrightarrow> subst_device name p = p"
  by (simp add: subst_device.simps [of name p])

lemma mtch_slash_plus_end: "mtch p ''/+'' ''/'' = False"
  by simp

lemma mqtt_topic_matches_malformed:
  "mqtt_topic_matches (Some f) t \<Longrightarrow> valid_levels (levels f)"
  using mtch_valid_rest [of None f]
  by (cases t) (auto simp: mqtt_topic_matches_def match_loop_mtch prev_char_def
      valid_rest_def at_level_start_def)

section \<open>Properties\<close>

text \<open>C1. On a topic that is not empty and does not end in a separator,
  \<open>mqtt_topic_matches\<close> accepts exactly when the filter is well formed and its levels
  match the topic's levels by the MQTT wildcard rules (\<open>+\<close> one level, a final \<open>#\<close>
  everything below including the parent itself).\<close>
theorem topic_match_is_wildcard_rule:
  assumes "proper_topic topic"
  shows "mqtt_topic_matches (Some filt) (Some topic)
    \<longleftrightarrow> valid_levels (levels filt) \<and> levels_match (levels filt) (levels topic)"
  using assms by (rule mqtt_topic_matches_levels)

theorem topic_match_is_wildcard_rule_witness:
  "mqtt_topic_matches (Some ''a/+/#'') (Some ''a/b'')
   \<and> \<not> mqtt_topic_matches (Some ''a+/x'') (Some ''ab/x'')"
proof -
  have p: "proper_topic ''a/b''" "proper_topic ''ab/x''" by (simp_all add: proper_topic_def)
  show ?thesis
    using topic_match_is_wildcard_rule [OF p(1), of "''a/+/#''"]
      topic_match_is_wildcard_rule [OF p(2), of "''a+/x''"]
    by (simp add: plain_level_def)
qed

text \<open>A malformed filter (a wildcard that is not a whole level, or a \<open>#\<close> that is not
  the last character) never matches, whatever the topic.\<close>
theorem topic_malformed_filter_never_matches:
  assumes "\<not> valid_levels (levels filt)"
  shows "\<not> mqtt_topic_matches (Some filt) topic"
  using assms mqtt_topic_matches_malformed by blast

theorem topic_malformed_filter_never_matches_witness:
  "\<not> mqtt_topic_matches (Some ''a/#/b'') (Some ''a/x/b'')"
proof -
  have "\<not> valid_levels (levels ''a/#/b'')" by (simp add: plain_level_def)
  then show ?thesis by (rule topic_malformed_filter_never_matches)
qed

text \<open>A topic whose last level is empty is where the matcher and the wildcard rules part:
  for every plain level \<open>l\<close> the filter \<open>l/+\<close> matches \<open>l/\<close> by the rules
  (the specification's \<open>sport/+\<close> against \<open>sport/\<close>), but \<open>mqtt_topic_matches\<close>
  refuses it, because its loop ends with the topic before it looks at the wildcard.\<close>
theorem topic_empty_last_level_missed:
  assumes "plain_level l" and "CHR ''/'' \<notin> set l"
  shows "levels_match (levels (l @ ''/+'')) (levels (l @ ''/''))
     \<and> \<not> mqtt_topic_matches (Some (l @ ''/+'')) (Some (l @ ''/''))"
  using assms mtch_plain [OF assms, of None "''/+''" "l @ ''/''"]
  by (auto simp: levels_split mqtt_topic_matches_mtch mtch_slash_plus_end plain_level_def)

theorem topic_empty_last_level_missed_witness:
  "\<not> mqtt_topic_matches (Some ''sport/+'') (Some ''sport/'')"
  using topic_empty_last_level_missed [of "''sport''"] by (simp add: plain_level_def)

text \<open>\<open>mqtt_topic_build\<close> succeeds exactly when the whole topic (every
  \<open>$DEVICE$\<close> replaced, one separator at the join) and its terminator fit, and then the
  buffer holds that topic and nothing less; on no input does it write past the buffer.\<close>
theorem topic_build_exact_or_refused:
  "mqtt_topic_build n pre dev suf =
     (if length (whole_topic pre dev suf) < n then (True, whole_topic pre dev suf)
      else (False, snd (mqtt_topic_build n pre dev suf)))
   \<and> length (snd (mqtt_topic_build n pre dev suf)) \<le> n - 1"
  using mqtt_topic_build_spec [of n pre dev suf] by (auto simp: prod_eq_iff)

end
