(* ===== verification/Http_Auth.thy ===== *)
theory Http_Auth
  imports Prelude "HOL-Library.Char_ord"
begin

unbundle bit_operations_syntax

text \<open>
  The credential code of \<open>http_server/src/http_auth.c\<close>: Base64, the expected
  \<open>Authorization\<close> header, and the comparison whose time does not depend on where the
  first difference is. Bytes stay words; the groups of three are taken off the front of
  the input as the loop index does. A decoder (RFC 4648) serves as the reference.
\<close>

section \<open>Base64\<close>

definition B64 :: string where
  "B64 = ''ABCDEFGHIJKLMNOPQRSTUVWXYZabcdefghijklmnopqrstuvwxyz0123456789+/''"

text \<open>\<open>(uint32_t)(unsigned char)c\<close>\<close>

definition byte_val :: "char \<Rightarrow> 32 word" where
  "byte_val c = word_of_nat (of_char c)"

text \<open>\<open>B64[(v >> s) & 0x3f]\<close>\<close>

definition b64_char :: "32 word \<Rightarrow> nat \<Rightarrow> char" where
  "b64_char v s = B64 ! unat (drop_bit s v AND 0x3f)"

fun b64_groups :: "string \<Rightarrow> string" where
  "b64_groups (a # b # c # rest) =
    (let v = push_bit 16 (byte_val a) OR push_bit 8 (byte_val b) OR byte_val c in
     [b64_char v 18, b64_char v 12, b64_char v 6, b64_char v 0] @ b64_groups rest)"
| "b64_groups [a] =
    (let v = push_bit 16 (byte_val a) in
     [b64_char v 18, b64_char v 12, CHR ''='', CHR ''=''])"
| "b64_groups [a, b] =
    (let v = push_bit 16 (byte_val a) OR push_bit 8 (byte_val b) in
     [b64_char v 18, b64_char v 12, b64_char v 6, CHR ''=''])"
| "b64_groups [] = []"

text \<open>\<open>None\<close> is the \<open>false\<close> of the C function; the buffer is then untouched.\<close>

definition http_auth_base64 :: "cptr \<Rightarrow> nat \<Rightarrow> string option" where
  "http_auth_base64 inp out_size =
    (case inp of None \<Rightarrow> None
     | Some s \<Rightarrow>
        (let encoded_len = ((length s + 2) div 3) * 4 in
         if encoded_len + 1 > out_size then None else Some (b64_groups s)))"

section \<open>The expected header\<close>

text \<open>\<open>old\<close> is what the output buffer held; a failing encode leaves it with the prefix
  already copied over its first six bytes.\<close>

definition BASIC_PREFIX :: string where
  "BASIC_PREFIX = ''Basic ''"

definition http_auth_expected_header :: "cptr \<Rightarrow> cptr \<Rightarrow> nat \<Rightarrow> string \<Rightarrow> bool \<times> string" where
  "http_auth_expected_header user password out_size old =
    (case (user, password) of
       (Some u, Some p) \<Rightarrow>
         (let (n, plain) = snprintf 128 (u @ '':'' @ p) in
          if n \<ge> 128 then (False, old)
          else
            let prefix_len = length BASIC_PREFIX in
            if prefix_len \<ge> out_size then (False, old)
            else case http_auth_base64 (Some plain) (out_size - prefix_len) of
                   Some e \<Rightarrow> (True, BASIC_PREFIX @ e)
                 | None \<Rightarrow> (False, BASIC_PREFIX @ drop prefix_len old))
     | _ \<Rightarrow> (False, old))"

section \<open>The comparison\<close>

text \<open>\<open>diff |= (unsigned char)(h ^ expected[i])\<close> for every index of the expected value.\<close>

fun diff_loop :: "string \<Rightarrow> string \<Rightarrow> nat \<Rightarrow> 8 word \<Rightarrow> 8 word" where
  "diff_loop header [] i diff = diff"
| "diff_loop header (e # es) i diff =
    (let h = (if i < length header then header ! i else CHR 0x00) in
     diff_loop header es (i + 1)
       (diff OR (word_of_nat (of_char h) XOR word_of_nat (of_char e))))"

definition http_auth_header_matches :: "cptr \<Rightarrow> cptr \<Rightarrow> bool" where
  "http_auth_header_matches header expected =
    (case (header, expected) of
       (Some h, Some e) \<Rightarrow>
         (let diff = (if length e XOR length h \<noteq> 0 then 1 else 0) in
          diff_loop h e 0 diff = 0)
     | _ \<Rightarrow> False)"

section \<open>The comparison is equality\<close>

lemma or_eq_0_word: "(a OR b = (0 :: 'a::len word)) = (a = 0 \<and> b = 0)"
  by (metis or.right_neutral or_eq_0_iff)

lemma byte8_inj: "(word_of_nat (of_char a) :: 8 word) = word_of_nat (of_char b) \<longleftrightarrow> a = b"
proof -
  have "unat (word_of_nat (of_char c) :: 8 word) = of_char c" for c :: char
    by (simp add: unat_of_nat)
  then show ?thesis by (metis of_char_eq_iff)
qed

lemma byte8_0: "(word_of_nat (of_char a) :: 8 word) = 0 \<longleftrightarrow> CHR 0x00 = a"
  using byte8_inj [of a "CHR 0x00"] by auto

lemma diff_loop_0:
  "diff_loop header es i diff = 0 \<longleftrightarrow>
     diff = 0 \<and> (\<forall>k < length es. (if i + k < length header then header ! (i + k) else CHR 0x00) = es ! k)"
proof (induction es arbitrary: i diff)
  case Nil
  then show ?case by simp
next
  case (Cons e es)
  then show ?case
    by (simp add: Let_def or_eq_0_word xor_eq_0_iff byte8_inj byte8_0 all_less_Suc_iff)
qed

lemma http_auth_header_matches_iff:
  "http_auth_header_matches (Some h) (Some e) \<longleftrightarrow> h = e"
proof -
  have "length e XOR length h \<noteq> 0 \<longleftrightarrow> length e \<noteq> length h"
    by (simp add: xor_eq_0_iff)
  then show ?thesis
    by (auto simp: http_auth_header_matches_def diff_loop_0 intro: nth_equalityI)
qed

section \<open>Decoding gives the input bk\<close>

text \<open>The decoder of RFC 4648, on the positions of the alphabet.\<close>

fun index_of :: "'a list \<Rightarrow> 'a \<Rightarrow> nat option" where
  "index_of [] x = None"
| "index_of (y # ys) x = (if x = y then Some 0 else map_option Suc (index_of ys x))"

definition sextet :: "char \<Rightarrow> nat" where
  "sextet c = (case index_of B64 c of Some i \<Rightarrow> i | None \<Rightarrow> 0)"

fun b64_decode :: "string \<Rightarrow> string" where
  "b64_decode (a # b # c # d # rest) =
    (let n = sextet a * 262144 + sextet b * 4096 + sextet c * 64 + sextet d;
         bytes = [char_of (n div 65536), char_of (n div 256 mod 256), char_of (n mod 256)] in
     (if c = CHR ''='' then take 1 bytes else if d = CHR ''='' then take 2 bytes else bytes)
     @ b64_decode rest)"
| "b64_decode _ = []"

lemma index_of_nth: "distinct xs \<Longrightarrow> i < length xs \<Longrightarrow> index_of xs (xs ! i) = Some i"
  by (induction xs arbitrary: i) (auto simp: nth_Cons split: nat.splits)

lemma length_B64 [simp]: "length B64 = 64"
  by (simp add: B64_def)

lemma distinct_B64: "distinct B64"
  by (simp add: B64_def)

lemma sextet_B64 [simp]: "i < 64 \<Longrightarrow> sextet (B64 ! i) = i"
  by (simp add: sextet_def index_of_nth distinct_B64)

lemma sextet_pad [simp]: "sextet (CHR ''='') = 0"
  by (simp add: sextet_def B64_def)

lemma B64_no_pad [simp]: "i < 64 \<Longrightarrow> B64 ! i \<noteq> CHR ''=''"
proof -
  assume "i < 64"
  then have "B64 ! i \<in> set B64" by (intro nth_mem) simp
  moreover have "CHR ''='' \<notin> set B64" by (simp add: B64_def)
  ultimately show ?thesis by auto
qed

lemma sextet_index:
  "unat (drop_bit s v AND 0x3f) = unat v div 2 ^ s mod 64" for v :: "32 word"
proof -
  have "(0x3f :: 32 word) = mask 6" by (simp add: mask_eq_exp_minus_1)
  then have "drop_bit s v AND 0x3f = take_bit 6 (drop_bit s v)" by (simp add: take_bit_eq_mask)
  then have "unat (drop_bit s v AND 0x3f) = take_bit 6 (drop_bit s (unat v))"
    by (simp add: unsigned_take_bit_eq unat_drop_bit_eq)
  then show ?thesis by (simp add: take_bit_eq_mod drop_bit_eq_div)
qed

lemma byte_val_unat [simp]: "unat (byte_val c) = of_char c"
proof -
  have "(of_char c :: nat) < 2 ^ 32" by (rule less_trans [OF of_char_less_256]) simp
  then show ?thesis by (simp add: byte_val_def unat_of_nat)
qed

lemma bit_byte_val: "bit (byte_val c) n \<Longrightarrow> n < 8"
proof -
  assume "bit (byte_val c) n"
  then have "bit (of_char c :: nat) n" by (simp add: bit_unsigned_iff flip: byte_val_unat)
  moreover have "take_bit 8 (of_char c :: nat) = of_char c" by (simp add: take_bit_nat_eq_self)
  ultimately show "n < 8" by (metis bit_take_bit_iff)
qed

lemma unat_push_byte:
  "n \<le> 16 \<Longrightarrow> unat (push_bit n (byte_val c)) = of_char c * 2 ^ n"
proof -
  assume n: "n \<le> 16"
  have "(of_char c :: nat) * 2 ^ n < 256 * 2 ^ 16"
    using n by (intro mult_less_le_imp_less power_increasing) simp_all
  then show ?thesis
    by (simp add: unsigned_push_bit_eq) (simp add: push_bit_eq_mult take_bit_nat_eq_self)
qed

text \<open>The three bytes as one number.\<close>

lemma unat_three_bytes:
  "unat (push_bit 16 (byte_val a) OR push_bit 8 (byte_val b) OR byte_val c)
     = of_char a * 65536 + of_char b * 256 + of_char c"
proof -
  have "push_bit 16 (byte_val a) OR push_bit 8 (byte_val b) OR byte_val c
      = push_bit 16 (byte_val a) + (push_bit 8 (byte_val b) + byte_val c)"
    by (subst disjunctive_add_eq_or [symmetric], simp add: bit_eq_iff bit_simps,
        use bit_byte_val in fastforce)
      (subst disjunctive_add_eq_or [symmetric], simp add: bit_eq_iff bit_simps,
        use bit_byte_val in fastforce, simp)
  moreover have "(of_char a :: nat) * 65536 + of_char b * 256 + of_char c < 4294967296"
      "(of_char b :: nat) * 256 + of_char c < 4294967296"
    using of_char_less_256 [of a] of_char_less_256 [of b] of_char_less_256 [of c] by linarith+
  ultimately show ?thesis
    using unat_push_byte [of 16 a] unat_push_byte [of 8 b]
    by (simp add: unat_word_ariths)
qed

lemma byte_val_NUL [simp]: "byte_val (CHR 0x00) = 0"
  by (simp add: byte_val_def)

lemma unat_two_bytes:
  "unat (push_bit 16 (byte_val a) OR push_bit 8 (byte_val b)) = of_char a * 65536 + of_char b * 256"
  using unat_three_bytes [of a b "CHR 0x00"] by simp

lemma unat_one_byte: "unat (push_bit 16 (byte_val a)) = of_char a * 65536"
  using unat_three_bytes [of a "CHR 0x00" "CHR 0x00"] by simp

lemma sextet_b64_char [simp]: "sextet (b64_char v s) = unat v div 2 ^ s mod 64"
  by (simp add: b64_char_def sextet_index)

lemma b64_char_no_pad [simp]: "b64_char v s \<noteq> CHR ''=''"
  by (simp add: b64_char_def sextet_index)

text \<open>Four sextets are the 24 bits they were cut from.\<close>

lemma sextets_sum:
  assumes "n < 16777216"
  shows "n div 262144 mod 64 * 262144 + n div 4096 mod 64 * 4096 + n div 64 mod 64 * 64 + n mod 64
       = (n :: nat)"
proof -
  have "n div 262144 < 64" using assms by (simp add: div_less_iff_less_mult)
  then have "n div 262144 mod 64 = n div 262144" by simp
  moreover have "n div 4096 = n div 262144 * 64 + n div 4096 mod 64"
    using div_mult_mod_eq [of "n div 4096" 64] by (simp add: div_mult2_eq [symmetric])
  moreover have "n div 64 = n div 4096 * 64 + n div 64 mod 64"
    using div_mult_mod_eq [of "n div 64" 64] by (simp add: div_mult2_eq [symmetric])
  ultimately show ?thesis using div_mult_mod_eq [of n 64] by arith
qed

lemma three_bytes_back:
  fixes a b c :: nat
  assumes "a < 256" "b < 256" "c < 256" "n = a * 65536 + b * 256 + c"
  shows "n div 65536 = a" "n div 256 mod 256 = b" "n mod 256 = c" "n < 16777216"
proof -
  have n: "n = (a * 256 + b) * 256 + c" using assms(4) by simp
  then have q: "n div 256 = a * 256 + b" using assms(3) by simp
  then show "n div 256 mod 256 = b" using assms(2) by simp
  have "n div 65536 = n div 256 div 256" by (simp add: div_mult2_eq [symmetric])
  then show "n div 65536 = a" using q assms(2) by simp
  show "n mod 256 = c" unfolding n using assms(3) by (subst mod_mult_self3) simp
  show "n < 16777216" using assms by simp
qed

lemma char_of_byte: "m mod 256 = of_char c \<Longrightarrow> char_of (m :: nat) = c"
  by (metis char_of_char char_of_mod_256)

lemma b64_decode_quad:
  assumes "sextet a * 262144 + sextet b * 4096 + sextet c * 64 + sextet d = n"
  shows "b64_decode (a # b # c # d # r) =
    (if c = CHR ''='' then [char_of (n div 65536)]
     else if d = CHR ''='' then [char_of (n div 65536), char_of (n div 256)]
     else [char_of (n div 65536), char_of (n div 256), char_of n]) @ b64_decode r"
  unfolding b64_decode.simps assms Let_def by simp

lemma quad_sextets:
  assumes "unat v < 16777216"
  shows "sextet (b64_char v 18) * 262144 + sextet (b64_char v 12) * 4096
     + sextet (b64_char v 6) * 64 + sextet (b64_char v 0) = unat v"
  using sextets_sum [OF assms] assms by (simp add: div_less_iff_less_mult)

lemma b64_decode_full:
  assumes "unat v < 16777216"
  shows "b64_decode ([b64_char v 18, b64_char v 12, b64_char v 6, b64_char v 0] @ r)
    = [char_of (unat v div 65536), char_of (unat v div 256), char_of (unat v)] @ b64_decode r"
  by (simp only: append.simps b64_decode_quad [OF quad_sextets [OF assms]] b64_char_no_pad if_False)

lemma b64_decode_two_pads:
  assumes "unat v < 16777216" "unat v mod 4096 = 0"
  shows "b64_decode [b64_char v 18, b64_char v 12, CHR ''='', CHR ''='']
    = [char_of (unat v div 65536)]"
proof -
  have "unat v div 64 mod 64 = 0" "unat v mod 64 = 0"
    using assms(2) mod_mult2_eq [of "unat v" 64 64] by simp_all
  with sextets_sum [OF assms(1)]
  have "sextet (b64_char v 18) * 262144 + sextet (b64_char v 12) * 4096
     + sextet (CHR ''='') * 64 + sextet (CHR ''='') = unat v"
    using assms(1) by (simp add: div_less_iff_less_mult)
  from b64_decode_quad [OF this, of "[]"] show ?thesis
    by (simp del: b64_decode.simps(1))
qed

lemma b64_decode_one_pad:
  assumes "unat v < 16777216" "unat v mod 64 = 0"
  shows "b64_decode [b64_char v 18, b64_char v 12, b64_char v 6, CHR ''='']
    = [char_of (unat v div 65536), char_of (unat v div 256)]"
proof -
  from assms(2) sextets_sum [OF assms(1)]
  have "sextet (b64_char v 18) * 262144 + sextet (b64_char v 12) * 4096
     + sextet (b64_char v 6) * 64 + sextet (CHR ''='') = unat v"
    using assms(1) by (simp add: div_less_iff_less_mult)
  from b64_decode_quad [OF this, of "[]"] show ?thesis
    by (simp del: b64_decode.simps(1))
qed

lemma b64_decode_groups: "b64_decode (b64_groups s) = s"
proof (induction s rule: b64_groups.induct)
  case (1 a b c rest)
  note bk = three_bytes_back [OF of_char_less_256 of_char_less_256 of_char_less_256
      unat_three_bytes [of a b c]]
  show ?case
    unfolding b64_groups.simps Let_def b64_decode_full [OF bk(4)]
    using 1 bk(1) char_of_byte [OF bk(2)] char_of_byte [OF bk(3)] by simp
next
  case (2 a)
  have v: "unat (push_bit 16 (byte_val a)) = of_char a * 65536 + 0 * 256 + 0"
    by (simp add: unat_one_byte)
  note bk = three_bytes_back [OF of_char_less_256 zero_less_numeral zero_less_numeral v]
  have m: "unat (push_bit 16 (byte_val a)) = of_char a * 16 * 4096"
    by (simp add: unat_one_byte)
  have "unat (push_bit 16 (byte_val a)) mod 4096 = 0"
    by (simp only: m mod_mult_self2_is_0)
  from b64_decode_two_pads [OF bk(4) this] bk(1) show ?case by (simp add: Let_def)
next
  case (3 a b)
  have v: "unat (push_bit 16 (byte_val a) OR push_bit 8 (byte_val b))
      = of_char a * 65536 + of_char b * 256 + 0"
    by (simp add: unat_two_bytes)
  note bk = three_bytes_back [OF of_char_less_256 of_char_less_256 zero_less_numeral v]
  have m: "unat (push_bit 16 (byte_val a) OR push_bit 8 (byte_val b))
      = (of_char a * 1024 + of_char b * 4) * 64"
    by (simp add: unat_two_bytes)
  have "unat (push_bit 16 (byte_val a) OR push_bit 8 (byte_val b)) mod 64 = 0"
    by (simp only: m mod_mult_self2_is_0)
  from b64_decode_one_pad [OF bk(4) this] bk(1) char_of_byte [OF bk(2)]
  show ?case by (simp add: Let_def)
next
  case 4
  then show ?case by simp
qed

lemma length_b64_groups: "length (b64_groups s) = ((length s + 2) div 3) * 4"
proof (induction s rule: b64_groups.induct)
  case (1 a b c rest)
  have "(length rest + 5) div 3 = Suc ((length rest + 2) div 3)" by arith
  with 1 show ?case by (simp add: Let_def add.commute)
qed (simp_all add: Let_def)

lemma b64_groups_inj: "b64_groups s = b64_groups t \<longleftrightarrow> s = t"
  by (metis b64_decode_groups)

lemma http_auth_base64_eq:
  "http_auth_base64 (Some s) n = (if length (b64_groups s) < n then Some (b64_groups s) else None)"
  by (auto simp: http_auth_base64_def length_b64_groups Let_def)

lemma http_auth_expected_header_ok:
  "fst (http_auth_expected_header (Some u) (Some p) n old) \<Longrightarrow>
   http_auth_expected_header (Some u) (Some p) n old
     = (True, BASIC_PREFIX @ b64_groups (u @ '':'' @ p))"
  by (auto simp: http_auth_expected_header_def snprintf_def http_auth_base64_eq Let_def
      split: if_splits option.splits)

lemma http_auth_expected_header_iff:
  "fst (http_auth_expected_header (Some u) (Some p) n old) \<longleftrightarrow>
     length u + length p < 127 \<and> length BASIC_PREFIX + length (b64_groups (u @ '':'' @ p)) < n"
proof (cases "length u + length p < 127")
  case True
  then show ?thesis
    by (auto simp: http_auth_expected_header_def snprintf_def http_auth_base64_eq Let_def
        split: if_splits option.splits)
qed (simp add: http_auth_expected_header_def snprintf_def)

lemma first_colon_unique:
  assumes "CHR '':'' \<notin> set u" "CHR '':'' \<notin> set u'" "u @ '':'' @ p = u' @ '':'' @ p'"
  shows "u = u' \<and> p = p'"
  using assms
proof (induction u arbitrary: u')
  case Nil
  then show ?case by (cases u') auto
next
  case (Cons c u)
  then show ?case by (cases u') auto
qed

section \<open>Properties\<close>

text \<open>\<open>http_auth_header_matches\<close> answers whether the two headers are the same
  string: the accumulated XOR over every index, clamped reads and the length difference
  included, is zero exactly on equality, and a missing header never matches.\<close>
theorem auth_compare_is_equality:
  "http_auth_header_matches header expected \<longleftrightarrow> (\<exists>s. header = Some s \<and> expected = Some s)"
  by (cases header; cases expected)
     (auto simp: http_auth_header_matches_iff, simp_all add: http_auth_header_matches_def)

text \<open>\<open>http_auth_base64\<close> writes exactly when the encoding and its terminator fit, the
  encoding is four characters per group of three bytes or part of one, and decoding it
  gives the input back.\<close>
theorem auth_base64_roundtrip:
  "http_auth_base64 (Some s) n = (if length (b64_groups s) < n then Some (b64_groups s) else None)
   \<and> length (b64_groups s) = ((length s + 2) div 3) * 4
   \<and> b64_decode (b64_groups s) = s"
  by (simp add: http_auth_base64_eq length_b64_groups b64_decode_groups)

text \<open>C2. Comparing encoded headers is comparing credentials: when both expected headers can
  be built and neither user name holds a colon, one client's header passes the other's
  check exactly when user and password are the same.\<close>
theorem auth_header_identifies_credentials:
  assumes "http_auth_expected_header (Some u) (Some p) n old = (True, h)"
    and "http_auth_expected_header (Some u') (Some p') n' old' = (True, h')"
    and "CHR '':'' \<notin> set u" and "CHR '':'' \<notin> set u'"
  shows "http_auth_header_matches (Some h') (Some h) \<longleftrightarrow> u' = u \<and> p' = p"
proof -
  have "h = BASIC_PREFIX @ b64_groups (u @ '':'' @ p)"
    and "h' = BASIC_PREFIX @ b64_groups (u' @ '':'' @ p')"
    using assms(1,2) http_auth_expected_header_ok [of u p n old]
      http_auth_expected_header_ok [of u' p' n' old'] by simp_all
  then have "http_auth_header_matches (Some h') (Some h) \<longleftrightarrow> u' @ '':'' @ p' = u @ '':'' @ p"
    by (simp add: http_auth_header_matches_iff b64_groups_inj)
  with first_colon_unique [OF assms(4,3)] show ?thesis by auto
qed

theorem auth_header_identifies_credentials_witness:
  "\<exists>h h'. http_auth_expected_header (Some ''admin'') (Some ''pw1'') 160 [] = (True, h)
     \<and> http_auth_expected_header (Some ''admin'') (Some ''pw2'') 160 [] = (True, h')
     \<and> \<not> http_auth_header_matches (Some h') (Some h)"
proof -
  have "fst (http_auth_expected_header (Some ''admin'') (Some p) 160 [])" if "length p = 3" for p
    using that by (simp add: http_auth_expected_header_iff length_b64_groups BASIC_PREFIX_def
        del: b64_groups.simps)
  then obtain h h' where
    1: "http_auth_expected_header (Some ''admin'') (Some ''pw1'') 160 [] = (True, h)" and
    2: "http_auth_expected_header (Some ''admin'') (Some ''pw2'') 160 [] = (True, h')"
    by (metis (no_types, lifting) http_auth_expected_header_ok length_Cons list.size(3) numeral_3_eq_3)
  from auth_header_identifies_credentials [OF 1 2] have "\<not> http_auth_header_matches (Some h') (Some h)"
    by simp
  with 1 2 show ?thesis by blast
qed

end
