(* ===== verification/Config_Store.thy ===== *)
theory Config_Store
  imports Prelude
begin

text \<open>
  The config file store of \<open>config_store/src/config_store.c\<close>: a canonical file, its
  backup and a temporary, on a file system reached through stdio. The file system is
  explicit state. Every call that can fail takes its outcome from a list the environment
  chooses, \<open>stat\<close> included, so a statement about all outcome lists covers every pattern of failures; and
  every primitive records the file table it leaves, so a statement about the record covers
  a power loss after any primitive.
\<close>

section \<open>The file system\<close>

datatype node = Reg string | Other_node

type_synonym files = "string \<rightharpoonup> node"

text \<open>What the environment decides for one call: it works, it fails, or (for writes) it
  stops after some bytes.\<close>

datatype outcome = Succeed | Fail | Short nat

text \<open>\<open>replaces\<close>: whether \<open>rename()\<close> replaces an existing target (POSIX) or refuses
  (FAT and others ESP-IDF ships). \<open>history\<close> is the file table after every primitive,
  latest first. \<open>stat_works\<close>: the answers of the coming calls of \<open>stat()\<close>, which has a list of its
  own; beyond its end it works.\<close>

record world =
  files :: files
  outcomes :: "outcome list"
  stat_works :: "bool list"
  replaces :: bool
  history :: "files list"

definition next_outcome :: "world \<Rightarrow> outcome \<times> world" where
  "next_outcome w =
     (case outcomes w of [] \<Rightarrow> (Succeed, w) | c # cs \<Rightarrow> (c, w\<lparr>outcomes := cs\<rparr>))"

definition commit :: "files \<Rightarrow> world \<Rightarrow> world" where
  "commit fs w = w\<lparr>files := fs, history := fs # history w\<rparr>"

text \<open>\<open>stat\<close> and the test for a regular file: its size. None for anything else, and for a call that
  fails on a file that is there.\<close>

definition stat_fails :: "world \<Rightarrow> bool" where
  "stat_fails w \<longleftrightarrow> (case stat_works w of [] \<Rightarrow> False | b # bs \<Rightarrow> \<not> b)"

definition fs_stat :: "string \<Rightarrow> world \<Rightarrow> nat option \<times> world" where
  "fs_stat p w =
     (case files w p of Some (Reg d) \<Rightarrow> if stat_fails w then None else Some (length d) | _ \<Rightarrow> None,
      w\<lparr>stat_works := tl (stat_works w)\<rparr>)"

definition file_exists :: "cptr \<Rightarrow> world \<Rightarrow> bool \<times> world" where
  "file_exists p w =
     (case p of None \<Rightarrow> (False, w) | Some q \<Rightarrow> let (sz, w) = fs_stat q w in (sz \<noteq> None, w))"

definition fs_unlink :: "string \<Rightarrow> world \<Rightarrow> bool \<times> world" where
  "fs_unlink p w =
     (let (c, w) = next_outcome w in
      case files w p of
        Some (Reg _) \<Rightarrow>
          if c = Succeed then (True, commit ((files w)(p := None)) w) else (False, w)
      | _ \<Rightarrow> (False, w))"

definition fs_rename :: "string \<Rightarrow> string \<Rightarrow> world \<Rightarrow> bool \<times> world" where
  "fs_rename a b w =
     (let (c, w) = next_outcome w in
      case files w a of
        None \<Rightarrow> (False, w)
      | Some n \<Rightarrow>
          if c \<noteq> Succeed then (False, w)
          else if a = b then (True, w)
          else if files w b \<noteq> None \<and> (n = Other_node \<or> files w b = Some Other_node \<or> \<not> replaces w) then (False, w)
          else (True, commit ((files w)(b := Some n, a := None)) w))"

definition fs_fopen_wb :: "string \<Rightarrow> world \<Rightarrow> bool \<times> world" where
  "fs_fopen_wb p w =
     (let (c, w) = next_outcome w in
      if c \<noteq> Succeed \<or> files w p = Some Other_node then (False, w)
      else (True, commit ((files w)(p := Some (Reg []))) w))"

text \<open>\<open>fwrite\<close> to the freshly opened file \<open>p\<close>: the number of bytes taken.\<close>

definition fs_fwrite :: "string \<Rightarrow> string \<Rightarrow> world \<Rightarrow> nat \<times> world" where
  "fs_fwrite p data w =
     (let (c, w) = next_outcome w;
          k = (case c of Succeed \<Rightarrow> length data | Fail \<Rightarrow> 0 | Short k \<Rightarrow> min k (length data)) in
      (k, commit ((files w)(p := Some (Reg (take k data)))) w))"

text \<open>A flush that fails leaves whatever part of the buffer reached the medium.\<close>

definition fs_fflush :: "string \<Rightarrow> world \<Rightarrow> bool \<times> world" where
  "fs_fflush p w =
     (let (c, w) = next_outcome w;
          d = (case files w p of Some (Reg d) \<Rightarrow> d | _ \<Rightarrow> []) in
      case c of Succeed \<Rightarrow> (True, w)
      | Fail \<Rightarrow> (False, commit ((files w)(p := Some (Reg []))) w)
      | Short k \<Rightarrow> (False, commit ((files w)(p := Some (Reg (take k d)))) w))"

definition fs_fclose :: "world \<Rightarrow> bool \<times> world" where
  "fs_fclose w = (let (c, w) = next_outcome w in (c = Succeed, w))"

text \<open>\<open>fopen(p, "rb")\<close> followed by \<open>fread\<close> of \<open>n\<close> bytes.\<close>

definition fs_fopen_rb :: "string \<Rightarrow> world \<Rightarrow> bool \<times> world" where
  "fs_fopen_rb p w =
     (let (c, w) = next_outcome w in
      (c = Succeed \<and> (case files w p of Some (Reg _) \<Rightarrow> True | _ \<Rightarrow> False), w))"

definition fs_fread :: "string \<Rightarrow> nat \<Rightarrow> world \<Rightarrow> string \<times> world" where
  "fs_fread p n w =
     (let (c, w) = next_outcome w;
          d = (case files w p of Some (Reg d) \<Rightarrow> take n d | _ \<Rightarrow> []) in
      (case c of Succeed \<Rightarrow> d | Fail \<Rightarrow> [] | Short k \<Rightarrow> take k d, w))"

section \<open>The store\<close>

definition BACKUP_SUFFIX :: string where "BACKUP_SUFFIX = ''.bak''"
definition TEMP_SUFFIX :: string where "TEMP_SUFFIX = ''.new''"
definition MAX_PATH :: nat where "MAX_PATH = 128"

datatype config_store_source_t =
    CONFIG_STORE_SOURCE_NONE
  | CONFIG_STORE_SOURCE_PRIMARY
  | CONFIG_STORE_SOURCE_OVERRIDE
  | CONFIG_STORE_SOURCE_BACKUP

text \<open>The configuration a caller passes may have a NULL path; the one stored has not.\<close>

record config_store_config_t =
  cfg_path :: cptr
  override_path :: cptr
  max_size :: nat

record store =
  s_cfg :: config_store_config_t
  s_ready :: bool

definition store_path :: "store \<Rightarrow> string" where
  "store_path st = (case cfg_path (s_cfg st) of Some p \<Rightarrow> p | None \<Rightarrow> [])"

definition suffixed :: "string \<Rightarrow> string \<Rightarrow> nat \<Rightarrow> esp_err_t \<times> string" where
  "suffixed p suf out_size =
     (let (n, out) = snprintf out_size (p @ suf) in
      if n \<ge> out_size then (ESP_ERR_INVALID_SIZE, out) else (ESP_OK, out))"

definition config_store_init :: "config_store_config_t option \<Rightarrow> store \<Rightarrow> esp_err_t \<times> store" where
  "config_store_init cfg st =
    (case cfg of None \<Rightarrow> (ESP_ERR_INVALID_ARG, st)
     | Some c \<Rightarrow>
       (case cfg_path c of None \<Rightarrow> (ESP_ERR_INVALID_ARG, st)
        | Some p \<Rightarrow>
          if p = [] then (ESP_ERR_INVALID_ARG, st)
          else if fst (suffixed p BACKUP_SUFFIX MAX_PATH) \<noteq> ESP_OK
                  \<or> fst (suffixed p TEMP_SUFFIX MAX_PATH) \<noteq> ESP_OK
          then (ESP_ERR_INVALID_SIZE, st)
          else (ESP_OK, st\<lparr>s_cfg := c, s_ready := True\<rparr>)))"

text \<open>\<open>read_file\<close>: the text read, when the result is \<open>ESP_OK\<close>.\<close>

definition read_file :: "string \<Rightarrow> nat \<Rightarrow> nat \<Rightarrow> world \<Rightarrow> (esp_err_t \<times> string) \<times> world" where
  "read_file p buf_size limit w =
    (case fs_stat p w of
       (Some sz, w) \<Rightarrow>
         (if limit \<noteq> 0 \<and> sz > limit then ((CONFIG_STORE_ERR_TOO_LARGE, []), w)
          else if sz + 1 > buf_size then ((CONFIG_STORE_ERR_TOO_LARGE, []), w)
          else
            let (opened, w) = fs_fopen_rb p w in
            if \<not> opened then ((ESP_ERR_NOT_FOUND, []), w)
            else
              let (got, w) = fs_fread p sz w in
              let (_, w) = fs_fclose w in
              if length got \<noteq> sz then ((ESP_FAIL, []), w) else ((ESP_OK, got), w))
     | (None, w) \<Rightarrow> ((ESP_ERR_NOT_FOUND, []), w))"

definition config_store_read ::
    "store \<Rightarrow> bool \<Rightarrow> nat \<Rightarrow> world \<Rightarrow> (esp_err_t \<times> string \<times> config_store_source_t) \<times> world" where
  "config_store_read st buf_null buf_size w =
    (if \<not> s_ready st then ((ESP_ERR_INVALID_STATE, [], CONFIG_STORE_SOURCE_NONE), w)
     else if buf_null \<or> buf_size < 2 then ((ESP_ERR_INVALID_ARG, [], CONFIG_STORE_SOURCE_NONE), w)
     else
       let (overridden, w) = file_exists (override_path (s_cfg st)) w in
       if overridden then
         (let ((err, txt), w) = read_file (the (override_path (s_cfg st))) buf_size (max_size (s_cfg st)) w in
          ((err, txt, if err = ESP_OK then CONFIG_STORE_SOURCE_OVERRIDE else CONFIG_STORE_SOURCE_NONE), w))
       else
         (let ((err, txt), w) = read_file (store_path st) buf_size (max_size (s_cfg st)) w in
          ((err, txt, if err = ESP_OK then CONFIG_STORE_SOURCE_PRIMARY else CONFIG_STORE_SOURCE_NONE), w)))"

text \<open>The write of the temporary file, up to the test of \<open>ok\<close>.\<close>

definition write_temp :: "string \<Rightarrow> string \<Rightarrow> world \<Rightarrow> bool \<times> world" where
  "write_temp temp data w =
    (let (opened, w) = fs_fopen_wb temp w in
     if \<not> opened then (False, w)
     else
       let (ok, w) = (if length data = 0 then (True, w)
                      else let (n, w) = fs_fwrite temp data w in (n = length data, w));
           (ok, w) = (if ok then fs_fflush temp w else (False, w));
           (closed, w) = fs_fclose w;
           ok = (if \<not> closed then False else ok) in
       if \<not> ok then (let (_, w) = fs_unlink temp w in (False, w)) else (True, w))"

text \<open>The rotation: the old config becomes the backup before the new one takes its place.\<close>

definition rotate_files :: "string \<Rightarrow> string \<Rightarrow> string \<Rightarrow> world \<Rightarrow> esp_err_t \<times> world" where
  "rotate_files p temp backup w =
    (let (there, w) = file_exists (Some p) w;
         (proceed, w) =
       (if there then
          (let (_, w) = fs_unlink backup w; (moved, w) = fs_rename p backup w in
           if \<not> moved then (let (_, w) = fs_unlink temp w in (False, w)) else (True, w))
        else (True, w)) in
     if \<not> proceed then (ESP_FAIL, w)
     else
       let (placed, w) = fs_rename temp p w in
       if \<not> placed then
         (let (_, w) = fs_rename backup p w; (_, w) = fs_unlink temp w in (ESP_FAIL, w))
       else (ESP_OK, w))"

definition config_store_write :: "store \<Rightarrow> cptr \<Rightarrow> nat \<Rightarrow> world \<Rightarrow> esp_err_t \<times> world" where
  "config_store_write st data len w =
    (if \<not> s_ready st then (ESP_ERR_INVALID_STATE, w)
     else if data = None \<and> len \<noteq> 0 then (ESP_ERR_INVALID_ARG, w)
     else if max_size (s_cfg st) \<noteq> 0 \<and> len > max_size (s_cfg st)
     then (CONFIG_STORE_ERR_TOO_LARGE, w)
     else
       let (err, temp) = suffixed (store_path st) TEMP_SUFFIX MAX_PATH in
       if err \<noteq> ESP_OK then (err, w)
       else
         let (err, backup) = suffixed (store_path st) BACKUP_SUFFIX MAX_PATH in
         if err \<noteq> ESP_OK then (err, w)
         else
           let payload = (case data of Some d \<Rightarrow> take len d | None \<Rightarrow> []);
               (ok, w) = write_temp temp payload w in
           if \<not> ok then (ESP_FAIL, w)
           else rotate_files (store_path st) temp backup w)"

definition config_store_has_backup :: "store \<Rightarrow> world \<Rightarrow> bool \<times> world" where
  "config_store_has_backup st w =
    (if \<not> s_ready st then (False, w)
     else
       let (err, backup) = suffixed (store_path st) BACKUP_SUFFIX MAX_PATH in
       if err \<noteq> ESP_OK then (False, w) else file_exists (Some backup) w)"

definition config_store_restore_backup :: "store \<Rightarrow> world \<Rightarrow> esp_err_t \<times> world" where
  "config_store_restore_backup st w =
    (if \<not> s_ready st then (ESP_ERR_INVALID_STATE, w)
     else
       let (err, backup) = suffixed (store_path st) BACKUP_SUFFIX MAX_PATH in
       if err \<noteq> ESP_OK then (err, w)
       else
         let (there, w) = file_exists (Some backup) w in
         if \<not> there then (ESP_ERR_NOT_FOUND, w)
         else
         let (_, w) = fs_unlink (store_path st) w;
             (moved, w) = fs_rename backup (store_path st) w in
         if \<not> moved then (ESP_FAIL, w) else (ESP_OK, w))"

section \<open>What each primitive does\<close>

lemma next_outcome_files [simp]:
  "files (snd (next_outcome w)) = files w" "history (snd (next_outcome w)) = history w"
  "replaces (snd (next_outcome w)) = replaces w"
  by (simp_all add: next_outcome_def split: list.splits)

lemma commit_simps [simp]:
  "files (commit f w) = f" "history (commit f w) = f # history w"
  "replaces (commit f w) = replaces w"
  by (simp_all add: commit_def)

lemma next_outcome_stat [simp]: "stat_works (snd (next_outcome w)) = stat_works w"
  by (simp add: next_outcome_def split: list.splits)

lemma commit_stat [simp]: "stat_works (commit f w) = stat_works w" "outcomes (commit f w) = outcomes w"
  by (simp_all add: commit_def)

text \<open>\<open>stat\<close> changes nothing; what it answers is known only when it works.\<close>

lemma fs_stat_frame [simp]:
  "files (snd (fs_stat p w)) = files w" "history (snd (fs_stat p w)) = history w"
  "replaces (snd (fs_stat p w)) = replaces w" "outcomes (snd (fs_stat p w)) = outcomes w"
  by (simp_all add: fs_stat_def)

lemma file_exists_frame [simp]:
  "files (snd (file_exists p w)) = files w" "history (snd (file_exists p w)) = history w"
  "replaces (snd (file_exists p w)) = replaces w" "outcomes (snd (file_exists p w)) = outcomes w"
  by (simp_all add: file_exists_def split_beta Let_def split: option.split)

lemma stat_works_tl: "stat_works w = [] \<Longrightarrow> stat_works (snd (file_exists p w)) = []"
  by (simp add: file_exists_def fs_stat_def split_beta Let_def split: option.split)

lemma stat_works_Nil [simp]: "stat_works w = [] \<Longrightarrow> \<not> stat_fails w"
  by (simp add: stat_fails_def)

lemma fs_stat_Some: "fst (fs_stat p w) = Some n \<longleftrightarrow> (\<exists>d. files w p = Some (Reg d) \<and> length d = n \<and> \<not> stat_fails w)"
  by (auto simp: fs_stat_def split: option.split node.split)

lemma file_exists_iff:
  "fst (file_exists p w) \<longleftrightarrow> (\<exists>q d. p = Some q \<and> files w q = Some (Reg d) \<and> \<not> stat_fails w)"
  by (auto simp: file_exists_def fs_stat_def split_beta Let_def split: option.split node.split)

text \<open>A primitive either leaves the file table alone or moves to one new table.\<close>

definition same :: "world \<Rightarrow> world \<Rightarrow> bool" where
  "same w w' \<longleftrightarrow> files w' = files w \<and> history w' = history w \<and> replaces w' = replaces w"

definition moved_to :: "files \<Rightarrow> world \<Rightarrow> world \<Rightarrow> bool" where
  "moved_to f w w' \<longleftrightarrow>
     files w' = f \<and> history w' = f # history w \<and> replaces w' = replaces w"

lemma fs_unlink_cases:
  assumes "fs_unlink p w = (ok, w')"
  obtains "ok" "moved_to ((files w)(p := None)) w w'" | "\<not> ok" "same w w'"
proof -
  have "ok \<and> moved_to ((files w)(p := None)) w w' \<or> \<not> ok \<and> same w w'"
    using assms next_outcome_files [of w]
    by (auto simp: fs_unlink_def same_def moved_to_def split_beta Let_def
        split: option.splits node.splits if_splits)
  then show thesis using that by blast
qed

lemma fs_rename_cases:
  assumes "fs_rename a b w = (ok, w')" and "a \<noteq> b"
  obtains (moved) n where "ok" "files w a = Some n"
      "moved_to ((files w)(b := Some n, a := None)) w w'"
    | (kept) "\<not> ok" "same w w'"
proof -
  have "(\<exists>n. ok \<and> files w a = Some n \<and> moved_to ((files w)(b := Some n, a := None)) w w')
      \<or> \<not> ok \<and> same w w'"
    using assms next_outcome_files [of w]
    by (auto simp: fs_rename_def same_def moved_to_def split_beta Let_def
        split: option.splits if_splits)
  then show thesis using that by blast
qed

text \<open>Writing the temporary file touches nothing else.\<close>

definition only_changes :: "string \<Rightarrow> world \<Rightarrow> world \<Rightarrow> bool" where
  "only_changes p w w' \<longleftrightarrow>
     (\<forall>q. q \<noteq> p \<longrightarrow> files w' q = files w q)
     \<and> (\<exists>fs. history w' = fs @ history w \<and> (\<forall>f\<in>set fs. \<forall>q. q \<noteq> p \<longrightarrow> f q = files w q))
     \<and> replaces w' = replaces w \<and> stat_works w' = stat_works w"

lemma only_changes_refl [simp]: "only_changes p w w"
  by (simp add: only_changes_def)

lemma only_changes_trans:
  assumes "only_changes p w w'" and "only_changes p w' w''"
  shows "only_changes p w w''"
proof -
  from assms obtain fs fs' where
    "history w' = fs @ history w" "\<forall>f\<in>set fs. \<forall>q. q \<noteq> p \<longrightarrow> f q = files w q"
    "history w'' = fs' @ history w'" "\<forall>f\<in>set fs'. \<forall>q. q \<noteq> p \<longrightarrow> f q = files w' q"
    "\<forall>q. q \<noteq> p \<longrightarrow> files w' q = files w q" "\<forall>q. q \<noteq> p \<longrightarrow> files w'' q = files w' q"
    "replaces w' = replaces w" "replaces w'' = replaces w'"
    "stat_works w' = stat_works w" "stat_works w'' = stat_works w'"
    unfolding only_changes_def by blast
  then show ?thesis
    unfolding only_changes_def by (intro conjI exI [of _ "fs' @ fs"]) auto
qed

lemma only_changes_commit: "only_changes p w (commit ((files w)(p := n)) w)"
  unfolding only_changes_def by (intro conjI exI [of _ "[(files w)(p := n)]"]) auto

lemma only_changes_next: "only_changes p w (snd (next_outcome w))"
  by (simp add: only_changes_def)

lemma only_changes_next_commit:
  "only_changes p w (commit ((files w)(p := n)) (snd (next_outcome w)))"
  using only_changes_trans [OF only_changes_next only_changes_commit, of p w n] by simp

lemma fs_ops_only_change:
  "only_changes p w (snd (fs_fopen_wb p w))"
  "only_changes p w (snd (fs_fwrite p data w))"
  "only_changes p w (snd (fs_fflush p w))"
  "only_changes p w (snd (fs_fclose w))"
  "only_changes p w (snd (fs_unlink p w))"
  using next_outcome_files [of w]
  by (auto simp: fs_fopen_wb_def fs_fwrite_def fs_fflush_def fs_fclose_def fs_unlink_def
      split_beta Let_def only_changes_next only_changes_next_commit
      split: outcome.splits option.splits node.splits)

lemma write_temp_only_changes: "only_changes temp w (snd (write_temp temp data w))"
proof -
  note st = fs_ops_only_change only_changes_trans only_changes_refl
  obtain o1 w1 where 1: "fs_fopen_wb temp w = (o1, w1)" by fastforce
  obtain o2 w2 where 2: "(if length data = 0 then (True, w1)
      else let (n, w) = fs_fwrite temp data w1 in (n = length data, w)) = (o2, w2)" by fastforce
  obtain o3 w3 where 3: "(if o2 then fs_fflush temp w2 else (False, w2)) = (o3, w3)" by fastforce
  obtain o4 w4 where 4: "fs_fclose w3 = (o4, w4)" by fastforce
  have "only_changes temp w w1" using 1 fs_ops_only_change(1) [of temp w] by simp
  moreover have "only_changes temp w1 w2"
    using 2 fs_ops_only_change(2) [of temp w1 data] by (auto simp: split_beta split: if_splits)
  moreover have "only_changes temp w2 w3"
    using 3 fs_ops_only_change(3) [of temp w2] by (auto split: if_splits)
  moreover have "only_changes temp w3 w4" using 4 fs_ops_only_change(4) [of temp w3] by simp
  moreover have "only_changes temp w4 (snd (fs_unlink temp w4))" by (rule fs_ops_only_change(5))
  ultimately have "only_changes temp w w1" "only_changes temp w w4"
    "only_changes temp w (snd (fs_unlink temp w4))"
    by (blast intro: only_changes_trans)+
  then show ?thesis
    using 1 2 3 4 unfolding write_temp_def Let_def by (simp add: split_beta)
qed

lemma write_temp_content:
  assumes "write_temp temp data w = (True, w')"
  shows "files w' temp = Some (Reg data)"
  using assms next_outcome_files(1)
  by (auto simp: write_temp_def fs_fopen_wb_def fs_fwrite_def fs_fflush_def fs_fclose_def
      Let_def split_beta split: if_splits outcome.splits)

section \<open>Paths\<close>

lemma suffixed_OK:
  "fst (suffixed p suf n) = ESP_OK \<longleftrightarrow> length p + length suf < n"
  "fst (suffixed p suf n) = ESP_OK \<Longrightarrow> snd (suffixed p suf n) = p @ suf"
  by (auto simp: suffixed_def snprintf_def split: if_splits)

text \<open>What \<open>config_store_init\<close> establishes and nothing changes.\<close>

definition store_ok :: "store \<Rightarrow> bool" where
  "store_ok st \<longleftrightarrow> s_ready st \<longrightarrow>
     store_path st \<noteq> [] \<and> length (store_path st) + 4 < MAX_PATH"

definition temp_path :: "store \<Rightarrow> string" where
  "temp_path st = store_path st @ TEMP_SUFFIX"

definition backup_path :: "store \<Rightarrow> string" where
  "backup_path st = store_path st @ BACKUP_SUFFIX"

lemma config_store_init_ok:
  assumes "config_store_init cfg st = (r, st')" and "store_ok st"
  shows "store_ok st' \<and> (r = ESP_OK \<longleftrightarrow> st' = st\<lparr>s_cfg := the cfg, s_ready := True\<rparr> \<and> store_ok st'
            \<and> (\<exists>c p. cfg = Some c \<and> cfg_path c = Some p \<and> p \<noteq> [] \<and> length p + 4 < MAX_PATH))"
  using assms
  by (auto simp: config_store_init_def store_ok_def store_path_def suffixed_OK BACKUP_SUFFIX_def
      TEMP_SUFFIX_def split: option.splits if_splits)

lemma paths_distinct [simp]:
  "temp_path st \<noteq> store_path st" "backup_path st \<noteq> store_path st" "temp_path st \<noteq> backup_path st"
  "store_path st \<noteq> temp_path st" "store_path st \<noteq> backup_path st" "backup_path st \<noteq> temp_path st"
  by (simp_all add: temp_path_def backup_path_def TEMP_SUFFIX_def BACKUP_SUFFIX_def)

lemma suffixed_ready:
  assumes "store_ok st" "s_ready st"
  shows "suffixed (store_path st) TEMP_SUFFIX MAX_PATH = (ESP_OK, temp_path st)"
    and "suffixed (store_path st) BACKUP_SUFFIX MAX_PATH = (ESP_OK, backup_path st)"
  using assms
  by (auto simp: store_ok_def suffixed_def temp_path_def backup_path_def TEMP_SUFFIX_def
      BACKUP_SUFFIX_def)

section \<open>Power loss at any point\<close>

text \<open>Every file table from some point on, the present one included.\<close>

definition always :: "(files \<Rightarrow> bool) \<Rightarrow> world \<Rightarrow> bool" where
  "always P w \<longleftrightarrow> P (files w) \<and> (\<forall>f\<in>set (history w). P f)"

lemma always_same: "same w w' \<Longrightarrow> always P w' = always P w"
  by (simp add: always_def same_def)

lemma always_moved: "moved_to f w w' \<Longrightarrow> always P w \<Longrightarrow> P f \<Longrightarrow> always P w'"
  by (simp add: always_def moved_to_def)

lemma always_only_changes:
  assumes "only_changes p w w'" "always P w" "\<And>f. (\<forall>q. q \<noteq> p \<longrightarrow> f q = files w q) \<Longrightarrow> P f"
  shows "always P w'"
  using assms unfolding always_def only_changes_def by auto

text \<open>The old configuration is in place, or is the backup while the canonical path is
  absent or holds the complete new one.\<close>

definition keeps :: "string \<Rightarrow> string \<Rightarrow> string \<Rightarrow> string \<Rightarrow> files \<Rightarrow> bool" where
  "keeps old new p backup f \<longleftrightarrow> f p = Some (Reg old)
     \<or> f backup = Some (Reg old) \<and> (f p = None \<or> f p = Some (Reg new))"

text \<open>Some configuration is at one of the two paths.\<close>

definition has_config :: "string \<Rightarrow> string \<Rightarrow> files \<Rightarrow> bool" where
  "has_config p backup f \<longleftrightarrow> (\<exists>c. f p = Some (Reg c) \<or> f backup = Some (Reg c))"

lemma unlink_always:
  assumes "always P w" "P ((files w)(q := None))"
  shows "always P (snd (fs_unlink q w))"
  using assms by (cases "fs_unlink q w")
    (auto elim!: fs_unlink_cases simp: always_same always_moved)

lemma unlink_files:
  "files (snd (fs_unlink q w)) = files w \<or> files (snd (fs_unlink q w)) = (files w)(q := None)"
  by (cases "fs_unlink q w") (auto elim!: fs_unlink_cases simp: same_def moved_to_def)

lemma unlink_other [simp]: "r \<noteq> q \<Longrightarrow> files (snd (fs_unlink q w)) r = files w r"
  using unlink_files [of q w] by auto

text \<open>The rotation with an old config in place: \<open>w1\<close> is the state after the two moves
  away, when they succeed.\<close>

lemma rotate_keeps:
  assumes d: "p \<noteq> temp" "backup \<noteq> p" "temp \<noteq> backup" and st: "\<not> stat_fails w"
    and old: "files w p = Some (Reg old)" and new: "files w temp = Some (Reg new)"
    and al: "always P w" and imp: "\<And>f. keeps old new p backup f \<Longrightarrow> P f"
    and r: "rotate_files p temp backup w = (err, w')"
  shows "always P w'
    \<and> (err = ESP_OK \<and> files w' p = Some (Reg new) \<and> files w' backup = Some (Reg old)
       \<or> err = ESP_FAIL \<and> (files w' p = Some (Reg old)
            \<or> files w' p = None \<and> files w' backup = Some (Reg old)))"
proof -
  define v where "v = snd (file_exists (Some p) w)"
  have v: "files v = files w" "always P v" using al by (simp_all add: v_def always_def)
  define w0 where "w0 = snd (fs_unlink backup v)"
  have w0: "files w0 p = Some (Reg old)" "files w0 temp = Some (Reg new)" "always P w0"
    using d old new v by (simp_all add: w0_def unlink_always imp keeps_def)
  obtain m w1 where m: "fs_rename p backup w0 = (m, w1)" by fastforce
  have ex: "fst (file_exists (Some p) w)" using old st by (simp add: file_exists_iff)
  show ?thesis
  proof (cases m)
    case False
    then have s: "same w0 w1" using m d by (auto elim: fs_rename_cases)
    have "err = ESP_FAIL \<and> w' = snd (fs_unlink temp w1)"
      using r ex m False by (simp add: rotate_files_def w0_def v_def split_beta Let_def)
    moreover have w1: "always P w1" "files w1 = files w0"
      using w0(3) s by (simp_all add: always_same [OF s], simp add: same_def)
    moreover have "always P (snd (fs_unlink temp w1))"
      using w1 w0(1) d by (intro unlink_always) (simp_all add: imp keeps_def)
    ultimately show ?thesis using w0 d by simp
  next
    case True
    then have mv: "moved_to ((files w0)(backup := Some (Reg old), p := None)) w0 w1"
      using m d w0 by (auto elim!: fs_rename_cases)
    have w1: "files w1 p = None" "files w1 backup = Some (Reg old)" "files w1 temp = Some (Reg new)"
      using mv w0 d by (simp_all add: moved_to_def)
    have al1: "always P w1"
      using d by (intro always_moved [OF mv w0(3)] imp) (simp add: keeps_def)
    obtain m2 w2 where m2: "fs_rename temp p w1 = (m2, w2)" by fastforce
    show ?thesis
    proof (cases m2)
      case True
      then have mv2: "moved_to ((files w1)(p := Some (Reg new), temp := None)) w1 w2"
        using m2 d w1 by (auto elim!: fs_rename_cases)
      have "err = ESP_OK" "w' = w2"
        using r ex m m2 \<open>m\<close> True by (simp_all add: rotate_files_def w0_def v_def split_beta Let_def)
      moreover have "always P w2"
        using d w1(2) by (intro always_moved [OF mv2 al1] imp) (simp add: keeps_def)
      ultimately show ?thesis using mv2 w1 d by (simp add: moved_to_def)
    next
      case False
      then have s2: "same w1 w2" using m2 d by (auto elim: fs_rename_cases)
      obtain m3 w3 where m3: "fs_rename backup p w2 = (m3, w3)" by fastforce
      have e: "err = ESP_FAIL" "w' = snd (fs_unlink temp w3)"
        using r ex m m2 m3 \<open>m\<close> False
        by (simp_all add: rotate_files_def w0_def v_def split_beta Let_def)
      have al2: "always P w2" using al1 by (simp add: always_same [OF s2])
      have w3: "always P w3
        \<and> (files w3 p = Some (Reg old) \<or> files w3 p = None \<and> files w3 backup = Some (Reg old))"
        using m3 d(2)
      proof (cases rule: fs_rename_cases)
        case (moved n)
        then have mv3: "moved_to ((files w2)(p := Some (Reg old), backup := None)) w2 w3"
          using s2 w1 by (auto simp: same_def)
        have "always P w3"
          using d by (intro always_moved [OF mv3 al2] imp) (simp add: keeps_def)
        then show ?thesis using mv3 d by (simp add: moved_to_def)
      next
        case kept
        with s2 w1 al2 show ?thesis by (auto simp: same_def always_def)
      qed
      then have "always P w'"
        unfolding e using d by (intro unlink_always imp) (auto simp: keeps_def)
      with w3 e d show ?thesis by auto
    qed
  qed
qed

text \<open>The rotation when no config is seen in place: there is none, or \<open>stat\<close> failed on it. Then the
  new config is put where the old one may be, and a failure to do so puts the backup there.\<close>

lemma rotate_unseen:
  assumes d: "p \<noteq> temp" "backup \<noteq> p" "temp \<noteq> backup"
    and nop: "\<not> fst (file_exists (Some p) w)" and new: "files w temp = Some (Reg new)"
    and al: "always P w" and placed: "P ((files w)(p := Some (Reg new), temp := None))"
    and earlier: "\<And>n. files w backup = Some n \<Longrightarrow> n \<noteq> Other_node \<or> files w p = None \<Longrightarrow> P ((files w)(p := Some n, backup := None))"
    and no_temp: "\<And>f. P f \<Longrightarrow> P (f(temp := None))"
    and r: "rotate_files p temp backup w = (err, w')"
  shows "always P w'
    \<and> (err = ESP_OK \<and> files w' p = Some (Reg new) \<and> files w' backup = files w backup
       \<or> err = ESP_FAIL \<and> (files w' p = files w p \<and> files w' backup = files w backup
            \<or> files w' p = files w backup \<and> files w backup \<noteq> None))"
proof -
  define v where "v = snd (file_exists (Some p) w)"
  have v: "files v = files w" "always P v" using al by (simp_all add: v_def always_def)
  obtain m w1 where m: "fs_rename temp p v = (m, w1)" by fastforce
  show ?thesis
  proof (cases m)
    case True
    then have mv: "moved_to ((files v)(p := Some (Reg new), temp := None)) v w1"
      using m d new v(1) by (auto elim!: fs_rename_cases)
    have "err = ESP_OK" "w' = w1"
      using r nop m True by (simp_all add: rotate_files_def v_def split_beta Let_def)
    with mv d v always_moved [OF mv v(2)] placed show ?thesis by (auto simp: moved_to_def)
  next
    case False
    then have s: "same v w1" using m d by (auto elim: fs_rename_cases)
    obtain m3 w3 where m3: "fs_rename backup p w1 = (m3, w3)" by fastforce
    have e: "err = ESP_FAIL" "w' = snd (fs_unlink temp w3)"
      using r nop m m3 False by (simp_all add: rotate_files_def v_def split_beta Let_def)
    have f1: "files w1 = files w" using s v(1) by (simp add: same_def)
    have w3: "always P w3 \<and> (files w3 p = files w p \<and> files w3 backup = files w backup
        \<or> files w3 p = files w backup \<and> files w backup \<noteq> None)"
      using m3 d(2)
    proof (cases rule: fs_rename_cases)
      case (moved n)
      then have n: "files w backup = Some n" "n \<noteq> Other_node \<or> files w p = None"
        using m3 d(2) f1 by (auto simp: fs_rename_def split_beta Let_def split: if_splits)
      show ?thesis
        using moved(3) n d earlier [OF n] v(2) always_moved [OF moved(3), of P] f1
        by (auto simp: moved_to_def always_same [OF s])
    next
      case kept
      with s v show ?thesis by (auto simp: same_def always_def)
    qed
    then have "always P w'"
      unfolding e by (intro unlink_always no_temp) (auto simp: always_def)
    with w3 e d show ?thesis by auto
  qed
qed

lemma rotate_fresh:
  assumes d: "p \<noteq> temp" "backup \<noteq> p" "temp \<noteq> backup"
    and nop: "\<not> fst (file_exists (Some p) w)" and new: "files w temp = Some (Reg new)"
    and al: "always (has_config p backup) w"
    and r: "rotate_files p temp backup w = (err, w')"
  shows "always (has_config p backup) w'"
proof -
  have "has_config p backup (files w)" using al by (simp add: always_def)
  then have "has_config p backup ((files w)(p := Some n, backup := None))"
    if "files w backup = Some n" "n \<noteq> Other_node \<or> files w p = None" for n
    using that d by (cases n) (auto simp: has_config_def)
  then show ?thesis
    using d by (intro rotate_unseen [OF d nop new al _ _ _ r, THEN conjunct1]) (auto simp: has_config_def)
qed

definition payload_of :: "cptr \<Rightarrow> nat \<Rightarrow> string" where
  "payload_of data len = (case data of Some d \<Rightarrow> take len d | None \<Rightarrow> [])"

text \<open>When the write gets as far as the file system.\<close>

definition write_admissible :: "store \<Rightarrow> cptr \<Rightarrow> nat \<Rightarrow> bool" where
  "write_admissible st data len \<longleftrightarrow> s_ready st \<and> \<not> (data = None \<and> len \<noteq> 0)
     \<and> \<not> (max_size (s_cfg st) \<noteq> 0 \<and> len > max_size (s_cfg st))"

lemma config_store_write_eq:
  assumes "store_ok st"
  shows "config_store_write st data len w =
    (if \<not> s_ready st then (ESP_ERR_INVALID_STATE, w)
     else if data = None \<and> len \<noteq> 0 then (ESP_ERR_INVALID_ARG, w)
     else if max_size (s_cfg st) \<noteq> 0 \<and> len > max_size (s_cfg st)
     then (CONFIG_STORE_ERR_TOO_LARGE, w)
     else if fst (write_temp (temp_path st) (payload_of data len) w)
     then rotate_files (store_path st) (temp_path st) (backup_path st)
            (snd (write_temp (temp_path st) (payload_of data len) w))
     else (ESP_FAIL, snd (write_temp (temp_path st) (payload_of data len) w)))"
  using assms suffixed_ready [of st]
  unfolding config_store_write_def payload_of_def [symmetric]
  by (cases "s_ready st") (simp_all add: split_beta Let_def)

lemma config_store_write_old:
  assumes st: "store_ok st" and old: "files w (store_path st) = Some (Reg old)"
    and al: "always P w" and seen: "\<not> stat_fails w"
    and imp: "\<And>f. keeps old (payload_of data len) (store_path st) (backup_path st) f \<Longrightarrow> P f"
    and r: "config_store_write st data len w = (err, w')"
  shows "always P w'
    \<and> (err = ESP_OK \<and> files w' (store_path st) = Some (Reg (payload_of data len))
         \<and> files w' (backup_path st) = Some (Reg old)
       \<or> err \<noteq> ESP_OK \<and> (files w' (store_path st) = Some (Reg old)
            \<or> files w' (store_path st) = None \<and> files w' (backup_path st) = Some (Reg old)))"
proof -
  let ?new = "payload_of data len"
  obtain ok w1 where t: "write_temp (temp_path st) ?new w = (ok, w1)" by fastforce
  have oc: "only_changes (temp_path st) w w1"
    using write_temp_only_changes [of "temp_path st" w ?new] t by simp
  have w1: "files w1 (store_path st) = Some (Reg old)"
    using oc old by (simp add: only_changes_def)
  have al1: "always P w1"
    using oc al by (rule always_only_changes) (simp add: imp keeps_def old)
  show ?thesis
  proof (cases "write_admissible st data len \<and> ok")
    case True
    then have ok: ok and adm: "write_admissible st data len" by auto
    have "rotate_files (store_path st) (temp_path st) (backup_path st) w1 = (err, w')"
      using r t ok adm
      by (auto simp: config_store_write_eq [OF st] write_admissible_def split: if_splits)
    moreover have "files w1 (temp_path st) = Some (Reg ?new)"
      using t ok write_temp_content by simp
    ultimately show ?thesis
      using rotate_keeps [OF paths_distinct(4,2,3) _ w1 _ al1 imp] oc seen
      by (auto simp: only_changes_def stat_fails_def)
  next
    case False
    then have "err \<noteq> ESP_OK \<and> (w' = w \<or> w' = w1)"
      using r t by (auto simp: config_store_write_eq [OF st] write_admissible_def split: if_splits)
    then show ?thesis using al al1 old w1 by auto
  qed
qed

text \<open>What becomes of an old config: \<open>keeps\<close>; or, when \<open>stat\<close> failed on it, the canonical path holds
  the complete new one, or the one that had been the backup.\<close>

definition survives :: "world \<Rightarrow> string \<Rightarrow> string \<Rightarrow> string \<Rightarrow> string \<Rightarrow> files \<Rightarrow> bool" where
  "survives w old new p backup f \<longleftrightarrow> keeps old new p backup f
     \<or> stat_fails w \<and> (\<exists>c. f p = Some (Reg c) \<and> (c = new \<or> files w backup = Some (Reg c)))"

lemma config_store_write_unseen:
  assumes st: "store_ok st" and old: "files w (store_path st) = Some (Reg old)"
    and al: "always P w" and unseen: "stat_fails w"
    and imp: "\<And>f. survives w old (payload_of data len) (store_path st) (backup_path st) f \<Longrightarrow> P f"
    and no_temp: "\<And>f. P f \<Longrightarrow> P (f(temp_path st := None))"
    and r: "config_store_write st data len w = (err, w')"
  shows "always P w'
    \<and> (err = ESP_OK \<and> files w' (store_path st) = Some (Reg (payload_of data len))
         \<and> files w' (backup_path st) = files w (backup_path st)
       \<or> err \<noteq> ESP_OK \<and> (files w' (store_path st) = Some (Reg old)
            \<or> files w' (store_path st) = files w (backup_path st) \<and> files w (backup_path st) \<noteq> None))"
proof -
  let ?new = "payload_of data len"
  obtain ok w1 where t: "write_temp (temp_path st) ?new w = (ok, w1)" by fastforce
  have oc: "only_changes (temp_path st) w w1"
    using write_temp_only_changes [of "temp_path st" w ?new] t by simp
  have w1: "files w1 (store_path st) = Some (Reg old)" "files w1 (backup_path st) = files w (backup_path st)"
    "\<not> fst (file_exists (Some (store_path st)) w1)"
    using oc old unseen by (simp_all add: only_changes_def file_exists_iff stat_fails_def)
  have al1: "always P w1"
    using oc al by (rule always_only_changes) (simp add: imp survives_def keeps_def old)
  show ?thesis
  proof (cases "write_admissible st data len \<and> ok")
    case True
    then have ok: ok and adm: "write_admissible st data len" by auto
    have run: "rotate_files (store_path st) (temp_path st) (backup_path st) w1 = (err, w')"
      using r t ok adm
      by (auto simp: config_store_write_eq [OF st] write_admissible_def split: if_splits)
    have new: "files w1 (temp_path st) = Some (Reg ?new)"
      using t ok write_temp_content by simp
    have 1: "P ((files w1)(store_path st := Some (Reg ?new), temp_path st := None))"
      by (rule imp) (simp add: survives_def unseen)
    have 2: "P ((files w1)(store_path st := Some n, backup_path st := None))"
      if "files w1 (backup_path st) = Some n" "n \<noteq> Other_node \<or> files w1 (store_path st) = None" for n
      using that w1 by (intro imp) (cases n; simp add: survives_def unseen)
    from rotate_unseen [OF paths_distinct(4,2,3) w1(3) new al1 1 2 no_temp run] show ?thesis
      unfolding w1(1,2) by auto
  next
    case False
    then have "err \<noteq> ESP_OK \<and> (w' = w \<or> w' = w1)"
      using r t by (auto simp: config_store_write_eq [OF st] write_admissible_def split: if_splits)
    then show ?thesis using al al1 old w1 by auto
  qed
qed

lemma config_store_write_tables:
  assumes "store_ok st" and "files w (store_path st) = Some (Reg old)" and "history w = []"
    and "config_store_write st data len w = (err, w')"
  shows "always (survives w old (payload_of data len) (store_path st) (backup_path st)) w'"
proof -
  let ?P = "survives w old (payload_of data len) (store_path st) (backup_path st)"
  have al: "always ?P w" using assms(2,3) by (simp add: always_def survives_def keeps_def)
  show ?thesis
  proof (cases "stat_fails w")
    case True
    have "?P (f(temp_path st := None))" if "?P f" for f using that by (auto simp: survives_def keeps_def)
    then show ?thesis using config_store_write_unseen [OF assms(1,2) al True _ _ assms(4)] by blast
  next
    case False
    then show ?thesis
      using config_store_write_old [OF assms(1,2) al False _ assms(4)] by (simp add: survives_def)
  qed
qed

lemma config_store_write_fresh:
  assumes st: "store_ok st" and nop: "\<not> fst (file_exists (Some (store_path st)) w)"
    and al: "always (has_config (store_path st) (backup_path st)) w"
    and r: "config_store_write st data len w = (err, w')"
  shows "always (has_config (store_path st) (backup_path st)) w'"
proof -
  let ?new = "payload_of data len"
  obtain ok w1 where t: "write_temp (temp_path st) ?new w = (ok, w1)" by fastforce
  have oc: "only_changes (temp_path st) w w1"
    using write_temp_only_changes [of "temp_path st" w ?new] t by simp
  have f1: "files w1 (store_path st) = files w (store_path st)"
    using oc by (simp add: only_changes_def)
  then have w1: "\<not> fst (file_exists (Some (store_path st)) w1)"
    using nop oc by (simp add: file_exists_iff stat_fails_def only_changes_def)
  have al1: "always (has_config (store_path st) (backup_path st)) w1"
    using oc al by (rule always_only_changes) (use al in \<open>simp add: has_config_def always_def\<close>)
  show ?thesis
  proof (cases "write_admissible st data len \<and> ok")
    case True
    then have ok: ok and adm: "write_admissible st data len" by auto
    have "rotate_files (store_path st) (temp_path st) (backup_path st) w1 = (err, w')"
      using r t ok adm
      by (auto simp: config_store_write_eq [OF st] write_admissible_def split: if_splits)
    moreover have "files w1 (temp_path st) = Some (Reg ?new)"
      using t ok write_temp_content by simp
    ultimately show ?thesis
      using rotate_fresh [OF paths_distinct(4,2,3) w1 _ al1] by blast
  next
    case False
    then have "w' = w \<or> w' = w1"
      using r t by (auto simp: config_store_write_eq [OF st] write_admissible_def split: if_splits)
    then show ?thesis using al al1 by auto
  qed
qed

lemma keeps_has_config: "keeps old new p b f \<Longrightarrow> has_config p b f"
  by (auto simp: keeps_def has_config_def)

lemma config_store_write_has_config:
  assumes "store_ok st" and "always (has_config (store_path st) (backup_path st)) w"
    and "config_store_write st data len w = (err, w')"
  shows "always (has_config (store_path st) (backup_path st)) w'"
proof (cases "fst (file_exists (Some (store_path st)) w)")
  case True
  then obtain old where "files w (store_path st) = Some (Reg old)" "\<not> stat_fails w"
    by (auto simp: file_exists_iff)
  then show ?thesis
    using config_store_write_old [OF assms(1) _ assms(2) _ _ assms(3)] keeps_has_config by blast
next
  case False
  from config_store_write_fresh [OF assms(1) False assms(2,3)] show ?thesis .
qed

lemma config_store_restore_has_config:
  assumes st: "store_ok st" and al: "always (has_config (store_path st) (backup_path st)) w"
    and r: "config_store_restore_backup st w = (err, w')"
  shows "always (has_config (store_path st) (backup_path st)) w'"
proof (cases "s_ready st \<and> fst (file_exists (Some (backup_path st)) w)")
  case False
  then have "w' = w \<or> w' = snd (file_exists (Some (backup_path st)) w)" using r suffixed_ready [OF st]
    by (cases "s_ready st") (auto simp: config_store_restore_backup_def split_beta Let_def)
  with al show ?thesis by (auto simp: always_def)
next
  case True
  define v where "v = snd (file_exists (Some (backup_path st)) w)"
  obtain c where c: "files v (backup_path st) = Some (Reg c)"
    using True by (auto simp: v_def file_exists_iff)
  have al: "always (has_config (store_path st) (backup_path st)) v" using al by (simp add: v_def always_def)
  define w0 where "w0 = snd (fs_unlink (store_path st) v)"
  have w0: "always (has_config (store_path st) (backup_path st)) w0"
      "files w0 (backup_path st) = Some (Reg c)"
    using al c by (simp_all add: w0_def unlink_always has_config_def)
  obtain m w1 where m: "fs_rename (backup_path st) (store_path st) w0 = (m, w1)" by fastforce
  have e: "w' = w1"
    using r True m suffixed_ready [OF st]
    by (auto simp: config_store_restore_backup_def w0_def v_def split_beta Let_def split: if_splits)
  show ?thesis
    using m paths_distinct(2)
  proof (cases rule: fs_rename_cases)
    case (moved n)
    then show ?thesis
      unfolding e using w0 by (intro always_moved [OF moved(3) w0(1)]) (auto simp: has_config_def)
  next
    case kept
    then show ?thesis unfolding e using w0 by (auto simp: always_def same_def)
  qed
qed

section \<open>Reading\<close>

lemma fs_read_ops_same:
  "same w (snd (fs_fopen_rb p w))" "same w (snd (fs_fread p n w))" "same w (snd (fs_fclose w))"
  using next_outcome_files [of w]
  by (auto simp: fs_fopen_rb_def fs_fread_def fs_fclose_def same_def split_beta Let_def
      split: outcome.splits)

lemma same_trans: "same w w' \<Longrightarrow> same w' w'' \<Longrightarrow> same w w''"
  by (simp add: same_def)

lemma same_refl [simp]: "same w w"
  by (simp add: same_def)

lemma fs_stat_same: "same w (snd (fs_stat p w))" "same w (snd (file_exists q w))"
  by (simp_all add: same_def)

lemma read_file_same: "same w (snd (read_file p n limit w))"
proof -
  obtain sz v where v: "fs_stat p w = (sz, v)" by fastforce
  obtain o1 w1 where 1: "fs_fopen_rb p v = (o1, w1)" by fastforce
  have s0: "same w v" using fs_stat_same(1) [of w p] v by simp
  have s1: "same w w1" using same_trans [OF s0 fs_read_ops_same(1) [of v p]] 1 by simp
  have s2: "same w (snd (fs_fclose (snd (fs_fread p k w1))))" for k
    by (rule same_trans [OF same_trans [OF s1 fs_read_ops_same(2)] fs_read_ops_same(3)])
  show ?thesis
    by (simp add: read_file_def v 1 s0 s1 s2 split_beta Let_def split: option.split)
qed

lemma config_store_read_same: "same w (snd (config_store_read st nul n w))"
  using same_trans [OF fs_stat_same(2) [of w "override_path (s_cfg st)"] read_file_same]
  by (simp add: config_store_read_def split_beta Let_def)

lemma fs_fread_whole:
  assumes "files w p = Some (Reg d)" "length (fst (fs_fread p (length d) w)) = length d"
  shows "fst (fs_fread p (length d) w) = d"
  using assms next_outcome_files(1) [of w]
  by (simp add: fs_fread_def split_beta Let_def split: outcome.splits)

text \<open>A reader that gets \<open>ESP_OK\<close> has the whole file, whatever the failures.\<close>

lemma read_file_OK:
  assumes "read_file p n limit w = ((ESP_OK, txt), w')"
  shows "files w p = Some (Reg txt) \<and> length txt < n"
proof -
  obtain sz v where v: "fs_stat p w = (sz, v)" by fastforce
  have fv: "files v = files w" using fs_stat_frame(1) [of p w] v by simp
  from assms v obtain d where d: "files w p = Some (Reg d)" "sz = Some (length d)"
    using fs_stat_Some [of p w] by (cases sz) (auto simp: read_file_def)
  have f: "files (snd (fs_fopen_rb p v)) = files w"
    using fs_read_ops_same(1) [of v p] fv by (simp add: same_def)
  obtain w1 where w1: "snd (fs_fopen_rb p v) = w1" by simp
  have "txt = d \<and> length d < n"
    using assms v d fs_fread_whole [of w1 p d] f
    by (simp add: read_file_def split_beta Let_def w1 split: if_splits)
  with d show ?thesis by simp
qed

lemma read_file_quiet:
  assumes "outcomes w = []" "\<not> stat_fails w" "files w p = Some (Reg d)" "length d < n"
    "limit = 0 \<or> length d \<le> limit"
  shows "fst (read_file p n limit w) = (ESP_OK, d)"
  using assms
  by (auto simp: read_file_def fs_stat_def fs_fopen_rb_def fs_fread_def fs_fclose_def next_outcome_def
      split_beta Let_def)

text \<open>What a boot after a crash sees: the file table \<open>f\<close>, and no further failures.\<close>

definition boot :: "bool \<Rightarrow> files \<Rightarrow> world" where
  "boot rp f = \<lparr>files = f, outcomes = [], stat_works = [], replaces = rp, history = []\<rparr>"

lemma boot_simps [simp]:
  "files (boot rp f) = f" "outcomes (boot rp f) = []" "stat_works (boot rp f) = []" "history (boot rp f) = []"
  "replaces (boot rp f) = rp"
  by (simp_all add: boot_def)

definition readable :: "store \<Rightarrow> nat \<Rightarrow> string \<Rightarrow> bool" where
  "readable st n c \<longleftrightarrow> 2 \<le> n \<and> length c < n
     \<and> (max_size (s_cfg st) = 0 \<or> length c \<le> max_size (s_cfg st))"

lemma config_store_read_quiet:
  assumes "s_ready st" "override_path (s_cfg st) = None" "outcomes w = []" "\<not> stat_fails w"
    "files w (store_path st) = Some (Reg c)" "readable st n c"
  shows "fst (config_store_read st False n w) = (ESP_OK, c, CONFIG_STORE_SOURCE_PRIMARY)"
  using assms read_file_quiet [of w "store_path st" c n "max_size (s_cfg st)"]
  by (simp add: config_store_read_def readable_def file_exists_def split_beta Let_def)

lemma config_store_read_absent:
  assumes "s_ready st" "override_path (s_cfg st) = None" "files w (store_path st) = None" "2 \<le> n"
  shows "fst (config_store_read st False n w) = (ESP_ERR_NOT_FOUND, [], CONFIG_STORE_SOURCE_NONE)"
  using assms by (simp add: config_store_read_def read_file_def file_exists_def fs_stat_def split_beta Let_def)

lemma fs_unlink_stat [simp]: "stat_works (snd (fs_unlink p w)) = stat_works w"
  using next_outcome_stat [of w] by (auto simp: fs_unlink_def split_beta Let_def split: option.split node.split)

lemma fs_rename_stat [simp]: "stat_works (snd (fs_rename p q w)) = stat_works w"
  using next_outcome_stat [of w] by (auto simp: fs_rename_def split_beta Let_def split: option.split)

lemma config_store_restore_quiet:
  assumes st: "store_ok st" "s_ready st" and q: "outcomes w = []" "stat_works w = []"
    and b: "files w (backup_path st) = Some (Reg c)" and p: "files w (store_path st) \<noteq> Some Other_node"
  shows "\<exists>w'. config_store_restore_backup st w = (ESP_OK, w') \<and> outcomes w' = [] \<and> stat_works w' = []
     \<and> files w' (store_path st) = Some (Reg c) \<and> files w' (backup_path st) = None"
proof -
  have ex: "file_exists (Some (backup_path st)) w = (True, w)"
    using b q(2) by (cases w) (simp add: file_exists_def fs_stat_def)
  show ?thesis
    using suffixed_ready [OF st] st q b p ex
    by (cases "files w (store_path st)")
       (auto simp: config_store_restore_backup_def fs_unlink_def fs_rename_def next_outcome_def
         commit_def Let_def split: node.splits)
qed

section \<open>Sequences of operations\<close>

datatype store_op = Op_write cptr nat | Op_restore | Op_read bool nat

fun do_op :: "store \<Rightarrow> store_op \<Rightarrow> world \<Rightarrow> world" where
  "do_op st (Op_write data len) w = snd (config_store_write st data len w)"
| "do_op st Op_restore w = snd (config_store_restore_backup st w)"
| "do_op st (Op_read nul n) w = snd (config_store_read st nul n w)"

lemma do_op_has_config:
  assumes "store_ok st" "always (has_config (store_path st) (backup_path st)) w"
  shows "always (has_config (store_path st) (backup_path st)) (do_op st op w)"
proof (cases op)
  case (Op_write data len)
  then show ?thesis
    using config_store_write_has_config [OF assms, of data len] by (metis do_op.simps(1) prod.collapse)
next
  case Op_restore
  then show ?thesis
    using config_store_restore_has_config [OF assms] by (metis do_op.simps(2) prod.collapse)
next
  case (Op_read nul n)
  then show ?thesis
    using assms always_same [OF config_store_read_same [of w st nul n]] by simp
qed

lemma fold_op_has_config:
  assumes "store_ok st" "always (has_config (store_path st) (backup_path st)) w"
  shows "always (has_config (store_path st) (backup_path st)) (fold (do_op st) ops w)"
  using assms(2) by (induction ops arbitrary: w) (simp_all add: do_op_has_config [OF assms(1)])

lemma write_temp_quiet:
  assumes "outcomes w = []" "files w temp \<noteq> Some Other_node"
  shows "\<exists>w'. write_temp temp data w = (True, w') \<and> outcomes w' = [] \<and> stat_works w' = stat_works w"
  using assms
  by (simp add: write_temp_def fs_fopen_wb_def fs_fwrite_def fs_fflush_def fs_fclose_def
      next_outcome_def commit_def Let_def split_beta)

lemma rotate_quiet:
  assumes "outcomes w = []" "stat_works w = []" "p \<noteq> temp" "backup \<noteq> p" "temp \<noteq> backup"
    "files w p \<noteq> Some Other_node" "files w backup \<noteq> Some Other_node"
    "files w temp = Some (Reg new)"
  shows "\<exists>w'. rotate_files p temp backup w = (ESP_OK, w') \<and> outcomes w' = [] \<and> stat_works w' = []
     \<and> files w' p = Some (Reg new) \<and> files w' temp = None
     \<and> files w' backup = (if files w p = None then files w backup else files w p)"
proof -
  obtain w1 where w1: "snd (fs_unlink backup w) = w1" "files w1 = (files w)(backup := None)"
      "outcomes w1 = []" "stat_works w1 = []"
    using assms(1,2,7)
    by (cases "files w backup") (auto simp: fs_unlink_def next_outcome_def commit_def fun_upd_idem
        split: node.splits)
  have ex: "file_exists (Some p) w = (files w p \<noteq> None, w)"
    using assms(2,6) by (cases w) (auto simp: file_exists_def fs_stat_def split: option.split node.split)
  show ?thesis
  proof (cases "files w p")
    case None
    then show ?thesis
      using assms by (simp add: rotate_files_def ex fs_rename_def next_outcome_def
          commit_def Let_def)
  next
    case (Some n)
    then obtain d where d: "files w p = Some (Reg d)" using assms(6) by (cases n) auto
    show ?thesis
      using assms d w1
      by (simp add: rotate_files_def ex split_beta Let_def fs_rename_def next_outcome_def commit_def)
  qed
qed

section \<open>Properties\<close>

text \<open>C3. Writing cannot lose the working config while the file system admits that it is there. With a
  config in place, and whatever calls fail or stop short, \<open>stat()\<close> included, after every
  primitive of \<open>config_store_write\<close> the old config is in place, or it is the backup while the
  canonical path is absent or holds the complete new config. The one exception is a \<open>stat()\<close> that
  fails on the old config: then the canonical path may come to hold the complete new config with no
  new backup made, or the earlier config that was the backup, but never nothing and never part of one.
  \<open>ESP_OK\<close> means the new config is in place and the old one, unless it was overlooked, is the
  backup; an error means the old one is in place or, at worst, the backup, or, overlooked, replaced by
  the backup.\<close>
theorem config_write_never_loses_old:
  assumes "store_ok st" and "files w (store_path st) = Some (Reg old)" and "history w = []"
    and "config_store_write st data len w = (err, w')"
  shows "(\<forall>f \<in> insert (files w') (set (history w')).
            keeps old (payload_of data len) (store_path st) (backup_path st) f
            \<or> stat_fails w \<and> (\<exists>c. f (store_path st) = Some (Reg c)
                 \<and> (c = payload_of data len \<or> files w (backup_path st) = Some (Reg c))))
    \<and> (if err = ESP_OK
       then files w' (store_path st) = Some (Reg (payload_of data len))
            \<and> files w' (backup_path st) = (if stat_fails w then files w (backup_path st) else Some (Reg old))
       else files w' (store_path st) = Some (Reg old)
            \<or> (if stat_fails w
               then files w' (store_path st) = files w (backup_path st) \<and> files w (backup_path st) \<noteq> None
               else files w' (store_path st) = None \<and> files w' (backup_path st) = Some (Reg old)))"
proof -
  have "always (\<lambda>f. True) w" by (simp add: always_def)
  then have "if err = ESP_OK
       then files w' (store_path st) = Some (Reg (payload_of data len))
            \<and> files w' (backup_path st) = (if stat_fails w then files w (backup_path st) else Some (Reg old))
       else files w' (store_path st) = Some (Reg old)
            \<or> (if stat_fails w
               then files w' (store_path st) = files w (backup_path st) \<and> files w (backup_path st) \<noteq> None
               else files w' (store_path st) = None \<and> files w' (backup_path st) = Some (Reg old))"
    using config_store_write_unseen [OF assms(1,2) _ _ _ _ assms(4), of "\<lambda>f. True"]
      config_store_write_old [OF assms(1,2) _ _ _ assms(4), of "\<lambda>f. True"]
    by (cases "stat_fails w") auto
  with config_store_write_tables [OF assms] show ?thesis
    by (auto simp: always_def survives_def)
qed

text \<open>The exception is real: \<open>stat()\<close> fails and so does putting the new config in place. Then the earlier
  config is moved over the working one, which is nowhere any more.\<close>

definition stale_files :: files where
  "stale_files = [''/c'' \<mapsto> Reg ''old'', ''/c.bak'' \<mapsto> Reg ''stale'']"

definition demo_store :: store where
  "demo_store = \<lparr>s_cfg = \<lparr>cfg_path = Some ''/c'', override_path = None, max_size = 0\<rparr>, s_ready = True\<rparr>"

definition demo_files :: files where
  "demo_files = [''/c'' \<mapsto> Reg ''old'']"

lemma demo_store_ok [simp]: "store_ok demo_store" "s_ready demo_store" "store_path demo_store = ''/c''"
    "override_path (s_cfg demo_store) = None" "max_size (s_cfg demo_store) = 0"
    "backup_path demo_store = ''/c.bak''" "temp_path demo_store = ''/c.new''"
  by (simp_all add: demo_store_def store_ok_def store_path_def MAX_PATH_def backup_path_def
      temp_path_def BACKUP_SUFFIX_def TEMP_SUFFIX_def)

lemma config_lost_when_stat_fails:
  "let (err, w) = config_store_write demo_store (Some ''new'') 3
         ((boot True stale_files)\<lparr>stat_works := [False], outcomes := [Succeed, Succeed, Succeed, Succeed, Fail]\<rparr>) in
   err = ESP_FAIL \<and> files w = [''/c'' \<mapsto> Reg ''stale'']"
  by (simp add: config_store_write_eq payload_of_def write_temp_def fs_fopen_wb_def fs_fwrite_def fs_fflush_def
      fs_fclose_def rotate_files_def file_exists_def fs_stat_def stat_fails_def fs_unlink_def fs_rename_def
      next_outcome_def commit_def boot_def stale_files_def fun_upd_twist Let_def)

theorem config_write_never_loses_old_witness:
  "\<exists>err w'. config_store_write demo_store (Some ''new'') 3 (boot True demo_files) = (err, w')
     \<and> (\<forall>f \<in> set (history w'). keeps ''old'' ''new'' ''/c'' ''/c.bak'' f)"
proof -
  obtain err w' where r: "config_store_write demo_store (Some ''new'') 3 (boot True demo_files) = (err, w')"
    by fastforce
  have "files (boot True demo_files) (store_path demo_store) = Some (Reg ''old'')"
    by (simp add: demo_files_def)
  from config_write_never_loses_old [OF demo_store_ok(1) this _ r] r show ?thesis
    by (auto simp: payload_of_def)
qed

text \<open>C4. A device that loses power at any point of a write can be brought back: booting on
  any file table the write passed through, a read gives the old config or the complete new
  one, or it reports \<open>ESP_ERR_NOT_FOUND\<close> and then \<open>config_store_restore_backup\<close>
  succeeds and the next read gives the old config. Only if \<open>stat()\<close> had failed on the old config during
  the write, the canonical path may hold the earlier one, from the backup, instead.\<close>
theorem config_crash_recovers:
  assumes "store_ok st" and "s_ready st" and "override_path (s_cfg st) = None"
    and "files w (store_path st) = Some (Reg old)" and "history w = []"
    and "config_store_write st data len w = (err, w')" and "f \<in> set (history w')"
    and "readable st n old" and "readable st n (payload_of data len)"
  shows "fst (config_store_read st False n (boot rp f))
           \<in> {(ESP_OK, old, CONFIG_STORE_SOURCE_PRIMARY),
              (ESP_OK, payload_of data len, CONFIG_STORE_SOURCE_PRIMARY)}
    \<or> (fst (config_store_read st False n (boot rp f))
          = (ESP_ERR_NOT_FOUND, [], CONFIG_STORE_SOURCE_NONE)
       \<and> (\<exists>w''. config_store_restore_backup st (boot rp f) = (ESP_OK, w'')
          \<and> fst (config_store_read st False n w'') = (ESP_OK, old, CONFIG_STORE_SOURCE_PRIMARY)))
    \<or> stat_fails w \<and> f (store_path st) = files w (backup_path st) \<and> f (store_path st) \<noteq> None"
proof (cases "keeps old (payload_of data len) (store_path st) (backup_path st) f")
  case False
  then have "stat_fails w \<and> (\<exists>c. f (store_path st) = Some (Reg c)
      \<and> (c = payload_of data len \<or> files w (backup_path st) = Some (Reg c)))"
    using config_store_write_tables [OF assms(1,4,5,6)] assms(7) by (auto simp: always_def survives_def)
  then show ?thesis
    using config_store_read_quiet [OF assms(2,3), of "boot rp f" _ n] assms(9) by auto
next
  case k: True
  show ?thesis
  proof (cases "f (store_path st)")
    case None
    with k have b: "f (backup_path st) = Some (Reg old)" by (simp add: keeps_def)
    have "2 \<le> n" using assms(8) by (simp add: readable_def)
    then have nf: "fst (config_store_read st False n (boot rp f))
        = (ESP_ERR_NOT_FOUND, [], CONFIG_STORE_SOURCE_NONE)"
      using None assms by (intro config_store_read_absent) simp_all
    obtain w'' where "config_store_restore_backup st (boot rp f) = (ESP_OK, w'')" "outcomes w'' = []"
        "\<not> stat_fails w''" "files w'' (store_path st) = Some (Reg old)"
      using config_store_restore_quiet [OF assms(1,2), of "boot rp f" old] b None by auto
    with nf config_store_read_quiet [OF assms(2,3) _ _ _ assms(8)] show ?thesis by blast
  next
    case (Some x)
    with k have "x = Reg old \<or> x = Reg (payload_of data len)" by (auto simp: keeps_def)
    then show ?thesis
      using Some config_store_read_quiet [OF assms(2,3), of "boot rp f" _ n] assms(8,9) by auto
  qed
qed

theorem config_crash_recovers_witness:
  "\<exists>err w' f. config_store_write demo_store (Some ''new'') 3 (boot False demo_files) = (err, w')
     \<and> f \<in> set (history w')
     \<and> fst (config_store_read demo_store False 64 (boot False f))
          = (ESP_ERR_NOT_FOUND, [], CONFIG_STORE_SOURCE_NONE)
     \<and> (\<exists>w''. config_store_restore_backup demo_store (boot False f) = (ESP_OK, w'')
          \<and> fst (config_store_read demo_store False 64 w'')
              = (ESP_OK, ''old'', CONFIG_STORE_SOURCE_PRIMARY))"
proof -
  let ?w = "boot False demo_files"
  obtain err w' where r: "config_store_write demo_store (Some ''new'') 3 ?w = (err, w')"
    by fastforce
  have old: "files ?w (store_path demo_store) = Some (Reg ''old'')" by (simp add: demo_files_def)
  define f :: files where "f = [''/c.new'' \<mapsto> Reg ''new'', ''/c.bak'' \<mapsto> Reg ''old'']"
  have "f \<in> set (history w')"
    using r unfolding config_store_write_eq [OF demo_store_ok(1)]
    by (auto simp: write_temp_def fs_fopen_wb_def fs_fwrite_def fs_fflush_def fs_fclose_def
        rotate_files_def file_exists_def fs_stat_def fs_unlink_def fs_rename_def next_outcome_def commit_def
        boot_def demo_files_def payload_of_def f_def fun_eq_iff)
  moreover have "fst (config_store_read demo_store False 64 (boot False f))
      = (ESP_ERR_NOT_FOUND, [], CONFIG_STORE_SOURCE_NONE)"
    by (rule config_store_read_absent) (simp_all add: f_def)
  moreover have "readable demo_store 64 ''old''" "readable demo_store 64 (payload_of (Some ''new'') 3)"
    by (simp_all add: readable_def payload_of_def)
  ultimately show ?thesis
    using config_crash_recovers [OF demo_store_ok(1,2,4) old _ r, of f 64 False] r by force
qed

text \<open>No sequence of writes, restores and reads, under any pattern of failures, ever
  leaves a device that had a configuration without one at both paths, at any point in
  between.\<close>
theorem config_never_both_gone:
  assumes "store_ok st" and "has_config (store_path st) (backup_path st) (files w)"
    and "history w = []"
  shows "\<forall>f \<in> insert (files (fold (do_op st) ops w)) (set (history (fold (do_op st) ops w))).
           has_config (store_path st) (backup_path st) f"
  using fold_op_has_config [OF assms(1), of w ops] assms(2,3) by (auto simp: always_def)

theorem config_never_both_gone_witness:
  "has_config ''/c'' ''/c.bak''
     (files (fold (do_op demo_store) [Op_write (Some ''new'') 3, Op_restore, Op_write None 0]
        (boot True demo_files\<lparr>outcomes := [Succeed, Succeed, Fail, Short 1]\<rparr>)))"
proof -
  let ?w = "boot True demo_files\<lparr>outcomes := [Succeed, Succeed, Fail, Short 1]\<rparr>"
  have "has_config (store_path demo_store) (backup_path demo_store) (files ?w)"
    by (simp add: has_config_def demo_files_def)
  from config_never_both_gone [OF demo_store_ok(1) this,
      of "[Op_write (Some ''new'') 3, Op_restore, Op_write None 0]"]
  show ?thesis unfolding demo_store_ok by (simp del: fold_simps)
qed

text \<open>With a working file system the write does what it is for: the new config is in
  place, the previous one is the backup, the temporary is gone, and a restore followed by a
  read gives the previous config back.\<close>
theorem config_write_restore_roundtrip:
  assumes "store_ok st" and "override_path (s_cfg st) = None" and "write_admissible st data len"
    and "outcomes w = []" and "stat_works w = []" and "files w (store_path st) = Some (Reg old)"
    and "files w (backup_path st) \<noteq> Some Other_node" and "files w (temp_path st) \<noteq> Some Other_node"
    and "readable st n old" and "readable st n (payload_of data len)"
  shows "\<exists>w1 w2. config_store_write st data len w = (ESP_OK, w1)
    \<and> fst (config_store_read st False n w1)
        = (ESP_OK, payload_of data len, CONFIG_STORE_SOURCE_PRIMARY)
    \<and> files w1 (temp_path st) = None
    \<and> config_store_restore_backup st w1 = (ESP_OK, w2)
    \<and> fst (config_store_read st False n w2) = (ESP_OK, old, CONFIG_STORE_SOURCE_PRIMARY)"
proof -
  have rdy: "s_ready st" using assms(3) by (simp add: write_admissible_def)
  obtain w0 where w0: "write_temp (temp_path st) (payload_of data len) w = (True, w0)" "outcomes w0 = []" "stat_works w0 = []"
    using write_temp_quiet [OF assms(4,8)] assms(5) by metis
  have oc: "\<forall>q. q \<noteq> temp_path st \<longrightarrow> files w0 q = files w q"
    using write_temp_only_changes [of "temp_path st" w "payload_of data len"] w0
    by (simp add: only_changes_def)
  have rot: "\<exists>w1. rotate_files (store_path st) (temp_path st) (backup_path st) w0 = (ESP_OK, w1)
     \<and> outcomes w1 = [] \<and> stat_works w1 = [] \<and> files w1 (store_path st) = Some (Reg (payload_of data len))
     \<and> files w1 (temp_path st) = None \<and> files w1 (backup_path st) = Some (Reg old)"
    using rotate_quiet [OF w0(2,3) paths_distinct(4,2,3) _ _ write_temp_content [OF w0(1)]] oc assms(6,7)
    by simp
  then obtain w1 where w1: "config_store_write st data len w = (ESP_OK, w1)" "outcomes w1 = []" "stat_works w1 = []"
     "files w1 (store_path st) = Some (Reg (payload_of data len))" "files w1 (temp_path st) = None"
     "files w1 (backup_path st) = Some (Reg old)"
    using assms(3) w0 by (auto simp: config_store_write_eq [OF assms(1)] write_admissible_def)
  obtain w2 where w2: "config_store_restore_backup st w1 = (ESP_OK, w2)" "outcomes w2 = []" "stat_works w2 = []"
      "files w2 (store_path st) = Some (Reg old)"
    using config_store_restore_quiet [OF assms(1) rdy w1(2,3,6)] w1(4) by auto
  show ?thesis
    using w1 w2 config_store_read_quiet [OF rdy assms(2) w1(2) stat_works_Nil [OF w1(3)] w1(4) assms(10)]
      config_store_read_quiet [OF rdy assms(2) w2(2) stat_works_Nil [OF w2(3)] w2(4) assms(9)] by blast
qed

theorem config_write_restore_roundtrip_witness:
  "\<exists>w1 w2. config_store_write demo_store (Some ''new'') 3 (boot False demo_files) = (ESP_OK, w1)
    \<and> config_store_restore_backup demo_store w1 = (ESP_OK, w2)
    \<and> fst (config_store_read demo_store False 64 w2) = (ESP_OK, ''old'', CONFIG_STORE_SOURCE_PRIMARY)"
proof -
  have "write_admissible demo_store (Some ''new'') 3" by (simp add: write_admissible_def)
  moreover have "readable demo_store 64 ''old''" "readable demo_store 64 (payload_of (Some ''new'') 3)"
    by (simp_all add: readable_def payload_of_def)
  moreover have "files (boot False demo_files) (store_path demo_store) = Some (Reg ''old'')"
    "files (boot False demo_files) (backup_path demo_store) \<noteq> Some Other_node"
    "files (boot False demo_files) (temp_path demo_store) \<noteq> Some Other_node"
    by (simp_all add: demo_files_def)
  ultimately show ?thesis
    using config_write_restore_roundtrip [OF demo_store_ok(1,4), of "Some ''new''" 3 "boot False demo_files" "''old''" 64]
    by auto
qed

text \<open>A read that answers \<open>ESP_OK\<close> hands over the whole of the file it names and
  fits it in the buffer with its terminator: the override when that is seen to exist, the canonical
  file otherwise; and an override that is seen but cannot be read is an error, never a
  silent fall back.\<close>
theorem config_read_names_its_source:
  assumes "config_store_read st nul n w = ((err, txt, src), w')"
  shows "(err = ESP_OK \<longrightarrow> length txt < n \<and>
       (src = CONFIG_STORE_SOURCE_OVERRIDE \<and> fst (file_exists (override_path (s_cfg st)) w)
          \<and> files w (the (override_path (s_cfg st))) = Some (Reg txt)
        \<or> src = CONFIG_STORE_SOURCE_PRIMARY \<and> \<not> fst (file_exists (override_path (s_cfg st)) w)
          \<and> files w (store_path st) = Some (Reg txt)))
    \<and> (err \<noteq> ESP_OK \<longrightarrow> src = CONFIG_STORE_SOURCE_NONE)"
proof (cases "s_ready st \<and> \<not> (nul \<or> n < 2)")
  case False
  then consider "\<not> s_ready st" | "s_ready st" "nul \<or> n < 2" by blast
  then show ?thesis by cases (use assms in \<open>auto simp: config_store_read_def\<close>)
next
  case True
  obtain ex v where ex: "file_exists (override_path (s_cfg st)) w = (ex, v)" by fastforce
  have v: "files v = files w" using file_exists_frame(1) [of "override_path (s_cfg st)" w] ex by simp
  define tgt where "tgt = (if ex then the (override_path (s_cfg st)) else store_path st)"
  obtain e t w1 where rf: "read_file tgt n (max_size (s_cfg st)) v = ((e, t), w1)"
    by (metis surj_pair)
  have "err = e \<and> txt = t \<and> src = (if e \<noteq> ESP_OK then CONFIG_STORE_SOURCE_NONE
      else if ex then CONFIG_STORE_SOURCE_OVERRIDE else CONFIG_STORE_SOURCE_PRIMARY)"
    using assms True rf by (auto simp: config_store_read_def tgt_def ex split: if_splits)
  moreover have "e = ESP_OK \<Longrightarrow> files w tgt = Some (Reg t) \<and> length t < n"
    using read_file_OK rf v by metis
  ultimately show ?thesis by (auto simp: ex tgt_def)
qed

theorem config_read_names_its_source_witness:
  "\<exists>w'. config_store_read demo_store False 64 (boot True demo_files)
      = ((ESP_OK, ''old'', CONFIG_STORE_SOURCE_PRIMARY), w')
     \<and> files (boot True demo_files) ''/c'' = Some (Reg ''old'')"
proof -
  have "fst (config_store_read demo_store False 64 (boot True demo_files))
      = (ESP_OK, ''old'', CONFIG_STORE_SOURCE_PRIMARY)"
    by (rule config_store_read_quiet) (simp_all add: demo_files_def readable_def)
  then obtain w' where r: "config_store_read demo_store False 64 (boot True demo_files)
      = ((ESP_OK, ''old'', CONFIG_STORE_SOURCE_PRIMARY), w')" by (metis prod.collapse)
  from config_read_names_its_source [OF r] have "files (boot True demo_files) ''/c'' = Some (Reg ''old'')"
    by simp
  with r show ?thesis by blast
qed


section \<open>The restart\<close>

text \<open>\<open>config_store_schedule_restart\<close> of \<open>config_store_restart.c\<close>: a timer of the platform, created
  and started with the answers given. The result has the time it was started with, in microseconds.\<close>

definition config_store_schedule_restart ::
    "esp_err_t \<Rightarrow> esp_err_t \<Rightarrow> 32 word \<Rightarrow> esp_err_t \<times> 64 word option" where
  "config_store_schedule_restart created started delay_ms =
    (if created \<noteq> ESP_OK then (created, None)
     else (started, Some (ucast delay_ms * 1000)))"

text \<open>The product is formed in 64 bits, so no delay wraps round.\<close>

lemma config_restart_exact:
  "config_store_schedule_restart ESP_OK started delay_ms = (e, Some us) \<Longrightarrow> unat us = unat delay_ms * 1000"
proof -
  assume a: "config_store_schedule_restart ESP_OK started delay_ms = (e, Some us)"
  have "unat delay_ms * 1000 < 4294967296 * 1000" using unat_lt_32 [of delay_ms] by linarith
  also have "\<dots> \<le> 2 ^ 64" by simp
  finally have "unat delay_ms * 1000 < 2 ^ 64" .
  then have "unat (ucast delay_ms * 1000 :: 64 word) = unat delay_ms * 1000"
    by (simp add: unat_mult_lem [THEN iffD1] unat_ucast_64)
  then show ?thesis using a by (auto simp: config_store_schedule_restart_def)
qed

end
