(* ===== verification/Cli_Args.thy ===== *)
theory Cli_Args
  imports Prelude "HOL-Library.Char_ord"
begin

text \<open>
  Argument parsing of \<open>cli/src/cli_args.c\<close>: integers that must use up their token,
  the decimal-or-hexadecimal form, and pin lists with ranges. \<open>strtol\<close> is written out
  for any width of \<open>long\<close>; a signed overflow the code does not guard against is a
  result of its own, so a statement can say where it is and is not reached.
\<close>

section \<open>C results and integers\<close>

text \<open>\<open>Ret v\<close>: returned 0 and stored \<open>v\<close>. \<open>Refused\<close>: returned -1.
  \<open>Undef\<close>: a signed overflow, undefined behaviour.\<close>

datatype 'a cres = Ret 'a | Refused | Undef

definition INT_MAX :: int where "INT_MAX = 2147483647"
definition INT_MIN :: int where "INT_MIN = -2147483648"

definition isspace :: "char \<Rightarrow> bool" where
  "isspace c \<longleftrightarrow> c = CHR '' '' \<or> (9 \<le> (of_char c :: nat) \<and> (of_char c :: nat) \<le> 13)"

definition digit_val :: "char \<Rightarrow> nat" where
  "digit_val c =
     (let n = of_char c :: nat in
      if 48 \<le> n \<and> n \<le> 57 then n - 48
      else if 97 \<le> n \<and> n \<le> 122 then n - 87
      else if 65 \<le> n \<and> n \<le> 90 then n - 55 else 99)"

definition digits_val :: "nat \<Rightarrow> string \<Rightarrow> nat" where
  "digits_val base ds = foldl (\<lambda>acc c. acc * base + digit_val c) 0 ds"

text \<open>\<open>strtol(s, &end, base)\<close> for a \<open>long\<close> of \<open>bits\<close> bits: the value, what is left
  at \<open>end\<close>, whether anything was converted, and whether \<open>errno\<close> was set.\<close>

definition split_sign :: "string \<Rightarrow> bool \<times> string" where
  "split_sign s = (case s of
      c # r \<Rightarrow> if c = CHR ''-'' then (True, r) else if c = CHR ''+'' then (False, r) else (False, s)
    | [] \<Rightarrow> (False, s))"

definition skip_0x :: "nat \<Rightarrow> string \<Rightarrow> string" where
  "skip_0x base s = (case s of
      a # b # c # r \<Rightarrow>
        if base = 16 \<and> a = CHR ''0'' \<and> (b = CHR ''x'' \<or> b = CHR ''X'') \<and> digit_val c < 16
        then c # r else s
    | _ \<Rightarrow> s)"

definition strtol :: "nat \<Rightarrow> nat \<Rightarrow> string \<Rightarrow> int \<times> string \<times> bool \<times> bool" where
  "strtol bits base s =
    (let (neg, s2) = split_sign (dropWhile isspace s);
         s3 = skip_0x base s2;
         ds = takeWhile (\<lambda>c. digit_val c < base) s3;
         rest = dropWhile (\<lambda>c. digit_val c < base) s3 in
     if ds = [] then (0, s, False, False)
     else
       let v = (if neg then - int (digits_val base ds) else int (digits_val base ds)) in
       if v > 2 ^ (bits - 1) - 1 then (2 ^ (bits - 1) - 1, rest, True, True)
       else if v < - (2 ^ (bits - 1)) then (- (2 ^ (bits - 1)), rest, True, True)
       else (v, rest, True, False))"

section \<open>Integers\<close>

abbreviation skip_spaces :: "string \<Rightarrow> string" where
  "skip_spaces \<equiv> dropWhile (\<lambda>c. c = CHR '' '')"

definition parse_in_base :: "nat \<Rightarrow> cptr \<Rightarrow> nat \<Rightarrow> int cres" where
  "parse_in_base bits token base =
    (case token of None \<Rightarrow> Refused
     | Some t \<Rightarrow>
       (let t = skip_spaces t in
        if t = [] then Refused
        else
          let (value, end, converted, errno) = strtol bits base t in
          if errno \<or> \<not> converted then Refused
          else
            let end = skip_spaces end in
            if end \<noteq> [] then Refused
            else if value < INT_MIN \<or> value > INT_MAX then Refused
            else Ret value))"

definition cli_parse_int_arg :: "nat \<Rightarrow> cptr \<Rightarrow> int cres" where
  "cli_parse_int_arg bits token = parse_in_base bits token 10"

definition cli_parse_num_arg :: "nat \<Rightarrow> cptr \<Rightarrow> int cres" where
  "cli_parse_num_arg bits token =
    (case token of None \<Rightarrow> parse_in_base bits token 10
     | Some t \<Rightarrow>
       (let digits = skip_spaces t;
            negative = (digits \<noteq> [] \<and> hd digits = CHR ''-'');
            digits = (if negative then tl digits else digits) in
        case digits of
          a # b # r \<Rightarrow>
            if a = CHR ''0'' \<and> (b = CHR ''x'' \<or> b = CHR ''X'') then
              (case parse_in_base bits (Some r) 16 of
                 Ret value \<Rightarrow>
                   if negative then (if value = INT_MIN then Undef else Ret (- value))
                   else Ret value
               | e \<Rightarrow> e)
            else parse_in_base bits token 10
        | _ \<Rightarrow> parse_in_base bits token 10))"

section \<open>Floating point\<close>

text \<open>\<open>strtod\<close> is a parameter: the value, what is left at \<open>end\<close>, and whether \<open>errno\<close> was
  set; it leaves all of the token when it converts nothing. So is \<open>isfinite\<close>.\<close>

definition cli_parse_double_arg ::
    "(string \<Rightarrow> 'd \<times> string \<times> bool) \<Rightarrow> ('d \<Rightarrow> bool) \<Rightarrow> cptr \<Rightarrow> 'd cres" where
  "cli_parse_double_arg strtod isfinite token =
    (case token of None \<Rightarrow> Refused
     | Some t \<Rightarrow>
       (let t = skip_spaces t in
        if t = [] then Refused
        else
          let (value, end, errno) = strtod t in
          if errno \<or> end = t then Refused
          else if skip_spaces end \<noteq> [] then Refused
          else if \<not> isfinite value then Refused
          else Ret value))"

text \<open>Spaces around a number make no difference, if they make none to what \<open>strtod\<close> makes of it.\<close>

lemma cli_double_spaces:
  assumes "strtod t = (v, [], False)" "strtod (t @ replicate n (CHR '' '')) = (v, replicate n (CHR '' ''), False)"
    and "t \<noteq> []" "hd t \<noteq> CHR '' ''"
  shows "cli_parse_double_arg strtod isfinite (Some (replicate k (CHR '' '') @ t @ replicate n (CHR '' '')))
    = cli_parse_double_arg strtod isfinite (Some t)"
proof -
  have skip: "skip_spaces (replicate m (CHR '' '') @ u) = skip_spaces u" for m and u :: string
    by (induction m) simp_all
  have t: "skip_spaces (t @ u) = t @ u" for u using assms(3,4) by (cases t) simp_all
  show ?thesis
    using assms t [of "[]"] skip [of n "[]"] by (simp add: cli_parse_double_arg_def skip t)
qed

section \<open>Pin lists\<close>

definition MAX_PINS :: nat where "MAX_PINS = 64"

text \<open>\<open>grow n\<close>: whether the \<open>realloc\<close> to \<open>n\<close> entries succeeds.\<close>

definition append_pin :: "(nat \<Rightarrow> bool) \<Rightarrow> int list \<Rightarrow> int \<Rightarrow> int list option" where
  "append_pin grow pins pin =
    (if length pins \<ge> MAX_PINS then None
     else if \<not> grow (length pins + 1) then None
     else Some (pins @ [pin]))"

text \<open>\<open>for (int pin = start; pin <= end; pin++)\<close>: the increment after \<open>INT_MAX\<close> is
  undefined.\<close>

function pin_range :: "(nat \<Rightarrow> bool) \<Rightarrow> int list \<Rightarrow> int \<Rightarrow> int \<Rightarrow> int list cres" where
  "pin_range grow pins pin end =
    (if pin \<le> end then
       case append_pin grow pins pin of
         None \<Rightarrow> Refused
       | Some pins' \<Rightarrow> if pin = INT_MAX then Undef else pin_range grow pins' (pin + 1) end
     else Ret pins)"
  by pat_completeness auto
termination by (relation "measure (\<lambda>(grow, pins, pin, end). nat (end - pin + 1))") auto

declare pin_range.simps [simp del]

text \<open>\<open>strtok_r(str, ",", &save)\<close> until it returns NULL.\<close>

fun strtok_all :: "string \<Rightarrow> string \<Rightarrow> string list" where
  "strtok_all cur [] = (if cur = [] then [] else [cur])"
| "strtok_all cur (c # cs) =
     (if c = CHR '','' then (if cur = [] then strtok_all [] cs else cur # strtok_all [] cs)
      else strtok_all (cur @ [c]) cs)"

text \<open>\<open>strchr(token + (token[0] == '-' ? 1 : 0), '-')\<close>: the parts before and after the
  dash, if there is one.\<close>

definition split_dash :: "string \<Rightarrow> (string \<times> string) option" where
  "split_dash token =
    (let off = (if token \<noteq> [] \<and> hd token = CHR ''-'' then 1 else 0);
         r = drop off token in
     if CHR ''-'' \<in> set r
     then Some (take off token @ takeWhile (\<lambda>c. c \<noteq> CHR ''-'') r,
                tl (dropWhile (\<lambda>c. c \<noteq> CHR ''-'') r))
     else None)"

definition pin_token :: "nat \<Rightarrow> (nat \<Rightarrow> bool) \<Rightarrow> int list \<Rightarrow> string \<Rightarrow> int list cres" where
  "pin_token bits grow pins token =
    (case split_dash token of
       Some (before, after) \<Rightarrow>
         (case cli_parse_int_arg bits (Some before) of
            Ret start \<Rightarrow>
              (case cli_parse_int_arg bits (Some after) of
                 Ret end \<Rightarrow> if end < start then Refused else pin_range grow pins start end
               | _ \<Rightarrow> Refused)
          | _ \<Rightarrow> Refused)
     | None \<Rightarrow>
         (case cli_parse_int_arg bits (Some token) of
            Ret pin \<Rightarrow>
              (case append_pin grow pins pin of None \<Rightarrow> Refused | Some pins' \<Rightarrow> Ret pins')
          | _ \<Rightarrow> Refused))"

fun pin_tokens :: "nat \<Rightarrow> (nat \<Rightarrow> bool) \<Rightarrow> int list \<Rightarrow> string list \<Rightarrow> int list cres" where
  "pin_tokens bits grow pins [] = Ret pins"
| "pin_tokens bits grow pins (t # ts) =
     (case pin_token bits grow pins t of
        Ret pins' \<Rightarrow> pin_tokens bits grow pins' ts
      | e \<Rightarrow> e)"

text \<open>\<open>dup\<close>: whether \<open>strdup\<close> succeeds. \<open>Refused\<close> leaves \<open>*pins\<close> NULL and
  \<open>*count\<close> 0; \<open>Ret pins\<close> is the array of \<open>*count\<close> pins.\<close>

definition cli_parse_pin_list :: "nat \<Rightarrow> bool \<Rightarrow> (nat \<Rightarrow> bool) \<Rightarrow> cptr \<Rightarrow> int list cres" where
  "cli_parse_pin_list bits dup grow pin_str =
    (case pin_str of None \<Rightarrow> Refused
     | Some s \<Rightarrow>
       if s = [] then Refused
       else if \<not> dup then Refused
       else case pin_tokens bits grow [] (strtok_all [] s) of
              Ret pins \<Rightarrow> if length pins = 0 then Refused else Ret pins
            | e \<Rightarrow> e)"


section \<open>What an integer argument is\<close>

text \<open>The texts the decimal parser is meant to take: leading white space, an optional
  sign, at least one digit, trailing blanks, and nothing else.\<close>

definition decimal_text :: "string \<Rightarrow> int \<Rightarrow> bool" where
  "decimal_text t v \<longleftrightarrow>
    (\<exists>ws sg ds sp. t = ws @ sg @ ds @ sp \<and> (\<forall>c \<in> set ws. isspace c)
       \<and> sg \<in> {[], ''-'', ''+''} \<and> ds \<noteq> [] \<and> (\<forall>c \<in> set ds. digit_val c < 10)
       \<and> (\<forall>c \<in> set sp. c = CHR '' '')
       \<and> v = (if sg = ''-'' then - int (digits_val 10 ds) else int (digits_val 10 ds)))"

lemma dropWhile_prefix:
  "\<forall>c \<in> set ws. P c \<Longrightarrow> r = [] \<or> \<not> P (hd r) \<Longrightarrow> dropWhile P (ws @ r) = r"
  by (cases r) (induction ws, auto)+

lemma takeWhile_prefix:
  "\<forall>c \<in> set ws. P c \<Longrightarrow> r = [] \<or> \<not> P (hd r) \<Longrightarrow> takeWhile P (ws @ r) = ws"
  by (cases r) (induction ws, auto)+

lemma digit_not_space: "digit_val c < 10 \<Longrightarrow> \<not> isspace c \<and> c \<noteq> CHR ''-'' \<and> c \<noteq> CHR ''+'' \<and> c \<noteq> CHR '' ''"
  by (auto simp: digit_val_def isspace_def Let_def split: if_splits)

lemma sign_not_space [simp]: "\<not> isspace CHR ''-''" "\<not> isspace CHR ''+''" "isspace CHR '' ''"
  by (simp_all add: isspace_def)

lemma space_not_digit [simp]: "\<not> digit_val CHR '' '' < b \<longleftrightarrow> b \<le> 99"
  by (auto simp: digit_val_def)

lemma dropWhile_spaces_isspace:
  "dropWhile isspace (skip_spaces t) = dropWhile isspace t"
  by (induction t) auto

lemma all_blank_iff: "skip_spaces e = [] \<longleftrightarrow> (\<forall>c \<in> set e. c = CHR '' '')"
  by (simp add: dropWhile_eq_Nil_conv)

text \<open>\<open>strtol\<close> in base 10 on the texts above, and only there, converts something and
  leaves only blanks.\<close>

definition signed_value :: "bool \<Rightarrow> string \<Rightarrow> int" where
  "signed_value neg ds = (if neg then - int (digits_val 10 ds) else int (digits_val 10 ds))"

definition scan_sign :: "string \<Rightarrow> bool \<times> string" where
  "scan_sign t = split_sign (dropWhile isspace t)"

definition scan_digits :: "string \<Rightarrow> string" where
  "scan_digits t = takeWhile (\<lambda>c. digit_val c < 10) (snd (scan_sign t))"

definition scan_rest :: "string \<Rightarrow> string" where
  "scan_rest t = dropWhile (\<lambda>c. digit_val c < 10) (snd (scan_sign t))"

lemma skip_0x_decimal [simp]: "skip_0x 10 s = s"
  by (auto simp: skip_0x_def split: list.splits)

lemma decimal_text_scan:
  "decimal_text t v \<longleftrightarrow> scan_digits t \<noteq> [] \<and> skip_spaces (scan_rest t) = []
     \<and> v = signed_value (fst (scan_sign t)) (scan_digits t)" (is "?L \<longleftrightarrow> ?R")
proof
  assume ?L
  then obtain ws sg ds sp where t: "t = ws @ sg @ ds @ sp" and ws: "\<forall>c \<in> set ws. isspace c"
    and sg: "sg \<in> {[], ''-'', ''+''}" and ds: "ds \<noteq> []" "\<forall>c \<in> set ds. digit_val c < 10"
    and sp: "\<forall>c \<in> set sp. c = CHR '' ''"
    and v: "v = (if sg = ''-'' then - int (digits_val 10 ds) else int (digits_val 10 ds))"
    unfolding decimal_text_def by blast
  obtain d ds' where d: "ds = d # ds'" "digit_val d < 10" using ds by (cases ds) auto
  have dw: "dropWhile isspace t = sg @ ds @ sp"
    using ws sg digit_not_space [OF d(2)] d(1) unfolding t
    by (intro dropWhile_prefix) auto
  have sc: "scan_sign t = (sg = ''-'', ds @ sp)"
    using sg digit_not_space [OF d(2)] d(1) by (auto simp: scan_sign_def dw split_sign_def)
  have e: "sp = [] \<or> \<not> digit_val (hd sp) < 10" using sp by (cases sp) (auto simp: digit_val_def)
  have "scan_digits t = ds" "scan_rest t = sp"
    using takeWhile_prefix [OF ds(2) e] dropWhile_prefix [OF ds(2) e]
    by (simp_all add: scan_digits_def scan_rest_def sc)
  then show ?R using ds(1) sp v by (auto simp: all_blank_iff sc signed_value_def)
next
  assume R: ?R
  define u where "u = dropWhile isspace t"
  define sg where "sg = take (length u - length (snd (split_sign u))) u"
  have u: "u = sg @ snd (split_sign u)" and sg: "sg \<in> {[], ''-'', ''+''}"
    and neg: "fst (split_sign u) \<longleftrightarrow> sg = ''-''"
    by (auto simp: sg_def split_sign_def split: list.splits)
  have "t = takeWhile isspace t @ sg @ scan_digits t @ scan_rest t"
    using u by (simp add: scan_digits_def scan_rest_def scan_sign_def u_def [symmetric])
      (metis takeWhile_dropWhile_id u_def)
  moreover have "\<forall>c \<in> set (takeWhile isspace t). isspace c" by (auto dest: set_takeWhileD)
  moreover have "\<forall>c \<in> set (scan_digits t). digit_val c < 10"
    unfolding scan_digits_def by (blast dest: set_takeWhileD)
  ultimately show ?L
    using R sg neg unfolding decimal_text_def signed_value_def all_blank_iff
    by (intro exI [of _ "takeWhile isspace t"] exI [of _ sg] exI [of _ "scan_digits t"]
        exI [of _ "scan_rest t"]) (simp add: scan_sign_def u_def [symmetric])
qed

lemma long_covers_int: "32 \<le> bits \<Longrightarrow> (2147483648 :: int) \<le> 2 ^ (bits - 1)"
  using power_increasing [of 31 "bits - 1" "2::int"] by simp

lemma parse_decimal_scan:
  assumes "32 \<le> bits"
  shows "cli_parse_int_arg bits (Some t) =
    (let v = signed_value (fst (scan_sign t)) (scan_digits t) in
     if scan_digits t \<noteq> [] \<and> skip_spaces (scan_rest t) = [] \<and> INT_MIN \<le> v \<and> v \<le> INT_MAX
     then Ret v else Refused)"
proof -
  define u where "u = skip_spaces t"
  have eq: "scan_sign u = scan_sign t" "scan_digits u = scan_digits t" "scan_rest u = scan_rest t"
    by (simp_all add: scan_digits_def scan_rest_def scan_sign_def u_def dropWhile_spaces_isspace)
  have nil: "scan_digits u = []" if "u = []"
    using that by (simp add: scan_digits_def scan_sign_def split_sign_def)
  have "(2147483648 :: nat) \<le> 2 ^ (bits - 1)"
    using power_increasing [of 31 "bits - 1" "2::nat"] assms by simp
  then show ?thesis
    using long_covers_int [OF assms] nil
    unfolding cli_parse_int_arg_def parse_in_base_def eq [symmetric] u_def [symmetric]
    by (simp add: strtol_def Let_def split_beta scan_sign_def [symmetric] scan_digits_def [symmetric]
        scan_rest_def [symmetric] signed_value_def INT_MAX_def INT_MIN_def u_def [symmetric])
qed

text \<open>C5. The decimal argument parser accepts exactly the decimal texts whose value fits an
  \<open>int\<close>, whatever the width of \<open>long\<close> (32 bits on the target, 64 on the test host):
  \<open>cli_parse_int_arg\<close> returns \<open>v\<close> precisely when the whole token is white space, an
  optional sign, digits and trailing blanks denoting \<open>v\<close> within \<open>INT_MIN..INT_MAX\<close>,
  and otherwise refuses. In particular trailing text such as \<open>4x\<close> is never read as 4.\<close>

theorem cli_int_arg_exact:
  assumes "32 \<le> bits"
  shows "(cli_parse_int_arg bits (Some t) = Ret v
            \<longleftrightarrow> decimal_text t v \<and> INT_MIN \<le> v \<and> v \<le> INT_MAX)
       \<and> cli_parse_int_arg bits (Some t) \<noteq> Undef"
  using parse_decimal_scan [OF assms, of t] by (auto simp: decimal_text_scan Let_def)

theorem cli_int_arg_exact_witness:
  "decimal_text ''  -42 '' (-42) \<and> cli_parse_int_arg 32 (Some ''4x'') = Refused"
proof
  have "cli_parse_int_arg 32 (Some ''  -42 '') = Ret (-42)"
    by code_simp
  then show "decimal_text ''  -42 '' (-42)"
    using cli_int_arg_exact [of 32 "''  -42 ''" "-42"] by simp
  show "cli_parse_int_arg 32 (Some ''4x'') = Refused" by code_simp
qed


section \<open>What a pin list is\<close>

text \<open>The pins one comma separated token stands for: a single integer, or a range given by
  its inclusive ends. No limit, no allocation.\<close>

definition token_pins :: "nat \<Rightarrow> string \<Rightarrow> int list option" where
  "token_pins bits token =
    (case split_dash token of
       Some (a, b) \<Rightarrow>
         (case cli_parse_int_arg bits (Some a) of
            Ret lo \<Rightarrow> (case cli_parse_int_arg bits (Some b) of
                 Ret hi \<Rightarrow> if hi < lo then None else Some [lo..hi]
               | _ \<Rightarrow> None)
          | _ \<Rightarrow> None)
     | None \<Rightarrow> (case cli_parse_int_arg bits (Some token) of Ret v \<Rightarrow> Some [v] | _ \<Rightarrow> None))"

text \<open>The whole list: every token stands for pins, and there are between 1 and 64.\<close>

definition pin_list_spec :: "nat \<Rightarrow> string \<Rightarrow> int list option" where
  "pin_list_spec bits s =
    (case those (map (token_pins bits) (strtok_all [] s)) of
       None \<Rightarrow> None
     | Some pss \<Rightarrow> if 1 \<le> length (concat pss) \<and> length (concat pss) \<le> MAX_PINS
         then Some (concat pss) else None)"

text \<open>No range ends at the largest \<open>int\<close>, where \<open>pin++\<close> overflows.\<close>

definition below_top :: "nat \<Rightarrow> string \<Rightarrow> bool" where
  "below_top bits token \<longleftrightarrow>
     (case token_pins bits token of Some ps \<Rightarrow> INT_MAX \<notin> set ps | None \<Rightarrow> True)"

lemma pin_range_sound:
  assumes "pin_range grow pins p e = Ret qs" "length pins \<le> MAX_PINS"
  shows "qs = pins @ [p..e] \<and> length qs \<le> MAX_PINS"
  using assms
proof (induction grow pins p e rule: pin_range.induct)
  case (1 grow pins p e)
  show ?case
  proof (cases "p \<le> e")
    case True
    then have "[p..e] = p # [p + 1..e]" by (simp add: upto_rec1)
    with 1 True show ?thesis
      by (subst (asm) pin_range.simps [of grow pins p e])
        (auto simp: append_pin_def split: if_splits)
  next
    case False
    with 1 show ?thesis by (simp add: pin_range.simps [of grow pins p e])
  qed
qed

lemma pin_range_complete:
  assumes "e < INT_MAX" "length pins \<le> MAX_PINS"
  shows "pin_range (\<lambda>_. True) pins p e =
    (if length (pins @ [p..e]) \<le> MAX_PINS then Ret (pins @ [p..e]) else Refused)"
  using assms(2)
proof (induction "nat (e - p + 1)" arbitrary: p pins)
  case 0
  then show ?case by (simp add: pin_range.simps [of _ pins p e])
next
  case (Suc n)
  then have le: "p \<le> e" and n: "n = nat (e - (p + 1) + 1)" by auto
  then have "[p..e] = p # [p + 1..e]" by (simp add: upto_rec1)
  then show ?case
    using le assms(1) Suc.prems Suc.hyps(1) [OF n, of "pins @ [p]"]
    by (simp add: pin_range.simps [of _ pins p e] append_pin_def del: length_upto)
qed

lemma pin_token_sound:
  "pin_token bits grow pins t = Ret qs \<Longrightarrow> length pins \<le> MAX_PINS \<Longrightarrow>
   \<exists>ps. token_pins bits t = Some ps \<and> qs = pins @ ps \<and> length qs \<le> MAX_PINS"
  by (auto simp: pin_token_def token_pins_def append_pin_def dest!: pin_range_sound
      split: option.splits cres.splits if_splits)

lemma int_arg_range:
  "cli_parse_int_arg bits (Some b) = Ret v \<Longrightarrow> v \<le> INT_MAX"
  by (auto simp: cli_parse_int_arg_def parse_in_base_def Let_def split: if_splits prod.splits)

lemma pin_token_complete:
  assumes "below_top bits t" "length pins \<le> MAX_PINS"
  shows "pin_token bits (\<lambda>_. True) pins t = (case token_pins bits t of None \<Rightarrow> Refused
    | Some ps \<Rightarrow> if length (pins @ ps) \<le> MAX_PINS then Ret (pins @ ps) else Refused)"
proof (cases "split_dash t")
  case None
  then show ?thesis
    using assms(2) by (simp add: pin_token_def token_pins_def append_pin_def split: cres.splits)
next
  case (Some ab)
  obtain a b where ab: "ab = (a, b)" by (cases ab)
  show ?thesis
  proof (cases "\<exists>lo hi. cli_parse_int_arg bits (Some a) = Ret lo
      \<and> cli_parse_int_arg bits (Some b) = Ret hi \<and> lo \<le> hi")
    case True
    then obtain lo hi where p: "cli_parse_int_arg bits (Some a) = Ret lo"
      "cli_parse_int_arg bits (Some b) = Ret hi" "lo \<le> hi" by blast
    then have tp: "token_pins bits t = Some [lo..hi]"
      by (simp add: token_pins_def Some ab)
    with assms(1) p(3) have "INT_MAX \<noteq> hi" by (auto simp: below_top_def)
    with int_arg_range [OF p(2)] have "hi < INT_MAX" by simp
    from pin_range_complete [OF this assms(2), of lo] show ?thesis
      using p by (simp add: pin_token_def tp Some ab del: length_append)
  next
    case False
    then show ?thesis
      by (auto simp: pin_token_def token_pins_def Some ab split: cres.splits)
  qed
qed

lemma pin_tokens_sound:
  "pin_tokens bits grow pins ts = Ret qs \<Longrightarrow> length pins \<le> MAX_PINS \<Longrightarrow>
   \<exists>pss. those (map (token_pins bits) ts) = Some pss \<and> qs = pins @ concat pss
     \<and> length qs \<le> MAX_PINS"
  by (induction ts arbitrary: pins) (fastforce dest: pin_token_sound split: cres.splits)+

lemma pin_tokens_complete:
  assumes "\<forall>t \<in> set ts. below_top bits t" "length pins \<le> MAX_PINS"
  shows "pin_tokens bits (\<lambda>_. True) pins ts =
    (case those (map (token_pins bits) ts) of None \<Rightarrow> Refused
     | Some pss \<Rightarrow> if length (pins @ concat pss) \<le> MAX_PINS then Ret (pins @ concat pss)
        else Refused)"
  using assms
proof (induction ts arbitrary: pins)
  case Nil
  then show ?case by simp
next
  case (Cons t ts)
  then have tok: "pin_token bits (\<lambda>_. True) pins t = (case token_pins bits t of None \<Rightarrow> Refused
    | Some ps \<Rightarrow> if length (pins @ ps) \<le> MAX_PINS then Ret (pins @ ps) else Refused)"
    by (intro pin_token_complete) simp_all
  show ?case
  proof (cases "token_pins bits t")
    case None
    then show ?thesis by (simp add: tok)
  next
    case (Some ps)
    then show ?thesis
      using Cons.IH [of "pins @ ps"] Cons.prems
      by (cases "those (map (token_pins bits) ts)") (simp_all add: tok)
  qed
qed

text \<open>C6. A pin list is the concatenation of what its comma separated tokens stand for. Whatever
  allocations fail, a list \<open>cli_parse_pin_list\<close> returns is exactly that concatenation and
  holds between 1 and 64 pins; and when allocations succeed and no range reaches
  \<open>INT_MAX\<close>, every specification of 1 to 64 pins is accepted and every other one
  (empty, malformed, descending, too long) is refused.\<close>

theorem cli_pin_list_exact:
  "(cli_parse_pin_list bits dup grow (Some s) = Ret pins \<longrightarrow> pin_list_spec bits s = Some pins)
   \<and> (dup \<and> (\<forall>n. grow n) \<and> (\<forall>t \<in> set (strtok_all [] s). below_top bits t) \<longrightarrow>
        cli_parse_pin_list bits dup grow (Some s)
          = (case pin_list_spec bits s of Some ps \<Rightarrow> Ret ps | None \<Rightarrow> Refused))"
proof (intro conjI impI)
  assume "cli_parse_pin_list bits dup grow (Some s) = Ret pins"
  then have "pin_tokens bits grow [] (strtok_all [] s) = Ret pins" "pins \<noteq> []"
    by (auto simp: cli_parse_pin_list_def split: if_splits cres.splits)
  with pin_tokens_sound [of bits grow "[]" "strtok_all [] s" pins]
  show "pin_list_spec bits s = Some pins"
    by (auto simp: pin_list_spec_def Suc_le_eq simp del: length_concat)
next
  assume a: "dup \<and> (\<forall>n. grow n) \<and> (\<forall>t \<in> set (strtok_all [] s). below_top bits t)"
  then have grow: "grow = (\<lambda>_. True)" by auto
  have "pin_tokens bits grow [] (strtok_all [] s) =
      (case those (map (token_pins bits) (strtok_all [] s)) of None \<Rightarrow> Refused
       | Some pss \<Rightarrow> if length (concat pss) \<le> MAX_PINS then Ret (concat pss) else Refused)"
    using a pin_tokens_complete [of "strtok_all [] s" bits "[]"] unfolding grow
    by (cases "those (map (token_pins bits) (strtok_all [] s))") simp_all
  then show "cli_parse_pin_list bits dup grow (Some s)
          = (case pin_list_spec bits s of Some ps \<Rightarrow> Ret ps | None \<Rightarrow> Refused)"
    using a by (auto simp: cli_parse_pin_list_def pin_list_spec_def Suc_le_eq
        simp del: length_concat split: option.splits)
qed

theorem cli_pin_list_exact_witness:
  "cli_parse_pin_list 32 True (\<lambda>_. True) (Some ''1,4,8-10'') = Ret [1, 4, 8, 9, 10]"
proof -
  have tok: "strtok_all [] ''1,4,8-10'' = [''1'', ''4'', ''8-10'']" by code_simp
  have "token_pins 32 ''1'' = Some [1]" "token_pins 32 ''4'' = Some [4]"
    "token_pins 32 ''8-10'' = Some [8, 9, 10]"
    by code_simp+
  note t = tok this
  have "\<forall>t \<in> set (strtok_all [] ''1,4,8-10''). below_top 32 t"
    and "pin_list_spec 32 ''1,4,8-10'' = Some [1, 4, 8, 9, 10]"
    by (simp_all add: t below_top_def INT_MAX_def pin_list_spec_def MAX_PINS_def)
  then show ?thesis
    using cli_pin_list_exact [of 32 True "\<lambda>_. True" "''1,4,8-10''" "[]"] by simp
qed

lemmas scan_simps = cli_parse_int_arg_def parse_in_base_def strtol_def split_sign_def skip_0x_def
  digits_val_def digit_val_def isspace_def INT_MIN_def Let_def

text \<open>The unguarded edges of the integer range are reached from a command line. Negating a
  hexadecimal argument overflows for exactly one value, which \<open>-0x-80000000\<close> spells, and
  a pin range that ends at \<open>INT_MAX\<close> runs its loop counter past it: both are signed
  overflows of the code, not refusals.\<close>

theorem cli_overflow_reached:
  "cli_parse_num_arg 32 (Some ''-0x-80000000'') = Undef
   \<and> cli_parse_num_arg 64 (Some ''-0x-80000000'') = Undef
   \<and> cli_parse_num_arg 32 (Some ''-0x7fffffff'') = Ret (- INT_MAX)
   \<and> cli_parse_pin_list 32 True (\<lambda>_. True) (Some ''2147483646-2147483647'') = Undef"
proof -
  have "pin_range (\<lambda>_. True) [] 2147483646 INT_MAX = Undef"
    by (simp add: pin_range.simps append_pin_def MAX_PINS_def INT_MAX_def)
  moreover have "cli_parse_int_arg 32 (Some ''2147483646'') = Ret 2147483646"
    "cli_parse_int_arg 32 (Some ''2147483647'') = Ret INT_MAX"
    by (simp_all add: scan_simps INT_MAX_def)
  moreover have "split_dash ''2147483646-2147483647'' = Some (''2147483646'', ''2147483647'')"
    "strtok_all [] ''2147483646-2147483647'' = [''2147483646-2147483647'']"
    by (simp_all add: split_dash_def)
  ultimately have "cli_parse_pin_list 32 True (\<lambda>_. True) (Some ''2147483646-2147483647'') = Undef"
    by (simp add: cli_parse_pin_list_def pin_token_def INT_MAX_def)
  moreover have "cli_parse_num_arg 32 (Some ''-0x-80000000'') = Undef"
    "cli_parse_num_arg 64 (Some ''-0x-80000000'') = Undef"
    "cli_parse_num_arg 32 (Some ''-0x7fffffff'') = Ret (- INT_MAX)"
    by (simp_all add: cli_parse_num_arg_def scan_simps INT_MAX_def)
  ultimately show ?thesis by blast
qed

end
