(* ===== verification/Diag.thy ===== *)
theory Diag
  imports Prelude "HOL-Library.Multiset"
begin

text \<open>
  The output fan-out of \<open>diag/src/diag.c\<close>: the sink table, the single formatting buffer,
  and what each call does to the lock, to stdout and to the sinks, as the sequence of its
  actions. The second half runs several tasks against one lock and shows that what a call
  writes is never split by another task.

  FreeRTOS is not part of the repository: the recursive mutex is a parameter with its
  documented behaviour as a hypothesis.
\<close>

section \<open>The sink table\<close>

text \<open>A sink is the address of its function and of its context. \<open>sinks\<close> is the static
  array with all its slots; the live ones are the first \<open>sink_count\<close>.\<close>

record sink_t =
  s_fn :: nat
  s_ctx :: nat

record diag_t =
  MAX_SINKS :: nat
  FORMAT_BUF_SIZE :: nat
  sinks :: "sink_t list"
  sink_count :: nat
  output_mutex :: bool
  esp_log_captured :: bool

text \<open>\<open>cfg\<close> is NULL or the \<open>capture_esp_log\<close> flag; \<open>created\<close> is whether the mutex
  could be allocated.\<close>

definition diag_init :: "bool option \<Rightarrow> bool \<Rightarrow> diag_t \<Rightarrow> esp_err_t \<times> diag_t" where
  "diag_init cfg created d =
    (if output_mutex d then (ESP_OK, d)
     else if \<not> created then (ESP_ERR_NO_MEM, d)
     else let d = d\<lparr>output_mutex := True\<rparr> in
       (ESP_OK, if cfg = None \<or> cfg = Some True then d\<lparr>esp_log_captured := True\<rparr> else d))"

definition diag_sink_register :: "nat option \<Rightarrow> nat \<Rightarrow> diag_t \<Rightarrow> esp_err_t \<times> diag_t" where
  "diag_sink_register fn ctx d =
    (case fn of None \<Rightarrow> (ESP_ERR_INVALID_ARG, d)
     | Some f \<Rightarrow>
       if \<not> output_mutex d then (ESP_ERR_INVALID_STATE, d)
       else if sink_count d = MAX_SINKS d then (ESP_ERR_NO_MEM, d)
       else (ESP_OK, d\<lparr>sinks := (sinks d)[sink_count d := \<lparr>s_fn = f, s_ctx = ctx\<rparr>],
                       sink_count := sink_count d + 1\<rparr>))"

text \<open>The first live slot that holds the sink, searched from \<open>i\<close>.\<close>

function find_sink :: "nat option \<Rightarrow> nat \<Rightarrow> diag_t \<Rightarrow> nat \<Rightarrow> nat option" where
  "find_sink fn ctx d i =
    (if i < sink_count d then
       if Some (s_fn (sinks d ! i)) = fn \<and> s_ctx (sinks d ! i) = ctx then Some i
       else find_sink fn ctx d (i + 1)
     else None)"
  by pat_completeness auto
termination by (relation "measure (\<lambda>(fn, ctx, d, i). sink_count d - i)") auto

declare find_sink.simps [simp del]

definition diag_sink_unregister :: "nat option \<Rightarrow> nat \<Rightarrow> diag_t \<Rightarrow> esp_err_t \<times> diag_t" where
  "diag_sink_unregister fn ctx d =
    (if \<not> output_mutex d then (ESP_ERR_INVALID_STATE, d)
     else case find_sink fn ctx d 0 of
       None \<Rightarrow> (ESP_ERR_NOT_FOUND, d)
     | Some i \<Rightarrow> (ESP_OK, d\<lparr>sinks := (sinks d)[i := sinks d ! (sink_count d - 1)],
                            sink_count := sink_count d - 1\<rparr>))"

definition live :: "diag_t \<Rightarrow> sink_t list" where
  "live d = take (sink_count d) (sinks d)"

definition diag_ok :: "diag_t \<Rightarrow> bool" where
  "diag_ok d \<longleftrightarrow> length (sinks d) = MAX_SINKS d \<and> sink_count d \<le> MAX_SINKS d"

lemma register_live:
  "diag_ok d \<Longrightarrow> sink_count d < MAX_SINKS d \<Longrightarrow>
   live (d\<lparr>sinks := (sinks d)[sink_count d := x], sink_count := sink_count d + 1\<rparr>) = live d @ [x]"
  by (simp add: live_def diag_ok_def take_Suc_conv_app_nth)

lemma diag_register_inv: "diag_ok d \<Longrightarrow> diag_ok (snd (diag_sink_register fn ctx d))"
  by (auto simp: diag_sink_register_def diag_ok_def split: option.splits)

text \<open>The table is a bounded table of registrations.\<close>

interpretation sinks_table: bounded_table
  "\<lambda>d (fn, ctx). diag_sink_register fn ctx d" live n "\<lambda>d. diag_ok d \<and> MAX_SINKS d = n"
proof (unfold_locales, goal_cases)
  case (1 d e)
  then show ?case
    by (cases e) (auto simp: diag_register_inv, auto simp: diag_sink_register_def split: option.splits)
next
  case (2 d)
  then show ?case by (auto simp: live_def diag_ok_def)
next
  case (3 d e)
  obtain fn ctx where e: "e = (fn, ctx)" by (cases e)
  from 3 have d: "diag_ok d" "sink_count d < MAX_SINKS d"
    by (auto simp: e diag_sink_register_def diag_ok_def split: option.splits if_splits)
  from 3 register_live [OF d] show ?case
    by (auto simp: e diag_sink_register_def split: option.splits if_splits)
next
  case (4 d e)
  then show ?case
    by (cases e) (auto simp: diag_sink_register_def split: option.splits if_splits)
qed

lemma find_sink_Some:
  "find_sink fn ctx d i = Some k \<Longrightarrow> i \<le> k \<and> k < sink_count d
     \<and> Some (s_fn (sinks d ! k)) = fn \<and> s_ctx (sinks d ! k) = ctx"
proof (induction fn ctx d i rule: find_sink.induct)
  case (1 fn ctx d i)
  have st: "find_sink fn ctx d i =
    (if i < sink_count d then
       if Some (s_fn (sinks d ! i)) = fn \<and> s_ctx (sinks d ! i) = ctx then Some i
       else find_sink fn ctx d (i + 1)
     else None)" by (rule find_sink.simps)
  show ?case using 1 unfolding st by (auto split: if_splits)
qed

lemma find_sink_None:
  "find_sink fn ctx d i = None \<Longrightarrow> i \<le> k \<Longrightarrow> k < sink_count d \<Longrightarrow>
     \<not> (Some (s_fn (sinks d ! k)) = fn \<and> s_ctx (sinks d ! k) = ctx)"
proof (induction fn ctx d i rule: find_sink.induct)
  case (1 fn ctx d i)
  have st: "find_sink fn ctx d i =
    (if i < sink_count d then
       if Some (s_fn (sinks d ! i)) = fn \<and> s_ctx (sinks d ! i) = ctx then Some i
       else find_sink fn ctx d (i + 1)
     else None)" by (rule find_sink.simps)
  show ?case
  proof (cases "k = i")
    case True
    then show ?thesis using 1 st by (auto split: if_splits)
  next
    case False
    then have "i < sink_count d" "i + 1 \<le> k" using 1 by auto
    then show ?thesis using 1 st by (metis option.distinct(1))
  qed
qed


lemma swap_last_mset:
  assumes "i < n" "n \<le> length xs"
  shows "mset (take (n - 1) (xs[i := xs ! (n - 1)])) = mset (take n xs) - {#xs ! i#}"
proof -
  obtain m where n: "n = Suc m" using assms(1) by (cases n) auto
  have tk: "take n xs = take m xs @ [xs ! m]"
    using assms n by (simp add: take_Suc_conv_app_nth)
  show ?thesis
  proof (cases "i = m")
    case True
    then show ?thesis using tk n by simp
  next
    case False
    then have i: "i < m" "i < length (take m xs)" using assms n by auto
    then have "mset ((take m xs)[i := xs ! m]) = add_mset (xs ! m) (mset (take m xs) - {#take m xs ! i#})"
      by (intro mset_update) simp
    moreover have "xs ! i \<in># mset (take m xs)" using i nth_mem [OF i(2)] by simp
    ultimately show ?thesis using i tk n by (simp add: take_update_swap)
  qed
qed

text \<open>The sink table behaves as a multiset of sinks. Registering adds exactly the given
  sink, or answers with an error (no function, no lock, table full) and changes nothing;
  unregistering removes exactly one occurrence of the given sink if it is there and answers
  \<open>ESP_ERR_NOT_FOUND\<close> otherwise, moving the last slot into the freed one without losing or
  duplicating any other sink.\<close>

theorem diag_table_is_multiset:
  assumes "diag_ok d" "output_mutex d"
  shows "(let (r, d') = diag_sink_register (Some f) c d in
            diag_ok d' \<and> (if size (mset (live d)) = MAX_SINKS d then r = ESP_ERR_NO_MEM \<and> d' = d
              else r = ESP_OK \<and> mset (live d') = add_mset \<lparr>s_fn = f, s_ctx = c\<rparr> (mset (live d))))
       \<and> (let (r, d') = diag_sink_unregister (Some f) c d in
            diag_ok d' \<and> (if \<lparr>s_fn = f, s_ctx = c\<rparr> \<in># mset (live d)
              then r = ESP_OK \<and> mset (live d') = mset (live d) - {#\<lparr>s_fn = f, s_ctx = c\<rparr>#}
              else r = ESP_ERR_NOT_FOUND \<and> d' = d))"
proof -
  have len: "length (live d) = sink_count d" using assms(1) by (simp add: live_def diag_ok_def)
  have reg: "let (r, d') = diag_sink_register (Some f) c d in
      diag_ok d' \<and> (if size (mset (live d)) = MAX_SINKS d then r = ESP_ERR_NO_MEM \<and> d' = d
        else r = ESP_OK \<and> mset (live d') = add_mset \<lparr>s_fn = f, s_ctx = c\<rparr> (mset (live d)))"
  proof (cases "sink_count d = MAX_SINKS d")
    case True
    then show ?thesis using assms by (simp add: diag_sink_register_def len)
  next
    case False
    then have lt: "sink_count d < MAX_SINKS d" using assms(1) by (simp add: diag_ok_def)
    let ?x = "\<lparr>s_fn = f, s_ctx = c\<rparr>"
    let ?d = "d\<lparr>sinks := (sinks d)[sink_count d := ?x], sink_count := sink_count d + 1\<rparr>"
    have r: "diag_sink_register (Some f) c d = (ESP_OK, ?d)"
      using False assms(2) by (simp add: diag_sink_register_def)
    have "mset (live ?d) = add_mset ?x (mset (live d))"
      unfolding register_live [OF assms(1) lt] by simp
    moreover have "diag_ok ?d"
      using diag_register_inv [OF assms(1), of "Some f" c] by (simp only: r snd_conv)
    ultimately show ?thesis
      using False by (simp only: r Let_def prod.case size_mset len if_False simp_thms)
  qed
  have unreg: "let (r, d') = diag_sink_unregister (Some f) c d in
      diag_ok d' \<and> (if \<lparr>s_fn = f, s_ctx = c\<rparr> \<in># mset (live d)
        then r = ESP_OK \<and> mset (live d') = mset (live d) - {#\<lparr>s_fn = f, s_ctx = c\<rparr>#}
        else r = ESP_ERR_NOT_FOUND \<and> d' = d)"
  proof (cases "find_sink (Some f) c d 0")
    case None
    then have no: "sinks d ! k \<noteq> \<lparr>s_fn = f, s_ctx = c\<rparr>" if "k < sink_count d" for k
      using find_sink_None [OF None le0 that] by auto
    have "\<lparr>s_fn = f, s_ctx = c\<rparr> \<notin> set (live d)"
    proof
      assume "\<lparr>s_fn = f, s_ctx = c\<rparr> \<in> set (live d)"
      then obtain k where k: "k < length (live d)" "live d ! k = \<lparr>s_fn = f, s_ctx = c\<rparr>"
        by (blast dest: in_set_conv_nth [THEN iffD1])
      have "live d ! k = sinks d ! k" using k(1) len by (simp add: live_def)
      with no [of k] k len show False by simp
    qed
    then show ?thesis
      using None assms by (simp add: diag_sink_unregister_def)
  next
    case (Some k)
    from find_sink_Some [OF Some] have k: "k < sink_count d" "sinks d ! k = \<lparr>s_fn = f, s_ctx = c\<rparr>"
      by (auto intro: sink_t.equality)
    have "live d ! k = sinks d ! k" "k < length (live d)" using k(1) len by (simp_all add: live_def)
    then have "\<lparr>s_fn = f, s_ctx = c\<rparr> \<in> set (live d)" using k(2) by (metis nth_mem)
    moreover have "diag_ok (snd (diag_sink_unregister (Some f) c d))"
      using assms Some k by (auto simp: diag_sink_unregister_def diag_ok_def)
    ultimately show ?thesis
      using Some assms k swap_last_mset [of k "sink_count d" "sinks d"]
      by (simp add: diag_sink_unregister_def live_def diag_ok_def)
  qed
  from reg unreg show ?thesis by blast
qed

definition diag_two :: "diag_t" where
  "diag_two = \<lparr>MAX_SINKS = 2, FORMAT_BUF_SIZE = 8,
     sinks = [\<lparr>s_fn = 1, s_ctx = 0\<rparr>, \<lparr>s_fn = 2, s_ctx = 0\<rparr>], sink_count = 2,
     output_mutex = True, esp_log_captured = True\<rparr>"

theorem diag_table_is_multiset_witness:
  "diag_ok diag_two \<and> output_mutex diag_two
   \<and> mset (live (snd (diag_sink_unregister (Some 1) 0 diag_two))) = {#\<lparr>s_fn = 2, s_ctx = 0\<rparr>#}"
proof -
  have ok: "diag_ok diag_two" "output_mutex diag_two"
    and l: "live diag_two = [\<lparr>s_fn = 1, s_ctx = 0\<rparr>, \<lparr>s_fn = 2, s_ctx = 0\<rparr>]"
    by (simp_all add: diag_two_def diag_ok_def live_def)
  from diag_table_is_multiset [OF ok, of 1 0] ok show ?thesis
    by (simp add: l split_beta Let_def)
qed

section \<open>What a call writes\<close>

datatype action = Take | Give | Stdout string | Sink sink_t string

definition guarded :: "diag_t \<Rightarrow> action list \<Rightarrow> action list" where
  "guarded d body = (if output_mutex d then Take # body @ [Give] else body)"

definition diag_write :: "diag_t \<Rightarrow> string \<Rightarrow> action list" where
  "diag_write d text =
    (if length text = 0 then []
     else guarded d (Stdout text # map (\<lambda>k. Sink k text) (live d)))"

text \<open>\<open>formatted\<close>: the text the format and its arguments stand for, or None where
  \<open>vsnprintf\<close> reports an encoding error.\<close>

definition diag_vprintf :: "diag_t \<Rightarrow> string option \<Rightarrow> action list" where
  "diag_vprintf d formatted =
    guarded d
      (case formatted of None \<Rightarrow> []
       | Some txt \<Rightarrow>
           let (len, format_buf) = snprintf (FORMAT_BUF_SIZE d) txt in
           if len > 0
           then let written = (if len < FORMAT_BUF_SIZE d then len else FORMAT_BUF_SIZE d - 1)
                in diag_write d (take written format_buf)
           else [])"

definition diag_printf :: "diag_t \<Rightarrow> string option \<Rightarrow> action list" where
  "diag_printf d formatted = diag_vprintf d formatted"

definition diag_error :: "diag_t \<Rightarrow> string option \<Rightarrow> action list" where
  "diag_error d formatted =
    guarded d (diag_printf d (Some ''ERR: '') @ diag_vprintf d formatted @ diag_printf d (Some [CHR 0x0A]))"

definition log_vprintf :: "diag_t \<Rightarrow> string option \<Rightarrow> int \<times> action list" where
  "log_vprintf d formatted = (0, diag_vprintf d formatted)"

text \<open>The text that reached stdout, and the text a sink was handed.\<close>

fun stdout_text :: "action list \<Rightarrow> string" where
  "stdout_text [] = []"
| "stdout_text (Stdout t # as) = t @ stdout_text as"
| "stdout_text (_ # as) = stdout_text as"

fun sink_texts :: "sink_t \<Rightarrow> action list \<Rightarrow> string list" where
  "sink_texts k [] = []"
| "sink_texts k (Sink j t # as) = (if j = k then t # sink_texts k as else sink_texts k as)"
| "sink_texts k (_ # as) = sink_texts k as"


section \<open>Critical sections\<close>

text \<open>A program that only writes while it holds the lock and gives back what it takes.\<close>

fun balanced :: "nat \<Rightarrow> action list \<Rightarrow> bool" where
  "balanced n [] = (n = 0)"
| "balanced n (Take # as) = balanced (Suc n) as"
| "balanced n (Give # as) = (0 < n \<and> balanced (n - 1) as)"
| "balanced n (_ # as) = (0 < n \<and> balanced n as)"

text \<open>The output actions of its critical sections, from outermost take to outermost give.
  When the program already holds the lock (\<open>0 < n\<close>), the first list is the rest of the
  current section.\<close>

definition weld :: "action list \<Rightarrow> action list list \<Rightarrow> action list list" where
  "weld c ss = (case ss of [] \<Rightarrow> [] | b # bs \<Rightarrow> (c @ b) # bs)"

fun sections :: "nat \<Rightarrow> action list \<Rightarrow> action list list" where
  "sections n [] = []"
| "sections n (Take # as) = sections (Suc n) as"
| "sections n (Give # as) = (if n = 1 then [] # sections 0 as else sections (n - 1) as)"
| "sections n (a # as) = weld [a] (sections n as)"

definition payload :: "action list \<Rightarrow> action list" where
  "payload as = filter (\<lambda>a. a \<noteq> Take \<and> a \<noteq> Give) as"

lemma weld_simps [simp]: "weld [] ss = ss" "weld c (weld d ss) = weld (c @ d) ss" "weld c [] = []"
  "weld c (b # bs) = (c @ b) # bs"
  by (simp_all add: weld_def split: list.splits)

lemma weld_Nil [simp]: "weld c ss = [] \<longleftrightarrow> ss = []"
  by (simp add: weld_def split: list.splits)

lemma sections_open: "balanced n as \<Longrightarrow> 0 < n \<Longrightarrow> sections n as \<noteq> []"
  by (induction n as rule: sections.induct) (auto simp: Suc_lessI)

text \<open>Code that leaves the lock depth alone and writes only while holding it.\<close>

definition neutral :: "action list \<Rightarrow> bool" where
  "neutral as \<longleftrightarrow> (\<forall>n rest. 0 < n \<longrightarrow>
     balanced n (as @ rest) = balanced n rest \<and> sections n (as @ rest) = weld (payload as) (sections n rest))"

lemma neutralD:
  "neutral as \<Longrightarrow> 0 < n \<Longrightarrow> balanced n (as @ rest) = balanced n rest"
  "neutral as \<Longrightarrow> 0 < n \<Longrightarrow> sections n (as @ rest) = weld (payload as) (sections n rest)"
  by (simp_all add: neutral_def)

lemma neutral_Nil [intro, simp]: "neutral []"
  by (simp add: neutral_def payload_def)

lemma neutral_append [intro]: "neutral as \<Longrightarrow> neutral bs \<Longrightarrow> neutral (as @ bs)"
  by (simp add: neutral_def payload_def)

lemma neutral_writes: "\<forall>a \<in> set as. a \<noteq> Take \<and> a \<noteq> Give \<Longrightarrow> neutral as"
proof (induction as)
  case Nil
  then show ?case by simp
next
  case (Cons a as)
  then have "neutral as" by simp
  with Cons.prems show ?case by (cases a) (simp_all add: neutral_def payload_def)
qed

lemma neutral_guarded [intro]: "neutral as \<Longrightarrow> output_mutex d \<Longrightarrow> neutral (guarded d as)"
  by (simp add: neutral_def guarded_def payload_def)

lemma guarded_section:
  "neutral as \<Longrightarrow> output_mutex d \<Longrightarrow> sections 0 (guarded d as @ rest) = payload as # sections 0 rest"
  "neutral as \<Longrightarrow> output_mutex d \<Longrightarrow> balanced 0 (guarded d as @ rest) = balanced 0 rest"
  by (simp_all add: guarded_def neutralD)

lemma output_guarded [simp]: "payload (guarded d as) = payload as"
  by (simp add: payload_def guarded_def)

lemma output_append [simp]: "payload (as @ bs) = payload as @ payload bs"
  by (simp add: payload_def)

section \<open>Several tasks, one lock\<close>

text \<open>The recursive mutex of the platform: taking may block (None), and \<open>m_depth\<close> is how
  often a task holds it.\<close>

record 'k mutex =
  m_take :: "nat \<Rightarrow> 'k \<Rightarrow> 'k option"
  m_give :: "nat \<Rightarrow> 'k \<Rightarrow> 'k"
  m_depth :: "'k \<Rightarrow> nat \<Rightarrow> nat"

text \<open>Documented behaviour: only the holder can take it again, each take is undone by one
  give of the same task.\<close>

definition recursive_mutex :: "'k mutex \<Rightarrow> bool" where
  "recursive_mutex M \<longleftrightarrow>
    (\<forall>t k k'. m_take M t k = Some k' \<longrightarrow>
       (\<forall>u. u \<noteq> t \<longrightarrow> m_depth M k u = 0) \<and> m_depth M k' = (m_depth M k)(t := Suc (m_depth M k t)))
    \<and> (\<forall>t k. 0 < m_depth M k t \<longrightarrow>
       m_depth M (m_give M t k) = (m_depth M k)(t := m_depth M k t - 1))"

record 'k system =
  lock :: 'k
  progs :: "nat \<Rightarrow> action list"
  written :: "(nat \<times> action) list"

inductive task_step :: "'k mutex \<Rightarrow> 'k system \<Rightarrow> 'k system \<Rightarrow> bool" for M where
  take_lock: "progs s t = Take # as \<Longrightarrow> m_take M t (lock s) = Some k \<Longrightarrow>
     task_step M s (s\<lparr>lock := k, progs := (progs s)(t := as)\<rparr>)"
| give_lock: "progs s t = Give # as \<Longrightarrow>
     task_step M s (s\<lparr>lock := m_give M t (lock s), progs := (progs s)(t := as)\<rparr>)"
| emit: "progs s t = a # as \<Longrightarrow> a \<noteq> Take \<Longrightarrow> a \<noteq> Give \<Longrightarrow>
     task_step M s (s\<lparr>progs := (progs s)(t := as), written := written s @ [(t, a)]\<rparr>)"

definition tagged :: "nat \<times> action list \<Rightarrow> (nat \<times> action) list" where
  "tagged x = map (Pair (fst x)) (snd x)"

definition of_task :: "nat \<Rightarrow> (nat \<times> 'a) list \<Rightarrow> 'a list" where
  "of_task t xs = map snd (filter (\<lambda>x. fst x = t) xs)"

lemma of_task_simps [simp]: "of_task t [] = []"
  "of_task t (x # xs) = (if fst x = t then snd x # of_task t xs else of_task t xs)"
  "of_task t (xs @ ys) = of_task t xs @ of_task t ys"
  by (simp_all add: of_task_def)

text \<open>The invariant: at most one holder; what was written so far is a sequence of whole
  sections, followed by the part \<open>c\<close> of the holder's current section.\<close>

definition atomic_inv ::
  "'k mutex \<Rightarrow> (nat \<Rightarrow> action list) \<Rightarrow> (nat \<times> action list) list \<Rightarrow> nat \<Rightarrow> action list \<Rightarrow> 'k system \<Rightarrow> bool"
  where
  "atomic_inv M p0 order h c s \<longleftrightarrow>
     (\<forall>t. balanced (m_depth M (lock s) t) (progs s t))
     \<and> (\<forall>t. t \<noteq> h \<longrightarrow> m_depth M (lock s) t = 0)
     \<and> (m_depth M (lock s) h = 0 \<longrightarrow> c = [])
     \<and> written s = concat (map tagged order) @ map (Pair h) c
     \<and> (\<forall>t. sections 0 (p0 t) = of_task t order
          @ weld (if t = h then c else []) (sections (m_depth M (lock s) t) (progs s t)))"

lemma atomic_invD:
  assumes "atomic_inv M p0 order h c s"
  shows "balanced (m_depth M (lock s) t) (progs s t)"
    and "t \<noteq> h \<Longrightarrow> m_depth M (lock s) t = 0"
    and "m_depth M (lock s) h = 0 \<Longrightarrow> c = []"
    and "written s = concat (map tagged order) @ map (Pair h) c"
    and "sections 0 (p0 t) = of_task t order
          @ weld (if t = h then c else []) (sections (m_depth M (lock s) t) (progs s t))"
  using assms by (auto simp: atomic_inv_def)

lemma atomic_inv_update:
  assumes inv: "atomic_inv M p0 order h c s" and hc: "h = t \<or> c = []"
    and others: "\<And>u. u \<noteq> t \<Longrightarrow> m_depth M (lock s) u = 0"
    and d': "m_depth M (lock s') = (m_depth M (lock s))(t := n)"
    and pr: "progs s' = (progs s)(t := as)"
    and bal: "balanced n as" and c': "n = 0 \<Longrightarrow> c' = []"
    and w: "written s' = concat (map tagged order') @ map (Pair t) c'"
    and sec: "sections 0 (p0 t) = of_task t order' @ weld c' (sections n as)"
    and oth: "\<And>u. u \<noteq> t \<Longrightarrow> of_task u order' = of_task u order"
  shows "atomic_inv M p0 order' t c' s'"
  unfolding atomic_inv_def
proof (intro conjI allI impI)
  show "balanced (m_depth M (lock s') u) (progs s' u)" for u
    using atomic_invD(1) [OF inv, of u] bal by (simp add: d' pr)
  show "m_depth M (lock s') u = 0" if "u \<noteq> t" for u using that others by (simp add: d')
  show "c' = []" if "m_depth M (lock s') t = 0" using that c' by (simp add: d')
  show "written s' = concat (map tagged order') @ map (Pair t) c'" by (rule w)
  show "sections 0 (p0 u) = of_task u order'
      @ weld (if u = t then c' else []) (sections (m_depth M (lock s') u) (progs s' u))" for u
  proof (cases "u = t")
    case True
    then show ?thesis using sec by (simp add: d' pr)
  next
    case False
    then have "(if u = h then c else []) = []" using hc by auto
    with False atomic_invD(5) [OF inv, of u] oth show ?thesis by (simp add: d' pr)
  qed
qed

lemma atomic_inv_take:
  assumes M: "recursive_mutex M" and inv: "atomic_inv M p0 order h c s"
    and pr: "progs s t = Take # as" and tk: "m_take M t (lock s) = Some k"
  shows "atomic_inv M p0 order t c (s\<lparr>lock := k, progs := (progs s)(t := as)\<rparr>)"
proof -
  let ?d = "m_depth M (lock s)"
  from M tk have others: "u \<noteq> t \<Longrightarrow> ?d u = 0" and d': "m_depth M k = ?d(t := Suc (?d t))" for u
    by (auto simp: recursive_mutex_def)
  have hc: "h = t \<or> c = []" using others [of h] atomic_invD(3) [OF inv] by auto
  have bal: "balanced (Suc (?d t)) as" using atomic_invD(1) [OF inv, of t] pr by simp
  have "sections 0 (p0 t) = of_task t order @ weld (if t = h then c else []) (sections (?d t) (Take # as))"
    using atomic_invD(5) [OF inv, of t] unfolding pr .
  then have sec: "sections 0 (p0 t) = of_task t order @ weld c (sections (?d t) (Take # as))"
    using hc by auto
  have w: "written s = concat (map tagged order) @ map (Pair t) c"
    using atomic_invD(4) [OF inv] hc by auto
  show ?thesis
    by (rule atomic_inv_update [OF inv hc others, where n = "Suc (?d t)" and as = as])
      (use bal w sec in \<open>simp_all add: d'\<close>)
qed

lemma atomic_inv_give:
  assumes M: "recursive_mutex M" and inv: "atomic_inv M p0 order h c s" and pr: "progs s t = Give # as"
  shows "\<exists>order' c'. atomic_inv M p0 order' t c'
           (s\<lparr>lock := m_give M t (lock s), progs := (progs s)(t := as)\<rparr>)"
proof -
  let ?d = "m_depth M (lock s)"
  let ?s = "s\<lparr>lock := m_give M t (lock s), progs := (progs s)(t := as)\<rparr>"
  have pos: "0 < ?d t" and bal: "balanced (?d t - 1) as"
    using atomic_invD(1) [OF inv, of t] pr by auto
  then have h: "h = t" using atomic_invD(2) [OF inv, of t] by auto
  from M pos have d': "m_depth M (m_give M t (lock s)) = ?d(t := ?d t - 1)"
    by (simp add: recursive_mutex_def)
  have hc: "h = t \<or> c = []" and others: "?d u = 0" if "u \<noteq> t" for u
    using h that atomic_invD(2) [OF inv, of u] by auto
  have sec: "sections 0 (p0 t) = of_task t order @ weld c (sections (?d t) (Give # as))"
    using atomic_invD(5) [OF inv, of t] pr h by simp
  have w: "written s = concat (map tagged order) @ map (Pair t) c"
    using atomic_invD(4) [OF inv] h by simp
  show ?thesis
  proof (cases "?d t = 1")
    case True
    have "atomic_inv M p0 (order @ [(t, c)]) t [] ?s"
      by (rule atomic_inv_update [OF inv _ others, where n = "?d t - 1" and as = as])
        (use h bal w sec True in \<open>simp_all add: d' tagged_def\<close>)
    then show ?thesis by blast
  next
    case False
    have "atomic_inv M p0 order t c ?s"
      by (rule atomic_inv_update [OF inv _ others, where n = "?d t - 1" and as = as])
        (use h bal w sec False pos in \<open>simp_all add: d'\<close>)
    then show ?thesis by blast
  qed
qed

lemma atomic_inv_emit:
  assumes inv: "atomic_inv M p0 order h c s" and pr: "progs s t = a # as" "a \<noteq> Take" "a \<noteq> Give"
  shows "atomic_inv M p0 order t (c @ [a])
           (s\<lparr>progs := (progs s)(t := as), written := written s @ [(t, a)]\<rparr>)"
proof -
  let ?d = "m_depth M (lock s)"
  have bal: "0 < ?d t" "balanced (?d t) as"
    using atomic_invD(1) [OF inv, of t] pr by (cases a; simp)+
  then have h: "h = t" using atomic_invD(2) [OF inv, of t] by auto
  have others: "?d u = 0" if "u \<noteq> t" for u
    using h that atomic_invD(2) [OF inv, of u] by simp
  have "sections (?d t) (a # as) = weld [a] (sections (?d t) as)"
    using pr by (cases a) simp_all
  then have sec: "sections 0 (p0 t) = of_task t order @ weld (c @ [a]) (sections (?d t) as)"
    using atomic_invD(5) [OF inv, of t] pr h by simp
  show ?thesis
    by (rule atomic_inv_update [OF inv _ others, where n = "?d t" and as = as])
      (use h bal sec atomic_invD(4) [OF inv] in simp_all)
qed

lemma atomic_inv_step:
  assumes "recursive_mutex M" "atomic_inv M p0 order h c s" "task_step M s s'"
  shows "\<exists>order' h' c'. atomic_inv M p0 order' h' c' s'"
  using assms(3)
proof cases
  case (take_lock t as k)
  then show ?thesis using atomic_inv_take [OF assms(1,2)] by blast
next
  case (give_lock t as)
  then show ?thesis using atomic_inv_give [OF assms(1,2)] by blast
next
  case (emit t a as)
  then show ?thesis using atomic_inv_emit [OF assms(2)] by blast
qed

lemma atomic_inv_steps:
  assumes "recursive_mutex M" "(task_step M)\<^sup>*\<^sup>* s s'" "atomic_inv M p0 order h c s"
  shows "\<exists>order' h' c'. atomic_inv M p0 order' h' c' s'"
  using assms(2,3)
proof (induction arbitrary: order h c rule: converse_rtranclp_induct)
  case base
  then show ?case by blast
next
  case (step y z)
  from atomic_inv_step [OF assms(1) step.prems step.hyps(1)] step.IH show ?case by blast
qed

section \<open>Output is written call by call\<close>

datatype call = Write string | Printf "string option" | Error "string option"

fun call_actions :: "diag_t \<Rightarrow> call \<Rightarrow> action list" where
  "call_actions d (Write t) = diag_write d t"
| "call_actions d (Printf f) = diag_printf d f"
| "call_actions d (Error f) = diag_error d f"

lemma neutral_write: "output_mutex d \<Longrightarrow> neutral (diag_write d text)"
  unfolding diag_write_def
  by (simp split: if_split) (intro impI neutral_guarded neutral_writes, auto)

lemma neutral_vprintf: "output_mutex d \<Longrightarrow> neutral (diag_vprintf d f)"
  by (auto simp: diag_vprintf_def Let_def neutral_write split: option.splits prod.splits
      intro!: neutral_guarded)

lemma call_section:
  assumes "output_mutex d"
  shows "sections 0 (call_actions d c @ rest)
       = (if c = Write [] then [] else [payload (call_actions d c)]) @ sections 0 rest"
    and "balanced 0 (call_actions d c @ rest) = balanced 0 rest"
proof -
  have "neutral (Stdout t # map (\<lambda>k. Sink k t) (live d))" for t by (auto intro: neutral_writes)
  note * = guarded_section [OF this assms]
  show "sections 0 (call_actions d c @ rest)
       = (if c = Write [] then [] else [payload (call_actions d c)]) @ sections 0 rest"
  proof (cases c)
    case (Write t)
    then show ?thesis by (auto simp: diag_write_def *)
  next
    case (Printf f)
    have "neutral (case f of None \<Rightarrow> [] | Some txt \<Rightarrow>
       let (len, format_buf) = snprintf (FORMAT_BUF_SIZE d) txt in
           if len > 0 then let written = (if len < FORMAT_BUF_SIZE d then len else FORMAT_BUF_SIZE d - 1)
                in diag_write d (take written format_buf) else [])"
      using assms by (auto simp: Let_def neutral_write split: option.splits prod.splits)
    from guarded_section(1) [OF this assms] Printf show ?thesis
      by (simp add: diag_printf_def diag_vprintf_def)
  next
    case (Error f)
    have "neutral (diag_printf d (Some ''ERR: '') @ diag_vprintf d f @ diag_printf d (Some [CHR 0x0A]))"
      using assms unfolding diag_printf_def by (intro neutral_append neutral_vprintf)
    from guarded_section(1) [OF this assms] Error show ?thesis
      by (simp add: diag_error_def)
  qed
  show "balanced 0 (call_actions d c @ rest) = balanced 0 rest"
  proof (cases c)
    case (Write t)
    then show ?thesis by (auto simp: diag_write_def *)
  next
    case (Printf f)
    then show ?thesis
      using assms neutral_write
      by (simp add: diag_printf_def diag_vprintf_def split_beta Let_def guarded_section(2)
          split: option.split)
  next
    case (Error f)
    show ?thesis
      using assms unfolding Error call_actions.simps diag_error_def
      by (intro guarded_section(2) neutral_append) (simp_all add: diag_printf_def neutral_vprintf)
  qed
qed

lemma calls_sections:
  assumes "output_mutex d"
  shows "sections 0 (concat (map (call_actions d) cs))
       = map (payload \<circ> call_actions d) (filter (\<lambda>c. c \<noteq> Write []) cs)"
    and "balanced 0 (concat (map (call_actions d) cs))"
  by (induction cs) (simp_all add: call_section [OF assms])

text \<open>C7. What one call writes is never split by another task. Let any number of tasks each
  make a sequence of \<open>diag_write\<close>, \<open>diag_printf\<close> and \<open>diag_error\<close> calls, in any
  interleaving the recursive mutex allows. Whenever no task holds the lock, everything written so
  far, to stdout and to every sink, is a sequence of whole calls, each with all its output
  together (for \<open>diag_error\<close>: prefix, message and newline), each task's calls in the order
  it made them, none lost or repeated.\<close>

theorem diag_calls_are_atomic:
  assumes "recursive_mutex M" "output_mutex d"
    and "\<forall>t. m_depth M (lock s0) t = 0" "written s0 = []"
    and "\<forall>t. progs s0 t = concat (map (call_actions d) (calls t))"
    and "(task_step M)\<^sup>*\<^sup>* s0 s" "\<forall>t. m_depth M (lock s) t = 0"
  shows "\<exists>order. written s = concat (map tagged order)
    \<and> (\<forall>t. map (payload \<circ> call_actions d) (filter (\<lambda>c. c \<noteq> Write []) (calls t))
           = of_task t order @ sections 0 (progs s t))"
proof -
  have "atomic_inv M (progs s0) [] 0 [] s0"
    using assms(3,4,5) calls_sections(2) [OF assms(2)] by (simp add: atomic_inv_def)
  from atomic_inv_steps [OF assms(1,6) this] obtain order h c
    where inv: "atomic_inv M (progs s0) order h c s" by blast
  then have "c = []" using assms(7) by (simp add: atomic_inv_def)
  with inv assms(5,7) calls_sections(1) [OF assms(2)] show ?thesis
    by (intro exI [of _ order]) (simp add: atomic_inv_def)
qed


text \<open>A schedule names the task that moves next.\<close>

definition move :: "'k mutex \<Rightarrow> nat \<Rightarrow> 'k system \<Rightarrow> 'k system option" where
  "move M t s = (case progs s t of
      [] \<Rightarrow> None
    | a # as \<Rightarrow>
        let ps = (progs s)(t := as) in
        case a of
          Take \<Rightarrow> (case m_take M t (lock s) of
              None \<Rightarrow> None | Some k \<Rightarrow> Some (s\<lparr>lock := k, progs := ps\<rparr>))
        | Give \<Rightarrow> Some (s\<lparr>lock := m_give M t (lock s), progs := ps\<rparr>)
        | _ \<Rightarrow> Some (s\<lparr>progs := ps, written := written s @ [(t, a)]\<rparr>))"

fun run_schedule :: "'k mutex \<Rightarrow> nat list \<Rightarrow> 'k system \<Rightarrow> 'k system option" where
  "run_schedule M [] s = Some s"
| "run_schedule M (t # ts) s = (case move M t s of None \<Rightarrow> None | Some s' \<Rightarrow> run_schedule M ts s')"

lemma move_step: "move M t s = Some s' \<Longrightarrow> task_step M s s'"
  by (auto simp: move_def Let_def intro: task_step.intros split: list.splits action.splits option.splits)

lemma run_schedule_steps: "run_schedule M ts s = Some s' \<Longrightarrow> (task_step M)\<^sup>*\<^sup>* s s'"
  by (induction ts arbitrary: s)
    (auto split: option.splits intro: converse_rtranclp_into_rtranclp move_step)

definition owner_mutex :: "(nat \<times> nat) mutex" where
  "owner_mutex = \<lparr>
     m_take = \<lambda>t (w, n). if n = 0 then Some (t, 1) else if w = t then Some (t, n + 1) else None,
     m_give = \<lambda>t (w, n). (w, n - 1),
     m_depth = \<lambda>(w, n) u. if u = w then n else 0\<rparr>"

lemma owner_mutex_ok: "recursive_mutex owner_mutex"
  by (auto simp: recursive_mutex_def owner_mutex_def fun_eq_iff split: if_splits)

definition two_writers :: "nat \<Rightarrow> call list" where
  "two_writers t = (if t = 0 then [Write ''a''] else if t = 1 then [Write ''b''] else [])"

definition two_start :: "(nat \<times> nat) system" where
  "two_start = \<lparr>lock = (0, 0),
     progs = (\<lambda>t. concat (map (call_actions diag_two) (two_writers t))), written = []\<rparr>"

theorem diag_calls_are_atomic_witness:
  "\<exists>s order. run_schedule owner_mutex [1, 1, 1, 1, 1, 0, 0, 0, 0, 0] two_start = Some s
     \<and> written s = concat (map tagged order)
     \<and> (\<forall>t. of_task t order = map (payload \<circ> call_actions diag_two) (two_writers t))"
proof -
  have d: "output_mutex diag_two" "live diag_two = [\<lparr>s_fn = 1, s_ctx = 0\<rparr>, \<lparr>s_fn = 2, s_ctx = 0\<rparr>]"
    by (simp_all add: diag_two_def live_def)
  obtain s where run: "run_schedule owner_mutex [1, 1, 1, 1, 1, 0, 0, 0, 0, 0] two_start = Some s"
    and s: "lock s = (0, 0)" "progs s = (\<lambda>t. [])"
    by (simp add: two_start_def two_writers_def owner_mutex_def move_def Let_def diag_write_def
        guarded_def d fun_eq_iff)
  have "\<exists>order. written s = concat (map tagged order)
    \<and> (\<forall>t. map (payload \<circ> call_actions diag_two) (filter (\<lambda>c. c \<noteq> Write []) (two_writers t))
           = of_task t order @ sections 0 (progs s t))"
    by (rule diag_calls_are_atomic [OF owner_mutex_ok d(1), of two_start])
      (use run_schedule_steps [OF run] s in \<open>simp_all add: two_start_def owner_mutex_def\<close>)
  moreover have "filter (\<lambda>c. c \<noteq> Write []) (two_writers t) = two_writers t" for t
    by (simp add: two_writers_def)
  ultimately show ?thesis using run s by auto
qed

section \<open>Everyone sees the same bytes\<close>

lemma stdout_text_append [simp]: "stdout_text (as @ bs) = stdout_text as @ stdout_text bs"
  by (induction as rule: stdout_text.induct) auto

lemma sink_texts_append [simp]: "sink_texts k (as @ bs) = sink_texts k as @ sink_texts k bs"
  by (induction k as rule: sink_texts.induct) auto

lemma sink_texts_fanout:
  "sink_texts k (map (\<lambda>j. Sink j t) ks) = replicate (count (mset ks) k) t"
  by (induction ks) auto

lemma stdout_fanout [simp]: "stdout_text (map (\<lambda>j. Sink j t) ks) = []"
  by (induction ks) auto

lemma guarded_texts [simp]: "stdout_text (guarded d as) = stdout_text as"
  "sink_texts k (guarded d as) = sink_texts k as"
  by (simp_all add: guarded_def)

lemma write_texts:
  "stdout_text (diag_write d t) = t"
  "count (mset (live d)) k = 1 \<Longrightarrow> concat (sink_texts k (diag_write d t)) = t"
  by (auto simp: diag_write_def sink_texts_fanout)

definition cut_line :: "diag_t \<Rightarrow> string option \<Rightarrow> string" where
  "cut_line d f = (case f of None \<Rightarrow> [] | Some txt \<Rightarrow> take (FORMAT_BUF_SIZE d - 1) txt)"

lemma vprintf_writes:
  "stdout_text (diag_vprintf d f) = cut_line d f"
  "count (mset (live d)) k = 1 \<Longrightarrow> concat (sink_texts k (diag_vprintf d f)) = cut_line d f"
  by (auto simp: diag_vprintf_def snprintf_def write_texts cut_line_def split: option.splits)

text \<open>All interfaces see byte-identical text. Whatever is written, by any of the three calls
  and with or without the lock, the bytes a once-registered sink is handed are the bytes stdout
  got; a formatted line is its text cut (never split) at one less than the buffer size, and an
  error line is that text between the prefix and a newline.\<close>

theorem diag_everyone_sees_the_same:
  assumes "count (mset (live d)) k = 1"
  shows "concat (sink_texts k (call_actions d c)) = stdout_text (call_actions d c)
    \<and> stdout_text (call_actions d c) = (case c of
         Write t \<Rightarrow> t
       | Printf f \<Rightarrow> cut_line d f
       | Error f \<Rightarrow> cut_line d (Some ''ERR: '') @ cut_line d f @ cut_line d (Some [CHR 0x0A]))"
  using assms
  by (cases c) (simp_all add: diag_printf_def diag_error_def write_texts vprintf_writes)

theorem diag_everyone_sees_the_same_witness:
  "stdout_text (call_actions diag_two (Printf (Some ''hello, world''))) = ''hello, ''"
  using diag_everyone_sees_the_same [of diag_two "\<lparr>s_fn = 1, s_ctx = 0\<rparr>" "Printf (Some ''hello, world'')"]
  by (simp add: diag_two_def live_def cut_line_def)

end
