(* ===== verification/Int_Dispatch.thy ===== *)
theory Int_Dispatch
  imports Prelude
begin

text \<open>
  The shared interrupt line of \<open>int_dispatch/src/int_dispatch.c\<close>: the handler table,
  starting and stopping, the interrupt routine, and the dispatcher task as a step relation in
  which the line may change between any two of its steps.

  The task notification of the platform, the GPIO driver and the handlers are parameters.
\<close>

section \<open>State and platform\<close>

record handler_t =
  cb :: nat
  ctx :: nat

text \<open>\<open>s_task\<close> is whether the task handle is set, \<open>isr_added\<close> whether the pin's
  interrupt routine is installed, \<open>notification\<close> the task's notification.\<close>

record 'n int_state =
  MAX_HANDLERS :: nat
  s_handlers :: "handler_t list"
  s_handler_count :: nat
  s_task :: bool
  task_stack_prio :: "nat \<times> nat"
  s_pin :: int
  pin_pull_up :: bool
  isr_added :: bool
  s_unserviced :: "32 word"
  notification :: 'n

text \<open>\<open>n_take\<close> is \<open>ulTaskNotifyTake(pdTRUE, portMAX_DELAY)\<close>: None while it blocks.\<close>

record ('n, 'e) platform =
  n_init :: 'n
  n_give :: "'n \<Rightarrow> 'n"
  n_take :: "'n \<Rightarrow> 'n option"
  level_low :: "int \<Rightarrow> 'e \<Rightarrow> bool"
  call_cb :: "handler_t \<Rightarrow> 'e \<Rightarrow> 'e"

text \<open>Documented behaviour of a notification: once given, the task does not block on it.\<close>

definition notify_wakes :: "('n, 'e) platform \<Rightarrow> bool" where
  "notify_wakes P \<longleftrightarrow> (\<forall>n. n_take P (n_give P n) \<noteq> None)"

section \<open>Registration\<close>

definition int_dispatch_register :: "nat option \<Rightarrow> nat \<Rightarrow> 'n int_state \<Rightarrow> esp_err_t \<times> 'n int_state" where
  "int_dispatch_register f c s =
    (case f of None \<Rightarrow> (ESP_ERR_INVALID_ARG, s)
     | Some f \<Rightarrow>
       if s_handler_count s = MAX_HANDLERS s then (ESP_ERR_NO_MEM, s)
       else (ESP_OK, s\<lparr>s_handlers := (s_handlers s)[s_handler_count s := \<lparr>cb = f, ctx = c\<rparr>],
                       s_handler_count := s_handler_count s + 1\<rparr>))"

definition handlers :: "'n int_state \<Rightarrow> handler_t list" where
  "handlers s = take (s_handler_count s) (s_handlers s)"

definition table_ok :: "'n int_state \<Rightarrow> bool" where
  "table_ok s \<longleftrightarrow> length (s_handlers s) = MAX_HANDLERS s \<and> s_handler_count s \<le> MAX_HANDLERS s"

lemma register_handlers:
  "table_ok s \<Longrightarrow> handlers (snd (int_dispatch_register f c s)) =
     (if fst (int_dispatch_register f c s) = ESP_OK then handlers s @ [\<lparr>cb = the f, ctx = c\<rparr>]
      else handlers s)"
  by (auto simp: int_dispatch_register_def handlers_def table_ok_def take_Suc_conv_app_nth
      split: option.splits)

lemma register_table_ok: "table_ok s \<Longrightarrow> table_ok (snd (int_dispatch_register f c s))"
  by (auto simp: int_dispatch_register_def table_ok_def split: option.splits)

lemma register_frame:
  "MAX_HANDLERS (snd (int_dispatch_register f c s)) = MAX_HANDLERS s"
  "s_task (snd (int_dispatch_register f c s)) = s_task s"
  "s_pin (snd (int_dispatch_register f c s)) = s_pin s"
  "isr_added (snd (int_dispatch_register f c s)) = isr_added s"
  "notification (snd (int_dispatch_register f c s)) = notification s"
  by (auto simp: int_dispatch_register_def split: option.splits)

interpretation handler_table: bounded_table
  "\<lambda>s (f, c). int_dispatch_register f c s" handlers n "\<lambda>s. table_ok s \<and> MAX_HANDLERS s = n"
  by unfold_locales
    (auto simp: register_table_ok register_frame register_handlers,
     auto simp: handlers_def table_ok_def)

text \<open>Handlers run in registration order and none is dropped silently. Registering a list of
  callbacks one after the other on a table with room for \<open>n\<close> more accepts exactly the first
  \<open>n\<close> that are not NULL; a later one is answered \<open>ESP_ERR_NO_MEM\<close>, a NULL one
  \<open>ESP_ERR_INVALID_ARG\<close>, and the table is the old one followed by the accepted callbacks in
  the order they came.\<close>

theorem int_register_in_order:
  assumes "table_ok s"
  shows "(let n = MAX_HANDLERS s - length (handlers s);
              good = map (\<lambda>(f, c). \<lparr>cb = the f, ctx = c\<rparr>) (filter (\<lambda>(f, c). f \<noteq> None) es);
              (rs, s') = run_all (\<lambda>s (f, c). int_dispatch_register f c s) s es
          in handlers s' = handlers s @ take n good
             \<and> length (filter (\<lambda>r. r = ESP_OK) rs) = length (take n good)
             \<and> set rs \<subseteq> {ESP_OK, ESP_ERR_NO_MEM, ESP_ERR_INVALID_ARG})"
proof -
  let ?reg = "\<lambda>s (f, c). int_dispatch_register f c s"
  let ?good = "\<lambda>es. map (\<lambda>(f, c). \<lparr>cb = the f, ctx = c\<rparr>) (filter (\<lambda>(f, c). f \<noteq> None) es)"
  have len: "length (handlers s) = s_handler_count s" if "table_ok s" for s :: "'a int_state"
    using that by (simp add: handlers_def table_ok_def)
  have hs: "handlers (snd (run_all ?reg s es)) = handlers s @ take (MAX_HANDLERS s - length (handlers s)) (?good es)
      \<and> set (fst (run_all ?reg s es)) \<subseteq> {ESP_OK, ESP_ERR_NO_MEM, ESP_ERR_INVALID_ARG}"
    using assms
  proof (induction es arbitrary: s)
    case Nil
    then show ?case by simp
  next
    case (Cons e es)
    obtain f c where e: "e = (f, c)" by (cases e)
    let ?s = "snd (int_dispatch_register f c s)"
    have IH: "handlers (snd (run_all ?reg ?s es)) = handlers ?s @ take (MAX_HANDLERS s - length (handlers ?s)) (?good es)
        \<and> set (fst (run_all ?reg ?s es)) \<subseteq> {ESP_OK, ESP_ERR_NO_MEM, ESP_ERR_INVALID_ARG}"
      using Cons.IH [of ?s] register_table_ok [OF Cons.prems] by (simp add: register_frame)
    have step: "fst (int_dispatch_register f c s) = (if f = None then ESP_ERR_INVALID_ARG
        else if length (handlers s) = MAX_HANDLERS s then ESP_ERR_NO_MEM else ESP_OK)"
      using len [OF Cons.prems] by (simp add: int_dispatch_register_def split: option.splits)
    have le: "length (handlers s) \<le> MAX_HANDLERS s"
      using Cons.prems by (simp add: handlers_def table_ok_def)
    have run: "fst (run_all ?reg s (e # es)) = fst (int_dispatch_register f c s) # fst (run_all ?reg ?s es)"
      "snd (run_all ?reg s (e # es)) = snd (run_all ?reg ?s es)"
      by (simp_all add: e split_beta Let_def)
    note reg = register_handlers [OF Cons.prems, of f c, unfolded step]
    show ?case
    proof (cases f)
      case None
      then have "handlers ?s = handlers s" "fst (int_dispatch_register f c s) = ESP_ERR_INVALID_ARG"
        using reg step by simp_all
      with IH show ?thesis unfolding run by (simp add: e None)
    next
      case (Some g)
      show ?thesis
      proof (cases "length (handlers s) = MAX_HANDLERS s")
        case True
        then have "handlers ?s = handlers s" "fst (int_dispatch_register f c s) = ESP_ERR_NO_MEM"
          using reg step Some by simp_all
        with IH True show ?thesis unfolding run by (simp add: e Some)
      next
        case False
        then obtain m where m: "MAX_HANDLERS s - length (handlers s) = Suc m"
          using le by (cases "MAX_HANDLERS s - length (handlers s)") auto
        have hs: "handlers ?s = handlers s @ [\<lparr>cb = g, ctx = c\<rparr>]"
          "fst (int_dispatch_register f c s) = ESP_OK"
          using reg step False Some by simp_all
        then have "MAX_HANDLERS s - length (handlers ?s) = m" using m by simp
        with IH False m hs show ?thesis unfolding run by (simp add: e Some)
      qed
    qed
  qed
  have "length (handlers (snd (run_all ?reg s es)))
      = length (handlers s) + length (filter (\<lambda>r. r = ESP_OK) (fst (run_all ?reg s es)))"
    using handler_table.run_all_count [of s "MAX_HANDLERS s" es] assms by simp
  with hs show ?thesis by (simp add: Let_def split_beta)
qed

section \<open>Starting and stopping\<close>

record int_config =
  c_pin :: int
  c_pull_up :: bool
  c_task_priority :: nat
  c_task_stack :: nat

text \<open>What the platform answers during a start.\<close>

record start_results =
  pin_valid :: bool
  r_gpio_config :: esp_err_t
  r_task_created :: bool
  r_isr_service :: esp_err_t
  r_handler_add :: esp_err_t

definition DEFAULT_STACK :: nat where "DEFAULT_STACK = 3072"
definition DEFAULT_PRIO :: nat where "DEFAULT_PRIO = 5"

definition int_dispatch_start ::
  "('n, 'e) platform \<Rightarrow> start_results \<Rightarrow> int_config option \<Rightarrow> 'e \<Rightarrow> 'n int_state
   \<Rightarrow> esp_err_t \<times> 'n int_state" where
  "int_dispatch_start P r cfg e s =
    (case cfg of None \<Rightarrow> (ESP_ERR_INVALID_ARG, s)
     | Some cfg \<Rightarrow>
       if \<not> pin_valid r then (ESP_ERR_INVALID_ARG, s)
       else if s_task s then (ESP_ERR_INVALID_STATE, s)
       else
         let s = s\<lparr>s_pin := c_pin cfg\<rparr> in
         if r_gpio_config r \<noteq> ESP_OK then (r_gpio_config r, s)
         else
           let s = s\<lparr>pin_pull_up := c_pull_up cfg\<rparr> in
           if \<not> r_task_created r then (ESP_ERR_NO_MEM, s)
           else
             let s = s\<lparr>s_task := True,
                       task_stack_prio :=
                         (if c_task_stack cfg \<noteq> 0 then c_task_stack cfg else DEFAULT_STACK,
                          if c_task_priority cfg \<noteq> 0 then c_task_priority cfg else DEFAULT_PRIO),
                       notification := n_init P\<rparr> in
             if r_isr_service r \<noteq> ESP_OK \<and> r_isr_service r \<noteq> ESP_ERR_INVALID_STATE
             then (r_isr_service r, s\<lparr>s_task := False\<rparr>)
             else if r_handler_add r \<noteq> ESP_OK then (r_handler_add r, s\<lparr>s_task := False\<rparr>)
             else
               let s = s\<lparr>isr_added := True\<rparr> in
               (ESP_OK, if level_low P (c_pin cfg) e
                        then s\<lparr>notification := n_give P (notification s)\<rparr> else s))"

definition int_dispatch_stop :: "'n int_state \<Rightarrow> esp_err_t \<times> 'n int_state" where
  "int_dispatch_stop s =
    (if \<not> s_task s then (ESP_ERR_INVALID_STATE, s)
     else (ESP_OK, s\<lparr>isr_added := False, s_task := False\<rparr>))"

definition int_dispatch_unserviced_count :: "'n int_state \<Rightarrow> 32 word" where
  "int_dispatch_unserviced_count s = s_unserviced s"

section \<open>The dispatcher\<close>

definition gpio_isr :: "('n, 'e) platform \<Rightarrow> 'n int_state \<Rightarrow> 'n int_state" where
  "gpio_isr P s = s\<lparr>notification := n_give P (notification s)\<rparr>"

text \<open>The pin is configured for falling edges.\<close>

definition line_change :: "('n, 'e) platform \<Rightarrow> 'e \<Rightarrow> 'e \<Rightarrow> 'n int_state \<Rightarrow> 'n int_state" where
  "line_change P e e' s =
    (if isr_added s \<and> \<not> level_low P (s_pin s) e \<and> level_low P (s_pin s) e' then gpio_isr P s else s)"

text \<open>The end of the loop body: the line is read again.\<close>

definition check_line :: "('n, 'e) platform \<Rightarrow> 'e \<Rightarrow> 'n int_state \<Rightarrow> 'n int_state" where
  "check_line P e s =
    (if level_low P (s_pin s) e
     then s\<lparr>s_unserviced := s_unserviced s + 1, notification := n_give P (notification s)\<rparr>
     else s)"

datatype loop_pos = Waiting | Running nat

text \<open>One move of the system: the task wakes, calls the next handler or reads the line; or the
  line changes by itself; or somebody registers a handler.\<close>

inductive int_step ::
  "('n, 'e) platform \<Rightarrow> 'n int_state \<times> 'e \<times> loop_pos \<Rightarrow> 'n int_state \<times> 'e \<times> loop_pos \<Rightarrow> bool"
  for P where
  wake: "s_task s \<Longrightarrow> n_take P (notification s) = Some n \<Longrightarrow>
     int_step P (s, e, Waiting) (s\<lparr>notification := n\<rparr>, e, Running 0)"
| handle: "i < s_handler_count s \<Longrightarrow> e' = call_cb P (s_handlers s ! i) e \<Longrightarrow>
     int_step P (s, e, Running i) (line_change P e e' s, e', Running (i + 1))"
| check: "\<not> i < s_handler_count s \<Longrightarrow>
     int_step P (s, e, Running i) (check_line P e s, e, Waiting)"
| line: "int_step P (s, e, pos) (line_change P e e' s, e', pos)"
| register: "int_dispatch_register f c s = (r, s') \<Longrightarrow> int_step P (s, e, pos) (s', e, pos)"

inductive_cases int_stepE: "int_step P (s, e, pos) (s', e', pos')"

definition not_lost :: "('n, 'e) platform \<Rightarrow> 'n int_state \<times> 'e \<times> loop_pos \<Rightarrow> bool" where
  "not_lost P x = (case x of (s, e, pos) \<Rightarrow>
     s_task s \<and> isr_added s
     \<and> (pos = Waiting \<longrightarrow> level_low P (s_pin s) e \<longrightarrow> n_take P (notification s) \<noteq> None))"

lemma line_change_frame [simp]:
  "s_task (line_change P e e' s) = s_task s" "isr_added (line_change P e e' s) = isr_added s"
  "s_pin (line_change P e e' s) = s_pin s"
  by (simp_all add: line_change_def gpio_isr_def)

lemma int_step_not_lost:
  assumes "notify_wakes P" "int_step P x y" "not_lost P x"
  shows "not_lost P y"
  using assms(2,3)
proof cases
  case (register f c s r s' e pos)
  have "not_lost P (snd (int_dispatch_register f c s), e, pos)"
    using assms(3) unfolding register(1) by (simp add: not_lost_def register_frame)
  then show ?thesis using register by simp
qed (use assms(1) in \<open>auto simp: not_lost_def notify_wakes_def line_change_def gpio_isr_def check_line_def\<close>)

lemma int_steps_not_lost:
  assumes "notify_wakes P" "(int_step P)\<^sup>*\<^sup>* x y" "not_lost P x"
  shows "not_lost P y"
  using assms(2)
proof (induction rule: rtranclp_induct)
  case base
  then show ?case by (rule assms(3))
next
  case (step y z)
  then show ?case using int_step_not_lost [OF assms(1) step.hyps(2)] by blast
qed

lemma start_not_lost:
  "notify_wakes P \<Longrightarrow> int_dispatch_start P r cfg e s = (ESP_OK, s') \<Longrightarrow> not_lost P (s', e, Waiting)"
  by (auto simp: int_dispatch_start_def not_lost_def notify_wakes_def Let_def
      split: option.splits if_splits)

text \<open>C8. No interrupt is lost. From a successful \<open>int_dispatch_start\<close> on, however the line
  changes between the steps of the task, between two handlers, or while a handler is being
  registered: whenever the line is low and the task is about to wait, its notification is
  pending, so the wait does not block. A part that asserts the line after its handler ran, or
  that nobody clears, therefore never leaves the dispatcher asleep.\<close>

theorem int_no_lost_interrupt:
  assumes "notify_wakes P"
    and "int_dispatch_start P r cfg e0 s00 = (ESP_OK, s0)"
    and "(int_step P)\<^sup>*\<^sup>* (s0, e0, Waiting) (s, e, Waiting)"
    and "level_low P (s_pin s) e"
  shows "\<exists>n. int_step P (s, e, Waiting) (s\<lparr>notification := n\<rparr>, e, Running 0)"
proof -
  from int_steps_not_lost [OF assms(1,3) start_not_lost [OF assms(1,2)]] assms(4)
  have "s_task s" "n_take P (notification s) \<noteq> None" by (auto simp: not_lost_def)
  then show ?thesis by (blast intro: int_step.wake)
qed


text \<open>A counting notification and two parts on the line; the handler at address \<open>h\<close> clears
  part \<open>h\<close>.\<close>

definition two_parts :: "(nat, nat set) platform" where
  "two_parts = \<lparr>n_init = 0, n_give = Suc, n_take = (\<lambda>n. if n = 0 then None else Some 0),
     level_low = (\<lambda>pin e. e \<noteq> {}), call_cb = (\<lambda>h e. e - {cb h})\<rparr>"

definition all_ok :: "start_results" where
  "all_ok = \<lparr>pin_valid = True, r_gpio_config = ESP_OK, r_task_created = True,
     r_isr_service = ESP_ERR_INVALID_STATE, r_handler_add = ESP_OK\<rparr>"

definition pin14 :: "int_config" where
  "pin14 = \<lparr>c_pin = 14, c_pull_up = True, c_task_priority = 0, c_task_stack = 0\<rparr>"

definition one_handler :: "nat int_state" where
  "one_handler = \<lparr>MAX_HANDLERS = 8, s_handlers = \<lparr>cb = 1, ctx = 0\<rparr> # replicate 7 \<lparr>cb = 0, ctx = 0\<rparr>,
     s_handler_count = 1, s_task = False, task_stack_prio = (0, 0), s_pin = -1, pin_pull_up = False,
     isr_added = False, s_unserviced = 0, notification = 0\<rparr>"

lemma two_parts_wakes: "notify_wakes two_parts"
  by (simp add: notify_wakes_def two_parts_def)

theorem int_no_lost_interrupt_witness:
  "\<exists>n. int_step two_parts (snd (int_dispatch_start two_parts all_ok (Some pin14) {} one_handler)
            \<lparr>notification := 1\<rparr>, {2}, Waiting)
       ((snd (int_dispatch_start two_parts all_ok (Some pin14) {} one_handler)
            \<lparr>notification := 1\<rparr>)\<lparr>notification := n\<rparr>, {2}, Running 0)"
proof -
  let ?s0 = "snd (int_dispatch_start two_parts all_ok (Some pin14) {} one_handler)"
  have st: "int_dispatch_start two_parts all_ok (Some pin14) {} one_handler = (ESP_OK, ?s0)"
    by (simp add: int_dispatch_start_def all_ok_def one_handler_def Let_def)
  have s0: "isr_added ?s0" "notification ?s0 = 0"
    by (simp_all add: int_dispatch_start_def all_ok_def one_handler_def two_parts_def Let_def)
  have "int_step two_parts (?s0, {}, Waiting) (line_change two_parts {} {2} ?s0, {2}, Waiting)"
    by (rule int_step.line)
  moreover have "line_change two_parts {} {2} ?s0 = ?s0\<lparr>notification := 1\<rparr>"
    using s0 by (simp add: line_change_def two_parts_def gpio_isr_def)
  ultimately have "(int_step two_parts)\<^sup>*\<^sup>* (?s0, {}, Waiting) (?s0\<lparr>notification := 1\<rparr>, {2}, Waiting)"
    by (metis r_into_rtranclp)
  from int_no_lost_interrupt [OF two_parts_wakes st this] show ?thesis
    by (simp add: two_parts_def)
qed

section \<open>One pass over the line\<close>

text \<open>The loop body after the wake-up, on a line that only the handlers change.\<close>

function call_handlers :: "('n, 'e) platform \<Rightarrow> 'n int_state \<Rightarrow> nat \<Rightarrow> 'e \<Rightarrow> 'e" where
  "call_handlers P s i e =
    (if i < s_handler_count s then call_handlers P s (i + 1) (call_cb P (s_handlers s ! i) e) else e)"
  by pat_completeness auto
termination by (relation "measure (\<lambda>(P, s, i, e). s_handler_count s - i)") auto

declare call_handlers.simps [simp del]

definition dispatch_pass :: "('n, 'e) platform \<Rightarrow> 'n int_state \<Rightarrow> 'e \<Rightarrow> 'n int_state \<times> 'e" where
  "dispatch_pass P s e = (let e' = call_handlers P s 0 e in (check_line P e' s, e'))"

lemma handlers_step:
  "table_ok s \<Longrightarrow> i < s_handler_count s \<Longrightarrow>
     drop i (handlers s) = s_handlers s ! i # drop (Suc i) (handlers s)"
  by (simp add: handlers_def table_ok_def drop_eq_Cons)

text \<open>Parts that only handlers release: the line is low while a part asserts it.\<close>

definition clearing :: "(handler_t \<Rightarrow> 'p set) \<Rightarrow> ('n, 'p set) platform \<Rightarrow> int \<Rightarrow> bool" where
  "clearing clears P pin \<longleftrightarrow>
     (\<forall>h e. call_cb P h e = e - clears h) \<and> (\<forall>e. level_low P pin e = (e \<noteq> {}))"

lemma call_handlers_clears:
  assumes "table_ok s" "clearing clears P pin"
  shows "call_handlers P s i e = e - (\<Union>h \<in> set (drop i (handlers s)). clears h)"
  using assms
proof (induction P s i e rule: call_handlers.induct)
  case (1 P s i e)
  show ?case
  proof (cases "i < s_handler_count s")
    case True
    with 1 handlers_step [OF 1(2) True] show ?thesis
      by (simp add: call_handlers.simps [of P s i e] clearing_def set_diff_eq)
  next
    case False
    then have "drop i (handlers s) = []" by (simp add: handlers_def)
    with False show ?thesis by (simp add: call_handlers.simps [of P s i e])
  qed
qed

lemma call_handlers_steps:
  assumes "clearing clears P (s_pin s)"
  shows "(int_step P)\<^sup>*\<^sup>* (s, e, Running i) (check_line P (call_handlers P s i e) s, call_handlers P s i e, Waiting)"
  using assms
proof (induction P s i e rule: call_handlers.induct)
  case (1 P s i e)
  let ?e = "call_cb P (s_handlers s ! i) e"
  show ?case
  proof (cases "i < s_handler_count s")
    case True
    have "line_change P e ?e s = s"
      using 1(2) by (auto simp: line_change_def clearing_def)
    with int_step.handle [OF True refl, of P e]
    have "int_step P (s, e, Running i) (s, ?e, Running (i + 1))" by simp
    with 1 True show ?thesis
      by (simp add: call_handlers.simps [of P s i e] converse_rtranclp_into_rtranclp)
  next
    case False
    with int_step.check [OF False, of P e] show ?thesis
      by (simp add: call_handlers.simps [of P s i e] r_into_rtranclp)
  qed
qed

text \<open>One pass services every registered part exactly as far as its handlers can. On a line
  held low by a set of parts of which each handler clears some, the pass (which is a run of the
  dispatcher task) releases precisely the parts some registered handler clears. If that is all of
  them the task goes back to waiting with nothing counted; otherwise the unserviced count goes up
  by one, modulo 2 to the 32nd, and the task is woken again at once.\<close>

theorem int_pass_services_all:
  assumes "table_ok s" "clearing clears P (s_pin s)"
  shows "(let (s', e') = dispatch_pass P s e; served = (\<Union>h \<in> set (handlers s). clears h) in
            (int_step P)\<^sup>*\<^sup>* (s, e, Running 0) (s', e', Waiting)
            \<and> e' = e - served
            \<and> s' = (if e \<subseteq> served then s
                    else s\<lparr>s_unserviced := s_unserviced s + 1,
                           notification := n_give P (notification s)\<rparr>))"
  using call_handlers_steps [OF assms(2), of e 0] call_handlers_clears [OF assms, of 0 e] assms(2)
  by (auto simp: dispatch_pass_def check_line_def clearing_def Let_def)

theorem int_pass_services_all_witness:
  "int_dispatch_unserviced_count (fst (dispatch_pass two_parts one_handler {1, 2})) = 1
   \<and> snd (dispatch_pass two_parts one_handler {1, 2}) = {2}"
proof -
  have h: "table_ok one_handler" "clearing (\<lambda>h. {cb h}) two_parts (s_pin one_handler)"
    "handlers one_handler = [\<lparr>cb = 1, ctx = 0\<rparr>]"
    by (simp_all add: table_ok_def clearing_def two_parts_def one_handler_def handlers_def)
  have "s_unserviced one_handler = 0" by (simp add: one_handler_def)
  with int_pass_services_all [OF h(1,2), of "{1, 2}"] show ?thesis
    by (auto simp: h(3) Let_def split_beta int_dispatch_unserviced_count_def)
qed

theorem int_register_in_order_witness:
  "handlers (snd (run_all (\<lambda>s (f, c). int_dispatch_register f c s) one_handler
      [(Some 5, 0), (None, 1), (Some 6, 2)]))
   = [\<lparr>cb = 1, ctx = 0\<rparr>, \<lparr>cb = 5, ctx = 0\<rparr>, \<lparr>cb = 6, ctx = 2\<rparr>]"
proof -
  have h: "table_ok one_handler" "handlers one_handler = [\<lparr>cb = 1, ctx = 0\<rparr>]" "MAX_HANDLERS one_handler = 8"
    by (simp_all add: table_ok_def one_handler_def handlers_def)
  from int_register_in_order [OF h(1), of "[(Some 5, 0), (None, 1), (Some 6, 2)]"] show ?thesis
    by (simp add: h Let_def split_beta)
qed

end
