(* ===== verification/Ci_Names.thy ===== *)
theory Ci_Names
  imports Prelude "HOL-Library.List_Lexorder" "HOL-Library.Char_ord"
begin

text \<open>
  The case-insensitive comparisons of the C library, used by the console's registry and by the
  drivers that accept names, and the order on names that \<open>strcasecmp\<close> decides.
\<close>

section \<open>Names without regard to case\<close>

definition tolower :: "char \<Rightarrow> nat" where
  "tolower c = (let n = of_char c in if 65 \<le> n \<and> n \<le> 90 then n + 32 else n)"

text \<open>The sign of \<open>strcasecmp\<close> is all the code looks at.\<close>

fun strcasecmp :: "string \<Rightarrow> string \<Rightarrow> int" where
  "strcasecmp [] [] = 0"
| "strcasecmp [] (b # bs) = -1"
| "strcasecmp (a # as) [] = 1"
| "strcasecmp (a # as) (b # bs) =
     (if tolower a = tolower b then strcasecmp as bs else int (tolower a) - int (tolower b))"

fun strncasecmp :: "string \<Rightarrow> string \<Rightarrow> nat \<Rightarrow> int" where
  "strncasecmp as bs 0 = 0"
| "strncasecmp [] [] n = 0"
| "strncasecmp [] (b # bs) n = -1"
| "strncasecmp (a # as) [] n = 1"
| "strncasecmp (a # as) (b # bs) (Suc n) =
     (if tolower a = tolower b then strncasecmp as bs n else int (tolower a) - int (tolower b))"

text \<open>The order behind the comparison: names by their lower-case letters.\<close>

datatype ci_name = Ci (ci_key: "nat list")

definition fold_case :: "string \<Rightarrow> ci_name" where
  "fold_case s = Ci (map tolower s)"

instantiation ci_name :: linorder
begin

definition less_eq_ci_name :: "ci_name \<Rightarrow> ci_name \<Rightarrow> bool" where
  "less_eq_ci_name a b \<longleftrightarrow> ci_key a \<le> ci_key b"

definition less_ci_name :: "ci_name \<Rightarrow> ci_name \<Rightarrow> bool" where
  "less_ci_name a b \<longleftrightarrow> ci_key a < ci_key b"

instance
  by standard (auto simp: less_eq_ci_name_def less_ci_name_def ci_name.expand)

end

lemma strcasecmp_eq: "strcasecmp a b = 0 \<longleftrightarrow> fold_case a = fold_case b"
  by (induction a b rule: strcasecmp.induct) (auto simp: fold_case_def)

lemma strcasecmp_gt: "strcasecmp a b > 0 \<longleftrightarrow> fold_case b < fold_case a"
  by (induction a b rule: strcasecmp.induct) (auto simp: fold_case_def less_ci_name_def)

lemma strncasecmp_prefix:
  "strncasecmp a b (length b) = 0 \<longleftrightarrow> map tolower (take (length b) a) = map tolower b"
  by (induction a b "length b" arbitrary: rule: strncasecmp.induct) auto

end
