(* ===== verification/Cli_Dispatch.thy ===== *)
theory Cli_Dispatch
  imports Diag Ci_Names
begin

text \<open>
  The command registry and dispatcher of \<open>cli/src/cli_dispatch.c\<close>: groups kept sorted by
  name without regard to case, lookup, help, execution of a tokenized line and completion.
  Commands are code of the application: a command is the address of its function, and what the
  function does is a parameter.
\<close>

section \<open>Groups and commands\<close>

record cli_command_t =
  c_name :: string
  c_usage :: cptr
  c_help :: cptr
  c_fn :: nat

record cli_group_t =
  g_name :: cptr
  g_help :: cptr
  g_commands :: "cli_command_t list option"
  g_command_count :: nat
  g_command_text :: "(nat \<times> nat) list option"
  g_help_id :: nat

text \<open>\<open>groups\<close> is the static array, \<open>group_count\<close> how many of its slots are used;
  \<open>text_resolver\<close> maps an id and a buffer size to a text.\<close>

record cli_t =
  MAX_GROUPS :: nat
  groups :: "cli_group_t list"
  group_count :: nat
  text_resolver :: "(nat \<Rightarrow> nat \<Rightarrow> cptr) option"

definition gname :: "cli_group_t \<Rightarrow> string" where
  "gname g = the (g_name g)"

definition commands :: "cli_group_t \<Rightarrow> cli_command_t list" where
  "commands g = take (g_command_count g) (case g_commands g of None \<Rightarrow> [] | Some cs \<Rightarrow> cs)"

definition registered :: "cli_t \<Rightarrow> cli_group_t list" where
  "registered s = take (group_count s) (groups s)"

definition cli_find_group :: "cli_t \<Rightarrow> string \<Rightarrow> cli_group_t option" where
  "cli_find_group s name = find (\<lambda>g. strcasecmp (gname g) name = 0) (registered s)"

definition find_command :: "cli_group_t \<Rightarrow> string \<Rightarrow> cli_command_t option" where
  "find_command g name = find (\<lambda>c. strcasecmp (c_name c) name = 0) (commands g)"

text \<open>The shifting loop of the insertion: \<open>i\<close> is the free slot.\<close>

fun shift_groups :: "cli_group_t list \<Rightarrow> string \<Rightarrow> nat \<Rightarrow> cli_group_t list \<times> nat" where
  "shift_groups gs name 0 = (gs, 0)"
| "shift_groups gs name (Suc i) =
     (if strcasecmp (gname (gs ! i)) name > 0
      then shift_groups (gs[Suc i := gs ! i]) name i
      else (gs, Suc i))"

definition cli_register_group :: "cli_group_t option \<Rightarrow> cli_t \<Rightarrow> esp_err_t \<times> cli_t" where
  "cli_register_group grp s =
    (case grp of None \<Rightarrow> (ESP_ERR_INVALID_ARG, s)
     | Some g \<Rightarrow>
       (case g_name g of None \<Rightarrow> (ESP_ERR_INVALID_ARG, s)
        | Some name \<Rightarrow>
          if g_command_count g \<noteq> 0 \<and> g_commands g = None then (ESP_ERR_INVALID_ARG, s)
          else if cli_find_group s name \<noteq> None then (ESP_ERR_INVALID_STATE, s)
          else if group_count s = MAX_GROUPS s then (ESP_ERR_NO_MEM, s)
          else
            let (gs, i) = shift_groups (groups s) name (group_count s) in
            (ESP_OK, s\<lparr>groups := gs[i := g], group_count := group_count s + 1\<rparr>)))"

definition cli_set_text_resolver :: "(nat \<Rightarrow> nat \<Rightarrow> cptr) option \<Rightarrow> cli_t \<Rightarrow> cli_t" where
  "cli_set_text_resolver fn s = s\<lparr>text_resolver := fn\<rparr>"

section \<open>Help\<close>

definition HELP_SYNTAX_WIDTH :: nat where "HELP_SYNTAX_WIDTH = 34"

definition text_of :: "cli_t \<Rightarrow> cptr \<Rightarrow> nat \<Rightarrow> nat \<Rightarrow> string" where
  "text_of s literal tid buflen =
    (case literal of Some t \<Rightarrow> t
     | None \<Rightarrow>
       (case text_resolver s of
          Some resolve \<Rightarrow>
            if tid \<noteq> 0 then (case resolve tid buflen of Some t \<Rightarrow> t | None \<Rightarrow> []) else []
        | None \<Rightarrow> []))"

text \<open>\<open>%-*s\<close>\<close>

definition pad_right :: "nat \<Rightarrow> string \<Rightarrow> string" where
  "pad_right w s = s @ replicate (w - length s) CHR '' ''"

definition NL :: string where "NL = [CHR 0x0A]"

abbreviation printf :: "string \<Rightarrow> call" where
  "printf t \<equiv> Printf (Some t)"

definition help_line :: "string \<Rightarrow> string \<Rightarrow> call" where
  "help_line syntax help = printf (''  '' @ pad_right HELP_SYNTAX_WIDTH syntax @ '' '' @ help @ NL)"

definition command_line :: "cli_t \<Rightarrow> cli_group_t \<Rightarrow> nat \<Rightarrow> call" where
  "command_line s g i =
    (let cmd = commands g ! i;
         ids = (case g_command_text g of None \<Rightarrow> None | Some t \<Rightarrow> Some (t ! i));
         usage = text_of s (c_usage cmd) (case ids of None \<Rightarrow> 0 | Some (u, h) \<Rightarrow> u) 64;
         syntax = snd (snprintf 80 (gname g @ '' '' @ c_name cmd
                                    @ (if usage \<noteq> [] then '' '' else []) @ usage))
     in help_line syntax (text_of s (c_help cmd) (case ids of None \<Rightarrow> 0 | Some (u, h) \<Rightarrow> h) 96))"

definition cli_print_help :: "cli_t \<Rightarrow> cli_group_t option \<Rightarrow> call list" where
  "cli_print_help s grp =
    (case grp of
       None \<Rightarrow>
         [printf (NL @ ''Command groups (type a group name to list its commands):'' @ NL @ NL)]
         @ map (\<lambda>g. help_line (gname g) (text_of s (g_help g) (g_help_id g) 96)) (registered s)
         @ [printf (NL @ ''Every command is '' @ [CHR 0x27] @ ''<group> <command>'' @ [CHR 0x27]
                    @ '', e.g. '' @ [CHR 0x27] @ ''gpio set 19 true'' @ [CHR 0x27] @ ''.'' @ NL),
            printf ([CHR 0x27] @ ''help <group>'' @ [CHR 0x27] @ '' describes one group.'' @ NL @ NL)]
     | Some g \<Rightarrow>
         (let group_help = text_of s (g_help g) (g_help_id g) 96 in
          (if group_help \<noteq> [] then [printf (NL @ group_help @ NL)] else [])
          @ (if g_command_count g = 0 then [printf (NL @ ''(no commands)'' @ NL @ NL)]
             else [printf (NL @ ''Commands:'' @ NL)]
                  @ map (command_line s g) [0..<g_command_count g] @ [printf NL])))"

definition run_help :: "cli_t \<Rightarrow> string list \<Rightarrow> int \<times> call list" where
  "run_help s argv =
    (if length argv \<le> 1 then (0, cli_print_help s None)
     else case cli_find_group s (argv ! 1) of
       None \<Rightarrow> (-1, [Error (Some (''No such command group: '' @ argv ! 1))])
     | Some g \<Rightarrow> (0, cli_print_help s (Some g)))"

section \<open>Execution\<close>

text \<open>What the function at an address does with its arguments: its result, what it writes, and
  the new state of everything else.\<close>

type_synonym 'w command_code = "nat \<Rightarrow> string list \<Rightarrow> 'w \<Rightarrow> int \<times> call list \<times> 'w"

definition cli_execute :: "'w command_code \<Rightarrow> cli_t \<Rightarrow> string list \<Rightarrow> 'w \<Rightarrow> int \<times> call list \<times> 'w" where
  "cli_execute code s argv w =
    (if length argv = 0 then (0, [], w)
     else if strcasecmp (argv ! 0) ''help'' = 0 \<or> argv ! 0 = ''?'' then
       (let (r, out) = run_help s argv in (r, out, w))
     else case cli_find_group s (argv ! 0) of
       None \<Rightarrow>
         (-1, [Error (Some (''Unknown command group: '' @ argv ! 0)),
               printf (''Type '' @ [CHR 0x27] @ ''help'' @ [CHR 0x27] @ '' to list the groups.'' @ NL)], w)
     | Some g \<Rightarrow>
         if length argv = 1 then (0, cli_print_help s (Some g), w)
         else case find_command g (argv ! 1) of
           None \<Rightarrow>
             (-1, [Error (Some (''Unknown command: '' @ gname g @ '' '' @ argv ! 1)),
                   printf (''Type '' @ [CHR 0x27] @ gname g @ [CHR 0x27] @ '' to list its commands.'' @ NL)], w)
         | Some cmd \<Rightarrow> code (c_fn cmd) (tl argv) w)"

section \<open>Completion\<close>

text \<open>What follows the last blank, and what stands before it.\<close>

definition last_token :: "string \<Rightarrow> string" where
  "last_token line = rev (takeWhile (\<lambda>c. c \<noteq> CHR '' '') (rev line))"

definition before_token :: "string \<Rightarrow> string" where
  "before_token line = rev (dropWhile (\<lambda>c. c \<noteq> CHR '' '') (rev line))"

text \<open>The names that match, in order, until \<open>out_max\<close> are found.\<close>

definition matches :: "string \<Rightarrow> nat \<Rightarrow> string list \<Rightarrow> string list" where
  "matches token out_max names = take out_max (filter (\<lambda>n. strncasecmp n token (length token) = 0) names)"

definition cli_complete :: "cli_t \<Rightarrow> cptr \<Rightarrow> nat \<Rightarrow> string list" where
  "cli_complete s line out_max =
    (case line of None \<Rightarrow> []
     | Some line \<Rightarrow>
       if out_max = 0 then []
       else
         let token = last_token line;
             first_token = (\<forall>c \<in> set (before_token line). c = CHR '' '') in
         if first_token then
           let out = matches token out_max (map gname (registered s)) in
           if length out < out_max \<and> strncasecmp ''help'' token (length token) = 0
           then out @ [''help''] else out
         else
           let start = dropWhile (\<lambda>c. c = CHR '' '') line;
               name = takeWhile (\<lambda>c. c \<noteq> CHR '' '') start in
           if CHR '' '' \<notin> set start then []
           else if length name = 0 \<or> length name \<ge> 48 then []
           else case cli_find_group s name of
             None \<Rightarrow> []
           | Some g \<Rightarrow> matches token out_max (map c_name (commands g)))"


section \<open>The registry stays sorted\<close>

abbreviation name_key :: "cli_group_t \<Rightarrow> ci_name" where
  "name_key g \<equiv> fold_case (gname g)"

definition registry_ok :: "cli_t \<Rightarrow> bool" where
  "registry_ok s \<longleftrightarrow> length (groups s) = MAX_GROUPS s \<and> group_count s \<le> MAX_GROUPS s
     \<and> sorted (map name_key (registered s)) \<and> distinct (map name_key (registered s))"

lemma shift_groups_shape:
  assumes "shift_groups gs name i = (gs', k)" "i < length gs"
  shows "k \<le> i \<and> length gs' = length gs
    \<and> take (Suc i) (gs'[k := g]) = take k gs @ g # drop k (take i gs)
    \<and> (\<forall>j. k \<le> j \<longrightarrow> j < i \<longrightarrow> fold_case name < name_key (gs ! j))
    \<and> (0 < k \<longrightarrow> name_key (gs ! (k - 1)) \<le> fold_case name)
    \<and> (\<forall>j. i < j \<longrightarrow> gs' ! j = gs ! j)"
  using assms
proof (induction gs name i arbitrary: gs' k rule: shift_groups.induct)
  case (1 gs name)
  then show ?case by (cases gs) auto
next
  case (2 gs name i)
  show ?case
  proof (cases "strcasecmp (gname (gs ! i)) name > 0")
    case True
    let ?gs = "gs[Suc i := gs ! i]"
    have sh: "shift_groups ?gs name i = (gs', k)" using 2(2) True by simp
    have ilt: "i < length ?gs" using 2(3) by simp
    note IH = 2(1) [OF True sh ilt]
    have k: "k \<le> i" "length gs' = length gs" using IH by auto
    have "take (Suc (Suc i)) (gs'[k := g]) = take (Suc i) (gs'[k := g]) @ [gs' ! Suc i]"
      using k 2(3) by (simp add: take_Suc_conv_app_nth)
    also have "gs' ! Suc i = gs ! i" using IH 2(3) by simp
    also have "take (Suc i) (gs'[k := g]) = take k gs @ g # drop k (take i gs)"
    proof -
      have "take k ?gs = take k gs" "take i ?gs = take i gs" using k by simp_all
      then show ?thesis using IH by simp
    qed
    also have "(take k gs @ g # drop k (take i gs)) @ [gs ! i] = take k gs @ g # drop k (take (Suc i) gs)"
      using k 2(3) by (simp add: take_Suc_conv_app_nth)
    finally have shape: "take (Suc (Suc i)) (gs'[k := g]) = take k gs @ g # drop k (take (Suc i) gs)" .
    have gt: "fold_case name < name_key (gs ! i)" using True by (simp add: strcasecmp_gt)
    have "fold_case name < name_key (gs ! j)" if "k \<le> j" "j < Suc i" for j
      using IH that gt k by (cases "j = i") auto
    moreover have "name_key (gs ! (k - 1)) \<le> fold_case name" if "0 < k"
      using IH that k by (simp add: nth_list_update)
    ultimately show ?thesis using IH k shape by auto
  next
    case False
    then have "name_key (gs ! i) \<le> fold_case name" by (simp add: strcasecmp_gt not_less)
    with False 2(2,3) show ?thesis by (auto simp: take_Suc_conv_app_nth)
  qed
qed

lemma find_group_None:
  "cli_find_group s name = None \<longleftrightarrow> fold_case name \<notin> set (map name_key (registered s))"
  by (simp add: cli_find_group_def find_None_iff strcasecmp_eq image_iff) (metis)

lemma sorted_insert_at:
  assumes "sorted (map f xs)" "distinct (map f xs)" "f x \<notin> set (map f xs)" "k \<le> length xs"
    and "\<And>j. k \<le> j \<Longrightarrow> j < length xs \<Longrightarrow> f x < f (xs ! j)"
    and "0 < k \<Longrightarrow> f (xs ! (k - 1)) \<le> f x"
  shows "take k xs @ x # drop k xs = insort_key f x xs"
proof -
  have all: "f y < f x" if "y \<in> set (take k xs)" for y
  proof -
    obtain j where j: "j < k" "j < length xs" "y = xs ! j"
      using \<open>y \<in> set (take k xs)\<close> by (auto simp: in_set_conv_nth)
    have "f (xs ! j) \<le> f (xs ! (k - 1))"
      using sorted_nth_mono [OF assms(1), of j "k - 1"] j assms(4) by simp
    with assms(6) j have "f y \<le> f x" by simp
    moreover have "f y \<noteq> f x" using assms(3) j nth_mem by (metis image_eqI set_map)
    ultimately show ?thesis by simp
  qed
  have ins: "insort_key f x (as @ bs) = as @ x # bs"
    if "\<forall>y \<in> set as. f y < f x" "bs = [] \<or> f x < f (hd bs)" for as bs
    using that by (cases bs; induction as) (auto simp: less_imp_le)
  have "drop k xs = [] \<or> f x < f (hd (drop k xs))"
    using assms(5) [of k] by (cases "k < length xs") (auto simp: hd_drop_conv_nth)
  from ins [OF _ this, of "take k xs"] all show ?thesis by simp
qed

lemma registered_length: "registry_ok s \<Longrightarrow> length (registered s) = group_count s"
  by (simp add: registry_ok_def registered_def)

lemma register_group_cases:
  assumes "registry_ok s"
  shows "(let (r, s') = cli_register_group (Some g) s in
     if g_name g = None \<or> g_command_count g \<noteq> 0 \<and> g_commands g = None then (r, s') = (ESP_ERR_INVALID_ARG, s)
     else if name_key g \<in> set (map name_key (registered s)) then (r, s') = (ESP_ERR_INVALID_STATE, s)
     else if length (registered s) = MAX_GROUPS s then (r, s') = (ESP_ERR_NO_MEM, s)
     else r = ESP_OK \<and> registered s' = insort_key name_key g (registered s)
        \<and> MAX_GROUPS s' = MAX_GROUPS s \<and> text_resolver s' = text_resolver s \<and> registry_ok s')"
proof (cases "(\<exists>name. g_name g = Some name) \<and> \<not> (g_command_count g \<noteq> 0 \<and> g_commands g = None)
    \<and> name_key g \<notin> set (map name_key (registered s)) \<and> group_count s \<noteq> MAX_GROUPS s")
  case False
  have "gname g = name" if "g_name g = Some name" for name using that by (simp add: gname_def)
  with False registered_length [OF assms] find_group_None [of s "gname g"] show ?thesis
    by (auto simp: cli_register_group_def Let_def split: option.splits)
next
  case True
  then obtain name where name: "g_name g = Some name" by blast
  then have gn: "gname g = name" by (simp add: gname_def)
  obtain gs k where sh: "shift_groups (groups s) name (group_count s) = (gs, k)"
    by (cases "shift_groups (groups s) name (group_count s)")
  have lt: "group_count s < length (groups s)" using True assms by (auto simp: registry_ok_def)
  note shape = shift_groups_shape [OF sh lt, of g]
  let ?s = "s\<lparr>groups := gs[k := g], group_count := group_count s + 1\<rparr>"
  have r: "cli_register_group (Some g) s = (ESP_OK, ?s)"
    using True name gn sh find_group_None [of s name] by (auto simp: cli_register_group_def)
  have "registered ?s = take k (registered s) @ g # drop k (registered s)"
    using shape by (simp add: registered_def)
  also have "\<dots> = insort_key name_key g (registered s)"
  proof (rule sorted_insert_at)
    show "k \<le> length (registered s)" using shape registered_length [OF assms] by simp
    show "name_key g < name_key (registered s ! j)" if "k \<le> j" "j < length (registered s)" for j
      using shape that registered_length [OF assms] by (simp add: registered_def gn)
    show "name_key (registered s ! (k - 1)) \<le> name_key g" if "0 < k"
      using shape that lt by (auto simp: registered_def gn)
  qed (use assms True in \<open>auto simp: registry_ok_def\<close>)
  finally have reg: "registered ?s = insort_key name_key g (registered s)" .
  have "registry_ok ?s"
    using assms True lt shape unfolding registry_ok_def reg
    by (auto simp: sorted_insort_key distinct_insort distinct_map set_insort_key)
  with reg True registered_length [OF assms] name show ?thesis by (auto simp: r)
qed

lemma register_group_None [simp]: "cli_register_group None s = (ESP_ERR_INVALID_ARG, s)"
  by (simp add: cli_register_group_def)


lemma register_ok_iff:
  assumes "registry_ok s"
  shows "fst (cli_register_group e s) = ESP_OK \<longleftrightarrow>
    (\<exists>g. e = Some g \<and> g_name g \<noteq> None \<and> \<not> (g_command_count g \<noteq> 0 \<and> g_commands g = None)
       \<and> name_key g \<notin> set (map name_key (registered s)) \<and> length (registered s) \<noteq> MAX_GROUPS s)"
proof (cases e)
  case (Some g)
  then show ?thesis
    using register_group_cases [OF assms, of g]
    by (auto simp: Let_def split_beta split: if_splits)
qed simp

lemma register_ok_effect:
  assumes "registry_ok s" "fst (cli_register_group e s) = ESP_OK"
  shows "registered (snd (cli_register_group e s)) = insort_key name_key (the e) (registered s)
    \<and> MAX_GROUPS (snd (cli_register_group e s)) = MAX_GROUPS s
    \<and> registry_ok (snd (cli_register_group e s))"
proof -
  obtain g where "e = Some g" using assms register_ok_iff by blast
  then show ?thesis
    using register_group_cases [OF assms(1), of g] assms(2)
    by (auto simp: Let_def split_beta split: if_splits)
qed

lemma register_err_effect:
  assumes "fst (cli_register_group e s) \<noteq> ESP_OK"
  shows "snd (cli_register_group e s) = s"
  using assms by (auto simp: cli_register_group_def split_beta Let_def split: option.splits if_splits)

lemma register_keeps_ok: "registry_ok s \<Longrightarrow> registry_ok (snd (cli_register_group e s))
    \<and> MAX_GROUPS (snd (cli_register_group e s)) = MAX_GROUPS s"
  using register_ok_effect [of s e] register_err_effect [of e s]
  by (cases "fst (cli_register_group e s) = ESP_OK") simp_all

interpretation group_table: bounded_table
  "\<lambda>s e. cli_register_group e s" registered n "\<lambda>s. registry_ok s \<and> MAX_GROUPS s = n"
proof (unfold_locales, goal_cases)
  case (1 s e)
  then show ?case using register_keeps_ok by blast
next
  case (2 s)
  then show ?case by (auto simp: registered_length) (simp add: registry_ok_def)
next
  case (3 s e)
  then show ?case using register_ok_effect [of s e] by (auto simp: set_insort_key)
next
  case (4 s e)
  then show ?case using register_err_effect [of e s] by simp
qed

abbreviation register_groups :: "cli_t \<Rightarrow> cli_group_t option list \<Rightarrow> esp_err_t list \<times> cli_t" where
  "register_groups \<equiv> run_all (\<lambda>s e. cli_register_group e s)"

text \<open>When a whole list of groups is accepted, and what the table then holds.\<close>

definition acceptable :: "cli_t \<Rightarrow> cli_group_t option list \<Rightarrow> bool" where
  "acceptable s es \<longleftrightarrow>
     (\<forall>e \<in> set es. \<exists>g. e = Some g \<and> g_name g \<noteq> None \<and> \<not> (g_command_count g \<noteq> 0 \<and> g_commands g = None))
     \<and> distinct (map (\<lambda>e. name_key (the e)) es)
     \<and> (\<forall>e \<in> set es. name_key (the e) \<notin> set (map name_key (registered s)))
     \<and> length (registered s) + length es \<le> MAX_GROUPS s"

lemma register_groups_all_ok:
  "registry_ok s \<Longrightarrow> (set (fst (register_groups s es)) \<subseteq> {ESP_OK} \<longleftrightarrow> acceptable s es)
    \<and> (acceptable s es \<longrightarrow> set (registered (snd (register_groups s es))) = set (registered s) \<union> the ` set es)"
proof (induction es arbitrary: s)
  case Nil
  then show ?case
    using group_table.inv_capacity [of s "MAX_GROUPS s"] by (simp add: acceptable_def)
next
  case (Cons e es)
  let ?s = "snd (cli_register_group e s)"
  have run: "fst (register_groups s (e # es)) = fst (cli_register_group e s) # fst (register_groups ?s es)"
    "snd (register_groups s (e # es)) = snd (register_groups ?s es)"
    by (simp_all add: split_beta Let_def)
  have ok: "registry_ok ?s" "MAX_GROUPS ?s = MAX_GROUPS s" using register_keeps_ok [OF Cons.prems] by auto
  have cap: "length (registered s) \<le> MAX_GROUPS s"
    using group_table.inv_capacity [of s "MAX_GROUPS s"] Cons.prems by simp
  show ?case
  proof (cases "fst (cli_register_group e s) = ESP_OK")
    case True
    note eff = register_ok_effect [OF Cons.prems True]
    obtain g where g: "e = Some g" "g_name g \<noteq> None" "\<not> (g_command_count g \<noteq> 0 \<and> g_commands g = None)"
        "name_key g \<notin> set (map name_key (registered s))" "length (registered s) \<noteq> MAX_GROUPS s"
      using True register_ok_iff [OF Cons.prems] by blast
    have "acceptable s (e # es) \<longleftrightarrow> acceptable ?s es"
      unfolding acceptable_def using g eff ok cap
      by (auto simp: set_insort_key image_iff)
    then show ?thesis
      using Cons.IH [OF ok(1)] True eff g unfolding run by (auto simp: set_insort_key)
  next
    case False
    then have "\<not> acceptable s (e # es)"
      using register_ok_iff [OF Cons.prems, of e] cap unfolding acceptable_def by auto
    with False show ?thesis unfolding run by simp
  qed
qed

text \<open>The groups that a list of registrations added: the accepted ones.\<close>

definition accepted_groups :: "cli_group_t option list \<Rightarrow> esp_err_t list \<Rightarrow> cli_group_t list" where
  "accepted_groups es rs = map (the \<circ> fst) (filter (\<lambda>(e, r). r = ESP_OK) (zip es rs))"

lemma register_groups_adds:
  "registry_ok s \<Longrightarrow> mset (registered (snd (register_groups s es)))
     = mset (registered s) + mset (accepted_groups es (fst (register_groups s es)))"
proof (induction es arbitrary: s)
  case (Cons e es)
  have ok: "registry_ok (snd (cli_register_group e s))" using register_keeps_ok [OF Cons.prems] by blast
  show ?case
    using Cons.IH [OF ok] register_ok_effect [OF Cons.prems, of e] register_err_effect [of e s]
    by (cases "fst (cli_register_group e s) = ESP_OK") (simp_all add: accepted_groups_def split_beta Let_def)
qed (simp add: accepted_groups_def)

text \<open>C9. Registration order is invisible, and a refused registration is as if it had not been made. After any
  registrations, accepted or refused, the registry is sorted by name without regard to case, holds no
  two groups whose names differ only in case, is within its capacity, and has just the groups it had and
  those that were accepted; the next one, if refused, leaves every bit of it as it was. And if a list of
  groups is accepted in one order, then it is accepted in every other order and leaves exactly the same
  table, so help and completion come out the same however the groups were registered.\<close>

theorem cli_registry_order_invisible:
  assumes "registry_ok s" "set (fst (register_groups s es)) \<subseteq> {ESP_OK}" "mset es = mset es'"
  shows "(\<forall>fs. let (rs, t) = register_groups s fs in
      sorted (map name_key (registered t)) \<and> distinct (map name_key (registered t))
      \<and> length (registered t) \<le> MAX_GROUPS s
      \<and> mset (registered t) = mset (registered s) + mset (accepted_groups fs rs)
      \<and> (\<forall>e. fst (cli_register_group e t) \<noteq> ESP_OK \<longrightarrow> snd (cli_register_group e t) = t))
    \<and> set (fst (register_groups s es')) \<subseteq> {ESP_OK}
    \<and> registered (snd (register_groups s es')) = registered (snd (register_groups s es))"
proof -
  have acc: "acceptable s es" using register_groups_all_ok [OF assms(1)] assms(2) by blast
  have "mset (map (\<lambda>e. name_key (the e)) es) = mset (map (\<lambda>e. name_key (the e)) es')"
    using assms(3) by simp
  then have "acceptable s es'"
    using acc assms(3) mset_eq_setD [OF assms(3)] mset_eq_length [OF assms(3)]
    unfolding acceptable_def by (metis mset_eq_imp_distinct_iff)
  then have all: "set (fst (register_groups s es')) \<subseteq> {ESP_OK}"
    and sets: "set (registered (snd (register_groups s es'))) = set (registered (snd (register_groups s es)))"
    using register_groups_all_ok [OF assms(1)] acc mset_eq_setD [OF assms(3)] by auto
  have ok: "registry_ok (snd (register_groups s fs)) \<and> MAX_GROUPS (snd (register_groups s fs)) = MAX_GROUPS s" for fs
    using group_table.run_all_inv [of s "MAX_GROUPS s" fs] assms(1) by simp
  then have srt: "sorted (map name_key (registered (snd (register_groups s fs))))"
    "distinct (map name_key (registered (snd (register_groups s fs))))" for fs
    by (simp_all add: registry_ok_def)
  have cap: "length (registered (snd (register_groups s fs))) \<le> MAX_GROUPS s" for fs
    using group_table.inv_capacity [OF ok [of fs]] by simp
  have "registered (snd (register_groups s es')) = registered (snd (register_groups s es))"
    using srt sets by (intro map_sorted_distinct_set_unique [of name_key]) (simp_all add: distinct_map)
  with all srt cap register_groups_adds [OF assms(1)] show ?thesis
    by (auto simp: split_beta Let_def register_err_effect)
qed

definition gpio_group :: "cli_group_t" where
  "gpio_group = \<lparr>g_name = Some ''gpio'', g_help = Some ''pins'',
     g_commands = Some [\<lparr>c_name = ''set'', c_usage = Some ''<pin> <level>'', c_help = None, c_fn = 7\<rparr>],
     g_command_count = 1, g_command_text = None, g_help_id = 0\<rparr>"

definition bus_group :: "cli_group_t" where
  "bus_group = \<lparr>g_name = Some ''Bus'', g_help = None, g_commands = None, g_command_count = 0,
     g_command_text = None, g_help_id = 0\<rparr>"

definition empty_cli :: "cli_t" where
  "empty_cli = \<lparr>MAX_GROUPS = 4, groups = replicate 4 bus_group, group_count = 0, text_resolver = None\<rparr>"

definition two_groups :: "cli_t" where
  "two_groups = empty_cli\<lparr>groups := [bus_group, gpio_group, bus_group, bus_group], group_count := 2\<rparr>"

lemma empty_cli_ok: "registry_ok empty_cli"
  by (simp add: registry_ok_def empty_cli_def registered_def)

lemma group_keys [simp]: "gname gpio_group = ''gpio''" "gname bus_group = ''Bus''"
  by (simp_all add: gname_def gpio_group_def bus_group_def)

theorem cli_registry_order_invisible_witness:
  "registered (snd (register_groups empty_cli [Some bus_group, Some gpio_group])) = [bus_group, gpio_group]"
proof -
  have "fst (register_groups empty_cli [Some gpio_group, Some bus_group]) = [ESP_OK, ESP_OK]"
    "registered (snd (register_groups empty_cli [Some gpio_group, Some bus_group])) = [bus_group, gpio_group]"
    by code_simp+
  with cli_registry_order_invisible [OF empty_cli_ok, of "[Some gpio_group, Some bus_group]"
      "[Some bus_group, Some gpio_group]"]
  show ?thesis by (simp add: add_mset_commute)
qed

section \<open>What a line runs\<close>

lemma find_group_Some:
  assumes "registry_ok s" "g \<in> set (registered s)" "name_key g = fold_case a"
  shows "cli_find_group s a = Some g"
proof -
  have "cli_find_group s a \<noteq> None"
    using assms(2,3) find_group_None [of s a] by (metis image_eqI set_map)
  then obtain h where h: "cli_find_group s a = Some h" by blast
  then have "h \<in> set (registered s)" "name_key h = fold_case a"
    by (auto simp: cli_find_group_def find_Some_iff strcasecmp_eq)
  then have "h = g"
    using assms inj_onD [of name_key "set (registered s)" h g]
    by (simp add: registry_ok_def distinct_map)
  with h show ?thesis by simp
qed

lemma find_command_Some:
  assumes "c \<in> set (commands g)" "fold_case (c_name c) = fold_case b"
    and "distinct (map (\<lambda>c. fold_case (c_name c)) (commands g))"
  shows "find_command g b = Some c"
proof -
  have "find_command g b \<noteq> None"
    using assms(1,2) by (auto simp: find_command_def find_None_iff strcasecmp_eq)
  then obtain d where d: "find_command g b = Some d" by blast
  then have "d \<in> set (commands g)" "fold_case (c_name d) = fold_case b"
    by (auto simp: find_command_def find_Some_iff strcasecmp_eq)
  then have "d = c"
    using assms inj_onD [of "\<lambda>c. fold_case (c_name c)" "set (commands g)" d c]
    by (simp add: distinct_map)
  with d show ?thesis by simp
qed

definition is_error :: "call \<Rightarrow> bool" where
  "is_error c = (case c of Error f \<Rightarrow> True | _ \<Rightarrow> False)"

text \<open>A two-token line runs exactly the command it names. If a registered group and a command
  of it (whose commands have different names) match the first two tokens without regard to case,
  \<open>cli_execute\<close> runs that command's function, once, with \<open>argv\<close> from the command's own
  token on, and returns what it returned. If no group or no command matches, nothing is run, the
  result is -1, and exactly one error line says so.\<close>

theorem cli_execute_runs_the_named_command:
  assumes "registry_ok s" "fold_case a \<noteq> fold_case ''help''" "a \<noteq> ''?''"
  shows "(\<forall>g c. g \<in> set (registered s) \<longrightarrow> name_key g = fold_case a \<longrightarrow> c \<in> set (commands g)
            \<longrightarrow> fold_case (c_name c) = fold_case b
            \<longrightarrow> distinct (map (\<lambda>c. fold_case (c_name c)) (commands g))
            \<longrightarrow> cli_execute code s (a # b # args) w = code (c_fn c) (b # args) w)
       \<and> ((\<forall>g c. g \<in> set (registered s) \<longrightarrow> name_key g = fold_case a \<longrightarrow> c \<in> set (commands g)
            \<longrightarrow> fold_case (c_name c) \<noteq> fold_case b)
          \<longrightarrow> (let (r, out, w') = cli_execute code s (a # b # args) w in
                r = -1 \<and> w' = w \<and> length (filter is_error out) = 1))"
proof (intro conjI allI impI)
  fix g c
  assume "g \<in> set (registered s)" "name_key g = fold_case a" "c \<in> set (commands g)"
    "fold_case (c_name c) = fold_case b" "distinct (map (\<lambda>c. fold_case (c_name c)) (commands g))"
  then show "cli_execute code s (a # b # args) w = code (c_fn c) (b # args) w"
    using assms find_group_Some [OF assms(1)] find_command_Some
    by (simp add: cli_execute_def strcasecmp_eq)
next
  assume no: "\<forall>g c. g \<in> set (registered s) \<longrightarrow> name_key g = fold_case a \<longrightarrow> c \<in> set (commands g)
            \<longrightarrow> fold_case (c_name c) \<noteq> fold_case b"
  show "let (r, out, w') = cli_execute code s (a # b # args) w in
                r = -1 \<and> w' = w \<and> length (filter is_error out) = 1"
  proof (cases "cli_find_group s a")
    case None
    with assms(2,3) show ?thesis by (simp add: cli_execute_def strcasecmp_eq is_error_def)
  next
    case (Some g)
    then have "g \<in> set (registered s)" "name_key g = fold_case a"
      by (auto simp: cli_find_group_def find_Some_iff strcasecmp_eq)
    with no have "find_command g b = None"
      by (auto simp: find_command_def find_None_iff strcasecmp_eq)
    with Some assms(2,3) show ?thesis by (simp add: cli_execute_def strcasecmp_eq is_error_def)
  qed
qed

definition echo_code :: "string list list command_code" where
  "echo_code f argv w = (int f, [], w @ [argv])"

theorem cli_execute_runs_the_named_command_witness:
  "cli_execute echo_code two_groups [''GPIO'', ''Set'', ''19'', ''true''] []
     = (7, [], [[''Set'', ''19'', ''true'']])"
proof -
  have ok: "registry_ok two_groups" "registered two_groups = [bus_group, gpio_group]"
    by (simp_all add: registry_ok_def two_groups_def empty_cli_def registered_def fold_case_def
        tolower_def less_eq_ci_name_def)
  have "commands gpio_group = [\<lparr>c_name = ''set'', c_usage = Some ''<pin> <level>'', c_help = None, c_fn = 7\<rparr>]"
    by (simp add: commands_def gpio_group_def)
  with cli_execute_runs_the_named_command [OF ok(1), of "''GPIO''" "''Set''" echo_code "[''19'', ''true'']" "[]"]
  show ?thesis
    by (simp add: ok fold_case_def tolower_def echo_code_def)
qed

section \<open>What completion offers\<close>

definition names_to_complete :: "cli_t \<Rightarrow> string \<Rightarrow> string list" where
  "names_to_complete s line =
    (if \<forall>c \<in> set (before_token line). c = CHR '' '' then map gname (registered s) @ [''help'']
     else let name = takeWhile (\<lambda>c. c \<noteq> CHR '' '') (dropWhile (\<lambda>c. c = CHR '' '') line) in
       case cli_find_group s name of
         Some g \<Rightarrow> if length name < 48 then map c_name (commands g) else []
       | None \<Rightarrow> [])"

lemma line_split: "line = before_token line @ last_token line"
  by (simp add: before_token_def last_token_def rev_append [symmetric] del: rev_append)

lemma before_token_blank: "before_token line = [] \<or> last (before_token line) = CHR '' ''"
proof (cases "dropWhile (\<lambda>c. c \<noteq> CHR '' '') (rev line)")
  case (Cons y ys)
  then show ?thesis using hd_dropWhile_neg [OF Cons] by (simp add: before_token_def)
qed (simp add: before_token_def)

text \<open>The first token of a line with something before its last token: never empty, and a
  blank follows it.\<close>

lemma first_token_shape:
  assumes "c \<in> set (before_token line)" "c \<noteq> CHR '' ''"
  shows "CHR '' '' \<in> set (dropWhile (\<lambda>c. c = CHR '' '') line)
    \<and> takeWhile (\<lambda>c. c \<noteq> CHR '' '') (dropWhile (\<lambda>c. c = CHR '' '') line) \<noteq> []"
proof -
  let ?b = "before_token line"
  have dw: "dropWhile (\<lambda>c. c = CHR '' '') line = dropWhile (\<lambda>c. c = CHR '' '') ?b @ last_token line"
    using assms by (subst (1) line_split) (rule dropWhile_append1 [of c]; simp)
  have ne: "dropWhile (\<lambda>c. c = CHR '' '') ?b \<noteq> []" using assms by auto
  then have "last (dropWhile (\<lambda>c. c = CHR '' '') ?b) = last ?b"
    by (metis last_appendR takeWhile_dropWhile_id)
  moreover have "last ?b = CHR '' ''" using before_token_blank [of line] assms(1) by auto
  ultimately have "CHR '' '' \<in> set (dropWhile (\<lambda>c. c = CHR '' '') ?b)" using ne by (metis last_in_set)
  moreover obtain y ys where "dropWhile (\<lambda>c. c = CHR '' '') ?b = y # ys" using ne by (cases "dropWhile (\<lambda>c. c = CHR '' '') ?b") auto
  moreover have "y \<noteq> CHR '' ''" using hd_dropWhile_neg [OF calculation(2)] by simp
  ultimately show ?thesis by (simp add: dw)
qed

text \<open>Completion offers exactly the right names. For any line, \<open>cli_complete\<close> returns the
  first \<open>out_max\<close> of the names in play (the groups and \<open>help\<close> for a first token, else
  the commands of the group the first token names) of which the token being typed is a prefix
  without regard to case; they come in the table's order, and every group it offers resolves.\<close>

theorem cli_complete_offers_matches:
  "cli_complete s (Some line) m =
     take m (filter (\<lambda>n. map tolower (take (length (last_token line)) n) = map tolower (last_token line))
               (names_to_complete s line))
   \<and> (\<forall>n \<in> set (map gname (registered s)). cli_find_group s n \<noteq> None)"
proof
  let ?t = "last_token line"
  let ?p = "\<lambda>n. map tolower (take (length ?t) n) = map tolower ?t"
  have m: "matches ?t k ns = take k (filter ?p ns)" for k ns
    by (simp add: matches_def strncasecmp_prefix)
  have snoc: "(if length (take m xs) < m \<and> ?p y then take m xs @ [y] else take m xs)
      = take m (xs @ filter ?p [y])" for xs and y :: string
    by (cases "length xs < m") (auto simp: min_def)
  show "cli_complete s (Some line) m = take m (filter ?p (names_to_complete s line))"
  proof (cases "\<forall>c \<in> set (before_token line). c = CHR '' ''")
    case True
    have "cli_complete s (Some line) m = (if m = 0 then [] else
        let out = take m (filter ?p (map gname (registered s))) in
        if length out < m \<and> ?p ''help'' then out @ [''help''] else out)"
      using True by (simp add: cli_complete_def m strncasecmp_prefix Let_def)
    also have "\<dots> = take m (filter ?p (map gname (registered s) @ [''help'']))"
      using snoc [of "filter ?p (map gname (registered s))" "''help''"] by (simp add: Let_def)
    finally show ?thesis using True by (simp add: names_to_complete_def)
  next
    case False
    then obtain c where "c \<in> set (before_token line)" "c \<noteq> CHR '' ''" by blast
    from first_token_shape [OF this] False show ?thesis
      by (auto simp: cli_complete_def m names_to_complete_def Let_def split: option.splits)
  qed
  show "\<forall>n \<in> set (map gname (registered s)). cli_find_group s n \<noteq> None"
    by (simp add: find_group_None image_iff) blast
qed

theorem cli_complete_offers_matches_witness:
  "cli_complete two_groups (Some '' gpio S'') 8 = [''set'']"
proof -
  have "names_to_complete two_groups '' gpio S'' = [''set'']" "last_token '' gpio S'' = ''S''"
    by code_simp+
  with cli_complete_offers_matches [of two_groups "'' gpio S''" 8] show ?thesis
    by (simp add: tolower_def)
qed

end
