(* ===== verification/Cli_Repl.thy ===== *)
theory Cli_Repl
  imports Cli_Dispatch
begin

text \<open>
  The executor of \<open>cli/src/cli_repl.c\<close>: every interface queues its lines, one task runs
  them. The queue of the platform, its tokenizer and the terminal are parameters; heap lines and
  semaphores are counted so that a leak or a double free is visible.
\<close>

section \<open>State\<close>

record command_item_t =
  i_line :: string
  i_done :: "nat option"

record 'q queue_ops =
  q_create :: 'q
  q_send :: "'q \<Rightarrow> command_item_t \<Rightarrow> 'q option"
  q_receive :: "'q \<Rightarrow> (command_item_t \<times> 'q) option"
  q_items :: "'q \<Rightarrow> command_item_t list"

text \<open>Documented behaviour: first in, first out; a send that times out leaves the queue.\<close>

definition fifo_queue :: "'q queue_ops \<Rightarrow> bool" where
  "fifo_queue Q \<longleftrightarrow> q_items Q (q_create Q) = []
     \<and> (\<forall>q x q'. q_send Q q x = Some q' \<longrightarrow> q_items Q q' = q_items Q q @ [x])
     \<and> (\<forall>q x q'. q_receive Q q = Some (x, q') \<longrightarrow> q_items Q q = x # q_items Q q')"

text \<open>\<open>lines\<close>: heap lines not yet freed. \<open>sems\<close>: semaphores created and not deleted, with
  whether they have been given. \<open>ran\<close>: the argument vectors run so far.\<close>

record ('q, 'w) repl_t =
  command_queue :: "'q option"
  banner_text :: cptr
  prompt_text :: cptr
  executor_running :: bool
  reader_running :: bool
  lines_live :: nat
  sems :: "nat \<Rightarrow> bool option"
  next_sem :: nat
  world :: 'w
  shown :: "call list"

definition cli_prompt :: "('q, 'w) repl_t \<Rightarrow> string" where
  "cli_prompt r = (case prompt_text r of Some p \<Rightarrow> p | None \<Rightarrow> ''> '')"

section \<open>Start\<close>

record start_out =
  o_diag :: esp_err_t
  o_queue :: bool
  o_executor :: bool
  o_reader :: bool

text \<open>\<open>cfg\<close>: NULL or its banner and prompt. \<open>target\<close>: the chip's name.\<close>

definition cli_start ::
  "'q queue_ops \<Rightarrow> string \<Rightarrow> start_out \<Rightarrow> (cptr \<times> cptr) option \<Rightarrow> ('q, 'w) repl_t
   \<Rightarrow> esp_err_t \<times> ('q, 'w) repl_t" where
  "cli_start Q target out cfg r =
    (if command_queue r \<noteq> None then (ESP_ERR_INVALID_STATE, r)
     else
       let r = r\<lparr>banner_text := (case cfg of Some (b, p) \<Rightarrow> b | None \<Rightarrow> None)\<rparr>;
           r = (case cfg of
                  Some (b, Some p) \<Rightarrow> r\<lparr>prompt_text := Some p\<rparr>
                | _ \<Rightarrow> r\<lparr>prompt_text := Some (snd (snprintf 32 (target @ ''> '')))\<rparr>) in
       if o_diag out \<noteq> ESP_OK then (o_diag out, r)
       else if \<not> o_queue out then (ESP_ERR_NO_MEM, r)
       else
         let r = r\<lparr>command_queue := Some (q_create Q)\<rparr> in
         if \<not> o_executor out then (ESP_ERR_NO_MEM, r)
         else
           let r = r\<lparr>executor_running := True\<rparr> in
           if \<not> o_reader out then (ESP_ERR_NO_MEM, r)
           else (ESP_OK, r\<lparr>reader_running := True\<rparr>))"

section \<open>Submitting a line\<close>

text \<open>A submit either has its result or waits for a semaphore.\<close>

datatype submit_result = Returned int | WaitsFor nat

definition cli_submit ::
  "'q queue_ops \<Rightarrow> bool \<Rightarrow> bool \<Rightarrow> cptr \<Rightarrow> bool \<Rightarrow> ('q, 'w) repl_t
   \<Rightarrow> submit_result \<times> ('q, 'w) repl_t" where
  "cli_submit Q dup sem line wait r =
    (case (command_queue r, line) of
       (Some q, Some line) \<Rightarrow>
         if \<not> dup then (Returned (-1), r)
         else
           let r = r\<lparr>lines_live := lines_live r + 1\<rparr> in
           if wait \<and> \<not> sem then (Returned (-1), r\<lparr>lines_live := lines_live r - 1\<rparr>)
           else
             let d = next_sem r;
                 r = (if wait then r\<lparr>sems := (sems r)(d := Some False), next_sem := d + 1\<rparr> else r);
                 item = \<lparr>i_line = line, i_done = (if wait then Some d else None)\<rparr> in
             (case q_send Q q item of
                None \<Rightarrow>
                  let r = r\<lparr>shown := shown r @ [Error (Some (''Shell busy, command dropped: '' @ line))],
                            lines_live := lines_live r - 1\<rparr> in
                  (Returned (-1), if wait then r\<lparr>sems := (sems r)(d := None)\<rparr> else r)
              | Some q' \<Rightarrow>
                  (if wait then WaitsFor d else Returned 0, r\<lparr>command_queue := Some q'\<rparr>))
     | _ \<Rightarrow> (Returned (-1), r))"

text \<open>The end of a waiting submit: the semaphore has been given, it is taken and deleted.\<close>

definition submit_resume :: "nat \<Rightarrow> ('q, 'w) repl_t \<Rightarrow> (int \<times> ('q, 'w) repl_t) option" where
  "submit_resume d r = (if sems r d = Some True then Some (0, r\<lparr>sems := (sems r)(d := None)\<rparr>) else None)"

text \<open>One turn of the executor: None while the queue is empty. \<open>split\<close> is
  \<open>esp_console_split_argv\<close> with the maximal number of arguments.\<close>

definition executor_turn ::
  "'q queue_ops \<Rightarrow> (string \<Rightarrow> string list) \<Rightarrow> 'w command_code \<Rightarrow> cli_t \<Rightarrow> ('q, 'w) repl_t
   \<Rightarrow> ('q, 'w) repl_t option" where
  "executor_turn Q split code s r =
    (case command_queue r of None \<Rightarrow> None
     | Some q \<Rightarrow>
       (case q_receive Q q of None \<Rightarrow> None
        | Some (item, q') \<Rightarrow>
          let r = r\<lparr>command_queue := Some q'\<rparr>;
              argv = split (i_line item);
              r = (if length argv > 0
                   then let (ret, out, w) = cli_execute code s argv (world r) in
                        r\<lparr>world := w, shown := shown r @ out\<rparr>
                   else r);
              r = r\<lparr>lines_live := lines_live r - 1\<rparr> in
          Some (case i_done item of None \<Rightarrow> r
                | Some d \<Rightarrow> r\<lparr>sems := (sems r)(d := Some True)\<rparr>)))"

section \<open>Completion\<close>

text \<open>Every candidate is the line up to the token, then the name.\<close>

definition completion_cb :: "nat \<Rightarrow> cli_t \<Rightarrow> string \<Rightarrow> string list" where
  "completion_cb max_line s buf =
    (let prefix_len = length buf - length (last_token buf) in
     map (\<lambda>name. snd (snprintf max_line (take prefix_len buf @ name)))
       (cli_complete s (Some buf) 32))"

section \<open>Runs\<close>

text \<open>Any interleaving of submits, executor turns and returns of waiting submits. The labels
  record the lines accepted and run.\<close>

datatype event = Accepted string | Rejected string | Ran string | Resumed nat

inductive repl_step ::
  "'q queue_ops \<Rightarrow> (string \<Rightarrow> string list) \<Rightarrow> 'w command_code \<Rightarrow> cli_t
   \<Rightarrow> ('q, 'w) repl_t \<times> event list \<Rightarrow> ('q, 'w) repl_t \<times> event list \<Rightarrow> bool"
  for Q split code s where
  accepted: "cli_submit Q dup sem (Some line) wait r = (res, r') \<Longrightarrow> res \<noteq> Returned (-1) \<Longrightarrow>
     repl_step Q split code s (r, es) (r', es @ [Accepted line])"
| rejected: "cli_submit Q dup sem (Some line) wait r = (Returned (-1), r') \<Longrightarrow>
     repl_step Q split code s (r, es) (r', es @ [Rejected line])"
| ran: "command_queue r = Some q \<Longrightarrow> q_receive Q q = Some (item, q') \<Longrightarrow>
     executor_turn Q split code s r = Some r' \<Longrightarrow>
     repl_step Q split code s (r, es) (r', es @ [Ran (i_line item)])"
| resumed: "submit_resume d r = Some (0, r') \<Longrightarrow>
     repl_step Q split code s (r, es) (r', es @ [Resumed d])"

fun lines_accepted :: "event list \<Rightarrow> string list" where
  "lines_accepted [] = []"
| "lines_accepted (Accepted l # es) = l # lines_accepted es"
| "lines_accepted (_ # es) = lines_accepted es"

fun lines_run :: "event list \<Rightarrow> string list" where
  "lines_run [] = []"
| "lines_run (Ran l # es) = l # lines_run es"
| "lines_run (_ # es) = lines_run es"

lemma lines_append [simp]:
  "lines_accepted (es @ fs) = lines_accepted es @ lines_accepted fs"
  "lines_run (es @ fs) = lines_run es @ lines_run fs"
  by (induction es rule: lines_accepted.induct) (auto, (induction es rule: lines_run.induct, auto)?)

text \<open>What the world has become: the accepted and run lines, executed one after the other.\<close>

definition run_lines ::
  "(string \<Rightarrow> string list) \<Rightarrow> 'w command_code \<Rightarrow> cli_t \<Rightarrow> string list \<Rightarrow> 'w \<Rightarrow> 'w" where
  "run_lines split code s ls w =
     fold (\<lambda>l w. if split l = [] then w else snd (snd (cli_execute code s (split l) w))) ls w"

definition pending :: "'q queue_ops \<Rightarrow> ('q, 'w) repl_t \<Rightarrow> command_item_t list" where
  "pending Q r = (case command_queue r of None \<Rightarrow> [] | Some q \<Rightarrow> q_items Q q)"

definition repl_inv ::
  "'q queue_ops \<Rightarrow> (string \<Rightarrow> string list) \<Rightarrow> 'w command_code \<Rightarrow> cli_t \<Rightarrow> 'w
   \<Rightarrow> ('q, 'w) repl_t \<times> event list \<Rightarrow> bool" where
  "repl_inv Q split code s w0 x = (case x of (r, es) \<Rightarrow>
     lines_accepted es = lines_run es @ map i_line (pending Q r)
     \<and> lines_live r = length (pending Q r)
     \<and> world r = run_lines split code s (lines_run es) w0
     \<and> (\<forall>d. sems r d = Some False \<longleftrightarrow> Some d \<in> set (map i_done (pending Q r)))
     \<and> (\<forall>d \<ge> next_sem r. sems r d = None)
     \<and> distinct (filter (\<lambda>d. d \<noteq> None) (map i_done (pending Q r))))"

lemma submit_accepted:
  assumes "cli_submit Q dup sem (Some line) wait r = (res, r')" "res \<noteq> Returned (-1)" "fifo_queue Q"
  shows "pending Q r' = pending Q r @ [\<lparr>i_line = line, i_done = (if wait then Some (next_sem r) else None)\<rparr>]"
    and "lines_live r' = Suc (lines_live r)" "world r' = world r"
    and "sems r' = (if wait then (sems r)(next_sem r := Some False) else sems r)"
    and "next_sem r' = (if wait then Suc (next_sem r) else next_sem r)"
  using assms
  by (auto simp: cli_submit_def pending_def fifo_queue_def Let_def split: option.splits if_splits)

lemma submit_rejected:
  assumes "cli_submit Q dup sem (Some line) wait r = (Returned (-1), r')"
  shows "pending Q r' = pending Q r" "lines_live r' = lines_live r" "world r' = world r"
    and "next_sem r \<le> next_sem r'"
    and "sems r' = sems r \<or> sems r' = (sems r)(next_sem r := None)"
  using assms
  by (auto simp: cli_submit_def pending_def Let_def split: option.splits if_splits)

lemma repl_inv_rejected:
  assumes inv: "repl_inv Q split code s w0 (r, es)"
    and sub: "cli_submit Q dup sem (Some line) wait r = (Returned (-1), r')"
  shows "repl_inv Q split code s w0 (r', es @ [Rejected line])"
proof -
  have "sems r (next_sem r) = None" using inv by (simp add: repl_inv_def)
  with submit_rejected(5) [OF sub] have "sems r' = sems r" by (auto simp: fun_upd_idem)
  then show ?thesis
    using inv submit_rejected(1-4) [OF sub] by (auto simp: repl_inv_def)
qed

lemma repl_inv_accepted:
  assumes Q: "fifo_queue Q" and inv: "repl_inv Q split code s w0 (r, es)"
    and sub: "cli_submit Q dup sem (Some line) wait r = (res, r')" "res \<noteq> Returned (-1)"
  shows "repl_inv Q split code s w0 (r', es @ [Accepted line])"
proof -
  note eff = submit_accepted [OF sub Q]
  have "sems r (next_sem r) \<noteq> Some False" using inv by (simp add: repl_inv_def)
  then have fresh: "Some (next_sem r) \<notin> set (map i_done (pending Q r))"
    using inv unfolding repl_inv_def by blast
  show ?thesis
  proof (cases wait)
    case True
    have "\<forall>d. sems r' d = Some False \<longleftrightarrow> Some d \<in> set (map i_done (pending Q r'))"
      using inv True by (auto simp: repl_inv_def eff)
    then show ?thesis
      using inv True fresh by (simp add: repl_inv_def eff)
  next
    case False
    then show ?thesis using inv by (simp add: repl_inv_def eff)
  qed
qed

lemma executor_turn_effect:
  assumes "command_queue r = Some q" "q_receive Q q = Some (item, q')"
    and "executor_turn Q split code s r = Some r'" "fifo_queue Q"
  shows "pending Q r = item # q_items Q q'" "pending Q r' = q_items Q q'"
    and "lines_live r' = lines_live r - 1" "next_sem r' = next_sem r"
    and "world r' = (if split (i_line item) = [] then world r
           else snd (snd (cli_execute code s (split (i_line item)) (world r))))"
    and "sems r' = (case i_done item of None \<Rightarrow> sems r | Some d \<Rightarrow> (sems r)(d := Some True))"
proof -
  obtain ret out w where ex: "cli_execute code s (split (i_line item)) (world r) = (ret, out, w)"
    by (cases "cli_execute code s (split (i_line item)) (world r)")
  have items: "q_items Q q = item # q_items Q q'" using assms(2,4) by (simp add: fifo_queue_def)
  show "pending Q r = item # q_items Q q'" using assms(1) items by (simp add: pending_def)
  show "pending Q r' = q_items Q q'" "lines_live r' = lines_live r - 1" "next_sem r' = next_sem r"
    "world r' = (if split (i_line item) = [] then world r
           else snd (snd (cli_execute code s (split (i_line item)) (world r))))"
    "sems r' = (case i_done item of None \<Rightarrow> sems r | Some d \<Rightarrow> (sems r)(d := Some True))"
    using assms(1-3)
    by (cases "i_done item"; cases "split (i_line item) = []";
        simp add: executor_turn_def pending_def Let_def ex; auto)+
qed

lemma repl_inv_ran:
  assumes Q: "fifo_queue Q" and inv: "repl_inv Q split code s w0 (r, es)"
    and turn: "command_queue r = Some q" "q_receive Q q = Some (item, q')"
      "executor_turn Q split code s r = Some r'"
  shows "repl_inv Q split code s w0 (r', es @ [Ran (i_line item)])"
proof -
  note eff = executor_turn_effect [OF turn Q]
  have sem: "sems r d = Some False \<longleftrightarrow> Some d \<in> set (map i_done (item # q_items Q q'))" for d
    using inv by (simp add: repl_inv_def eff(1))
  have dist: "distinct (filter (\<lambda>d. d \<noteq> None) (map i_done (item # q_items Q q')))"
    using inv by (simp add: repl_inv_def eff(1))
  have s1: "sems r' d = Some False \<longleftrightarrow> Some d \<in> set (map i_done (q_items Q q'))" for d
    using sem [of d] dist by (cases "i_done item") (auto simp: eff(6))
  have s2: "sems r' d = None" if "next_sem r \<le> d" for d
  proof -
    have "sems r d = None" using inv that by (simp add: repl_inv_def)
    then have "i_done item \<noteq> Some d" using sem [of d] by auto
    with \<open>sems r d = None\<close> show ?thesis by (auto simp: eff(6) split: option.split)
  qed
  show ?thesis
    using inv s1 s2 dist
    by (simp add: repl_inv_def eff run_lines_def split: if_splits)
qed

lemma repl_inv_step:
  assumes Q: "fifo_queue Q" and "repl_step Q split code s x y" "repl_inv Q split code s w0 x"
  shows "repl_inv Q split code s w0 y"
  using assms(2,3)
proof cases
  case (accepted dup sem line wait r res r' es)
  show ?thesis
    unfolding accepted(2)
    by (rule repl_inv_accepted [OF Q _ accepted(3,4)]) (use assms(3) accepted(1) in simp)
next
  case (rejected dup sem line wait r r' es)
  show ?thesis
    unfolding rejected(2)
    by (rule repl_inv_rejected [OF _ rejected(3)]) (use assms(3) rejected(1) in simp)
next
  case (ran r q item q' r' es)
  show ?thesis
    unfolding ran(2)
    by (rule repl_inv_ran [OF Q _ ran(3,4,5)]) (use assms(3) ran(1) in simp)
next
  case (resumed d r r' es)
  have r': "sems r d = Some True" "r' = r\<lparr>sems := (sems r)(d := None)\<rparr>"
    using resumed(3) by (auto simp: submit_resume_def split: if_splits)
  have "pending Q r' = pending Q r" by (simp add: r' pending_def)
  moreover have "(sems r' e = Some False) = (sems r e = Some False)" for e using r' by simp
  ultimately show ?thesis using assms(3) r' unfolding resumed(1,2) repl_inv_def by simp
qed

lemma repl_inv_steps:
  assumes "fifo_queue Q" "(repl_step Q split code s)\<^sup>*\<^sup>* x y" "repl_inv Q split code s w0 x"
  shows "repl_inv Q split code s w0 y"
  using assms(2)
proof (induction rule: rtranclp_induct)
  case base
  then show ?case by (rule assms(3))
next
  case (step y z)
  then show ?case using repl_inv_step [OF assms(1) step.hyps(2)] by blast
qed

text \<open>C10. One executor, one order. After a successful \<open>cli_start\<close>, however submits from any
  number of interfaces and turns of the executor interleave, the lines run are the accepted lines
  in the order they were accepted, those still queued excepted; the state of the world is what
  running them one after the other makes of it (a rejected line has no effect); exactly the queued
  lines are still on the heap; and exactly the queued waiting submits have a semaphore not yet
  given, so none waits for a line that has run.\<close>

theorem cli_lines_run_in_order:
  assumes "fifo_queue Q" "cli_start Q target out cfg r00 = (ESP_OK, r0)"
    and "lines_live r00 = 0" "sems r00 = (\<lambda>d. None)"
    and "(repl_step Q split code s)\<^sup>*\<^sup>* (r0, []) (r, es)"
  shows "lines_accepted es = lines_run es @ map i_line (pending Q r)
    \<and> world r = run_lines split code s (lines_run es) (world r00)
    \<and> lines_live r = length (pending Q r)
    \<and> (\<forall>d. sems r d = Some False \<longleftrightarrow> Some d \<in> set (map i_done (pending Q r)))"
proof -
  have "command_queue r0 = Some (q_create Q)" "lines_live r0 = 0" "sems r0 = (\<lambda>d. None)"
    "world r0 = world r00"
    using assms(2,3,4) by (auto simp: cli_start_def Let_def split: if_splits option.splits prod.splits)
  then have "repl_inv Q split code s (world r00) (r0, [])"
    using assms(1) by (simp add: repl_inv_def pending_def fifo_queue_def run_lines_def)
  from repl_inv_steps [OF assms(1,5) this] show ?thesis
    unfolding repl_inv_def by blast
qed

lemma cli_start_no_executor:
  assumes "command_queue r = None" "o_diag out = ESP_OK" "o_queue out" "\<not> o_executor out"
  shows "\<exists>b p. cli_start Q target out cfg r = (ESP_ERR_NO_MEM,
           r\<lparr>banner_text := b, prompt_text := p, command_queue := Some (q_create Q)\<rparr>)"
  using assms by (cases cfg) (auto simp: cli_start_def Let_def split: option.splits prod.splits)

text \<open>A start that fails half way cannot be repeated. When the executor task cannot be
  created, \<open>cli_start\<close> answers \<open>ESP_ERR_NO_MEM\<close> but leaves the queue in place: every
  later start is refused with \<open>ESP_ERR_INVALID_STATE\<close>, no executor ever runs, and a submit
  is nevertheless accepted, a waiting one never to return.\<close>

theorem cli_start_failure_is_final:
  assumes "cli_start Q target out cfg r = (err, r1)"
    and "command_queue r = None" "executor_running r = False" "o_diag out = ESP_OK" "o_queue out"
    and "\<not> o_executor out"
  shows "err = ESP_ERR_NO_MEM \<and> cli_start Q target' out' cfg' r1 = (ESP_ERR_INVALID_STATE, r1)
    \<and> \<not> executor_running r1
    \<and> (q_send Q (q_create Q) \<lparr>i_line = line, i_done = Some (next_sem r1)\<rparr> \<noteq> None \<longrightarrow>
        fst (cli_submit Q True True (Some line) True r1) = WaitsFor (next_sem r1))"
proof -
  obtain b p where st: "err = ESP_ERR_NO_MEM"
      "r1 = r\<lparr>banner_text := b, prompt_text := p, command_queue := Some (q_create Q)\<rparr>"
    using cli_start_no_executor [OF assms(2,4,5,6), of Q target cfg] assms(1) by auto
  then have q: "command_queue r1 = Some (q_create Q)" "executor_running r1 = False"
    using assms(3) by simp_all
  then have "cli_start Q target' out' cfg' r1 = (ESP_ERR_INVALID_STATE, r1)"
    by (simp add: cli_start_def)
  moreover have "fst (cli_submit Q True True (Some line) True r1) = WaitsFor (next_sem r1)"
    if "q_send Q (q_create Q) \<lparr>i_line = line, i_done = Some (next_sem r1)\<rparr> \<noteq> None"
    using that q by (auto simp: cli_submit_def Let_def)
  ultimately show ?thesis using st(1) q(2) by blast
qed

section \<open>Witnesses\<close>

definition list_queue :: "nat \<Rightarrow> command_item_t list queue_ops" where
  "list_queue n = \<lparr>q_create = [],
     q_send = (\<lambda>q x. if length q < n then Some (q @ [x]) else None),
     q_receive = (\<lambda>q. case q of [] \<Rightarrow> None | x # q' \<Rightarrow> Some (x, q')),
     q_items = (\<lambda>q. q)\<rparr>"

lemma list_queue_fifo: "fifo_queue (list_queue n)"
  by (auto simp: fifo_queue_def list_queue_def split: if_splits list.splits)

definition idle_repl :: "(command_item_t list, string list list) repl_t" where
  "idle_repl = \<lparr>command_queue = None, banner_text = None, prompt_text = None,
     executor_running = False, reader_running = False, lines_live = 0, sems = (\<lambda>d. None),
     next_sem = 0, world = [], shown = []\<rparr>"

definition good_start :: "start_out" where
  "good_start = \<lparr>o_diag = ESP_OK, o_queue = True, o_executor = True, o_reader = True\<rparr>"

definition one_word :: "string \<Rightarrow> string list" where
  "one_word l = (if l = [] then [] else [l])"

theorem cli_lines_run_in_order_witness:
  "\<exists>r0 r1. cli_start (list_queue 4) ''esp32'' good_start None idle_repl = (ESP_OK, r0)
     \<and> cli_submit (list_queue 4) True True (Some ''help'') True r0 = (WaitsFor 0, r1)
     \<and> lines_live r1 = 1 \<and> sems r1 0 = Some False"
proof -
  let ?Q = "list_queue 4"
  obtain r0 where st: "cli_start ?Q ''esp32'' good_start None idle_repl = (ESP_OK, r0)"
    and q: "command_queue r0 = Some []" "next_sem r0 = 0"
    by (simp add: cli_start_def good_start_def idle_repl_def list_queue_def Let_def)
  obtain r1 where sub: "cli_submit ?Q True True (Some ''help'') True r0 = (WaitsFor 0, r1)"
    and q1: "command_queue r1 = Some [\<lparr>i_line = ''help'', i_done = Some 0\<rparr>]"
    using q by (simp add: cli_submit_def list_queue_def Let_def)
  have "repl_step ?Q one_word echo_code empty_cli (r0, []) (r1, [] @ [Accepted ''help''])"
    by (rule repl_step.accepted [OF sub]) simp
  then have "(repl_step ?Q one_word echo_code empty_cli)\<^sup>*\<^sup>* (r0, []) (r1, [Accepted ''help''])"
    by simp
  from cli_lines_run_in_order [OF list_queue_fifo st _ _ this] st sub q1 show ?thesis
    by (simp add: idle_repl_def pending_def list_queue_def)
qed

theorem cli_start_failure_is_final_witness:
  "let (err, r1) = cli_start (list_queue 4) ''esp32'' (good_start\<lparr>o_executor := False\<rparr>) None idle_repl in
     err = ESP_ERR_NO_MEM
     \<and> cli_start (list_queue 4) ''esp32'' good_start None r1 = (ESP_ERR_INVALID_STATE, r1)"
  using cli_start_failure_is_final [of "list_queue 4" "''esp32''" "good_start\<lparr>o_executor := False\<rparr>" None
      idle_repl "fst (cli_start (list_queue 4) ''esp32'' (good_start\<lparr>o_executor := False\<rparr>) None idle_repl)"
      "snd (cli_start (list_queue 4) ''esp32'' (good_start\<lparr>o_executor := False\<rparr>) None idle_repl)"
      "''esp32''" good_start None]
  by (simp add: good_start_def idle_repl_def split_beta)

end
