(* ===== verification/Net_Events.thy ===== *)
theory Net_Events
  imports Prelude
begin

text \<open>
  The network events of \<open>net_events/include/net_events.h\<close> and \<open>net_events/src/net_events.c\<close>:
  what the link layer posts and the services over it subscribe to. The default event loop is the
  platform's; what a post relies on is that it takes an event if there is room at once and delivers
  the events it took in order.
\<close>

datatype net_event_id_t =
  NET_EVENT_LINK_UP | NET_EVENT_LINK_DOWN | NET_EVENT_AP_STARTED | NET_EVENT_AP_STOPPED | NET_EVENT_TIME_SYNCED

text \<open>The name for an enumerator, or for a number that is none.\<close>

definition net_events_name :: "net_event_id_t option \<Rightarrow> string" where
  "net_events_name x =
    (case x of
       Some NET_EVENT_LINK_UP \<Rightarrow> ''LINK_UP'' | Some NET_EVENT_LINK_DOWN \<Rightarrow> ''LINK_DOWN''
     | Some NET_EVENT_AP_STARTED \<Rightarrow> ''AP_STARTED'' | Some NET_EVENT_AP_STOPPED \<Rightarrow> ''AP_STOPPED''
     | Some NET_EVENT_TIME_SYNCED \<Rightarrow> ''TIME_SYNCED'' | None \<Rightarrow> ''UNKNOWN'')"

text \<open>The loop's queue of \<open>cap\<close> places. A post does not wait: with no place it fails, and the
  event is lost.\<close>

definition post_event :: "nat \<Rightarrow> 'e \<Rightarrow> 'e list \<Rightarrow> esp_err_t \<times> 'e list" where
  "post_event cap x q = (if length q < cap then (ESP_OK, q @ [x]) else (ESP_ERR_TIMEOUT, q))"

lemma post_event_ok: "length q < cap \<Longrightarrow> post_event cap x q = (ESP_OK, q @ [x])"
  by (simp add: post_event_def)

interpretation event_queue: bounded_table "\<lambda>q x. post_event n x q" "\<lambda>q. q" n "\<lambda>q. length q \<le> n"
  by unfold_locales (auto simp: post_event_def split: if_splits)

section \<open>Services over the link\<close>

text \<open>What the handlers of the services have in common: the events after one that is up for the
  service, as long as none of them is down for it, keep what the first one established.\<close>

locale link_service =
  fixes handle :: "net_event_id_t \<Rightarrow> 's \<Rightarrow> 's"
    and ok :: "'s \<Rightarrow> bool"
    and serving :: "'s \<Rightarrow> bool"
    and ups :: "net_event_id_t set"
    and downs :: "net_event_id_t set"
  assumes ok_kept: "ok s \<Longrightarrow> ok (handle e s)"
    and up_serves: "ok s \<Longrightarrow> e \<in> ups \<Longrightarrow> serving (handle e s)"
    and serving_kept: "ok s \<Longrightarrow> serving s \<Longrightarrow> e \<notin> downs \<Longrightarrow> serving (handle e s)"
begin

lemma ok_after: "ok s \<Longrightarrow> ok (fold handle es s)"
  by (induction es arbitrary: s) (simp_all add: ok_kept)

lemma serving_while: "ok s \<Longrightarrow> serving s \<Longrightarrow> set es \<inter> downs = {} \<Longrightarrow> serving (fold handle es s)"
  by (induction es arbitrary: s) (auto simp: ok_kept serving_kept)

lemma serving_after_up:
  "ok s \<Longrightarrow> e \<in> ups \<Longrightarrow> set after \<inter> downs = {} \<Longrightarrow> serving (fold handle (before @ e # after) s)"
  by (simp add: serving_while up_serves ok_kept ok_after)

end

end
