(* ===== verification/Mqtt_Manager.thy ===== *)
theory Mqtt_Manager
  imports Mqtt_Topic Net_Events
begin

text \<open>
  The MQTT client of \<open>mqtt_manager/src/mqtt_manager.c\<close>: its flags, subscription table
  and the handlers of the client's and the network's events. The esp-mqtt client is a
  parameter: what its calls answer is given, and every call made to it is recorded.
\<close>

section \<open>What the manager relies on\<close>

text \<open>The interface to the topic strings: matching decides the wildcard rule on proper topics,
  and building is exact or refused. The lemmas of the manager need nothing else of it.\<close>

locale topic_layer =
  fixes matches :: "cptr \<Rightarrow> cptr \<Rightarrow> bool"
    and build :: "nat \<Rightarrow> cptr \<Rightarrow> cptr \<Rightarrow> cptr \<Rightarrow> bool \<times> string"
    and proper :: "string \<Rightarrow> bool"
    and rule_of :: "string \<Rightarrow> string \<Rightarrow> bool"
    and whole :: "cptr \<Rightarrow> cptr \<Rightarrow> cptr \<Rightarrow> string"
  assumes matches_rule: "proper t \<Longrightarrow> matches (Some f) (Some t) = rule_of f t"
    and build_ok: "fst (build n p d s) \<longleftrightarrow> length (whole p d s) < n"
    and build_text: "fst (build n p d s) \<Longrightarrow> snd (build n p d s) = whole p d s"
begin

lemma matching_handlers:
  "proper t \<Longrightarrow> filter (\<lambda>x. matches (Some (f x)) (Some t)) xs = filter (\<lambda>x. rule_of (f x) t) xs"
  by (simp add: matches_rule)

lemma build_fits: "fst (build n p d s) \<Longrightarrow> length (snd (build n p d s)) < n"
  using build_ok build_text by metis

end

definition wildcard_rule :: "string \<Rightarrow> string \<Rightarrow> bool" where
  "wildcard_rule f t \<longleftrightarrow> valid_levels (levels f) \<and> levels_match (levels f) (levels t)"

interpretation topics: topic_layer mqtt_topic_matches mqtt_topic_build proper_topic wildcard_rule whole_topic
  by unfold_locales (auto simp: wildcard_rule_def mqtt_topic_matches_levels mqtt_topic_build_spec)

section \<open>State\<close>

definition MAX_TOPIC :: nat where "MAX_TOPIC = 160"

record mqtt_config =
  uri :: string
  client_id :: string
  username :: string
  password :: string
  topic_prefix :: string
  lwt_suffix :: string
  lwt_online :: string
  lwt_offline :: string
  lwt_qos :: int
  keepalive_s :: int

record subscription_t =
  sub_filter :: string
  sub_qos :: int
  sub_cb :: nat
  sub_ctx :: nat

text \<open>What \<open>esp_mqtt_client_init\<close> is given.\<close>

record client_config =
  k_uri :: string
  k_client_id :: cptr
  k_keepalive :: int
  k_credentials :: "(string \<times> string) option"
  k_last_will :: "(string \<times> string \<times> int \<times> bool) option"

datatype client_op =
    Init client_config
  | Start
  | Stop
  | Destroy
  | Subscribe string int
  | Publish string string int bool
  | Enqueue string string int bool

record mqtt_t =
  MAX_SUBSCRIPTIONS :: nat
  s_client :: bool
  s_connected :: bool
  s_running :: bool
  s_link_up :: bool
  s_cfg :: "mqtt_config option"
  s_prefix :: string
  s_lwt_topic :: string
  s_subs :: "subscription_t list"
  s_sub_count :: nat
  net_handler :: bool
  ops :: "client_op list"

definition do_op :: "client_op \<Rightarrow> mqtt_t \<Rightarrow> mqtt_t" where
  "do_op x s = s\<lparr>ops := ops s @ [x]\<rparr>"

text \<open>The client's answers. Message ids may depend on the whole history of calls.\<close>

record client_answers =
  a_init :: bool
  a_register_event :: esp_err_t
  a_register_net :: esp_err_t
  a_start :: esp_err_t
  a_msg_id :: "client_op list \<Rightarrow> client_op \<Rightarrow> int"

definition subs :: "mqtt_t \<Rightarrow> subscription_t list" where
  "subs s = take (s_sub_count s) (s_subs s)"

definition subs_ok :: "mqtt_t \<Rightarrow> bool" where
  "subs_ok s \<longleftrightarrow> length (s_subs s) = MAX_SUBSCRIPTIONS s \<and> s_sub_count s \<le> MAX_SUBSCRIPTIONS s"

section \<open>Operations\<close>

definition mqtt_manager_topic_prefix :: "mqtt_t \<Rightarrow> cptr" where
  "mqtt_manager_topic_prefix s = (if s_client s then Some (s_prefix s) else None)"

definition mqtt_manager_is_connected :: "mqtt_t \<Rightarrow> bool" where
  "mqtt_manager_is_connected s \<longleftrightarrow> s_connected s \<and> s_link_up s \<and> s_client s"

definition full_topic :: "mqtt_t \<Rightarrow> nat \<Rightarrow> string \<Rightarrow> esp_err_t \<times> string" where
  "full_topic s out_size suf =
    (let (ok, out) = mqtt_topic_build out_size (Some (s_prefix s)) None (Some suf) in
     (if ok then ESP_OK else MQTT_MANAGER_ERR_TOPIC_TOO_LONG, out))"

fun subscribe_all :: "subscription_t list \<Rightarrow> mqtt_t \<Rightarrow> mqtt_t" where
  "subscribe_all [] s = s"
| "subscribe_all (x # xs) s = subscribe_all xs (do_op (Subscribe (sub_filter x) (sub_qos x)) s)"

definition resubscribe_all :: "mqtt_t \<Rightarrow> mqtt_t" where
  "resubscribe_all s = subscribe_all (subs s) s"

definition publish_birth :: "mqtt_t \<Rightarrow> mqtt_t" where
  "publish_birth s =
    (if s_lwt_topic s = [] then s
     else case s_cfg s of None \<Rightarrow> s
       | Some c \<Rightarrow> do_op (Publish (s_lwt_topic s) (lwt_online c) (lwt_qos c) True) s)"

text \<open>A callback with its context and the message it is handed.\<close>

type_synonym delivery = "nat \<times> nat \<times> cptr \<times> string"

definition dispatch :: "mqtt_t \<Rightarrow> cptr \<Rightarrow> string \<Rightarrow> delivery list" where
  "dispatch s topic data =
     map (\<lambda>x. (sub_cb x, sub_ctx x, topic, data))
       (filter (\<lambda>x. mqtt_topic_matches (Some (sub_filter x)) topic) (subs s))"

datatype client_event = Connected | Disconnected | Data cptr string | Err | OtherEvent

definition mqtt_event_handler :: "client_event \<Rightarrow> mqtt_t \<Rightarrow> mqtt_t \<times> delivery list" where
  "mqtt_event_handler e s =
    (case e of
       Connected \<Rightarrow> (resubscribe_all (publish_birth (s\<lparr>s_connected := True\<rparr>)), [])
     | Disconnected \<Rightarrow> (s\<lparr>s_connected := False\<rparr>, [])
     | Data topic data \<Rightarrow> (s, dispatch s topic data)
     | Err \<Rightarrow> (s, [])
     | OtherEvent \<Rightarrow> (s, []))"

definition on_net_event :: "client_answers \<Rightarrow> net_event_id_t \<Rightarrow> mqtt_t \<Rightarrow> mqtt_t" where
  "on_net_event a e s =
    (case e of
       NET_EVENT_LINK_UP \<Rightarrow>
         (let s = s\<lparr>s_link_up := True\<rparr> in
          if s_client s \<and> \<not> s_running s then
            let s = do_op Start s in if a_start a = ESP_OK then s\<lparr>s_running := True\<rparr> else s
          else s)
     | NET_EVENT_LINK_DOWN \<Rightarrow> s\<lparr>s_link_up := False\<rparr>
     | _ \<Rightarrow> s)"

definition mqtt_manager_start :: "client_answers \<Rightarrow> mqtt_config option \<Rightarrow> cptr \<Rightarrow> mqtt_t \<Rightarrow> esp_err_t \<times> mqtt_t" where
  "mqtt_manager_start a cfg device_name s =
    (case cfg of None \<Rightarrow> (ESP_ERR_INVALID_ARG, s)
     | Some c \<Rightarrow>
       if uri c = [] then (ESP_ERR_INVALID_ARG, s)
       else if s_client s then (ESP_ERR_INVALID_STATE, s)
       else if mqtt_topic_needs_device (Some (topic_prefix c))
            \<and> (device_name = None \<or> device_name = Some []) then (ESP_ERR_INVALID_ARG, s)
       else
         let s = s\<lparr>s_cfg := Some c\<rparr>;
             (ok, out) = mqtt_topic_build MAX_TOPIC (Some (topic_prefix c)) device_name None;
             s = s\<lparr>s_prefix := out\<rparr> in
         if \<not> ok then (MQTT_MANAGER_ERR_TOPIC_TOO_LONG, s)
         else
           let s = s\<lparr>s_lwt_topic := []\<rparr>;
               (e, lwt) = (if lwt_suffix c \<noteq> [] then full_topic s MAX_TOPIC (lwt_suffix c) else (ESP_OK, []));
               s = s\<lparr>s_lwt_topic := lwt\<rparr> in
           if e \<noteq> ESP_OK then (MQTT_MANAGER_ERR_TOPIC_TOO_LONG, s)
           else
             let k = \<lparr>k_uri = uri c,
                      k_client_id = (if client_id c \<noteq> [] then Some (client_id c) else device_name),
                      k_keepalive = keepalive_s c,
                      k_credentials = (if username c \<noteq> [] then Some (username c, password c) else None),
                      k_last_will = (if s_lwt_topic s \<noteq> []
                        then Some (s_lwt_topic s, lwt_offline c, lwt_qos c, True) else None)\<rparr>;
                 s = do_op (Init k) s in
             if \<not> a_init a then (ESP_FAIL, s)
             else if a_register_event a \<noteq> ESP_OK then (a_register_event a, do_op Destroy s)
             else if a_register_net a \<noteq> ESP_OK then (a_register_net a, do_op Destroy s)
             else
               let s = s\<lparr>s_client := True, net_handler := True\<rparr> in
               (ESP_OK,
                if s_link_up s then
                  let s = do_op Start s in if a_start a = ESP_OK then s\<lparr>s_running := True\<rparr> else s
                else s))"

definition mqtt_manager_stop :: "mqtt_t \<Rightarrow> esp_err_t \<times> mqtt_t" where
  "mqtt_manager_stop s =
    (if \<not> s_client s then (ESP_ERR_INVALID_STATE, s)
     else
       let s = s\<lparr>net_handler := False, s_connected := False\<rparr>;
           s = (if s_running s then (do_op Stop s)\<lparr>s_running := False\<rparr> else s) in
       (ESP_OK, (do_op Destroy s)\<lparr>s_client := False\<rparr>))"

definition mqtt_manager_subscribe :: "cptr \<Rightarrow> int \<Rightarrow> nat option \<Rightarrow> nat \<Rightarrow> mqtt_t \<Rightarrow> esp_err_t \<times> mqtt_t" where
  "mqtt_manager_subscribe topic_suffix qos cb ctx s =
    (case (topic_suffix, cb) of
       (Some suf, Some cb) \<Rightarrow>
         if qos < 0 \<or> qos > 2 then (ESP_ERR_INVALID_ARG, s)
         else if s_sub_count s = MAX_SUBSCRIPTIONS s then (ESP_ERR_NO_MEM, s)
         else
           let n = s_sub_count s;
               (err, out) = full_topic s MAX_TOPIC suf;
               s = s\<lparr>s_subs := (s_subs s)[n := (s_subs s ! n)\<lparr>sub_filter := out\<rparr>]\<rparr> in
           if err \<noteq> ESP_OK then (err, s)
           else
             let s = s\<lparr>s_subs := (s_subs s)[n := \<lparr>sub_filter = out, sub_qos = qos, sub_cb = cb, sub_ctx = ctx\<rparr>],
                       s_sub_count := n + 1\<rparr> in
             (ESP_OK, if mqtt_manager_is_connected s then do_op (Subscribe out qos) s else s)
     | _ \<Rightarrow> (ESP_ERR_INVALID_ARG, s))"

definition publish_common ::
  "client_answers \<Rightarrow> cptr \<Rightarrow> string \<Rightarrow> int \<Rightarrow> bool \<Rightarrow> bool \<Rightarrow> mqtt_t \<Rightarrow> esp_err_t \<times> mqtt_t" where
  "publish_common a topic_suffix data qos retain enqueue s =
    (case topic_suffix of None \<Rightarrow> (ESP_ERR_INVALID_ARG, s)
     | Some suf \<Rightarrow>
       if \<not> mqtt_manager_is_connected s then (ESP_ERR_INVALID_STATE, s)
       else
         let (err, topic) = full_topic s MAX_TOPIC suf in
         if err \<noteq> ESP_OK then (err, s)
         else
           let x = (if enqueue then Enqueue topic data qos retain else Publish topic data qos retain) in
           (if a_msg_id a (ops s) x < 0 then ESP_FAIL else ESP_OK, do_op x s))"

definition mqtt_manager_publish ::
  "client_answers \<Rightarrow> cptr \<Rightarrow> string \<Rightarrow> int \<Rightarrow> bool \<Rightarrow> mqtt_t \<Rightarrow> esp_err_t \<times> mqtt_t" where
  "mqtt_manager_publish a topic_suffix data qos retain s = publish_common a topic_suffix data qos retain False s"

definition mqtt_manager_enqueue ::
  "client_answers \<Rightarrow> cptr \<Rightarrow> string \<Rightarrow> int \<Rightarrow> bool \<Rightarrow> mqtt_t \<Rightarrow> esp_err_t \<times> mqtt_t" where
  "mqtt_manager_enqueue a topic_suffix data qos retain s = publish_common a topic_suffix data qos retain True s"


section \<open>The table\<close>

lemma subscribe_frame:
  "MAX_SUBSCRIPTIONS (snd (mqtt_manager_subscribe f q cb c s)) = MAX_SUBSCRIPTIONS s"
  "s_client (snd (mqtt_manager_subscribe f q cb c s)) = s_client s"
  "s_connected (snd (mqtt_manager_subscribe f q cb c s)) = s_connected s"
  "s_link_up (snd (mqtt_manager_subscribe f q cb c s)) = s_link_up s"
  "s_running (snd (mqtt_manager_subscribe f q cb c s)) = s_running s"
  "s_prefix (snd (mqtt_manager_subscribe f q cb c s)) = s_prefix s"
  "net_handler (snd (mqtt_manager_subscribe f q cb c s)) = net_handler s"
  by (auto simp: mqtt_manager_subscribe_def full_topic_def do_op_def Let_def
      split: option.splits prod.splits)

lemma subscribe_ok_cases:
  assumes "subs_ok s" "fst (mqtt_manager_subscribe f q cb c s) = ESP_OK"
  shows "\<exists>suf g. f = Some suf \<and> cb = Some g \<and> 0 \<le> q \<and> q \<le> 2
    \<and> length (whole_topic (Some (s_prefix s)) None (Some suf)) < MAX_TOPIC
    \<and> (let x = \<lparr>sub_filter = whole_topic (Some (s_prefix s)) None (Some suf), sub_qos = q,
              sub_cb = g, sub_ctx = c\<rparr>; s' = snd (mqtt_manager_subscribe f q cb c s) in
         subs s' = subs s @ [x] \<and> subs_ok s'
         \<and> ops s' = (if mqtt_manager_is_connected s then ops s @ [Subscribe (sub_filter x) q] else ops s))"
proof -
  obtain suf g where f: "f = Some suf" "cb = Some g" and q: "\<not> (q < 0 \<or> q > 2)"
    and n: "s_sub_count s \<noteq> MAX_SUBSCRIPTIONS s" and ft: "fst (full_topic s MAX_TOPIC suf) = ESP_OK"
    using assms(2)
    by (auto simp: mqtt_manager_subscribe_def Let_def split: option.splits prod.splits if_splits)
  have b: "fst (mqtt_topic_build MAX_TOPIC (Some (s_prefix s)) None (Some suf))"
    using ft by (auto simp: full_topic_def Let_def split: prod.splits if_splits)
  let ?x = "\<lparr>sub_filter = whole_topic (Some (s_prefix s)) None (Some suf), sub_qos = q, sub_cb = g, sub_ctx = c\<rparr>"
  have ft2: "full_topic s MAX_TOPIC suf = (ESP_OK, whole_topic (Some (s_prefix s)) None (Some suf))"
    using b topics.build_text [OF b] by (simp add: full_topic_def Let_def split_beta)
  have lt: "s_sub_count s < length (s_subs s)" using n assms(1) by (auto simp: subs_ok_def)
  show ?thesis
    using lt n q b assms(1) topics.build_ok [of MAX_TOPIC "Some (s_prefix s)" None "Some suf"]
    by (intro exI [of _ suf] exI [of _ g])
      (auto simp: mqtt_manager_subscribe_def f ft2 Let_def do_op_def subs_def subs_ok_def
        take_Suc_conv_app_nth mqtt_manager_is_connected_def)
qed

lemma subscribe_err:
  assumes "subs_ok s" "fst (mqtt_manager_subscribe f q cb c s) \<noteq> ESP_OK"
  shows "subs (snd (mqtt_manager_subscribe f q cb c s)) = subs s
    \<and> subs_ok (snd (mqtt_manager_subscribe f q cb c s))
    \<and> ops (snd (mqtt_manager_subscribe f q cb c s)) = ops s"
  using assms
  by (auto simp: mqtt_manager_subscribe_def Let_def subs_def subs_ok_def
      split: option.splits prod.splits if_splits)

interpretation subscriptions: bounded_table
  "\<lambda>s (f, q, cb, c). mqtt_manager_subscribe f q cb c s" subs n "\<lambda>s. subs_ok s \<and> MAX_SUBSCRIPTIONS s = n"
proof (unfold_locales, goal_cases)
  case (1 s e)
  obtain f q cb c where e: "e = (f, q, cb, c)" by (cases e)
  show ?case
    using 1 subscribe_ok_cases [of s f q cb c] subscribe_err [of s f q cb c]
    by (cases "fst (mqtt_manager_subscribe f q cb c s) = ESP_OK")
      (auto simp: e subscribe_frame Let_def)
next
  case (2 s)
  then show ?case by (auto simp: subs_def subs_ok_def)
next
  case (3 s e)
  obtain f q cb c where e: "e = (f, q, cb, c)" by (cases e)
  show ?case
    using 3 subscribe_ok_cases [of s f q cb c] by (auto simp: e Let_def)
next
  case (4 s e)
  obtain f q cb c where e: "e = (f, q, cb, c)" by (cases e)
  show ?case using 4 subscribe_err [of s f q cb c] by (auto simp: e)
qed

section \<open>Events\<close>

text \<open>Everything that can happen to the manager between its start and its stop.\<close>

datatype happening =
    Client client_event
  | Net client_answers net_event_id_t
  | Sub cptr int "nat option" nat
  | Pub client_answers cptr string int bool bool

fun happen :: "happening \<Rightarrow> mqtt_t \<Rightarrow> mqtt_t" where
  "happen (Client e) s = (if s_client s then fst (mqtt_event_handler e s) else s)"
| "happen (Net a e) s = (if net_handler s then on_net_event a e s else s)"
| "happen (Sub f q cb c) s = snd (mqtt_manager_subscribe f q cb c s)"
| "happen (Pub a f d q r enq) s = snd (publish_common a f d q r enq s)"

definition happens :: "happening list \<Rightarrow> mqtt_t \<Rightarrow> mqtt_t" where
  "happens hs s = fold happen hs s"

text \<open>The two facts, as their sources last reported them.\<close>

fun last_session :: "happening list \<Rightarrow> bool \<Rightarrow> bool" where
  "last_session [] b = b"
| "last_session (h # hs) b = last_session hs
     (case h of Client Connected \<Rightarrow> True | Client Disconnected \<Rightarrow> False | _ \<Rightarrow> b)"

fun last_link :: "happening list \<Rightarrow> bool \<Rightarrow> bool" where
  "last_link [] b = b"
| "last_link (h # hs) b = last_link hs
     (case h of Net a NET_EVENT_LINK_UP \<Rightarrow> True | Net a NET_EVENT_LINK_DOWN \<Rightarrow> False | _ \<Rightarrow> b)"

lemma subscribe_all_frame:
  "s_client (subscribe_all xs s) = s_client s" "s_connected (subscribe_all xs s) = s_connected s"
  "s_link_up (subscribe_all xs s) = s_link_up s" "net_handler (subscribe_all xs s) = net_handler s"
  "s_subs (subscribe_all xs s) = s_subs s" "s_sub_count (subscribe_all xs s) = s_sub_count s"
  "MAX_SUBSCRIPTIONS (subscribe_all xs s) = MAX_SUBSCRIPTIONS s" "s_prefix (subscribe_all xs s) = s_prefix s"
  "ops (subscribe_all xs s) = ops s @ map (\<lambda>x. Subscribe (sub_filter x) (sub_qos x)) xs"
  by (induction xs arbitrary: s) (simp_all add: do_op_def)

lemma birth_frame:
  "s_client (publish_birth s) = s_client s" "s_connected (publish_birth s) = s_connected s"
  "s_link_up (publish_birth s) = s_link_up s" "net_handler (publish_birth s) = net_handler s"
  "s_subs (publish_birth s) = s_subs s" "s_sub_count (publish_birth s) = s_sub_count s"
  "MAX_SUBSCRIPTIONS (publish_birth s) = MAX_SUBSCRIPTIONS s" "s_prefix (publish_birth s) = s_prefix s"
  by (auto simp: publish_birth_def do_op_def split: option.splits)

lemma publish_frame:
  "s_client (snd (publish_common a f d q r e s)) = s_client s"
  "s_connected (snd (publish_common a f d q r e s)) = s_connected s"
  "s_link_up (snd (publish_common a f d q r e s)) = s_link_up s"
  "net_handler (snd (publish_common a f d q r e s)) = net_handler s"
  "s_subs (snd (publish_common a f d q r e s)) = s_subs s"
  "s_sub_count (snd (publish_common a f d q r e s)) = s_sub_count s"
  "MAX_SUBSCRIPTIONS (snd (publish_common a f d q r e s)) = MAX_SUBSCRIPTIONS s"
  by (auto simp: publish_common_def do_op_def Let_def split: option.splits prod.splits)

lemma net_frame:
  "s_client (on_net_event a e s) = s_client s" "s_connected (on_net_event a e s) = s_connected s"
  "net_handler (on_net_event a e s) = net_handler s"
  "s_subs (on_net_event a e s) = s_subs s" "s_sub_count (on_net_event a e s) = s_sub_count s"
  "MAX_SUBSCRIPTIONS (on_net_event a e s) = MAX_SUBSCRIPTIONS s"
  "s_link_up (on_net_event a e s) =
     (case e of NET_EVENT_LINK_UP \<Rightarrow> True | NET_EVENT_LINK_DOWN \<Rightarrow> False | _ \<Rightarrow> s_link_up s)"
  by (auto simp: on_net_event_def do_op_def Let_def split: net_event_id_t.splits)

lemma client_frame:
  "s_client (fst (mqtt_event_handler e s)) = s_client s"
  "s_link_up (fst (mqtt_event_handler e s)) = s_link_up s"
  "net_handler (fst (mqtt_event_handler e s)) = net_handler s"
  "s_subs (fst (mqtt_event_handler e s)) = s_subs s"
  "s_sub_count (fst (mqtt_event_handler e s)) = s_sub_count s"
  "MAX_SUBSCRIPTIONS (fst (mqtt_event_handler e s)) = MAX_SUBSCRIPTIONS s"
  "s_connected (fst (mqtt_event_handler e s)) =
     (case e of Connected \<Rightarrow> True | Disconnected \<Rightarrow> False | _ \<Rightarrow> s_connected s)"
  by (auto simp: mqtt_event_handler_def resubscribe_all_def subscribe_all_frame birth_frame
      split: client_event.splits)

lemmas mqtt_frames = subscribe_frame publish_frame net_frame client_frame

lemma happens_flags:
  "s_client s \<Longrightarrow> net_handler s \<Longrightarrow>
     s_client (happens hs s) \<and> net_handler (happens hs s)
     \<and> s_connected (happens hs s) = last_session hs (s_connected s)
     \<and> s_link_up (happens hs s) = last_link hs (s_link_up s)"
proof (induction hs arbitrary: s)
  case Nil
  then show ?case by (simp add: happens_def)
next
  case (Cons h hs)
  have "s_client (happen h s) \<and> net_handler (happen h s)
    \<and> s_connected (happen h s) = (case h of Client Connected \<Rightarrow> True | Client Disconnected \<Rightarrow> False | _ \<Rightarrow> s_connected s)
    \<and> s_link_up (happen h s) = (case h of Net a NET_EVENT_LINK_UP \<Rightarrow> True
          | Net a NET_EVENT_LINK_DOWN \<Rightarrow> False | _ \<Rightarrow> s_link_up s)"
    using Cons.prems
    by (cases h) (auto simp: mqtt_frames split: client_event.splits net_event_id_t.splits)
  with Cons.IH [of "happen h s"] show ?case by (simp add: happens_def)
qed

text \<open>C11. Being connected is exactly session and link. After a successful start, whatever client
  events, network events, subscriptions and publishes happen in whatever order,
  \<open>mqtt_manager_is_connected\<close> is true precisely when the client last reported a session and
  the network last reported a link; and a publish is answered \<open>ESP_ERR_INVALID_STATE\<close>, with
  nothing handed to the client, precisely when it is false. In particular a link that drops and
  returns while the session survives restores publishing.\<close>

theorem mqtt_connected_is_session_and_link:
  assumes "mqtt_manager_start a cfg dev s00 = (ESP_OK, s0)" "\<not> s_connected s00"
  shows "mqtt_manager_is_connected (happens hs s0)
      = (last_session hs False \<and> last_link hs (s_link_up s00))
    \<and> (publish_common b (Some suf) d q r enq (happens hs s0) = (ESP_ERR_INVALID_STATE, happens hs s0)
         \<longleftrightarrow> \<not> (last_session hs False \<and> last_link hs (s_link_up s00)))"
proof -
  have "s_client s0" "net_handler s0" "s_connected s0 = False" "s_link_up s0 = s_link_up s00"
    using assms
    by (auto simp: mqtt_manager_start_def Let_def do_op_def full_topic_def
        split: option.splits prod.splits if_splits)
  from happens_flags [OF this(1,2), of hs] this(3,4)
  have c: "mqtt_manager_is_connected (happens hs s0) = (last_session hs False \<and> last_link hs (s_link_up s00))"
    by (simp add: mqtt_manager_is_connected_def)
  have "(publish_common b (Some suf) d q r enq s = (ESP_ERR_INVALID_STATE, s))
      = (\<not> mqtt_manager_is_connected s)" for s
  proof (cases "mqtt_manager_is_connected s")
    case True
    then have "fst (publish_common b (Some suf) d q r enq s) \<noteq> ESP_ERR_INVALID_STATE"
      by (simp add: publish_common_def full_topic_def Let_def split_beta)
    with True show ?thesis by (metis fst_conv)
  qed (simp add: publish_common_def)
  with c show ?thesis by simp
qed


definition plain_config :: "mqtt_config" where
  "plain_config = \<lparr>uri = ''mqtt://broker'', client_id = [], username = [], password = [],
     topic_prefix = ''home'', lwt_suffix = ''state'', lwt_online = ''on'', lwt_offline = ''off'',
     lwt_qos = 1, keepalive_s = 60\<rparr>"

definition willing :: "client_answers" where
  "willing = \<lparr>a_init = True, a_register_event = ESP_OK, a_register_net = ESP_OK, a_start = ESP_OK,
     a_msg_id = (\<lambda>h x. 0)\<rparr>"

definition blank_sub :: "subscription_t" where
  "blank_sub = \<lparr>sub_filter = [], sub_qos = 0, sub_cb = 0, sub_ctx = 0\<rparr>"

definition boot_mqtt :: "mqtt_t" where
  "boot_mqtt = \<lparr>MAX_SUBSCRIPTIONS = 2, s_client = False, s_connected = False, s_running = False,
     s_link_up = False, s_cfg = None, s_prefix = [], s_lwt_topic = [],
     s_subs = [blank_sub, blank_sub], s_sub_count = 0, net_handler = False, ops = []\<rparr>"

definition started_mqtt :: "mqtt_t" where
  "started_mqtt = snd (mqtt_manager_start willing (Some plain_config) (Some ''dev'') boot_mqtt)"

lemma start_boot: "mqtt_manager_start willing (Some plain_config) (Some ''dev'') boot_mqtt = (ESP_OK, started_mqtt)"
  and started: "s_client started_mqtt" "net_handler started_mqtt" "s_prefix started_mqtt = ''home''"
    "subs started_mqtt = []" "subs_ok started_mqtt" "s_connected started_mqtt = False"
proof -
  have b: "mqtt_topic_build MAX_TOPIC (Some ''home'') (Some ''dev'') None = (True, ''home'')"
    "mqtt_topic_build MAX_TOPIC (Some ''home'') None (Some ''state'') = (True, ''home/state'')"
    "mqtt_topic_needs_device (Some ''home'') = False"
    by code_simp+
  then show "mqtt_manager_start willing (Some plain_config) (Some ''dev'') boot_mqtt = (ESP_OK, started_mqtt)"
    "s_client started_mqtt" "net_handler started_mqtt" "s_prefix started_mqtt = ''home''"
    "subs started_mqtt = []" "subs_ok started_mqtt" "s_connected started_mqtt = False"
    by (simp_all add: started_mqtt_def mqtt_manager_start_def plain_config_def willing_def boot_mqtt_def
        full_topic_def Let_def do_op_def subs_def subs_ok_def)
qed

theorem mqtt_connected_is_session_and_link_witness:
  "mqtt_manager_is_connected
     (happens [Net willing NET_EVENT_LINK_UP, Client Connected, Net willing NET_EVENT_LINK_DOWN,
               Net willing NET_EVENT_LINK_UP] started_mqtt)"
  using mqtt_connected_is_session_and_link [OF start_boot, of
      "[Net willing NET_EVENT_LINK_UP, Client Connected, Net willing NET_EVENT_LINK_DOWN,
        Net willing NET_EVENT_LINK_UP]"]
  by (simp add: boot_mqtt_def)

section \<open>What the broker has been asked for\<close>

text \<open>The subscriptions requested since the session last began.\<close>

definition new_requests :: "happening \<Rightarrow> mqtt_t \<Rightarrow> (string \<times> int) set" where
  "new_requests h s = {(f, q). Subscribe f q \<in> set (drop (length (ops s)) (ops (happen h s)))}"

fun session_subs :: "happening list \<Rightarrow> mqtt_t \<Rightarrow> (string \<times> int) set \<Rightarrow> (string \<times> int) set" where
  "session_subs [] s B = B"
| "session_subs (h # hs) s B =
     session_subs hs (happen h s) ((if h = Client Connected then {} else B) \<union> new_requests h s)"

text \<open>No subscription is accepted while the session is up and the link is down.\<close>

fun no_sub_in_gap :: "happening list \<Rightarrow> mqtt_t \<Rightarrow> bool" where
  "no_sub_in_gap [] s = True"
| "no_sub_in_gap (h # hs) s =
     ((case h of Sub f q cb c \<Rightarrow>
         \<not> (s_connected s \<and> \<not> s_link_up s \<and> fst (mqtt_manager_subscribe f q cb c s) = ESP_OK)
       | _ \<Rightarrow> True) \<and> no_sub_in_gap hs (happen h s))"

definition all_requested :: "(string \<times> int) set \<Rightarrow> mqtt_t \<Rightarrow> bool" where
  "all_requested B s \<longleftrightarrow> s_client s \<and> subs_ok s
     \<and> (s_connected s \<longrightarrow> (\<forall>x \<in> set (subs s). (sub_filter x, sub_qos x) \<in> B))"

lemma subs_cong: "s_subs t = s_subs s \<Longrightarrow> s_sub_count t = s_sub_count s \<Longrightarrow> subs t = subs s"
  by (simp add: subs_def)

lemma all_requested_same:
  assumes "all_requested B s" "s_client t = s_client s" "s_connected t \<Longrightarrow> s_connected s"
    and "s_subs t = s_subs s" "s_sub_count t = s_sub_count s"
    and "MAX_SUBSCRIPTIONS t = MAX_SUBSCRIPTIONS s"
  shows "all_requested (B \<union> C) t"
  using assms subs_cong [OF assms(4,5)] by (auto simp: all_requested_def subs_ok_def)

lemma connected_requests:
  "s_client s \<Longrightarrow> new_requests (Client Connected) s
     \<supseteq> {(sub_filter x, sub_qos x) |x. x \<in> set (subs s)}"
  by (auto simp: new_requests_def mqtt_event_handler_def resubscribe_all_def subscribe_all_frame
      publish_birth_def do_op_def subs_def split: option.splits)

lemma all_requested_step:
  assumes "all_requested B s" "no_sub_in_gap [h] s"
  shows "all_requested ((if h = Client Connected then {} else B) \<union> new_requests h s) (happen h s)"
proof (cases h)
  case (Client e)
  show ?thesis
  proof (cases "e = Connected")
    case True
    have cl: "s_client s" using assms(1) by (simp add: all_requested_def)
    have "subs (happen h s) = subs s" by (rule subs_cong) (simp_all add: Client mqtt_frames)
    with connected_requests [OF cl] assms(1) show ?thesis
      by (auto simp: all_requested_def Client True mqtt_frames subs_ok_def)
  next
    case False
    have "all_requested (B \<union> new_requests h s) (happen h s)"
      by (rule all_requested_same [OF assms(1)])
        (use False in \<open>auto simp: Client mqtt_frames split: if_splits client_event.splits\<close>)
    then show ?thesis using False Client by simp
  qed
next
  case (Net a e)
  have "all_requested (B \<union> new_requests h s) (happen h s)"
    by (rule all_requested_same [OF assms(1)]) (auto simp: Net mqtt_frames split: if_splits)
  then show ?thesis using Net by simp
next
  case (Sub f q cb c)
  show ?thesis
  proof (cases "fst (mqtt_manager_subscribe f q cb c s) = ESP_OK")
    case True
    have ok: "subs_ok s" using assms(1) by (simp add: all_requested_def)
    from subscribe_ok_cases [OF ok True] obtain suf x where x:
      "subs (happen h s) = subs s @ [x]" "subs_ok (happen h s)" "sub_qos x = q"
      "ops (happen h s) = (if mqtt_manager_is_connected s then ops s @ [Subscribe (sub_filter x) q] else ops s)"
      by (auto simp: Sub Let_def)
    have "mqtt_manager_is_connected s" if "s_connected s"
      using that assms True by (simp add: Sub mqtt_manager_is_connected_def all_requested_def)
    then have "s_connected s \<Longrightarrow> (sub_filter x, sub_qos x) \<in> new_requests h s"
      using x(3,4) by (simp add: new_requests_def)
    then show ?thesis
      using assms(1) x(1,2) by (auto simp: all_requested_def Sub mqtt_frames)
  next
    case False
    have ok: "subs_ok s" using assms(1) by (simp add: all_requested_def)
    from subscribe_err [OF ok False] assms(1) show ?thesis
      by (auto simp: all_requested_def Sub mqtt_frames)
  qed
next
  case (Pub a f d q r enq)
  have "all_requested (B \<union> new_requests h s) (happen h s)"
    by (rule all_requested_same [OF assms(1)]) (auto simp: Pub mqtt_frames)
  then show ?thesis using Pub by simp
qed

lemma all_requested_happens:
  "all_requested B s \<Longrightarrow> no_sub_in_gap hs s \<Longrightarrow> all_requested (session_subs hs s B) (happens hs s)"
proof (induction hs arbitrary: s B)
  case Nil
  then show ?case by (simp add: happens_def)
next
  case (Cons h hs)
  from all_requested_step [of B s h] Cons.prems Cons.IH [of _ "happen h s"]
  show ?case by (simp add: happens_def)
qed

text \<open>C12. Subscriptions survive reconnects. From a started manager without a session, whatever
  happens, as long as no subscription is accepted while the session is up and the link down:
  whenever the session is up, every registered filter has been requested from the broker, with
  its quality of service, since that session began, however often the session was lost and
  re-established before.\<close>

theorem mqtt_all_subscriptions_requested:
  assumes "s_client s0" "subs_ok s0" "\<not> s_connected s0" "no_sub_in_gap hs s0"
    and "s_connected (happens hs s0)" "x \<in> set (subs (happens hs s0))"
  shows "(sub_filter x, sub_qos x) \<in> session_subs hs s0 {}"
  using all_requested_happens [of "{}" s0 hs] assms by (auto simp: all_requested_def)

text \<open>A subscription made during a link flap is never sent. While the session is up, let the
  link drop, register a handler (accepted with \<open>ESP_OK\<close>), and let the link return with the
  session intact: the manager is connected, the handler is in the table, and the broker has not
  been asked for its filter, nor will it be before the next reconnect.\<close>

theorem mqtt_subscription_in_flap_not_sent:
  assumes "s_client s" "net_handler s" "s_connected s" "s_running s" "subs_ok s"
    and "fst (mqtt_manager_subscribe (Some suf) q (Some g) c s) = ESP_OK"
  shows "let hs = [Net a NET_EVENT_LINK_DOWN, Sub (Some suf) q (Some g) c, Net a NET_EVENT_LINK_UP];
             s' = happens hs s in
     mqtt_manager_is_connected s'
     \<and> subs s' = subs s @ [\<lparr>sub_filter = whole_topic (Some (s_prefix s)) None (Some suf), sub_qos = q,
                           sub_cb = g, sub_ctx = c\<rparr>]
     \<and> session_subs hs s {} = {}"
proof -
  let ?d = "s\<lparr>s_link_up := False\<rparr>"
  have down: "happen (Net a NET_EVENT_LINK_DOWN) s = ?d"
    using assms(2) by (simp add: on_net_event_def)
  have "fst (mqtt_manager_subscribe (Some suf) q (Some g) c ?d) = ESP_OK" "subs_ok ?d"
    using assms(5,6)
    by (auto simp: mqtt_manager_subscribe_def full_topic_def Let_def subs_ok_def split: prod.splits if_splits)
  from subscribe_ok_cases [OF this(2,1)]
  have sub: "subs (snd (mqtt_manager_subscribe (Some suf) q (Some g) c ?d)) = subs s
      @ [\<lparr>sub_filter = whole_topic (Some (s_prefix s)) None (Some suf), sub_qos = q, sub_cb = g, sub_ctx = c\<rparr>]"
    and ops: "ops (snd (mqtt_manager_subscribe (Some suf) q (Some g) c ?d)) = ops s"
    by (simp_all add: Let_def mqtt_manager_is_connected_def subs_def)
  let ?m = "snd (mqtt_manager_subscribe (Some suf) q (Some g) c ?d)"
  have m: "net_handler ?m" "s_client ?m" "s_running ?m" "s_connected ?m"
    using assms(1-4) by (simp_all add: subscribe_frame)
  then have up: "happen (Net a NET_EVENT_LINK_UP) ?m = ?m\<lparr>s_link_up := True\<rparr>"
    by (simp add: on_net_event_def Let_def)
  have "mqtt_manager_is_connected (?m\<lparr>s_link_up := True\<rparr>)" "subs (?m\<lparr>s_link_up := True\<rparr>) = subs ?m"
    using m by (simp_all add: mqtt_manager_is_connected_def subs_def)
  then show ?thesis
    using down up sub ops by (simp add: happens_def new_requests_def Let_def)
qed

definition online_mqtt :: "mqtt_t" where
  "online_mqtt = started_mqtt\<lparr>s_running := True, s_link_up := True, s_connected := True\<rparr>"

lemma online:
  "s_client online_mqtt" "net_handler online_mqtt" "s_connected online_mqtt" "s_running online_mqtt"
  "subs_ok online_mqtt" "s_prefix online_mqtt = ''home''" "subs online_mqtt = []"
  using started by (simp_all add: online_mqtt_def subs_ok_def subs_def)

lemma subscribe_cmd:
  assumes "subs_ok s" "s_prefix s = ''home''" "subs s = []" "MAX_SUBSCRIPTIONS s = 2"
  shows "fst (mqtt_manager_subscribe (Some ''cmd/+'') 1 (Some 7) 0 s) = ESP_OK"
    and "whole_topic (Some ''home'') None (Some ''cmd/+'') = ''home/cmd/+''"
proof -
  have b: "mqtt_topic_build MAX_TOPIC (Some ''home'') None (Some ''cmd/+'') = (True, ''home/cmd/+'')"
    by code_simp
  have "s_sub_count s = 0" using assms by (auto simp: subs_def subs_ok_def)
  with assms b show "fst (mqtt_manager_subscribe (Some ''cmd/+'') 1 (Some 7) 0 s) = ESP_OK"
    by (simp add: mqtt_manager_subscribe_def full_topic_def Let_def)
  show "whole_topic (Some ''home'') None (Some ''cmd/+'') = ''home/cmd/+''"
    using topics.build_text [of MAX_TOPIC "Some ''home''" None "Some ''cmd/+''"] b by simp
qed

lemma max_two: "MAX_SUBSCRIPTIONS started_mqtt = 2" "MAX_SUBSCRIPTIONS online_mqtt = 2"
  by (simp_all add: online_mqtt_def started_mqtt_def mqtt_manager_start_def plain_config_def boot_mqtt_def
      do_op_def Let_def full_topic_def split: prod.splits)

theorem mqtt_all_subscriptions_requested_witness:
  "(''home/cmd/+'', 1) \<in> session_subs [Sub (Some ''cmd/+'') 1 (Some 7) 0, Client Connected,
      Client Disconnected, Client Connected] started_mqtt {}"
proof -
  let ?hs = "[Sub (Some ''cmd/+'') 1 (Some 7) 0, Client Connected, Client Disconnected, Client Connected]"
  note cmd = subscribe_cmd [OF started(5,3,4) max_two(1)]
  let ?s = "snd (mqtt_manager_subscribe (Some ''cmd/+'') 1 (Some 7) 0 started_mqtt)"
  from subscribe_ok_cases [OF started(5) cmd(1)]
  have sub: "subs ?s = [\<lparr>sub_filter = ''home/cmd/+'', sub_qos = 1, sub_cb = 7, sub_ctx = 0\<rparr>]"
    by (simp add: Let_def started cmd)
  have "subs (happens ?hs started_mqtt) = subs ?s"
    by (rule subs_cong) (simp_all add: happens_def mqtt_frames)
  with sub have x: "\<lparr>sub_filter = ''home/cmd/+'', sub_qos = 1, sub_cb = 7, sub_ctx = 0\<rparr>
      \<in> set (subs (happens ?hs started_mqtt))" by simp
  have "s_connected (happens ?hs started_mqtt)" "no_sub_in_gap ?hs started_mqtt"
    using started by (simp_all add: happens_def mqtt_frames)
  from mqtt_all_subscriptions_requested [OF started(1,5) _ this(2,1) x] started(6) show ?thesis
    by simp
qed

theorem mqtt_subscription_in_flap_not_sent_witness:
  "session_subs [Net willing NET_EVENT_LINK_DOWN, Sub (Some ''cmd/+'') 1 (Some 7) 0,
      Net willing NET_EVENT_LINK_UP] online_mqtt {} = {}"
  using mqtt_subscription_in_flap_not_sent [OF online(1-5) subscribe_cmd(1) [OF online(5,6,7) max_two(2)],
      of willing]
  by (simp add: Let_def)

section \<open>Delivery\<close>

text \<open>Every handler whose filter matches is called, once. Registering a handler adds to the
  deliveries of a message on a (proper) topic exactly one call of that handler, after the earlier
  ones, if the topic matches prefix and suffix by the wildcard rules of the MQTT specification,
  and none otherwise; no registered handler hides another.\<close>

theorem mqtt_dispatch_by_wildcard_rule:
  assumes "subs_ok s" "mqtt_manager_subscribe (Some suf) q (Some g) c s = (ESP_OK, s')" "proper_topic t"
  shows "dispatch s' (Some t) data = dispatch s (Some t) data
      @ (if wildcard_rule (whole_topic (Some (s_prefix s)) None (Some suf)) t
         then [(g, c, Some t, data)] else [])"
  using subscribe_ok_cases [OF assms(1), of "Some suf" q "Some g" c] assms(2)
  by (auto simp: dispatch_def Let_def topics.matching_handlers [OF assms(3)] topics.matches_rule [OF assms(3)])

theorem mqtt_dispatch_by_wildcard_rule_witness:
  "dispatch (snd (mqtt_manager_subscribe (Some ''cmd/+'') 1 (Some 7) 0 started_mqtt))
     (Some ''home/cmd/lamp'') ''on'' = [(7, 0, Some ''home/cmd/lamp'', ''on'')]"
proof -
  note cmd = subscribe_cmd [OF started(5,3,4) max_two(1)]
  have r: "mqtt_manager_subscribe (Some ''cmd/+'') 1 (Some 7) 0 started_mqtt
      = (ESP_OK, snd (mqtt_manager_subscribe (Some ''cmd/+'') 1 (Some 7) 0 started_mqtt))"
    using cmd(1) by (simp add: prod_eq_iff)
  have "proper_topic ''home/cmd/lamp''" by (simp add: proper_topic_def)
  from mqtt_dispatch_by_wildcard_rule [OF started(5) r this, of "''on''"] show ?thesis
    by (simp add: started cmd wildcard_rule_def dispatch_def plain_level_def)
qed

text \<open>Two edges of the start. A handler registered before the first start is filed under its
  suffix alone, for the prefix is still empty; and a link that is already up when the manager is
  first started is not known to it, so the client is not started until the link comes up again.\<close>

lemma mqtt_subscribe_before_start:
  assumes "subs_ok s" "s_prefix s = []" "mqtt_manager_subscribe (Some suf) q (Some g) c s = (ESP_OK, s')"
  shows "sub_filter (last (subs s')) = whole_topic (Some []) None (Some suf)"
  using subscribe_ok_cases [OF assms(1), of "Some suf" q "Some g" c] assms(2,3)
  by (auto simp: Let_def)

lemma mqtt_link_before_start_unseen:
  "\<not> net_handler s \<Longrightarrow> s_link_up (happens [Net a NET_EVENT_LINK_UP] s) = s_link_up s"
  by (simp add: happens_def)

text \<open>The link flag is the service the network events drive.\<close>

interpretation mqtt_link: link_service "on_net_event a" "\<lambda>s. True" s_link_up "{NET_EVENT_LINK_UP}" "{NET_EVENT_LINK_DOWN}"
  by unfold_locales (auto simp: on_net_event_def do_op_def Let_def split: net_event_id_t.splits)

end
