(* ===== verification/Mqtt_Log_Sink.thy ===== *)
theory Mqtt_Log_Sink
  imports Mqtt_Manager Diag
begin

text \<open>
  The log sink of \<open>mqtt_manager/src/mqtt_log_sink.c\<close>, which joins the output fan-out to
  the MQTT client: a line may make the client log further lines on the same task, which come back
  to the sink.
\<close>

record log_sink_t =
  MAX_SUFFIX :: nat
  s_suffix :: string
  s_qos :: int
  s_started :: bool
  s_dropped :: "32 word"
  s_in_sink :: "nat option"

text \<open>The address of the sink function.\<close>

definition SINK :: nat where "SINK = 1"

definition mqtt_log_sink_start ::
  "cptr \<Rightarrow> int \<Rightarrow> log_sink_t \<times> diag_t \<Rightarrow> esp_err_t \<times> log_sink_t \<times> diag_t" where
  "mqtt_log_sink_start topic_suffix qos x = (case x of (l, d) \<Rightarrow>
     (case topic_suffix of None \<Rightarrow> (ESP_ERR_INVALID_ARG, l, d)
      | Some suf \<Rightarrow>
        if suf = [] \<or> qos < 0 \<or> qos > 2 then (ESP_ERR_INVALID_ARG, l, d)
        else if s_started l then (ESP_ERR_INVALID_STATE, l, d)
        else if length suf \<ge> MAX_SUFFIX l then (ESP_ERR_INVALID_SIZE, l, d)
        else
          let l = l\<lparr>s_suffix := strncpy_term (MAX_SUFFIX l) suf, s_qos := qos\<rparr>;
              (err, d) = diag_sink_register (Some SINK) 0 d in
          if err \<noteq> ESP_OK then (err, l, d) else (ESP_OK, l\<lparr>s_started := True\<rparr>, d)))"

definition mqtt_log_sink_stop :: "log_sink_t \<times> diag_t \<Rightarrow> esp_err_t \<times> log_sink_t \<times> diag_t" where
  "mqtt_log_sink_stop x = (case x of (l, d) \<Rightarrow>
     if \<not> s_started l then (ESP_ERR_INVALID_STATE, l, d)
     else let l = l\<lparr>s_started := False\<rparr>; (err, d) = diag_sink_unregister (Some SINK) 0 d in (err, l, d))"

definition mqtt_log_sink_dropped :: "log_sink_t \<Rightarrow> 32 word" where
  "mqtt_log_sink_dropped l = s_dropped l"

text \<open>A line of output and the lines that handing it to the client makes the same task log.\<close>

datatype line = Line string "line list"

fun log_sink :: "client_answers \<Rightarrow> nat \<Rightarrow> line \<Rightarrow> log_sink_t \<times> mqtt_t \<Rightarrow> log_sink_t \<times> mqtt_t" where
  "log_sink a self (Line txt nested) x = (case x of (l, m) \<Rightarrow>
     if \<not> s_started l \<or> length txt = 0 then (l, m)
     else if s_in_sink l = Some self then (l\<lparr>s_dropped := s_dropped l + 1\<rparr>, m)
     else if \<not> mqtt_manager_is_connected m then (l\<lparr>s_dropped := s_dropped l + 1\<rparr>, m)
     else
       let (l, m) = fold (log_sink a self) nested (l\<lparr>s_in_sink := Some self\<rparr>, m);
           (err, m) = mqtt_manager_enqueue a (Some (s_suffix l)) txt (s_qos l) False m;
           l = (if err \<noteq> ESP_OK then l\<lparr>s_dropped := s_dropped l + 1\<rparr> else l) in
       (l\<lparr>s_in_sink := None\<rparr>, m))"

fun nonempty :: "line \<Rightarrow> bool" where
  "nonempty (Line txt nested) = (txt \<noteq> [])"

lemma log_sink_guarded:
  "s_in_sink l = Some self \<Longrightarrow> s_started l \<Longrightarrow>
   log_sink a self x (l, m) = (if nonempty x then l\<lparr>s_dropped := s_dropped l + 1\<rparr> else l, m)"
  by (cases x) simp

lemma log_sink_guarded_fold:
  "s_in_sink l = Some self \<Longrightarrow> s_started l \<Longrightarrow>
   fold (log_sink a self) xs (l, m) =
     (l\<lparr>s_dropped := s_dropped l + of_nat (length (filter nonempty xs))\<rparr>, m)"
  by (induction xs arbitrary: l) (simp_all add: log_sink_guarded algebra_simps)

text \<open>Logging never feeds on itself: whatever the client logs while it takes a line is counted
  as dropped and goes no further, so one line makes at most one call of the client.\<close>

lemma log_sink_one_call:
  assumes "s_in_sink l = None" "log_sink a self (Line txt nested) (l, m) = (l', m')"
  shows "\<exists>new. ops m' = ops m @ new \<and> length new \<le> 1 \<and> s_in_sink l' = None"
  using assms
  by (auto simp: log_sink_guarded_fold mqtt_manager_enqueue_def publish_common_def full_topic_def
      do_op_def Let_def split: prod.splits if_splits)

lemma log_sink_accounting:
  assumes "s_in_sink l = None" "s_started l" "txt \<noteq> []" "mqtt_manager_is_connected m"
    and "log_sink a self (Line txt nested) (l, m) = (l', m')"
  shows "s_dropped l' = s_dropped l + of_nat (length (filter nonempty nested))
    + (if fst (mqtt_manager_enqueue a (Some (s_suffix l)) txt (s_qos l) False m) = ESP_OK then 0 else 1)"
  using assms by (auto simp: log_sink_guarded_fold Let_def split: prod.splits if_splits)

end
