(* ===== verification/Http_Server.thy ===== *)
theory Http_Server
  imports Http_Auth Net_Events
begin

text \<open>
  The management server of \<open>http_server/src/http_server.c\<close>: its route table, starting,
  listening and stopping, and the trampoline every request goes through. The platform's httpd is
  a parameter: what it answers is given, and the entries registered with it are recorded.
\<close>

section \<open>What the server relies on\<close>

locale credentials =
  fixes expected :: "cptr \<Rightarrow> cptr \<Rightarrow> nat \<Rightarrow> string \<Rightarrow> bool \<times> string"
    and matches :: "cptr \<Rightarrow> cptr \<Rightarrow> bool"
    and header_of :: "string \<Rightarrow> string \<Rightarrow> string"
  assumes expected_text: "fst (expected (Some u) (Some p) n old) \<Longrightarrow>
      snd (expected (Some u) (Some p) n old) = header_of u p"
    and matches_exact: "matches (Some h) (Some e) \<longleftrightarrow> h = e"
begin

lemma accepts_only_own:
  "fst (expected (Some u) (Some p) n old) \<Longrightarrow>
     matches (Some h) (Some (snd (expected (Some u) (Some p) n old))) \<longleftrightarrow> h = header_of u p"
  by (simp add: expected_text matches_exact)

end

definition basic_header :: "string \<Rightarrow> string \<Rightarrow> string" where
  "basic_header u p = BASIC_PREFIX @ b64_groups (u @ '':'' @ p)"

interpretation basic: credentials http_auth_expected_header http_auth_header_matches basic_header
proof (unfold_locales, goal_cases)
  case (1 u p n old)
  from http_auth_expected_header_ok [OF 1] show ?case by (simp add: basic_header_def)
next
  case (2 h e)
  show ?case by (rule http_auth_header_matches_iff)
qed

section \<open>State\<close>

record http_server_config =
  port :: nat
  require_auth :: bool
  username :: string
  password :: string
  realm :: string
  max_open_sockets :: nat

record http_route =
  r_uri :: cptr
  r_method :: nat
  r_handler :: "nat option"
  r_ctx :: nat
  r_auth :: bool

text \<open>\<open>s_server\<close>: the handle is set. \<open>registered\<close>: the table entries the running httpd
  knows, in order of registration; every one with the trampoline as its handler.\<close>

record http_t =
  MAX_ROUTES :: nat
  s_server :: bool
  s_cfg :: http_server_config
  s_configured :: bool
  s_routes :: "http_route list"
  s_route_count :: nat
  s_expected_auth :: string
  net_registered :: bool
  registered :: "nat list"

record httpd_answers =
  h_start :: esp_err_t
  h_register :: "nat \<Rightarrow> esp_err_t"
  h_net :: esp_err_t

definition http_server_is_running :: "http_t \<Rightarrow> bool" where
  "http_server_is_running s = s_server s"

section \<open>Routes\<close>

definition register_route :: "httpd_answers \<Rightarrow> nat \<Rightarrow> http_t \<Rightarrow> http_t" where
  "register_route a i s = (if h_register a i = ESP_OK then s\<lparr>registered := registered s @ [i]\<rparr> else s)"

fun add_loop :: "httpd_answers \<Rightarrow> http_route list \<Rightarrow> http_t \<Rightarrow> esp_err_t \<times> http_t" where
  "add_loop a [] s = (ESP_OK, s)"
| "add_loop a (r # rs) s =
     (if r_uri r = None \<or> r_handler r = None then (ESP_ERR_INVALID_ARG, s)
      else
        let i = s_route_count s;
            s = s\<lparr>s_routes := (s_routes s)[i := r], s_route_count := i + 1\<rparr>;
            s = (if s_server s then register_route a i s else s) in
        add_loop a rs s)"

definition http_server_add_routes ::
  "httpd_answers \<Rightarrow> http_route list option \<Rightarrow> nat \<Rightarrow> http_t \<Rightarrow> esp_err_t \<times> http_t" where
  "http_server_add_routes a routes count s =
    (if routes = None \<and> count \<noteq> 0 then (ESP_ERR_INVALID_ARG, s)
     else if s_route_count s + count > MAX_ROUTES s then (ESP_ERR_NO_MEM, s)
     else add_loop a (case routes of None \<Rightarrow> [] | Some rs \<Rightarrow> take count rs) s)"

section \<open>Listening\<close>

text \<open>The loop over the table after \<open>httpd_start\<close>, from entry \<open>i\<close>.\<close>

function register_from :: "httpd_answers \<Rightarrow> nat \<Rightarrow> http_t \<Rightarrow> http_t" where
  "register_from a i s =
    (if i < s_route_count s then register_from a (i + 1) (register_route a i s) else s)"
  by pat_completeness auto
termination
  by (relation "measure (\<lambda>(a, i, s). s_route_count s - i)") (auto simp: register_route_def)

declare register_from.simps [simp del]

definition start_listening :: "httpd_answers \<Rightarrow> http_t \<Rightarrow> esp_err_t \<times> http_t" where
  "start_listening a s =
    (if s_server s then (ESP_OK, s)
     else if h_start a \<noteq> ESP_OK then (h_start a, s)
     else (ESP_OK, register_from a 0 (s\<lparr>s_server := True, registered := []\<rparr>)))"

definition on_net_event :: "httpd_answers \<Rightarrow> net_event_id_t \<Rightarrow> http_t \<Rightarrow> http_t" where
  "on_net_event a e s =
    (case e of NET_EVENT_LINK_UP \<Rightarrow> snd (start_listening a s)
     | NET_EVENT_AP_STARTED \<Rightarrow> snd (start_listening a s)
     | _ \<Rightarrow> s)"

definition http_server_start :: "httpd_answers \<Rightarrow> http_server_config option \<Rightarrow> http_t \<Rightarrow> esp_err_t \<times> http_t" where
  "http_server_start a cfg s =
    (case cfg of None \<Rightarrow> (ESP_ERR_INVALID_ARG, s)
     | Some c \<Rightarrow>
       if s_configured s then (ESP_ERR_INVALID_STATE, s)
       else
         let s = s\<lparr>s_cfg := c\<rparr>;
             listen = (\<lambda>s. if h_net a \<noteq> ESP_OK then (h_net a, s)
                           else start_listening a (s\<lparr>net_registered := True, s_configured := True\<rparr>)) in
         if require_auth c then
           if password c = [] then (HTTP_SERVER_ERR_NO_PASSWORD, s)
           else
             let (ok, hdr) = http_auth_expected_header (Some (username c)) (Some (password c)) 160
                               (s_expected_auth s);
                 s = s\<lparr>s_expected_auth := hdr\<rparr> in
             if \<not> ok then (ESP_ERR_INVALID_SIZE, s) else listen s
         else listen s)"

definition http_server_stop :: "http_t \<Rightarrow> esp_err_t \<times> http_t" where
  "http_server_stop s =
    (if \<not> s_configured s then (ESP_ERR_INVALID_STATE, s)
     else
       let s = s\<lparr>net_registered := False\<rparr>;
           s = (if s_server s then s\<lparr>s_server := False, registered := []\<rparr> else s) in
       (ESP_OK, s\<lparr>s_expected_auth := [], s_configured := False\<rparr>))"

section \<open>Requests\<close>

text \<open>\<open>q_auth\<close>: what \<open>httpd_req_get_hdr_value_str\<close> answers for the Authorization header,
  with the buffer of 192 bytes it is given.\<close>

record request =
  q_auth :: "esp_err_t \<times> string"

datatype http_act = Challenge string | Call nat

definition send_challenge :: "http_t \<Rightarrow> http_act" where
  "send_challenge s = Challenge (snd (snprintf 96 (''Basic realm='' @ [CHR 0x22] @ realm (s_cfg s) @ [CHR 0x22])))"

definition http_server_check_auth :: "http_t \<Rightarrow> request \<Rightarrow> bool \<times> http_act list" where
  "http_server_check_auth s q =
    (if \<not> require_auth (s_cfg s) then (True, [])
     else if fst (q_auth q) \<noteq> ESP_OK then (False, [send_challenge s])
     else if \<not> http_auth_header_matches (Some (snd (q_auth q))) (Some (s_expected_auth s))
     then (False, [send_challenge s])
     else (True, []))"

definition http_server_route_ctx :: "http_t \<Rightarrow> nat option \<Rightarrow> nat option" where
  "http_server_route_ctx s entry = (case entry of None \<Rightarrow> None | Some i \<Rightarrow> Some (r_ctx (s_routes s ! i)))"

text \<open>\<open>entry\<close> is the request's user context, \<open>handle\<close> what the handlers answer.\<close>

definition trampoline ::
  "(nat \<Rightarrow> request \<Rightarrow> esp_err_t) \<Rightarrow> http_t \<Rightarrow> nat option \<Rightarrow> request \<Rightarrow> esp_err_t \<times> http_act list" where
  "trampoline handle s entry q =
    (case entry of None \<Rightarrow> (ESP_FAIL, [])
     | Some i \<Rightarrow>
       (case r_handler (s_routes s ! i) of None \<Rightarrow> (ESP_FAIL, [])
        | Some h \<Rightarrow>
          if r_auth (s_routes s ! i) then
            (let (ok, acts) = http_server_check_auth s q in
             if \<not> ok then (ESP_OK, acts) else (handle h q, acts @ [Call h]))
          else (handle h q, [Call h])))"

section \<open>Any history\<close>

datatype http_op =
    AddRoutes httpd_answers "http_route list option" nat
  | Start httpd_answers "http_server_config option"
  | StopServer
  | NetEvent httpd_answers net_event_id_t

fun http_do :: "http_op \<Rightarrow> http_t \<Rightarrow> http_t" where
  "http_do (AddRoutes a rs n) s = snd (http_server_add_routes a rs n s)"
| "http_do (Start a c) s = snd (http_server_start a c s)"
| "http_do StopServer s = snd (http_server_stop s)"
| "http_do (NetEvent a e) s = (if net_registered s then on_net_event a e s else s)"

definition http_inv :: "http_t \<Rightarrow> bool" where
  "http_inv s \<longleftrightarrow>
     length (s_routes s) = MAX_ROUTES s \<and> s_route_count s \<le> MAX_ROUTES s
     \<and> (\<forall>i < s_route_count s. r_uri (s_routes s ! i) \<noteq> None \<and> r_handler (s_routes s ! i) \<noteq> None)
     \<and> (s_server s \<longrightarrow> s_configured s) \<and> (net_registered s \<longleftrightarrow> s_configured s)
     \<and> (s_configured s \<longrightarrow> require_auth (s_cfg s) \<longrightarrow>
          password (s_cfg s) \<noteq> [] \<and> s_expected_auth s = basic_header (username (s_cfg s)) (password (s_cfg s)))
     \<and> (\<forall>i \<in> set (registered s). i < s_route_count s) \<and> (\<not> s_server s \<longrightarrow> registered s = [])"

lemma register_route_frame [simp]:
  "s_route_count (register_route a i s) = s_route_count s" "s_routes (register_route a i s) = s_routes s"
  "MAX_ROUTES (register_route a i s) = MAX_ROUTES s" "s_server (register_route a i s) = s_server s"
  "s_configured (register_route a i s) = s_configured s" "s_cfg (register_route a i s) = s_cfg s"
  "s_expected_auth (register_route a i s) = s_expected_auth s"
  "net_registered (register_route a i s) = net_registered s"
  "set (registered (register_route a i s)) \<subseteq> insert i (set (registered s))"
  by (auto simp: register_route_def)

lemma register_route_inv:
  "http_inv s \<Longrightarrow> s_server s \<Longrightarrow> i < s_route_count s \<Longrightarrow> http_inv (register_route a i s)"
  by (auto simp: http_inv_def register_route_def)

lemma register_from_inv:
  "http_inv s \<Longrightarrow> s_server s \<Longrightarrow> http_inv (register_from a i s)"
proof (induction a i s rule: register_from.induct)
  case (1 a i s)
  then show ?case
    by (simp add: register_from.simps [of a i s] register_route_inv)
qed

lemma start_listening_inv:
  "http_inv s \<Longrightarrow> s_configured s \<Longrightarrow> http_inv (snd (start_listening a s))"
proof -
  assume "http_inv s" "s_configured s"
  then have "http_inv (s\<lparr>s_server := True, registered := []\<rparr>)" by (simp add: http_inv_def)
  with register_from_inv [OF this] \<open>http_inv s\<close> show ?thesis by (simp add: start_listening_def)
qed

lemma add_route_inv:
  assumes "http_inv s" "s_route_count s < MAX_ROUTES s" "r_uri r \<noteq> None" "r_handler r \<noteq> None"
  shows "http_inv (s\<lparr>s_routes := (s_routes s)[s_route_count s := r], s_route_count := s_route_count s + 1\<rparr>)"
  using assms by (auto simp: http_inv_def nth_list_update less_Suc_eq)

lemma add_loop_inv:
  "http_inv s \<Longrightarrow> s_route_count s + length rs \<le> MAX_ROUTES s \<Longrightarrow> http_inv (snd (add_loop a rs s))"
proof (induction rs arbitrary: s)
  case (Cons r rs)
  let ?s = "s\<lparr>s_routes := (s_routes s)[s_route_count s := r], s_route_count := s_route_count s + 1\<rparr>"
  show ?case
  proof (cases "r_uri r = None \<or> r_handler r = None")
    case False
    then have "http_inv ?s" using add_route_inv Cons.prems by simp
    moreover have "http_inv (register_route a (s_route_count s) ?s)" if "s_server s"
      using register_route_inv [OF calculation] that by simp
    ultimately show ?thesis
      using Cons.IH [of ?s] Cons.IH [of "register_route a (s_route_count s) ?s"] Cons.prems False
      by (simp add: Let_def)
  qed (use Cons.prems in simp)
qed simp

lemma start_inv: "http_inv s \<Longrightarrow> http_inv (snd (http_server_start a c s))"
proof (cases c)
  case (Some cfg)
  assume inv: "http_inv s"
  show ?thesis
  proof (cases "s_configured s")
    case True
    with inv Some show ?thesis by (simp add: http_server_start_def)
  next
    case False
    let ?e = "http_auth_expected_header (Some (username cfg)) (Some (password cfg)) 160 (s_expected_auth s)"
    let ?s = "s\<lparr>s_cfg := cfg, s_expected_auth := h\<rparr>"
    have off: "http_inv (s\<lparr>s_cfg := cfg\<rparr>)" "http_inv (s\<lparr>s_cfg := cfg, s_expected_auth := h\<rparr>)" for h
      using inv False by (simp_all add: http_inv_def)
    have on1: "http_inv (snd (start_listening a (s\<lparr>s_cfg := cfg, net_registered := True, s_configured := True\<rparr>)))"
      if "\<not> require_auth cfg"
      using inv False that by (intro start_listening_inv) (simp_all add: http_inv_def)
    have on2: "http_inv (snd (start_listening a (s\<lparr>s_cfg := cfg, s_expected_auth := snd ?e,
        net_registered := True, s_configured := True\<rparr>)))" if "password cfg \<noteq> []" "fst ?e"
      using inv False that basic.expected_text [OF that(2)]
      by (intro start_listening_inv) (simp_all add: http_inv_def)
    show ?thesis
      using off on1 on2 False Some by (simp add: http_server_start_def Let_def split_beta)
  qed
qed (simp add: http_server_start_def)

lemma http_do_inv: "http_inv s \<Longrightarrow> http_inv (http_do x s)"
proof (cases x)
  case (AddRoutes a rs n)
  assume inv: "http_inv s"
  show ?thesis
    using inv by (auto simp: AddRoutes http_server_add_routes_def intro!: add_loop_inv split: option.split)
next
  case (Start a c)
  assume "http_inv s"
  then show ?thesis by (simp add: Start start_inv)
next
  case StopServer
  assume "http_inv s"
  then show ?thesis by (auto simp: StopServer http_server_stop_def http_inv_def Let_def)
next
  case (NetEvent a e)
  assume inv: "http_inv s"
  then show ?thesis
    by (auto simp: NetEvent on_net_event_def http_inv_def [of s] intro!: start_listening_inv split: net_event_id_t.split)
qed

lemma http_run_inv: "http_inv s \<Longrightarrow> http_inv (fold http_do xs s)"
  by (induction xs arbitrary: s) (simp_all add: http_do_inv)

definition http_boot :: "http_t \<Rightarrow> bool" where
  "http_boot s \<longleftrightarrow> \<not> s_server s \<and> \<not> s_configured s \<and> s_route_count s = 0 \<and> \<not> net_registered s
     \<and> registered s = [] \<and> length (s_routes s) = MAX_ROUTES s"

text \<open>C13. No protected route answers without the password. Whatever routes were added, in whatever
  order with starts, failed starts, stops and network events: on a listening server whose
  configuration demands credentials, the password is not empty, and a request to a protected route
  in the table reaches the route's handler exactly when its Authorization header is the encoding
  of the configured user name and password; otherwise it gets the challenge and nothing else.\<close>

theorem http_protected_route_needs_password:
  assumes "http_boot s0" "s = fold http_do xs s0" "s_server s" "i < s_route_count s"
    and "r_auth (s_routes s ! i)" "require_auth (s_cfg s)" "r_handler (s_routes s ! i) = Some h"
  shows "password (s_cfg s) \<noteq> []
    \<and> trampoline handle s (Some i) q =
        (if q_auth q = (ESP_OK, basic_header (username (s_cfg s)) (password (s_cfg s)))
         then (handle h q, [Call h]) else (ESP_OK, [send_challenge s]))"
proof -
  have "http_inv s0" using assms(1) by (simp add: http_boot_def http_inv_def)
  then have inv: "http_inv s" using http_run_inv assms(2) by blast
  then have "password (s_cfg s) \<noteq> []"
    "s_expected_auth s = basic_header (username (s_cfg s)) (password (s_cfg s))"
    using assms(3,6) by (simp_all add: http_inv_def)
  then show ?thesis
    using assms(5,6,7)
    by (cases "q_auth q")
      (simp add: trampoline_def http_server_check_auth_def basic.matches_exact)
qed


definition open_config :: "http_server_config" where
  "open_config = \<lparr>port = 80, require_auth = True, username = ''admin'', password = ''pw'',
     realm = ''Device'', max_open_sockets = 7\<rparr>"

definition httpd_fine :: "httpd_answers" where
  "httpd_fine = \<lparr>h_start = ESP_OK, h_register = (\<lambda>i. ESP_OK), h_net = ESP_OK\<rparr>"

definition flash_route :: "http_route" where
  "flash_route = \<lparr>r_uri = Some ''/ota'', r_method = 3, r_handler = Some 9, r_ctx = 0, r_auth = True\<rparr>"

definition cold_http :: "http_t" where
  "cold_http = \<lparr>MAX_ROUTES = 2, s_server = False, s_cfg = open_config, s_configured = False,
     s_routes = [flash_route, flash_route], s_route_count = 0, s_expected_auth = [],
     net_registered = False, registered = []\<rparr>"

definition served_http :: "http_t" where
  "served_http = fold http_do [AddRoutes httpd_fine (Some [flash_route]) 1, Start httpd_fine (Some open_config)] cold_http"

lemma served: "http_boot cold_http" "s_server served_http" "s_route_count served_http = 1"
  "s_routes served_http ! 0 = flash_route" "s_cfg served_http = open_config" "registered served_http = [0]"
proof -
  have e: "fst (http_auth_expected_header (Some ''admin'') (Some ''pw'') 160 [])"
    by (simp add: http_auth_expected_header_iff length_b64_groups BASIC_PREFIX_def del: b64_groups.simps)
  show "http_boot cold_http" by (simp add: http_boot_def cold_http_def)
  show "s_server served_http" "s_route_count served_http = 1" "s_routes served_http ! 0 = flash_route"
    "s_cfg served_http = open_config" "registered served_http = [0]"
    using e
    by (simp_all add: served_http_def cold_http_def http_server_add_routes_def httpd_fine_def flash_route_def
        http_server_start_def open_config_def start_listening_def register_from.simps register_route_def
        Let_def split_beta)
qed

theorem http_protected_route_needs_password_witness:
  "trampoline (\<lambda>h q. ESP_OK) served_http (Some 0) \<lparr>q_auth = (ESP_ERR_NOT_FOUND, [])\<rparr>
     = (ESP_OK, [send_challenge served_http])"
  using http_protected_route_needs_password [OF served(1) served_http_def served(2), of 0 9 "\<lambda>h q. ESP_OK"
      "\<lparr>q_auth = (ESP_ERR_NOT_FOUND, [])\<rparr>"] served
  by (simp add: flash_route_def open_config_def)

section \<open>Every route is served\<close>

fun answers_of :: "http_op \<Rightarrow> httpd_answers option" where
  "answers_of (AddRoutes a rs n) = Some a"
| "answers_of (Start a c) = Some a"
| "answers_of StopServer = None"
| "answers_of (NetEvent a e) = Some a"

definition registers_all :: "http_op \<Rightarrow> bool" where
  "registers_all x \<longleftrightarrow> (case answers_of x of None \<Rightarrow> True | Some a \<Rightarrow> \<forall>i. h_register a i = ESP_OK)"

definition all_served :: "http_t \<Rightarrow> bool" where
  "all_served s \<longleftrightarrow> (s_server s \<longrightarrow> registered s = [0..<s_route_count s])"

lemma register_from_all:
  assumes "\<forall>i. h_register a i = ESP_OK"
  shows "registered (register_from a i s) = registered s @ [i..<s_route_count s]
    \<and> s_route_count (register_from a i s) = s_route_count s"
  using assms
proof (induction a i s rule: register_from.induct)
  case (1 a i s)
  show ?case
  proof (cases "i < s_route_count s")
    case True
    with 1 show ?thesis
      by (simp add: register_from.simps [of a i s] register_route_def upt_conv_Cons)
  next
    case False
    then show ?thesis by (simp add: register_from.simps [of a i s])
  qed
qed

lemma start_listening_all:
  "\<forall>i. h_register a i = ESP_OK \<Longrightarrow> all_served s \<Longrightarrow> all_served (snd (start_listening a s))"
  by (simp add: start_listening_def all_served_def register_from_all)

lemma add_loop_all:
  "\<forall>i. h_register a i = ESP_OK \<Longrightarrow> all_served s \<Longrightarrow> all_served (snd (add_loop a rs s))"
proof (induction rs arbitrary: s)
  case (Cons r rs)
  let ?s = "s\<lparr>s_routes := (s_routes s)[s_route_count s := r], s_route_count := s_route_count s + 1\<rparr>"
  have "all_served (if s_server s then register_route a (s_route_count s) ?s else ?s)"
    using Cons.prems by (simp add: all_served_def register_route_def)
  from Cons.IH [OF Cons.prems(1) this] Cons.prems(2) show ?case
    by (cases "s_server s") (simp_all add: Let_def)
qed simp

lemma http_do_all: "registers_all x \<Longrightarrow> all_served s \<Longrightarrow> all_served (http_do x s)"
proof (cases x)
  case (AddRoutes a rs n)
  assume "registers_all x" "all_served s"
  then show ?thesis
    using add_loop_all by (simp add: AddRoutes registers_all_def http_server_add_routes_def)
next
  case (Start a c)
  assume *: "registers_all x" "all_served s"
  have "all_served (s\<lparr>s_cfg := k\<rparr>)" "all_served (s\<lparr>s_cfg := k, s_expected_auth := h\<rparr>)"
    "all_served (s\<lparr>s_cfg := k, net_registered := True, s_configured := True\<rparr>)"
    "all_served (s\<lparr>s_cfg := k, s_expected_auth := h, net_registered := True, s_configured := True\<rparr>)" for k h
    using * by (simp_all add: all_served_def)
  then show ?thesis
    using * by (simp add: Start registers_all_def http_server_start_def start_listening_all Let_def split_beta
        split: option.split)
next
  case StopServer
  assume "all_served s"
  then show ?thesis by (simp add: StopServer http_server_stop_def all_served_def Let_def)
next
  case (NetEvent a e)
  assume "registers_all x" "all_served s"
  then show ?thesis
    by (simp add: NetEvent registers_all_def on_net_event_def start_listening_all split: net_event_id_t.split)
qed

text \<open>Routes may come before or after the start. As long as httpd accepts what is registered
  with it, a listening server has registered every route of its table, once and in table order,
  whatever the order of additions, starts, stops and network events; and a table entry is never
  without a path and a handler.\<close>

theorem http_every_route_registered:
  assumes "http_boot s0" "\<forall>x \<in> set xs. registers_all x" "s = fold http_do xs s0" "s_server s"
  shows "registered s = [0..<s_route_count s] \<and> s_route_count s \<le> MAX_ROUTES s
    \<and> (\<forall>i < s_route_count s. r_uri (s_routes s ! i) \<noteq> None \<and> r_handler (s_routes s ! i) \<noteq> None)"
proof -
  have "all_served s0" "http_inv s0" using assms(1) by (simp_all add: http_boot_def all_served_def http_inv_def)
  have "all_served (fold http_do xs t)" if "all_served t" for t
    using assms(2) that by (induction xs arbitrary: t) (simp_all add: http_do_all)
  then have "all_served s" using assms(3) \<open>all_served s0\<close> by blast
  moreover have "http_inv s" using assms(3) http_run_inv \<open>http_inv s0\<close> by blast
  ultimately show ?thesis using assms(4) by (simp add: all_served_def http_inv_def)
qed

theorem http_every_route_registered_witness:
  "registered (fold http_do [Start httpd_fine (Some open_config), AddRoutes httpd_fine (Some [flash_route]) 1] cold_http)
     = [0]"
proof -
  let ?xs = "[Start httpd_fine (Some open_config), AddRoutes httpd_fine (Some [flash_route]) 1]"
  have e: "fst (http_auth_expected_header (Some ''admin'') (Some ''pw'') 160 [])"
    by (simp add: http_auth_expected_header_iff length_b64_groups BASIC_PREFIX_def del: b64_groups.simps)
  have "s_server (fold http_do ?xs cold_http)" "s_route_count (fold http_do ?xs cold_http) = 1"
    using e
    by (simp_all add: cold_http_def http_server_add_routes_def httpd_fine_def flash_route_def
        http_server_start_def open_config_def start_listening_def register_from.simps register_route_def
        Let_def split_beta)
  moreover have "\<forall>x \<in> set ?xs. registers_all x" by (simp add: registers_all_def httpd_fine_def)
  ultimately show ?thesis
    using http_every_route_registered [OF served(1) _ refl, of ?xs] by simp
qed

text \<open>The server listens from the first network there is.\<close>

lemma listening:
  "h_start a = ESP_OK \<Longrightarrow> s_server (snd (start_listening a s))"
  "s_server s \<Longrightarrow> s_server (snd (start_listening a s))"
proof -
  have "s_server (register_from a i s) = s_server s" for i s
    by (induction a i s rule: register_from.induct) (simp add: register_from.simps)
  then show "h_start a = ESP_OK \<Longrightarrow> s_server (snd (start_listening a s))"
    "s_server s \<Longrightarrow> s_server (snd (start_listening a s))"
    by (simp_all add: start_listening_def)
qed

interpretation http_link: link_service "on_net_event a" "\<lambda>s. h_start a = ESP_OK" s_server "{NET_EVENT_LINK_UP, NET_EVENT_AP_STARTED}" "{}"
  by unfold_locales (auto simp: on_net_event_def listening split: net_event_id_t.splits)

end
