(* ===== verification/Wifi_Manager.thy ===== *)
theory Wifi_Manager
  imports Prelude
begin

text \<open>
  The station manager of \<open>wifi_manager/src/wifi_manager.c\<close>: its state, the timers it
  arms, every event handler and public operation. The WiFi driver, the timers' firing and the
  event loop are the environment: what the driver answers is given to each operation, what it is
  asked is recorded, and an event or a timer is a step of its own. A failed
  \<open>ESP_ERROR_CHECK\<close> resets the chip: the model then halts.
\<close>

section \<open>Configuration and state\<close>

definition MIN_SCAN_INTERVAL_MS :: "32 word" where "MIN_SCAN_INTERVAL_MS = 1000"
definition MIN_CONNECTION_TIMEOUT_MS :: "32 word" where "MIN_CONNECTION_TIMEOUT_MS = 1000"
definition MIN_RECONNECT_DELAY_MS :: "32 word" where "MIN_RECONNECT_DELAY_MS = 1000"

record known_network =
  ssid :: string
  password :: string
  priority :: nat

text \<open>\<open>items\<close> is the array of four with \<open>n_known\<close> entries in use.\<close>

record wifi_config =
  hostname :: string
  items :: "known_network list"
  n_known :: nat
  ap_ssid :: string
  ap_password :: string
  ap_channel :: nat
  ap_max_connections :: nat
  connection_timeout_ms :: "32 word"
  scan_interval_ms :: "32 word"
  reconnect_delay_ms :: "32 word"
  power_save :: bool
  use_roaming :: bool
  reachability_host :: string

datatype wifi_manager_state_t =
    WIFI_MANAGER_STA_DISCONNECTED
  | WIFI_MANAGER_STA_CONNECTING
  | WIFI_MANAGER_STA_CONNECTED
  | WIFI_MANAGER_AP_MODE
  | WIFI_MANAGER_POWERED_OFF

datatype wifi_mode = MODE_NULL | MODE_STA | MODE_AP

record sta_config =
  sta_ssid :: string
  sta_password :: string
  sta_wpa2_only :: bool
  sta_all_channels :: bool
  sta_by_signal :: bool
  sta_rm_btm :: bool

record ap_config =
  a_ssid :: string
  a_ssid_len :: nat
  a_password :: string
  a_channel :: nat
  a_max_connection :: nat
  a_open :: bool

datatype drv_op =
    Set_hostname string | Set_mode wifi_mode | Wifi_start | Wifi_stop | Wifi_disconnect
  | Wifi_deinit | Set_ps bool | Set_sta sta_config | Set_ap ap_config | Wifi_connect
  | Scan_start bool | Clear_ap_list

datatype net_post = LINK_UP string | LINK_DOWN | AP_STARTED string | AP_STOPPED

text \<open>The timers hold the delay in microseconds they are armed with. The last five fields are
  not variables of the code: the calls made, the events posted, whether a scan the manager asked
  for has not reported yet, whether station mode has been started and has not reported yet, and
  whether somebody has asked for a connection since.\<close>

record wifi_t =
  initialized :: bool
  state :: wifi_manager_state_t
  wifi_cfg :: wifi_config
  reachability_started :: bool
  consecutive_reachability_count :: "32 word"
  ping_session :: bool
  reconnect_timer :: "64 word option"
  connect_timeout_timer :: "64 word option"
  ip_addr :: string
  scan_for_caller :: bool
  reconnect_attempts :: "32 word"
  link_losses :: "32 word"
  roams :: "32 word"
  last_disconnect_reason :: "16 word"
  last_disconnect_rssi :: int
  last_disconnect_us :: int
  halted :: bool
  asked :: "drv_op list"
  posted :: "net_post list"
  scan_in_flight :: bool
  starting :: bool
  engaged :: bool

record ap_record =
  r_ssid :: string
  r_rssi :: int
  r_bssid :: "8 word list"
  r_primary :: nat

text \<open>The driver's answers to one operation. \<open>d_check i\<close>: the \<open>i\<close>-th call whose
  result goes through \<open>ESP_ERROR_CHECK\<close>.\<close>

record drv =
  d_check :: "nat \<Rightarrow> esp_err_t"
  d_mode :: wifi_mode
  d_scan :: esp_err_t
  d_records :: "esp_err_t \<times> ap_record list"
  d_set_config :: esp_err_t
  d_connect :: esp_err_t
  d_disconnect :: esp_err_t
  d_ap_info :: "esp_err_t \<times> ap_record"
  d_clients :: nat
  d_time_us :: int
  d_resolved :: bool
  d_session :: bool

definition checks :: "drv \<Rightarrow> nat \<Rightarrow> bool" where
  "checks d n \<longleftrightarrow> (\<forall>i \<in> set [0..<n]. d_check d i = ESP_OK)"

definition ask :: "drv_op \<Rightarrow> wifi_t \<Rightarrow> wifi_t" where
  "ask x s = s\<lparr>asked := asked s @ [x]\<rparr>"

definition net_events_post :: "net_post \<Rightarrow> wifi_t \<Rightarrow> wifi_t" where
  "net_events_post x s = s\<lparr>posted := posted s @ [x]\<rparr>"

section \<open>Timers\<close>

definition schedule_reconnect :: "wifi_t \<Rightarrow> wifi_t" where
  "schedule_reconnect s =
    (let max_ms = (if scan_interval_ms (wifi_cfg s) < MIN_SCAN_INTERVAL_MS then MIN_SCAN_INTERVAL_MS
                   else scan_interval_ms (wifi_cfg s));
         delay_ms = (ucast (reconnect_delay_ms (wifi_cfg s)) :: 64 word);
         delay_ms = (if delay_ms < ucast MIN_RECONNECT_DELAY_MS then ucast MIN_RECONNECT_DELAY_MS
                     else delay_ms);
         shift = (if reconnect_attempts s < 22 then reconnect_attempts s else 22);
         delay_ms = push_bit (unat shift) delay_ms;
         delay_ms = (if delay_ms > ucast max_ms then ucast max_ms else delay_ms)
     in s\<lparr>reconnect_timer := Some (delay_ms * 1000)\<rparr>)"

definition arm_connect_timeout :: "wifi_t \<Rightarrow> wifi_t" where
  "arm_connect_timeout s =
     s\<lparr>connect_timeout_timer := Some ((ucast (connection_timeout_ms (wifi_cfg s)) :: 64 word) * 1000)\<rparr>"

definition connect_timeout_cb :: "wifi_t \<Rightarrow> wifi_t" where
  "connect_timeout_cb s =
     schedule_reconnect (ask Wifi_disconnect (s\<lparr>state := WIFI_MANAGER_STA_DISCONNECTED\<rparr>))"

definition start_reconnect_scan :: "drv \<Rightarrow> wifi_t \<Rightarrow> wifi_t" where
  "start_reconnect_scan d s =
    (if state s = WIFI_MANAGER_STA_CONNECTING then schedule_reconnect s
     else if state s \<noteq> WIFI_MANAGER_STA_DISCONNECTED then s
     else
       let s = ask (Scan_start False) s;
           s = (if d_scan d = ESP_OK then s\<lparr>scan_in_flight := True\<rparr> else s);
           s = s\<lparr>reconnect_attempts := reconnect_attempts s + 1\<rparr> in
       if d_scan d \<noteq> ESP_OK then schedule_reconnect s else s)"

definition reconnect_timer_cb :: "drv \<Rightarrow> wifi_t \<Rightarrow> wifi_t" where
  "reconnect_timer_cb d s = start_reconnect_scan d s"

section \<open>Reachability\<close>

text \<open>\<open>start_reachability_check\<close> leaves the work to a task; \<open>reachability_task\<close> is that
  task, which may run at any later time.\<close>

definition start_reachability_check :: "wifi_t \<Rightarrow> wifi_t" where
  "start_reachability_check s =
    (if reachability_host (wifi_cfg s) = [] then s else s\<lparr>consecutive_reachability_count := 0\<rparr>)"

definition stop_reachability_check :: "wifi_t \<Rightarrow> wifi_t" where
  "stop_reachability_check s =
    (if \<not> reachability_started s then s else s\<lparr>reachability_started := False, ping_session := False\<rparr>)"

definition reachability_task :: "drv \<Rightarrow> wifi_t \<Rightarrow> wifi_t" where
  "reachability_task d s =
    (if \<not> d_resolved d then s
     else if state s \<noteq> WIFI_MANAGER_STA_CONNECTED then s
     else
       let s = s\<lparr>ping_session := False\<rparr> in
       if \<not> d_session d then s
       else s\<lparr>ping_session := True, reachability_started := True\<rparr>)"

definition wifi_manager_record_reachability_result :: "bool \<Rightarrow> wifi_t \<Rightarrow> wifi_t" where
  "wifi_manager_record_reachability_result reachable s =
    (if reachable then s\<lparr>consecutive_reachability_count := 0\<rparr>
     else s\<lparr>consecutive_reachability_count := consecutive_reachability_count s + 1\<rparr>)"

section \<open>Joining a network\<close>

definition connect_to_best_network :: "drv \<Rightarrow> nat \<Rightarrow> wifi_t \<Rightarrow> esp_err_t \<times> wifi_t" where
  "connect_to_best_network d best_index s =
    (if n_known (wifi_cfg s) = 0 then
       (ESP_ERR_NOT_FOUND, schedule_reconnect (s\<lparr>state := WIFI_MANAGER_STA_DISCONNECTED\<rparr>))
     else
       let network = items (wifi_cfg s) ! best_index;
           s = s\<lparr>state := WIFI_MANAGER_STA_CONNECTING\<rparr>;
           c = \<lparr>sta_ssid = strncpy_term 32 (ssid network),
                sta_password = strncpy_term 64 (password network),
                sta_wpa2_only = True, sta_all_channels = True, sta_by_signal = True,
                sta_rm_btm = use_roaming (wifi_cfg s)\<rparr>;
           s = ask (Set_sta c) s in
       if d_set_config d \<noteq> ESP_OK then
         (d_set_config d, schedule_reconnect (s\<lparr>state := WIFI_MANAGER_STA_DISCONNECTED\<rparr>))
       else
         let s = ask Wifi_connect s in
         if d_connect d \<noteq> ESP_OK then
           (d_connect d, schedule_reconnect (s\<lparr>state := WIFI_MANAGER_STA_DISCONNECTED\<rparr>))
         else (ESP_OK, arm_connect_timeout s))"

text \<open>The two loops of \<open>connect_from_scan_results\<close>: for one record over the known networks
  from index \<open>k\<close>, then over the records. The state is the best index and signal so far.\<close>

fun match_known :: "known_network list \<Rightarrow> nat \<Rightarrow> ap_record \<Rightarrow> nat option \<times> int \<Rightarrow> nat option \<times> int" where
  "match_known [] k ap (best_index, best_rssi) = (best_index, best_rssi)"
| "match_known (x # xs) k ap (best_index, best_rssi) =
     match_known xs (k + 1) ap
       (if ssid x = r_ssid ap \<and> r_rssi ap > best_rssi then (Some k, r_rssi ap)
        else (best_index, best_rssi))"

fun best_known :: "known_network list \<Rightarrow> ap_record list \<Rightarrow> nat option \<times> int \<Rightarrow> nat option \<times> int" where
  "best_known nets [] best = best"
| "best_known nets (ap # aps) best = best_known nets aps (match_known nets 0 ap best)"

definition connect_from_scan_results :: "drv \<Rightarrow> wifi_t \<Rightarrow> wifi_t" where
  "connect_from_scan_results d s =
    (if fst (d_records d) \<noteq> ESP_OK then schedule_reconnect s
     else
       let nets = take (n_known (wifi_cfg s)) (items (wifi_cfg s));
           (best_index, best_rssi) = best_known nets (take 16 (snd (d_records d))) (None, -100) in
       case best_index of
         Some k \<Rightarrow> snd (connect_to_best_network d k s)
       | None \<Rightarrow> schedule_reconnect s)"

section \<open>Public operations\<close>

definition clamp_ms :: "32 word \<Rightarrow> 32 word \<Rightarrow> 32 word" where
  "clamp_ms lo x = (if x < lo then lo else x)"

definition load_known_networks :: "wifi_t \<Rightarrow> esp_err_t \<times> wifi_t" where
  "load_known_networks s = (ESP_OK, s)"

definition save_known_networks :: "wifi_t \<Rightarrow> esp_err_t \<times> wifi_t" where
  "save_known_networks s = (ESP_OK, s)"

definition wifi_manager_init :: "drv \<Rightarrow> wifi_config \<Rightarrow> wifi_t \<Rightarrow> esp_err_t \<times> wifi_t" where
  "wifi_manager_init d cfg s =
    (if initialized s then (ESP_OK, s)
     else
       let cfg = cfg\<lparr>scan_interval_ms := clamp_ms MIN_SCAN_INTERVAL_MS (scan_interval_ms cfg),
                     connection_timeout_ms := clamp_ms MIN_CONNECTION_TIMEOUT_MS (connection_timeout_ms cfg),
                     reconnect_delay_ms := clamp_ms MIN_RECONNECT_DELAY_MS (reconnect_delay_ms cfg)\<rparr>;
           s = s\<lparr>wifi_cfg := cfg, ip_addr := []\<rparr>;
           s = (if hostname cfg \<noteq> [] then ask (Set_hostname (hostname cfg)) s else s) in
       if \<not> checks d 5 then (ESP_FAIL, s\<lparr>halted := True\<rparr>)
       else (ESP_OK, (snd (load_known_networks (s\<lparr>reconnect_timer := None, connect_timeout_timer := None\<rparr>)))
                       \<lparr>initialized := True\<rparr>))"

definition wifi_manager_stop :: "drv \<Rightarrow> wifi_t \<Rightarrow> esp_err_t \<times> wifi_t" where
  "wifi_manager_stop d s =
    (if \<not> initialized s then (ESP_ERR_INVALID_STATE, s)
     else
       let s = stop_reachability_check s;
           s = (if state s = WIFI_MANAGER_STA_CONNECTED then ask Wifi_disconnect s else s);
           s = ask Wifi_stop s in
       if \<not> checks d 2 then (ESP_FAIL, s\<lparr>halted := True\<rparr>)
       else (ESP_OK, s\<lparr>state := WIFI_MANAGER_POWERED_OFF, engaged := False\<rparr>))"

definition wifi_manager_deinit :: "drv \<Rightarrow> wifi_t \<Rightarrow> esp_err_t \<times> wifi_t" where
  "wifi_manager_deinit d s =
    (if \<not> initialized s then (ESP_OK, s)
     else
       let s = snd (wifi_manager_stop d s) in
       if halted s then (ESP_FAIL, s)
       else (ESP_OK, (ask Wifi_deinit s)\<lparr>connect_timeout_timer := None, reconnect_timer := None,
                                         initialized := False\<rparr>))"

definition wifi_manager_start_station_mode :: "drv \<Rightarrow> wifi_t \<Rightarrow> esp_err_t \<times> wifi_t" where
  "wifi_manager_start_station_mode d s =
    (if \<not> initialized s then (ESP_ERR_INVALID_STATE, s)
     else
       let s = (if d_mode d = MODE_AP
                then ask (Set_mode MODE_NULL) (ask Wifi_stop (ask Wifi_disconnect s)) else s);
           s = ask Wifi_start (ask (Set_mode MODE_STA) s) in
       if \<not> checks d 4 then (ESP_FAIL, s\<lparr>halted := True\<rparr>)
       else
         let s = ask (Set_ps (power_save (wifi_cfg s))) s in
         (ESP_OK, s\<lparr>state := WIFI_MANAGER_STA_DISCONNECTED, starting := True, engaged := False\<rparr>))"

definition wifi_manager_start_ap_mode :: "drv \<Rightarrow> wifi_t \<Rightarrow> esp_err_t \<times> wifi_t" where
  "wifi_manager_start_ap_mode d s =
    (if \<not> initialized s then (ESP_ERR_INVALID_STATE, s)
     else
       let s = (if d_mode d = MODE_STA
                then ask (Set_mode MODE_NULL) (ask Wifi_stop (ask Wifi_disconnect (stop_reachability_check s)))
                else s);
           c = \<lparr>a_ssid = strncpy_term 32 (ap_ssid (wifi_cfg s)), a_ssid_len = length (ap_ssid (wifi_cfg s)) mod 256,
                a_password = strncpy_term 64 (ap_password (wifi_cfg s)),
                a_channel = ap_channel (wifi_cfg s) mod 256,
                a_max_connection = ap_max_connections (wifi_cfg s) mod 256,
                a_open = (ap_password (wifi_cfg s) = [])\<rparr>;
           s = ask Wifi_start (ask (Set_ap c) (ask (Set_mode MODE_AP) s)) in
       if \<not> checks d 4 then (ESP_FAIL, s\<lparr>halted := True\<rparr>)
       else (ESP_OK, s\<lparr>state := WIFI_MANAGER_AP_MODE, engaged := False\<rparr>))"

definition net_index :: "wifi_config \<Rightarrow> string \<Rightarrow> nat option" where
  "net_index c name = find (\<lambda>i. ssid (items c ! i) = name) [0..<n_known c]"

definition wifi_manager_add_known_network :: "string \<Rightarrow> string \<Rightarrow> wifi_t \<Rightarrow> esp_err_t \<times> wifi_t" where
  "wifi_manager_add_known_network name pw s =
    (let c = wifi_cfg s in
     case net_index c name of
       Some i \<Rightarrow>
         save_known_networks
           (s\<lparr>wifi_cfg := c\<lparr>items := (items c)[i := (items c ! i)\<lparr>password := strncpy_term 64 pw\<rparr>]\<rparr>\<rparr>)
     | None \<Rightarrow>
         if n_known c \<ge> 4 then (ESP_ERR_NO_MEM, s)
         else
           let item = \<lparr>ssid = strncpy_term 33 name, password = strncpy_term 64 pw, priority = 0\<rparr> in
           save_known_networks
             (s\<lparr>wifi_cfg := c\<lparr>items := (items c)[n_known c := item], n_known := n_known c + 1\<rparr>\<rparr>))"

text \<open>The shifting loop: \<open>j\<close> from the removed index to the last but one.\<close>

function shift_items :: "known_network list \<Rightarrow> nat \<Rightarrow> nat \<Rightarrow> known_network list" where
  "shift_items xs j n = (if j < n - 1 then shift_items (xs[j := xs ! (j + 1)]) (j + 1) n else xs)"
  by pat_completeness auto
termination by (relation "measure (\<lambda>(xs, j, n). n - j)") auto

declare shift_items.simps [simp del]

definition wifi_manager_remove_known_network :: "string \<Rightarrow> wifi_t \<Rightarrow> esp_err_t \<times> wifi_t" where
  "wifi_manager_remove_known_network name s =
    (let c = wifi_cfg s in
     case net_index c name of
       Some i \<Rightarrow>
         save_known_networks
           (s\<lparr>wifi_cfg := c\<lparr>items := shift_items (items c) i (n_known c), n_known := n_known c - 1\<rparr>\<rparr>)
     | None \<Rightarrow> (ESP_ERR_NOT_FOUND, s))"

definition wifi_manager_scan_and_connect :: "drv \<Rightarrow> wifi_t \<Rightarrow> esp_err_t \<times> wifi_t" where
  "wifi_manager_scan_and_connect d s =
    (if \<not> initialized s \<or> state s = WIFI_MANAGER_STA_CONNECTED then (ESP_ERR_INVALID_STATE, s)
     else
       let s = ask (Scan_start False) (s\<lparr>engaged := (engaged s \<or> state s = WIFI_MANAGER_STA_DISCONNECTED
                                              \<or> state s = WIFI_MANAGER_STA_CONNECTING)\<rparr>) in
       if d_scan d \<noteq> ESP_OK then (d_scan d, schedule_reconnect s)
       else (ESP_OK, s\<lparr>scan_in_flight := True\<rparr>))"

text \<open>\<open>wifi_manager_scan\<close> blocks in the driver, and events arrive meanwhile: it is two steps,
  up to the blocking call and after it.\<close>

definition wifi_manager_scan_begin :: "bool \<Rightarrow> nat \<Rightarrow> wifi_t \<Rightarrow> esp_err_t option \<times> wifi_t" where
  "wifi_manager_scan_begin args_ok max_n s =
    (if \<not> args_ok \<or> max_n = 0 then (Some ESP_ERR_INVALID_ARG, s)
     else if \<not> initialized s then (Some ESP_ERR_INVALID_STATE, s)
     else if state s = WIFI_MANAGER_AP_MODE \<or> state s = WIFI_MANAGER_POWERED_OFF
     then (Some ESP_ERR_INVALID_STATE, s)
     else if scan_for_caller s then (Some ESP_ERR_INVALID_STATE, s)
     else (None, ask (Scan_start True) (s\<lparr>scan_for_caller := True\<rparr>)))"

definition wifi_manager_scan_end :: "drv \<Rightarrow> nat \<Rightarrow> wifi_t \<Rightarrow> esp_err_t \<times> ap_record list \<times> wifi_t" where
  "wifi_manager_scan_end d max_n s =
    (let (ret, recs, s) =
       (if d_scan d = ESP_OK then
          if fst (d_records d) = ESP_OK then (ESP_OK, take max_n (snd (d_records d)), s)
          else (fst (d_records d), [], ask Clear_ap_list s)
        else (d_scan d, [], s));
       s = s\<lparr>scan_for_caller := False\<rparr>;
       s = (if state s = WIFI_MANAGER_STA_DISCONNECTED then schedule_reconnect s else s)
     in (ret, recs, s))"

definition wifi_manager_get_rssi :: "drv \<Rightarrow> wifi_t \<Rightarrow> esp_err_t \<times> int" where
  "wifi_manager_get_rssi d s =
    (if state s \<noteq> WIFI_MANAGER_STA_CONNECTED then (ESP_OK, 0)
     else if fst (d_ap_info d) = ESP_OK then (ESP_OK, r_rssi (snd (d_ap_info d)))
     else (fst (d_ap_info d), 0))"

text \<open>\<open>strncpy(dest, ip, length)\<close>: the bytes written, the terminator included only when
  there is room for it.\<close>

definition wifi_manager_get_address :: "nat \<Rightarrow> wifi_t \<Rightarrow> esp_err_t \<times> string \<times> bool" where
  "wifi_manager_get_address n s = (ESP_OK, take n (ip_addr s), length (ip_addr s) < n)"

definition wifi_manager_get_state :: "wifi_t \<Rightarrow> wifi_manager_state_t" where
  "wifi_manager_get_state s = state s"

definition wifi_manager_consecutive_reachability_failures :: "wifi_t \<Rightarrow> 32 word" where
  "wifi_manager_consecutive_reachability_failures s = consecutive_reachability_count s"

definition wifi_manager_has_clients :: "drv \<Rightarrow> wifi_t \<Rightarrow> bool" where
  "wifi_manager_has_clients d s \<longleftrightarrow> state s = WIFI_MANAGER_AP_MODE \<and> d_clients d > 0"

definition wifi_manager_force_disconnect :: "drv \<Rightarrow> wifi_t \<Rightarrow> esp_err_t \<times> wifi_t" where
  "wifi_manager_force_disconnect d s = (d_disconnect d, ask Wifi_disconnect s)"

record link_info =
  l_connected :: bool
  l_bssid :: "8 word list"
  l_channel :: nat
  l_rssi :: int
  l_losses :: "32 word"
  l_roams :: "32 word"
  l_reason :: "16 word"
  l_last_rssi :: int
  l_last_us :: int

definition wifi_manager_get_link_info :: "drv \<Rightarrow> wifi_t \<Rightarrow> link_info" where
  "wifi_manager_get_link_info d s =
    (let info = \<lparr>l_connected = False, l_bssid = [0, 0, 0, 0, 0, 0], l_channel = 0, l_rssi = 0,
                 l_losses = link_losses s, l_roams = roams s, l_reason = last_disconnect_reason s,
                 l_last_rssi = last_disconnect_rssi s, l_last_us = last_disconnect_us s\<rparr> in
     if state s = WIFI_MANAGER_STA_CONNECTED \<and> fst (d_ap_info d) = ESP_OK then
       info\<lparr>l_connected := True, l_bssid := r_bssid (snd (d_ap_info d)),
            l_channel := r_primary (snd (d_ap_info d)), l_rssi := r_rssi (snd (d_ap_info d))\<rparr>
     else info)"

section \<open>Events\<close>

definition WIFI_REASON_BSS_TRANSITION_DISASSOC :: "16 word" where "WIFI_REASON_BSS_TRANSITION_DISASSOC = 12"
definition WIFI_REASON_ROAMING :: "16 word" where "WIFI_REASON_ROAMING = 207"

datatype wifi_event =
    STA_START | STA_CONNECTED | STA_DISCONNECTED "(16 word \<times> int) option" | BEACON_TIMEOUT
  | SCAN_DONE | AP_START string | AP_CLIENT | AP_STOP | GOT_IP string | LOST_IP

definition on_disconnected :: "drv \<Rightarrow> (16 word \<times> int) option \<Rightarrow> wifi_t \<Rightarrow> wifi_t" where
  "on_disconnected d disc s =
    (let reason = (case disc of None \<Rightarrow> 0 | Some (r, v) \<Rightarrow> r);
         roaming = (reason = WIFI_REASON_BSS_TRANSITION_DISASSOC \<or> reason = WIFI_REASON_ROAMING);
         was_up = (state s = WIFI_MANAGER_STA_CONNECTED);
         s = s\<lparr>last_disconnect_reason := reason,
               last_disconnect_rssi := (case disc of None \<Rightarrow> 0 | Some (r, v) \<Rightarrow> v),
               last_disconnect_us := d_time_us d\<rparr>;
         s = (if was_up then
                if roaming then s\<lparr>roams := roams s + 1\<rparr> else s\<lparr>link_losses := link_losses s + 1\<rparr>
              else s) in
     if roaming \<and> was_up then arm_connect_timeout (s\<lparr>state := WIFI_MANAGER_STA_CONNECTING\<rparr>)
     else
       let s = stop_reachability_check (s\<lparr>state := WIFI_MANAGER_STA_DISCONNECTED\<rparr>);
           s = schedule_reconnect (s\<lparr>connect_timeout_timer := None\<rparr>) in
       net_events_post LINK_DOWN s)"

definition on_got_ip :: "string \<Rightarrow> wifi_t \<Rightarrow> wifi_t" where
  "on_got_ip ip s =
    (let ip = snd (snprintf 16 ip);
         s = s\<lparr>ip_addr := ip, state := WIFI_MANAGER_STA_CONNECTED, reconnect_attempts := 0\<rparr>;
         s = net_events_post (LINK_UP ip) s;
         s = s\<lparr>connect_timeout_timer := None, reconnect_timer := None\<rparr> in
     start_reachability_check s)"

definition wifi_event_handler :: "drv \<Rightarrow> wifi_event \<Rightarrow> wifi_t \<Rightarrow> wifi_t" where
  "wifi_event_handler d e s =
    (case e of
       STA_START \<Rightarrow> s\<lparr>state := WIFI_MANAGER_STA_DISCONNECTED\<rparr>
     | STA_CONNECTED \<Rightarrow> arm_connect_timeout s
     | STA_DISCONNECTED disc \<Rightarrow> on_disconnected d disc s
     | BEACON_TIMEOUT \<Rightarrow> s
     | SCAN_DONE \<Rightarrow>
         if scan_for_caller s then s
         else if state s = WIFI_MANAGER_STA_DISCONNECTED then connect_from_scan_results d s
         else ask Clear_ap_list s
     | AP_START ip \<Rightarrow>
         net_events_post (AP_STARTED (snd (snprintf 16 ip))) (s\<lparr>state := WIFI_MANAGER_AP_MODE\<rparr>)
     | AP_CLIENT \<Rightarrow> s
     | AP_STOP \<Rightarrow> net_events_post AP_STOPPED s
     | GOT_IP ip \<Rightarrow> on_got_ip ip s
     | LOST_IP \<Rightarrow>
         net_events_post LINK_DOWN
           (schedule_reconnect (stop_reachability_check
              (s\<lparr>ip_addr := [], state := WIFI_MANAGER_STA_DISCONNECTED\<rparr>))))"


section \<open>The environment's moves\<close>

text \<open>Events reach the manager in the order of the driver: nothing before the report of a start
  of station mode, and a scan reports only if one runs. Timers fire only when armed and are
  one-shot. Events are delivered only while the handlers are registered.\<close>

definition event_possible :: "wifi_event \<Rightarrow> wifi_t \<Rightarrow> bool" where
  "event_possible e s \<longleftrightarrow> initialized s \<and>
     (if e = STA_START then starting s
      else \<not> starting s \<and> (e = SCAN_DONE \<longrightarrow> scan_in_flight s \<or> scan_for_caller s))"

definition delivered :: "wifi_event \<Rightarrow> wifi_t \<Rightarrow> wifi_t" where
  "delivered e s = (if e = STA_START then s\<lparr>starting := False\<rparr>
     else if e = SCAN_DONE then s\<lparr>scan_in_flight := False\<rparr> else s)"

inductive wifi_step :: "wifi_t \<Rightarrow> wifi_t \<Rightarrow> bool" where
  init: "\<not> halted s \<Longrightarrow> wifi_step s (snd (wifi_manager_init d cfg s))"
| deinit: "\<not> halted s \<Longrightarrow> wifi_step s (snd (wifi_manager_deinit d s))"
| start_station: "\<not> halted s \<Longrightarrow> wifi_step s (snd (wifi_manager_start_station_mode d s))"
| start_ap: "\<not> halted s \<Longrightarrow> wifi_step s (snd (wifi_manager_start_ap_mode d s))"
| stop: "\<not> halted s \<Longrightarrow> wifi_step s (snd (wifi_manager_stop d s))"
| add_network: "\<not> halted s \<Longrightarrow> wifi_step s (snd (wifi_manager_add_known_network n pw s))"
| remove_network: "\<not> halted s \<Longrightarrow> wifi_step s (snd (wifi_manager_remove_known_network n s))"
| scan_and_connect: "\<not> halted s \<Longrightarrow> wifi_step s (snd (wifi_manager_scan_and_connect d s))"
| scan_begin: "\<not> halted s \<Longrightarrow> wifi_step s (snd (wifi_manager_scan_begin ok n s))"
| scan_end: "\<not> halted s \<Longrightarrow> scan_for_caller s \<Longrightarrow> wifi_step s (snd (snd (wifi_manager_scan_end d n s)))"
| force_disconnect: "\<not> halted s \<Longrightarrow> wifi_step s (snd (wifi_manager_force_disconnect d s))"
| reconnect_fires: "\<not> halted s \<Longrightarrow> reconnect_timer s \<noteq> None \<Longrightarrow>
     wifi_step s (reconnect_timer_cb d (s\<lparr>reconnect_timer := None\<rparr>))"
| timeout_fires: "\<not> halted s \<Longrightarrow> connect_timeout_timer s \<noteq> None \<Longrightarrow>
     wifi_step s (connect_timeout_cb (s\<lparr>connect_timeout_timer := None\<rparr>))"
| event: "\<not> halted s \<Longrightarrow> event_possible e s \<Longrightarrow>
     wifi_step s (wifi_event_handler d e (delivered e s))"
| ping_task: "\<not> halted s \<Longrightarrow> wifi_step s (reachability_task d s)"
| ping_result: "\<not> halted s \<Longrightarrow> wifi_step s (wifi_manager_record_reachability_result b s)"

text \<open>The zeroed state at boot.\<close>

definition wifi_boot :: "wifi_t \<Rightarrow> bool" where
  "wifi_boot s \<longleftrightarrow> \<not> initialized s \<and> state s = WIFI_MANAGER_STA_DISCONNECTED
     \<and> reconnect_timer s = None \<and> connect_timeout_timer s = None \<and> \<not> scan_for_caller s
     \<and> \<not> halted s \<and> \<not> starting s \<and> \<not> engaged s \<and> posted s = []"

section \<open>The backoff\<close>

definition backoff_us :: "wifi_t \<Rightarrow> 64 word" where
  "backoff_us s = the (reconnect_timer (schedule_reconnect s))"

lemma schedule_reconnect_eq: "schedule_reconnect s = s\<lparr>reconnect_timer := Some (backoff_us s)\<rparr>"
  by (simp add: backoff_us_def schedule_reconnect_def Let_def)

definition clamped :: "32 word \<Rightarrow> nat" where
  "clamped x = max 1000 (unat x)"

lemma unat_clamp: "unat (if x < 1000 then 1000 else x) = clamped x" for x :: "32 word"
  by (auto simp: clamped_def word_less_nat_alt max_def)

lemma unat_capped:
  fixes p m :: "64 word"
  assumes "unat m < 2 ^ 32"
  shows "unat ((if p > m then m else p) * 1000) = 1000 * min (unat m) (unat p)"
proof -
  let ?x = "if p > m then m else p"
  have x: "unat ?x = min (unat m) (unat p)" by (simp add: word_less_nat_alt)
  then have "unat ?x * unat (1000 :: 64 word) < 2 ^ LENGTH(64)" using assms by simp
  then have "unat (?x * 1000) = unat ?x * unat (1000 :: 64 word)" by (rule unat_mult_lem [THEN iffD1])
  then show ?thesis by (simp only: x) simp
qed

lemma unat_clamp_64:
  "unat (if (ucast x :: 64 word) < 1000 then 1000 else ucast x :: 64 word) = clamped x" for x :: "32 word"
  by (simp add: clamped_def word_less_nat_alt unat_ucast_64 max_def)

lemma unat_min_22: "unat (if x < 22 then x else 22) = min 22 (unat x)" for x :: "32 word"
  by (simp add: word_less_nat_alt)

lemma clamped_less: "clamped x < 2 ^ 32"
  by (simp add: clamped_def)

lemma unat_shifted:
  fixes d :: "64 word"
  assumes "unat d < 2 ^ 32" "a \<le> 22"
  shows "unat (push_bit a d) = unat d * 2 ^ a"
proof (rule unat_push_bit)
  have "(2::nat) ^ a \<le> 2 ^ 22" using assms(2) by (rule power_increasing) simp
  then have "unat d * 2 ^ a \<le> 2 ^ 32 * 2 ^ 22" using assms(1) by (intro mult_le_mono) simp_all
  then show "unat d * 2 ^ a < 2 ^ LENGTH(64)" by simp
qed

lemma backoff_us_value:
  "unat (backoff_us s) = 1000 * min (clamped (scan_interval_ms (wifi_cfg s)))
     (clamped (reconnect_delay_ms (wifi_cfg s)) * 2 ^ min 22 (unat (reconnect_attempts s)))"
proof -
  define m where "m = (if scan_interval_ms (wifi_cfg s) < 1000 then 1000 else scan_interval_ms (wifi_cfg s))"
  define d :: "64 word"
    where "d = (if ucast (reconnect_delay_ms (wifi_cfg s)) < (1000 :: 64 word) then 1000
                else ucast (reconnect_delay_ms (wifi_cfg s)))"
  define a where "a = (if reconnect_attempts s < 22 then reconnect_attempts s else 22)"
  have m: "unat (ucast m :: 64 word) = clamped (scan_interval_ms (wifi_cfg s))"
    unfolding m_def unat_ucast_64 by (rule unat_clamp)
  have d: "unat d = clamped (reconnect_delay_ms (wifi_cfg s))"
    unfolding d_def by (rule unat_clamp_64)
  have a: "unat a = min 22 (unat (reconnect_attempts s))"
    unfolding a_def by (rule unat_min_22)
  have push: "unat (push_bit (unat a) d) = unat d * 2 ^ unat a"
    using clamped_less by (intro unat_shifted) (simp_all add: d a)
  have c: "(ucast MIN_RECONNECT_DELAY_MS :: 64 word) = 1000" "MIN_SCAN_INTERVAL_MS = 1000"
    by (simp_all add: MIN_RECONNECT_DELAY_MS_def MIN_SCAN_INTERVAL_MS_def)
  have upd: "reconnect_timer (s\<lparr>reconnect_timer := v\<rparr>) = v" for v by simp
  have "backoff_us s = (if push_bit (unat a) d > ucast m then ucast m else push_bit (unat a) d) * 1000"
    by (simp only: backoff_us_def schedule_reconnect_def Let_def c upd option.sel m_def d_def a_def)
  also have "unat \<dots> = 1000 * min (unat (ucast m :: 64 word)) (unat (push_bit (unat a) d))"
    by (rule unat_capped) (use clamped_less in \<open>simp only: m\<close>)
  finally show ?thesis unfolding push unfolding m d a .
qed


lemma backoff_bounds:
  "1000000 \<le> unat (backoff_us s)"
  "unat (backoff_us s) \<le> 1000 * clamped (scan_interval_ms (wifi_cfg s))"
proof -
  have "1 * 1 \<le> (2::nat) ^ n" for n by simp
  then have "clamped x * 1 \<le> clamped x * 2 ^ n" for x n by (intro mult_le_mono) simp_all
  then have "1000 \<le> clamped x * 2 ^ n" for x n
    by (metis clamped_def max.cobounded1 mult.right_neutral order_trans)
  then show "1000000 \<le> unat (backoff_us s)"
    unfolding backoff_us_value by (simp add: clamped_def)
  show "unat (backoff_us s) \<le> 1000 * clamped (scan_interval_ms (wifi_cfg s))"
    unfolding backoff_us_value by simp
qed

lemma backoff_bound_at:
  "wifi_cfg t = c \<Longrightarrow> unat (backoff_us t) \<le> 1000 * clamped (scan_interval_ms c)"
  using backoff_bounds(2) [of t] by simp

section \<open>The invariant\<close>

text \<open>Whether the link was last announced as up.\<close>

definition link_posted :: "net_post list \<Rightarrow> bool" where
  "link_posted ps = foldl (\<lambda>b x. case x of LINK_UP ip \<Rightarrow> True | LINK_DOWN \<Rightarrow> False | _ \<Rightarrow> b) False ps"

lemma link_posted_snoc [simp]:
  "link_posted (ps @ [x]) = (case x of LINK_UP ip \<Rightarrow> True | LINK_DOWN \<Rightarrow> False | _ \<Rightarrow> link_posted ps)"
  by (cases x) (simp_all add: link_posted_def)

text \<open>Something that will take the manager further: a timer, or a scan.\<close>

definition attempt_pending :: "wifi_t \<Rightarrow> bool" where
  "attempt_pending s \<longleftrightarrow> reconnect_timer s \<noteq> None \<or> connect_timeout_timer s \<noteq> None
     \<or> scan_in_flight s \<or> scan_for_caller s"

definition wifi_inv :: "wifi_t \<Rightarrow> bool" where
  "wifi_inv s \<longleftrightarrow>
     (\<not> initialized s \<longrightarrow> reconnect_timer s = None \<and> connect_timeout_timer s = None \<and> \<not> engaged s
        \<and> (state s = WIFI_MANAGER_STA_DISCONNECTED \<and> \<not> scan_for_caller s
           \<or> state s = WIFI_MANAGER_POWERED_OFF))
     \<and> (engaged s \<longrightarrow> state s = WIFI_MANAGER_STA_DISCONNECTED \<longrightarrow> attempt_pending s)
     \<and> (state s = WIFI_MANAGER_STA_CONNECTING \<longrightarrow> connect_timeout_timer s \<noteq> None)
     \<and> (starting s \<longrightarrow> engaged s \<longrightarrow>
          state s = WIFI_MANAGER_STA_DISCONNECTED \<or> state s = WIFI_MANAGER_STA_CONNECTING)
     \<and> (state s = WIFI_MANAGER_STA_CONNECTED \<longrightarrow> link_posted (posted s))
     \<and> (\<forall>us. reconnect_timer s = Some us \<longrightarrow> 1000000 \<le> unat us
          \<and> unat us \<le> 1000 * clamped (scan_interval_ms (wifi_cfg s)))"

text \<open>Scheduling is safe in any state of an initialised manager, and repairs a state in which
  nothing was pending.\<close>

lemma schedule_fields [simp]:
  "initialized (schedule_reconnect s) = initialized s" "state (schedule_reconnect s) = state s"
  "wifi_cfg (schedule_reconnect s) = wifi_cfg s"
  "connect_timeout_timer (schedule_reconnect s) = connect_timeout_timer s"
  "reconnect_timer (schedule_reconnect s) = Some (backoff_us s)"
  "scan_for_caller (schedule_reconnect s) = scan_for_caller s"
  "scan_in_flight (schedule_reconnect s) = scan_in_flight s"
  "engaged (schedule_reconnect s) = engaged s" "starting (schedule_reconnect s) = starting s"
  "posted (schedule_reconnect s) = posted s" "halted (schedule_reconnect s) = halted s"
  by (simp_all add: schedule_reconnect_eq)

lemma ask_fields [simp]:
  "initialized (ask x s) = initialized s" "state (ask x s) = state s"
  "wifi_cfg (ask x s) = wifi_cfg s"
  "connect_timeout_timer (ask x s) = connect_timeout_timer s"
  "reconnect_timer (ask x s) = reconnect_timer s"
  "scan_for_caller (ask x s) = scan_for_caller s"
  "scan_in_flight (ask x s) = scan_in_flight s"
  "engaged (ask x s) = engaged s" "starting (ask x s) = starting s"
  "posted (ask x s) = posted s" "halted (ask x s) = halted s"
  by (simp_all add: ask_def)

lemma reach_fields [simp]:
  "initialized (stop_reachability_check s) = initialized s" "state (stop_reachability_check s) = state s"
  "wifi_cfg (stop_reachability_check s) = wifi_cfg s"
  "connect_timeout_timer (stop_reachability_check s) = connect_timeout_timer s"
  "reconnect_timer (stop_reachability_check s) = reconnect_timer s"
  "scan_for_caller (stop_reachability_check s) = scan_for_caller s"
  "scan_in_flight (stop_reachability_check s) = scan_in_flight s"
  "engaged (stop_reachability_check s) = engaged s" "starting (stop_reachability_check s) = starting s"
  "posted (stop_reachability_check s) = posted s" "halted (stop_reachability_check s) = halted s"
  by (simp_all add: stop_reachability_check_def)

lemma start_reach_fields [simp]:
  "initialized (start_reachability_check s) = initialized s" "state (start_reachability_check s) = state s"
  "wifi_cfg (start_reachability_check s) = wifi_cfg s"
  "connect_timeout_timer (start_reachability_check s) = connect_timeout_timer s"
  "reconnect_timer (start_reachability_check s) = reconnect_timer s"
  "scan_for_caller (start_reachability_check s) = scan_for_caller s"
  "scan_in_flight (start_reachability_check s) = scan_in_flight s"
  "engaged (start_reachability_check s) = engaged s" "starting (start_reachability_check s) = starting s"
  "posted (start_reachability_check s) = posted s" "halted (start_reachability_check s) = halted s"
  by (simp_all add: start_reachability_check_def)

lemma arm_fields [simp]:
  "initialized (arm_connect_timeout s) = initialized s" "state (arm_connect_timeout s) = state s"
  "wifi_cfg (arm_connect_timeout s) = wifi_cfg s"
  "connect_timeout_timer (arm_connect_timeout s) = Some (ucast (connection_timeout_ms (wifi_cfg s)) * 1000)"
  "reconnect_timer (arm_connect_timeout s) = reconnect_timer s"
  "scan_for_caller (arm_connect_timeout s) = scan_for_caller s"
  "scan_in_flight (arm_connect_timeout s) = scan_in_flight s"
  "engaged (arm_connect_timeout s) = engaged s" "starting (arm_connect_timeout s) = starting s"
  "posted (arm_connect_timeout s) = posted s" "halted (arm_connect_timeout s) = halted s"
  by (simp_all add: arm_connect_timeout_def)

lemma post_fields [simp]:
  "initialized (net_events_post x s) = initialized s" "state (net_events_post x s) = state s"
  "wifi_cfg (net_events_post x s) = wifi_cfg s"
  "connect_timeout_timer (net_events_post x s) = connect_timeout_timer s"
  "reconnect_timer (net_events_post x s) = reconnect_timer s"
  "scan_for_caller (net_events_post x s) = scan_for_caller s"
  "scan_in_flight (net_events_post x s) = scan_in_flight s"
  "engaged (net_events_post x s) = engaged s" "starting (net_events_post x s) = starting s"
  "posted (net_events_post x s) = posted s @ [x]" "halted (net_events_post x s) = halted s"
  by (simp_all add: net_events_post_def)

lemmas wifi_views = wifi_inv_def attempt_pending_def backoff_bounds(1) backoff_bound_at Let_def

lemma inv_init: "wifi_inv s \<Longrightarrow> wifi_inv (snd (wifi_manager_init d cfg s))"
  by (auto simp: wifi_views wifi_manager_init_def load_known_networks_def)

lemma inv_stop: "wifi_inv s \<Longrightarrow> wifi_inv (snd (wifi_manager_stop d s))"
  by (auto simp: wifi_views wifi_manager_stop_def)

lemma inv_deinit: "wifi_inv s \<Longrightarrow> wifi_inv (snd (wifi_manager_deinit d s))"
  by (auto simp: wifi_views wifi_manager_deinit_def wifi_manager_stop_def)

lemma inv_start_station: "wifi_inv s \<Longrightarrow> wifi_inv (snd (wifi_manager_start_station_mode d s))"
  by (auto simp: wifi_views wifi_manager_start_station_mode_def)

lemma inv_start_ap: "wifi_inv s \<Longrightarrow> wifi_inv (snd (wifi_manager_start_ap_mode d s))"
  by (auto simp: wifi_views wifi_manager_start_ap_mode_def)

lemma inv_add: "wifi_inv s \<Longrightarrow> wifi_inv (snd (wifi_manager_add_known_network n pw s))"
  by (auto simp: wifi_views wifi_manager_add_known_network_def save_known_networks_def split: option.split)

lemma inv_remove: "wifi_inv s \<Longrightarrow> wifi_inv (snd (wifi_manager_remove_known_network n s))"
  by (auto simp: wifi_views wifi_manager_remove_known_network_def save_known_networks_def split: option.split)

lemma inv_scan_and_connect: "wifi_inv s \<Longrightarrow> wifi_inv (snd (wifi_manager_scan_and_connect d s))"
  by (auto simp: wifi_views wifi_manager_scan_and_connect_def)

lemma inv_scan_begin: "wifi_inv s \<Longrightarrow> wifi_inv (snd (wifi_manager_scan_begin ok n s))"
  by (auto simp: wifi_views wifi_manager_scan_begin_def)

lemma inv_scan_end: "wifi_inv s \<Longrightarrow> scan_for_caller s \<Longrightarrow> wifi_inv (snd (snd (wifi_manager_scan_end d n s)))"
  by (auto simp: wifi_views wifi_manager_scan_end_def)

lemma inv_reconnect: "wifi_inv s \<Longrightarrow> reconnect_timer s \<noteq> None \<Longrightarrow>
    wifi_inv (reconnect_timer_cb d (s\<lparr>reconnect_timer := None\<rparr>))"
  by (auto simp: wifi_views reconnect_timer_cb_def start_reconnect_scan_def)

lemma inv_timeout: "wifi_inv s \<Longrightarrow> connect_timeout_timer s \<noteq> None \<Longrightarrow>
    wifi_inv (connect_timeout_cb (s\<lparr>connect_timeout_timer := None\<rparr>))"
  by (auto simp: wifi_views connect_timeout_cb_def)

lemma inv_connect_best:
  "wifi_inv s \<Longrightarrow> initialized s \<Longrightarrow> \<not> starting s \<Longrightarrow> wifi_inv (snd (connect_to_best_network d k s))"
  by (auto simp: wifi_views connect_to_best_network_def)


lemma inv_from_scan:
  assumes "wifi_inv s" "initialized s" "\<not> starting s"
  shows "wifi_inv (connect_from_scan_results d (s\<lparr>scan_in_flight := f\<rparr>))"
proof -
  let ?s = "s\<lparr>scan_in_flight := f\<rparr>"
  have sched: "wifi_inv (schedule_reconnect ?s)"
    using assms by (auto simp: wifi_views)
  have conn: "wifi_inv (snd (connect_to_best_network d k ?s))" for k
    using assms by (auto simp: wifi_views connect_to_best_network_def)
  show ?thesis
    using sched conn by (simp add: connect_from_scan_results_def Let_def split_beta split: option.split)
qed

lemma inv_disconnected:
  "wifi_inv s \<Longrightarrow> initialized s \<Longrightarrow> \<not> starting s \<Longrightarrow> wifi_inv (on_disconnected d disc s)"
  by (auto simp: wifi_views on_disconnected_def)

lemma inv_got_ip:
  "wifi_inv s \<Longrightarrow> initialized s \<Longrightarrow> \<not> starting s \<Longrightarrow> wifi_inv (on_got_ip ip s)"
  by (auto simp: wifi_views on_got_ip_def)

lemma inv_event:
  assumes "wifi_inv s" "event_possible e s"
  shows "wifi_inv (wifi_event_handler d e (delivered e s))"
proof (cases e)
  case STA_START
  then show ?thesis
    using assms by (auto simp: wifi_views wifi_event_handler_def delivered_def event_possible_def)
next
  case SCAN_DONE
  then have ok: "initialized s" "\<not> starting s" using assms(2) by (simp_all add: event_possible_def)
  show ?thesis
  proof (cases "\<not> scan_for_caller s \<and> state s = WIFI_MANAGER_STA_DISCONNECTED")
    case True
    then show ?thesis
      using inv_from_scan [OF assms(1) ok] SCAN_DONE by (simp add: wifi_event_handler_def delivered_def)
  next
    case False
    then show ?thesis
      using assms(1) ok SCAN_DONE by (auto simp: wifi_views wifi_event_handler_def delivered_def)
  qed
next
  case (STA_DISCONNECTED disc)
  then show ?thesis
    using assms by (simp add: wifi_event_handler_def delivered_def event_possible_def inv_disconnected)
next
  case (GOT_IP ip)
  then show ?thesis
    using assms by (simp add: wifi_event_handler_def delivered_def event_possible_def inv_got_ip)
qed (use assms in \<open>auto simp: wifi_views wifi_event_handler_def delivered_def event_possible_def\<close>)

lemma inv_ping_task: "wifi_inv s \<Longrightarrow> wifi_inv (reachability_task d s)"
  by (auto simp: wifi_views reachability_task_def)

lemma inv_ping_result: "wifi_inv s \<Longrightarrow> wifi_inv (wifi_manager_record_reachability_result b s)"
  by (auto simp: wifi_views wifi_manager_record_reachability_result_def)

lemma inv_force: "wifi_inv s \<Longrightarrow> wifi_inv (snd (wifi_manager_force_disconnect d s))"
  by (auto simp: wifi_views wifi_manager_force_disconnect_def)

lemmas wifi_inv_ops = inv_init inv_deinit inv_start_station inv_start_ap inv_stop inv_add inv_remove
  inv_scan_and_connect inv_scan_begin inv_scan_end inv_force inv_reconnect inv_timeout inv_event
  inv_ping_task inv_ping_result

lemma wifi_step_inv: "wifi_step s t \<Longrightarrow> wifi_inv s \<Longrightarrow> wifi_inv t"
  by (induction rule: wifi_step.induct) (simp_all add: wifi_inv_ops)

lemma wifi_steps_inv: "wifi_step\<^sup>*\<^sup>* s t \<Longrightarrow> wifi_inv s \<Longrightarrow> wifi_inv t"
  by (induction rule: rtranclp_induct) (auto intro: wifi_step_inv)

lemma wifi_boot_inv: "wifi_boot s \<Longrightarrow> wifi_inv s"
  by (simp add: wifi_boot_def wifi_inv_def)

section \<open>The best network\<close>

text \<open>The scan records that count: known by name and above -100 dBm.\<close>

definition usable_aps :: "drv \<Rightarrow> wifi_t \<Rightarrow> ap_record list" where
  "usable_aps d s = filter (\<lambda>ap. r_rssi ap > -100 \<and>
     r_ssid ap \<in> ssid ` set (take (n_known (wifi_cfg s)) (items (wifi_cfg s)))) (take 16 (snd (d_records d)))"

definition with_priorities :: "(string \<Rightarrow> nat) \<Rightarrow> wifi_t \<Rightarrow> wifi_t" where
  "with_priorities f s = s\<lparr>wifi_cfg := (wifi_cfg s)
     \<lparr>items := map (\<lambda>x. x\<lparr>priority := f (ssid x)\<rparr>) (items (wifi_cfg s))\<rparr>\<rparr>"

definition best_of_scan :: "drv \<Rightarrow> wifi_t \<Rightarrow> nat option \<times> int" where
  "best_of_scan d s = best_known (take (n_known (wifi_cfg s)) (items (wifi_cfg s)))
     (take 16 (snd (d_records d))) (None, -100)"

text \<open>One record: the first known network of that name, if the record beats the best so far.\<close>

lemma match_known_keeps: "r_rssi ap \<le> best \<Longrightarrow> match_known nets k ap (b, best) = (b, best)"
  by (induction nets arbitrary: k) simp_all

lemma match_known_unknown: "r_ssid ap \<notin> ssid ` set nets \<Longrightarrow> match_known nets k ap b = b"
  by (induction nets arbitrary: k; cases b) auto

lemma match_known_beats:
  assumes "r_ssid ap \<in> ssid ` set nets" "r_rssi ap > best"
  shows "\<exists>j < length nets. ssid (nets ! j) = r_ssid ap
           \<and> match_known nets k ap (b, best) = (Some (k + j), r_rssi ap)"
  using assms(1)
proof (induction nets arbitrary: k)
  case (Cons x xs)
  show ?case
  proof (cases "ssid x = r_ssid ap")
    case True
    then show ?thesis using assms(2) by (intro exI [of _ 0]) (simp add: match_known_keeps)
  next
    case False
    with Cons.prems have "r_ssid ap \<in> ssid ` set xs" by auto
    from Cons.IH [OF this, of "k + 1"] obtain j where "j < length xs" "ssid (xs ! j) = r_ssid ap"
      "match_known xs (k + 1) ap (b, best) = (Some (k + 1 + j), r_rssi ap)" by blast
    then show ?thesis using False by (intro exI [of _ "Suc j"]) simp
  qed
qed simp

text \<open>All records: what is found is one of them, and none that counts is stronger.\<close>

definition scan_best :: "known_network list \<Rightarrow> ap_record set \<Rightarrow> nat option \<times> int \<Rightarrow> bool" where
  "scan_best nets aps b \<longleftrightarrow>
     (fst b = None \<longrightarrow> snd b = -100)
     \<and> (\<forall>k. fst b = Some k \<longrightarrow> snd b > -100 \<and> (\<exists>ap \<in> aps. k < length nets \<and> ssid (nets ! k) = r_ssid ap
              \<and> snd b = r_rssi ap))
     \<and> (\<forall>ap \<in> aps. r_ssid ap \<in> ssid ` set nets \<longrightarrow> r_rssi ap \<le> snd b)"

lemma scan_best_step:
  assumes "scan_best nets seen b" shows "scan_best nets (insert ap seen) (match_known nets 0 ap b)"
proof (cases "r_ssid ap \<in> ssid ` set nets \<and> r_rssi ap > snd b")
  case True
  then obtain j where "j < length nets" "ssid (nets ! j) = r_ssid ap"
      "match_known nets 0 ap b = (Some j, r_rssi ap)"
    using match_known_beats [of ap nets "snd b" 0 "fst b"] by auto
  moreover have "snd b \<ge> -100" using assms by (cases "fst b") (auto simp: scan_best_def)
  ultimately show ?thesis using assms True by (fastforce simp: scan_best_def)
next
  case False
  then have "match_known nets 0 ap b = b"
    using match_known_unknown match_known_keeps [of ap "snd b" nets 0 "fst b"] by (cases b) auto
  then show ?thesis using assms False by (auto simp: scan_best_def)
qed

lemma scan_best_all:
  "scan_best nets seen b \<Longrightarrow> scan_best nets (seen \<union> set aps) (best_known nets aps b)"
  by (induction nets aps b arbitrary: seen rule: best_known.induct) (use scan_best_step in fastforce)+

lemma best_of_scan_best:
  "scan_best (take (n_known (wifi_cfg s)) (items (wifi_cfg s))) (set (take 16 (snd (d_records d)))) (best_of_scan d s)"
proof -
  let ?nets = "take (n_known (wifi_cfg s)) (items (wifi_cfg s))"
  have "scan_best ?nets {} (None, -100)" by (simp add: scan_best_def)
  from scan_best_all [OF this, of "take 16 (snd (d_records d))"]
  show ?thesis unfolding best_of_scan_def by (simp only: Un_empty_left)
qed

lemma best_of_scan_usable:
  "ap \<in> set (usable_aps d s) \<longleftrightarrow> ap \<in> set (take 16 (snd (d_records d))) \<and> r_rssi ap > -100
     \<and> r_ssid ap \<in> ssid ` set (take (n_known (wifi_cfg s)) (items (wifi_cfg s)))"
  by (auto simp: usable_aps_def)

lemma best_of_scan_found:
  assumes "fst (best_of_scan d s) = Some k"
  obtains ap where "ap \<in> set (usable_aps d s)" "snd (best_of_scan d s) = r_rssi ap"
    "k < n_known (wifi_cfg s)" "k < length (items (wifi_cfg s))" "ssid (items (wifi_cfg s) ! k) = r_ssid ap"
proof -
  let ?nets = "take (n_known (wifi_cfg s)) (items (wifi_cfg s))"
  from best_of_scan_best [of s d] assms obtain ap where ap: "ap \<in> set (take 16 (snd (d_records d)))"
      "k < length ?nets" "ssid (?nets ! k) = r_ssid ap" "snd (best_of_scan d s) = r_rssi ap"
      "snd (best_of_scan d s) > -100"
    unfolding scan_best_def by blast
  have "r_ssid ap \<in> ssid ` set ?nets" using nth_mem [OF ap(2)] ap(3) by (metis imageI)
  then have "ap \<in> set (usable_aps d s)" using ap unfolding best_of_scan_usable by simp
  moreover have "k < n_known (wifi_cfg s)" "k < length (items (wifi_cfg s))" using ap(2) by simp_all
  moreover from this have "ssid (items (wifi_cfg s) ! k) = r_ssid ap" using ap(3) by simp
  ultimately show ?thesis using that [OF _ ap(4)] by blast
qed

lemma best_of_scan_none:
  assumes "usable_aps d s = []" shows "best_of_scan d s = (None, -100)"
proof (cases "fst (best_of_scan d s)")
  case None
  then show ?thesis using best_of_scan_best [of s d] by (simp add: scan_best_def prod_eq_iff)
next
  case (Some k)
  then show ?thesis by (rule best_of_scan_found) (simp add: assms)
qed

lemma best_of_scan_some:
  assumes "usable_aps d s \<noteq> []"
  obtains k ap where "best_of_scan d s = (Some k, r_rssi ap)" "ap \<in> set (usable_aps d s)"
    "k < n_known (wifi_cfg s)" "ssid (items (wifi_cfg s) ! k) = r_ssid ap"
    "\<forall>other \<in> set (usable_aps d s). r_rssi other \<le> r_rssi ap"
proof -
  have weaker: "r_rssi ap \<le> snd (best_of_scan d s)" if "ap \<in> set (usable_aps d s)" for ap
    using best_of_scan_best [of s d] that unfolding scan_best_def best_of_scan_usable by blast
  from assms obtain x where x: "x \<in> set (usable_aps d s)" by (meson last_in_set)
  have "fst (best_of_scan d s) \<noteq> None"
  proof
    assume "fst (best_of_scan d s) = None"
    then have "snd (best_of_scan d s) = -100" using best_of_scan_best [of s d] by (simp add: scan_best_def)
    then show False using weaker [OF x] x unfolding best_of_scan_usable by simp
  qed
  then obtain k where k: "fst (best_of_scan d s) = Some k" by blast
  then show ?thesis
  proof (rule best_of_scan_found)
    fix ap assume "ap \<in> set (usable_aps d s)" and eq: "snd (best_of_scan d s) = r_rssi ap"
      and rest: "k < n_known (wifi_cfg s)" "ssid (items (wifi_cfg s) ! k) = r_ssid ap"
    moreover have "best_of_scan d s = (Some k, r_rssi ap)" using k eq by (simp add: prod_eq_iff)
    ultimately show ?thesis using weaker that by auto
  qed
qed

lemma match_known_priorities:
  "match_known (map (\<lambda>x. x\<lparr>priority := f (ssid x)\<rparr>) nets) k ap b = match_known nets k ap b"
  by (induction nets arbitrary: k b) (case_tac b; simp)+

lemma best_known_priorities:
  "best_known (map (\<lambda>x. x\<lparr>priority := f (ssid x)\<rparr>) nets) aps b = best_known nets aps b"
  by (induction aps arbitrary: b) (simp_all add: match_known_priorities)

lemma best_of_scan_priorities: "best_of_scan d (with_priorities f s) = best_of_scan d s"
  by (simp add: best_of_scan_def with_priorities_def take_map best_known_priorities)

lemma best_index_bound: "best_of_scan d s = (Some k, r) \<Longrightarrow> k < length (items (wifi_cfg s))"
  by (rule best_of_scan_found [of d s k]) simp_all

lemma schedule_asked [simp]: "asked (schedule_reconnect s) = asked s"
  by (simp add: schedule_reconnect_eq)

lemma connect_asked:
  assumes "k < length (items (wifi_cfg s))"
  shows "asked (snd (connect_to_best_network d k (with_priorities f s))) = asked (snd (connect_to_best_network d k s))"
  using assms
  by (simp add: connect_to_best_network_def with_priorities_def ask_def arm_connect_timeout_def Let_def)

lemma priorities_invisible:
  assumes "fst (d_records d) = ESP_OK"
  shows "asked (connect_from_scan_results d (with_priorities f s)) = asked (connect_from_scan_results d s)"
proof (cases "best_of_scan d s")
  case (Pair b r)
  have both: "best_of_scan d (with_priorities f s) = (b, r)" using Pair by (simp add: best_of_scan_priorities)
  have step: "connect_from_scan_results d t =
      (case b of Some k \<Rightarrow> snd (connect_to_best_network d k t) | None \<Rightarrow> schedule_reconnect t)"
    if "best_of_scan d t = (b, r)" for t
    using that assms by (simp add: connect_from_scan_results_def best_of_scan_def)
  have "asked (with_priorities f s) = asked s" by (simp add: with_priorities_def)
  then show ?thesis
    using best_index_bound [of d s] Pair connect_asked [of _ s]
    by (simp add: step [OF both] step [OF Pair] split: option.split)
qed

text \<open>C14. The manager never gives up. Once a connection has been asked for in station mode, then
  after any sequence of calls, driver events, failed driver calls and timers: while the manager
  is disconnected, a timer is armed or a scan has still to report, and while it is connecting, the
  connection timeout is armed. Every path that loses the link or fails an attempt leads to another
  attempt.\<close>

theorem wifi_always_tries_again:
  assumes "wifi_boot s0" "wifi_step\<^sup>*\<^sup>* s0 s" "engaged s"
  shows "(state s = WIFI_MANAGER_STA_DISCONNECTED \<longrightarrow>
            reconnect_timer s \<noteq> None \<or> connect_timeout_timer s \<noteq> None
            \<or> scan_in_flight s \<or> scan_for_caller s)
       \<and> (state s = WIFI_MANAGER_STA_CONNECTING \<longrightarrow> connect_timeout_timer s \<noteq> None)"
  using wifi_steps_inv [OF assms(2) wifi_boot_inv [OF assms(1)]] assms(3)
  unfolding wifi_inv_def attempt_pending_def by blast

text \<open>The backoff is what the configuration says, within bounds. The delay
  \<open>schedule_reconnect\<close> arms, computed in 64-bit words, is the reconnect delay doubled for
  every scan since the link was up (at most 22 times), capped at the scan interval, both raised to
  a second; nothing overflows. And in every reachable state an armed reconnect timer lies between
  one second and the scan interval, so the radio never scans continuously.\<close>

theorem wifi_backoff_bounded:
  "unat (the (reconnect_timer (schedule_reconnect s)))
     = 1000 * min (max 1000 (unat (scan_interval_ms (wifi_cfg s))))
                  (max 1000 (unat (reconnect_delay_ms (wifi_cfg s))) * 2 ^ min 22 (unat (reconnect_attempts s)))
   \<and> (wifi_boot s0 \<longrightarrow> wifi_step\<^sup>*\<^sup>* s0 s \<longrightarrow> reconnect_timer s = Some us \<longrightarrow>
        1000000 \<le> unat us \<and> unat us \<le> 1000 * max 1000 (unat (scan_interval_ms (wifi_cfg s))))"
proof (intro conjI impI)
  show "unat (the (reconnect_timer (schedule_reconnect s)))
     = 1000 * min (max 1000 (unat (scan_interval_ms (wifi_cfg s))))
                  (max 1000 (unat (reconnect_delay_ms (wifi_cfg s))) * 2 ^ min 22 (unat (reconnect_attempts s)))"
    using backoff_us_value [of s] by (simp add: clamped_def)
next
  assume "wifi_boot s0" "wifi_step\<^sup>*\<^sup>* s0 s" "reconnect_timer s = Some us"
  with wifi_steps_inv wifi_boot_inv have "wifi_inv s" by blast
  with \<open>reconnect_timer s = Some us\<close>
  show "1000000 \<le> unat us" "unat us \<le> 1000 * max 1000 (unat (scan_interval_ms (wifi_cfg s)))"
    by (simp_all add: wifi_inv_def clamped_def)
qed

text \<open>A roam that goes nowhere leaves the link announced. When the connected manager is told
  the station roams (a disconnect with reason 12 or 207) and the new access point never answers,
  the connection timeout makes the manager disconnected, but nobody is told: the last link event
  posted is still the one that said the link is up, unless the driver happens to report a further
  disconnect. In contrast, in every reachable state the manager calls connected, the link was last
  announced as up.\<close>

theorem wifi_failed_roam_stays_announced:
  assumes "wifi_boot s0" "wifi_step\<^sup>*\<^sup>* s0 s" "state s = WIFI_MANAGER_STA_CONNECTED"
    and "reason = WIFI_REASON_BSS_TRANSITION_DISASSOC \<or> reason = WIFI_REASON_ROAMING"
  shows "link_posted (posted s)
    \<and> (let r = wifi_event_handler d (STA_DISCONNECTED (Some (reason, v))) s;
           t = connect_timeout_cb (r\<lparr>connect_timeout_timer := None\<rparr>) in
         state r = WIFI_MANAGER_STA_CONNECTING \<and> connect_timeout_timer r \<noteq> None
         \<and> state t = WIFI_MANAGER_STA_DISCONNECTED \<and> link_posted (posted t))"
proof -
  have "link_posted (posted s)"
    using wifi_steps_inv [OF assms(2) wifi_boot_inv [OF assms(1)]] assms(3) by (simp add: wifi_inv_def)
  then show ?thesis
    using assms(3,4)
    by (auto simp: wifi_event_handler_def on_disconnected_def connect_timeout_cb_def Let_def)
qed

text \<open>The strongest known network is joined. From the first sixteen records of a scan,
  \<open>connect_from_scan_results\<close> considers those that carry the name of a known network and are
  above -100 dBm. When there is none, another attempt is scheduled and nothing else happens; when
  there is one, the manager joins a known network whose access point has the strongest signal of
  them. The \<open>priority\<close> of the known networks has no part in it: whatever they are set to, the
  driver is asked the same.\<close>

theorem wifi_joins_strongest_known:
  assumes "fst (d_records d) = ESP_OK"
  shows "(usable_aps d s = [] \<longrightarrow> connect_from_scan_results d s = schedule_reconnect s)
    \<and> (usable_aps d s \<noteq> [] \<longrightarrow>
        (\<exists>ap \<in> set (usable_aps d s). \<exists>k < n_known (wifi_cfg s).
           (\<forall>other \<in> set (usable_aps d s). r_rssi other \<le> r_rssi ap)
           \<and> ssid (items (wifi_cfg s) ! k) = r_ssid ap
           \<and> connect_from_scan_results d s = snd (connect_to_best_network d k s)))
    \<and> asked (connect_from_scan_results d (with_priorities f s)) = asked (connect_from_scan_results d s)"
proof (intro conjI impI)
  show "connect_from_scan_results d s = schedule_reconnect s" if "usable_aps d s = []"
    using best_of_scan_none [OF that] assms by (simp add: connect_from_scan_results_def best_of_scan_def)
next
  assume "usable_aps d s \<noteq> []"
  then obtain k ap where "best_of_scan d s = (Some k, r_rssi ap)" "ap \<in> set (usable_aps d s)"
      "k < n_known (wifi_cfg s)" "ssid (items (wifi_cfg s) ! k) = r_ssid ap"
      "\<forall>other \<in> set (usable_aps d s). r_rssi other \<le> r_rssi ap"
    by (rule best_of_scan_some)
  then show "\<exists>ap \<in> set (usable_aps d s). \<exists>k < n_known (wifi_cfg s).
           (\<forall>other \<in> set (usable_aps d s). r_rssi other \<le> r_rssi ap)
           \<and> ssid (items (wifi_cfg s) ! k) = r_ssid ap
           \<and> connect_from_scan_results d s = snd (connect_to_best_network d k s)"
    using assms by (auto simp: connect_from_scan_results_def best_of_scan_def Let_def)
next
  show "asked (connect_from_scan_results d (with_priorities f s)) = asked (connect_from_scan_results d s)"
    using assms by (rule priorities_invisible)
qed

section \<open>A run\<close>

definition run_drv :: drv where
  "run_drv = \<lparr>d_check = \<lambda>i. ESP_OK, d_mode = MODE_NULL, d_scan = ESP_FAIL,
     d_records = (ESP_OK, [\<lparr>r_ssid = ''far'', r_rssi = -80, r_bssid = [], r_primary = 1\<rparr>,
                           \<lparr>r_ssid = ''home'', r_rssi = -50, r_bssid = [], r_primary = 6\<rparr>]),
     d_set_config = ESP_OK, d_connect = ESP_OK, d_disconnect = ESP_OK,
     d_ap_info = (ESP_OK, \<lparr>r_ssid = ''home'', r_rssi = -50, r_bssid = [], r_primary = 6\<rparr>),
     d_clients = 0, d_time_us = 7, d_resolved = True, d_session = True\<rparr>"

definition run_cfg :: wifi_config where
  "run_cfg = \<lparr>hostname = ''node'',
     items = [\<lparr>ssid = ''far'', password = ''p'', priority = 9\<rparr>, \<lparr>ssid = ''home'', password = ''q'', priority = 0\<rparr>],
     n_known = 2, ap_ssid = ''setup'', ap_password = [], ap_channel = 1, ap_max_connections = 4,
     connection_timeout_ms = 10000, scan_interval_ms = 60000, reconnect_delay_ms = 5000,
     power_save = False, use_roaming = True, reachability_host = []\<rparr>"

definition run_boot :: wifi_t where
  "run_boot = \<lparr>initialized = False, state = WIFI_MANAGER_STA_DISCONNECTED, wifi_cfg = run_cfg,
     reachability_started = False, consecutive_reachability_count = 0, ping_session = False,
     reconnect_timer = None, connect_timeout_timer = None, ip_addr = [], scan_for_caller = False,
     reconnect_attempts = 0, link_losses = 0, roams = 0, last_disconnect_reason = 0,
     last_disconnect_rssi = 0, last_disconnect_us = 0, halted = False, asked = [], posted = [],
     scan_in_flight = False, starting = False, engaged = False\<rparr>"

definition run_started :: wifi_t where
  "run_started = wifi_event_handler run_drv STA_START (delivered STA_START
     (snd (wifi_manager_start_station_mode run_drv (snd (wifi_manager_init run_drv run_cfg run_boot)))))"

definition run_trying :: wifi_t where
  "run_trying = snd (wifi_manager_scan_and_connect run_drv run_started)"

definition run_up :: wifi_t where
  "run_up = wifi_event_handler run_drv (GOT_IP ''10.0.0.2'') (delivered (GOT_IP ''10.0.0.2'') run_trying)"

lemmas run_defs = run_drv_def run_cfg_def run_boot_def

lemma run_started_eq: "run_started = \<lparr>initialized = True, state = WIFI_MANAGER_STA_DISCONNECTED, wifi_cfg = run_cfg,
     reachability_started = False, consecutive_reachability_count = 0, ping_session = False,
     reconnect_timer = None, connect_timeout_timer = None, ip_addr = [], scan_for_caller = False,
     reconnect_attempts = 0, link_losses = 0, roams = 0, last_disconnect_reason = 0,
     last_disconnect_rssi = 0, last_disconnect_us = 0, halted = False,
     asked = [Set_hostname ''node'', Set_mode MODE_STA, Wifi_start, Set_ps False], posted = [],
     scan_in_flight = False, starting = False, engaged = False\<rparr>"
  by (simp add: run_started_def run_defs wifi_event_handler_def delivered_def wifi_manager_init_def
      wifi_manager_start_station_mode_def load_known_networks_def checks_def ask_def Let_def clamp_ms_def
      MIN_SCAN_INTERVAL_MS_def MIN_CONNECTION_TIMEOUT_MS_def MIN_RECONNECT_DELAY_MS_def)

lemma run_boot_ok: "wifi_boot run_boot"
  by (simp add: wifi_boot_def run_boot_def)

lemma run_trying_eq: "run_trying = schedule_reconnect (ask (Scan_start False) (run_started\<lparr>engaged := True\<rparr>))"
  by (simp add: run_trying_def wifi_manager_scan_and_connect_def run_started_eq run_drv_def)

lemma run_trying_fields:
  "engaged run_trying" "\<not> halted run_trying" "initialized run_trying" "\<not> starting run_trying"
  "state run_trying = WIFI_MANAGER_STA_DISCONNECTED" "wifi_cfg run_trying = run_cfg"
  "reconnect_timer run_trying \<noteq> None" "posted run_trying = []"
  by (simp_all add: run_trying_eq run_started_eq)

lemma run_started_reached: "wifi_step\<^sup>*\<^sup>* run_boot run_started"
proof -
  let ?i = "snd (wifi_manager_init run_drv run_cfg run_boot)"
  let ?m = "snd (wifi_manager_start_station_mode run_drv ?i)"
  have i: "\<not> halted ?i" "initialized ?i"
    by (simp_all add: run_defs wifi_manager_init_def load_known_networks_def checks_def Let_def)
  then have m: "\<not> halted ?m" "initialized ?m" "starting ?m"
    by (simp_all add: run_drv_def wifi_manager_start_station_mode_def checks_def Let_def)
  have 1: "wifi_step run_boot ?i" by (rule wifi_step.init) (simp add: run_boot_def)
  have 2: "wifi_step ?i ?m" by (rule wifi_step.start_station) (rule i)
  have 3: "wifi_step ?m run_started"
    unfolding run_started_def by (rule wifi_step.event) (use m in \<open>simp_all add: event_possible_def\<close>)
  from 1 2 3 show ?thesis by (meson rtranclp.rtrancl_refl rtranclp.rtrancl_into_rtrancl)
qed

lemma run_trying_reached: "wifi_step\<^sup>*\<^sup>* run_boot run_trying"
proof -
  have "wifi_step run_started run_trying"
    unfolding run_trying_def by (rule wifi_step.scan_and_connect) (simp add: run_started_eq)
  with run_started_reached show ?thesis by (rule rtranclp.rtrancl_into_rtrancl)
qed

lemma run_up_reached: "wifi_step\<^sup>*\<^sup>* run_boot run_up"
proof -
  have "wifi_step run_trying run_up"
    unfolding run_up_def by (rule wifi_step.event) (simp_all add: run_trying_fields event_possible_def)
  with run_trying_reached show ?thesis by (rule rtranclp.rtrancl_into_rtrancl)
qed

lemma run_up_state: "state run_up = WIFI_MANAGER_STA_CONNECTED"
  by (simp add: run_up_def wifi_event_handler_def on_got_ip_def delivered_def Let_def)

theorem wifi_always_tries_again_witness:
  "engaged run_trying \<and> state run_trying = WIFI_MANAGER_STA_DISCONNECTED
   \<and> \<not> (reconnect_timer run_trying = None \<and> connect_timeout_timer run_trying = None
      \<and> \<not> scan_in_flight run_trying \<and> \<not> scan_for_caller run_trying)"
  using wifi_always_tries_again [OF run_boot_ok run_trying_reached run_trying_fields(1)] run_trying_fields(1,5)
  by blast

theorem wifi_backoff_bounded_witness:
  "reconnect_timer run_trying \<noteq> None \<and> unat (the (reconnect_timer (schedule_reconnect run_boot))) = 5000000
   \<and> unat (the (reconnect_timer run_trying)) \<le> 60000000"
proof -
  obtain us where us: "reconnect_timer run_trying = Some us" using run_trying_fields(7) by blast
  then have "unat us \<le> 1000 * max 1000 (unat (scan_interval_ms (wifi_cfg run_trying)))"
    using wifi_backoff_bounded [of run_trying run_boot us] run_boot_ok run_trying_reached by blast
  then have "unat us \<le> 60000000" by (simp add: run_trying_fields run_cfg_def)
  moreover have "unat (the (reconnect_timer (schedule_reconnect run_boot))) = 5000000"
    using wifi_backoff_bounded [of run_boot] by (simp add: run_boot_def run_cfg_def)
  ultimately show ?thesis using us by simp
qed

theorem wifi_failed_roam_stays_announced_witness:
  "let r = wifi_event_handler run_drv (STA_DISCONNECTED (Some (207, -70))) run_up;
       t = connect_timeout_cb (r\<lparr>connect_timeout_timer := None\<rparr>) in
   state t = WIFI_MANAGER_STA_DISCONNECTED \<and> link_posted (posted t)"
  using wifi_failed_roam_stays_announced [OF run_boot_ok run_up_reached run_up_state,
      where reason = 207 and d = run_drv and v = "-70"]
  by (simp add: WIFI_REASON_ROAMING_def Let_def)

theorem wifi_joins_strongest_known_witness:
  "usable_aps run_drv run_started \<noteq> []
   \<and> (\<exists>ap \<in> set (usable_aps run_drv run_started). \<exists>k < 2. ssid (items run_cfg ! k) = r_ssid ap
        \<and> (\<forall>other \<in> set (usable_aps run_drv run_started). r_rssi other \<le> r_rssi ap)
        \<and> connect_from_scan_results run_drv run_started
           = snd (connect_to_best_network run_drv k run_started))"
proof -
  have "usable_aps run_drv run_started \<noteq> []"
    by (simp add: usable_aps_def run_started_eq run_defs)
  moreover have "fst (d_records run_drv) = ESP_OK" by (simp add: run_drv_def)
  ultimately show ?thesis
    using wifi_joins_strongest_known [of run_drv run_started "\<lambda>x. 0"]
    by (simp add: run_started_eq run_cfg_def) blast
qed

end
