(* ===== verification/I2c_Bus.thy ===== *)
theory I2c_Bus
  imports Prelude
begin

text \<open>
  What the peripheral drivers talk to. The bus, its device, the pins and the scheduler are the
  environment: an operation of them is recorded with its result, and what it answers may depend on
  everything that happened before in any way. A driver's theorem that quantifies over the bus
  therefore holds for every device, present, absent or broken.

  A delay is named by its argument: milliseconds in whole ticks, the same and one tick more so that it lasts
  at least as long, ticks, or a busy wait. Of the bytes a transfer delivers, \<open>f i\<close> is the \<open>i\<close>-th; a frame on an SPI bus delivers as
  many bytes as it sends.
\<close>

datatype bus_op =
    Tx "8 word list"
  | TxRx "8 word list" nat
  | Rx nat
  | Spi "8 word list"
  | Delay_ms nat
  | Delay_past_ms nat
  | Delay_ticks nat
  | Delay_us nat
  | Gpio_level int
  | Gpio_setup int
  | Gpio_release int
  | Isr_service
  | Isr_add int
  | Sem_create
  | Sem_take nat

type_synonym bus_entry = "bus_op \<times> esp_err_t"

record bus =
  trace :: "bus_entry list"
  answer :: "bus_entry list \<Rightarrow> bus_op \<Rightarrow> esp_err_t \<times> (nat \<Rightarrow> 8 word)"

definition bus_call :: "bus_op \<Rightarrow> bus \<Rightarrow> esp_err_t \<times> (nat \<Rightarrow> 8 word) \<times> bus" where
  "bus_call x b = (let (e, f) = answer b (trace b) x in (e, f, b\<lparr>trace := trace b @ [(x, e)]\<rparr>))"

section \<open>What an operation leaves on the record\<close>

text \<open>\<open>grew P b b'\<close>: from \<open>b\<close> to \<open>b'\<close> only entries that satisfy \<open>P\<close> were added.\<close>

definition grew :: "(bus_entry \<Rightarrow> bool) \<Rightarrow> bus \<Rightarrow> bus \<Rightarrow> bool" where
  "grew P b b' \<longleftrightarrow> answer b' = answer b \<and> take (length (trace b)) (trace b') = trace b
     \<and> list_all P (drop (length (trace b)) (trace b'))"

lemma grewI: "answer b' = answer b \<Longrightarrow> trace b' = trace b @ t \<Longrightarrow> list_all P t \<Longrightarrow> grew P b b'"
  by (simp add: grew_def)

lemma grewE:
  assumes "grew P b b'"
  obtains t where "trace b' = trace b @ t" "list_all P t" "answer b' = answer b"
proof (rule that)
  show "trace b' = trace b @ drop (length (trace b)) (trace b')"
    using assms by (metis append_take_drop_id grew_def)
qed (use assms in \<open>simp_all add: grew_def\<close>)

lemma grew_refl [simp, intro]: "grew P b b"
  by (simp add: grew_def)

lemma grew_trans [trans]: "grew P a b \<Longrightarrow> grew P b c \<Longrightarrow> grew P a c"
proof (elim grewE)
  fix t u
  assume "trace b = trace a @ t" "trace c = trace b @ u" "list_all P t" "list_all P u"
    "answer b = answer a" "answer c = answer b"
  then show "grew P a c" by (intro grewI [where t = "t @ u"]) simp_all
qed

lemma grew_mono: "grew P a b \<Longrightarrow> (\<And>x. P x \<Longrightarrow> Q x) \<Longrightarrow> grew Q a b"
  by (auto simp: grew_def list_all_iff)

lemma bus_call_answer [simp]: "answer (snd (snd (bus_call x b))) = answer b"
  by (simp add: bus_call_def split_beta)

lemma bus_call_trace: "trace (snd (snd (bus_call x b))) = trace b @ [(x, fst (bus_call x b))]"
  by (simp add: bus_call_def split_beta)

lemma grew_call: "P (x, fst (bus_call x b)) \<Longrightarrow> grew P b (snd (snd (bus_call x b)))"
  by (rule grewI [where t = "[(x, fst (bus_call x b))]"]) (simp_all add: bus_call_trace)

text \<open>The entries that are not writes to a device.\<close>

definition quiet :: "(bus_entry \<Rightarrow> bool) \<Rightarrow> bool" where
  "quiet P \<longleftrightarrow> (\<forall>x e. (\<forall>bs. x \<noteq> Tx bs) \<longrightarrow> P (x, e))"

lemma quietD: "quiet P \<Longrightarrow> (\<And>bs. x \<noteq> Tx bs) \<Longrightarrow> P (x, e)"
  by (simp add: quiet_def)

lemma grew_quiet_call: "quiet P \<Longrightarrow> (\<And>bs. x \<noteq> Tx bs) \<Longrightarrow> grew P b (snd (snd (bus_call x b)))"
  by (rule grew_call) (rule quietD)

section \<open>A device that is a file of registers\<close>

text \<open>The ordinary case: bytes written after a register number go to that register and the ones
  after it, bytes read come from there. \<open>reg_file\<close> is the content after a sequence of
  operations, from an initial one.\<close>

fun store_bytes :: "8 word \<Rightarrow> 8 word list \<Rightarrow> (8 word \<Rightarrow> 8 word) \<Rightarrow> (8 word \<Rightarrow> 8 word)" where
  "store_bytes r [] m = m"
| "store_bytes r (b # bs) m = store_bytes (r + 1) bs (m(r := b))"

fun reg_effect :: "bus_op \<Rightarrow> (8 word \<Rightarrow> 8 word) \<Rightarrow> (8 word \<Rightarrow> 8 word)" where
  "reg_effect (Tx (r # bs)) m = store_bytes r bs m"
| "reg_effect x m = m"

definition reg_file :: "(8 word \<Rightarrow> 8 word) \<Rightarrow> bus_entry list \<Rightarrow> (8 word \<Rightarrow> 8 word)" where
  "reg_file m tr = foldl (\<lambda>m (x, e). if e = ESP_OK then reg_effect x m else m) m tr"

lemma reg_file_snoc [simp]:
  "reg_file m (tr @ [(x, e)]) = (if e = ESP_OK then reg_effect x (reg_file m tr) else reg_file m tr)"
  by (simp add: reg_file_def)

definition reg_device :: "(8 word \<Rightarrow> 8 word) \<Rightarrow> bus_entry list \<Rightarrow> bus_op \<Rightarrow> esp_err_t \<times> (nat \<Rightarrow> 8 word)" where
  "reg_device m tr x =
     (case x of TxRx bs n \<Rightarrow> (ESP_OK, \<lambda>i. reg_file m tr (hd bs + of_nat i)) | _ \<Rightarrow> (ESP_OK, \<lambda>i. 0))"

end
