(* ===== verification/Floating.thy ===== *)
theory Floating
  imports Complex_Main
begin

text \<open>
  The C types \<open>double\<close> and \<open>float\<close>. The drivers only add, multiply, divide, compare, round and take roots, so
  their models take the operations as a record; nothing in them depends on a particular
  arithmetic. \<open>real_fp\<close> is exact arithmetic: a theorem about it says what the formulas
  compute, and leaves aside the rounding of the hardware and the values that are not finite.
\<close>

record 'd fp =
  fp_of_int :: "int \<Rightarrow> 'd"
  fp_lit :: "rat \<Rightarrow> 'd"
  fp_add :: "'d \<Rightarrow> 'd \<Rightarrow> 'd"
  fp_sub :: "'d \<Rightarrow> 'd \<Rightarrow> 'd"
  fp_mul :: "'d \<Rightarrow> 'd \<Rightarrow> 'd"
  fp_div :: "'d \<Rightarrow> 'd \<Rightarrow> 'd"
  fp_sqrt :: "'d \<Rightarrow> 'd"
  fp_hypot :: "'d \<Rightarrow> 'd \<Rightarrow> 'd"
  fp_abs :: "'d \<Rightarrow> 'd"
  fp_less :: "'d \<Rightarrow> 'd \<Rightarrow> bool"
  fp_le :: "'d \<Rightarrow> 'd \<Rightarrow> bool"
  fp_eq :: "'d \<Rightarrow> 'd \<Rightarrow> bool"
  fp_finite :: "'d \<Rightarrow> bool"
  fp_trunc :: "'d \<Rightarrow> int"
  fp_truncf :: "'d \<Rightarrow> 'd"
  fp_lround :: "'d \<Rightarrow> int"

definition fp_zero :: "'d fp \<Rightarrow> 'd" where "fp_zero fp = fp_of_int fp 0"

text \<open>Halves go away from zero, as \<open>lround\<close> takes them.\<close>

definition round_half_away :: "real \<Rightarrow> int" where
  "round_half_away x = (if 0 \<le> x then \<lfloor>x + 1 / 2\<rfloor> else \<lceil>x - 1 / 2\<rceil>)"

lemma round_half_away_near: "\<bar>real_of_int (round_half_away x) - x\<bar> \<le> 1 / 2"
  using floor_correct [of "x + 1 / 2"] ceiling_correct [of "x - 1 / 2"]
  unfolding round_half_away_def by (cases "0 \<le> x") (simp_all only: if_True if_False, linarith+)

lemma round_half_away_mono: "x \<le> y \<Longrightarrow> round_half_away x \<le> round_half_away y"
proof -
  assume "x \<le> y"
  then consider "0 \<le> x" "0 \<le> y" | "x < 0" "0 \<le> y" | "x < 0" "y < 0" by linarith
  then show ?thesis
  proof cases
    case 1
    with \<open>x \<le> y\<close> show ?thesis by (simp add: round_half_away_def floor_mono)
  next
    case 2
    have "round_half_away x \<le> 0" using 2 by (simp add: round_half_away_def ceiling_le_iff)
    also have "0 \<le> round_half_away y" using 2 by (simp add: round_half_away_def le_floor_iff)
    finally show ?thesis .
  next
    case 3
    with \<open>x \<le> y\<close> show ?thesis by (simp add: round_half_away_def ceiling_mono)
  qed
qed

definition real_fp :: "real fp" where
  "real_fp = \<lparr>fp_of_int = real_of_int, fp_lit = real_of_rat, fp_add = (+), fp_sub = (-), fp_mul = (*),
     fp_div = (/), fp_sqrt = sqrt, fp_hypot = (\<lambda>x y. sqrt (x * x + y * y)), fp_abs = abs,
     fp_less = (<), fp_le = (\<le>), fp_eq = (=), fp_finite = (\<lambda>x. True),
     fp_trunc = (\<lambda>x. if 0 \<le> x then \<lfloor>x\<rfloor> else \<lceil>x\<rceil>),
     fp_truncf = (\<lambda>x. if 0 \<le> x then real_of_int \<lfloor>x\<rfloor> else real_of_int \<lceil>x\<rceil>),
     fp_lround = round_half_away\<rparr>"

lemma real_fp_simps [simp]:
  "fp_of_int real_fp = real_of_int" "fp_lit real_fp = real_of_rat" "fp_add real_fp = (+)"
  "fp_sub real_fp = (-)" "fp_mul real_fp = (*)" "fp_div real_fp = (/)" "fp_sqrt real_fp = sqrt"
  "fp_hypot real_fp = (\<lambda>x y. sqrt (x * x + y * y))" "fp_abs real_fp = abs" "fp_less real_fp = (<)"
  "fp_le real_fp = (\<le>)" "fp_eq real_fp = (=)" "fp_finite real_fp = (\<lambda>x. True)"
  "fp_trunc real_fp = (\<lambda>x. if 0 \<le> x then \<lfloor>x\<rfloor> else \<lceil>x\<rceil>)"
  "fp_truncf real_fp = (\<lambda>x. if 0 \<le> x then real_of_int \<lfloor>x\<rfloor> else real_of_int \<lceil>x\<rceil>)"
  "fp_lround real_fp = round_half_away"
  "fp_zero real_fp = 0"
  by (simp_all add: real_fp_def fp_zero_def)

end
