(* ===== verification/Batch.thy ===== *)
theory Batch
  imports Prelude Floating
begin

unbundle bit_operations_syntax

text \<open>
  Batches of conversions, which the load cell drivers take in the same way: the sampling loop of
  \<open>nau7802_read_average\<close> and \<open>hx711_priv_read_average\<close>, over whatever reads one
  conversion, and the statistics it keeps.
\<close>

text \<open>The variables of the sampling loop.\<close>

record 'd welford =
  total :: 'd
  running_mean :: 'd
  m2 :: 'd
  low :: int
  high :: int

definition welford_step :: "'d fp \<Rightarrow> int \<Rightarrow> int \<Rightarrow> 'd welford \<Rightarrow> 'd welford" where
  "welford_step fp i v a =
    (let delta = fp_sub fp (fp_of_int fp v) (running_mean a);
         rm = fp_add fp (running_mean a) (fp_div fp delta (fp_of_int fp (i + 1)))
     in a\<lparr>total := fp_add fp (total a) (fp_of_int fp v),
          running_mean := rm,
          m2 := fp_add fp (m2 a) (fp_mul fp delta (fp_sub fp (fp_of_int fp v) rm)),
          low := (if v < low a then v else low a),
          high := (if v > high a then v else high a)\<rparr>)"

text \<open>The loop: \<open>i\<close> is its counter, \<open>left\<close> the iterations left. It returns the error
  and the counter.\<close>

fun sample_loop :: "'d fp \<Rightarrow> ('h \<Rightarrow> esp_err_t \<times> int \<times> 'h) \<Rightarrow> nat \<Rightarrow> int \<Rightarrow> 'd welford \<Rightarrow> 'h
       \<Rightarrow> esp_err_t \<times> int \<times> 'd welford \<times> 'h" where
  "sample_loop fp rd 0 i a h = (ESP_OK, i, a, h)"
| "sample_loop fp rd (Suc left) i a h =
     (let (e, v, h) = rd h in
      if e \<noteq> ESP_OK then (e, i, a, h)
      else sample_loop fp rd left (i + 1) (welford_step fp i v a) h)"

definition welford_start :: "'d fp \<Rightarrow> 'd welford" where
  "welford_start fp = \<lparr>total = fp_zero fp, running_mean = fp_zero fp, m2 = fp_zero fp,
     low = 2 ^ 31 - 1, high = - (2 ^ 31)\<rparr>"

lemma sample_loop_numeral:
  "sample_loop fp rd (numeral k) i a h =
     (let (e, v, h) = rd h in
      if e \<noteq> ESP_OK then (e, i, a, h)
      else sample_loop fp rd (pred_numeral k) (i + 1) (welford_step fp i v a) h)"
  by (simp only: numeral_eq_Suc sample_loop.simps)

section \<open>Sign extension\<close>

text \<open>How both drivers extend the sign of a 24-bit number.\<close>

definition sign24 :: "32 word \<Rightarrow> int" where
  "sign24 v = sint (if v AND 0x800000 \<noteq> 0 then v OR 0xFF000000 else v)"

lemma sign24_value:
  assumes vu: "uint v = u" and lt: "u < 16777216"
  shows "sign24 v = (if u < 8388608 then u else u - 16777216)"
proof -
  have rng: "0 \<le> u" "u < 16777216" using vu lt by auto
  have b: "bit v 23 \<longleftrightarrow> \<not> u < 8388608"
  proof -
    have "bit v 23 \<longleftrightarrow> bit (uint v) 23" by (simp add: bit_uint_iff)
    also have "\<dots> \<longleftrightarrow> odd (u div 8388608)" by (simp add: vu bit_iff_odd)
    also have "\<dots> \<longleftrightarrow> \<not> u < 8388608"
    proof (cases "u < 8388608")
      case True then show ?thesis using rng by simp
    next
      case False
      then have "u div 8388608 = 1" using rng by (simp add: int_div_pos_eq)
      then show ?thesis using False by simp
    qed
    finally show ?thesis .
  qed
  have m: "(v AND 0x800000 \<noteq> 0) = bit v 23"
    using and_exp_eq_0_iff_not_bit [of v 23] by simp
  let ?w = "if v AND 0x800000 \<noteq> 0 then v OR 0xFF000000 else v"
  have hi: "(0xFF000000 :: 32 word) = push_bit 24 (mask 8)" by (simp add: mask_eq_exp_minus_1 push_bit_eq_mult)
  have vb: "bit v n = bit u n" if "n < 32" for n
    using that by (simp add: bit_uint_iff flip: vu)
  have ub: "\<not> bit u n" if "24 \<le> n" for n
  proof -
    have "u = take_bit 24 u" using rng by (simp add: take_bit_int_eq_self)
    then have "bit u n = (n < 24 \<and> bit u n)" by (metis bit_take_bit_iff)
    then show ?thesis using that by simp
  qed
  have "sint ?w = signed_take_bit 23 u"
  proof (rule bit_eqI)
    fix n
    have "bit (sint ?w) n = bit ?w (min n 31)" by (auto simp: bit_sint_iff min_def dest: bit_imp_le_length)
    also have "\<dots> = (bit u (min n 31) \<or> bit u 23 \<and> 24 \<le> min n 31)"
      unfolding hi using m vb [of "min n 31"] vb [of 23] by (auto simp: bit_simps hi)
    also have "\<dots> = bit u (min n 23)"
      using ub [of n] ub [of 31] by (auto simp: min_def not_le)
    finally show "bit (sint ?w) n = bit (signed_take_bit 23 u) n" by (simp add: bit_signed_take_bit_iff min.commute)
  qed
  moreover have "signed_take_bit 23 u = (if u < 8388608 then u else u - 16777216)"
  proof (cases "u < 8388608")
    case True
    then show ?thesis using rng by (simp add: signed_take_bit_int_eq_self)
  next
    case False
    have "signed_take_bit 23 u = signed_take_bit 23 (u - 16777216)" 
      by (rule signed_take_bit_eq_iff_take_bit_eq [THEN iffD2]) (simp add: take_bit_eq_mod)
    also have "\<dots> = u - 16777216" using False rng by (simp add: signed_take_bit_int_eq_self)
    finally show ?thesis using False by simp
  qed
  ultimately show ?thesis by (simp add: sign24_def)
qed

lemma sign24_range:
  assumes "uint v < 16777216"
  shows "- 8388608 \<le> sign24 v \<and> sign24 v < 8388608"
proof (cases "uint v < 8388608")
  case True
  then have "sign24 v = uint v" using sign24_value [OF refl assms] by simp
  with True uint_ge_0 [of v] show ?thesis by linarith
next
  case False
  then show ?thesis using sign24_value [OF refl assms] assms by simp
qed

section \<open>What a batch is\<close>

text \<open>The conversions themselves, in order.\<close>

fun read_all :: "('h \<Rightarrow> esp_err_t \<times> int \<times> 'h) \<Rightarrow> nat \<Rightarrow> 'h \<Rightarrow> esp_err_t \<times> int list \<times> 'h" where
  "read_all rd 0 h = (ESP_OK, [], h)"
| "read_all rd (Suc n) h =
     (let (e, v, h) = rd h in
      if e \<noteq> ESP_OK then (e, [], h)
      else let (e, vs, h) = read_all rd n h in (e, v # vs, h))"

fun welford_all :: "'d fp \<Rightarrow> int \<Rightarrow> int list \<Rightarrow> 'd welford \<Rightarrow> 'd welford" where
  "welford_all fp i [] a = a"
| "welford_all fp i (v # vs) a = welford_all fp (i + 1) vs (welford_step fp i v a)"

lemma sample_loop_all:
  "sample_loop fp rd n i a h =
     (let (e, vs, h') = read_all rd n h in (e, i + int (length vs), welford_all fp i vs a, h'))"
  by (induction n arbitrary: i a h) (simp_all add: Let_def split_beta)

text \<open>In exact arithmetic the running quantities are what Welford's method says: the mean, and the
  sum of squares about it.\<close>

definition welford_inv :: "int list \<Rightarrow> real welford \<Rightarrow> bool" where
  "welford_inv xs a \<longleftrightarrow>
     (let k = real (length xs); S = (\<Sum>x\<leftarrow>xs. real_of_int x); Q = (\<Sum>x\<leftarrow>xs. (real_of_int x)\<^sup>2) in
      total a = S \<and> running_mean a * k = S \<and> m2 a * k = k * Q - S\<^sup>2
      \<and> (xs = [] \<longrightarrow> running_mean a = 0 \<and> m2 a = 0))"

lemma welford_inv_step:
  assumes "welford_inv xs a" shows "welford_inv (xs @ [x]) (welford_step real_fp (int (length xs)) x a)"
proof (cases "xs = []")
  case True
  then show ?thesis using assms by (simp add: welford_inv_def welford_step_def Let_def power2_eq_square)
next
  case False
  define k S Q where d: "k = real (length xs)" "S = (\<Sum>x\<leftarrow>xs. real_of_int x)" "Q = (\<Sum>x\<leftarrow>xs. (real_of_int x)\<^sup>2)"
  define y where "y = real_of_int x"
  define m where "m = running_mean a"
  define q where "q = m2 a"
  have k: "k > 0" using False by (simp add: d)
  have inv: "total a = S" "m * k = S" "q * k = k * Q - S\<^sup>2"
    using assms by (simp_all add: welford_inv_def Let_def d m_def q_def)
  define m' where "m' = m + (y - m) / (k + 1)"
  define q' where "q' = q + (y - m) * (y - m')"
  have m': "m' * (k + 1) = S + y"
  proof -
    have "m' * (k + 1) = m * (k + 1) + (y - m)" using k by (simp add: m'_def field_simps)
    then show ?thesis using inv by (simp add: algebra_simps)
  qed
  have "q' * (k + 1) * k = ((k + 1) * (Q + y\<^sup>2) - (S + y)\<^sup>2) * k"
  proof -
    have 1: "(y - m') * (k + 1) = k * y - S" using m' by (simp add: algebra_simps)
    have 2: "(y - m) * k = k * y - S" using inv by (simp add: algebra_simps)
    have "q' * (k + 1) * k = (q * k) * (k + 1) + ((y - m) * k) * ((y - m') * (k + 1))"
      by (simp add: q'_def algebra_simps)
    also have "\<dots> = (k * Q - S\<^sup>2) * (k + 1) + (k * y - S)\<^sup>2"
      by (simp only: 1 2 inv power2_eq_square)
    also have "\<dots> = ((k + 1) * (Q + y\<^sup>2) - (S + y)\<^sup>2) * k"
      by (simp add: power2_eq_square algebra_simps)
    finally show ?thesis .
  qed
  then have q': "q' * (k + 1) = (k + 1) * (Q + y\<^sup>2) - (S + y)\<^sup>2" using k by simp
  show ?thesis
    using inv m' q'
    by (simp add: welford_inv_def welford_step_def Let_def m'_def q'_def m_def q_def y_def add.commute flip: d)
qed

lemma welford_inv_all:
  "welford_inv us a \<Longrightarrow> welford_inv (us @ vs) (welford_all real_fp (int (length us)) vs a)"
proof (induction vs arbitrary: us a)
  case Nil
  then show ?case by simp
next
  case (Cons v vs)
  from Cons.IH [OF welford_inv_step [OF Cons.prems, of v]] show ?case by (simp add: add.commute)
qed

lemma welford_extremes:
  "low (welford_all fp i vs a) = fold min vs (low a)" "high (welford_all fp i vs a) = fold max vs (high a)"
proof (induction vs arbitrary: i a)
  case (Cons v vs)
  {
    case 1
    show ?case by (simp add: Cons.IH welford_step_def Let_def min_def)
  next
    case 2
    show ?case by (simp add: Cons.IH welford_step_def Let_def max_def)
  }
qed simp_all

lemma fold_extremes:
  fixes vs :: "int list"
  assumes "vs \<noteq> []"
  shows "\<forall>v \<in> set vs. v \<le> L \<Longrightarrow> fold min vs L = Min (set vs)"
    and "\<forall>v \<in> set vs. L \<le> v \<Longrightarrow> fold max vs L = Max (set vs)"
proof -
  from assms obtain x xs where vs: "vs = x # xs" by (cases vs) auto
  show "fold min vs L = Min (set vs)" if "\<forall>v \<in> set vs. v \<le> L"
    using that by (simp only: vs Min.set_eq_fold) (simp add: min_absorb1)
  show "fold max vs L = Max (set vs)" if "\<forall>v \<in> set vs. L \<le> v"
    using that by (simp only: vs Max.set_eq_fold) (simp add: max_absorb1)
qed

lemma sum_squares_about_mean:
  fixes f :: "'a \<Rightarrow> real"
  assumes "xs \<noteq> []" "m = (\<Sum>x\<leftarrow>xs. f x) / real (length xs)"
  shows "(\<Sum>x\<leftarrow>xs. (f x - m)\<^sup>2) = (\<Sum>x\<leftarrow>xs. (f x)\<^sup>2) - (\<Sum>x\<leftarrow>xs. f x)\<^sup>2 / real (length xs)"
proof -
  have *: "(\<Sum>x\<leftarrow>xs. (f x - c)\<^sup>2) = (\<Sum>x\<leftarrow>xs. (f x)\<^sup>2) - 2 * c * (\<Sum>x\<leftarrow>xs. f x) + real (length xs) * c\<^sup>2" for c
    by (induction xs) (simp_all add: power2_eq_square algebra_simps)
  have "m * real (length xs) = (\<Sum>x\<leftarrow>xs. f x)" using assms by simp
  then show ?thesis using assms(1) unfolding * [of m] by (simp add: power2_eq_square field_simps)
qed

lemma welford_inv_m2:
  assumes "welford_inv vs w" "vs \<noteq> []"
  shows "m2 w = (\<Sum>v\<leftarrow>vs. (real_of_int v - (\<Sum>v\<leftarrow>vs. real_of_int v) / real (length vs))\<^sup>2)"
proof -
  have "m2 w * real (length vs)
      = (\<Sum>v\<leftarrow>vs. (real_of_int v)\<^sup>2) * real (length vs) - (\<Sum>v\<leftarrow>vs. real_of_int v)\<^sup>2"
    using assms(1) by (simp add: welford_inv_def Let_def mult.commute)
  then show ?thesis
    unfolding sum_squares_about_mean [OF assms(2) refl] using assms(2) by (simp add: field_simps)
qed

section \<open>The contract of a reader\<close>

text \<open>A reader's values are those of a 24-bit converter; then a batch that comes through holds the
  statistics of its conversions.\<close>

locale converter =
  fixes rd :: "'h \<Rightarrow> esp_err_t \<times> int \<times> 'h"
  assumes in_range: "rd h = (ESP_OK, v, h') \<Longrightarrow> - 8388608 \<le> v \<and> v < 8388608"
begin

lemma read_all_ok:
  "read_all rd n h = (ESP_OK, vs, h') \<Longrightarrow> length vs = n \<and> (\<forall>v \<in> set vs. - 8388608 \<le> v \<and> v < 8388608)"
proof (induction n arbitrary: h vs)
  case (Suc n)
  obtain e v g where r: "rd h = (e, v, g)" by (cases "rd h")
  obtain e' us k where a: "read_all rd n g = (e', us, k)" by (cases "read_all rd n g")
  from Suc.prems r a have *: "e = ESP_OK" "e' = ESP_OK" "vs = v # us" "k = h'"
    by (auto simp: Let_def split: if_splits)
  then show ?case using Suc.IH [of g us] a in_range [of h v g] r by simp
qed simp

lemma batch:
  assumes "sample_loop real_fp rd n 0 (welford_start real_fp) h = (ESP_OK, i, w, h')" "n \<ge> 1"
  obtains vs where "read_all rd n h = (ESP_OK, vs, h')" "length vs = n" "vs \<noteq> []" "i = int n"
    "total w / real n = (\<Sum>v\<leftarrow>vs. real_of_int v) / real n"
    "m2 w = (\<Sum>v\<leftarrow>vs. (real_of_int v - (\<Sum>v\<leftarrow>vs. real_of_int v) / real n)\<^sup>2)"
    "low w = Min (set vs)" "high w = Max (set vs)"
    "\<forall>v \<in> set vs. - 8388608 \<le> v \<and> v < 8388608"
proof -
  obtain e vs g where r: "read_all rd n h = (e, vs, g)" by (cases "read_all rd n h")
  have w: "e = ESP_OK" "g = h'" "w = welford_all real_fp 0 vs (welford_start real_fp)" "i = int (length vs)"
    using assms(1) by (simp_all add: sample_loop_all r)
  from read_all_ok [OF r [unfolded w(1)]] assms(2) have len: "length vs = n" "vs \<noteq> []"
    and bnd: "\<forall>v \<in> set vs. - 8388608 \<le> v \<and> v < 8388608" by auto
  have "\<forall>v \<in> set vs. v \<le> 2 ^ 31 - 1" "\<forall>v \<in> set vs. - (2 ^ 31) \<le> v" using bnd by auto
  then have ext: "low w = Min (set vs)" "high w = Max (set vs)"
    using fold_extremes [OF len(2)] by (simp_all add: w(3) welford_extremes welford_start_def)
  have "welford_inv [] (welford_start real_fp)" by (simp add: welford_inv_def welford_start_def)
  from welford_inv_all [OF this, of vs] have inv: "welford_inv vs w" by (simp add: w(3))
  show ?thesis
    by (rule that [OF _ len _ _ _ ext bnd])
      (use r w inv welford_inv_m2 [OF inv len(2)] len in \<open>simp_all add: welford_inv_def Let_def\<close>)
qed

end

lemma extreme_beyond:
  fixes rail :: real
  assumes "vs \<noteq> []"
  shows "real_of_int (Min (set vs)) \<le> - rail \<or> rail \<le> real_of_int (Max (set vs))
           \<longleftrightarrow> (\<exists>v \<in> set vs. \<bar>real_of_int v\<bar> \<ge> rail)"
proof -
  have fin: "finite (set vs)" "set vs \<noteq> {}" using assms by simp_all
  have lo: "real_of_int (Min (set vs)) \<le> - rail \<longleftrightarrow> (\<exists>v \<in> set vs. real_of_int v \<le> - rail)"
    using Min_in [OF fin] Min_le [OF fin(1)] by (meson of_int_le_iff order_trans)
  have hi: "rail \<le> real_of_int (Max (set vs)) \<longleftrightarrow> (\<exists>v \<in> set vs. rail \<le> real_of_int v)"
    using Max_in [OF fin] Max_ge [OF fin(1)] by (meson of_int_le_iff order_trans)
  have "\<bar>x\<bar> \<ge> rail \<longleftrightarrow> x \<le> - rail \<or> rail \<le> x" for x :: real by arith
  then show ?thesis unfolding lo hi by blast
qed


end
