(* ===== verification/Nau7802.thy ===== *)
theory Nau7802
  imports I2c_Bus Batch
begin

unbundle bit_operations_syntax

text \<open>
  The NAU7802 driver, \<open>nau7802/src/nau7802.c\<close>: register transport, the data-ready pin,
  conversions and their statistics, bring-up, the setters of the analog path, status. The bus and
  the pins are those of \<open>I2c_Bus\<close>; arithmetic on \<open>double\<close> is the record of
  \<open>Floating\<close>. A handle is the record \<open>nau\<close>. A call that checks pointers for NULL takes
  the outcome of these checks as its argument \<open>args\<close>; an enumeration is the register encoding
  of its enumerators, as in the header.
\<close>

section \<open>Registers\<close>

definition REG_PU_CTRL :: "8 word" where "REG_PU_CTRL = 0x00"
definition REG_CTRL1 :: "8 word" where "REG_CTRL1 = 0x01"
definition REG_CTRL2 :: "8 word" where "REG_CTRL2 = 0x02"
definition REG_OCAL1_B2 :: "8 word" where "REG_OCAL1_B2 = 0x03"
definition REG_GCAL1_B3 :: "8 word" where "REG_GCAL1_B3 = 0x06"
definition REG_OCAL2_B2 :: "8 word" where "REG_OCAL2_B2 = 0x0A"
definition REG_GCAL2_B3 :: "8 word" where "REG_GCAL2_B3 = 0x0D"
definition REG_ADCO_B2 :: "8 word" where "REG_ADCO_B2 = 0x12"
definition REG_PGA :: "8 word" where "REG_PGA = 0x1B"
definition REG_POWER_CTRL :: "8 word" where "REG_POWER_CTRL = 0x1C"
definition REG_DEVICE_REV :: "8 word" where "REG_DEVICE_REV = 0x1F"
definition PGA_LDOMODE :: "8 word" where "PGA_LDOMODE = 0x40"
definition POWER_PGA_CAP_EN :: "8 word" where "POWER_PGA_CAP_EN = 0x80"
definition REG_ADC_CTRL :: "8 word" where "REG_ADC_CTRL = 0x15"
definition ADC_CHPS_MASK :: "8 word" where "ADC_CHPS_MASK = 0x30"
definition ADC_CTRL_POWER_ON :: "8 word" where "ADC_CTRL_POWER_ON = 0x30"
definition PU_CTRL_RR :: "8 word" where "PU_CTRL_RR = 0x01"
definition PU_CTRL_PUD :: "8 word" where "PU_CTRL_PUD = 0x02"
definition PU_CTRL_PUA :: "8 word" where "PU_CTRL_PUA = 0x04"
definition PU_CTRL_PUR :: "8 word" where "PU_CTRL_PUR = 0x08"
definition PU_CTRL_CS :: "8 word" where "PU_CTRL_CS = 0x10"
definition PU_CTRL_CR :: "8 word" where "PU_CTRL_CR = 0x20"
definition PU_CTRL_AVDDS :: "8 word" where "PU_CTRL_AVDDS = 0x80"
definition CTRL1_GAINS_MASK :: "8 word" where "CTRL1_GAINS_MASK = 0x07"
definition CTRL1_VLDO_MASK :: "8 word" where "CTRL1_VLDO_MASK = 0x38"
definition CTRL2_CALMOD_MASK :: "8 word" where "CTRL2_CALMOD_MASK = 0x03"
definition CTRL2_CALS :: "8 word" where "CTRL2_CALS = 0x04"
definition CTRL2_CAL_ERR :: "8 word" where "CTRL2_CAL_ERR = 0x08"
definition CTRL2_CRS_MASK :: "8 word" where "CTRL2_CRS_MASK = 0x70"
definition CTRL2_CHS :: "8 word" where "CTRL2_CHS = 0x80"
definition CALMOD_OFFSET_INTERNAL :: "8 word" where "CALMOD_OFFSET_INTERNAL = 0x00"
definition CONVERSION_TIMEOUT_MS :: nat where "CONVERSION_TIMEOUT_MS = 1000"
definition CALIBRATION_TIMEOUT_MS :: nat where "CALIBRATION_TIMEOUT_MS = 2000"
definition STALE_CONVERSIONS :: nat where "STALE_CONVERSIONS = 1"
definition SETTLING_CONVERSIONS :: nat where "SETTLING_CONVERSIONS = 3"
definition ANALOG_SETTLE_MS :: nat where "ANALOG_SETTLE_MS = 200"

section \<open>Encoding tables\<close>

definition gain_values :: "int list" where "gain_values = [1, 2, 4, 8, 16, 32, 64, 128]"
definition rate_values :: "int list" where "rate_values = [10, 20, 40, 80, -1, -1, -1, 320]"
definition ldo_millivolts :: "int list" where
  "ldo_millivolts = [4500, 4200, 3900, 3600, 3300, 3000, 2700, 2400]"

definition nau7802_gain_value :: "int \<Rightarrow> int" where
  "nau7802_gain_value g = (if 0 \<le> g \<and> g < 8 then gain_values ! nat g else -1)"

definition nau7802_rate_sps :: "int \<Rightarrow> int" where
  "nau7802_rate_sps r = (if 0 \<le> r \<and> r < 8 then rate_values ! nat r else -1)"

definition nau7802_ldo_millivolts :: "int \<Rightarrow> int" where
  "nau7802_ldo_millivolts l = (if 0 \<le> l \<and> l < 8 then ldo_millivolts ! nat l else -1)"

text \<open>The searching loop the three inverse functions share.\<close>

fun index_of_value :: "int list \<Rightarrow> int \<Rightarrow> int \<Rightarrow> int option" where
  "index_of_value [] v i = None"
| "index_of_value (x # xs) v i = (if x = v then Some i else index_of_value xs v (i + 1))"

definition from_table :: "int list \<Rightarrow> bool \<Rightarrow> int \<Rightarrow> esp_err_t \<times> int option" where
  "from_table t args v =
    (if \<not> args then (ESP_ERR_INVALID_ARG, None)
     else case index_of_value t v 0 of Some i \<Rightarrow> (ESP_OK, Some i) | None \<Rightarrow> (ESP_ERR_INVALID_ARG, None))"

definition nau7802_gain_from_value :: "bool \<Rightarrow> int \<Rightarrow> esp_err_t \<times> int option" where
  "nau7802_gain_from_value args v = from_table gain_values args v"

definition nau7802_rate_from_sps :: "bool \<Rightarrow> int \<Rightarrow> esp_err_t \<times> int option" where
  "nau7802_rate_from_sps args v = from_table rate_values args v"

definition nau7802_ldo_from_millivolts :: "bool \<Rightarrow> int \<Rightarrow> esp_err_t \<times> int option" where
  "nau7802_ldo_from_millivolts args v = from_table ldo_millivolts args v"

text \<open>The tables are inverse to each other on the defined encodings. The rates have three undefined
  rows that hold -1, so a caller who asks for -1 samples a second is given the encoding 4, as if it
  were one.\<close>

lemma tables_inverse:
  "0 \<le> g \<Longrightarrow> g < 8 \<Longrightarrow> nau7802_gain_from_value True (nau7802_gain_value g) = (ESP_OK, Some g)"
  "0 \<le> g \<Longrightarrow> g < 8 \<Longrightarrow> nau7802_ldo_from_millivolts True (nau7802_ldo_millivolts g) = (ESP_OK, Some g)"
  "r \<in> {0, 1, 2, 3, 7} \<Longrightarrow> nau7802_rate_from_sps True (nau7802_rate_sps r) = (ESP_OK, Some r)"
proof -
  show "nau7802_gain_from_value True (nau7802_gain_value g) = (ESP_OK, Some g)"
    "nau7802_ldo_from_millivolts True (nau7802_ldo_millivolts g) = (ESP_OK, Some g)" if "0 \<le> g" "g < 8"
  proof -
    from that have "g = 0 \<or> g = 1 \<or> g = 2 \<or> g = 3 \<or> g = 4 \<or> g = 5 \<or> g = 6 \<or> g = 7" by arith
    then show "nau7802_gain_from_value True (nau7802_gain_value g) = (ESP_OK, Some g)"
      "nau7802_ldo_from_millivolts True (nau7802_ldo_millivolts g) = (ESP_OK, Some g)"
      by (auto simp: nau7802_gain_from_value_def nau7802_gain_value_def gain_values_def from_table_def
          nau7802_ldo_from_millivolts_def nau7802_ldo_millivolts_def ldo_millivolts_def)
  qed
  show "nau7802_rate_from_sps True (nau7802_rate_sps r) = (ESP_OK, Some r)" if "r \<in> {0, 1, 2, 3, 7}"
    using that by (auto simp: nau7802_rate_from_sps_def nau7802_rate_sps_def rate_values_def from_table_def)
qed

lemma rate_of_minus_one: "nau7802_rate_from_sps True (-1) = (ESP_OK, Some 4)" "nau7802_rate_sps 4 = -1"
  by (simp_all add: nau7802_rate_from_sps_def nau7802_rate_sps_def rate_values_def from_table_def)

section \<open>The handle\<close>

record 'd nau_scale =
  tare_counts :: 'd
  tare_stderr :: 'd
  tare_samples :: int
  counts_per_unit :: 'd
  calibrated :: bool
  supplied :: bool

text \<open>\<open>n_dev\<close>: a device handle is installed. \<open>n_signal\<close>: the semaphore exists.
  \<open>n_isr_service\<close> is the one variable of the file that handles share.\<close>

record 'd nau =
  n_dev :: bool
  n_ready :: bool
  n_drdy :: int
  n_signal :: bool
  n_scale :: "'d nau_scale"
  n_isr_service :: bool
  n_bus :: bus

definition zero_scale :: "'d fp \<Rightarrow> 'd nau_scale" where
  "zero_scale fp = \<lparr>tare_counts = fp_zero fp, tare_stderr = fp_zero fp, tare_samples = 0,
     counts_per_unit = fp_zero fp, calibrated = False, supplied = False\<rparr>"

definition nau7802_reset_scale :: "'d fp \<Rightarrow> 'd nau \<Rightarrow> 'd nau" where
  "nau7802_reset_scale fp h = h\<lparr>n_scale := zero_scale fp\<rparr>"

definition on_bus :: "bus_op \<Rightarrow> 'd nau \<Rightarrow> esp_err_t \<times> (nat \<Rightarrow> 8 word) \<times> 'd nau" where
  "on_bus x h = (let (e, f, b) = bus_call x (n_bus h) in (e, f, h\<lparr>n_bus := b\<rparr>))"

section \<open>Transport\<close>

definition read_regs :: "8 word \<Rightarrow> nat \<Rightarrow> 'd nau \<Rightarrow> esp_err_t \<times> 8 word list \<times> 'd nau" where
  "read_regs reg n h =
    (if \<not> n_dev h then (ESP_ERR_INVALID_STATE, [], h)
     else let (e, f, h) = on_bus (TxRx [reg] n) h in
          (e, if e = ESP_OK then map f [0..<n] else [], h))"

text \<open>The variable read into is zero before the call and keeps that when it fails.\<close>

definition read_reg :: "8 word \<Rightarrow> 'd nau \<Rightarrow> esp_err_t \<times> 8 word \<times> 'd nau" where
  "read_reg reg h =
    (let (e, bs, h) = read_regs reg 1 h in (e, if e = ESP_OK then bs ! 0 else 0, h))"

definition write_reg :: "8 word \<Rightarrow> 8 word \<Rightarrow> 'd nau \<Rightarrow> esp_err_t \<times> 'd nau" where
  "write_reg reg v h =
    (if \<not> n_dev h then (ESP_ERR_INVALID_STATE, h)
     else let (e, f, h) = on_bus (Tx [reg, v]) h in (e, h))"

definition update_reg :: "8 word \<Rightarrow> 8 word \<Rightarrow> 8 word \<Rightarrow> 'd nau \<Rightarrow> esp_err_t \<times> 'd nau" where
  "update_reg reg clear_mask set_mask h =
    (let (e, v, h) = read_reg reg h in
     if e \<noteq> ESP_OK then (e, h)
     else write_reg reg ((v AND NOT clear_mask) OR set_mask) h)"

fun be_value :: "8 word list \<Rightarrow> 32 word \<Rightarrow> 32 word" where
  "be_value [] v = v"
| "be_value (b # bs) v = be_value bs (push_bit 8 v OR ucast b)"

definition read_be :: "8 word \<Rightarrow> nat \<Rightarrow> 'd nau \<Rightarrow> esp_err_t \<times> 32 word \<times> 'd nau" where
  "read_be reg n h =
    (if n > 4 then (ESP_ERR_INVALID_ARG, 0, h)
     else let (e, raw, h) = read_regs reg n h in
          if e \<noteq> ESP_OK then (e, 0, h) else (ESP_OK, be_value raw 0, h))"

text \<open>The polling loop, from \<open>waited\<close> on.\<close>

function wait_from :: "8 word \<Rightarrow> 8 word \<Rightarrow> bool \<Rightarrow> nat \<Rightarrow> nat \<Rightarrow> 'd nau \<Rightarrow> esp_err_t \<times> 'd nau" where
  "wait_from reg bits want timeout_ms waited h =
    (if waited \<le> timeout_ms then
       let (e, v, h) = read_reg reg h in
       if e \<noteq> ESP_OK then (e, h)
       else if (v AND bits \<noteq> 0) = want then (ESP_OK, h)
       else let (e, f, h) = on_bus (Delay_past_ms 10) h in
            wait_from reg bits want timeout_ms (waited + 10) h
     else (ESP_ERR_TIMEOUT, h))"
  by pat_completeness auto
termination by (relation "measure (\<lambda>(reg, bits, want, timeout_ms, waited, h). Suc timeout_ms - waited)") auto

declare wait_from.simps [simp del]

definition wait_for_bit :: "8 word \<Rightarrow> 8 word \<Rightarrow> bool \<Rightarrow> nat \<Rightarrow> 'd nau \<Rightarrow> esp_err_t \<times> 'd nau" where
  "wait_for_bit reg bits want timeout_ms h = wait_from reg bits want timeout_ms 0 h"

section \<open>The data-ready pin\<close>

definition release_drdy :: "'d nau \<Rightarrow> 'd nau" where
  "release_drdy h =
    (if n_drdy h < 0 then h
     else let (e, f, h) = on_bus (Gpio_release (n_drdy h)) h in h\<lparr>n_drdy := -1\<rparr>)"

text \<open>\<open>valid_pin\<close> is the chip's list of usable pins.\<close>

definition configure_drdy :: "(int \<Rightarrow> bool) \<Rightarrow> int \<Rightarrow> 'd nau \<Rightarrow> esp_err_t \<times> 'd nau" where
  "configure_drdy valid_pin pin h =
    (if \<not> valid_pin pin then (ESP_ERR_INVALID_ARG, h)
     else
       let (made, h) = (if n_signal h then (True, h)
                        else let (e, f, h) = on_bus Sem_create h in
                             (e = ESP_OK, h\<lparr>n_signal := (e = ESP_OK)\<rparr>)) in
       if \<not> made then (ESP_ERR_NO_MEM, h)
       else
         let h = release_drdy h; (e, f, h) = on_bus (Gpio_setup pin) h in
         if e \<noteq> ESP_OK then (e, h)
         else
           let (e, h) = (if n_isr_service h then (ESP_OK, h)
                         else let (e, f, h) = on_bus Isr_service h;
                                  e = (if e = ESP_ERR_INVALID_STATE then ESP_OK else e) in
                              if e \<noteq> ESP_OK then (e, h) else (ESP_OK, h\<lparr>n_isr_service := True\<rparr>)) in
           if e \<noteq> ESP_OK then (e, h)
           else
             let (e, f, h) = on_bus (Isr_add pin) h in
             if e \<noteq> ESP_OK then
               let (e', f, h) = on_bus (Gpio_release pin) h in (e, h)
             else (ESP_OK, h\<lparr>n_drdy := pin\<rparr>))"

definition wait_for_drdy :: "nat \<Rightarrow> 'd nau \<Rightarrow> esp_err_t \<times> 'd nau" where
  "wait_for_drdy timeout_ms h =
    (let (e, f, h) = on_bus (Sem_take 0) h;
         (e, f, h) = on_bus (Gpio_level (n_drdy h)) h in
     if f 0 = 1 then (ESP_OK, h)
     else let (e, f, h) = on_bus (Sem_take timeout_ms) h in
          if e \<noteq> ESP_OK then (ESP_ERR_TIMEOUT, h) else (ESP_OK, h))"

section \<open>Conversions\<close>

definition decode24 :: "8 word list \<Rightarrow> int" where
  "decode24 raw =
    (let v = push_bit 16 (ucast (raw ! 0)) OR push_bit 8 (ucast (raw ! 1)) OR ucast (raw ! 2) :: 32 word;
         v = (if v AND 0x800000 \<noteq> 0 then v OR 0xFF000000 else v)
     in sint v)"

definition read_raw :: "'d nau \<Rightarrow> esp_err_t \<times> int \<times> 'd nau" where
  "read_raw h =
    (let (e, h) = (if n_drdy h \<ge> 0 then wait_for_drdy CONVERSION_TIMEOUT_MS h
                   else wait_for_bit REG_PU_CTRL PU_CTRL_CR True CONVERSION_TIMEOUT_MS h) in
     if e \<noteq> ESP_OK then (e, 0, h)
     else
       let (e, raw, h) = read_regs REG_ADCO_B2 3 h in
       if e \<noteq> ESP_OK then (e, 0, h) else (ESP_OK, decode24 raw, h))"

definition nau7802_read_raw :: "bool \<Rightarrow> 'd nau \<Rightarrow> esp_err_t \<times> int \<times> 'd nau" where
  "nau7802_read_raw args h =
    (if \<not> args then (ESP_ERR_INVALID_ARG, 0, h)
     else if \<not> n_ready h then (ESP_ERR_INVALID_STATE, 0, h)
     else read_raw h)"

record 'd nau_stats =
  mean :: 'd
  stderr_mean :: 'd
  low_count :: int
  high_count :: int
  samples :: int
  saturated :: bool
  saturation_percent :: 'd

definition zero_stats :: "'d fp \<Rightarrow> 'd nau_stats" where
  "zero_stats fp = \<lparr>mean = fp_zero fp, stderr_mean = fp_zero fp, low_count = 0, high_count = 0, samples = 0,
     saturated = False, saturation_percent = fp_zero fp\<rparr>"

definition NAU7802_FULL_SCALE :: "'d fp \<Rightarrow> 'd" where "NAU7802_FULL_SCALE fp = fp_lit fp 8388608"
definition ADC_SATURATION_FRACTION :: "'d fp \<Rightarrow> 'd" where "ADC_SATURATION_FRACTION fp = fp_lit fp (99 / 100)"

definition nau7802_read_average :: "'d fp \<Rightarrow> bool \<Rightarrow> int \<Rightarrow> 'd nau \<Rightarrow> esp_err_t \<times> 'd nau_stats option \<times> 'd nau" where
  "nau7802_read_average fp args n h =
    (if \<not> args \<or> n < 1 then (ESP_ERR_INVALID_ARG, None, h)
     else if \<not> n_ready h then (ESP_ERR_INVALID_STATE, None, h)
     else
       let (e, i, a, h) = sample_loop fp read_raw (nat n) 0 (welford_start fp) h in
       if e \<noteq> ESP_OK then (e, Some ((zero_stats fp)\<lparr>samples := i\<rparr>), h)
       else
         let variance = (if n > 1 then fp_div fp (m2 a) (fp_of_int fp (n - 1)) else fp_zero fp);
             rail = fp_mul fp (ADC_SATURATION_FRACTION fp) (NAU7802_FULL_SCALE fp);
             flow = fp_of_int fp (low a); fhigh = fp_of_int fp (high a);
             worst = (if fp_less fp (fp_abs fp fhigh) (fp_abs fp flow) then fp_abs fp flow
                      else fp_abs fp fhigh)
         in (ESP_OK,
             Some \<lparr>mean = fp_div fp (total a) (fp_of_int fp n),
                   stderr_mean = (if n > 1 then fp_sqrt fp (fp_div fp variance (fp_of_int fp n)) else fp_zero fp),
                   low_count = low a, high_count = high a, samples = n,
                   saturated = (fp_le fp flow (fp_sub fp (fp_zero fp) rail) \<or> fp_le fp rail fhigh),
                   saturation_percent = fp_div fp (fp_mul fp (fp_lit fp 100) worst) (NAU7802_FULL_SCALE fp)\<rparr>,
             h))"

section \<open>Calibration, restart, discards\<close>

definition run_calibration :: "'d nau \<Rightarrow> esp_err_t \<times> 'd nau" where
  "run_calibration h =
    (let (e, h) = update_reg REG_CTRL2 (CTRL2_CALMOD_MASK OR CTRL2_CALS OR CTRL2_CAL_ERR)
                    (CALMOD_OFFSET_INTERNAL OR CTRL2_CALS) h in
     if e \<noteq> ESP_OK then (e, h)
     else
       let (e, h) = wait_for_bit REG_CTRL2 CTRL2_CALS False CALIBRATION_TIMEOUT_MS h in
       if e \<noteq> ESP_OK then (e, h)
       else
         let (e, ctrl2, h) = read_reg REG_CTRL2 h in
         if e = ESP_OK \<and> ctrl2 AND CTRL2_CAL_ERR \<noteq> 0 then (ESP_ERR_NAU7802_CAL_FAILED, h)
         else (ESP_OK, h))"

fun discard_conversions :: "nat \<Rightarrow> 'd nau \<Rightarrow> esp_err_t \<times> 'd nau" where
  "discard_conversions 0 h = (ESP_OK, h)"
| "discard_conversions (Suc n) h =
     (let (e, v, h) = read_raw h in
      if e \<noteq> ESP_OK then (e, h) else discard_conversions n h)"

definition restart_conversions :: "'d nau \<Rightarrow> esp_err_t \<times> bool \<times> 'd nau" where
  "restart_conversions h =
    (let (e, pu_ctrl, h) = read_reg REG_PU_CTRL h in
     if e \<noteq> ESP_OK then (e, False, h)
     else if pu_ctrl AND PU_CTRL_CS = 0 then
       let (e, h) = write_reg REG_PU_CTRL (pu_ctrl OR PU_CTRL_CS) h in
       if e \<noteq> ESP_OK then (e, False, h) else (ESP_OK, True, h)
     else (ESP_OK, False, h))"

datatype nau7802_stage_t =
    NAU7802_STAGE_NONE
  | NAU7802_STAGE_PROBE
  | NAU7802_STAGE_RESET
  | NAU7802_STAGE_POWER_DIGITAL
  | NAU7802_STAGE_POWER_READY
  | NAU7802_STAGE_SET_LDO
  | NAU7802_STAGE_SET_GAIN
  | NAU7802_STAGE_POWER_ANALOG
  | NAU7802_STAGE_ADC_CTRL
  | NAU7802_STAGE_CALIBRATE
  | NAU7802_STAGE_START
  | NAU7802_STAGE_SETTLE

record change_report =
  c_failed_stage :: nau7802_stage_t
  scale_invalidated :: bool
  scale_was_supplied :: bool
  conversions_restarted :: bool
  discards :: nat
  settling_conversions :: nat

definition apply_analog_change :: "'d fp \<Rightarrow> 'd nau \<Rightarrow> esp_err_t \<times> change_report \<times> 'd nau" where
  "apply_analog_change fp h =
    (let r = \<lparr>c_failed_stage = NAU7802_STAGE_NONE,
              scale_invalidated = (calibrated (n_scale h) \<or> tare_samples (n_scale h) > 0),
              scale_was_supplied = supplied (n_scale h), conversions_restarted = False,
              discards = STALE_CONVERSIONS + SETTLING_CONVERSIONS,
              settling_conversions = SETTLING_CONVERSIONS\<rparr>;
         h = nau7802_reset_scale fp h;
         (e, h) = run_calibration h in
     if e \<noteq> ESP_OK then (e, r\<lparr>c_failed_stage := NAU7802_STAGE_CALIBRATE\<rparr>, h)
     else
       let (e, again, h) = restart_conversions h; r = r\<lparr>conversions_restarted := again\<rparr> in
       if e \<noteq> ESP_OK then (e, r\<lparr>c_failed_stage := NAU7802_STAGE_START\<rparr>, h)
       else
         let (e, h) = discard_conversions (discards r) h in
         if e \<noteq> ESP_OK then (e, r\<lparr>c_failed_stage := NAU7802_STAGE_SETTLE\<rparr>, h)
         else (ESP_OK, r, h))"

section \<open>Lifecycle\<close>

text \<open>\<open>calloc\<close> is the memory's answer.\<close>

definition nau7802_create ::
    "'d fp \<Rightarrow> (int \<Rightarrow> bool) \<Rightarrow> bool \<Rightarrow> bool \<Rightarrow> bool \<Rightarrow> int \<Rightarrow> bool \<Rightarrow> bus \<Rightarrow> esp_err_t \<times> 'd nau option" where
  "nau7802_create fp valid_pin args calloc_ok dev drdy isr_service b =
    (if \<not> args then (ESP_ERR_INVALID_ARG, None)
     else if \<not> calloc_ok then (ESP_ERR_NO_MEM, None)
     else
       let h = \<lparr>n_dev = dev, n_ready = False, n_drdy = -1, n_signal = False, n_scale = zero_scale fp,
                n_isr_service = isr_service, n_bus = b\<rparr> in
       if drdy \<ge> 0 then
         let (e, h) = configure_drdy valid_pin drdy h in
         if e \<noteq> ESP_OK then (e, None) else (ESP_OK, Some h)
       else (ESP_OK, Some h))"

text \<open>What is left of the pins after the handle is freed.\<close>

definition nau7802_delete :: "bool \<Rightarrow> 'd nau \<Rightarrow> esp_err_t \<times> bus" where
  "nau7802_delete args h =
    (if \<not> args then (ESP_ERR_INVALID_ARG, n_bus h) else (ESP_OK, n_bus (release_drdy h)))"

definition nau7802_set_device :: "bool \<Rightarrow> 'd nau \<Rightarrow> esp_err_t \<times> 'd nau" where
  "nau7802_set_device args h =
    (if \<not> args then (ESP_ERR_INVALID_ARG, h) else (ESP_OK, h\<lparr>n_dev := True\<rparr>))"

definition nau7802_is_ready :: "'d nau option \<Rightarrow> bool" where
  "nau7802_is_ready h = (case h of None \<Rightarrow> False | Some h \<Rightarrow> n_ready h)"

definition nau7802_set_drdy :: "(int \<Rightarrow> bool) \<Rightarrow> bool \<Rightarrow> int \<Rightarrow> 'd nau \<Rightarrow> esp_err_t \<times> 'd nau" where
  "nau7802_set_drdy valid_pin args pin h =
    (if \<not> args then (ESP_ERR_INVALID_ARG, h)
     else if pin < 0 then (ESP_OK, release_drdy h)
     else configure_drdy valid_pin pin h)"

definition nau7802_drdy_gpio :: "'d nau option \<Rightarrow> int" where
  "nau7802_drdy_gpio h = (case h of None \<Rightarrow> -1 | Some h \<Rightarrow> n_drdy h)"

definition nau7802_drdy_level :: "'d nau \<Rightarrow> int \<times> 'd nau" where
  "nau7802_drdy_level h =
    (if n_drdy h < 0 then (-1, h)
     else let (e, f, h) = on_bus (Gpio_level (n_drdy h)) h in (uint (f 0), h))"

section \<open>Bring-up\<close>

record 'd bringup_opts =
  use_internal_ldo :: bool
  o_ldo :: int
  set_gain :: bool
  o_gain :: int
  set_scale :: bool
  o_counts_per_unit :: 'd

record bringup_report =
  failed_stage :: nau7802_stage_t
  revision :: "8 word"
  b_gain :: int
  gain_was_requested :: bool
  adc_ctrl :: "8 word"
  chps :: "8 word"
  chopper_off :: bool
  adc_ctrl_valid :: bool
  ldo_enabled :: bool
  b_ldo :: int
  b_drdy_gpio :: int
  settling_discards :: nat

text \<open>The power-up is a sequence of stages; each part below is a stretch of it and says which
  stage failed, with the error, or \<open>NAU7802_STAGE_NONE\<close>. First: probe, reset, digital
  power.\<close>

type_synonym stage_result = "nau7802_stage_t \<times> esp_err_t"

definition bring_up_digital :: "'d nau \<Rightarrow> stage_result \<times> 8 word \<times> 'd nau" where
  "bring_up_digital h =
    (let (e, rev, h) = read_reg REG_DEVICE_REV h in
     if e \<noteq> ESP_OK then ((NAU7802_STAGE_PROBE, e), 0, h)
     else
       let (e, h) = write_reg REG_PU_CTRL PU_CTRL_RR h;
           (e, h) = (if e = ESP_OK then write_reg REG_PU_CTRL 0 h else (e, h)) in
       if e \<noteq> ESP_OK then ((NAU7802_STAGE_RESET, e), rev, h)
       else
         let (e, h) = write_reg REG_PU_CTRL PU_CTRL_PUD h in
         if e \<noteq> ESP_OK then ((NAU7802_STAGE_POWER_DIGITAL, e), rev, h)
         else
           let (e, h) = wait_for_bit REG_PU_CTRL PU_CTRL_PUR True CONVERSION_TIMEOUT_MS h in
           if e \<noteq> ESP_OK then ((NAU7802_STAGE_POWER_READY, e), rev, h)
           else ((NAU7802_STAGE_NONE, ESP_OK), rev, h))"

text \<open>The regulator's voltage, while it is off.\<close>

definition bring_up_ldo :: "'d bringup_opts \<Rightarrow> 'd nau \<Rightarrow> stage_result \<times> 'd nau" where
  "bring_up_ldo opts h =
    (if use_internal_ldo opts then
       let (e, h) = update_reg REG_CTRL1 CTRL1_VLDO_MASK (word_of_int (push_bit 3 (o_ldo opts))) h in
       if e \<noteq> ESP_OK then ((NAU7802_STAGE_SET_LDO, e), h) else ((NAU7802_STAGE_NONE, ESP_OK), h)
     else ((NAU7802_STAGE_NONE, ESP_OK), h))"

text \<open>The gain and the analog section.\<close>

definition bring_up_supply :: "'d bringup_opts \<Rightarrow> 'd nau \<Rightarrow> stage_result \<times> 'd nau" where
  "bring_up_supply opts h =
    (let (e, h) = (if set_gain opts
                   then update_reg REG_CTRL1 CTRL1_GAINS_MASK (word_of_int (o_gain opts)) h
                   else (ESP_OK, h)) in
     if e \<noteq> ESP_OK then ((NAU7802_STAGE_SET_GAIN, e), h)
     else
       let pu_ctrl = PU_CTRL_PUD OR PU_CTRL_PUA;
           pu_ctrl = (if use_internal_ldo opts then pu_ctrl OR PU_CTRL_AVDDS else pu_ctrl);
           (e, h) = write_reg REG_PU_CTRL pu_ctrl h in
       if e \<noteq> ESP_OK then ((NAU7802_STAGE_POWER_ANALOG, e), h)
       else ((NAU7802_STAGE_NONE, ESP_OK), h))"

text \<open>From there to settled conversions; the caller has made the handle ready and dropped the
  scale.\<close>

definition bring_up_convert :: "'d nau \<Rightarrow> stage_result \<times> 'd nau" where
  "bring_up_convert h =
    (let (e, h) = write_reg REG_ADC_CTRL ADC_CTRL_POWER_ON h in
     if e \<noteq> ESP_OK then ((NAU7802_STAGE_ADC_CTRL, e), h)
     else
       let (e', f, h) = on_bus (Delay_ms ANALOG_SETTLE_MS) h;
           (e, h) = run_calibration h in
       if e \<noteq> ESP_OK then ((NAU7802_STAGE_CALIBRATE, e), h)
       else
         let (e, h) = update_reg REG_PU_CTRL 0 PU_CTRL_CS h in
         if e \<noteq> ESP_OK then ((NAU7802_STAGE_START, e), h)
         else
           let (e, h) = discard_conversions SETTLING_CONVERSIONS h in
           if e \<noteq> ESP_OK then ((NAU7802_STAGE_SETTLE, e), h)
           else ((NAU7802_STAGE_NONE, ESP_OK), h))"

text \<open>What is read back at the end, and the scale factor that comes with the options.\<close>

definition bring_up_read_back :: "'d bringup_opts \<Rightarrow> bringup_report \<Rightarrow> 'd nau \<Rightarrow> bringup_report \<times> 'd nau" where
  "bring_up_read_back opts r h =
    (let (e, ctrl1, h) = read_reg REG_CTRL1 h;
         r = (if e = ESP_OK then r\<lparr>b_gain := uint (ctrl1 AND CTRL1_GAINS_MASK)\<rparr>
              else if set_gain opts then r\<lparr>b_gain := o_gain opts\<rparr> else r);
         (e, adc, h) = read_reg REG_ADC_CTRL h;
         r = (if e = ESP_OK then
                let c = drop_bit 4 (adc AND ADC_CHPS_MASK) in
                r\<lparr>adc_ctrl := adc, adc_ctrl_valid := True, chps := c, chopper_off := (c = 3)\<rparr>
              else r);
         h = (if set_scale opts
              then h\<lparr>n_scale := (n_scale h)\<lparr>counts_per_unit := o_counts_per_unit opts, calibrated := True,
                                           supplied := True\<rparr>\<rparr>
              else h)
     in (r, h))"

definition nau7802_bring_up ::
    "'d fp \<Rightarrow> bool \<Rightarrow> 'd bringup_opts \<Rightarrow> 'd nau \<Rightarrow> esp_err_t \<times> bringup_report option \<times> 'd nau" where
  "nau7802_bring_up fp args opts h =
    (if \<not> args then (ESP_ERR_INVALID_ARG, None, h)
     else if set_scale opts \<and> (fp_eq fp (o_counts_per_unit opts) (fp_zero fp)
                               \<or> \<not> fp_finite fp (o_counts_per_unit opts))
     then (ESP_ERR_INVALID_ARG, None, h)
     else
       let r = \<lparr>failed_stage = NAU7802_STAGE_NONE, revision = 0, b_gain = 0, gain_was_requested = set_gain opts,
                adc_ctrl = 0, chps = 0, chopper_off = False, adc_ctrl_valid = False,
                ldo_enabled = use_internal_ldo opts, b_ldo = o_ldo opts, b_drdy_gpio = n_drdy h,
                settling_discards = SETTLING_CONVERSIONS\<rparr>;
           ((stage, e), rev, h) = bring_up_digital h;
           ((stage, e), h) = (if stage = NAU7802_STAGE_NONE then bring_up_ldo opts h else ((stage, e), h));
           ((stage, e), h) = (if stage = NAU7802_STAGE_NONE then bring_up_supply opts h else ((stage, e), h));
           ((stage, e), h) = (if stage = NAU7802_STAGE_NONE
                              then bring_up_convert (nau7802_reset_scale fp (h\<lparr>n_ready := True\<rparr>))
                              else ((stage, e), h));
           r = r\<lparr>failed_stage := stage, revision := rev\<rparr> in
       if stage \<noteq> NAU7802_STAGE_NONE then (e, Some r, h\<lparr>n_ready := False\<rparr>)
       else let (r, h) = bring_up_read_back opts r h in (ESP_OK, Some r, h))"

section \<open>Configuration\<close>

definition set_field ::
    "'d fp \<Rightarrow> 8 word \<Rightarrow> 8 word \<Rightarrow> 8 word \<Rightarrow> bool \<Rightarrow> 'd nau \<Rightarrow> esp_err_t \<times> change_report option \<times> 'd nau" where
  "set_field fp reg clear_mask set_mask args h =
    (if \<not> args then (ESP_ERR_INVALID_ARG, None, h)
     else if \<not> n_ready h then (ESP_ERR_INVALID_STATE, None, h)
     else
       let (e, h) = update_reg reg clear_mask set_mask h in
       if e \<noteq> ESP_OK then (e, None, h)
       else let (e, r, h) = apply_analog_change fp h in (e, Some r, h))"

definition get_reg_checked :: "8 word \<Rightarrow> bool \<Rightarrow> 'd nau \<Rightarrow> esp_err_t \<times> 8 word \<times> 'd nau" where
  "get_reg_checked reg args h =
    (if \<not> args then (ESP_ERR_INVALID_ARG, 0, h)
     else if \<not> n_ready h then (ESP_ERR_INVALID_STATE, 0, h)
     else read_reg reg h)"

definition nau7802_get_gain :: "bool \<Rightarrow> 'd nau \<Rightarrow> esp_err_t \<times> int option \<times> 'd nau" where
  "nau7802_get_gain args h =
    (let (e, ctrl1, h) = get_reg_checked REG_CTRL1 args h in
     if e \<noteq> ESP_OK then (e, None, h) else (ESP_OK, Some (uint (ctrl1 AND CTRL1_GAINS_MASK)), h))"

definition nau7802_set_gain :: "'d fp \<Rightarrow> int \<Rightarrow> bool \<Rightarrow> 'd nau \<Rightarrow> esp_err_t \<times> change_report option \<times> 'd nau" where
  "nau7802_set_gain fp gain args h =
    (if nau7802_gain_value gain < 0 then (ESP_ERR_INVALID_ARG, None, h)
     else set_field fp REG_CTRL1 CTRL1_GAINS_MASK (word_of_int gain) args h)"

definition nau7802_get_rate :: "bool \<Rightarrow> 'd nau \<Rightarrow> esp_err_t \<times> int option \<times> 'd nau" where
  "nau7802_get_rate args h =
    (let (e, ctrl2, h) = get_reg_checked REG_CTRL2 args h in
     if e \<noteq> ESP_OK then (e, None, h) else (ESP_OK, Some (uint (drop_bit 4 (ctrl2 AND CTRL2_CRS_MASK))), h))"

definition nau7802_set_rate :: "'d fp \<Rightarrow> int \<Rightarrow> bool \<Rightarrow> 'd nau \<Rightarrow> esp_err_t \<times> change_report option \<times> 'd nau" where
  "nau7802_set_rate fp rate args h =
    (if nau7802_rate_sps rate < 0 then (ESP_ERR_INVALID_ARG, None, h)
     else set_field fp REG_CTRL2 CTRL2_CRS_MASK (word_of_int (push_bit 4 rate)) args h)"

datatype nau7802_channel_t = NAU7802_CHANNEL_A | NAU7802_CHANNEL_B

definition nau7802_get_channel :: "bool \<Rightarrow> 'd nau \<Rightarrow> esp_err_t \<times> nau7802_channel_t option \<times> 'd nau" where
  "nau7802_get_channel args h =
    (let (e, ctrl2, h) = get_reg_checked REG_CTRL2 args h in
     if e \<noteq> ESP_OK then (e, None, h)
     else (ESP_OK, Some (if ctrl2 AND CTRL2_CHS \<noteq> 0 then NAU7802_CHANNEL_B else NAU7802_CHANNEL_A), h))"

definition nau7802_set_channel ::
    "'d fp \<Rightarrow> nau7802_channel_t \<Rightarrow> bool \<Rightarrow> 'd nau \<Rightarrow> esp_err_t \<times> change_report option \<times> 'd nau" where
  "nau7802_set_channel fp channel args h =
     set_field fp REG_CTRL2 CTRL2_CHS (if channel = NAU7802_CHANNEL_B then CTRL2_CHS else 0) args h"

definition nau7802_get_ldomode :: "bool \<Rightarrow> 'd nau \<Rightarrow> esp_err_t \<times> bool option \<times> 'd nau" where
  "nau7802_get_ldomode args h =
    (let (e, pga, h) = get_reg_checked REG_PGA args h in
     if e \<noteq> ESP_OK then (e, None, h) else (ESP_OK, Some (pga AND PGA_LDOMODE \<noteq> 0), h))"

definition nau7802_set_ldomode :: "'d fp \<Rightarrow> bool \<Rightarrow> bool \<Rightarrow> 'd nau \<Rightarrow> esp_err_t \<times> change_report option \<times> 'd nau" where
  "nau7802_set_ldomode fp steady args h =
     set_field fp REG_PGA PGA_LDOMODE (if steady then PGA_LDOMODE else 0) args h"

definition nau7802_get_pga_cap :: "bool \<Rightarrow> 'd nau \<Rightarrow> esp_err_t \<times> bool option \<times> 'd nau" where
  "nau7802_get_pga_cap args h =
    (let (e, power, h) = get_reg_checked REG_POWER_CTRL args h in
     if e \<noteq> ESP_OK then (e, None, h) else (ESP_OK, Some (power AND POWER_PGA_CAP_EN \<noteq> 0), h))"

definition nau7802_set_pga_cap :: "'d fp \<Rightarrow> bool \<Rightarrow> bool \<Rightarrow> 'd nau \<Rightarrow> esp_err_t \<times> change_report option \<times> 'd nau" where
  "nau7802_set_pga_cap fp enable args h =
     set_field fp REG_POWER_CTRL POWER_PGA_CAP_EN (if enable then POWER_PGA_CAP_EN else 0) args h"

section \<open>Status\<close>

record cal_regs =
  cal_regs_valid :: bool
  ocal_raw :: "32 word"
  ocal_counts :: int
  gcal_raw :: "32 word"

definition ocal_decode :: "32 word \<Rightarrow> int" where
  "ocal_decode ocal =
    (let magnitude = sint (ocal AND 0x7FFFFF) in if ocal AND 0x800000 \<noteq> 0 then - magnitude else magnitude)"

definition read_calibration_regs :: "nau7802_channel_t \<Rightarrow> 'd nau \<Rightarrow> cal_regs \<times> 'd nau" where
  "read_calibration_regs channel h =
    (let b = (channel = NAU7802_CHANNEL_B);
         bad = \<lparr>cal_regs_valid = False, ocal_raw = 0, ocal_counts = 0, gcal_raw = 0\<rparr>;
         (e, ocal, h) = read_be (if b then REG_OCAL2_B2 else REG_OCAL1_B2) 3 h in
     if e \<noteq> ESP_OK then (bad, h)
     else
       let (e, gcal, h) = read_be (if b then REG_GCAL2_B3 else REG_GCAL1_B3) 4 h in
       if e \<noteq> ESP_OK then (bad, h)
       else (\<lparr>cal_regs_valid = True, ocal_raw = ocal, ocal_counts = ocal_decode ocal, gcal_raw = gcal\<rparr>, h))"

record 'd nau_status =
  st_revision :: "8 word"
  st_pu_ctrl :: "8 word"
  st_ctrl1 :: "8 word"
  st_ctrl2 :: "8 word"
  digital_up :: bool
  analog_up :: bool
  power_ready :: bool
  data_ready :: bool
  conversions_started :: bool
  internal_ldo :: bool
  st_gain :: int
  st_ldo :: int
  st_rate :: int
  rate_sps :: int
  st_channel :: nau7802_channel_t
  cal_error :: bool
  st_cal :: cal_regs
  gcal_ratio :: 'd
  pga_valid :: bool
  st_pga :: "8 word"
  st_power :: "8 word"
  ldomode :: bool
  pga_cap :: bool
  st_adc_ctrl_valid :: bool
  st_adc_ctrl :: "8 word"
  st_chps :: "8 word"
  st_chopper_off :: bool
  st_drdy_gpio :: int
  st_drdy_level :: int
  brought_up :: bool
  st_scale :: "'d nau_scale"

text \<open>The four registers without which there is no status, read until one fails.\<close>

definition read_status_regs :: "'d nau \<Rightarrow> esp_err_t \<times> (8 word \<times> 8 word \<times> 8 word \<times> 8 word) \<times> 'd nau" where
  "read_status_regs h =
    (let (e, pu, h) = read_reg REG_PU_CTRL h;
         (e, c1, h) = (if e = ESP_OK then read_reg REG_CTRL1 h else (e, 0, h));
         (e, c2, h) = (if e = ESP_OK then read_reg REG_CTRL2 h else (e, 0, h));
         (e, rev, h) = (if e = ESP_OK then read_reg REG_DEVICE_REV h else (e, 0, h))
     in (e, (pu, c1, c2, rev), h))"

definition nau7802_get_status :: "'d fp \<Rightarrow> bool \<Rightarrow> 'd nau \<Rightarrow> esp_err_t \<times> 'd nau_status option \<times> 'd nau" where
  "nau7802_get_status fp args h =
    (if \<not> args then (ESP_ERR_INVALID_ARG, None, h)
     else
       let (e, (pu, c1, c2, rev), h) = read_status_regs h in
       if e \<noteq> ESP_OK then (e, None, h)
       else
         let rate = uint (drop_bit 4 (c2 AND CTRL2_CRS_MASK));
             channel = (if c2 AND CTRL2_CHS \<noteq> 0 then NAU7802_CHANNEL_B else NAU7802_CHANNEL_A);
             (cal, h) = read_calibration_regs channel h;
             (e1, pga, h) = read_reg REG_PGA h;
             (e2, power, h) = (if e1 = ESP_OK then read_reg REG_POWER_CTRL h else (e1, 0, h));
             both = (e1 = ESP_OK \<and> e2 = ESP_OK);
             (e3, adc, h) = read_reg REG_ADC_CTRL h;
             c = drop_bit 4 (adc AND ADC_CHPS_MASK);
             (level, h) = nau7802_drdy_level h
         in (ESP_OK,
             Some \<lparr>st_revision = rev, st_pu_ctrl = pu, st_ctrl1 = c1, st_ctrl2 = c2,
                   digital_up = (pu AND PU_CTRL_PUD \<noteq> 0), analog_up = (pu AND PU_CTRL_PUA \<noteq> 0),
                   power_ready = (pu AND PU_CTRL_PUR \<noteq> 0), data_ready = (pu AND PU_CTRL_CR \<noteq> 0),
                   conversions_started = (pu AND PU_CTRL_CS \<noteq> 0),
                   internal_ldo = (pu AND PU_CTRL_AVDDS \<noteq> 0),
                   st_gain = uint (c1 AND CTRL1_GAINS_MASK), st_ldo = uint (drop_bit 3 (c1 AND CTRL1_VLDO_MASK)),
                   st_rate = rate, rate_sps = nau7802_rate_sps rate, st_channel = channel,
                   cal_error = (c2 AND CTRL2_CAL_ERR \<noteq> 0), st_cal = cal,
                   gcal_ratio = (if cal_regs_valid cal
                                 then fp_div fp (fp_of_int fp (uint (gcal_raw cal))) (fp_lit fp 8388608)
                                 else fp_zero fp),
                   pga_valid = both, st_pga = pga, st_power = power,
                   ldomode = (both \<and> pga AND PGA_LDOMODE \<noteq> 0), pga_cap = (both \<and> power AND POWER_PGA_CAP_EN \<noteq> 0),
                   st_adc_ctrl_valid = (e3 = ESP_OK), st_adc_ctrl = adc,
                   st_chps = (if e3 = ESP_OK then c else 0), st_chopper_off = (e3 = ESP_OK \<and> c = 3),
                   st_drdy_gpio = n_drdy h, st_drdy_level = level, brought_up = n_ready h,
                   st_scale = n_scale h\<rparr>,
             h))"

definition nau7802_read_register :: "bool \<Rightarrow> 8 word \<Rightarrow> 'd nau \<Rightarrow> esp_err_t \<times> 8 word \<times> 'd nau" where
  "nau7802_read_register args reg h =
    (if \<not> args then (ESP_ERR_INVALID_ARG, 0, h) else read_reg reg h)"

definition register_map :: "(8 word \<times> string) list" where
  "register_map =
    [(0x00, ''PU_CTRL''), (0x01, ''CTRL1''), (0x02, ''CTRL2''),
     (0x03, ''OCAL1_B2''), (0x04, ''OCAL1_B1''), (0x05, ''OCAL1_B0''),
     (0x06, ''GCAL1_B3''), (0x07, ''GCAL1_B2''), (0x08, ''GCAL1_B1''), (0x09, ''GCAL1_B0''),
     (0x0A, ''OCAL2_B2''), (0x0B, ''OCAL2_B1''), (0x0C, ''OCAL2_B0''),
     (0x0D, ''GCAL2_B3''), (0x0E, ''GCAL2_B2''), (0x0F, ''GCAL2_B1''), (0x10, ''GCAL2_B0''),
     (0x11, ''I2C_CTRL''), (0x12, ''ADCO_B2''), (0x13, ''ADCO_B1''), (0x14, ''ADCO_B0''),
     (REG_ADC_CTRL, ''ADC/OTP''), (REG_PGA, ''PGA''), (REG_POWER_CTRL, ''POWER''),
     (REG_DEVICE_REV, ''DEVICE_REV'')]"

definition nau7802_register_map :: "(8 word \<times> string) list \<times> nat" where
  "nau7802_register_map = (register_map, length register_map)"

section \<open>What an operation changes\<close>

text \<open>\<open>calm P a h\<close>: since \<open>a\<close> only entries in \<open>P\<close> went on record, and readiness and
  scale are the same. One rule per routine, read backwards: \<open>nau_calm\<close> walks from the end of a
  routine to its beginning.\<close>

named_theorems nau_calm \<open>what the routines of the NAU7802 driver leave alone\<close>

definition calm :: "(bus_entry \<Rightarrow> bool) \<Rightarrow> 'd nau \<Rightarrow> 'd nau \<Rightarrow> bool" where
  "calm P a h \<longleftrightarrow> grew P (n_bus a) (n_bus h) \<and> n_ready h = n_ready a \<and> n_scale h = n_scale a"

lemma calm_refl [nau_calm, simp]: "calm P h h"
  by (simp add: calm_def)

lemma calm_trans: "calm P a h \<Longrightarrow> calm P h h' \<Longrightarrow> calm P a h'"
  by (auto simp: calm_def intro: grew_trans)

lemma calm_fields:
  "calm P a (h\<lparr>n_drdy := x\<rparr>) = calm P a h" "calm P a (h\<lparr>n_signal := b\<rparr>) = calm P a h"
  "calm P a (h\<lparr>n_isr_service := b\<rparr>) = calm P a h" "calm P a (h\<lparr>n_dev := b\<rparr>) = calm P a h"
  by (simp_all add: calm_def)

lemma on_bus_fields [simp]:
  "n_ready (snd (snd (on_bus x h))) = n_ready h" "n_scale (snd (snd (on_bus x h))) = n_scale h"
  "n_dev (snd (snd (on_bus x h))) = n_dev h" "n_drdy (snd (snd (on_bus x h))) = n_drdy h"
  "n_bus (snd (snd (on_bus x h))) = snd (snd (bus_call x (n_bus h)))"
  "fst (on_bus x h) = fst (bus_call x (n_bus h))"
  by (simp_all add: on_bus_def split_beta)

lemma calm_call:
  assumes "calm P a h" "P (x, fst (bus_call x (n_bus h)))"
  shows "calm P a (snd (snd (on_bus x h)))"
proof -
  have "grew P (n_bus h) (snd (snd (bus_call x (n_bus h))))" using assms(2) by (rule grew_call)
  with assms(1) show ?thesis by (auto simp: calm_def intro: grew_trans)
qed

lemma calm_quiet [nau_calm]:
  assumes "calm P a h" "quiet P" "\<And>bs. x \<noteq> Tx bs"
  shows "calm P a (snd (snd (on_bus x h)))"
  by (rule calm_call [OF assms(1) quietD [OF assms(2,3)]])

lemma calm_read_regs [nau_calm]: "calm P a h \<Longrightarrow> quiet P \<Longrightarrow> calm P a (snd (snd (read_regs r n h)))"
  by (simp add: read_regs_def split_beta Let_def calm_quiet)

lemma calm_read_reg [nau_calm]: "calm P a h \<Longrightarrow> quiet P \<Longrightarrow> calm P a (snd (snd (read_reg r h)))"
  by (simp add: read_reg_def split_beta Let_def calm_read_regs)

lemma calm_write_reg [nau_calm]:
  "calm P a h \<Longrightarrow> (\<And>e. P (Tx [r, v], e)) \<Longrightarrow> calm P a (snd (write_reg r v h))"
  by (simp add: write_reg_def split_beta Let_def calm_call)

lemma calm_update_reg [nau_calm]:
  "calm P a h \<Longrightarrow> quiet P \<Longrightarrow> (\<And>v e. P (Tx [r, v], e)) \<Longrightarrow> calm P a (snd (update_reg r c m h))"
  by (simp add: update_reg_def split_beta Let_def calm_write_reg calm_read_reg)

lemma calm_read_be [nau_calm]: "calm P a h \<Longrightarrow> quiet P \<Longrightarrow> calm P a (snd (snd (read_be r n h)))"
  by (simp add: read_be_def split_beta Let_def calm_read_regs)

lemma calm_wait_from: "calm P a h \<Longrightarrow> quiet P \<Longrightarrow> calm P a (snd (wait_from r bits want t w h))"
proof (induction r bits want t w h rule: wait_from.induct)
  case (1 r bits want t w h)
  show ?case
  proof (cases "w \<le> t")
    case True
    let ?r = "read_reg r h" and ?d = "on_bus (Delay_past_ms 10) (snd (snd (read_reg r h)))"
    have "calm P a (snd (snd ?d))" using 1(2,3) by (intro calm_quiet calm_read_reg) simp_all
    then show ?thesis
      using 1(1) [OF True refl prod.collapse prod.collapse _ _ refl prod.collapse prod.collapse] 1(2,3) True
      by (subst wait_from.simps) (simp add: split_beta Let_def calm_read_reg)
  next
    case False
    then show ?thesis using 1(2) by (subst wait_from.simps) simp
  qed
qed

lemma calm_wait [nau_calm]: "calm P a h \<Longrightarrow> quiet P \<Longrightarrow> calm P a (snd (wait_for_bit r bits want t h))"
  by (simp add: wait_for_bit_def calm_wait_from)

lemma calm_wait_drdy [nau_calm]: "calm P a h \<Longrightarrow> quiet P \<Longrightarrow> calm P a (snd (wait_for_drdy t h))"
  by (simp add: wait_for_drdy_def split_beta Let_def calm_quiet)

lemma calm_release [nau_calm]: "calm P a h \<Longrightarrow> quiet P \<Longrightarrow> calm P a (release_drdy h)"
  by (simp add: release_drdy_def split_beta Let_def calm_quiet calm_fields)

lemma calm_configure [nau_calm]: "calm P a h \<Longrightarrow> quiet P \<Longrightarrow> calm P a (snd (configure_drdy v pin h))"
  by (simp add: configure_drdy_def split_beta Let_def calm_quiet calm_release calm_fields)

lemma calm_read_raw [nau_calm]: "calm P a h \<Longrightarrow> quiet P \<Longrightarrow> calm P a (snd (snd (read_raw h)))"
  by (simp add: read_raw_def split_beta Let_def calm_wait_drdy calm_wait calm_read_regs)

lemma calm_discard [nau_calm]: "calm P a h \<Longrightarrow> quiet P \<Longrightarrow> calm P a (snd (discard_conversions n h))"
  by (induction n arbitrary: h) (simp_all add: split_beta Let_def calm_read_raw)

lemma calm_sample_loop [nau_calm]:
  "calm P a h \<Longrightarrow> quiet P \<Longrightarrow> calm P a (snd (snd (snd (sample_loop fp read_raw n i acc h))))"
  by (induction n arbitrary: i acc h) (simp_all add: split_beta Let_def calm_read_raw)

lemma calm_average [nau_calm]:
  "calm P a h \<Longrightarrow> quiet P \<Longrightarrow> calm P a (snd (snd (nau7802_read_average fp args n h)))"
  by (simp add: nau7802_read_average_def split_beta Let_def calm_sample_loop)

lemma calm_calibration [nau_calm]:
  "calm P a h \<Longrightarrow> quiet P \<Longrightarrow> (\<And>v e. P (Tx [REG_CTRL2, v], e)) \<Longrightarrow> calm P a (snd (run_calibration h))"
  by (simp add: run_calibration_def split_beta Let_def calm_update_reg calm_wait calm_read_reg)

lemma calm_restart [nau_calm]:
  "calm P a h \<Longrightarrow> quiet P \<Longrightarrow> (\<And>v e. P (Tx [REG_PU_CTRL, v], e)) \<Longrightarrow> calm P a (snd (snd (restart_conversions h)))"
  by (simp add: restart_conversions_def split_beta Let_def calm_write_reg calm_read_reg)

lemma calm_get_reg [nau_calm]: "calm P a h \<Longrightarrow> quiet P \<Longrightarrow> calm P a (snd (snd (get_reg_checked r args h)))"
  by (simp add: get_reg_checked_def calm_read_reg)

lemma calm_level [nau_calm]: "calm P a h \<Longrightarrow> quiet P \<Longrightarrow> calm P a (snd (nau7802_drdy_level h))"
  by (simp add: nau7802_drdy_level_def split_beta Let_def calm_quiet)

lemma calm_cal_regs [nau_calm]: "calm P a h \<Longrightarrow> quiet P \<Longrightarrow> calm P a (snd (read_calibration_regs c h))"
  by (simp add: read_calibration_regs_def split_beta Let_def calm_read_be)

lemma calm_status_regs [nau_calm]: "calm P a h \<Longrightarrow> quiet P \<Longrightarrow> calm P a (snd (snd (read_status_regs h)))"
  by (simp add: read_status_regs_def split_beta Let_def calm_read_reg)

lemma calm_status [nau_calm]: "calm P a h \<Longrightarrow> quiet P \<Longrightarrow> calm P a (snd (snd (nau7802_get_status fp args h)))"
  by (simp add: nau7802_get_status_def split_beta Let_def calm_read_reg calm_cal_regs calm_status_regs calm_level)

section \<open>Bring-up: order and outcome\<close>

lemma stage_ok_digital: "fst (fst (bring_up_digital h)) = NAU7802_STAGE_NONE \<longleftrightarrow> snd (fst (bring_up_digital h)) = ESP_OK"
  by (auto simp: bring_up_digital_def Let_def split: prod.split)

lemma stage_ok_ldo: "fst (fst (bring_up_ldo opts h)) = NAU7802_STAGE_NONE \<longleftrightarrow> snd (fst (bring_up_ldo opts h)) = ESP_OK"
  by (auto simp: bring_up_ldo_def Let_def split: prod.split)

lemma stage_ok_supply: "fst (fst (bring_up_supply opts h)) = NAU7802_STAGE_NONE \<longleftrightarrow> snd (fst (bring_up_supply opts h)) = ESP_OK"
  by (auto simp: bring_up_supply_def Let_def split: prod.split)

lemma stage_ok_convert: "fst (fst (bring_up_convert h)) = NAU7802_STAGE_NONE \<longleftrightarrow> snd (fst (bring_up_convert h)) = ESP_OK"
  by (auto simp: bring_up_convert_def Let_def split: prod.split)

text \<open>The entries that do not switch the internal regulator on.\<close>

definition regulator_off :: "bus_entry \<Rightarrow> bool" where
  "regulator_off x = (case fst x of Tx [r, v] \<Rightarrow> r = REG_PU_CTRL \<longrightarrow> v AND PU_CTRL_AVDDS = 0 | _ \<Rightarrow> True)"

lemma quiet_regulator_off [simp]: "quiet regulator_off"
  by (auto simp: quiet_def regulator_off_def split: bus_op.split)

lemma calm_digital: "calm regulator_off h (snd (snd (bring_up_digital h)))"
  by (simp add: bring_up_digital_def split_beta Let_def calm_read_reg calm_write_reg calm_wait
      regulator_off_def PU_CTRL_RR_def PU_CTRL_PUD_def PU_CTRL_AVDDS_def)

lemma calm_ldo: "calm regulator_off h (snd (bring_up_ldo opts h))"
  by (simp add: bring_up_ldo_def split_beta Let_def calm_update_reg regulator_off_def REG_CTRL1_def REG_PU_CTRL_def)

lemma update_reg_trace:
  assumes "fst (update_reg r c m h) = ESP_OK"
  shows "\<exists>v. trace (n_bus (snd (update_reg r c m h)))
     = trace (n_bus h) @ [(TxRx [r] 1, ESP_OK), (Tx [r, (v AND NOT c) OR m], ESP_OK)]"
  using assms
  by (auto simp: update_reg_def read_reg_def read_regs_def write_reg_def split_beta Let_def bus_call_trace
      split: if_splits)

lemma field_after_update: "((v AND NOT m) OR x) AND m = x AND m" for v m x :: "8 word"
  by (rule bit_word_eqI) (auto simp: bit_simps)

lemma vldo_field:
  assumes "0 \<le> l" "l < 8"
  shows "((v AND NOT CTRL1_VLDO_MASK) OR word_of_int (push_bit 3 l)) AND CTRL1_VLDO_MASK = word_of_int (push_bit 3 l)"
proof -
  from assms have "l = 0 \<or> l = 1 \<or> l = 2 \<or> l = 3 \<or> l = 4 \<or> l = 5 \<or> l = 6 \<or> l = 7" by arith
  then have "(word_of_int (push_bit 3 l) :: 8 word) AND CTRL1_VLDO_MASK = word_of_int (push_bit 3 l)"
    by (elim disjE) (simp_all add: CTRL1_VLDO_MASK_def push_bit_eq_mult)
  then show ?thesis by (simp only: field_after_update)
qed

lemma quiet_any [simp]: "quiet (\<lambda>x. True)"
  by (simp add: quiet_def)

lemma calm_supply: "calm (\<lambda>x. True) h (snd (bring_up_supply opts h))"
  by (simp add: bring_up_supply_def split_beta Let_def calm_write_reg calm_update_reg)

lemma calm_convert: "calm (\<lambda>x. True) h (snd (bring_up_convert h))"
  by (simp add: bring_up_convert_def split_beta Let_def calm_write_reg calm_quiet calm_calibration
      calm_update_reg calm_discard)

lemma bring_up_back_grew: "quiet P \<Longrightarrow> grew P (n_bus h) (n_bus (snd (bring_up_read_back opts r h)))"
proof -
  assume "quiet P"
  then have "calm P h (snd (snd (read_reg REG_ADC_CTRL (snd (snd (read_reg REG_CTRL1 h))))))"
    by (intro calm_read_reg calm_refl)
  then show ?thesis by (simp add: bring_up_read_back_def split_beta Let_def calm_def)
qed

lemma entry_after:
  assumes "xs @ ys = u @ x # w" "x \<notin> set xs"
  shows "\<exists>v. u = xs @ v"
  using assms by (auto simp: append_eq_append_conv2 append_eq_Cons_conv)

text \<open>The ways through \<open>nau7802_bring_up\<close>.\<close>

lemma bring_up_path:
  assumes bu: "nau7802_bring_up fp args opts h = (e, r, h')"
  obtains (refused) "h' = h" "e = ESP_ERR_INVALID_ARG" "r = None"
  | (digital) "e \<noteq> ESP_OK" "h' = (snd (snd (bring_up_digital h)))\<lparr>n_ready := False\<rparr>"
  | (ldo) g where "g = snd (snd (bring_up_digital h))" "e \<noteq> ESP_OK" "h' = (snd (bring_up_ldo opts g))\<lparr>n_ready := False\<rparr>"
      "fst (fst (bring_up_ldo opts g)) \<noteq> NAU7802_STAGE_NONE"
  | (power) g g' where "g = snd (snd (bring_up_digital h))" "g' = snd (bring_up_ldo opts g)"
      "fst (fst (bring_up_ldo opts g)) = NAU7802_STAGE_NONE"
      "e \<noteq> ESP_OK" "h' = (snd (bring_up_supply opts g'))\<lparr>n_ready := False\<rparr>"
  | (convert) g g' g'' where "g = snd (snd (bring_up_digital h))" "g' = snd (bring_up_ldo opts g)"
      "fst (fst (bring_up_ldo opts g)) = NAU7802_STAGE_NONE" "fst (fst (bring_up_supply opts g')) = NAU7802_STAGE_NONE"
      "g'' = nau7802_reset_scale fp ((snd (bring_up_supply opts g'))\<lparr>n_ready := True\<rparr>)"
      "e \<noteq> ESP_OK" "h' = (snd (bring_up_convert g''))\<lparr>n_ready := False\<rparr>"
  | (finished) g g' g'' r' where "g = snd (snd (bring_up_digital h))" "g' = snd (bring_up_ldo opts g)"
      "fst (fst (bring_up_ldo opts g)) = NAU7802_STAGE_NONE" "fst (fst (bring_up_supply opts g')) = NAU7802_STAGE_NONE"
      "g'' = nau7802_reset_scale fp ((snd (bring_up_supply opts g'))\<lparr>n_ready := True\<rparr>)"
      "e = ESP_OK" "h' = snd (bring_up_read_back opts r' (snd (bring_up_convert g'')))"
proof -
  let ?d = "bring_up_digital h"
  let ?g = "snd (snd ?d)"
  let ?l = "bring_up_ldo opts ?g"
  let ?s = "bring_up_supply opts (snd ?l)"
  let ?g'' = "nau7802_reset_scale fp ((snd ?s)\<lparr>n_ready := True\<rparr>)"
  let ?c = "bring_up_convert ?g''"
  show ?thesis
  proof (cases "args \<and> \<not> (set_scale opts \<and> (fp_eq fp (o_counts_per_unit opts) (fp_zero fp)
                               \<or> \<not> fp_finite fp (o_counts_per_unit opts)))")
    case False
    then have "nau7802_bring_up fp args opts h = (ESP_ERR_INVALID_ARG, None, h)"
      by (cases args) (simp_all add: nau7802_bring_up_def)
    then show ?thesis using bu refused by simp
  next
    case args: True
    note unf = nau7802_bring_up_def Let_def split_beta
    show ?thesis
    proof (cases "fst (fst ?d) = NAU7802_STAGE_NONE")
      case False
      then show ?thesis using bu args digital stage_ok_digital [of h] by (simp add: unf; blast)
    next
      case d: True
      show ?thesis
      proof (cases "fst (fst ?l) = NAU7802_STAGE_NONE")
        case False
        then show ?thesis using bu args d ldo [OF refl] stage_ok_ldo [of opts ?g] by (simp add: unf; blast)
      next
        case l: True
        show ?thesis
        proof (cases "fst (fst ?s) = NAU7802_STAGE_NONE")
          case False
          then show ?thesis
            using bu args d l power [OF refl refl l] stage_ok_supply [of opts "snd ?l"] by (simp add: unf; blast)
        next
          case s: True
          show ?thesis
          proof (cases "fst (fst ?c) = NAU7802_STAGE_NONE")
            case False
            then show ?thesis
              using bu args d l s convert [OF refl refl l s refl] stage_ok_convert [of ?g''] by (simp add: unf; blast)
          next
            case True
            then show ?thesis
              using bu args d l s finished [OF refl refl l s refl] by (simp add: unf; blast)
          qed
        qed
      qed
    qed
  qed
qed

text \<open>The gain step of \<open>bring_up_supply\<close>, which writes CTRL1 once more, and what comes after it.\<close>

abbreviation gain_step :: "'d bringup_opts \<Rightarrow> 'd nau \<Rightarrow> esp_err_t \<times> 'd nau" where
  "gain_step opts h \<equiv> (if set_gain opts then update_reg REG_CTRL1 CTRL1_GAINS_MASK (word_of_int (o_gain opts)) h
                        else (ESP_OK, h))"

lemma supply_parts:
  "fst (gain_step opts h) \<noteq> ESP_OK \<Longrightarrow> snd (bring_up_supply opts h) = snd (gain_step opts h)
     \<and> fst (fst (bring_up_supply opts h)) \<noteq> NAU7802_STAGE_NONE"
  "fst (gain_step opts h) = ESP_OK \<Longrightarrow>
     \<exists>v. snd (bring_up_supply opts h) = snd (write_reg REG_PU_CTRL v (snd (gain_step opts h)))"
  by (auto simp: bring_up_supply_def split_beta Let_def)

definition no_ctrl1_write :: "bus_entry \<Rightarrow> bool" where
  "no_ctrl1_write x = (case fst x of Tx (r # bs) \<Rightarrow> r \<noteq> REG_CTRL1 | _ \<Rightarrow> True)"

lemma quiet_no_ctrl1 [simp]: "quiet no_ctrl1_write"
  by (auto simp: quiet_def no_ctrl1_write_def split: bus_op.split)

lemma no_ctrl1_other [simp]: "r \<noteq> REG_CTRL1 \<Longrightarrow> no_ctrl1_write (Tx (r # bs), e)"
  by (simp add: no_ctrl1_write_def)

lemma ctrl1_alone:
  "fst (gain_step opts h) = ESP_OK \<Longrightarrow> calm no_ctrl1_write (snd (gain_step opts h)) (snd (bring_up_supply opts h))"
  "calm no_ctrl1_write k (snd (bring_up_convert k))"
proof -
  have other: "REG_PU_CTRL \<noteq> REG_CTRL1" "REG_CTRL2 \<noteq> REG_CTRL1" "REG_ADC_CTRL \<noteq> REG_CTRL1"
    by (simp_all add: REG_PU_CTRL_def REG_CTRL1_def REG_CTRL2_def REG_ADC_CTRL_def)
  show "calm no_ctrl1_write k (snd (bring_up_convert k))"
    by (simp add: bring_up_convert_def split_beta Let_def calm_write_reg calm_quiet calm_calibration
        calm_update_reg calm_discard other)
  assume "fst (gain_step opts h) = ESP_OK"
  then obtain v where "snd (bring_up_supply opts h) = snd (write_reg REG_PU_CTRL v (snd (gain_step opts h)))"
    using supply_parts(2) by blast
  then show "calm no_ctrl1_write (snd (gain_step opts h)) (snd (bring_up_supply opts h))"
    by (simp only: calm_write_reg calm_refl no_ctrl1_other other not_False_eq_True)
qed

text \<open>A device that keeps a register: read right after an acknowledged write, it gives what was written.\<close>

definition keeps_register :: "8 word \<Rightarrow> bus \<Rightarrow> bool" where
  "keeps_register r b \<longleftrightarrow> (\<forall>t v f. answer b (t @ [(Tx [r, v], ESP_OK)]) (TxRx [r] 1) = (ESP_OK, f) \<longrightarrow> f 0 = v)"

lemma update_reg_reads:
  assumes "fst (update_reg r c m h) = ESP_OK"
  shows "\<exists>f. answer (n_bus h) (trace (n_bus h)) (TxRx [r] 1) = (ESP_OK, f)
     \<and> trace (n_bus (snd (update_reg r c m h)))
         = trace (n_bus h) @ [(TxRx [r] 1, ESP_OK), (Tx [r, (f 0 AND NOT c) OR m], ESP_OK)]"
  using assms
  by (cases "answer (n_bus h) (trace (n_bus h)) (TxRx [r] 1)")
    (auto simp: update_reg_def read_reg_def read_regs_def write_reg_def split_beta Let_def bus_call_trace
      on_bus_def bus_call_def split: if_splits)

lemma gain_keeps_vldo:
  assumes "0 \<le> g" "g < 8"
  shows "((v AND NOT CTRL1_GAINS_MASK) OR word_of_int g) AND CTRL1_VLDO_MASK = v AND CTRL1_VLDO_MASK"
proof -
  from assms have "g = 0 \<or> g = 1 \<or> g = 2 \<or> g = 3 \<or> g = 4 \<or> g = 5 \<or> g = 6 \<or> g = 7" by arith
  then have "word_of_int g AND CTRL1_VLDO_MASK = 0"
    by (elim disjE) (simp_all add: CTRL1_VLDO_MASK_def)
  moreover have "NOT CTRL1_GAINS_MASK AND CTRL1_VLDO_MASK = CTRL1_VLDO_MASK"
    by (simp add: CTRL1_GAINS_MASK_def CTRL1_VLDO_MASK_def)
  ultimately show ?thesis by (simp add: bit.conj_disj_distrib2 and.assoc)
qed

text \<open>CTRL1 when the voltage and the gain have been set.\<close>

lemma ctrl1_set:
  assumes l: "use_internal_ldo opts" "0 \<le> o_ldo opts" "o_ldo opts < 8"
    and g: "set_gain opts \<longrightarrow> 0 \<le> o_gain opts \<and> o_gain opts < 8"
    and keeps: "keeps_register REG_CTRL1 (n_bus k)"
    and ok: "fst (fst (bring_up_ldo opts k)) = NAU7802_STAGE_NONE" "fst (gain_step opts (snd (bring_up_ldo opts k))) = ESP_OK"
  shows "\<exists>t c. trace (n_bus (snd (gain_step opts (snd (bring_up_ldo opts k)))))
           = trace (n_bus k) @ t @ [(Tx [REG_CTRL1, c], ESP_OK)]
         \<and> list_all regulator_off (t @ [(Tx [REG_CTRL1, c], ESP_OK)])
         \<and> c AND CTRL1_VLDO_MASK = word_of_int (push_bit 3 (o_ldo opts))"
proof -
  let ?l = "snd (bring_up_ldo opts k)" and ?v = "word_of_int (push_bit 3 (o_ldo opts)) :: 8 word"
  have upd: "?l = snd (update_reg REG_CTRL1 CTRL1_VLDO_MASK ?v k)" "fst (update_reg REG_CTRL1 CTRL1_VLDO_MASK ?v k) = ESP_OK"
    using ok(1) l(1) by (auto simp: bring_up_ldo_def split_beta Let_def split: if_splits)
  from update_reg_reads [OF upd(2)] obtain c where
    c: "trace (n_bus ?l) = trace (n_bus k) @ [(TxRx [REG_CTRL1] 1, ESP_OK), (Tx [REG_CTRL1, c], ESP_OK)]"
    and vl: "c AND CTRL1_VLDO_MASK = ?v" unfolding upd(1) using vldo_field [OF l(2,3)] by auto
  have off: "regulator_off (TxRx [REG_CTRL1] 1, e)" "regulator_off (Tx [REG_CTRL1, x], e)" for e x
    by (simp_all add: regulator_off_def REG_CTRL1_def REG_PU_CTRL_def)
  show ?thesis
  proof (cases "set_gain opts")
    case False
    then show ?thesis using c vl off by (intro exI [of _ "[(TxRx [REG_CTRL1] 1, ESP_OK)]"] exI [of _ c]) simp
  next
    case True
    then have "fst (update_reg REG_CTRL1 CTRL1_GAINS_MASK (word_of_int (o_gain opts)) ?l) = ESP_OK" using ok(2) by simp
    from update_reg_reads [OF this] obtain f where
      f: "answer (n_bus ?l) (trace (n_bus ?l)) (TxRx [REG_CTRL1] 1) = (ESP_OK, f)"
      and tr: "trace (n_bus (snd (gain_step opts ?l))) = trace (n_bus ?l) @ [(TxRx [REG_CTRL1] 1, ESP_OK),
          (Tx [REG_CTRL1, (f 0 AND NOT CTRL1_GAINS_MASK) OR word_of_int (o_gain opts)], ESP_OK)]"
      using True by auto
    have "answer (n_bus ?l) = answer (n_bus k)" using calm_ldo [of k opts] by (simp add: calm_def grew_def)
    then have "f 0 = c" using keeps f unfolding c keeps_register_def
      by (metis append.assoc append_Cons append_Nil)
    then have "((f 0 AND NOT CTRL1_GAINS_MASK) OR word_of_int (o_gain opts)) AND CTRL1_VLDO_MASK = ?v"
      using gain_keeps_vldo g True vl by simp
    then show ?thesis using tr c off
      by (intro exI [of _ "[(TxRx [REG_CTRL1] 1, ESP_OK), (Tx [REG_CTRL1, c], ESP_OK), (TxRx [REG_CTRL1] 1, ESP_OK)]"]
          exI [of _ "(f 0 AND NOT CTRL1_GAINS_MASK) OR word_of_int (o_gain opts)"]) simp
  qed
qed

text \<open>C15. The internal regulator is never switched on at the wrong voltage. With the internal
  regulator chosen, on a device that keeps what is written to CTRL1 and otherwise answers as it likes, and
  wherever bring-up stops: when the bit that switches the regulator on is written to PU_CTRL, the last write
  to CTRL1 before that, in the same bring-up and acknowledged, carried the chosen voltage. The gain, which is in
  the same register and is set in between, has not disturbed it.\<close>

theorem nau_ldo_set_before_on:
  assumes "use_internal_ldo opts" "0 \<le> o_ldo opts" "o_ldo opts < 8"
    and "set_gain opts \<longrightarrow> 0 \<le> o_gain opts \<and> o_gain opts < 8" "keeps_register REG_CTRL1 (n_bus h)"
    and bu: "nau7802_bring_up fp args opts h = (e, r, h')"
    and tr: "trace (n_bus h') = trace (n_bus h) @ before @ (Tx [REG_PU_CTRL, v], e') # after"
    and on: "v AND PU_CTRL_AVDDS \<noteq> 0"
  shows "\<exists>earlier c later. before = earlier @ (Tx [REG_CTRL1, c], ESP_OK) # later
           \<and> c AND CTRL1_VLDO_MASK = word_of_int (push_bit 3 (o_ldo opts))
           \<and> (\<forall>bs e. (Tx (REG_CTRL1 # bs), e) \<notin> set later)"
proof -
  let ?x = "(Tx [REG_PU_CTRL, v], e')"
  let ?g = "snd (snd (bring_up_digital h))"
  let ?l = "snd (bring_up_ldo opts ?g)"
  let ?u = "snd (gain_step opts ?l)"
  have off: "\<not> regulator_off ?x" using on by (simp add: regulator_off_def)
  have early: False if "grew regulator_off (n_bus h) (n_bus h')"
    using that tr off by (simp add: grew_def)
  have gl: "grew regulator_off (n_bus h) (n_bus ?g)" "grew regulator_off (n_bus ?g) (n_bus ?l)"
    "grew regulator_off (n_bus ?l) (n_bus ?u)"
    using calm_digital [of h] calm_ldo [of ?g opts] calm_update_reg [OF calm_refl quiet_regulator_off, of REG_CTRL1 ?l]
    by (simp_all add: calm_def regulator_off_def REG_CTRL1_def REG_PU_CTRL_def)
  have late: ?thesis
    if ok: "fst (fst (bring_up_ldo opts ?g)) = NAU7802_STAGE_NONE" "fst (gain_step opts ?l) = ESP_OK"
      and gr: "grew no_ctrl1_write (n_bus ?u) (n_bus h')"
  proof -
    have "keeps_register REG_CTRL1 (n_bus ?g)" using assms(5) gl(1) by (simp add: keeps_register_def grew_def)
    from ctrl1_set [OF assms(1-4) this ok] obtain t c where
      c: "trace (n_bus ?u) = trace (n_bus ?g) @ t @ [(Tx [REG_CTRL1, c], ESP_OK)]"
        "list_all regulator_off (t @ [(Tx [REG_CTRL1, c], ESP_OK)])"
        "c AND CTRL1_VLDO_MASK = word_of_int (push_bit 3 (o_ldo opts))" by blast
    from gl(1) obtain d where d: "trace (n_bus ?g) = trace (n_bus h) @ d" "list_all regulator_off d"
      by (rule grewE)
    from gr obtain u where u: "trace (n_bus h') = trace (n_bus ?u) @ u" "list_all no_ctrl1_write u" by (rule grewE)
    let ?set = "(d @ t) @ [(Tx [REG_CTRL1, c], ESP_OK)]"
    have parts: "?set @ u = before @ ?x # after" using c(1) d(1) u(1) tr by simp
    have "?x \<notin> set ?set" using c(2) d(2) off by (auto simp: list_all_iff)
    from entry_after [OF parts this] obtain w where w: "before = ?set @ w" ..
    then have "u = w @ ?x # after" using parts by simp
    then have "list_all no_ctrl1_write w" using u(2) by simp
    then have "(Tx (REG_CTRL1 # bs), e) \<notin> set w" for bs e by (auto simp: list_all_iff no_ctrl1_write_def)
    with w c(3) show ?thesis by (intro exI [of _ "d @ t"] exI [of _ c] exI [of _ w]) simp
  qed
  have ready: "n_bus (nau7802_reset_scale fp (k\<lparr>n_ready := True\<rparr>)) = n_bus k" for k
    by (simp add: nau7802_reset_scale_def)
  have sup: "grew no_ctrl1_write (n_bus ?u) (n_bus (snd (bring_up_supply opts ?l)))" if "fst (gain_step opts ?l) = ESP_OK"
    using ctrl1_alone(1) [OF that] by (simp add: calm_def)
  have gain: "fst (gain_step opts ?l) = ESP_OK" if "fst (fst (bring_up_supply opts ?l)) = NAU7802_STAGE_NONE"
    using that supply_parts(1) by metis
  have conv: "grew no_ctrl1_write (n_bus k) (n_bus (snd (bring_up_convert k)))" for k
    using ctrl1_alone(2) [of k] by (simp add: calm_def)
  have rb: "grew no_ctrl1_write (n_bus k) (n_bus (snd (bring_up_read_back opts r' k)))" for k r'
    by (rule bring_up_back_grew) simp
  from bu show ?thesis
  proof (cases rule: bring_up_path)
    case refused
    then show ?thesis using early by simp
  next
    case digital
    then show ?thesis using early gl(1) by simp
  next
    case (ldo g)
    then show ?thesis using early grew_trans [OF gl(1,2)] by simp
  next
    case (power g g')
    show ?thesis
    proof (cases "fst (gain_step opts ?l) = ESP_OK")
      case True
      then show ?thesis using late sup power by simp
    next
      case False
      have "snd (bring_up_supply opts ?l) = ?u" by (rule supply_parts(1) [OF False, THEN conjunct1])
      then have "n_bus h' = n_bus ?u" using power by simp
      then show ?thesis using early grew_trans [OF grew_trans [OF gl(1,2)] gl(3)] by simp
    qed
  next
    case (convert g g' g'')
    have ok: "fst (gain_step opts ?l) = ESP_OK" using gain convert(1,2,4) by simp
    have "grew no_ctrl1_write (n_bus ?u) (n_bus g'')" using sup [OF ok] convert(1,2,5) by (simp only: ready)
    moreover have "n_bus h' = n_bus (snd (bring_up_convert g''))" using convert(7) by simp
    ultimately have "grew no_ctrl1_write (n_bus ?u) (n_bus h')" using conv grew_trans by metis
    moreover have "fst (fst (bring_up_ldo opts ?g)) = NAU7802_STAGE_NONE" using convert(1,3) by simp
    ultimately show ?thesis using ok by (intro late)
  next
    case (finished g g' g'' r')
    have ok: "fst (gain_step opts ?l) = ESP_OK" using gain finished(1,2,4) by simp
    have "grew no_ctrl1_write (n_bus ?u) (n_bus g'')" using sup [OF ok] finished(1,2,5) by (simp only: ready)
    then have "grew no_ctrl1_write (n_bus ?u) (n_bus h')" using conv rb finished(7) grew_trans by metis
    moreover have "fst (fst (bring_up_ldo opts ?g)) = NAU7802_STAGE_NONE" using finished(1,3) by simp
    ultimately show ?thesis using ok by (intro late)
  qed
qed

section \<open>The decodings\<close>

lemma uint_lt_8: "uint (a :: 8 word) < 256"
proof -
  have "uint a < 2 ^ LENGTH(8)" by (rule unsigned_less)
  then show ?thesis by simp
qed

lemma bytes_or: "uint (push_bit 16 (ucast a) OR push_bit 8 (ucast b) OR ucast c :: 32 word)
   = uint a * 65536 + uint b * 256 + uint c" for a b c :: "8 word"
proof -
  have u: "uint (push_bit 16 (ucast a) :: 32 word) = push_bit 16 (uint a)" "uint (push_bit 8 (ucast b) :: 32 word) = push_bit 8 (uint b)" "uint (ucast c :: 32 word) = uint c"
    by (rule bit_eqI; auto simp: bit_simps dest: bit_imp_le_length)+
  have d: "push_bit 8 (uint b) OR uint c = push_bit 8 (uint b) + uint c"
    by (rule disjunctive_add_eq_or [symmetric], rule bit_eqI) (auto simp: bit_simps dest: bit_imp_le_length)
  have "push_bit 16 (uint a) OR (push_bit 8 (uint b) OR uint c) = push_bit 16 (uint a) + (push_bit 8 (uint b) OR uint c)"
    by (rule disjunctive_add_eq_or [symmetric], rule bit_eqI) (auto simp: bit_simps dest: bit_imp_le_length)
  with d u show ?thesis by (simp add: unsigned_or_eq or.assoc push_bit_eq_mult)
qed

lemma decode24_value:
  "decode24 [a, b, c] = (let u = uint a * 65536 + uint b * 256 + uint c in if u < 8388608 then u else u - 16777216)"
proof -
  have "uint a * 65536 + uint b * 256 + uint c < 16777216"
    using uint_lt_8 [of a] uint_lt_8 [of b] uint_lt_8 [of c] by simp
  then show ?thesis
    using sign24_value [OF bytes_or, of a b c] by (simp add: decode24_def sign24_def Let_def)
qed

lemma low_bits_32: "0 \<le> u \<Longrightarrow> u < 2 ^ 24 \<Longrightarrow> uint (word_of_int u :: 32 word) = u" for u :: int
  by (simp add: unsigned_of_int take_bit_int_eq_self)

lemma ocal_decode_both:
  assumes "0 \<le> m" "m < 8388608"
  shows "ocal_decode (word_of_int m) = m" "ocal_decode (word_of_int (8388608 + m)) = - m"
proof -
  have and23: "u AND 8388607 = u mod 8388608" for u :: int
    using take_bit_eq_mask [of 23 u] by (simp add: take_bit_eq_mod mask_eq_exp_minus_1)
  have low: "sint ((word_of_int u :: 32 word) AND 0x7FFFFF) = u mod 8388608" if "0 \<le> u" "u < 2 ^ 24" for u
  proof -
    have "uint ((word_of_int u :: 32 word) AND 0x7FFFFF) = u mod 8388608"
      using low_bits_32 [OF that] by (simp add: unsigned_and_eq and23)
    moreover have "0 \<le> u mod 8388608" "u mod 8388608 < 2 ^ 23" by simp_all
    ultimately show ?thesis by (simp add: sint_uint signed_take_bit_int_eq_self)
  qed
  have flag: "((word_of_int u :: 32 word) AND 0x800000 \<noteq> 0) = odd (u div 8388608)" if "0 \<le> u" "u < 2 ^ 24" for u
  proof -
    have "bit (word_of_int u :: 32 word) 23 = bit u 23" by (simp add: bit_simps)
    also have "\<dots> = odd (u div 8388608)" by (simp add: bit_iff_odd)
    finally show ?thesis using and_exp_eq_0_iff_not_bit [of "word_of_int u :: 32 word" 23] by simp
  qed
  show "ocal_decode (word_of_int m) = m" "ocal_decode (word_of_int (8388608 + m)) = - m"
    using assms low [of m] flag [of m] low [of "8388608 + m"] flag [of "8388608 + m"]
    by (simp_all add: ocal_decode_def Let_def del: of_int_add of_int_numeral)
qed

lemma decode24_three: "decode24 raw = decode24 [raw ! 0, raw ! 1, raw ! 2]"
  by (simp add: decode24_def)

lemma decode24_range: "- 8388608 \<le> decode24 raw \<and> decode24 raw < 8388608"
proof -
  define u where "u = uint (raw ! 0) * 65536 + uint (raw ! 1) * 256 + uint (raw ! 2)"
  have "0 \<le> u" "u < 16777216"
    using uint_lt_8 [of "raw ! 0"] uint_lt_8 [of "raw ! 1"] uint_lt_8 [of "raw ! 2"] by (simp_all add: u_def)
  moreover have "decode24 raw = (if u < 8388608 then u else u - 16777216)"
    unfolding decode24_three [of raw] decode24_value Let_def u_def by (rule refl)
  ultimately show ?thesis by simp
qed

lemma read_raw_ok:
  assumes "read_raw h = (ESP_OK, v, h')"
  obtains raw g where "read_regs REG_ADCO_B2 3 g = (ESP_OK, raw, h')" "v = decode24 raw"
proof -
  let ?w = "if n_drdy h \<ge> 0 then wait_for_drdy CONVERSION_TIMEOUT_MS h
            else wait_for_bit REG_PU_CTRL PU_CTRL_CR True CONVERSION_TIMEOUT_MS h"
  show ?thesis
    using that [of "snd ?w"] assms unfolding read_raw_def Let_def
    by (cases ?w; cases "read_regs REG_ADCO_B2 3 (snd ?w)") (auto split: if_splits)
qed

section \<open>Averages\<close>

interpretation nau_conv: converter read_raw
  by unfold_locales (metis read_raw_ok decode24_range)

text \<open>C17. An average is the statistics of the conversions it took. In exact arithmetic, when
  \<open>nau7802_read_average\<close> succeeds there are \<open>n\<close> conversions, read one after the other,
  such that the result's mean is their mean, its standard error is the square root of their sample
  variance over \<open>n\<close> (and 0 for a single one), its extremes are their minimum and maximum,
  and it is flagged as saturated just when one of them is within a hundredth of full scale.\<close>

theorem nau_average_is_the_statistics:
  assumes "nau7802_read_average real_fp args n h = (ESP_OK, Some st, h')"
  shows "\<exists>vs. read_all read_raw (nat n) h = (ESP_OK, vs, h') \<and> int (length vs) = n
     \<and> (let \<mu> = (\<Sum>v\<leftarrow>vs. real_of_int v) / real (length vs) in
          mean st = \<mu>
          \<and> stderr_mean st = (if n = 1 then 0
               else sqrt ((\<Sum>v\<leftarrow>vs. (real_of_int v - \<mu>)\<^sup>2) / (real (length vs) - 1) / real (length vs))))
     \<and> low_count st = Min (set vs) \<and> high_count st = Max (set vs) \<and> samples st = n
     \<and> (saturated st \<longleftrightarrow> (\<exists>v \<in> set vs. \<bar>real_of_int v\<bar> \<ge> 0.99 * 8388608))"
proof -
  have n: "n \<ge> 1" using assms by (auto simp: nau7802_read_average_def split: if_splits)
  obtain i w where w: "sample_loop real_fp read_raw (nat n) 0 (welford_start real_fp) h = (ESP_OK, i, w, h')"
    and st: "mean st = total w / real_of_int n" "samples st = n" "low_count st = low w" "high_count st = high w"
      "stderr_mean st = (if n > 1 then sqrt (m2 w / real_of_int (n - 1) / real_of_int n) else 0)"
      "saturated st \<longleftrightarrow> real_of_int (low w) \<le> - (0.99 * 8388608) \<or> 0.99 * 8388608 \<le> real_of_int (high w)"
    using assms n
    by (cases "sample_loop real_fp read_raw (nat n) 0 (welford_start real_fp) h")
      (auto simp: nau7802_read_average_def Let_def ADC_SATURATION_FRACTION_def NAU7802_FULL_SCALE_def of_rat_divide
        split: if_splits)
  have n': "nat n \<ge> 1" using n by simp
  obtain vs where vs: "read_all read_raw (nat n) h = (ESP_OK, vs, h')"
    "length vs = nat n" "vs \<noteq> []" "low w = Min (set vs)" "high w = Max (set vs)"
    "total w / real (nat n) = (\<Sum>v\<leftarrow>vs. real_of_int v) / real (nat n)"
    "m2 w = (\<Sum>v\<leftarrow>vs. (real_of_int v - (\<Sum>v\<leftarrow>vs. real_of_int v) / real (nat n))\<^sup>2)"
    by (rule nau_conv.batch [OF w n'])
  define \<mu> where "\<mu> = (\<Sum>v\<leftarrow>vs. real_of_int v) / real (length vs)"
  have rn: "real (nat n) = real_of_int n" "real (length vs) = real_of_int n" "int (length vs) = n"
    using n vs(2) by simp_all
  have mean: "mean st = \<mu>" using vs(6) by (simp add: st(1) \<mu>_def rn)
  have dev: "stderr_mean st = (if n = 1 then 0
               else sqrt ((\<Sum>v\<leftarrow>vs. (real_of_int v - \<mu>)\<^sup>2) / (real (length vs) - 1) / real (length vs)))"
    using n by (simp add: st(5) vs(7) \<mu>_def rn)
  have sat: "saturated st \<longleftrightarrow> (\<exists>v \<in> set vs. \<bar>real_of_int v\<bar> \<ge> 0.99 * 8388608)"
    using extreme_beyond [OF vs(3), of "0.99 * 8388608"] unfolding st(6) vs(4,5) .
  show ?thesis
    using vs(1,4,5) rn(3) st(2,3,4) mean dev sat
    by (intro exI [of _ vs]) (simp add: Let_def flip: \<mu>_def)
qed

section \<open>What bring-up leaves\<close>

definition factor_scale :: "'d fp \<Rightarrow> 'd \<Rightarrow> 'd nau_scale" where
  "factor_scale fp c = (zero_scale fp)\<lparr>counts_per_unit := c, calibrated := True, supplied := True\<rparr>"

lemma read_back_keeps:
  "n_ready (snd (bring_up_read_back opts r h)) = n_ready h"
  "n_scale (snd (bring_up_read_back opts r h))
     = (if set_scale opts then (n_scale h)\<lparr>counts_per_unit := o_counts_per_unit opts, calibrated := True,
          supplied := True\<rparr> else n_scale h)"
proof -
  have "calm (\<lambda>x. True) h (snd (snd (read_reg REG_ADC_CTRL (snd (snd (read_reg REG_CTRL1 h))))))"
    by (intro calm_read_reg calm_refl quiet_any)
  then show "n_ready (snd (bring_up_read_back opts r h)) = n_ready h"
    "n_scale (snd (bring_up_read_back opts r h))
     = (if set_scale opts then (n_scale h)\<lparr>counts_per_unit := o_counts_per_unit opts, calibrated := True,
          supplied := True\<rparr> else n_scale h)"
    by (simp_all add: bring_up_read_back_def split_beta Let_def calm_def)
qed

text \<open>A finished bring-up is ready, with no scale or the factor that was given. One that failed
  is not ready; one that was refused has changed nothing.\<close>

lemma bring_up_outcome:
  assumes bu: "nau7802_bring_up fp args opts h = (e, r, h')"
  shows "h' = h \<and> e = ESP_ERR_INVALID_ARG
       \<or> e \<noteq> ESP_OK \<and> \<not> n_ready h'
       \<or> e = ESP_OK \<and> n_ready h' \<and> n_scale h' =
           (if set_scale opts then factor_scale fp (o_counts_per_unit opts) else zero_scale fp)"
  using bu
proof (cases rule: bring_up_path)
  case (finished g g' g'' r')
  have "n_ready g''" "n_scale g'' = zero_scale fp" unfolding finished(5) nau7802_reset_scale_def by simp_all
  then have "n_ready (snd (bring_up_convert g''))" "n_scale (snd (bring_up_convert g'')) = zero_scale fp"
    using calm_convert [of g''] by (simp_all add: calm_def)
  then show ?thesis using finished(6,7) by (simp add: read_back_keeps factor_scale_def)
qed simp_all

text \<open>A conversion is decoded exactly. When a conversion is read, its value is the one 24-bit
  two's complement number whose bytes the device delivered, for all three bytes; and the offset that
  the device's calibration registers hold in sign-and-magnitude form is read back as that number.\<close>

theorem nau_conversion_exact:
  assumes "read_raw h = (ESP_OK, v, h')"
  shows "- (2 ^ 23) \<le> v \<and> v < 2 ^ 23
    \<and> (\<exists>raw g. read_regs REG_ADCO_B2 3 g = (ESP_OK, raw, h')
         \<and> v mod 2 ^ 24 = uint (raw ! 0) * 2 ^ 16 + uint (raw ! 1) * 2 ^ 8 + uint (raw ! 2))
    \<and> (\<forall>m. 0 \<le> m \<and> m < 2 ^ 23 \<longrightarrow>
          ocal_decode (word_of_int m) = m \<and> ocal_decode (word_of_int (2 ^ 23 + m)) = - m)"
proof -
  from assms obtain raw g where r: "read_regs REG_ADCO_B2 3 g = (ESP_OK, raw, h')" "v = decode24 raw"
    by (rule read_raw_ok)
  let ?u = "uint (raw ! 0) * 65536 + uint (raw ! 1) * 256 + uint (raw ! 2)"
  have u: "0 \<le> ?u" "?u < 16777216"
    using uint_lt_8 [of "raw ! 0"] uint_lt_8 [of "raw ! 1"] uint_lt_8 [of "raw ! 2"] by simp_all
  have "v = (if ?u < 8388608 then ?u else ?u - 16777216)"
    unfolding r(2) decode24_three [of raw] decode24_value Let_def by (rule refl)
  then have "v mod 16777216 = ?u" using u by (cases "?u < 8388608") (simp_all add: mod_pos_pos_trivial)
  then show ?thesis
    using r(1) decode24_range [of raw] ocal_decode_both
    by (auto simp: r(2) simp del: of_int_add of_int_numeral)
qed

section \<open>Runs\<close>

text \<open>A part whose status register reads as powered and ready and whose conversions are all -2; and
  one that keeps CTRL1, whose analog section cannot be switched on.\<close>

definition demo_answer :: "bus_entry list \<Rightarrow> bus_op \<Rightarrow> esp_err_t \<times> (nat \<Rightarrow> 8 word)" where
  "demo_answer tr x = (ESP_OK, case x of
     TxRx [r] n \<Rightarrow> (\<lambda>i. if r = 0x00 then 0x28 else if r = 0x12 then (if i = 2 then 0xFE else 0xFF) else 0)
   | _ \<Rightarrow> (\<lambda>i. 0))"

definition dead_answer :: "bus_entry list \<Rightarrow> bus_op \<Rightarrow> esp_err_t \<times> (nat \<Rightarrow> 8 word)" where
  "dead_answer tr x =
    (if x = Tx [0x00, 0x86] then ESP_FAIL else ESP_OK,
     if x = TxRx [0x01] 1 then (case rev tr of (Tx [q, v], e) # us \<Rightarrow> (\<lambda>i. v) | _ \<Rightarrow> (\<lambda>i. 0)) else snd (demo_answer tr x))"

definition demo_nau :: "(bus_entry list \<Rightarrow> bus_op \<Rightarrow> esp_err_t \<times> (nat \<Rightarrow> 8 word)) \<Rightarrow> real nau" where
  "demo_nau f = \<lparr>n_dev = True, n_ready = True, n_drdy = -1, n_signal = False, n_scale = zero_scale real_fp,
     n_isr_service = False, n_bus = \<lparr>trace = [], answer = f\<rparr>\<rparr>"

definition demo_opts :: "real bringup_opts" where
  "demo_opts = \<lparr>use_internal_ldo = True, o_ldo = 5, set_gain = True, o_gain = 7, set_scale = False,
     o_counts_per_unit = 0\<rparr>"

lemmas nau_regs = REG_PU_CTRL_def REG_CTRL1_def REG_CTRL2_def REG_ADCO_B2_def REG_DEVICE_REV_def
  REG_ADC_CTRL_def PU_CTRL_RR_def PU_CTRL_PUD_def PU_CTRL_PUA_def PU_CTRL_PUR_def PU_CTRL_CS_def PU_CTRL_CR_def
  PU_CTRL_AVDDS_def CTRL1_GAINS_MASK_def CTRL1_VLDO_MASK_def CONVERSION_TIMEOUT_MS_def

lemmas nau_run = on_bus_def bus_call_def read_regs_def read_reg_def write_reg_def update_reg_def
  wait_for_bit_def wait_from.simps read_raw_def demo_answer_def demo_nau_def demo_opts_def

lemma dead_bring_up:
  "\<exists>r h'. nau7802_bring_up real_fp True demo_opts (demo_nau dead_answer) = (ESP_FAIL, r, h') \<and>
     trace (n_bus h') = [(TxRx [0x1F] 1, ESP_OK), (Tx [0, 1], ESP_OK), (Tx [0, 0], ESP_OK), (Tx [0, 2], ESP_OK),
       (TxRx [0] 1, ESP_OK), (TxRx [1] 1, ESP_OK), (Tx [1, 0x28], ESP_OK), (TxRx [1] 1, ESP_OK), (Tx [1, 0x2F], ESP_OK)]
       @ (Tx [0, 0x86], ESP_FAIL) # []"
  by (simp add: nau7802_bring_up_def bring_up_digital_def bring_up_ldo_def bring_up_supply_def nau_run nau_regs
      dead_answer_def)

lemma demo_conversion: "read_raw (demo_nau demo_answer) = (ESP_OK, -2, (demo_nau demo_answer)\<lparr>n_bus :=
    \<lparr>trace = [(TxRx [0] 1, ESP_OK), (TxRx [0x12] 3, ESP_OK)], answer = demo_answer\<rparr>\<rparr>)"
  by (simp add: nau_run nau_regs decode24_def upt_rec)

lemma demo_average: "\<exists>st h'. nau7802_read_average real_fp True 2 (demo_nau demo_answer) = (ESP_OK, Some st, h')
    \<and> samples st = 2 \<and> n_ready h'"
  by (simp add: nau7802_read_average_def sample_loop_numeral nau_run nau_regs Let_def)

theorem nau_ldo_set_before_on_witness:
  "\<exists>(h' :: real nau) before. trace (n_bus h') = before @ [(Tx [REG_PU_CTRL, 0x86], ESP_FAIL)]
     \<and> (\<exists>earlier c later. before = earlier @ (Tx [REG_CTRL1, c], ESP_OK) # later
           \<and> c AND CTRL1_VLDO_MASK = word_of_int (push_bit 3 (o_ldo demo_opts)))"
proof -
  from dead_bring_up obtain r h' before where
    bu: "nau7802_bring_up real_fp True demo_opts (demo_nau dead_answer) = (ESP_FAIL, r, h')"
    and tr: "trace (n_bus h') = before @ (Tx [0, 0x86], ESP_FAIL) # []" by blast
  have t: "trace (n_bus h') = trace (n_bus (demo_nau dead_answer)) @ before @ (Tx [REG_PU_CTRL, 0x86], ESP_FAIL) # []"
    using tr by (simp add: demo_nau_def REG_PU_CTRL_def)
  have k: "keeps_register REG_CTRL1 (n_bus (demo_nau dead_answer))"
    by (auto simp: keeps_register_def demo_nau_def dead_answer_def REG_CTRL1_def)
  have "\<exists>earlier c later. before = earlier @ (Tx [REG_CTRL1, c], ESP_OK) # later
           \<and> c AND CTRL1_VLDO_MASK = word_of_int (push_bit 3 (o_ldo demo_opts))"
    using nau_ldo_set_before_on [OF _ _ _ _ k bu t] by (auto simp: demo_opts_def PU_CTRL_AVDDS_def)
  then show ?thesis using tr by (intro exI [of _ h'] exI [of _ before]) (simp add: REG_PU_CTRL_def)
qed

theorem nau_conversion_exact_witness:
  "\<exists>h'. read_raw (demo_nau demo_answer) = (ESP_OK, -2, h') \<and> (-2 :: int) < 2 ^ 23
     \<and> (\<exists>raw g. read_regs REG_ADCO_B2 3 g = (ESP_OK, raw, h')
         \<and> (-2) mod 2 ^ 24 = uint (raw ! 0) * 2 ^ 16 + uint (raw ! 1) * 2 ^ 8 + uint (raw ! 2))"
  using nau_conversion_exact [OF demo_conversion] demo_conversion by blast

theorem nau_average_is_the_statistics_witness:
  "\<exists>st h' vs. nau7802_read_average real_fp True 2 (demo_nau demo_answer) = (ESP_OK, Some st, h')
     \<and> length vs = 2 \<and> low_count st = Min (set vs) \<and> samples st = 2"
proof -
  from demo_average obtain st h' where
    a: "nau7802_read_average real_fp True 2 (demo_nau demo_answer) = (ESP_OK, Some st, h')" by blast
  from nau_average_is_the_statistics [OF a] a show ?thesis by auto
qed

end
