(* ===== verification/Nau_Scale.thy ===== *)
theory Nau_Scale
  imports Nau7802
begin

unbundle bit_operations_syntax

text \<open>
  The scale arithmetic of \<open>nau7802/src/nau7802_scale.c\<close>: tare, calibration against a known
  mass, weighing, supplied factors. With it the driver is complete, and the last section is about all
  its calls together: a handle is used by any sequence of them, on any device.
\<close>

section \<open>Operations\<close>

definition nau7802_get_scale :: "'d nau option \<Rightarrow> 'd nau_scale option" where
  "nau7802_get_scale h = map_option n_scale h"

definition nau7802_set_scale :: "'d fp \<Rightarrow> bool \<Rightarrow> 'd \<Rightarrow> 'd nau \<Rightarrow> esp_err_t \<times> 'd nau" where
  "nau7802_set_scale fp args c h =
    (if \<not> args then (ESP_ERR_INVALID_ARG, h)
     else if fp_eq fp c (fp_zero fp) \<or> \<not> fp_finite fp c then (ESP_ERR_INVALID_ARG, h)
     else if \<not> n_ready h then (ESP_ERR_INVALID_STATE, h)
     else (ESP_OK, h\<lparr>n_scale := (n_scale h)\<lparr>counts_per_unit := c, calibrated := True, supplied := True\<rparr>\<rparr>))"

text \<open>The local statistics start as zero and keep that when the average is refused.\<close>

definition local_average :: "'d fp \<Rightarrow> int \<Rightarrow> 'd nau \<Rightarrow> esp_err_t \<times> 'd nau_stats \<times> 'd nau" where
  "local_average fp n h =
    (let (e, st, h) = nau7802_read_average fp True n h in
     (e, case st of None \<Rightarrow> zero_stats fp | Some st \<Rightarrow> st, h))"

definition nau7802_tare :: "'d fp \<Rightarrow> bool \<Rightarrow> int \<Rightarrow> 'd nau \<Rightarrow> esp_err_t \<times> 'd nau_stats \<times> 'd nau" where
  "nau7802_tare fp args n h =
    (if \<not> args then (ESP_ERR_INVALID_ARG, zero_stats fp, h)
     else
       let (e, st, h) = local_average fp n h in
       if e \<noteq> ESP_OK then (e, st, h)
       else (ESP_OK, st, h\<lparr>n_scale := (n_scale h)\<lparr>tare_counts := mean st, tare_stderr := stderr_mean st,
                                                 tare_samples := samples st\<rparr>\<rparr>))"

record 'd nau_calibration =
  cal_net_counts :: 'd
  cal_uncertainty :: 'd
  cal_counts_per_unit :: 'd
  precision_percent :: 'd
  cal_gain :: int
  cal_gain_valid :: bool

definition CALIBRATION_SIGMA :: "'d fp \<Rightarrow> 'd" where "CALIBRATION_SIGMA fp = fp_lit fp 10"

definition nau7802_calibrate ::
    "'d fp \<Rightarrow> bool \<Rightarrow> 'd \<Rightarrow> int \<Rightarrow> 'd nau \<Rightarrow> esp_err_t \<times> 'd nau_stats \<times> 'd nau_calibration \<times> 'd nau" where
  "nau7802_calibrate fp args known_mass n h =
    (let z = fp_zero fp;
         r = \<lparr>cal_net_counts = z, cal_uncertainty = z, cal_counts_per_unit = z, precision_percent = z,
              cal_gain = 0, cal_gain_valid = False\<rparr> in
     if \<not> args \<or> fp_eq fp known_mass z then (ESP_ERR_INVALID_ARG, zero_stats fp, r, h)
     else
       let (e, st, h) = local_average fp n h in
       if e \<noteq> ESP_OK then (e, st, r, h)
       else
         let net = fp_sub fp (mean st) (tare_counts (n_scale h));
             unc = fp_hypot fp (stderr_mean st) (tare_stderr (n_scale h));
             r = r\<lparr>cal_net_counts := net, cal_uncertainty := unc\<rparr>;
             (e, ctrl1, h) = read_reg REG_CTRL1 h;
             r = (if e = ESP_OK
                  then r\<lparr>cal_gain := uint (ctrl1 AND CTRL1_GAINS_MASK), cal_gain_valid := True\<rparr> else r) in
         if samples st < 2 \<or> tare_samples (n_scale h) < 2
         then (ESP_ERR_NAU7802_TOO_FEW_SAMPLES, st, r, h)
         else if fp_less fp (fp_abs fp net) (fp_mul fp (CALIBRATION_SIGMA fp) unc)
         then (ESP_ERR_NAU7802_WITHIN_NOISE, st, r, h)
         else
           let c = fp_div fp net known_mass;
               r = r\<lparr>cal_counts_per_unit := c,
                     precision_percent := fp_div fp (fp_mul fp (fp_lit fp 100) unc) (fp_abs fp net)\<rparr>
           in (ESP_OK, st, r,
               h\<lparr>n_scale := (n_scale h)\<lparr>counts_per_unit := c, calibrated := True, supplied := False\<rparr>\<rparr>))"

record 'd nau_weight =
  w_units :: 'd
  w_uncertainty :: 'd
  w_spread :: 'd
  w_net_counts :: 'd
  w_tare_taken :: bool

definition nau7802_weigh ::
    "'d fp \<Rightarrow> bool \<Rightarrow> int \<Rightarrow> 'd nau \<Rightarrow> esp_err_t \<times> 'd nau_stats \<times> 'd nau_weight option \<times> 'd nau" where
  "nau7802_weigh fp args n h =
    (if \<not> args then (ESP_ERR_INVALID_ARG, zero_stats fp, None, h)
     else if \<not> calibrated (n_scale h) then (ESP_ERR_INVALID_STATE, zero_stats fp, None, h)
     else
       let (e, st, h) = local_average fp n h in
       if e \<noteq> ESP_OK then (e, st, None, h)
       else
         let sc = fp_abs fp (counts_per_unit (n_scale h));
             net = fp_sub fp (mean st) (tare_counts (n_scale h))
         in (ESP_OK, st,
             Some \<lparr>w_units = fp_div fp net (counts_per_unit (n_scale h)),
                   w_uncertainty = (if samples st > 1
                      then fp_div fp (fp_hypot fp (stderr_mean st) (tare_stderr (n_scale h))) sc else fp_zero fp),
                   w_spread = (if samples st > 1
                      then fp_div fp (fp_of_int fp (high_count st - low_count st)) sc else fp_zero fp),
                   w_net_counts = net, w_tare_taken = (tare_samples (n_scale h) > 0)\<rparr>,
             h))"

section \<open>Any sequence of calls\<close>

inductive nau_op :: "'d fp \<Rightarrow> 'd nau \<Rightarrow> 'd nau \<Rightarrow> bool" for fp where
  bring_up: "nau_op fp h (snd (snd (nau7802_bring_up fp args opts h)))"
| set_device: "nau_op fp h (snd (nau7802_set_device args h))"
| set_drdy: "nau_op fp h (snd (nau7802_set_drdy valid_pin args pin h))"
| read_one: "nau_op fp h (snd (snd (nau7802_read_raw args h)))"
| read_average: "nau_op fp h (snd (snd (nau7802_read_average fp args n h)))"
| get_gain: "nau_op fp h (snd (snd (nau7802_get_gain args h)))"
| get_rate: "nau_op fp h (snd (snd (nau7802_get_rate args h)))"
| get_channel: "nau_op fp h (snd (snd (nau7802_get_channel args h)))"
| get_ldomode: "nau_op fp h (snd (snd (nau7802_get_ldomode args h)))"
| get_pga_cap: "nau_op fp h (snd (snd (nau7802_get_pga_cap args h)))"
| set_gain: "nau_op fp h (snd (snd (nau7802_set_gain fp g args h)))"
| set_rate: "nau_op fp h (snd (snd (nau7802_set_rate fp r args h)))"
| set_channel: "nau_op fp h (snd (snd (nau7802_set_channel fp c args h)))"
| set_ldomode: "nau_op fp h (snd (snd (nau7802_set_ldomode fp b args h)))"
| set_pga_cap: "nau_op fp h (snd (snd (nau7802_set_pga_cap fp b args h)))"
| get_status: "nau_op fp h (snd (snd (nau7802_get_status fp args h)))"
| read_register: "nau_op fp h (snd (snd (nau7802_read_register args reg h)))"
| set_scale: "nau_op fp h (snd (nau7802_set_scale fp args x h))"
| reset_scale: "nau_op fp h (nau7802_reset_scale fp h)"
| tare: "nau_op fp h (snd (snd (nau7802_tare fp args n h)))"
| calibrate: "nau_op fp h (snd (snd (snd (nau7802_calibrate fp args x n h))))"
| weigh: "nau_op fp h (snd (snd (snd (nau7802_weigh fp args n h))))"

text \<open>Entries other than a write the device took.\<close>

definition no_write_taken :: "bus_entry \<Rightarrow> bool" where
  "no_write_taken x = (case fst x of Tx bs \<Rightarrow> snd x \<noteq> ESP_OK | _ \<Rightarrow> True)"

lemma quiet_no_write [simp]: "quiet no_write_taken"
  by (auto simp: quiet_def no_write_taken_def split: bus_op.split)

text \<open>What one call can do, in four kinds. Only reads and writes that failed: the scale may change,
  the converter did not. Or the scale is dropped; or the handle is not ready; or bring-up has just
  ended and installed the factor it was given.\<close>

definition harmless :: "'d nau \<Rightarrow> 'd nau \<Rightarrow> bool" where
  "harmless h h' \<longleftrightarrow> grew no_write_taken (n_bus h) (n_bus h') \<and> n_ready h' = n_ready h"

definition fresh_factor :: "'d fp \<Rightarrow> 'd nau \<Rightarrow> 'd nau \<Rightarrow> bool" where
  "fresh_factor fp h h' \<longleftrightarrow> (\<exists>args opts. set_scale opts \<and> n_scale h' = factor_scale fp (o_counts_per_unit opts)
     \<and> h' = snd (snd (nau7802_bring_up fp args opts h)))"

lemma harmless_calm: "calm no_write_taken h h' \<Longrightarrow> harmless h h'"
  by (simp add: calm_def harmless_def)

lemma harmless_scale: "harmless h (h'\<lparr>n_scale := x\<rparr>) = harmless h h'"
  by (simp add: harmless_def)

lemma update_reg_failed:
  "fst (update_reg r c m h) \<noteq> ESP_OK \<Longrightarrow> calm no_write_taken h (snd (update_reg r c m h))"
proof -
  let ?g = "snd (snd (read_reg r h))"
  assume *: "fst (update_reg r c m h) \<noteq> ESP_OK"
  have g: "calm no_write_taken h ?g" by (intro calm_read_reg calm_refl quiet_no_write)
  have "calm no_write_taken h (snd (write_reg r v ?g))" if "fst (write_reg r v ?g) \<noteq> ESP_OK" for v
  proof (cases "n_dev ?g")
    case True
    then show ?thesis
      using that calm_call [OF g, of "Tx [r, v]"] by (simp add: write_reg_def split_beta Let_def no_write_taken_def)
  next
    case False
    then show ?thesis using g by (simp add: write_reg_def)
  qed
  then show ?thesis using * g by (simp add: update_reg_def split_beta Let_def split: if_splits)
qed

lemma apply_change_drops: "n_scale (snd (snd (apply_analog_change fp h))) = zero_scale fp"
proof -
  let ?h = "nau7802_reset_scale fp h"
  have c: "calm (\<lambda>x. True) ?h (snd (run_calibration ?h))" by (intro calm_calibration calm_refl) simp_all
  then have r: "calm (\<lambda>x. True) ?h (snd (snd (restart_conversions (snd (run_calibration ?h)))))"
    by (intro calm_restart) simp_all
  then have "calm (\<lambda>x. True) ?h (snd (discard_conversions n (snd (snd (restart_conversions (snd (run_calibration ?h)))))))" for n
    by (intro calm_discard) simp_all
  with c r show ?thesis
    by (simp add: apply_analog_change_def split_beta Let_def calm_def nau7802_reset_scale_def)
qed

lemma set_field_effect:
  "harmless h (snd (snd (set_field fp r c m args h))) \<or> n_scale (snd (snd (set_field fp r c m args h))) = zero_scale fp"
proof -
  have "calm no_write_taken h (snd (snd (set_field fp r c m args h)))
   \<or> n_scale (snd (snd (set_field fp r c m args h))) = zero_scale fp"
    using update_reg_failed [of r c m h] apply_change_drops [of fp "snd (update_reg r c m h)"]
    by (auto simp: set_field_def split_beta Let_def)
  then show ?thesis using harmless_calm by blast
qed

lemma harmless_refl [simp]: "harmless h h"
  by (simp add: harmless_def)

lemma setter_effect:
  "harmless h (snd (snd (nau7802_set_gain fp g args h))) \<or> n_scale (snd (snd (nau7802_set_gain fp g args h))) = zero_scale fp"
  "harmless h (snd (snd (nau7802_set_rate fp g args h))) \<or> n_scale (snd (snd (nau7802_set_rate fp g args h))) = zero_scale fp"
  by (cases "nau7802_gain_value g < 0"; simp add: nau7802_set_gain_def set_field_effect)
    (cases "nau7802_rate_sps g < 0"; simp add: nau7802_set_rate_def set_field_effect)

lemma local_average_calm: "calm no_write_taken h (snd (snd (local_average fp n h)))"
  by (simp add: local_average_def split_beta Let_def calm_average)

lemma weighing_effect:
  "harmless h (snd (snd (nau7802_tare fp args n h)))"
  "harmless h (snd (snd (snd (nau7802_calibrate fp args x n h))))"
  "harmless h (snd (snd (snd (nau7802_weigh fp args n h))))"
  "harmless h (snd (nau7802_set_scale fp args x h))"
proof -
  let ?a = "snd (snd (local_average fp n h))"
  have 1: "harmless h ?a" by (rule harmless_calm) (rule local_average_calm)
  have 2: "harmless h (snd (snd (read_reg REG_CTRL1 ?a)))"
    by (rule harmless_calm) (intro calm_read_reg local_average_calm quiet_no_write)
  show "harmless h (snd (snd (nau7802_tare fp args n h)))"
    using 1 by (auto simp: nau7802_tare_def Let_def harmless_scale split: prod.split)
  show "harmless h (snd (snd (snd (nau7802_calibrate fp args x n h))))"
    using 1 2 by (auto simp: nau7802_calibrate_def Let_def harmless_scale split: prod.split)
  show "harmless h (snd (snd (snd (nau7802_weigh fp args n h))))"
    using 1 by (auto simp: nau7802_weigh_def Let_def split: prod.split)
  show "harmless h (snd (nau7802_set_scale fp args x h))"
    by (simp add: nau7802_set_scale_def harmless_scale)
qed

lemma reading_effect:
  "harmless h (snd (nau7802_set_device args h))"
  "harmless h (snd (nau7802_set_drdy valid_pin args pin h))"
  "harmless h (snd (snd (nau7802_read_raw args h)))"
  "harmless h (snd (snd (nau7802_read_average fp args n h)))"
  "harmless h (snd (snd (nau7802_get_gain args h)))"
  "harmless h (snd (snd (nau7802_get_rate args h)))"
  "harmless h (snd (snd (nau7802_get_channel args h)))"
  "harmless h (snd (snd (nau7802_get_ldomode args h)))"
  "harmless h (snd (snd (nau7802_get_pga_cap args h)))"
  "harmless h (snd (snd (nau7802_get_status fp args h)))"
  "harmless h (snd (snd (nau7802_read_register args reg h)))"
  by (simp_all add: nau_calm harmless_calm nau7802_set_device_def calm_fields nau7802_set_drdy_def
      nau7802_read_raw_def nau7802_get_gain_def nau7802_get_rate_def nau7802_get_channel_def
      nau7802_get_ldomode_def nau7802_get_pga_cap_def nau7802_read_register_def split_beta Let_def)

lemma bring_up_effect:
  "harmless h (snd (snd (nau7802_bring_up fp args opts h)))
   \<or> n_scale (snd (snd (nau7802_bring_up fp args opts h))) = zero_scale fp
   \<or> \<not> n_ready (snd (snd (nau7802_bring_up fp args opts h)))
   \<or> fresh_factor fp h (snd (snd (nau7802_bring_up fp args opts h)))"
proof -
  obtain e r k where bu: "nau7802_bring_up fp args opts h = (e, r, k)" by (cases "nau7802_bring_up fp args opts h")
  have k: "k = snd (snd (nau7802_bring_up fp args opts h))" by (simp add: bu)
  have "fresh_factor fp h k" if "set_scale opts" "n_scale k = factor_scale fp (o_counts_per_unit opts)"
    unfolding fresh_factor_def using that k by blast
  then show ?thesis
    using bring_up_outcome [OF bu] unfolding k [symmetric] by (cases "set_scale opts") auto
qed

lemma nau_op_effect:
  "nau_op fp h h' \<Longrightarrow> harmless h h' \<or> n_scale h' = zero_scale fp \<or> \<not> n_ready h' \<or> fresh_factor fp h h'"
proof (induction rule: nau_op.induct)
  case (bring_up h args opts)
  show ?case by (rule bring_up_effect)
next
  case (set_gain h g args)
  show ?case using setter_effect(1) by blast
next
  case (set_rate h r args)
  show ?case using setter_effect(2) by blast
next
  case (set_channel h c args)
  show ?case unfolding nau7802_set_channel_def using set_field_effect by blast
next
  case (set_ldomode h b args)
  show ?case unfolding nau7802_set_ldomode_def using set_field_effect by blast
next
  case (set_pga_cap h b args)
  show ?case unfolding nau7802_set_pga_cap_def using set_field_effect by blast
next
  case (reset_scale h)
  show ?case by (simp add: nau7802_reset_scale_def)
qed (rule disjI1, rule reading_effect weighing_effect)+

section \<open>The scale belongs to the analog path in force\<close>

lemma scale_origin:
  assumes "(nau_op fp)\<^sup>*\<^sup>* h0 h"
  shows "n_scale h0 = zero_scale fp \<Longrightarrow> n_ready h \<Longrightarrow> n_scale h \<noteq> zero_scale fp \<Longrightarrow>
    \<exists>m. (nau_op fp)\<^sup>*\<^sup>* h0 m \<and> (nau_op fp)\<^sup>*\<^sup>* m h \<and> grew no_write_taken (n_bus m) (n_bus h)
      \<and> (n_scale m = zero_scale fp \<or> (\<exists>k. (nau_op fp)\<^sup>*\<^sup>* h0 k \<and> fresh_factor fp k m))"
  using assms
proof (induction rule: rtranclp_induct)
  case base
  then show ?case by blast
next
  case (step h h')
  have run: "(nau_op fp)\<^sup>*\<^sup>* h0 h'" using step.hyps by (rule rtranclp.rtrancl_into_rtrancl)
  consider "harmless h h'" | "fresh_factor fp h h'" using nau_op_effect [OF step.hyps(2)] step.prems by blast
  then show ?case
  proof cases
    case 1
    show ?thesis
    proof (cases "n_scale h = zero_scale fp")
      case True
      then show ?thesis using step.hyps 1 unfolding harmless_def by blast
    next
      case False
      then obtain m where "(nau_op fp)\<^sup>*\<^sup>* h0 m" "(nau_op fp)\<^sup>*\<^sup>* m h" "grew no_write_taken (n_bus m) (n_bus h)"
          "n_scale m = zero_scale fp \<or> (\<exists>k. (nau_op fp)\<^sup>*\<^sup>* h0 k \<and> fresh_factor fp k m)"
        using step.IH step.prems 1 unfolding harmless_def by blast
      then show ?thesis
        using step.hyps(2) 1 unfolding harmless_def
        by (metis grew_trans rtranclp.rtrancl_into_rtrancl)
    qed
  next
    case 2
    then show ?thesis using run step.hyps(1) by blast
  qed
qed

text \<open>C16. A scale never outlives the analog settings it belongs to. Take a handle without tare or
  factor, and any sequence of calls on any device, of which any transfer may fail. If in the end the
  handle is ready and holds a tare or a factor, then since all of it was measured or supplied - from a
  point where there was none, or where bring-up had just installed its factor - the converter has
  taken no write: gain, rate, channel, regulator and filter are what they were.\<close>

theorem nau_scale_belongs_to_settings:
  assumes "(nau_op fp)\<^sup>*\<^sup>* h0 h" "n_scale h0 = zero_scale fp" "n_ready h" "n_scale h \<noteq> zero_scale fp"
  shows "\<exists>m. (nau_op fp)\<^sup>*\<^sup>* h0 m \<and> (nau_op fp)\<^sup>*\<^sup>* m h
      \<and> (\<exists>t. trace (n_bus h) = trace (n_bus m) @ t \<and> (\<forall>bs. (Tx bs, ESP_OK) \<notin> set t))
      \<and> (n_scale m = zero_scale fp
         \<or> (\<exists>k args opts. (nau_op fp)\<^sup>*\<^sup>* h0 k \<and> set_scale opts
              \<and> m = snd (snd (nau7802_bring_up fp args opts k))
              \<and> n_scale m = factor_scale fp (o_counts_per_unit opts)))"
proof -
  from scale_origin [OF assms] obtain m where m: "(nau_op fp)\<^sup>*\<^sup>* h0 m" "(nau_op fp)\<^sup>*\<^sup>* m h"
      and gr: "grew no_write_taken (n_bus m) (n_bus h)"
      and src: "n_scale m = zero_scale fp \<or> (\<exists>k. (nau_op fp)\<^sup>*\<^sup>* h0 k \<and> fresh_factor fp k m)" by blast
  from gr obtain t where "trace (n_bus h) = trace (n_bus m) @ t" "list_all no_write_taken t" by (rule grewE)
  then have "\<exists>t. trace (n_bus h) = trace (n_bus m) @ t \<and> (\<forall>bs. (Tx bs, ESP_OK) \<notin> set t)"
    by (auto simp: list_all_iff no_write_taken_def)
  with m src show ?thesis unfolding fresh_factor_def by blast
qed

definition demo_tared :: "real nau" where
  "demo_tared = snd (snd (nau7802_tare real_fp True 2 (demo_nau demo_answer)))"

lemma demo_tared_state: "n_ready demo_tared" "n_scale demo_tared \<noteq> zero_scale real_fp"
proof -
  from demo_average obtain st h' where
    "nau7802_read_average real_fp True 2 (demo_nau demo_answer) = (ESP_OK, Some st, h')" "samples st = 2" "n_ready h'"
    by blast
  then have d: "demo_tared = h'\<lparr>n_scale := (n_scale h')\<lparr>tare_counts := mean st, tare_stderr := stderr_mean st,
      tare_samples := 2\<rparr>\<rparr>" "n_ready h'"
    by (simp_all add: demo_tared_def nau7802_tare_def local_average_def)
  show "n_ready demo_tared" unfolding d(1) using d(2) by simp
  have "tare_samples (n_scale demo_tared) \<noteq> tare_samples (zero_scale real_fp)"
    unfolding d(1) by (simp add: zero_scale_def)
  then show "n_scale demo_tared \<noteq> zero_scale real_fp" by metis
qed

theorem nau_scale_belongs_to_settings_witness:
  "n_scale demo_tared \<noteq> zero_scale real_fp
   \<and> (\<exists>m t. trace (n_bus demo_tared) = trace (n_bus m) @ t \<and> (\<forall>bs. (Tx bs, ESP_OK) \<notin> set t)
        \<and> (nau_op real_fp)\<^sup>*\<^sup>* m demo_tared)"
proof -
  have "nau_op real_fp (demo_nau demo_answer) demo_tared" unfolding demo_tared_def by (rule nau_op.tare)
  then have "(nau_op real_fp)\<^sup>*\<^sup>* (demo_nau demo_answer) demo_tared" by (rule r_into_rtranclp)
  moreover have "n_scale (demo_nau demo_answer) = zero_scale real_fp" by (simp add: demo_nau_def)
  ultimately show ?thesis
    using nau_scale_belongs_to_settings [OF _ _ demo_tared_state] demo_tared_state(2) by blast
qed

end
