(* ===== verification/Ota.thy ===== *)
theory Ota
  imports Http_Server
begin

text \<open>
  Firmware update: the sessions of \<open>ota/src/ota.c\<close> and the upload handler of
  \<open>ota/src/ota_http.c\<close>. The platform's flash functions (\<open>esp_ota_begin\<close> and the
  others) are a parameter: each call is recorded, and its answer may depend on all calls before it.
  So are the structures at the head of an image, which ESP-IDF lays out: \<open>image_layout\<close> says
  how long they are and reads them.
\<close>

section \<open>The platform\<close>

record image_layout =
  header_bytes :: nat
  magic_ok :: "string \<Rightarrow> bool"
  descriptor_ok :: "string \<Rightarrow> bool"
  project_of :: "string \<Rightarrow> string"
  version_of :: "string \<Rightarrow> string"

datatype ota_call = Ota_begin string | Ota_write string | Ota_end | Ota_abort | Set_boot string

record flash =
  calls :: "ota_call list"
  result :: "ota_call list \<Rightarrow> ota_call \<Rightarrow> esp_err_t"
  next_slot :: "string option"
  running_project :: "string option"
  calloc_ok :: bool

definition flash_call :: "ota_call \<Rightarrow> flash \<Rightarrow> esp_err_t \<times> flash" where
  "flash_call c f = (result f (calls f) c, f\<lparr>calls := calls f @ [c]\<rparr>)"

text \<open>\<open>strncmp(a, b, n) != 0\<close>.\<close>

definition strncmp_differs :: "nat \<Rightarrow> string \<Rightarrow> string \<Rightarrow> bool" where
  "strncmp_differs n a b \<longleftrightarrow> take n a \<noteq> take n b"

section \<open>Sessions\<close>

datatype ota_stage_t =
    OTA_STAGE_NONE
  | OTA_STAGE_NO_PARTITION
  | OTA_STAGE_BEGIN
  | OTA_STAGE_VALIDATE
  | OTA_STAGE_WRITE
  | OTA_STAGE_END
  | OTA_STAGE_SET_BOOT

definition ota_stage_name :: "ota_stage_t \<Rightarrow> string" where
  "ota_stage_name st = (case st of
     OTA_STAGE_NONE \<Rightarrow> ''none'' | OTA_STAGE_NO_PARTITION \<Rightarrow> ''no update partition''
   | OTA_STAGE_BEGIN \<Rightarrow> ''preparing the partition'' | OTA_STAGE_VALIDATE \<Rightarrow> ''validating the image''
   | OTA_STAGE_WRITE \<Rightarrow> ''writing'' | OTA_STAGE_END \<Rightarrow> ''verifying the image''
   | OTA_STAGE_SET_BOOT \<Rightarrow> ''selecting the boot partition'')"

record ota_report =
  failed_stage :: ota_stage_t
  err :: esp_err_t
  bytes_written :: nat
  slot_label :: string
  image_project :: string
  image_version :: string

definition zero_report :: ota_report where
  "zero_report = \<lparr>failed_stage = OTA_STAGE_NONE, err = ESP_OK, bytes_written = 0, slot_label = [],
     image_project = [], image_version = []\<rparr>"

record ota_session =
  slot :: string
  require_matching_project :: bool
  validated :: bool
  header :: string

definition fail :: "ota_report option \<Rightarrow> ota_stage_t \<Rightarrow> esp_err_t \<Rightarrow> ota_report option" where
  "fail rep stage e = map_option (\<lambda>r. r\<lparr>failed_stage := stage, err := e\<rparr>) rep"

text \<open>\<open>cfg\<close>: None for NULL, otherwise \<open>require_matching_project\<close>. The report is None when
  the caller passes NULL.\<close>

definition ota_session_begin ::
    "bool \<Rightarrow> bool option \<Rightarrow> ota_report option \<Rightarrow> flash
       \<Rightarrow> esp_err_t \<times> ota_session option \<times> ota_report option \<times> flash" where
  "ota_session_begin out_ok cfg rep f =
    (if \<not> out_ok then (ESP_ERR_INVALID_ARG, None, rep, f)
     else
       let rep = map_option (\<lambda>r. zero_report) rep in
       case next_slot f of
         None \<Rightarrow> (ESP_ERR_NOT_FOUND, None, fail rep OTA_STAGE_NO_PARTITION ESP_ERR_NOT_FOUND, f)
       | Some target \<Rightarrow>
           if \<not> calloc_ok f then (ESP_ERR_NO_MEM, None, rep, f)
           else
             let s = \<lparr>slot = target, require_matching_project = (case cfg of None \<Rightarrow> True | Some m \<Rightarrow> m),
                      validated = False, header = []\<rparr>;
                 rep = map_option (\<lambda>r. r\<lparr>slot_label := snd (snprintf 17 target)\<rparr>) rep;
                 (e, f) = flash_call (Ota_begin target) f in
             if e \<noteq> ESP_OK then (e, None, fail rep OTA_STAGE_BEGIN e, f)
             else (ESP_OK, Some s, rep, f))"

definition validate_header ::
    "image_layout \<Rightarrow> string option \<Rightarrow> ota_session \<Rightarrow> ota_report option
       \<Rightarrow> esp_err_t \<times> ota_session \<times> ota_report option" where
  "validate_header L running s rep =
    (if length (header s) < header_bytes L
     then (OTA_ERR_TRUNCATED, s, fail rep OTA_STAGE_VALIDATE OTA_ERR_TRUNCATED)
     else if \<not> magic_ok L (header s)
     then (OTA_ERR_NOT_AN_IMAGE, s, fail rep OTA_STAGE_VALIDATE OTA_ERR_NOT_AN_IMAGE)
     else if \<not> descriptor_ok L (header s)
     then (OTA_ERR_NOT_AN_IMAGE, s, fail rep OTA_STAGE_VALIDATE OTA_ERR_NOT_AN_IMAGE)
     else
       let rep = map_option (\<lambda>r. r\<lparr>image_project := snd (snprintf 33 (take 32 (project_of L (header s)))),
                                   image_version := snd (snprintf 33 (take 32 (version_of L (header s))))\<rparr>) rep in
       if require_matching_project s \<and>
          (case running of None \<Rightarrow> False | Some p \<Rightarrow> strncmp_differs 32 p (project_of L (header s)))
       then (OTA_ERR_WRONG_PROJECT, s, fail rep OTA_STAGE_VALIDATE OTA_ERR_WRONG_PROJECT)
       else (ESP_OK, s\<lparr>validated := True\<rparr>, rep))"

definition ota_session_write ::
    "image_layout \<Rightarrow> bool \<Rightarrow> string \<Rightarrow> ota_session \<Rightarrow> ota_report option \<Rightarrow> flash
       \<Rightarrow> esp_err_t \<times> ota_session \<times> ota_report option \<times> flash" where
  "ota_session_write L args data s rep f =
    (if \<not> args then (ESP_ERR_INVALID_ARG, s, rep, f)
     else if data = [] then (ESP_OK, s, rep, f)
     else
       let (e, s, rep) =
         (if \<not> validated s \<and> length (header s) < header_bytes L then
            let want = header_bytes L - length (header s);
                n = (if length data < want then length data else want);
                s = s\<lparr>header := header s @ take n data\<rparr> in
            if length (header s) = header_bytes L then validate_header L (running_project f) s rep
            else (ESP_OK, s, rep)
          else (ESP_OK, s, rep)) in
       if e \<noteq> ESP_OK then (e, s, rep, f)
       else
         let (e, f) = flash_call (Ota_write data) f in
         if e \<noteq> ESP_OK then (e, s, fail rep OTA_STAGE_WRITE e, f)
         else (ESP_OK, s, map_option (\<lambda>r. r\<lparr>bytes_written := bytes_written r + length data\<rparr>) rep, f))"

text \<open>The session is freed on every path of the end and of an abort.\<close>

definition ota_session_end :: "ota_session option \<Rightarrow> ota_report option \<Rightarrow> flash \<Rightarrow> esp_err_t \<times> ota_report option \<times> flash" where
  "ota_session_end sess rep f =
    (case sess of None \<Rightarrow> (ESP_ERR_INVALID_ARG, rep, f)
     | Some s \<Rightarrow>
       if \<not> validated s then
         (OTA_ERR_TRUNCATED, fail rep OTA_STAGE_VALIDATE OTA_ERR_TRUNCATED, snd (flash_call Ota_abort f))
       else
         let (e, f) = flash_call Ota_end f in
         if e \<noteq> ESP_OK then (e, fail rep OTA_STAGE_END e, f)
         else
           let (e, f) = flash_call (Set_boot (slot s)) f in
           if e \<noteq> ESP_OK then (e, fail rep OTA_STAGE_SET_BOOT e, f)
           else (ESP_OK, rep, f))"

definition ota_session_abort :: "ota_session option \<Rightarrow> flash \<Rightarrow> flash" where
  "ota_session_abort sess f = (case sess of None \<Rightarrow> f | Some s \<Rightarrow> snd (flash_call Ota_abort f))"

text \<open>The three calls about the running firmware hand on the platform's answer.\<close>

definition ota_mark_valid :: "esp_err_t \<Rightarrow> esp_err_t" where "ota_mark_valid e = e"

definition ota_pending_verify :: "bool \<Rightarrow> esp_err_t \<times> bool \<Rightarrow> bool" where
  "ota_pending_verify running_known st =
    (if \<not> running_known \<or> fst st \<noteq> ESP_OK then False else snd st)"

definition ota_rollback_and_reboot :: "esp_err_t \<Rightarrow> esp_err_t" where "ota_rollback_and_reboot e = e"

section \<open>The upload handler\<close>

text \<open>What is sent back: which message, with what is put into it.\<close>

datatype failure_message =
    Single_app_table
  | Other_project string
  | Not_firmware
  | Ended_early nat
  | Write_failed nat esp_err_t string
  | Verification_failed esp_err_t
  | Stage_failed string esp_err_t

datatype ota_reply = Failure failure_message | Interrupted | Staged string string string nat

definition send_failure :: "ota_report \<Rightarrow> esp_err_t \<Rightarrow> ota_reply" where
  "send_failure r e = Failure (case failed_stage r of
     OTA_STAGE_NO_PARTITION \<Rightarrow> Single_app_table
   | OTA_STAGE_VALIDATE \<Rightarrow>
       (if e = OTA_ERR_WRONG_PROJECT then Other_project (image_project r)
        else if e = OTA_ERR_NOT_AN_IMAGE then Not_firmware else Ended_early (bytes_written r))
   | OTA_STAGE_WRITE \<Rightarrow> Write_failed (bytes_written r) e (slot_label r)
   | OTA_STAGE_END \<Rightarrow> Verification_failed e
   | _ \<Rightarrow> Stage_failed (ota_stage_name (failed_stage r)) e)"

fun receive_loop ::
    "image_layout \<Rightarrow> string list \<Rightarrow> ota_session \<Rightarrow> ota_report option \<Rightarrow> flash
       \<Rightarrow> esp_err_t \<times> ota_session \<times> ota_report option \<times> flash" where
  "receive_loop L [] s rep f = (ESP_OK, s, rep, f)"
| "receive_loop L (c # cs) s rep f =
     (let (e, s, rep, f) = ota_session_write L True c s rep f in
      if e \<noteq> ESP_OK then (e, s, rep, f) else receive_loop L cs s rep f)"

text \<open>Of the request's body the chunks \<open>cs\<close> arrive; then \<open>httpd_req_recv\<close> answers \<open>received\<close>, which
  is not positive: 0 when there is no more to come, but also when the peer has closed the connection before,
  or an error. The last component: the device restarts.\<close>

definition ota_post_handler :: "image_layout \<Rightarrow> string list \<Rightarrow> int \<Rightarrow> flash \<Rightarrow> ota_reply \<times> flash \<times> bool" where
  "ota_post_handler L cs received f =
    (let (e, sess, rep, f) = ota_session_begin True None (Some zero_report) f in
     case sess of None \<Rightarrow> (send_failure (the rep) e, f, False)
     | Some s \<Rightarrow>
       let (e, s, rep, f) = receive_loop L cs s rep f in
       if e \<noteq> ESP_OK then (send_failure (the rep) e, ota_session_abort (Some s) f, False)
       else if received < 0 then (Interrupted, ota_session_abort (Some s) f, False)
       else
         let (e, rep, f) = ota_session_end (Some s) rep f in
         if e \<noteq> ESP_OK then (send_failure (the rep) e, f, False)
         else (Staged (slot_label (the rep)) (image_project (the rep)) (image_version (the rep))
                      (bytes_written (the rep)), f, True))"

definition ota_http_register :: "httpd_answers \<Rightarrow> nat \<Rightarrow> cptr \<Rightarrow> http_t \<Rightarrow> esp_err_t \<times> http_t" where
  "ota_http_register a handler uri h =
     http_server_add_routes a
       (Some [\<lparr>r_uri = Some (case uri of None \<Rightarrow> ''/api/ota'' | Some u \<Rightarrow> u), r_method = 3,
               r_handler = Some handler, r_ctx = 0, r_auth = True\<rparr>]) 1 h"

section \<open>What is let through\<close>

definition image_ok :: "image_layout \<Rightarrow> string option \<Rightarrow> string \<Rightarrow> bool" where
  "image_ok L running img \<longleftrightarrow>
     (let h = take (header_bytes L) img in
      header_bytes L \<le> length img \<and> magic_ok L h \<and> descriptor_ok L h
      \<and> (\<forall>p. running = Some p \<longrightarrow> take 32 p = take 32 (project_of L h)))"

text \<open>A session that matches projects, after the bytes \<open>got\<close> without an error.\<close>

definition session_inv :: "image_layout \<Rightarrow> string option \<Rightarrow> string \<Rightarrow> ota_session \<Rightarrow> bool" where
  "session_inv L running got s \<longleftrightarrow>
     require_matching_project s \<and> header s = take (header_bytes L) got
     \<and> (validated s \<longleftrightarrow> header_bytes L \<le> length got) \<and> (validated s \<longrightarrow> image_ok L running got)"

lemma image_ok_append: "header_bytes L \<le> length got \<Longrightarrow> image_ok L running (got @ rest) = image_ok L running got"
  by (simp add: image_ok_def)

lemma image_ok_head: "header_bytes L \<le> length img \<Longrightarrow> image_ok L running (take (header_bytes L) img) = image_ok L running img"
  by (simp add: image_ok_def min_def)

lemma validate_header_result:
  assumes "length (header s) = header_bytes L" "require_matching_project s"
  shows "fst (validate_header L running s rep) = ESP_OK \<longleftrightarrow> image_ok L running (header s)"
    and "fst (validate_header L running s rep) = ESP_OK \<Longrightarrow>
           fst (snd (validate_header L running s rep)) = s\<lparr>validated := True\<rparr>"
  using assms by (auto simp: validate_header_def image_ok_def strncmp_differs_def Let_def split: option.split)

text \<open>The tail of a write, and the three ways into it: the head is already good, is still short,
  or is completed by this chunk.\<close>

definition hand_on :: "string \<Rightarrow> ota_session \<Rightarrow> ota_report option \<Rightarrow> flash
       \<Rightarrow> esp_err_t \<times> ota_session \<times> ota_report option \<times> flash" where
  "hand_on data s rep f =
     (let (e, f) = flash_call (Ota_write data) f in
      if e \<noteq> ESP_OK then (e, s, fail rep OTA_STAGE_WRITE e, f)
      else (ESP_OK, s, map_option (\<lambda>r. r\<lparr>bytes_written := bytes_written r + length data\<rparr>) rep, f))"

lemma hand_on_cases:
  assumes "hand_on c s rep f = (e, s', rep', f')"
  shows "s' = s \<and> f' = f\<lparr>calls := calls f @ [Ota_write c]\<rparr> \<and> e = result f (calls f) (Ota_write c)"
  using assms by (auto simp: hand_on_def flash_call_def Let_def split: if_splits)

lemma write_validated:
  "c \<noteq> [] \<Longrightarrow> validated s \<Longrightarrow> ota_session_write L True c s rep f = hand_on c s rep f"
  by (simp add: ota_session_write_def hand_on_def)

lemma write_short:
  assumes "c \<noteq> []" "\<not> validated s" "length (header s) + length c < header_bytes L"
  shows "ota_session_write L True c s rep f = hand_on c (s\<lparr>header := header s @ c\<rparr>) rep f"
  using assms by (auto simp: ota_session_write_def hand_on_def Let_def)

lemma write_head:
  assumes "c \<noteq> []" "\<not> validated s" "length (header s) < header_bytes L" "header_bytes L \<le> length (header s) + length c"
  shows "ota_session_write L True c s rep f =
    (let (e, s, rep) = validate_header L (running_project f)
           (s\<lparr>header := take (header_bytes L) (header s @ c)\<rparr>) rep in
     if e \<noteq> ESP_OK then (e, s, rep, f) else hand_on c s rep f)"
proof -
  have "(if length c < header_bytes L - length (header s) then length c else header_bytes L - length (header s))
      = header_bytes L - length (header s)" using assms by auto
  moreover have "header s @ take (header_bytes L - length (header s)) c = take (header_bytes L) (header s @ c)"
    using assms by simp
  moreover have "length (take (header_bytes L) (header s @ c)) = header_bytes L" using assms by simp
  ultimately show ?thesis using assms(1-3)
    unfolding ota_session_write_def hand_on_def Let_def by simp
qed

text \<open>One chunk. Without an error it was handed on, and either the head of the image is not complete
  or it is good. With one, either the image is bad, or the write failed.\<close>

lemma write_chunk:
  assumes inv: "session_inv L (running_project f) got s" and c: "c \<noteq> []"
    and w: "ota_session_write L True c s rep f = (e, s', rep', f')"
  shows "(e = ESP_OK \<longrightarrow> session_inv L (running_project f) (got @ c) s' \<and> slot s' = slot s
             \<and> f' = f\<lparr>calls := calls f @ [Ota_write c]\<rparr>)
       \<and> (e \<noteq> ESP_OK \<longrightarrow> slot s' = slot s \<and>
           (f' = f \<and> header_bytes L \<le> length (got @ c) \<and> \<not> image_ok L (running_project f) (got @ c)
           \<or> f' = f\<lparr>calls := calls f @ [Ota_write c]\<rparr> \<and> result f (calls f) (Ota_write c) \<noteq> ESP_OK))"
proof (cases "validated s")
  case True
  then have "header_bytes L \<le> length got" using inv by (simp add: session_inv_def)
  moreover have "hand_on c s rep f = (e, s', rep', f')" using w write_validated [OF c True] by simp
  ultimately show ?thesis
    using hand_on_cases [of c s rep f e s' rep' f'] inv True by (simp add: session_inv_def image_ok_append)
next
  case False
  then have h: "header s = got" "length got < header_bytes L" and m: "require_matching_project s"
    using inv by (simp_all add: session_inv_def)
  show ?thesis
  proof (cases "header_bytes L \<le> length (got @ c)")
    case short: False
    then have "hand_on c (s\<lparr>header := got @ c\<rparr>) rep f = (e, s', rep', f')"
      using w write_short [OF c False] h by simp
    from hand_on_cases [OF this] show ?thesis
      using False short m by (auto simp: session_inv_def)
  next
    case True
    let ?s = "s\<lparr>header := take (header_bytes L) (got @ c)\<rparr>"
    let ?v = "validate_header L (running_project f) ?s rep"
    have wr: "(if fst ?v \<noteq> ESP_OK then (fst ?v, fst (snd ?v), snd (snd ?v), f)
               else hand_on c (fst (snd ?v)) (snd (snd ?v)) f) = (e, s', rep', f')"
      using w write_head [OF c False, of L rep f] h True by (simp add: split_beta Let_def)
    have lh: "length (header ?s) = header_bytes L" using True by simp
    have m': "require_matching_project ?s" using m by simp
    have good: "fst ?v = ESP_OK \<longleftrightarrow> image_ok L (running_project f) (got @ c)"
      using validate_header_result(1) [OF lh m'] image_ok_head [OF True] by simp
    show ?thesis
    proof (cases "fst ?v = ESP_OK")
      case ok: True
      then have "hand_on c (?s\<lparr>validated := True\<rparr>) (snd (snd ?v)) f = (e, s', rep', f')"
        using wr validate_header_result(2) [OF lh m' ok] by simp
      from hand_on_cases [OF this] show ?thesis using ok good m True by (auto simp: session_inv_def)
    next
      case bad: False
      moreover have "slot (fst (snd ?v)) = slot s"
        by (simp add: validate_header_def Let_def)
      ultimately show ?thesis using wr good True by auto
    qed
  qed
qed

text \<open>An upload that stopped with an error in the middle: at a chunk that completed a bad head and
  was not handed on, or at one the flash refused.\<close>

definition stopped :: "image_layout \<Rightarrow> flash \<Rightarrow> string \<Rightarrow> string list \<Rightarrow> flash \<Rightarrow> bool" where
  "stopped L f got cs f' \<longleftrightarrow> (\<exists>us c vs. cs = us @ c # vs \<and>
     (f' = f\<lparr>calls := calls f @ map Ota_write us\<rparr> \<and> header_bytes L \<le> length (got @ concat cs)
        \<and> \<not> image_ok L (running_project f) (got @ concat cs)
      \<or> f' = f\<lparr>calls := calls f @ map Ota_write (us @ [c])\<rparr>
        \<and> result f (calls f @ map Ota_write us) (Ota_write c) \<noteq> ESP_OK))"

lemma stopped_bad:
  assumes "header_bytes L \<le> length (got @ c)" "\<not> image_ok L (running_project f) (got @ c)"
  shows "stopped L f got (c # cs) f"
  unfolding stopped_def
  using assms image_ok_append [of L "got @ c" "running_project f" "concat cs"]
  by (intro exI [of _ "[]"] exI [of _ c] exI [of _ cs]) simp

lemma stopped_refused:
  "result f (calls f) (Ota_write c) \<noteq> ESP_OK \<Longrightarrow> stopped L f got (c # cs) (f\<lparr>calls := calls f @ [Ota_write c]\<rparr>)"
  unfolding stopped_def by (rule exI [of _ "[]"], rule exI [of _ c], rule exI [of _ cs]) simp

lemma stopped_later:
  assumes "stopped L (f\<lparr>calls := calls f @ [Ota_write c]\<rparr>) (got @ c) cs f'"
  shows "stopped L f got (c # cs) f'"
proof -
  from assms obtain us d vs where "cs = us @ d # vs" and
    "f' = f\<lparr>calls := calls f @ map Ota_write (c # us)\<rparr> \<and> header_bytes L \<le> length (got @ concat (c # cs))
        \<and> \<not> image_ok L (running_project f) (got @ concat (c # cs))
      \<or> f' = f\<lparr>calls := calls f @ map Ota_write ((c # us) @ [d])\<rparr>
        \<and> result f (calls f @ map Ota_write (c # us)) (Ota_write d) \<noteq> ESP_OK"
    unfolding stopped_def by auto
  then show ?thesis
    unfolding stopped_def by (intro exI [of _ "c # us"] exI [of _ d] exI [of _ vs]) simp
qed

text \<open>All chunks of an upload.\<close>

lemma receive_all:
  assumes "session_inv L (running_project f) got s" "[] \<notin> set cs"
    and "receive_loop L cs s rep f = (e, s', rep', f')"
  shows "slot s' = slot s \<and>
      (if e = ESP_OK
       then session_inv L (running_project f) (got @ concat cs) s' \<and> f' = f\<lparr>calls := calls f @ map Ota_write cs\<rparr>
       else stopped L f got cs f')"
  using assms
proof (induction cs arbitrary: got s rep f)
  case Nil
  then show ?case by auto
next
  case (Cons c cs)
  obtain e1 s1 rep1 f1 where w: "ota_session_write L True c s rep f = (e1, s1, rep1, f1)"
    by (cases "ota_session_write L True c s rep f") auto
  have c: "c \<noteq> []" using Cons.prems(2) by auto
  note wc = write_chunk [OF Cons.prems(1) c w]
  show ?case
  proof (cases "e1 = ESP_OK")
    case False
    then have "e = e1" "s' = s1" "f' = f1" using Cons.prems(3) w by auto
    with wc False stopped_bad [of L got c f cs] stopped_refused [of f c L got cs] show ?thesis by auto
  next
    case True
    with wc have inv1: "session_inv L (running_project f1) (got @ c) s1" and sl: "slot s1 = slot s"
      and f1: "f1 = f\<lparr>calls := calls f @ [Ota_write c]\<rparr>" by simp_all
    have rest: "receive_loop L cs s1 rep1 f1 = (e, s', rep', f')" using Cons.prems(3) w True by simp
    have ne: "[] \<notin> set cs" using Cons.prems(2) by simp
    from Cons.IH [OF inv1 ne rest] sl f1 stopped_later [of L f c got cs f'] show ?thesis
      by (cases "e = ESP_OK") simp_all
  qed
qed

text \<open>The handler as a whole, after the begin was accepted.\<close>

lemma post_handler_cases:
  assumes "[] \<notin> set cs" "0 < header_bytes L" and h: "ota_post_handler L cs received f = (reply, f', reboot)"
  obtains (none) "f' = f" "\<not> reboot" "next_slot f = None \<or> \<not> calloc_ok f"
  | (refused) p where "next_slot f = Some p" "f' = f\<lparr>calls := calls f @ [Ota_begin p]\<rparr>" "\<not> reboot"
      "result f (calls f) (Ota_begin p) \<noteq> ESP_OK"
  | (stopped) p g where "next_slot f = Some p" "stopped L (f\<lparr>calls := calls f @ [Ota_begin p]\<rparr>) [] cs g"
      "f' = snd (flash_call Ota_abort g)" "\<not> reboot"
  | (cut) p where "next_slot f = Some p" "received < 0 \<or> \<not> header_bytes L \<le> length (concat cs)"
      "f' = f\<lparr>calls := calls f @ Ota_begin p # map Ota_write cs @ [Ota_abort]\<rparr>" "\<not> reboot"
  | (unverified) p where "next_slot f = Some p"
      "f' = f\<lparr>calls := calls f @ Ota_begin p # map Ota_write cs @ [Ota_end]\<rparr>" "\<not> reboot"
      "result f (calls f @ Ota_begin p # map Ota_write cs) Ota_end \<noteq> ESP_OK"
  | (ended) p where "next_slot f = Some p" "0 \<le> received" "image_ok L (running_project f) (concat cs)"
      "f' = f\<lparr>calls := calls f @ Ota_begin p # map Ota_write cs @ [Ota_end, Set_boot p]\<rparr>"
      "result f (calls f @ Ota_begin p # map Ota_write cs) Ota_end = ESP_OK"
      "reboot = (result f (calls f @ Ota_begin p # map Ota_write cs @ [Ota_end]) (Set_boot p) = ESP_OK)"
proof (cases "next_slot f")
  case None
  then show ?thesis
    using h none by (simp add: ota_post_handler_def ota_session_begin_def)
next
  case (Some p)
  let ?f = "f\<lparr>calls := calls f @ [Ota_begin p]\<rparr>"
  let ?s = "\<lparr>slot = p, require_matching_project = True, validated = False, header = []\<rparr>"
  let ?rep = "Some (zero_report\<lparr>slot_label := snd (snprintf 17 p)\<rparr>)"
  note unf = ota_post_handler_def ota_session_begin_def flash_call_def ota_session_abort_def ota_session_end_def
  show ?thesis
  proof (cases "calloc_ok f \<and> result f (calls f) (Ota_begin p) = ESP_OK")
    case False
    then show ?thesis
      using h Some none refused [OF Some] by (auto simp: unf Let_def split: if_splits)
  next
    case started: True
    obtain e s' rep' g where r: "receive_loop L cs ?s ?rep ?f = (e, s', rep', g)"
      by (cases "receive_loop L cs ?s ?rep ?f") auto
    have hh: "(if e \<noteq> ESP_OK then (send_failure (the rep') e, ota_session_abort (Some s') g, False)
       else if received < 0 then (Interrupted, ota_session_abort (Some s') g, False)
       else let (e, rep, f) = ota_session_end (Some s') rep' g in
         if e \<noteq> ESP_OK then (send_failure (the rep) e, f, False)
         else (Staged (slot_label (the rep)) (image_project (the rep)) (image_version (the rep))
                      (bytes_written (the rep)), f, True)) = (reply, f', reboot)"
      using h started r Some by (simp add: ota_post_handler_def ota_session_begin_def flash_call_def Let_def)
    have inv: "session_inv L (running_project ?f) [] ?s" using assms(2) by (simp add: session_inv_def)
    note ra = receive_all [OF inv assms(1) r]
    show ?thesis
    proof (cases "e = ESP_OK")
      case False
      then show ?thesis using stopped [OF Some, of g] ra hh by (simp add: ota_session_abort_def)
    next
      case True
      then have si: "session_inv L (running_project f) (concat cs) s'" and sl: "slot s' = p"
        and g: "g = f\<lparr>calls := calls f @ Ota_begin p # map Ota_write cs\<rparr>" using ra by simp_all
      have pass: "validated s' \<Longrightarrow> image_ok L (running_project f) (concat cs)"
        "\<not> validated s' \<Longrightarrow> \<not> header_bytes L \<le> length (concat cs)" using si by (simp_all add: session_inv_def)
      consider "received < 0" | "0 \<le> received" "\<not> validated s'" | "0 \<le> received" "validated s'" by linarith
      then show ?thesis
      proof cases
        case 1
        then show ?thesis
          using hh True g by (intro cut [OF Some]) (auto simp: ota_session_abort_def flash_call_def)
      next
        case 2
        then show ?thesis
          using hh True g pass(2) by (intro cut [OF Some]) (auto simp: ota_session_end_def flash_call_def)
      next
        case 3
        show ?thesis
        proof (cases "result g (calls g) Ota_end = ESP_OK")
          case bad: False
          then show ?thesis
            using 3 hh True g by (intro unverified [OF Some]) (auto simp: ota_session_end_def flash_call_def)
        next
          case good: True
          then show ?thesis
            using 3 hh True g sl pass(1) by (intro ended [OF Some]) (auto simp: ota_session_end_def flash_call_def split: if_splits)
        qed
      qed
    qed
  qed
qed

text \<open>The calls of an upload that stopped.\<close>

lemma stopped_calls:
  assumes "stopped L f got cs f'"
  obtains us where "f' = f\<lparr>calls := calls f @ map Ota_write us\<rparr>"
proof -
  from assms consider us where "f' = f\<lparr>calls := calls f @ map Ota_write us\<rparr>"
    | us c where "f' = f\<lparr>calls := calls f @ map Ota_write (us @ [c])\<rparr>"
    unfolding stopped_def by blast
  then show ?thesis using that by cases blast+
qed

definition closes :: "ota_call \<Rightarrow> bool" where
  "closes c \<longleftrightarrow> c = Ota_end \<or> c = Ota_abort"

text \<open>What the flash was given since the last begin; and what the platform promises of \<open>esp_ota_end\<close>: it
  accepts only what it verifies to be a complete image, a test that is the platform's own.\<close>

definition written :: "ota_call list \<Rightarrow> string" where
  "written h = foldl (\<lambda>got c. case c of Ota_begin p \<Rightarrow> [] | Ota_write d \<Rightarrow> got @ d | _ \<Rightarrow> got) [] h"

definition flash_verifies :: "(string \<Rightarrow> bool) \<Rightarrow> flash \<Rightarrow> bool" where
  "flash_verifies verifies f \<longleftrightarrow> (\<forall>h. result f h Ota_end = ESP_OK \<longrightarrow> verifies (written h))"

lemma written_upload: "written (h @ Ota_begin p # map Ota_write cs) = concat cs"
proof -
  have "foldl (\<lambda>got c. case c of Ota_begin p \<Rightarrow> [] | Ota_write d \<Rightarrow> got @ d | _ \<Rightarrow> got) got (map Ota_write cs)
      = got @ concat cs" for got
    by (induction cs arbitrary: got) simp_all
  then show ?thesis by (simp add: written_def)
qed

text \<open>C18. Only a verified image for this project is ever selected for boot, and never a part of one. For any
  upload, in whatever chunks it arrives, whether it ends, fails or is cut by its peer, and whatever the flash
  answers, as long as it ends an update well only for bytes it verifies: if the handler selects a boot slot, the
  slot is the inactive one, receiving did not end in an error, the head of what arrived is that of a firmware
  image of the running project, and the flash was handed what arrived, all of it in order, and verified
  it at the end. So if it is the beginning of a body of which no proper beginning would be verified, then the
  whole body arrived, although a receive call that answers 0 does not say so. The device restarts
  just when that selection succeeded. And an update that was begun is ended or aborted exactly once.\<close>

theorem ota_only_valid_image_boots:
  assumes "[] \<notin> set cs" "0 < header_bytes L" "flash_verifies verifies f"
    and "ota_post_handler L cs received f = (reply, f', reboot)"
  shows "\<exists>new. calls f' = calls f @ new
    \<and> (\<forall>p. Set_boot p \<in> set new \<longrightarrow>
         next_slot f = Some p \<and> 0 \<le> received \<and> image_ok L (running_project f) (concat cs)
         \<and> new = Ota_begin p # map Ota_write cs @ [Ota_end, Set_boot p]
         \<and> result f (calls f @ Ota_begin p # map Ota_write cs) Ota_end = ESP_OK \<and> verifies (concat cs)
         \<and> (\<forall>body rest. body = concat cs @ rest \<and> (\<forall>a b. body = a @ b \<and> b \<noteq> [] \<longrightarrow> \<not> verifies a) \<longrightarrow> body = concat cs))
    \<and> (reboot \<longleftrightarrow> (\<exists>p. Set_boot p \<in> set new \<and> result f (calls f @ butlast new) (Set_boot p) = ESP_OK))
    \<and> (\<forall>p. Ota_begin p \<in> set new \<longrightarrow> result f (calls f) (Ota_begin p) = ESP_OK \<longrightarrow>
         length (filter closes new) = 1)"
  using assms(1,2,4)
proof (cases rule: post_handler_cases)
  case none
  then show ?thesis by (intro exI [of _ "[]"]) simp
next
  case (refused p)
  then show ?thesis by (intro exI [of _ "[Ota_begin p]"]) simp
next
  case (stopped p g)
  from stopped(2) obtain us where "g = f\<lparr>calls := calls f @ Ota_begin p # map Ota_write us\<rparr>"
    by (rule stopped_calls) simp
  then show ?thesis
    using stopped by (intro exI [of _ "Ota_begin p # map Ota_write us @ [Ota_abort]"])
      (auto simp: flash_call_def closes_def filter_map o_def)
next
  case (cut p)
  then show ?thesis
    by (intro exI [of _ "Ota_begin p # map Ota_write cs @ [Ota_abort]"]) (auto simp: closes_def filter_map o_def)
next
  case (unverified p)
  then show ?thesis
    by (intro exI [of _ "Ota_begin p # map Ota_write cs @ [Ota_end]"]) (auto simp: closes_def filter_map o_def)
next
  case (ended p)
  have v: "verifies (concat cs)"
    using assms(3) ended(5) written_upload [of "calls f" p cs] by (metis flash_verifies_def)
  then have "body = concat cs"
    if "body = concat cs @ rest" "\<forall>a b. body = a @ b \<and> b \<noteq> [] \<longrightarrow> \<not> verifies a" for body rest
    using that by (cases "rest = []") auto
  with v ended show ?thesis
    by (intro exI [of _ "Ota_begin p # map Ota_write cs @ [Ota_end, Set_boot p]"])
      (auto simp: closes_def filter_map o_def butlast_append)
qed

text \<open>C19. And every such image is taken, however it is cut into chunks. On a device with an inactive
  slot whose flash refuses nothing, an upload that does not end in a receive error leads to the new firmware exactly when its bytes
  are an image of the running project; the sizes of the chunks it arrives in make no difference.\<close>

theorem ota_takes_exactly_valid_images:
  assumes "[] \<notin> set cs" "0 < header_bytes L" "next_slot f = Some p" "calloc_ok f" "\<forall>h c. result f h c = ESP_OK"
  shows "snd (snd (ota_post_handler L cs 0 f)) \<longleftrightarrow> image_ok L (running_project f) (concat cs)"
proof -
  obtain reply f' reboot where h: "ota_post_handler L cs 0 f = (reply, f', reboot)"
    by (cases "ota_post_handler L cs 0 f") auto
  from assms(1,2) h have "reboot \<longleftrightarrow> image_ok L (running_project f) (concat cs)"
  proof (cases rule: post_handler_cases)
    case (cut q)
    then show ?thesis by (simp add: image_ok_def Let_def)
  next
    case (stopped q g)
    then show ?thesis using assms(5) by (auto simp: stopped_def)
  qed (use assms in auto)
  then show ?thesis by (simp add: h)
qed

section \<open>The route is protected\<close>

text \<open>What \<open>ota_http_register\<close> adds to the server's table demands the password, so that the
  theorem on protected routes speaks about it.\<close>

lemma ota_route_protected:
  assumes "ota_http_register a handler uri h = (ESP_OK, h')" "s_route_count h < length (s_routes h)"
  shows "s_route_count h' = s_route_count h + 1 \<and> r_auth (s_routes h' ! s_route_count h)
    \<and> r_handler (s_routes h' ! s_route_count h) = Some handler"
  using assms
  by (auto simp: ota_http_register_def http_server_add_routes_def Let_def split: if_splits)

section \<open>An upload\<close>

definition demo_layout :: image_layout where
  "demo_layout = \<lparr>header_bytes = 3, magic_ok = (\<lambda>h. hd h = CHR 0x7A), descriptor_ok = (\<lambda>h. True),
     project_of = (\<lambda>h. drop 1 h), version_of = (\<lambda>h. [])\<rparr>"

definition demo_flash :: flash where
  "demo_flash = \<lparr>calls = [], result = (\<lambda>h c. ESP_OK), next_slot = Some ''ota_1'',
     running_project = Some ''pr'', calloc_ok = True\<rparr>"

lemmas demo_upload = ota_post_handler_def ota_session_begin_def flash_call_def ota_session_end_def
  ota_session_write_def validate_header_def strncmp_differs_def demo_layout_def demo_flash_def
  ota_session_abort_def zero_report_def Let_def

text \<open>When the head of a bad image arrives in pieces, the pieces before the last have been written to
  the slot by the time it is refused.\<close>

lemma ota_head_written_before_check:
  "calls (fst (snd (ota_post_handler demo_layout [''x'', ''pr!''] 0 demo_flash)))
     = [Ota_begin ''ota_1'', Ota_write ''x'', Ota_abort]"
  by (simp add: demo_upload)

text \<open>A peer that closes the connection after half of the body: the handler goes on to end the update, and
  only the verification of the flash is left to refuse it.\<close>

lemma ota_closed_upload_is_ended:
  "calls (fst (snd (ota_post_handler demo_layout [''zprr''] 0 demo_flash)))
     = [Ota_begin ''ota_1'', Ota_write ''zprr'', Ota_end, Set_boot ''ota_1'']"
  by (simp add: demo_upload)

text \<open>A flash that verifies: it accepts this one image.\<close>

definition strict_flash :: flash where
  "strict_flash = demo_flash\<lparr>result := (\<lambda>h c. if c = Ota_end \<and> written h \<noteq> ''zprrest'' then ESP_FAIL else ESP_OK)\<rparr>"

theorem ota_only_valid_image_boots_witness:
  "\<exists>reply f'. ota_post_handler demo_layout [''zp'', ''rrest''] 0 strict_flash = (reply, f', True)
     \<and> calls f' = [Ota_begin ''ota_1'', Ota_write ''zp'', Ota_write ''rrest'', Ota_end, Set_boot ''ota_1'']
     \<and> image_ok demo_layout (Some ''pr'') ''zprrest''"
proof -
  obtain reply f' where h: "ota_post_handler demo_layout [''zp'', ''rrest''] 0 strict_flash = (reply, f', True)"
    and c: "calls f' = [Ota_begin ''ota_1'', Ota_write ''zp'', Ota_write ''rrest'', Ota_end, Set_boot ''ota_1'']"
    by (simp add: demo_upload strict_flash_def written_def)
  have "[] \<notin> set [''zp'', ''rrest'']" "0 < header_bytes demo_layout" by (simp_all add: demo_layout_def)
  moreover have "flash_verifies (\<lambda>x. x = ''zprrest'') strict_flash" by (simp add: flash_verifies_def strict_flash_def)
  ultimately have "image_ok demo_layout (Some ''pr'') ''zprrest''"
    using ota_only_valid_image_boots [OF _ _ _ h, of "\<lambda>x. x = ''zprrest''"] c
    by (auto simp: strict_flash_def demo_flash_def)
  with h c show ?thesis by blast
qed

theorem ota_takes_exactly_valid_images_witness:
  "snd (snd (ota_post_handler demo_layout [''z'', ''p'', ''r'', ''!''] 0 demo_flash))
   \<and> \<not> snd (snd (ota_post_handler demo_layout [''xpr!''] 0 demo_flash))"
proof -
  have "image_ok demo_layout (Some ''pr'') ''zpr!''" "\<not> image_ok demo_layout (Some ''pr'') ''xpr!''"
    by (simp_all add: image_ok_def demo_layout_def)
  then show ?thesis
    using ota_takes_exactly_valid_images [of "[''z'', ''p'', ''r'', ''!'']" demo_layout demo_flash "''ota_1''"]
      ota_takes_exactly_valid_images [of "[''xpr!'']" demo_layout demo_flash "''ota_1''"]
    by (simp add: demo_flash_def demo_layout_def)
qed

end
