(* ===== verification/Rx8130ce.thy ===== *)
theory Rx8130ce
  imports I2c_Bus
begin

unbundle bit_operations_syntax

text \<open>
  The RX8130CE real-time clock: the register codecs of \<open>rx8130ce/src/rx8130ce_calc.c\<close> and the
  driver of \<open>rx8130ce/src/rx8130ce.c\<close> over the bus of \<open>I2c_Bus\<close>. The C library's
  \<open>gmtime_r\<close> and \<open>timegm\<close> are the Gregorian calendar, written out here.
\<close>

section \<open>The calendar\<close>

text \<open>\<open>struct tm\<close>, with the year counted from 1900 and the month from 0.\<close>

record tm =
  tm_sec :: int
  tm_min :: int
  tm_hour :: int
  tm_mday :: int
  tm_mon :: int
  tm_year :: int
  tm_wday :: int

definition leap :: "int \<Rightarrow> bool" where
  "leap y \<longleftrightarrow> y mod 4 = 0 \<and> (y mod 100 \<noteq> 0 \<or> y mod 400 = 0)"

definition year_days :: "int \<Rightarrow> int" where
  "year_days y = (if leap y then 366 else 365)"

definition month_days :: "int \<Rightarrow> int \<Rightarrow> int" where
  "month_days y m = (if m = 1 then if leap y then 29 else 28
                     else if m \<in> {3, 5, 8, 10} then 30 else 31)"

lemma year_days_pos [simp]: "0 < year_days y" "year_days y \<noteq> 0"
  by (simp_all add: year_days_def)

text \<open>The year and the day in it, of day \<open>d\<close> counted from the start of year \<open>y\<close>; the same
  with months.\<close>

function year_from :: "int \<Rightarrow> int \<Rightarrow> int \<times> int" where
  "year_from y d =
     (if d < 0 then year_from (y - 1) (d + year_days (y - 1))
      else if year_days y \<le> d then year_from (y + 1) (d - year_days y)
      else (y, d))"
  by pat_completeness auto
termination
  by (relation "measure (\<lambda>(y, d). nat (if d < 0 then 2 * (366 - d) else 2 * d))")
    (auto simp: year_days_def split: if_splits)

declare year_from.simps [simp del]

function month_from :: "int \<Rightarrow> int \<Rightarrow> int \<Rightarrow> int \<times> int" where
  "month_from y m d =
     (if m < 11 \<and> month_days y m \<le> d then month_from y (m + 1) (d - month_days y m) else (m, d))"
  by pat_completeness auto
termination by (relation "measure (\<lambda>(y, m, d). nat (11 - m))") auto

declare month_from.simps [simp del]

definition gmtime :: "int \<Rightarrow> tm" where
  "gmtime s =
    (let (y, yd) = year_from 1970 (s div 86400); (m, md) = month_from y 0 yd; r = s mod 86400 in
     \<lparr>tm_sec = r mod 60, tm_min = r div 60 mod 60, tm_hour = r div 3600, tm_mday = md + 1, tm_mon = m,
      tm_year = y - 1900, tm_wday = (s div 86400 + 4) mod 7\<rparr>)"

text \<open>Days before a year, and before a month in it.\<close>

fun days_from_1970 :: "nat \<Rightarrow> int" where
  "days_from_1970 0 = 0"
| "days_from_1970 (Suc n) = days_from_1970 n + year_days (1970 + int n)"

fun days_to_1970 :: "nat \<Rightarrow> int" where
  "days_to_1970 0 = 0"
| "days_to_1970 (Suc n) = days_to_1970 n + year_days (1969 - int n)"

definition days_before :: "int \<Rightarrow> int" where
  "days_before y = (if 1970 \<le> y then days_from_1970 (nat (y - 1970)) else - days_to_1970 (nat (1970 - y)))"

fun month_start :: "int \<Rightarrow> nat \<Rightarrow> int" where
  "month_start y 0 = 0"
| "month_start y (Suc m) = month_start y m + month_days y (int m)"

definition timegm :: "tm \<Rightarrow> int" where
  "timegm t = 86400 * (days_before (tm_year t + 1900) + month_start (tm_year t + 1900) (nat (tm_mon t))
                       + tm_mday t - 1)
              + 3600 * tm_hour t + 60 * tm_min t + tm_sec t"

lemma days_before_step: "days_before (y + 1) = days_before y + year_days y"
proof -
  consider "1970 \<le> y" | "y < 1969" | "y = 1969" by linarith
  then show ?thesis
  proof cases
    case 1
    then have "nat (y + 1 - 1970) = Suc (nat (y - 1970))" by simp
    with 1 show ?thesis by (simp add: days_before_def)
  next
    case 2
    then have "nat (1970 - y) = Suc (nat (1970 - (y + 1)))" by simp
    with 2 show ?thesis by (simp add: days_before_def)
  qed (simp add: days_before_def)
qed

text \<open>What \<open>year_from\<close> finds is the year with that day.\<close>

lemma year_from_correct:
  "year_from y d = (y', d') \<Longrightarrow> 0 \<le> d' \<and> d' < year_days y' \<and> days_before y + d = days_before y' + d'"
proof (induction y d rule: year_from.induct)
  case (1 y d)
  consider "d < 0" | "0 \<le> d" "year_days y \<le> d" | "0 \<le> d" "d < year_days y" by linarith
  then show ?case
  proof cases
    case 1
    then show ?thesis
      using "1.IH"(1) "1.prems" days_before_step [of "y - 1"] by (simp add: year_from.simps [of y d])
  next
    case 2
    then show ?thesis
      using "1.IH"(2) "1.prems" days_before_step [of y] by (simp add: year_from.simps [of y d])
  next
    case 3
    then show ?thesis using "1.prems" by (simp add: year_from.simps [of y d])
  qed
qed

lemma month_from_correct:
  "month_from y m d = (m', d') \<Longrightarrow> 0 \<le> m \<Longrightarrow> m \<le> 11 \<Longrightarrow> 0 \<le> d \<Longrightarrow>
     m \<le> m' \<and> m' \<le> 11 \<and> 0 \<le> d' \<and> month_start y (nat m) + d = month_start y (nat m') + d'
     \<and> (m' < 11 \<longrightarrow> d' < month_days y m')"
proof (induction y m d rule: month_from.induct)
  case (1 y m d)
  show ?case
  proof (cases "m < 11 \<and> month_days y m \<le> d")
    case True
    moreover have "nat (m + 1) = Suc (nat m)" using "1.prems" by simp
    ultimately show ?thesis
      using "1.IH" "1.prems" by (simp add: month_from.simps [of y m d])
  next
    case False
    then show ?thesis using "1.prems" by (auto simp: month_from.simps [of y m d])
  qed
qed

lemma month_start_december: "month_start y 11 = year_days y - 31"
  by (simp add: eval_nat_numeral month_days_def year_days_def)

lemma gmtime_fields:
  assumes "gmtime s = t"
  shows "0 \<le> tm_sec t" "tm_sec t < 60" "0 \<le> tm_min t" "tm_min t < 60" "0 \<le> tm_hour t" "tm_hour t < 24"
    and "1 \<le> tm_mday t" "tm_mday t \<le> 31" "0 \<le> tm_mon t" "tm_mon t \<le> 11" "0 \<le> tm_wday t" "tm_wday t < 7"
    and "timegm t = s"
    and "days_before (tm_year t + 1900) \<le> s div 86400" "s div 86400 < days_before (tm_year t + 1901)"
proof -
  obtain y yd m md where y: "year_from 1970 (s div 86400) = (y, yd)" and m: "month_from y 0 yd = (m, md)"
    by (cases "year_from 1970 (s div 86400)"; cases "month_from (fst (year_from 1970 (s div 86400))) 0
      (snd (year_from 1970 (s div 86400)))") auto
  let ?r = "s mod 86400"
  have t: "t = \<lparr>tm_sec = ?r mod 60, tm_min = ?r div 60 mod 60, tm_hour = ?r div 3600, tm_mday = md + 1,
      tm_mon = m, tm_year = y - 1900, tm_wday = (s div 86400 + 4) mod 7\<rparr>"
    using assms y m by (simp add: gmtime_def Let_def)
  note yc = year_from_correct [OF y]
  have mc: "0 \<le> m" "m \<le> 11" "0 \<le> md" "yd = month_start y (nat m) + md" "m < 11 \<longrightarrow> md < month_days y m"
    using month_from_correct [OF m] yc by simp_all
  have "md < 31"
  proof (cases "m < 11")
    case True
    then show ?thesis using mc(5) by (auto simp: month_days_def split: if_splits)
  next
    case False
    then have "nat m = 11" using mc(2) by simp
    then show ?thesis using mc(4) yc month_start_december [of y] by simp
  qed
  then show "1 \<le> tm_mday t" "tm_mday t \<le> 31" using mc(3) by (simp_all add: t)
  show "0 \<le> tm_mon t" "tm_mon t \<le> 11" using mc by (simp_all add: t)
  have r: "0 \<le> ?r" "?r < 86400" by simp_all
  then show "0 \<le> tm_sec t" "tm_sec t < 60" "0 \<le> tm_min t" "tm_min t < 60" "0 \<le> tm_hour t" "tm_hour t < 24"
    "0 \<le> tm_wday t" "tm_wday t < 7"
    by (simp_all add: t pos_imp_zdiv_nonneg_iff)
  have "3600 * (?r div 3600) + 60 * (?r div 60 mod 60) + ?r mod 60 = ?r"
  proof -
    have "?r div 3600 = ?r div 60 div 60" by (simp add: zdiv_zmult2_eq [symmetric])
    then show ?thesis using mult_div_mod_eq [of 60 "?r div 60"] mult_div_mod_eq [of 60 ?r] by linarith
  qed
  moreover have "days_before y + month_start y (nat m) + md = s div 86400"
    using yc mc(4) by (simp add: days_before_def)
  ultimately show "timegm t = s"
    by (simp add: timegm_def t algebra_simps) (use div_mult_mod_eq [of s 86400] in linarith)
  show "days_before (tm_year t + 1900) \<le> s div 86400" "s div 86400 < days_before (tm_year t + 1901)"
    using yc days_before_step [of y] by (simp_all add: t days_before_def [of 1970] add.commute)
qed

lemma days_before_mono: "a \<le> b \<Longrightarrow> days_before a \<le> days_before b"
proof (induction "nat (b - a)" arbitrary: b)
  case (Suc n)
  then have "days_before a \<le> days_before (b - 1)" by (intro Suc.hyps) simp_all
  also have "\<dots> \<le> days_before b" using days_before_step [of "b - 1"] by (simp add: less_imp_le)
  finally show ?case .
qed simp

text \<open>The century of the part, in days.\<close>

lemma century_days: "days_before 2000 = 10957" "days_before 2100 = 47482"
  by code_simp+

lemma gmtime_century:
  "100 \<le> tm_year (gmtime s) \<and> tm_year (gmtime s) \<le> 199 \<longleftrightarrow> 946684800 \<le> s \<and> s < 4102444800"
proof -
  let ?y = "tm_year (gmtime s) + 1900"
  note b = gmtime_fields(14,15) [OF refl, of s]
  have "100 \<le> tm_year (gmtime s) \<longleftrightarrow> 10957 \<le> s div 86400"
    using b days_before_mono [of 2000 ?y] days_before_mono [of "tm_year (gmtime s) + 1901" 2000] century_days
    by (cases "2000 \<le> ?y") simp_all
  moreover have "tm_year (gmtime s) \<le> 199 \<longleftrightarrow> s div 86400 < 47482"
    using b days_before_mono [of "tm_year (gmtime s) + 1901" 2100] days_before_mono [of 2100 ?y] century_days
    by (cases "?y < 2100") simp_all
  ultimately show ?thesis by auto
qed

section \<open>The codecs\<close>

definition rx8130ce_bin2bcd :: "8 word \<Rightarrow> 8 word" where
  "rx8130ce_bin2bcd v = push_bit 4 (v div 10) OR (v mod 10)"

definition rx8130ce_bcd2bin :: "8 word \<Rightarrow> 8 word" where
  "rx8130ce_bcd2bin v = drop_bit 4 v * 10 + (v AND 0x0F)"

definition bcd_field :: "8 word \<Rightarrow> int" where
  "bcd_field v = uint (rx8130ce_bcd2bin v)"

text \<open>The decoded time, or None where the code reports a failure. \<open>args\<close>: no NULL pointer.\<close>

definition rx8130ce_decode_time :: "bool \<Rightarrow> 8 word list \<Rightarrow> tm option" where
  "rx8130ce_decode_time args regs =
    (if \<not> args then None
     else
       let t = \<lparr>tm_sec = bcd_field (regs ! 0 AND 0x7F), tm_min = bcd_field (regs ! 1 AND 0x7F),
                tm_hour = bcd_field (regs ! 2 AND 0x3F), tm_mday = bcd_field (regs ! 4 AND 0x3F),
                tm_mon = bcd_field (regs ! 5 AND 0x1F) - 1, tm_year = bcd_field (regs ! 6) + 100,
                tm_wday = bcd_field (regs ! 3 AND 0x07)\<rparr> in
       if tm_sec t > 59 \<or> tm_min t > 59 \<or> tm_hour t > 23 \<or> tm_mday t < 1 \<or> tm_mday t > 31
          \<or> tm_mon t < 0 \<or> tm_mon t > 11 \<or> tm_wday t > 6
       then None else Some t)"

definition rx8130ce_encode_time :: "bool \<Rightarrow> tm \<Rightarrow> 8 word list option" where
  "rx8130ce_encode_time args t =
    (if \<not> args then None
     else if tm_year t < 100 \<or> tm_year t > 199 then None
     else Some (map (\<lambda>x. rx8130ce_bin2bcd (word_of_int x))
       [tm_sec t, tm_min t, tm_hour t, tm_wday t, tm_mday t, tm_mon t + 1, tm_year t - 100]))"

lemma bcd_all: "\<forall>n \<in> set [0..<100]. uint (rx8130ce_bcd2bin (rx8130ce_bin2bcd (word_of_nat n))) = int n"
  by code_simp

lemma bcd_masks:
  "\<forall>n \<in> set [0..<60]. rx8130ce_bin2bcd (word_of_nat n) AND 0x7F = rx8130ce_bin2bcd (word_of_nat n)"
  "\<forall>n \<in> set [0..<32]. rx8130ce_bin2bcd (word_of_nat n) AND 0x3F = rx8130ce_bin2bcd (word_of_nat n)"
  "\<forall>n \<in> set [0..<13]. rx8130ce_bin2bcd (word_of_nat n) AND 0x1F = rx8130ce_bin2bcd (word_of_nat n)"
  "\<forall>n \<in> set [0..<7]. rx8130ce_bin2bcd (word_of_nat n) AND 0x07 = rx8130ce_bin2bcd (word_of_nat n)"
  by code_simp+

lemma byte_range:
  assumes "\<forall>n \<in> set [0..<k]. P (word_of_nat n :: 8 word) (int n)" "0 \<le> x" "x < int k"
  shows "P (word_of_int x) x"
proof -
  from assms(2) obtain n where x: "x = int n" by (rule nonneg_int_cases)
  then have "n \<in> set [0..<k]" using assms(3) by simp
  then have "P (word_of_nat n) (int n)" using assms(1) by blast
  moreover have "(word_of_int x :: 8 word) = word_of_nat n" by (simp only: x of_int_of_nat_eq)
  ultimately show ?thesis by (simp only: x)
qed

lemma bcd_field_back: "0 \<le> x \<Longrightarrow> x < 100 \<Longrightarrow> bcd_field (rx8130ce_bin2bcd (word_of_int x)) = x"
  unfolding bcd_field_def using byte_range [OF bcd_all] by simp

lemma bcd_mask_back:
  "0 \<le> x \<Longrightarrow> x < 60 \<Longrightarrow> rx8130ce_bin2bcd (word_of_int x) AND 0x7F = rx8130ce_bin2bcd (word_of_int x)"
  "0 \<le> x \<Longrightarrow> x < 32 \<Longrightarrow> rx8130ce_bin2bcd (word_of_int x) AND 0x3F = rx8130ce_bin2bcd (word_of_int x)"
  "0 \<le> x \<Longrightarrow> x < 13 \<Longrightarrow> rx8130ce_bin2bcd (word_of_int x) AND 0x1F = rx8130ce_bin2bcd (word_of_int x)"
  "0 \<le> x \<Longrightarrow> x < 7 \<Longrightarrow> rx8130ce_bin2bcd (word_of_int x) AND 0x07 = rx8130ce_bin2bcd (word_of_int x)"
  using byte_range [OF bcd_masks(1)] byte_range [OF bcd_masks(2)]
    byte_range [OF bcd_masks(3)] byte_range [OF bcd_masks(4)] by simp_all

lemma decode_encode:
  assumes "rx8130ce_encode_time True (gmtime s) = Some regs"
  shows "rx8130ce_decode_time True regs = Some (gmtime s)"
proof -
  define m where "m = tm_mon (gmtime s) + 1"
  define y where "y = tm_year (gmtime s) - 100"
  note b = gmtime_fields(1-12) [OF refl, of s]
  have my: "1 \<le> m" "m \<le> 12" "0 \<le> y" "y < 100" "tm_mon (gmtime s) = m - 1" "tm_year (gmtime s) = y + 100"
    using assms b by (auto simp: m_def y_def rx8130ce_encode_time_def split: if_splits)
  have regs: "regs = map (\<lambda>x. rx8130ce_bin2bcd (word_of_int x))
       [tm_sec (gmtime s), tm_min (gmtime s), tm_hour (gmtime s), tm_wday (gmtime s), tm_mday (gmtime s), m, y]"
    using assms unfolding rx8130ce_encode_time_def m_def y_def by (simp split: if_splits)
  show ?thesis
    using b my by (simp add: regs rx8130ce_decode_time_def bcd_mask_back bcd_field_back Let_def)
qed

text \<open>A register whose nibbles are no digits passes as if it were one: 1A seconds reads as 20.\<close>

lemma no_digit_check: "map_option tm_sec (rx8130ce_decode_time True [0x1A, 0, 0, 0, 1, 1, 0]) = Some 20"
  by code_simp

section \<open>The driver\<close>

definition REG_SEC :: "8 word" where "REG_SEC = 0x10"
definition REG_FLAG :: "8 word" where "REG_FLAG = 0x1D"
definition FLAG_VLF :: "8 word" where "FLAG_VLF = 0x02"
definition FLAG_VBLF :: "8 word" where "FLAG_VBLF = 0x04"
definition RX8130CE_TIME_REGS :: nat where "RX8130CE_TIME_REGS = 7"

record rtc =
  t_dev :: bool
  power_lost :: bool
  t_bus :: bus

record rtc_report =
  r_power_lost :: bool
  flag_register :: "8 word"

definition read_regs :: "8 word \<Rightarrow> nat \<Rightarrow> rtc \<Rightarrow> esp_err_t \<times> 8 word list \<times> rtc" where
  "read_regs reg n d =
    (if \<not> t_dev d then (ESP_ERR_INVALID_STATE, [], d)
     else let (e, f, b) = bus_call (TxRx [reg] n) (t_bus d) in (e, map f [0..<n], d\<lparr>t_bus := b\<rparr>))"

definition write_regs :: "8 word \<Rightarrow> 8 word list \<Rightarrow> rtc \<Rightarrow> esp_err_t \<times> rtc" where
  "write_regs reg bs d =
    (if \<not> t_dev d then (ESP_ERR_INVALID_STATE, d)
     else if length bs > RX8130CE_TIME_REGS then (ESP_ERR_INVALID_SIZE, d)
     else let (e, f, b) = bus_call (Tx (reg # bs)) (t_bus d) in (e, d\<lparr>t_bus := b\<rparr>))"

definition probe :: "rtc \<Rightarrow> rtc_report option \<Rightarrow> esp_err_t \<times> rtc \<times> rtc_report option" where
  "probe d rep =
    (if \<not> t_dev d then (ESP_ERR_INVALID_STATE, d, rep)
     else
       let (e, bs, d) = read_regs REG_FLAG 1 d in
       if e \<noteq> ESP_OK then (e, d, rep)
       else
         let flag = bs ! 0; lost = (flag AND (FLAG_VLF OR FLAG_VBLF) \<noteq> 0); d = d\<lparr>power_lost := lost\<rparr> in
         (ESP_OK, d, map_option (\<lambda>r. r\<lparr>flag_register := flag, r_power_lost := lost\<rparr>) rep))"

definition zero_rtc_report :: rtc_report where
  "zero_rtc_report = \<lparr>r_power_lost = False, flag_register = 0\<rparr>"

definition rx8130ce_create ::
    "bool \<Rightarrow> bool \<Rightarrow> bool \<Rightarrow> rtc_report option \<Rightarrow> bus \<Rightarrow> esp_err_t \<times> rtc option \<times> rtc_report option" where
  "rx8130ce_create args calloc_ok dev rep b =
    (if \<not> args then (ESP_ERR_INVALID_ARG, None, rep)
     else
       let rep = map_option (\<lambda>r. zero_rtc_report) rep in
       if \<not> calloc_ok then (ESP_ERR_NO_MEM, None, rep)
       else
         let d = \<lparr>t_dev = dev, power_lost = False, t_bus = b\<rparr> in
         if dev then
           let (e, d, rep) = probe d rep in
           if e \<noteq> ESP_OK then (e, None, rep) else (ESP_OK, Some d, rep)
         else (ESP_OK, Some d, rep))"

definition rx8130ce_set_device ::
    "bool \<Rightarrow> bool \<Rightarrow> rtc_report option \<Rightarrow> rtc \<Rightarrow> esp_err_t \<times> rtc \<times> rtc_report option" where
  "rx8130ce_set_device args dev rep d =
    (if \<not> args then (ESP_ERR_INVALID_ARG, d, rep)
     else
       let rep = map_option (\<lambda>r. zero_rtc_report) rep; d = d\<lparr>t_dev := dev\<rparr> in
       if dev then probe d rep else (ESP_OK, d, rep))"

text \<open>The seconds of the timeval; its microseconds are 0.\<close>

definition rx8130ce_get_time :: "bool \<Rightarrow> rtc \<Rightarrow> esp_err_t \<times> int option \<times> rtc" where
  "rx8130ce_get_time args d =
    (if \<not> args then (ESP_ERR_INVALID_ARG, None, d)
     else
       let (e, regs, d) = read_regs REG_SEC RX8130CE_TIME_REGS d in
       if e \<noteq> ESP_OK then (e, None, d)
       else case rx8130ce_decode_time True regs of
         None \<Rightarrow> (ESP_ERR_RX8130CE_NOT_SET, None, d)
       | Some t \<Rightarrow>
           if timegm t = -1 then (ESP_ERR_RX8130CE_NOT_SET, None, d) else (ESP_OK, Some (timegm t), d))"

definition rx8130ce_set_time :: "bool \<Rightarrow> int \<Rightarrow> rtc \<Rightarrow> esp_err_t \<times> rtc" where
  "rx8130ce_set_time args secs d =
    (if \<not> args then (ESP_ERR_INVALID_ARG, d)
     else case rx8130ce_encode_time True (gmtime secs) of
       None \<Rightarrow> (ESP_ERR_RX8130CE_BAD_TIME, d)
     | Some regs \<Rightarrow>
         let (e, d) = write_regs REG_SEC regs d in
         if e \<noteq> ESP_OK then (e, d)
         else
           let (e, bs, d) = read_regs REG_FLAG 1 d;
               (e, d) = (if e = ESP_OK
                         then write_regs REG_FLAG [bs ! 0 AND NOT (FLAG_VLF OR FLAG_VBLF)] d else (e, d));
               d = (if e = ESP_OK then d\<lparr>power_lost := False\<rparr> else d)
           in (e, d))"

definition rx8130ce_power_was_lost :: "rtc option \<Rightarrow> bool" where
  "rx8130ce_power_was_lost d = (case d of None \<Rightarrow> False | Some d \<Rightarrow> power_lost d)"

section \<open>Setting and reading\<close>

text \<open>Seven bytes written to a file of registers, read back from it.\<close>

lemma store_seven:
  "length bs = 7 \<Longrightarrow> map (\<lambda>i. store_bytes REG_SEC bs m (REG_SEC + of_nat i)) [0..<7] = bs"
proof -
  assume "length bs = 7"
  then obtain a b c d e f g where bs: "bs = [a, b, c, d, e, f, g]"
    by (auto simp: length_Suc_conv eval_nat_numeral)
  show ?thesis by (simp add: bs REG_SEC_def upt_rec)
qed

lemma cleared_bits: "(x AND NOT a) AND a = 0" for x a :: "8 word"
  by (rule bit_word_eqI) (auto simp: bit_simps)

lemma flag_apart: "i < 7 \<Longrightarrow> REG_SEC + of_nat i \<noteq> REG_FLAG"
proof -
  assume "i < 7"
  then have "i = 0 \<or> i = 1 \<or> i = 2 \<or> i = 3 \<or> i = 4 \<or> i = 5 \<or> i = 6" by arith
  then show ?thesis by (elim disjE) (simp_all add: REG_SEC_def REG_FLAG_def)
qed

text \<open>The run of a setting on such a device, and a reading after it.\<close>

lemma set_time_run:
  assumes "t_dev d" "answer (t_bus d) = reg_device m" "rx8130ce_encode_time True (gmtime s) = Some regs"
  obtains d' where "rx8130ce_set_time True s d = (ESP_OK, d')" "t_dev d'" "\<not> power_lost d'"
    "answer (t_bus d') = reg_device m"
    "map (\<lambda>i. reg_file m (trace (t_bus d')) (REG_SEC + of_nat i)) [0..<7] = regs"
    "reg_file m (trace (t_bus d')) REG_FLAG AND (FLAG_VLF OR FLAG_VBLF) = 0"
proof -
  let ?m1 = "store_bytes REG_SEC regs (reg_file m (trace (t_bus d)))"
  let ?flag = "?m1 REG_FLAG AND NOT (FLAG_VLF OR FLAG_VBLF)"
  let ?tr = "trace (t_bus d) @ [(Tx (REG_SEC # regs), ESP_OK), (TxRx [REG_FLAG] 1, ESP_OK), (Tx [REG_FLAG, ?flag], ESP_OK)]"
  let ?d' = "d\<lparr>t_bus := (t_bus d)\<lparr>trace := ?tr\<rparr>, power_lost := False\<rparr>"
  have len: "length regs = 7" using assms(3) by (auto simp: rx8130ce_encode_time_def split: if_splits)
  have fl: "reg_file m ?tr = ?m1(REG_FLAG := ?flag)" by (simp add: reg_file_def)
  have "map (\<lambda>i. (?m1(REG_FLAG := ?flag)) (REG_SEC + of_nat i)) [0..<7] = map (\<lambda>i. ?m1 (REG_SEC + of_nat i)) [0..<7]"
    by (rule map_cong [OF refl]) (simp add: flag_apart)
  then have regs: "map (\<lambda>i. reg_file m ?tr (REG_SEC + of_nat i)) [0..<7] = regs"
    unfolding fl using store_seven [OF len] by simp
  have low: "reg_file m ?tr REG_FLAG AND (FLAG_VLF OR FLAG_VBLF) = 0"
    unfolding fl fun_upd_same by (rule cleared_bits)
  have "rx8130ce_set_time True s d = (ESP_OK, ?d')"
    using assms len
    by (simp add: rx8130ce_set_time_def write_regs_def read_regs_def bus_call_def reg_device_def
        RX8130CE_TIME_REGS_def reg_file_def)
  then show ?thesis using that [of ?d'] assms(1,2) regs low by simp
qed

lemma get_time_run:
  assumes "t_dev d" "answer (t_bus d) = reg_device m" "rx8130ce_decode_time True regs = Some t" "timegm t \<noteq> -1"
    and "map (\<lambda>i. reg_file m (trace (t_bus d)) (REG_SEC + of_nat i)) [0..<7] = regs"
  shows "fst (snd (rx8130ce_get_time True d)) = Some (timegm t)"
  using assms
  by (simp add: rx8130ce_get_time_def read_regs_def bus_call_def reg_device_def RX8130CE_TIME_REGS_def)

text \<open>C20. The clock keeps the time it is given, for a whole century. On a device whose registers hold
  what is written to them, setting any second from the start of 2000 to the end of 2099 succeeds,
  reading the clock then gives that second, and both the device's voltage-low flags and the handle's
  record of a lost supply are cleared; any other second is refused before the bus is touched.\<close>

theorem rtc_keeps_the_time:
  assumes "t_dev d" "answer (t_bus d) = reg_device m"
  shows "(946684800 \<le> s \<and> s < 4102444800 \<longrightarrow>
      (\<exists>d'. rx8130ce_set_time True s d = (ESP_OK, d') \<and> fst (snd (rx8130ce_get_time True d')) = Some s
         \<and> \<not> power_lost d' \<and> reg_file m (trace (t_bus d')) REG_FLAG AND (FLAG_VLF OR FLAG_VBLF) = 0))
    \<and> (\<not> (946684800 \<le> s \<and> s < 4102444800) \<longrightarrow> rx8130ce_set_time True s d = (ESP_ERR_RX8130CE_BAD_TIME, d))"
proof (intro conjI impI)
  assume "\<not> (946684800 \<le> s \<and> s < 4102444800)"
  then have "tm_year (gmtime s) < 100 \<or> tm_year (gmtime s) > 199" using gmtime_century [of s] by linarith
  then show "rx8130ce_set_time True s d = (ESP_ERR_RX8130CE_BAD_TIME, d)"
    by (simp add: rx8130ce_set_time_def rx8130ce_encode_time_def)
next
  assume rng: "946684800 \<le> s \<and> s < 4102444800"
  then have "\<not> (tm_year (gmtime s) < 100 \<or> tm_year (gmtime s) > 199)" using gmtime_century [of s] by linarith
  then obtain regs where enc: "rx8130ce_encode_time True (gmtime s) = Some regs"
    by (simp add: rx8130ce_encode_time_def)
  have tg: "timegm (gmtime s) = s" by (rule gmtime_fields(13) [OF refl])
  from set_time_run [OF assms enc] obtain d' where d': "rx8130ce_set_time True s d = (ESP_OK, d')" "t_dev d'"
      "\<not> power_lost d'" "answer (t_bus d') = reg_device m"
      "map (\<lambda>i. reg_file m (trace (t_bus d')) (REG_SEC + of_nat i)) [0..<7] = regs"
      "reg_file m (trace (t_bus d')) REG_FLAG AND (FLAG_VLF OR FLAG_VBLF) = 0" .
  have "fst (snd (rx8130ce_get_time True d')) = Some s"
    using get_time_run [OF d'(2,4) decode_encode [OF enc] _ d'(5)] rng tg by simp
  with d' show "\<exists>d'. rx8130ce_set_time True s d = (ESP_OK, d') \<and> fst (snd (rx8130ce_get_time True d')) = Some s
         \<and> \<not> power_lost d' \<and> reg_file m (trace (t_bus d')) REG_FLAG AND (FLAG_VLF OR FLAG_VBLF) = 0"
    by blast
qed

definition demo_rtc :: rtc where
  "demo_rtc = \<lparr>t_dev = True, power_lost = True, t_bus = \<lparr>trace = [], answer = reg_device (\<lambda>r. 0x06)\<rparr>\<rparr>"

theorem rtc_keeps_the_time_witness:
  "\<exists>d'. rx8130ce_set_time True 1700000000 demo_rtc = (ESP_OK, d')
     \<and> fst (snd (rx8130ce_get_time True d')) = Some 1700000000 \<and> \<not> power_lost d'"
  using rtc_keeps_the_time [of demo_rtc "\<lambda>r. 0x06" 1700000000] by (simp add: demo_rtc_def) blast

end
