(* ===== verification/Pin_Port.thy ===== *)
theory Pin_Port
  imports I2c_Bus
begin

unbundle bit_operations_syntax

text \<open>
  What the two I/O expanders share: byte-wide register access, and the contract of an output port
  whose levels cannot be read back, so that the driver keeps the last ones it wrote.
\<close>

definition bus_write8 :: "bool \<Rightarrow> 8 word \<Rightarrow> 8 word \<Rightarrow> bus \<Rightarrow> esp_err_t \<times> bus" where
  "bus_write8 dev reg v b =
    (if \<not> dev then (ESP_ERR_INVALID_STATE, b)
     else let (e, f, b) = bus_call (Tx [reg, v]) b in (e, b))"

text \<open>The variable read into holds 0 before the call.\<close>

definition bus_read8 :: "bool \<Rightarrow> 8 word \<Rightarrow> bus \<Rightarrow> esp_err_t \<times> 8 word \<times> bus" where
  "bus_read8 dev reg b =
    (if \<not> dev then (ESP_ERR_INVALID_STATE, 0, b)
     else let (e, f, b) = bus_call (TxRx [reg] 1) b in (e, if e = ESP_OK then f 0 else 0, b))"

text \<open>Writes one after the other, until one fails.\<close>

fun write_seq :: "bool \<Rightarrow> (8 word \<times> 8 word) list \<Rightarrow> bus \<Rightarrow> esp_err_t \<times> bus" where
  "write_seq dev [] b = (ESP_OK, b)"
| "write_seq dev ((r, v) # rs) b =
     (let (e, b) = bus_write8 dev r v b in if e \<noteq> ESP_OK then (e, b) else write_seq dev rs b)"

definition with_pin :: "nat \<Rightarrow> bool \<Rightarrow> 8 word \<Rightarrow> 8 word" where
  "with_pin n high v = (if high then v OR push_bit n 1 else v AND NOT (push_bit n 1))"

lemma with_pin_bit: "k < 8 \<Longrightarrow> bit (with_pin n high v) k \<longleftrightarrow> (if k = n then high else bit v k)"
  by (auto simp: with_pin_def bit_simps)

text \<open>The last value a register was written with success.\<close>

fun entry_level :: "8 word \<Rightarrow> bus_entry \<Rightarrow> 8 word option \<Rightarrow> 8 word option" where
  "entry_level reg (Tx [r, v], e) l = (if e = ESP_OK \<and> r = reg then Some v else l)"
| "entry_level reg x l = l"

definition level_of :: "8 word \<Rightarrow> bus_entry list \<Rightarrow> 8 word option" where
  "level_of reg tr = fold (entry_level reg) tr None"

lemma level_of_snoc [simp]: "level_of reg (tr @ [x]) = entry_level reg x (level_of reg tr)"
  by (simp add: level_of_def)

lemma bus_write8_level:
  "level_of reg (trace (snd (bus_write8 dev r v b)))
     = (if fst (bus_write8 dev r v b) = ESP_OK \<and> r = reg then Some v else level_of reg (trace b))"
  by (auto simp: bus_write8_def split_beta Let_def bus_call_trace)

lemma bus_read8_level: "level_of reg (trace (snd (snd (bus_read8 dev r b)))) = level_of reg (trace b)"
  by (simp add: bus_read8_def split_beta Let_def bus_call_trace)

lemma bus_write8_off: "fst (bus_write8 False r v b) \<noteq> ESP_OK"
  by (simp add: bus_write8_def)

lemma write_seq_level:
  "fst (write_seq dev rs b) = ESP_OK \<Longrightarrow>
     level_of reg (trace (snd (write_seq dev rs b)))
       = (case map_of (rev rs) reg of None \<Rightarrow> level_of reg (trace b) | Some v \<Rightarrow> Some v)"
proof (induction rs arbitrary: b)
  case (Cons x rs)
  obtain r v where x: "x = (r, v)" by (cases x)
  let ?b = "snd (bus_write8 dev r v b)"
  have ok: "fst (bus_write8 dev r v b) = ESP_OK" "fst (write_seq dev rs ?b) = ESP_OK"
    using Cons.prems by (auto simp: x split_beta Let_def split: if_splits)
  show ?case
    using Cons.IH [OF ok(2)] bus_write8_level [of reg dev r v b] ok
    by (auto simp: x split_beta Let_def map_add_def split: option.split)
qed simp

text \<open>Registers that may only be written when others hold their values: in the entries \<open>t\<close>,
  every write to one of \<open>late\<close> comes after acknowledged writes of all of \<open>first\<close>.\<close>

definition ordered :: "(8 word \<times> 8 word) list \<Rightarrow> 8 word list \<Rightarrow> bus_entry list \<Rightarrow> bool" where
  "ordered first late t \<longleftrightarrow> (\<forall>u r v e w. t = u @ (Tx [r, v], e) # w \<longrightarrow> r \<in> set late \<longrightarrow>
     (\<forall>(q, x) \<in> set first. (Tx [q, x], ESP_OK) \<in> set u))"

lemma write_seq_grows:
  "\<exists>t. trace (snd (write_seq dev rs b)) = trace b @ t \<and> answer (snd (write_seq dev rs b)) = answer b
     \<and> (\<forall>(x, e) \<in> set t. \<exists>(r, v) \<in> set rs. x = Tx [r, v])
     \<and> (fst (write_seq dev rs b) = ESP_OK \<longrightarrow> (\<forall>(r, v) \<in> set rs. (Tx [r, v], ESP_OK) \<in> set t))"
proof (induction rs arbitrary: b)
  case Nil
  show ?case by (rule exI [of _ "[]"]) simp
next
  case (Cons x rs)
  obtain r v where x: "x = (r, v)" by (cases x)
  let ?w = "bus_write8 dev r v b"
  obtain t where t: "trace (snd (write_seq dev rs (snd ?w))) = trace (snd ?w) @ t"
    "answer (snd (write_seq dev rs (snd ?w))) = answer (snd ?w)"
    "\<forall>(x, e) \<in> set t. \<exists>(r, v) \<in> set rs. x = Tx [r, v]"
    "fst (write_seq dev rs (snd ?w)) = ESP_OK \<longrightarrow> (\<forall>(r, v) \<in> set rs. (Tx [r, v], ESP_OK) \<in> set t)"
    using Cons.IH [of "snd ?w"] by blast
  have g: "\<exists>u. trace (snd ?w) = trace b @ u \<and> (u = [] \<or> u = [(Tx [r, v], fst ?w)])" "answer (snd ?w) = answer b"
    by (auto simp: bus_write8_def split_beta Let_def bus_call_trace)
  show ?case
  proof (cases "fst ?w = ESP_OK")
    case True
    then have "dev" by (cases dev) (simp_all add: bus_write8_off)
    with True have "trace (snd ?w) = trace b @ [(Tx [r, v], ESP_OK)]"
      by (auto simp: bus_write8_def split_beta Let_def bus_call_trace)
    then show ?thesis
      using t True g(2) by (intro exI [of _ "(Tx [r, v], ESP_OK) # t"]) (auto simp: x split_beta Let_def)
  next
    case False
    from g obtain u where "trace (snd ?w) = trace b @ u" "u = [] \<or> u = [(Tx [r, v], fst ?w)]"
      "answer (snd ?w) = answer b" by blast
    then show ?thesis using False by (intro exI [of _ u]) (auto simp: x split_beta Let_def)
  qed
qed

lemma ordered_none: "\<forall>(x, e) \<in> set t. \<forall>r v. x = Tx [r, v] \<longrightarrow> r \<notin> set late \<Longrightarrow> ordered first late t"
  by (auto simp: ordered_def)

lemma ordered_append:
  assumes "\<forall>(x, e) \<in> set t. \<forall>r v. x = Tx [r, v] \<longrightarrow> r \<notin> set late"
    and "\<forall>(q, x) \<in> set first. (Tx [q, x], ESP_OK) \<in> set t"
  shows "ordered first late (t @ t')"
proof -
  have "\<forall>(q, x) \<in> set first. (Tx [q, x], ESP_OK) \<in> set u"
    if eq: "t @ t' = u @ (Tx [r, v], e) # w" and r: "r \<in> set late" for u r v e w
  proof -
    have "(Tx [r, v], e) \<notin> set t" using assms(1) r by auto
    with eq have "\<exists>x. u = t @ x" by (auto simp: append_eq_append_conv2 append_eq_Cons_conv)
    then show ?thesis using assms(2) by auto
  qed
  then show ?thesis unfolding ordered_def by blast
qed

section \<open>The contract of a port\<close>

locale pin_port =
  fixes write_port :: "8 word \<Rightarrow> 'h \<Rightarrow> esp_err_t \<times> 'h"
    and shadow :: "'h \<Rightarrow> 8 word"
    and driven :: "'h \<Rightarrow> 8 word option"
  assumes write_ok: "fst (write_port v h) = ESP_OK \<Longrightarrow>
      shadow (snd (write_port v h)) = v \<and> driven (snd (write_port v h)) = Some v"
    and write_err: "fst (write_port v h) \<noteq> ESP_OK \<Longrightarrow>
      shadow (snd (write_port v h)) = shadow h \<and> driven (snd (write_port v h)) = driven h"
begin

lemma stays_in_step:
  "driven h = Some (shadow h) \<Longrightarrow> driven (snd (write_port v h)) = Some (shadow (snd (write_port v h)))"
  using write_ok [of v h] write_err [of v h] by (cases "fst (write_port v h) = ESP_OK") simp_all

lemma one_pin:
  assumes "driven h = Some (shadow h)" "fst (write_port (with_pin n high (shadow h)) h) = ESP_OK"
  shows "\<exists>v w. driven h = Some v \<and> driven (snd (write_port (with_pin n high (shadow h)) h)) = Some w
           \<and> (\<forall>k < 8. bit w k \<longleftrightarrow> (if k = n then high else bit v k))"
  using assms write_ok [OF assms(2)] with_pin_bit by simp

end

end
