(* ===== verification/Aw9523b.thy ===== *)
theory Aw9523b
  imports Pin_Port
begin

unbundle bit_operations_syntax

text \<open>
  The AW9523B expander of \<open>aw9523b/src/aw9523b.c\<close>: two output ports of eight pins. The
  array of the last written levels is the pair of fields \<open>out0\<close> and \<open>out1\<close>. Deleting a
  handle only frees it. A read returns with its result what it put in the caller's variable, which on
  an error is to be ignored.
\<close>

definition REG_P0_INPUT :: "8 word" where "REG_P0_INPUT = 0x00"
definition REG_P1_INPUT :: "8 word" where "REG_P1_INPUT = 0x01"
definition REG_P0_OUTPUT :: "8 word" where "REG_P0_OUTPUT = 0x02"
definition REG_P1_OUTPUT :: "8 word" where "REG_P1_OUTPUT = 0x03"
definition REG_P0_CONFIG :: "8 word" where "REG_P0_CONFIG = 0x04"
definition REG_P1_CONFIG :: "8 word" where "REG_P1_CONFIG = 0x05"
definition REG_ID :: "8 word" where "REG_ID = 0x10"
definition REG_GCR :: "8 word" where "REG_GCR = 0x11"
definition REG_LED_MODE_P0 :: "8 word" where "REG_LED_MODE_P0 = 0x12"
definition REG_LED_MODE_P1 :: "8 word" where "REG_LED_MODE_P1 = 0x13"
definition GCR_P0_PUSH_PULL :: "8 word" where "GCR_P0_PUSH_PULL = 0x10"
definition CHIP_ID :: "8 word" where "CHIP_ID = 0x23"

lemmas aw_regs = REG_P0_INPUT_def REG_P1_INPUT_def REG_P0_OUTPUT_def REG_P1_OUTPUT_def REG_P0_CONFIG_def
  REG_P1_CONFIG_def REG_ID_def REG_GCR_def REG_LED_MODE_P0_def REG_LED_MODE_P1_def

record aw9523b_config =
  cfg_dev :: bool
  port0_inputs :: "8 word"
  port1_inputs :: "8 word"
  port0_initial :: "8 word"
  port1_initial :: "8 word"
  port0_push_pull :: bool

datatype aw9523b_stage_t =
    AW9523B_STAGE_NONE
  | AW9523B_STAGE_IDENTIFY
  | AW9523B_STAGE_PRESET
  | AW9523B_STAGE_CONFIGURE

record aw9523b_report =
  failed_stage :: aw9523b_stage_t
  chip_id :: "8 word"

record aw =
  a_dev :: bool
  a_cfg :: aw9523b_config
  out0 :: "8 word"
  out1 :: "8 word"
  a_bus :: bus

definition aw9523b_stage_name :: "aw9523b_stage_t \<Rightarrow> string" where
  "aw9523b_stage_name st = (case st of
     AW9523B_STAGE_NONE \<Rightarrow> ''none'' | AW9523B_STAGE_IDENTIFY \<Rightarrow> ''identifying the part''
   | AW9523B_STAGE_PRESET \<Rightarrow> ''establishing output levels'' | AW9523B_STAGE_CONFIGURE \<Rightarrow> ''configuring'')"

definition write8 :: "8 word \<Rightarrow> 8 word \<Rightarrow> aw \<Rightarrow> esp_err_t \<times> aw" where
  "write8 reg v d = (let (e, b) = bus_write8 (a_dev d) reg v (a_bus d) in (e, d\<lparr>a_bus := b\<rparr>))"

definition read8 :: "8 word \<Rightarrow> aw \<Rightarrow> esp_err_t \<times> 8 word \<times> aw" where
  "read8 reg d = (let (e, v, b) = bus_read8 (a_dev d) reg (a_bus d) in (e, v, d\<lparr>a_bus := b\<rparr>))"

definition fail :: "aw9523b_report option \<Rightarrow> aw9523b_stage_t \<Rightarrow> aw9523b_report option" where
  "fail rep stage = map_option (\<lambda>r. r\<lparr>failed_stage := stage\<rparr>) rep"

text \<open>The writes of \<open>configure\<close> after the levels, which go on while they succeed.\<close>

definition mode_writes :: "aw9523b_config \<Rightarrow> (8 word \<times> 8 word) list" where
  "mode_writes c =
    [(REG_LED_MODE_P0, 0xFF), (REG_LED_MODE_P1, 0xFF),
     (REG_GCR, if port0_push_pull c then GCR_P0_PUSH_PULL else 0x00),
     (REG_P0_CONFIG, port0_inputs c), (REG_P1_CONFIG, port1_inputs c)]"

definition configure :: "aw \<Rightarrow> aw9523b_report option \<Rightarrow> esp_err_t \<times> aw \<times> aw9523b_report option" where
  "configure d rep =
    (let rep = fail rep AW9523B_STAGE_NONE in
     if \<not> a_dev d then (ESP_ERR_INVALID_STATE, d, rep)
     else
       let (e, ident, d) = read8 REG_ID d in
       if e \<noteq> ESP_OK then (e, d, fail rep AW9523B_STAGE_IDENTIFY)
       else
         let rep = map_option (\<lambda>r. r\<lparr>chip_id := ident\<rparr>) rep in
         if ident \<noteq> CHIP_ID then (ESP_ERR_AW9523B_WRONG_PART, d, fail rep AW9523B_STAGE_IDENTIFY)
         else
           let d = d\<lparr>out0 := port0_initial (a_cfg d), out1 := port1_initial (a_cfg d)\<rparr>;
               (e, b) = write_seq (a_dev d) [(REG_P0_OUTPUT, out0 d), (REG_P1_OUTPUT, out1 d)] (a_bus d);
               d = d\<lparr>a_bus := b\<rparr> in
           if e \<noteq> ESP_OK then (e, d, fail rep AW9523B_STAGE_PRESET)
           else
             let (e, b) = write_seq (a_dev d) (mode_writes (a_cfg d)) (a_bus d); d = d\<lparr>a_bus := b\<rparr> in
             if e \<noteq> ESP_OK then (e, d, fail rep AW9523B_STAGE_CONFIGURE) else (ESP_OK, d, rep))"

definition zero_aw_report :: aw9523b_report where
  "zero_aw_report = \<lparr>failed_stage = AW9523B_STAGE_NONE, chip_id = 0\<rparr>"

definition aw9523b_create ::
    "bool \<Rightarrow> bool \<Rightarrow> aw9523b_config \<Rightarrow> aw9523b_report option \<Rightarrow> bus \<Rightarrow> esp_err_t \<times> aw option \<times> aw9523b_report option \<times> bus" where
  "aw9523b_create args calloc_ok cfg rep b =
    (if \<not> args then (ESP_ERR_INVALID_ARG, None, rep, b)
     else
       let rep = map_option (\<lambda>r. zero_aw_report) rep in
       if \<not> calloc_ok then (ESP_ERR_NO_MEM, None, rep, b)
       else
         let d = \<lparr>a_dev = cfg_dev cfg, a_cfg = cfg, out0 = port0_initial cfg, out1 = port1_initial cfg, a_bus = b\<rparr> in
         if a_dev d then
           let (e, d, rep) = configure d rep in
           if e \<noteq> ESP_OK then (e, None, rep, a_bus d) else (ESP_OK, Some d, rep, a_bus d)
         else (ESP_OK, Some d, rep, b))"

definition aw9523b_set_device ::
    "bool \<Rightarrow> bool \<Rightarrow> aw9523b_report option \<Rightarrow> aw \<Rightarrow> esp_err_t \<times> aw \<times> aw9523b_report option" where
  "aw9523b_set_device args dev rep d =
    (if \<not> args then (ESP_ERR_INVALID_ARG, d, rep)
     else
       let rep = map_option (\<lambda>r. zero_aw_report) rep; d = d\<lparr>a_dev := dev\<rparr> in
       if dev then configure d rep else (ESP_OK, d, rep))"

definition aw9523b_write_port :: "bool \<Rightarrow> nat \<Rightarrow> 8 word \<Rightarrow> aw \<Rightarrow> esp_err_t \<times> aw" where
  "aw9523b_write_port args port v d =
    (if \<not> args \<or> port > 1 then (ESP_ERR_INVALID_ARG, d)
     else
       let (e, d) = write8 (if port = 0 then REG_P0_OUTPUT else REG_P1_OUTPUT) v d in
       (e, if e = ESP_OK then if port = 0 then d\<lparr>out0 := v\<rparr> else d\<lparr>out1 := v\<rparr> else d))"

definition aw9523b_read_port :: "bool \<Rightarrow> nat \<Rightarrow> aw \<Rightarrow> esp_err_t \<times> 8 word \<times> aw" where
  "aw9523b_read_port args port d =
    (if \<not> args \<or> port > 1 then (ESP_ERR_INVALID_ARG, 0, d)
     else read8 (if port = 0 then REG_P0_INPUT else REG_P1_INPUT) d)"

definition aw_out :: "nat \<Rightarrow> aw \<Rightarrow> 8 word" where
  "aw_out port d = (if port = 0 then out0 d else out1 d)"

definition aw9523b_set_pin :: "bool \<Rightarrow> nat \<Rightarrow> nat \<Rightarrow> bool \<Rightarrow> aw \<Rightarrow> esp_err_t \<times> aw" where
  "aw9523b_set_pin args port pin high d =
    (if \<not> args \<or> port > 1 \<or> pin > 7 then (ESP_ERR_INVALID_ARG, d)
     else aw9523b_write_port True port (with_pin pin high (aw_out port d)) d)"

definition aw9523b_get_pin :: "bool \<Rightarrow> nat \<Rightarrow> nat \<Rightarrow> aw \<Rightarrow> esp_err_t \<times> bool option \<times> aw" where
  "aw9523b_get_pin args port pin d =
    (if \<not> args \<or> pin > 7 then (ESP_ERR_INVALID_ARG, None, d)
     else
       let (e, v, d) = aw9523b_read_port True port d in
       if e \<noteq> ESP_OK then (e, None, d) else (ESP_OK, Some (v AND push_bit pin 1 \<noteq> 0), d))"

definition aw9523b_clear_interrupt :: "bool \<Rightarrow> aw \<Rightarrow> esp_err_t \<times> aw" where
  "aw9523b_clear_interrupt args d =
    (if \<not> args then (ESP_ERR_INVALID_ARG, d)
     else
       let (e, v, d) = read8 REG_P0_INPUT d in
       if e \<noteq> ESP_OK then (e, d) else let (e, v, d) = read8 REG_P1_INPUT d in (e, d))"

section \<open>Its ports keep the contract\<close>

definition aw_level :: "nat \<Rightarrow> aw \<Rightarrow> 8 word option" where
  "aw_level port d = level_of (if port = 0 then REG_P0_OUTPUT else REG_P1_OUTPUT) (trace (a_bus d))"

lemma write8_effect:
  "write8 reg v d = (fst (bus_write8 (a_dev d) reg v (a_bus d)), d\<lparr>a_bus := snd (bus_write8 (a_dev d) reg v (a_bus d))\<rparr>)"
  by (simp add: write8_def split_beta Let_def)

lemma write_port0_effect:
  "aw_out q (snd (aw9523b_write_port True 0 v d))
     = (if fst (aw9523b_write_port True 0 v d) = ESP_OK \<and> q = 0 then v else aw_out q d)"
  "aw_level q (snd (aw9523b_write_port True 0 v d))
     = (if fst (aw9523b_write_port True 0 v d) = ESP_OK \<and> q = 0 then Some v else aw_level q d)"
  "a_dev (snd (aw9523b_write_port True 0 v d)) = a_dev d"
  by (simp_all add: aw9523b_write_port_def write8_effect aw_out_def aw_level_def bus_write8_level
      REG_P0_OUTPUT_def REG_P1_OUTPUT_def)

lemma write_port1_effect:
  "aw_out q (snd (aw9523b_write_port True 1 v d))
     = (if fst (aw9523b_write_port True 1 v d) = ESP_OK \<and> q \<noteq> 0 then v else aw_out q d)"
  "aw_level q (snd (aw9523b_write_port True 1 v d))
     = (if fst (aw9523b_write_port True 1 v d) = ESP_OK \<and> q \<noteq> 0 then Some v else aw_level q d)"
  "a_dev (snd (aw9523b_write_port True 1 v d)) = a_dev d"
  by (simp_all add: aw9523b_write_port_def write8_effect aw_out_def aw_level_def bus_write8_level
      REG_P0_OUTPUT_def REG_P1_OUTPUT_def)

interpretation port0: pin_port "aw9523b_write_port True 0" "aw_out 0" "aw_level 0"
  by unfold_locales (simp_all only: write_port0_effect, simp_all)

interpretation port1: pin_port "aw9523b_write_port True 1" "aw_out 1" "aw_level 1"
  by unfold_locales (simp_all only: write_port1_effect, simp_all)

text \<open>A configured part is driven at the levels the handle remembers, and they were there before its
  pins became outputs.\<close>

definition aw_synced :: "aw \<Rightarrow> bool" where
  "aw_synced d \<longleftrightarrow> (a_dev d \<longrightarrow> aw_level 0 d = Some (aw_out 0 d) \<and> aw_level 1 d = Some (aw_out 1 d))"

lemma read8_fields [simp]:
  "a_dev (snd (snd (read8 r d))) = a_dev d" "a_cfg (snd (snd (read8 r d))) = a_cfg d"
  "out0 (snd (snd (read8 r d))) = out0 d" "out1 (snd (snd (read8 r d))) = out1 d"
  "level_of q (trace (a_bus (snd (snd (read8 r d))))) = level_of q (trace (a_bus d))"
  by (simp_all add: read8_def split_beta Let_def bus_read8_level)

lemma configure_ok_form:
  assumes "configure d rep = (ESP_OK, d', rep')"
  obtains b b1 b2 where "a_dev d" "trace b = trace (a_bus (snd (snd (read8 REG_ID d))))"
    "write_seq True [(REG_P0_OUTPUT, port0_initial (a_cfg d)), (REG_P1_OUTPUT, port1_initial (a_cfg d))] b = (ESP_OK, b1)"
    "write_seq True (mode_writes (a_cfg d)) b1 = (ESP_OK, b2)"
    "d' = d\<lparr>out0 := port0_initial (a_cfg d), out1 := port1_initial (a_cfg d), a_bus := b2\<rparr>"
proof -
  obtain e i b where r: "read8 REG_ID d = (e, i, d\<lparr>a_bus := b\<rparr>)"
    by (simp add: read8_def split_beta Let_def)
  obtain e1 b1 where w1: "write_seq True [(REG_P0_OUTPUT, port0_initial (a_cfg d)), (REG_P1_OUTPUT, port1_initial (a_cfg d))] b = (e1, b1)"
    by (metis surj_pair)
  obtain e2 b2 where w2: "write_seq True (mode_writes (a_cfg d)) b1 = (e2, b2)" by (metis surj_pair)
  from assms have "a_dev d" "e = ESP_OK" "e1 = ESP_OK" "e2 = ESP_OK"
    "d' = d\<lparr>out0 := port0_initial (a_cfg d), out1 := port1_initial (a_cfg d), a_bus := b2\<rparr>"
    by (simp_all del: write_seq.simps add: configure_def Let_def r w1 w2 split: if_splits)
  then show ?thesis using that [of b b1 b2] r w1 w2 by simp
qed

lemma configure_synced:
  assumes "configure d rep = (ESP_OK, d', rep')"
  shows "aw_synced d'"
proof -
  obtain b b1 b2 where w: "a_dev d"
    "write_seq True [(REG_P0_OUTPUT, port0_initial (a_cfg d)), (REG_P1_OUTPUT, port1_initial (a_cfg d))] b = (ESP_OK, b1)"
    "write_seq True (mode_writes (a_cfg d)) b1 = (ESP_OK, b2)"
    "d' = d\<lparr>out0 := port0_initial (a_cfg d), out1 := port1_initial (a_cfg d), a_bus := b2\<rparr>"
    using configure_ok_form [OF assms] by blast
  have "level_of q (trace b2) = level_of q (trace b1)" if "q \<in> {REG_P0_OUTPUT, REG_P1_OUTPUT}" for q
    using write_seq_level [of True "mode_writes (a_cfg d)" b1 q] that w(3)
    by (auto simp: mode_writes_def aw_regs)
  moreover have "level_of REG_P0_OUTPUT (trace b1) = Some (port0_initial (a_cfg d))"
    "level_of REG_P1_OUTPUT (trace b1) = Some (port1_initial (a_cfg d))"
    using write_seq_level [of True "[(REG_P0_OUTPUT, port0_initial (a_cfg d)), (REG_P1_OUTPUT, port1_initial (a_cfg d))]" b] w(2)
    by (simp_all del: write_seq.simps add: REG_P0_OUTPUT_def REG_P1_OUTPUT_def)
  ultimately show ?thesis by (simp add: aw_synced_def aw_level_def aw_out_def w(4))
qed

lemma create_synced:
  assumes "aw9523b_create args ok cfg rep b = (ESP_OK, Some d, rep', b')"
  shows "aw_synced d"
  using assms configure_synced
  by (fastforce simp: aw9523b_create_def Let_def aw_synced_def split: if_splits prod.splits)

lemma set_device_synced:
  assumes "aw9523b_set_device args dev rep d = (ESP_OK, d', rep')"
  shows "aw_synced d'"
proof (cases dev)
  case True
  with assms show ?thesis
    using configure_synced [of "d\<lparr>a_dev := True\<rparr>"] by (auto simp: aw9523b_set_device_def Let_def split: if_splits)
next
  case False
  with assms show ?thesis by (auto simp: aw9523b_set_device_def aw_synced_def split: if_splits)
qed

lemma write_port_synced: "aw_synced d \<Longrightarrow> aw_synced (snd (aw9523b_write_port args port v d))"
proof -
  assume s: "aw_synced d"
  consider "\<not> args \<or> port > 1" | "args" "port = 0" | "args" "port = 1" by linarith
  then show ?thesis
  proof cases
    case 1
    then show ?thesis using s by (auto simp: aw9523b_write_port_def)
  next
    case 2
    then show ?thesis using s by (simp add: aw_synced_def write_port0_effect)
  next
    case 3
    then show ?thesis using s by (simp add: aw_synced_def write_port1_effect del: One_nat_def)
  qed
qed

lemma set_pin_synced: "aw_synced d \<Longrightarrow> aw_synced (snd (aw9523b_set_pin args port pin high d))"
  by (simp add: aw9523b_set_pin_def write_port_synced)

lemma read_synced:
  "aw_synced d \<Longrightarrow> aw_synced (snd (snd (aw9523b_read_port args port d)))"
  "aw_synced d \<Longrightarrow> aw_synced (snd (snd (aw9523b_get_pin args port pin d)))"
  "aw_synced d \<Longrightarrow> aw_synced (snd (aw9523b_clear_interrupt args d))"
  by (simp_all add: aw9523b_read_port_def aw9523b_get_pin_def aw9523b_clear_interrupt_def aw_synced_def
      aw_level_def aw_out_def split_beta Let_def)

text \<open>The handles the calls of the driver can produce, each call having gone as it may.\<close>

inductive aw_reachable :: "aw \<Rightarrow> bool" where
  created: "aw9523b_create args ok cfg rep b = (ESP_OK, Some d, rep', b') \<Longrightarrow> aw_reachable d"
| replaced: "aw_reachable d \<Longrightarrow> aw9523b_set_device args dev rep d = (ESP_OK, d', rep') \<Longrightarrow> aw_reachable d'"
| wrote: "aw_reachable d \<Longrightarrow> aw_reachable (snd (aw9523b_write_port args port v d))"
| wrote_pin: "aw_reachable d \<Longrightarrow> aw_reachable (snd (aw9523b_set_pin args port pin high d))"
| looked: "aw_reachable d \<Longrightarrow> aw_reachable (snd (snd (aw9523b_read_port args port d)))"
| looked_pin: "aw_reachable d \<Longrightarrow> aw_reachable (snd (snd (aw9523b_get_pin args port pin d)))"
| cleared: "aw_reachable d \<Longrightarrow> aw_reachable (snd (aw9523b_clear_interrupt args d))"

lemma aw_reachable_synced: "aw_reachable d \<Longrightarrow> aw_synced d"
  by (induction rule: aw_reachable.induct)
    (simp_all add: create_synced set_device_synced write_port_synced set_pin_synced read_synced)

section \<open>Levels before directions\<close>

lemma read8_trace:
  "\<exists>t. trace (a_bus (snd (snd (read8 r d)))) = trace (a_bus d) @ t \<and> (\<forall>(x, e) \<in> set t. \<forall>bs. x \<noteq> Tx bs)"
  by (auto simp: read8_def bus_read8_def split_beta Let_def bus_call_trace)

definition aw_levels :: "aw9523b_config \<Rightarrow> (8 word \<times> 8 word) list" where
  "aw_levels c = [(REG_P0_OUTPUT, port0_initial c), (REG_P1_OUTPUT, port1_initial c)]"

definition aw_directions :: "8 word list" where
  "aw_directions = [REG_LED_MODE_P0, REG_LED_MODE_P1, REG_GCR, REG_P0_CONFIG, REG_P1_CONFIG]"

lemma configure_ordered:
  "\<exists>t. trace (a_bus (fst (snd (configure d rep)))) = trace (a_bus d) @ t
     \<and> ordered (aw_levels (a_cfg d)) aw_directions t"
proof -
  obtain e i b where r: "read8 REG_ID d = (e, i, d\<lparr>a_bus := b\<rparr>)"
    by (simp add: read8_def split_beta Let_def)
  obtain t0 where t0: "trace b = trace (a_bus d) @ t0" "\<forall>(x, e) \<in> set t0. \<forall>bs. x \<noteq> Tx bs"
    using read8_trace [of REG_ID d] by (auto simp: r)
  obtain e1 b1 where w1: "write_seq True (aw_levels (a_cfg d)) b = (e1, b1)" by (metis surj_pair)
  obtain e2 b2 where w2: "write_seq True (mode_writes (a_cfg d)) b1 = (e2, b2)" by (metis surj_pair)
  obtain t1 where t1: "trace b1 = trace b @ t1"
    "\<forall>(x, e) \<in> set t1. \<exists>(r, v) \<in> set (aw_levels (a_cfg d)). x = Tx [r, v]"
    "e1 = ESP_OK \<Longrightarrow> \<forall>(r, v) \<in> set (aw_levels (a_cfg d)). (Tx [r, v], ESP_OK) \<in> set t1"
    using write_seq_grows [of True "aw_levels (a_cfg d)" b] by (auto simp: w1 simp del: write_seq.simps)
  obtain t2 where t2: "trace b2 = trace b1 @ t2"
    using write_seq_grows [of True "mode_writes (a_cfg d)" b1] by (auto simp: w2 simp del: write_seq.simps)
  have early: "\<forall>(x, e) \<in> set (t0 @ t1). \<forall>r v. x = Tx [r, v] \<longrightarrow> r \<notin> set aw_directions"
    using t0(2) t1(2) by (fastforce simp: aw_levels_def aw_directions_def aw_regs)
  have "e1 = ESP_OK \<Longrightarrow> ordered (aw_levels (a_cfg d)) aw_directions ((t0 @ t1) @ t2)"
    using early t1(3) by (intro ordered_append) auto
  moreover have "ordered (aw_levels (a_cfg d)) aw_directions (t0 @ t1)" "ordered (aw_levels (a_cfg d)) aw_directions t0"
    using early by (intro ordered_none; auto)+
  moreover have "ordered (aw_levels (a_cfg d)) aw_directions []" by (intro ordered_none) simp
  ultimately show ?thesis
    using w1 w2 t0(1) t1(1) t2
    by (auto simp del: write_seq.simps simp: configure_def Let_def r aw_levels_def split: prod.splits)
qed

text \<open>C21. The pins of an AW9523B are switched to be outputs, to push-pull drive or to GPIO mode by a
  create or a new bus device only after both ports acknowledged the initial output levels of the
  configuration: whatever the bus answers and at whatever point the sequence breaks off, no write to a
  mode or direction register is on the record before those two. This is the order the header asks for
  so that relays do not move at a reset.\<close>

theorem aw_levels_before_directions:
  "(\<exists>t. trace (snd (snd (snd (aw9523b_create args ok cfg rep b)))) = trace b @ t
      \<and> ordered [(REG_P0_OUTPUT, port0_initial cfg), (REG_P1_OUTPUT, port1_initial cfg)]
          [REG_LED_MODE_P0, REG_LED_MODE_P1, REG_GCR, REG_P0_CONFIG, REG_P1_CONFIG] t)
   \<and> (\<exists>t. trace (a_bus (fst (snd (aw9523b_set_device args dev rep d)))) = trace (a_bus d) @ t
      \<and> ordered [(REG_P0_OUTPUT, port0_initial (a_cfg d)), (REG_P1_OUTPUT, port1_initial (a_cfg d))]
          [REG_LED_MODE_P0, REG_LED_MODE_P1, REG_GCR, REG_P0_CONFIG, REG_P1_CONFIG] t)"
proof (fold aw_levels_def aw_directions_def, rule conjI)
  let ?d = "\<lparr>a_dev = cfg_dev cfg, a_cfg = cfg, out0 = port0_initial cfg, out1 = port1_initial cfg, a_bus = b\<rparr>"
  have none: "\<And>c. ordered (aw_levels c) aw_directions []" by (intro ordered_none) simp
  show "\<exists>t. trace (snd (snd (snd (aw9523b_create args ok cfg rep b)))) = trace b @ t
      \<and> ordered (aw_levels cfg) aw_directions t"
    using configure_ordered [of ?d "map_option (\<lambda>r. zero_aw_report) rep"] none
    by (auto simp: aw9523b_create_def Let_def split_beta)
  show "\<exists>t. trace (a_bus (fst (snd (aw9523b_set_device args dev rep d)))) = trace (a_bus d) @ t
      \<and> ordered (aw_levels (a_cfg d)) aw_directions t"
    using configure_ordered [of "d\<lparr>a_dev := dev\<rparr>" "map_option (\<lambda>r. zero_aw_report) rep"] none
    by (auto simp: aw9523b_set_device_def Let_def)
qed

end
