(* ===== verification/Pi4ioe5v6408.thy ===== *)
theory Pi4ioe5v6408
  imports Pin_Port
begin

unbundle bit_operations_syntax

text \<open>
  The PI4IOE5V6408 expander of \<open>pi4ioe5v6408/src/pi4ioe5v6408.c\<close>: one port of eight pins
  with a direction, a high impedance switch, pulls and an interrupt mask per pin. Deleting a handle only
  frees it. A read returns with its result what it put in the caller's variable, which on an error is to
  be ignored.
\<close>

definition PI_REG_CONTROL :: "8 word" where "PI_REG_CONTROL = 0x01"
definition PI_REG_DIRECTION :: "8 word" where "PI_REG_DIRECTION = 0x03"
definition PI_REG_OUTPUT :: "8 word" where "PI_REG_OUTPUT = 0x05"
definition PI_REG_OUTPUT_HI_Z :: "8 word" where "PI_REG_OUTPUT_HI_Z = 0x07"
definition PI_REG_PULL_ENABLE :: "8 word" where "PI_REG_PULL_ENABLE = 0x0B"
definition PI_REG_PULL_SELECT :: "8 word" where "PI_REG_PULL_SELECT = 0x0D"
definition PI_REG_INPUT :: "8 word" where "PI_REG_INPUT = 0x0F"
definition PI_REG_INT_MASK :: "8 word" where "PI_REG_INT_MASK = 0x11"
definition PI_REG_INT_STATUS :: "8 word" where "PI_REG_INT_STATUS = 0x13"
definition CONTROL_DEVICE_ID_MASK :: "8 word" where "CONTROL_DEVICE_ID_MASK = 0xFC"
definition CONTROL_DEVICE_ID :: "8 word" where "CONTROL_DEVICE_ID = 0xA0"

lemmas pi_regs = PI_REG_CONTROL_def PI_REG_DIRECTION_def PI_REG_OUTPUT_def PI_REG_OUTPUT_HI_Z_def
  PI_REG_PULL_ENABLE_def PI_REG_PULL_SELECT_def PI_REG_INPUT_def PI_REG_INT_MASK_def PI_REG_INT_STATUS_def

record pi4ioe_config =
  pcfg_dev :: bool
  outputs :: "8 word"
  initial :: "8 word"
  pull_enable :: "8 word"
  pull_up :: "8 word"
  interrupt_on :: "8 word"

datatype pi4ioe_stage_t =
    PI4IOE5V6408_STAGE_NONE
  | PI4IOE5V6408_STAGE_IDENTIFY
  | PI4IOE5V6408_STAGE_PRESET
  | PI4IOE5V6408_STAGE_CONFIGURE

record pi4ioe_report =
  pi_failed_stage :: pi4ioe_stage_t
  control_register :: "8 word"

record pi4ioe =
  p_dev :: bool
  p_cfg :: pi4ioe_config
  p_out :: "8 word"
  p_bus :: bus

definition pi4ioe5v6408_stage_name :: "pi4ioe_stage_t \<Rightarrow> string" where
  "pi4ioe5v6408_stage_name st = (case st of
     PI4IOE5V6408_STAGE_NONE \<Rightarrow> ''none'' | PI4IOE5V6408_STAGE_IDENTIFY \<Rightarrow> ''identifying the part''
   | PI4IOE5V6408_STAGE_PRESET \<Rightarrow> ''establishing output levels''
   | PI4IOE5V6408_STAGE_CONFIGURE \<Rightarrow> ''configuring'')"

definition pi_write8 :: "8 word \<Rightarrow> 8 word \<Rightarrow> pi4ioe \<Rightarrow> esp_err_t \<times> pi4ioe" where
  "pi_write8 reg v d = (let (e, b) = bus_write8 (p_dev d) reg v (p_bus d) in (e, d\<lparr>p_bus := b\<rparr>))"

definition pi_read8 :: "8 word \<Rightarrow> pi4ioe \<Rightarrow> esp_err_t \<times> 8 word \<times> pi4ioe" where
  "pi_read8 reg d = (let (e, v, b) = bus_read8 (p_dev d) reg (p_bus d) in (e, v, d\<lparr>p_bus := b\<rparr>))"

definition pi_fail :: "pi4ioe_report option \<Rightarrow> pi4ioe_stage_t \<Rightarrow> pi4ioe_report option" where
  "pi_fail rep stage = map_option (\<lambda>r. r\<lparr>pi_failed_stage := stage\<rparr>) rep"

text \<open>The writes of \<open>configure\<close> after the level, which go on while they succeed.\<close>

definition pin_writes :: "pi4ioe_config \<Rightarrow> (8 word \<times> 8 word) list" where
  "pin_writes c =
    [(PI_REG_OUTPUT_HI_Z, NOT (outputs c)), (PI_REG_DIRECTION, outputs c), (PI_REG_PULL_ENABLE, pull_enable c),
     (PI_REG_PULL_SELECT, pull_up c), (PI_REG_INT_MASK, NOT (interrupt_on c))]"

definition pi_configure :: "pi4ioe \<Rightarrow> pi4ioe_report option \<Rightarrow> esp_err_t \<times> pi4ioe \<times> pi4ioe_report option" where
  "pi_configure d rep =
    (let rep = pi_fail rep PI4IOE5V6408_STAGE_NONE in
     if \<not> p_dev d then (ESP_ERR_INVALID_STATE, d, rep)
     else
       let (e, control, d) = pi_read8 PI_REG_CONTROL d in
       if e \<noteq> ESP_OK then (e, d, pi_fail rep PI4IOE5V6408_STAGE_IDENTIFY)
       else
         let rep = map_option (\<lambda>r. r\<lparr>control_register := control\<rparr>) rep in
         if control AND CONTROL_DEVICE_ID_MASK \<noteq> CONTROL_DEVICE_ID
         then (ESP_ERR_PI4IOE5V6408_WRONG_PART, d, pi_fail rep PI4IOE5V6408_STAGE_IDENTIFY)
         else
           let d = d\<lparr>p_out := initial (p_cfg d)\<rparr>; (e, d) = pi_write8 PI_REG_OUTPUT (p_out d) d in
           if e \<noteq> ESP_OK then (e, d, pi_fail rep PI4IOE5V6408_STAGE_PRESET)
           else
             let (e, b) = write_seq (p_dev d) (pin_writes (p_cfg d)) (p_bus d); d = d\<lparr>p_bus := b\<rparr> in
             if e \<noteq> ESP_OK then (e, d, pi_fail rep PI4IOE5V6408_STAGE_CONFIGURE) else (ESP_OK, d, rep))"

definition zero_pi_report :: pi4ioe_report where
  "zero_pi_report = \<lparr>pi_failed_stage = PI4IOE5V6408_STAGE_NONE, control_register = 0\<rparr>"

definition pi4ioe5v6408_create ::
    "bool \<Rightarrow> bool \<Rightarrow> pi4ioe_config \<Rightarrow> pi4ioe_report option \<Rightarrow> bus \<Rightarrow> esp_err_t \<times> pi4ioe option \<times> pi4ioe_report option \<times> bus" where
  "pi4ioe5v6408_create args calloc_ok cfg rep b =
    (if \<not> args then (ESP_ERR_INVALID_ARG, None, rep, b)
     else
       let rep = map_option (\<lambda>r. zero_pi_report) rep in
       if \<not> calloc_ok then (ESP_ERR_NO_MEM, None, rep, b)
       else
         let d = \<lparr>p_dev = pcfg_dev cfg, p_cfg = cfg, p_out = initial cfg, p_bus = b\<rparr> in
         if p_dev d then
           let (e, d, rep) = pi_configure d rep in
           if e \<noteq> ESP_OK then (e, None, rep, p_bus d) else (ESP_OK, Some d, rep, p_bus d)
         else (ESP_OK, Some d, rep, b))"

definition pi4ioe5v6408_set_device ::
    "bool \<Rightarrow> bool \<Rightarrow> pi4ioe_report option \<Rightarrow> pi4ioe \<Rightarrow> esp_err_t \<times> pi4ioe \<times> pi4ioe_report option" where
  "pi4ioe5v6408_set_device args dev rep d =
    (if \<not> args then (ESP_ERR_INVALID_ARG, d, rep)
     else
       let rep = map_option (\<lambda>r. zero_pi_report) rep; d = d\<lparr>p_dev := dev\<rparr> in
       if dev then pi_configure d rep else (ESP_OK, d, rep))"

definition pi4ioe5v6408_write_port :: "bool \<Rightarrow> 8 word \<Rightarrow> pi4ioe \<Rightarrow> esp_err_t \<times> pi4ioe" where
  "pi4ioe5v6408_write_port args v d =
    (if \<not> args then (ESP_ERR_INVALID_ARG, d)
     else let (e, d) = pi_write8 PI_REG_OUTPUT v d in (e, if e = ESP_OK then d\<lparr>p_out := v\<rparr> else d))"

definition pi4ioe5v6408_read_port :: "bool \<Rightarrow> pi4ioe \<Rightarrow> esp_err_t \<times> 8 word \<times> pi4ioe" where
  "pi4ioe5v6408_read_port args d = (if \<not> args then (ESP_ERR_INVALID_ARG, 0, d) else pi_read8 PI_REG_INPUT d)"

definition pi4ioe5v6408_set_pin :: "bool \<Rightarrow> nat \<Rightarrow> bool \<Rightarrow> pi4ioe \<Rightarrow> esp_err_t \<times> pi4ioe" where
  "pi4ioe5v6408_set_pin args pin high d =
    (if \<not> args \<or> pin > 7 then (ESP_ERR_INVALID_ARG, d)
     else pi4ioe5v6408_write_port True (with_pin pin high (p_out d)) d)"

definition pi4ioe5v6408_get_pin :: "bool \<Rightarrow> nat \<Rightarrow> pi4ioe \<Rightarrow> esp_err_t \<times> bool option \<times> pi4ioe" where
  "pi4ioe5v6408_get_pin args pin d =
    (if \<not> args \<or> pin > 7 then (ESP_ERR_INVALID_ARG, None, d)
     else
       let (e, v, d) = pi4ioe5v6408_read_port True d in
       if e \<noteq> ESP_OK then (e, None, d) else (ESP_OK, Some (v AND push_bit pin 1 \<noteq> 0), d))"

definition pi4ioe5v6408_read_interrupt_status :: "bool \<Rightarrow> pi4ioe \<Rightarrow> esp_err_t \<times> 8 word \<times> pi4ioe" where
  "pi4ioe5v6408_read_interrupt_status args d =
    (if \<not> args then (ESP_ERR_INVALID_ARG, 0, d) else pi_read8 PI_REG_INT_STATUS d)"

section \<open>The port keeps the contract\<close>

definition pi_level :: "pi4ioe \<Rightarrow> 8 word option" where
  "pi_level d = level_of PI_REG_OUTPUT (trace (p_bus d))"

lemma pi_write8_effect:
  "pi_write8 reg v d = (fst (bus_write8 (p_dev d) reg v (p_bus d)), d\<lparr>p_bus := snd (bus_write8 (p_dev d) reg v (p_bus d))\<rparr>)"
  by (simp add: pi_write8_def split_beta Let_def)

lemma pi_write_port_effect:
  "p_out (snd (pi4ioe5v6408_write_port args v d))
     = (if fst (pi4ioe5v6408_write_port args v d) = ESP_OK then v else p_out d)"
  "pi_level (snd (pi4ioe5v6408_write_port args v d))
     = (if fst (pi4ioe5v6408_write_port args v d) = ESP_OK then Some v else pi_level d)"
  "p_dev (snd (pi4ioe5v6408_write_port args v d)) = p_dev d"
  by (simp_all add: pi4ioe5v6408_write_port_def pi_write8_effect pi_level_def bus_write8_level)

interpretation pi_port: pin_port "pi4ioe5v6408_write_port True" p_out pi_level
  by unfold_locales (simp_all only: pi_write_port_effect, simp_all)

definition pi_synced :: "pi4ioe \<Rightarrow> bool" where
  "pi_synced d \<longleftrightarrow> (p_dev d \<longrightarrow> pi_level d = Some (p_out d))"

lemma pi_read8_fields [simp]:
  "p_dev (snd (snd (pi_read8 r d))) = p_dev d" "p_cfg (snd (snd (pi_read8 r d))) = p_cfg d"
  "p_out (snd (snd (pi_read8 r d))) = p_out d" "pi_level (snd (snd (pi_read8 r d))) = pi_level d"
  by (simp_all add: pi_read8_def pi_level_def split_beta Let_def bus_read8_level)

lemma pin_writes_level:
  "write_seq True (pin_writes c) b = (ESP_OK, b') \<Longrightarrow> level_of PI_REG_OUTPUT (trace b') = level_of PI_REG_OUTPUT (trace b)"
  using write_seq_level [of True "pin_writes c" b PI_REG_OUTPUT] by (auto simp: pin_writes_def pi_regs)

lemma pi_configure_synced:
  assumes "pi_configure d rep = (ESP_OK, d', rep')"
  shows "pi_synced d'"
proof -
  obtain e i b where r: "pi_read8 PI_REG_CONTROL d = (e, i, d\<lparr>p_bus := b\<rparr>)"
    by (simp add: pi_read8_def split_beta Let_def)
  obtain e1 b1 where w1: "bus_write8 True PI_REG_OUTPUT (initial (p_cfg d)) b = (e1, b1)" by (metis surj_pair)
  obtain e2 b2 where w2: "write_seq True (pin_writes (p_cfg d)) b1 = (e2, b2)" by (metis surj_pair)
  from assms have ok: "e1 = ESP_OK" "e2 = ESP_OK" "d' = d\<lparr>p_out := initial (p_cfg d), p_bus := b2\<rparr>"
    by (simp_all add: pi_configure_def Let_def r w1 w2 pi_write8_effect split: if_splits)
  have "level_of PI_REG_OUTPUT (trace b1) = Some (initial (p_cfg d))"
    using bus_write8_level [of PI_REG_OUTPUT True PI_REG_OUTPUT "initial (p_cfg d)" b] by (simp add: w1 ok)
  then show ?thesis using pin_writes_level [of "p_cfg d" b1 b2] w2 ok by (simp add: pi_synced_def pi_level_def)
qed

lemma pi_create_synced:
  assumes "pi4ioe5v6408_create args ok cfg rep b = (ESP_OK, Some d, rep', b')"
  shows "pi_synced d"
  using assms pi_configure_synced
  by (fastforce simp: pi4ioe5v6408_create_def Let_def pi_synced_def split: if_splits prod.splits)

lemma pi_set_device_synced:
  assumes "pi4ioe5v6408_set_device args dev rep d = (ESP_OK, d', rep')"
  shows "pi_synced d'"
proof (cases dev)
  case True
  with assms show ?thesis
    using pi_configure_synced [of "d\<lparr>p_dev := True\<rparr>"] by (auto simp: pi4ioe5v6408_set_device_def Let_def split: if_splits)
next
  case False
  with assms show ?thesis by (auto simp: pi4ioe5v6408_set_device_def pi_synced_def split: if_splits)
qed

lemma pi_write_synced:
  "pi_synced d \<Longrightarrow> pi_synced (snd (pi4ioe5v6408_write_port args v d))"
  "pi_synced d \<Longrightarrow> pi_synced (snd (pi4ioe5v6408_set_pin args pin high d))"
  by (simp_all add: pi4ioe5v6408_set_pin_def pi_synced_def pi_write_port_effect)

lemma pi_read_synced:
  "pi_synced d \<Longrightarrow> pi_synced (snd (snd (pi4ioe5v6408_read_port args d)))"
  "pi_synced d \<Longrightarrow> pi_synced (snd (snd (pi4ioe5v6408_get_pin args pin d)))"
  "pi_synced d \<Longrightarrow> pi_synced (snd (snd (pi4ioe5v6408_read_interrupt_status args d)))"
  by (simp_all add: pi4ioe5v6408_read_port_def pi4ioe5v6408_get_pin_def pi4ioe5v6408_read_interrupt_status_def
      pi_synced_def split_beta Let_def)

text \<open>The handles the calls of the driver can produce. One whose new device was not configured is
  kept by its caller, who has the error; what the port then drives is not known.\<close>

inductive pi_reachable :: "pi4ioe \<Rightarrow> bool" where
  created: "pi4ioe5v6408_create args ok cfg rep b = (ESP_OK, Some d, rep', b') \<Longrightarrow> pi_reachable d"
| replaced: "pi_reachable d \<Longrightarrow> pi4ioe5v6408_set_device args dev rep d = (ESP_OK, d', rep') \<Longrightarrow> pi_reachable d'"
| wrote: "pi_reachable d \<Longrightarrow> pi_reachable (snd (pi4ioe5v6408_write_port args v d))"
| wrote_pin: "pi_reachable d \<Longrightarrow> pi_reachable (snd (pi4ioe5v6408_set_pin args pin high d))"
| looked: "pi_reachable d \<Longrightarrow> pi_reachable (snd (snd (pi4ioe5v6408_read_port args d)))"
| looked_pin: "pi_reachable d \<Longrightarrow> pi_reachable (snd (snd (pi4ioe5v6408_get_pin args pin d)))"
| acknowledged: "pi_reachable d \<Longrightarrow> pi_reachable (snd (snd (pi4ioe5v6408_read_interrupt_status args d)))"

lemma pi_reachable_synced: "pi_reachable d \<Longrightarrow> pi_synced d"
  by (induction rule: pi_reachable.induct)
    (simp_all add: pi_create_synced pi_set_device_synced pi_write_synced pi_read_synced)

lemma pi_set_pin_off: "\<not> p_dev d \<Longrightarrow> fst (pi4ioe5v6408_set_pin args pin high d) \<noteq> ESP_OK"
  by (simp add: pi4ioe5v6408_set_pin_def pi4ioe5v6408_write_port_def pi_write8_effect bus_write8_def)

text \<open>Setting a pin moves that pin and no other. On a handle that the calls of the driver produced,
  in any order and over any bus, a set of a pin that reports success leaves the chip driving the levels
  it drove before, the last acknowledged write of the output register, with this one bit as asked for;
  a set that fails leaves the levels and the remembered copy as they were. Pins are not read back, so
  this rests on the copy being in step with the register, which every call keeps.\<close>

theorem pi_set_pin_moves_one_pin:
  assumes "pi_reachable d"
  shows "if fst (pi4ioe5v6408_set_pin args pin high d) = ESP_OK
     then pin < 8 \<and> (\<exists>v w. pi_level d = Some v \<and> pi_level (snd (pi4ioe5v6408_set_pin args pin high d)) = Some w
        \<and> (\<forall>k < 8. bit w k \<longleftrightarrow> (if k = pin then high else bit v k)))
     else pi_level (snd (pi4ioe5v6408_set_pin args pin high d)) = pi_level d
        \<and> p_out (snd (pi4ioe5v6408_set_pin args pin high d)) = p_out d"
proof (cases "args \<and> pin < 8")
  case False
  then show ?thesis by (auto simp: pi4ioe5v6408_set_pin_def)
next
  case True
  then have w: "pi4ioe5v6408_set_pin args pin high d = pi4ioe5v6408_write_port True (with_pin pin high (p_out d)) d"
    by (simp add: pi4ioe5v6408_set_pin_def)
  show ?thesis
  proof (cases "fst (pi4ioe5v6408_set_pin args pin high d) = ESP_OK")
    case ok: True
    then have "p_dev d" using pi_set_pin_off by blast
    then have s: "pi_level d = Some (p_out d)" using pi_reachable_synced [OF assms] by (simp add: pi_synced_def)
    show ?thesis using pi_port.one_pin [OF s, of pin high] ok True unfolding w by simp
  next
    case bad: False
    then show ?thesis using pi_port.write_err [of "with_pin pin high (p_out d)" d] unfolding w by simp
  qed
qed

definition pi_example_run :: "esp_err_t \<times> pi4ioe option \<times> pi4ioe_report option \<times> bus" where
  "pi_example_run = pi4ioe5v6408_create True True
     \<lparr>pcfg_dev = True, outputs = 0x0F, initial = 0x05, pull_enable = 0xF0, pull_up = 0xF0, interrupt_on = 0\<rparr> None
     \<lparr>trace = [], answer = reg_device (\<lambda>r. if r = 1 then 0xA2 else 0)\<rparr>"

definition pi_example :: pi4ioe where
  "pi_example = the (fst (snd pi_example_run))"

lemma pi_example_created: "fst pi_example_run = ESP_OK" "\<not> Option.is_none (fst (snd pi_example_run))"
  by code_simp+

lemma pi_example_reachable: "pi_reachable pi_example"
proof -
  have "pi_example_run = (ESP_OK, Some pi_example, snd (snd pi_example_run))"
    using pi_example_created by (cases "fst (snd pi_example_run)") (auto simp: pi_example_def prod_eq_iff)
  then show ?thesis
    unfolding pi_example_run_def by (metis pi_reachable.created prod.collapse)
qed

lemma pi_example_set: "fst (pi4ioe5v6408_set_pin True 3 True pi_example) = ESP_OK" "pi_level pi_example = Some 0x05"
  by code_simp+

theorem pi_set_pin_moves_one_pin_witness:
  "\<exists>w. pi_level (snd (pi4ioe5v6408_set_pin True 3 True pi_example)) = Some w
     \<and> (\<forall>k < 8. bit w k \<longleftrightarrow> (if k = 3 then True else bit (0x05 :: 8 word) k))"
  using pi_set_pin_moves_one_pin [OF pi_example_reachable, of True 3 True] pi_example_set by auto

end
