(* ===== verification/Pads.thy ===== *)
theory Pads
  imports Prelude
begin

text \<open>
  Pins driven one by one, for the converter that has no bus. What happens on them is a record of
  events. The level of an input, the cycle counter, the outcome of configuring a pin and how long
  anything takes are the world's: arbitrary functions of the events so far. Time goes on, and the
  delays last at least as long as they say.
\<close>

datatype pad_event =
    Wrote int bool
  | Saw int bool
  | Clocked int
  | Counted "32 word"
  | Waited_us nat
  | Waited_ticks nat
  | Configured_out int esp_err_t
  | Configured_in int esp_err_t
  | Was_reset int
  | Pulled_up_off int
  | Pulled_down int
  | Masked
  | Unmasked

record pad_world =
  line :: "pad_event list \<Rightarrow> int \<Rightarrow> bool"
  cycle :: "pad_event list \<Rightarrow> 32 word"
  config_result :: "pad_event list \<Rightarrow> int \<Rightarrow> esp_err_t"
  lag :: "pad_event list \<Rightarrow> nat"
  tick_hz :: nat
  cpu_hz :: "32 word"

text \<open>\<open>now\<close> is the timer, in microseconds.\<close>

record pads =
  events :: "pad_event list"
  now :: int
  world :: pad_world

definition happen :: "pad_event \<Rightarrow> pads \<Rightarrow> pads" where
  "happen x p = p\<lparr>events := events p @ [x], now := now p + int (lag (world p) (events p))\<rparr>"

definition pad_write :: "int \<Rightarrow> bool \<Rightarrow> pads \<Rightarrow> pads" where
  "pad_write pin level p = happen (Wrote pin level) p"

definition pad_level :: "int \<Rightarrow> pads \<Rightarrow> bool \<times> pads" where
  "pad_level pin p = (let l = line (world p) (events p) pin in (l, happen (Saw pin l) p))"

definition timer :: "pads \<Rightarrow> int \<times> pads" where
  "timer p = (now p, happen (Clocked (now p)) p)"

definition cycle_count :: "pads \<Rightarrow> 32 word \<times> pads" where
  "cycle_count p = (let c = cycle (world p) (events p) in (c, happen (Counted c) p))"

definition delay_us :: "nat \<Rightarrow> pads \<Rightarrow> pads" where
  "delay_us n p = happen (Waited_us n) (p\<lparr>now := now p + int n\<rparr>)"

text \<open>\<open>vTaskDelay\<close> wakes up at the \<open>n\<close>-th tick from now.\<close>

definition tick_us :: "pad_world \<Rightarrow> int" where
  "tick_us w = (if 1000000 div tick_hz w = 0 then 1 else int (1000000 div tick_hz w))"

definition ms_to_ticks :: "nat \<Rightarrow> pad_world \<Rightarrow> nat" where
  "ms_to_ticks ms w = ms * tick_hz w div 1000"

definition delay_ticks :: "nat \<Rightarrow> pads \<Rightarrow> pads" where
  "delay_ticks n p = happen (Waited_ticks n)
     (p\<lparr>now := (now p div tick_us (world p) + int n) * tick_us (world p)\<rparr>)"

definition pin_output :: "int \<Rightarrow> pads \<Rightarrow> esp_err_t \<times> pads" where
  "pin_output pin p =
    (let e = config_result (world p) (events p) pin in (e, happen (Configured_out pin e) p))"

definition pin_input_up :: "int \<Rightarrow> pads \<Rightarrow> esp_err_t \<times> pads" where
  "pin_input_up pin p =
    (let e = config_result (world p) (events p) pin in (e, happen (Configured_in pin e) p))"

section \<open>Time\<close>

lemma tick_us_pos: "0 < tick_us w"
  by (simp add: tick_us_def)

lemma next_tick: "0 < (T :: int) \<Longrightarrow> 0 < n \<Longrightarrow> t < (t div T + int n) * T"
proof -
  assume T: "0 < T" and n: "0 < n"
  have "t mod T < T" using T by simp
  moreover have "T \<le> int n * T" using T n by (simp add: mult_le_cancel_right1)
  ultimately show ?thesis using div_mult_mod_eq [of t T] unfolding distrib_right by linarith
qed

lemma time_goes_on [simp]:
  "now p \<le> now (happen x p)" "now p \<le> now (pad_write pin l p)" "now p \<le> now (snd (pad_level pin p))"
  "now p \<le> now (snd (timer p))" "now p \<le> now (snd (cycle_count p))"
  by (simp_all add: happen_def pad_write_def pad_level_def timer_def cycle_count_def Let_def)

lemma delays_last [simp]:
  "now p + int n \<le> now (delay_us n p)" "0 < n \<Longrightarrow> now p < now (delay_ticks n p)"
  using next_tick [OF tick_us_pos, of n "now p" "world p"]
  by (simp_all add: delay_us_def delay_ticks_def happen_def)

section \<open>What is left on the record\<close>

lemma same_world [simp]:
  "world (happen x p) = world p" "world (pad_write pin l p) = world p" "world (snd (pad_level pin p)) = world p"
  "world (snd (timer p)) = world p" "world (snd (cycle_count p)) = world p" "world (delay_us n p) = world p"
  "world (delay_ticks n p) = world p" "world (snd (pin_output pin p)) = world p"
  "world (snd (pin_input_up pin p)) = world p"
  by (simp_all add: happen_def pad_write_def pad_level_def timer_def cycle_count_def delay_us_def delay_ticks_def
      pin_output_def pin_input_up_def Let_def)

lemma new_events [simp]:
  "events (happen x p) = events p @ [x]" "events (pad_write pin l p) = events p @ [Wrote pin l]"
  "events (snd (pad_level pin p)) = events p @ [Saw pin (fst (pad_level pin p))]"
  "events (snd (timer p)) = events p @ [Clocked (fst (timer p))]"
  "events (snd (cycle_count p)) = events p @ [Counted (fst (cycle_count p))]"
  "events (delay_us n p) = events p @ [Waited_us n]" "events (delay_ticks n p) = events p @ [Waited_ticks n]"
  "events (snd (pin_output pin p)) = events p @ [Configured_out pin (fst (pin_output pin p))]"
  "events (snd (pin_input_up pin p)) = events p @ [Configured_in pin (fst (pin_input_up pin p))]"
  by (simp_all add: happen_def pad_write_def pad_level_def timer_def cycle_count_def delay_us_def delay_ticks_def
      pin_output_def pin_input_up_def Let_def)

text \<open>The level a pin is left at: driven, or pulled once it is released. A reset of a pin leaves its
  pull-up on.\<close>

fun resting :: "int \<Rightarrow> pad_event \<Rightarrow> bool option \<Rightarrow> bool option" where
  "resting pin (Wrote q l) r = (if q = pin then Some l else r)"
| "resting pin (Was_reset q) r = (if q = pin then Some True else r)"
| "resting pin (Pulled_down q) r = (if q = pin then Some False else r)"
| "resting pin _ r = r"

definition rests_at :: "int \<Rightarrow> pad_event list \<Rightarrow> bool option" where
  "rests_at pin evs = fold (resting pin) evs None"

lemma rests_at_append: "rests_at pin (evs @ t) = fold (resting pin) t (rests_at pin evs)"
  by (simp add: rests_at_def)

lemma rests_at_snoc [simp]: "rests_at pin (evs @ [x]) = resting pin x (rests_at pin evs)"
  by (simp add: rests_at_append)

end
