(* ===== verification/Hx711.thy ===== *)
theory Hx711
  imports Pads Batch
begin

unbundle bit_operations_syntax

text \<open>
  The HX711 converter of \<open>hx711/src/hx711.c\<close>: two pins, no bus. A conversion is clocked out
  bit by bit with interrupts masked, the number of pulses chooses channel and gain of the next one, and
  a clock held high too long resets the part. The pins are those of \<open>Pads\<close>; doubles are the
  record of \<open>Floating\<close>. A call that checks pointers for NULL takes \<open>args\<close>.
\<close>

section \<open>Modes\<close>

definition HX711_MODE_A128 :: int where "HX711_MODE_A128 = 0"
definition HX711_MODE_B32 :: int where "HX711_MODE_B32 = 1"
definition HX711_MODE_A64 :: int where "HX711_MODE_A64 = 2"
definition HX711_CHANNEL_A :: int where "HX711_CHANNEL_A = 0"
definition HX711_CHANNEL_B :: int where "HX711_CHANNEL_B = 1"
definition HX711_PULSES_A128 :: nat where "HX711_PULSES_A128 = 25"
definition HX711_PULSES_B32 :: nat where "HX711_PULSES_B32 = 26"
definition HX711_PULSES_A64 :: nat where "HX711_PULSES_A64 = 27"

lemmas hx_modes = HX711_MODE_A128_def HX711_MODE_B32_def HX711_MODE_A64_def

definition mode_table :: "(nat \<times> int \<times> int) list" where
  "mode_table =
    [(HX711_PULSES_A128, HX711_CHANNEL_A, 128), (HX711_PULSES_B32, HX711_CHANNEL_B, 32),
     (HX711_PULSES_A64, HX711_CHANNEL_A, 64)]"

definition hx711_modes :: "int list" where
  "hx711_modes = [HX711_MODE_A128, HX711_MODE_B32, HX711_MODE_A64]"

definition mode_valid :: "int \<Rightarrow> bool" where
  "mode_valid m \<longleftrightarrow> m = HX711_MODE_A128 \<or> m = HX711_MODE_B32 \<or> m = HX711_MODE_A64"

definition hx711_mode_pulses :: "int \<Rightarrow> int" where
  "hx711_mode_pulses m = (if mode_valid m then int (fst (mode_table ! nat m)) else -1)"

definition hx711_mode_gain :: "int \<Rightarrow> int" where
  "hx711_mode_gain m = (if mode_valid m then snd (snd (mode_table ! nat m)) else -1)"

definition hx711_mode_channel :: "int \<Rightarrow> int" where
  "hx711_mode_channel m = (if mode_valid m then fst (snd (mode_table ! nat m)) else HX711_CHANNEL_A)"

definition hx711_mode_from_gain :: "bool \<Rightarrow> int \<Rightarrow> esp_err_t \<times> int option" where
  "hx711_mode_from_gain args gain =
    (if \<not> args then (ESP_ERR_INVALID_ARG, None)
     else case filter (\<lambda>m. snd (snd (mode_table ! nat m)) = gain) hx711_modes of
       [] \<Rightarrow> (ESP_ERR_INVALID_ARG, None)
     | m # ms \<Rightarrow> (ESP_OK, Some m))"

datatype hx711_rate_t = HX711_RATE_UNKNOWN | HX711_RATE_10SPS | HX711_RATE_80SPS

definition hx711_rate_classify :: "'d fp \<Rightarrow> 'd \<Rightarrow> hx711_rate_t" where
  "hx711_rate_classify fp sps =
    (if fp_le fp (fp_lit fp 6) sps \<and> fp_le fp sps (fp_lit fp 16) then HX711_RATE_10SPS
     else if fp_le fp (fp_lit fp 48) sps \<and> fp_le fp sps (fp_lit fp 130) then HX711_RATE_80SPS
     else HX711_RATE_UNKNOWN)"

definition hx711_rate_input_noise_nv :: "hx711_rate_t \<Rightarrow> int" where
  "hx711_rate_input_noise_nv r =
    (case r of HX711_RATE_10SPS \<Rightarrow> 50 | HX711_RATE_80SPS \<Rightarrow> 90 | HX711_RATE_UNKNOWN \<Rightarrow> -1)"

section \<open>The handle\<close>

definition HX711_FULL_SCALE :: int where "HX711_FULL_SCALE = 8388608"
definition HX711_DATA_BITS :: nat where "HX711_DATA_BITS = 24"
definition HX711_T3_MAX_US :: "32 word" where "HX711_T3_MAX_US = 50"
definition HX711_SETTLING_CONVERSIONS :: nat where "HX711_SETTLING_CONVERSIONS = 4"
definition HX711_STALE_CONVERSIONS :: nat where "HX711_STALE_CONVERSIONS = 1"
definition HX711_SCK_HIGH_US :: nat where "HX711_SCK_HIGH_US = 1"
definition HX711_SCK_LOW_US :: nat where "HX711_SCK_LOW_US = 1"
definition HX711_POWERDOWN_HOLD_US :: nat where "HX711_POWERDOWN_HOLD_US = 100"
definition HX711_READY_TIMEOUT_MS :: nat where "HX711_READY_TIMEOUT_MS = 1000"
definition HX711_READY_POLL_US :: nat where "HX711_READY_POLL_US = 20"
definition RATE_MIN_CONVERSIONS :: nat where "RATE_MIN_CONVERSIONS = 4"
definition RATE_MAX_CONVERSIONS :: nat where "RATE_MAX_CONVERSIONS = 16"
definition RATE_BUDGET_US :: int where "RATE_BUDGET_US = 300000"

record 'd hx_scale =
  tare_counts :: int
  tare_stderr :: 'd
  tare_samples :: int
  counts_per_unit :: 'd
  calibrated :: bool
  supplied :: bool

record 'd hx =
  ready :: bool
  powered_down :: bool
  dout_pin :: int
  sck_pin :: int
  mode :: int
  last_a_mode :: int
  scale :: "'d hx_scale"
  measured_sps :: 'd
  worst_high_us :: "32 word"
  stretched_bursts :: "32 word"
  pads :: pads

definition zero_scale :: "'d fp \<Rightarrow> 'd hx_scale" where
  "zero_scale fp = \<lparr>tare_counts = 0, tare_stderr = fp_zero fp, tare_samples = 0,
     counts_per_unit = fp_zero fp, calibrated = False, supplied = False\<rparr>"

section \<open>One conversion\<close>

definition cycles_to_us :: "pad_world \<Rightarrow> 32 word \<Rightarrow> 32 word" where
  "cycles_to_us w cycles =
    (let hz = cpu_hz w in if hz = 0 then 0 else word_of_nat (unat cycles * 1000000 div unat hz))"

text \<open>Each turn of the waiting loop takes time, so it ends.\<close>

function wait_loop :: "bool \<Rightarrow> int \<Rightarrow> int \<Rightarrow> pads \<Rightarrow> esp_err_t \<times> pads" where
  "wait_loop precise deadline pin p =
    (if \<not> fst (pad_level pin p) then (ESP_OK, snd (pad_level pin p))
     else
       let (t, p) = timer (snd (pad_level pin p)) in
       if t > deadline then (ESP_ERR_TIMEOUT, p)
       else wait_loop precise deadline pin
              (if precise then delay_us HX711_READY_POLL_US p
               else delay_ticks (ms_to_ticks 1 (world p) + 1) p))"
  by pat_completeness auto
termination
proof (relation "measure (\<lambda>(precise, deadline, pin, p). nat (deadline + 1 - now p))", simp)
  fix precise deadline pin p x t q
  assume "\<not> \<not> fst (pad_level pin p)" and x: "x = timer (snd (pad_level pin p))" and tq: "(t, q) = x"
    and t: "\<not> t > deadline"
  have q: "now p \<le> t" "t \<le> now q"
    using x tq time_goes_on(3) [of p pin] time_goes_on(4) [of "snd (pad_level pin p)"] by (auto simp: timer_def)
  have "now q < now (if precise then delay_us HX711_READY_POLL_US q
               else delay_ticks (ms_to_ticks 1 (world q) + 1) q)"
    using delays_last(1) [of q HX711_READY_POLL_US] delays_last(2) [of "ms_to_ticks 1 (world q) + 1" q]
    by (auto simp: HX711_READY_POLL_US_def simp del: delays_last)
  then show "((precise, deadline, pin, if precise then delay_us HX711_READY_POLL_US q
               else delay_ticks (ms_to_ticks 1 (world q) + 1) q), (precise, deadline, pin, p))
       \<in> measure (\<lambda>(precise, deadline, pin, p). nat (deadline + 1 - now p))"
    using q t by simp
qed

declare wait_loop.simps [simp del]

definition wait_ready :: "nat \<Rightarrow> bool \<Rightarrow> 'd hx \<Rightarrow> esp_err_t \<times> 'd hx" where
  "wait_ready timeout_ms precise h =
    (let (t, p) = timer (pads h);
         (e, p) = wait_loop precise (t + int timeout_ms * 1000) (dout_pin h) p in
     (e, h\<lparr>pads := p\<rparr>))"

text \<open>One pulse, the \<open>i\<close>-th: the bits so far, the longest high phase, the pins. Then the loop
  from pulse \<open>i\<close> on: \<open>left\<close> pulses are to come.\<close>

definition clock_pulse :: "int \<Rightarrow> int \<Rightarrow> nat \<Rightarrow> 32 word \<times> 32 word \<times> pads \<Rightarrow> 32 word \<times> 32 word \<times> pads" where
  "clock_pulse dout sck i = (\<lambda>(bits, worst, p).
     let p = pad_write sck True p; (rise, p) = cycle_count p; p = delay_us HX711_SCK_HIGH_US p;
         (level, p) = pad_level dout p; (fall, p) = cycle_count p; p = pad_write sck False p;
         held = fall - rise
     in (if i < HX711_DATA_BITS then push_bit 1 bits OR (if level then 1 else 0) else bits,
         if held > worst then held else worst,
         delay_us HX711_SCK_LOW_US p))"

fun burst_loop :: "int \<Rightarrow> int \<Rightarrow> nat \<Rightarrow> nat \<Rightarrow> 32 word \<times> 32 word \<times> pads \<Rightarrow> 32 word \<times> 32 word \<times> pads" where
  "burst_loop dout sck i 0 st = st"
| "burst_loop dout sck i (Suc left) st = burst_loop dout sck (i + 1) left (clock_pulse dout sck i st)"

text \<open>The value, the longest high phase in cycles, the level afterwards.\<close>

definition clock_burst :: "int \<Rightarrow> int \<Rightarrow> nat \<Rightarrow> pads \<Rightarrow> 32 word \<times> 32 word \<times> bool \<times> pads" where
  "clock_burst dout sck pulses p =
    (let (bits, worst, p) = burst_loop dout sck 0 pulses (0, 0, happen Masked p);
         (after, p) = pad_level dout p
     in (bits, worst, after, happen Unmasked p))"

text \<open>A burst with the handle's pulses, and its longest phase noted.\<close>

definition noted_burst :: "'d hx \<Rightarrow> 32 word \<times> 32 word \<times> bool \<times> 'd hx" where
  "noted_burst h =
    (let (raw, worst, after, p) = clock_burst (dout_pin h) (sck_pin h) (fst (mode_table ! nat (mode h))) (pads h);
         worst_us = cycles_to_us (world p) worst
     in (raw, worst_us, after,
         h\<lparr>pads := p, worst_high_us := (if worst_us > worst_high_us h then worst_us else worst_high_us h)\<rparr>))"

definition read_one :: "'d hx \<Rightarrow> esp_err_t \<times> int \<times> 'd hx" where
  "read_one h =
    (let (e, h) = wait_ready HX711_READY_TIMEOUT_MS False h in
     if e \<noteq> ESP_OK then (e, 0, h)
     else
       let (raw, worst_us, after, h) = noted_burst h in
       if worst_us > HX711_T3_MAX_US
       then (ESP_ERR_HX711_CLOCK_STRETCHED, 0, h\<lparr>stretched_bursts := stretched_bursts h + 1\<rparr>)
       else if \<not> after then (ESP_ERR_HX711_NO_CLOCK, 0, h)
       else (ESP_OK, sign24 raw, h))"

definition require_ready :: "bool \<Rightarrow> 'd hx \<Rightarrow> esp_err_t" where
  "require_ready args h =
    (if \<not> args then ESP_ERR_INVALID_ARG
     else if \<not> ready h \<or> powered_down h then ESP_ERR_INVALID_STATE else ESP_OK)"

text \<open>Where a call has an output pointer besides the handle, \<open>out\<close> says that it is there.\<close>

definition hx711_read_raw :: "bool \<Rightarrow> bool \<Rightarrow> 'd hx \<Rightarrow> esp_err_t \<times> int \<times> 'd hx" where
  "hx711_read_raw args out h =
    (if require_ready args h \<noteq> ESP_OK then (require_ready args h, 0, h)
     else if \<not> out then (ESP_ERR_INVALID_ARG, 0, h) else read_one h)"

fun discard_conversions :: "nat \<Rightarrow> 'd hx \<Rightarrow> esp_err_t \<times> 'd hx" where
  "discard_conversions 0 h = (ESP_OK, h)"
| "discard_conversions (Suc n) h =
     (let (e, v, h) = read_one h in if e \<noteq> ESP_OK then (e, h) else discard_conversions n h)"

record 'd hx_stats =
  mean :: 'd
  stderr_mean :: 'd
  low_count :: int
  high_count :: int
  samples :: int
  saturated :: bool
  all_identical :: bool

definition zero_stats :: "'d fp \<Rightarrow> 'd hx_stats" where
  "zero_stats fp = \<lparr>mean = fp_zero fp, stderr_mean = fp_zero fp, low_count = 0, high_count = 0, samples = 0,
     saturated = False, all_identical = False\<rparr>"

definition hx711_priv_read_average ::
    "'d fp \<Rightarrow> bool \<Rightarrow> bool \<Rightarrow> int \<Rightarrow> 'd hx \<Rightarrow> esp_err_t \<times> 'd hx_stats option \<times> 'd hx" where
  "hx711_priv_read_average fp args out n h =
    (if require_ready args h \<noteq> ESP_OK then (require_ready args h, None, h)
     else if \<not> out \<or> n < 1 then (ESP_ERR_INVALID_ARG, None, h)
     else
       let (e, i, a, h) = sample_loop fp read_one (nat n) 0 (welford_start fp) h in
       if e \<noteq> ESP_OK then (e, Some ((zero_stats fp)\<lparr>samples := i\<rparr>), h)
       else
         let variance = (if n > 1 then fp_div fp (m2 a) (fp_of_int fp (n - 1)) else fp_zero fp);
             st = \<lparr>mean = fp_div fp (total a) (fp_of_int fp n),
                   stderr_mean = (if n > 1 then fp_sqrt fp (fp_div fp variance (fp_of_int fp n)) else fp_zero fp),
                   low_count = low a, high_count = high a, samples = n,
                   saturated = (low a \<le> - (HX711_FULL_SCALE - 1) \<or> high a \<ge> HX711_FULL_SCALE - 1),
                   all_identical = False\<rparr>
         in if n \<ge> 4 \<and> low a = high a
            then (ESP_ERR_HX711_STUCK_READING, Some (st\<lparr>all_identical := True\<rparr>), h)
            else (ESP_OK, Some st, h))"

definition hx711_read_average ::
    "'d fp \<Rightarrow> bool \<Rightarrow> bool \<Rightarrow> int \<Rightarrow> 'd hx \<Rightarrow> esp_err_t \<times> 'd hx_stats option \<times> 'd hx" where
  "hx711_read_average fp args out n h = hx711_priv_read_average fp args out n h"

section \<open>Changing the mode, measuring the rate\<close>

datatype hx711_stage_t =
    HX711_STAGE_NONE
  | HX711_STAGE_PINS
  | HX711_STAGE_CONFIGURE_SCK
  | HX711_STAGE_CONFIGURE_DOUT
  | HX711_STAGE_FIRST_READY
  | HX711_STAGE_SET_MODE
  | HX711_STAGE_MEASURE_RATE
  | HX711_STAGE_FIRST_READING
  | HX711_STAGE_SET_SCALE
  | HX711_STAGE_SETTLE

record hx_change =
  c_failed_stage :: hx711_stage_t
  c_mode :: int
  mode_changed :: bool
  discards :: nat
  settling_conversions :: nat
  scale_invalidated :: bool
  scale_was_supplied :: bool

definition zero_change :: hx_change where
  "zero_change = \<lparr>c_failed_stage = HX711_STAGE_NONE, c_mode = 0, mode_changed = False, discards = 0,
     settling_conversions = 0, scale_invalidated = False, scale_was_supplied = False\<rparr>"

definition note_mode :: "int \<Rightarrow> 'd hx \<Rightarrow> 'd hx" where
  "note_mode m h = (let h = h\<lparr>mode := m\<rparr> in
     if fst (snd (mode_table ! nat (mode h))) = HX711_CHANNEL_A then h\<lparr>last_a_mode := mode h\<rparr> else h)"

definition apply_mode :: "'d fp \<Rightarrow> int \<Rightarrow> hx_change option \<Rightarrow> 'd hx \<Rightarrow> esp_err_t \<times> hx_change option \<times> 'd hx" where
  "apply_mode fp requested rep h =
    (let changed = (requested \<noteq> mode h \<or> \<not> ready h);
         h = note_mode requested h;
         n = HX711_STALE_CONVERSIONS + HX711_SETTLING_CONVERSIONS;
         rep = map_option (\<lambda>r. \<lparr>c_failed_stage = HX711_STAGE_NONE, c_mode = mode h, mode_changed = changed,
                  discards = n, settling_conversions = HX711_SETTLING_CONVERSIONS,
                  scale_invalidated = (changed \<and> calibrated (scale h)),
                  scale_was_supplied = supplied (scale h)\<rparr>) rep;
         (e, h) = discard_conversions n h in
     if e \<noteq> ESP_OK then (e, map_option (\<lambda>r. r\<lparr>c_failed_stage := HX711_STAGE_SETTLE\<rparr>) rep, h)
     else (ESP_OK, rep, if changed then h\<lparr>scale := zero_scale fp\<rparr> else h))"

text \<open>The timing loop: \<open>left\<close> conversions may still be taken.\<close>

fun rate_loop :: "int \<Rightarrow> nat \<Rightarrow> nat \<Rightarrow> 'd hx \<Rightarrow> esp_err_t \<times> nat \<times> 'd hx" where
  "rate_loop start 0 count h = (ESP_OK, count, h)"
| "rate_loop start (Suc left) count h =
     (let (go, h) = (if count < RATE_MIN_CONVERSIONS then (True, h)
                     else let (t, p) = timer (pads h) in (t - start < RATE_BUDGET_US, h\<lparr>pads := p\<rparr>)) in
      if \<not> go then (ESP_OK, count, h)
      else
        let (e, h) = wait_ready HX711_READY_TIMEOUT_MS True h in
        if e \<noteq> ESP_OK then (e, count, h)
        else let (raw, worst_us, after, h) = noted_burst h in rate_loop start left (count + 1) h)"

definition hx711_measure_rate :: "'d fp \<Rightarrow> bool \<Rightarrow> bool \<Rightarrow> 'd hx \<Rightarrow> esp_err_t \<times> 'd option \<times> 'd hx" where
  "hx711_measure_rate fp args out h =
    (if require_ready args h \<noteq> ESP_OK then (require_ready args h, None, h)
     else if \<not> out then (ESP_ERR_INVALID_ARG, None, h)
     else
       let (e, h) = discard_conversions 1 h in
       if e \<noteq> ESP_OK then (e, None, h)
       else
         let (start, p) = timer (pads h);
             (e, count, h) = rate_loop start RATE_MAX_CONVERSIONS 0 (h\<lparr>pads := p\<rparr>) in
         if e \<noteq> ESP_OK then (e, None, h)
         else
           let (t, p) = timer (pads h); h = h\<lparr>pads := p\<rparr>; elapsed = t - start in
           if elapsed \<le> 0 \<or> count = 0 then (ESP_FAIL, None, h)
           else
             let sps = fp_div fp (fp_mul fp (fp_of_int fp (int count)) (fp_lit fp 1000000)) (fp_of_int fp elapsed)
             in (ESP_OK, Some sps, h\<lparr>measured_sps := sps\<rparr>))"

section \<open>Lifecycle\<close>

text \<open>\<open>p\<close>: the pins as the handle is made; creating one does not touch them.\<close>

definition hx711_create :: "'d fp \<Rightarrow> bool \<Rightarrow> bool \<Rightarrow> int \<Rightarrow> int \<Rightarrow> pads \<Rightarrow> esp_err_t \<times> 'd hx option" where
  "hx711_create fp args calloc_ok dout sck p =
    (if \<not> args then (ESP_ERR_INVALID_ARG, None)
     else if \<not> calloc_ok then (ESP_ERR_NO_MEM, None)
     else (ESP_OK, Some \<lparr>ready = False, powered_down = False, dout_pin = dout, sck_pin = sck,
             mode = HX711_MODE_A128, last_a_mode = HX711_MODE_A128, scale = zero_scale fp,
             measured_sps = fp_zero fp, worst_high_us = 0, stretched_bursts = 0, pads = p\<rparr>))"

definition release_pins :: "'d hx \<Rightarrow> 'd hx" where
  "release_pins h =
    (let h = (if sck_pin h \<ge> 0
              then h\<lparr>pads := happen (Pulled_down (sck_pin h)) (happen (Pulled_up_off (sck_pin h))
                     (happen (Was_reset (sck_pin h)) (pads h)))\<rparr> else h);
         h = (if dout_pin h \<ge> 0 then h\<lparr>pads := happen (Was_reset (dout_pin h)) (pads h)\<rparr> else h)
     in h\<lparr>sck_pin := -1, dout_pin := -1\<rparr>)"

text \<open>What is left of the pins after the handle is freed.\<close>

definition hx711_delete :: "bool \<Rightarrow> 'd hx \<Rightarrow> esp_err_t \<times> pads" where
  "hx711_delete args h =
    (if \<not> args then (ESP_ERR_INVALID_ARG, pads h)
     else
       let h = (if ready h \<and> sck_pin h \<ge> 0 then h\<lparr>pads := pad_write (sck_pin h) False (pads h)\<rparr> else h)
       in (ESP_OK, pads (release_pins h)))"

definition hx711_is_ready :: "'d hx option \<Rightarrow> bool" where
  "hx711_is_ready h = (case h of None \<Rightarrow> False | Some h \<Rightarrow> ready h)"

definition hx711_is_powered_down :: "'d hx option \<Rightarrow> bool" where
  "hx711_is_powered_down h = (case h of None \<Rightarrow> False | Some h \<Rightarrow> powered_down h)"

definition hx711_worst_high_us :: "'d hx option \<Rightarrow> 32 word" where
  "hx711_worst_high_us h = (case h of None \<Rightarrow> 0 | Some h \<Rightarrow> worst_high_us h)"

definition hx711_set_scale :: "'d fp \<Rightarrow> bool \<Rightarrow> 'd \<Rightarrow> 'd hx \<Rightarrow> esp_err_t \<times> 'd hx" where
  "hx711_set_scale fp args c h =
    (if \<not> args then (ESP_ERR_INVALID_ARG, h)
     else if fp_eq fp c (fp_zero fp) \<or> \<not> fp_finite fp c then (ESP_ERR_INVALID_ARG, h)
     else if \<not> ready h then (ESP_ERR_INVALID_STATE, h)
     else (ESP_OK, h\<lparr>scale := (scale h)\<lparr>counts_per_unit := c, calibrated := True, supplied := True\<rparr>\<rparr>))"

record 'd hx_opts =
  o_mode :: int
  set_scale :: bool
  o_counts_per_unit :: 'd

record 'd hx_bringup =
  b_failed_stage :: hx711_stage_t
  b_dout_gpio :: int
  b_sck_gpio :: int
  b_mode :: int
  b_discards :: nat
  b_settling :: nat
  rate_measured :: bool
  b_sps :: 'd
  first_reading :: "'d hx_stats"
  scale_supplied :: bool

definition zero_bringup :: "'d fp \<Rightarrow> 'd hx_bringup" where
  "zero_bringup fp = \<lparr>b_failed_stage = HX711_STAGE_NONE, b_dout_gpio = 0, b_sck_gpio = 0, b_mode = 0,
     b_discards = 0, b_settling = 0, rate_measured = False, b_sps = fp_zero fp,
     first_reading = zero_stats fp, scale_supplied = False\<rparr>"

text \<open>The pins: \<open>PD_SCK\<close> is low before it is driven. With an error comes the stage.\<close>

definition claim_pins :: "'d hx \<Rightarrow> esp_err_t \<times> hx711_stage_t \<times> 'd hx" where
  "claim_pins h =
    (let p = pad_write (sck_pin h) False (pads h);
         (e, p) = pin_output (sck_pin h) p in
     if e \<noteq> ESP_OK then (e, HX711_STAGE_CONFIGURE_SCK, h\<lparr>pads := p\<rparr>)
     else
       let (e, p) = pin_input_up (dout_pin h) p in
       if e \<noteq> ESP_OK
       then (e, HX711_STAGE_CONFIGURE_DOUT, h\<lparr>pads := happen (Was_reset (sck_pin h)) p\<rparr>)
       else (ESP_OK, HX711_STAGE_NONE, h\<lparr>pads := p\<rparr>))"

definition power_cycle :: "'d fp \<Rightarrow> 'd hx \<Rightarrow> 'd hx" where
  "power_cycle fp h =
    (let p = pad_write (sck_pin h) True (pads h);
         p = delay_us HX711_POWERDOWN_HOLD_US p;
         p = pad_write (sck_pin h) False p
     in h\<lparr>ready := True, powered_down := False, mode := HX711_MODE_A128, last_a_mode := HX711_MODE_A128,
          scale := zero_scale fp, measured_sps := fp_zero fp, worst_high_us := 0, stretched_bursts := 0,
          pads := p\<rparr>)"

text \<open>The part has to answer: first it gets ready, then settles in its mode, then its rate is
  measured and a batch is taken; then the given factor comes into force. A failure disowns the part.\<close>

definition prove_part :: "'d fp \<Rightarrow> 'd hx_opts \<Rightarrow> 'd hx_bringup \<Rightarrow> 'd hx \<Rightarrow> esp_err_t \<times> 'd hx_bringup \<times> 'd hx" where
  "prove_part fp opts r h =
    (let disown = (\<lambda>e stage r h. (e, r\<lparr>b_failed_stage := stage\<rparr>, h\<lparr>ready := False\<rparr>));
         (e, h) = wait_ready HX711_READY_TIMEOUT_MS False h in
     if e \<noteq> ESP_OK then disown e HX711_STAGE_FIRST_READY r h
     else
       let (e, c, h) = apply_mode fp (o_mode opts) (Some zero_change) h;
           r = r\<lparr>b_mode := c_mode (the c), b_discards := discards (the c),
                 b_settling := settling_conversions (the c)\<rparr> in
       if e \<noteq> ESP_OK then disown e HX711_STAGE_SET_MODE r h
       else
         let (e, sps, h) = hx711_measure_rate fp True True h in
         if e \<noteq> ESP_OK then disown e HX711_STAGE_MEASURE_RATE r h
         else
           let r = r\<lparr>rate_measured := True, b_sps := the sps\<rparr>;
               (e, st, h) = hx711_priv_read_average fp True True 5 h;
               r = r\<lparr>first_reading := (case st of None \<Rightarrow> zero_stats fp | Some st \<Rightarrow> st)\<rparr> in
           if e \<noteq> ESP_OK then disown e HX711_STAGE_FIRST_READING r h
           else if set_scale opts then
             let (e, h) = hx711_set_scale fp True (o_counts_per_unit opts) h in
             if e \<noteq> ESP_OK then disown e HX711_STAGE_SET_SCALE r h
             else (ESP_OK, r\<lparr>scale_supplied := True\<rparr>, h)
           else (ESP_OK, r, h))"

text \<open>\<open>valid_in\<close> and \<open>valid_out\<close>: the pins of the chip. The report is filled whether the
  caller asks for it or not.\<close>

definition hx711_bring_up ::
    "'d fp \<Rightarrow> (int \<Rightarrow> bool) \<Rightarrow> (int \<Rightarrow> bool) \<Rightarrow> bool \<Rightarrow> 'd hx_opts option \<Rightarrow> 'd hx
       \<Rightarrow> esp_err_t \<times> 'd hx_bringup \<times> 'd hx" where
  "hx711_bring_up fp valid_in valid_out args opts h =
    (let opts = (case opts of None \<Rightarrow> \<lparr>o_mode = 0, set_scale = False, o_counts_per_unit = fp_zero fp\<rparr>
                 | Some x \<Rightarrow> x);
         r = zero_bringup fp in
     if \<not> args then (ESP_ERR_INVALID_ARG, r, h)
     else
       let r = r\<lparr>b_dout_gpio := dout_pin h, b_sck_gpio := sck_pin h\<rparr> in
       if \<not> valid_in (dout_pin h) \<or> \<not> valid_out (sck_pin h) \<or> dout_pin h = sck_pin h \<or> \<not> mode_valid (o_mode opts)
       then (ESP_ERR_INVALID_ARG, r\<lparr>b_failed_stage := HX711_STAGE_PINS\<rparr>, h)
       else
         let (e, stage, h) = claim_pins h in
         if e \<noteq> ESP_OK then (e, r\<lparr>b_failed_stage := stage\<rparr>, h)
         else prove_part fp opts r (power_cycle fp h))"

section \<open>Settings and power\<close>

definition hx711_get_mode :: "bool \<Rightarrow> 'd hx \<Rightarrow> esp_err_t \<times> int option" where
  "hx711_get_mode args h =
    (if \<not> args then (ESP_ERR_INVALID_ARG, None)
     else if \<not> ready h then (ESP_ERR_INVALID_STATE, None) else (ESP_OK, Some (mode h)))"

definition hx711_set_mode ::
    "'d fp \<Rightarrow> bool \<Rightarrow> int \<Rightarrow> hx_change option \<Rightarrow> 'd hx \<Rightarrow> esp_err_t \<times> hx_change option \<times> 'd hx" where
  "hx711_set_mode fp args m rep h =
    (let rep = map_option (\<lambda>r. zero_change) rep in
     if require_ready args h \<noteq> ESP_OK then (require_ready args h, rep, h)
     else if \<not> mode_valid m then (ESP_ERR_INVALID_ARG, rep, h)
     else apply_mode fp m rep h)"

definition hx711_set_channel ::
    "'d fp \<Rightarrow> bool \<Rightarrow> int \<Rightarrow> hx_change option \<Rightarrow> 'd hx \<Rightarrow> esp_err_t \<times> hx_change option \<times> 'd hx" where
  "hx711_set_channel fp args channel rep h =
    (let rep = map_option (\<lambda>r. zero_change) rep in
     if require_ready args h \<noteq> ESP_OK then (require_ready args h, rep, h)
     else if channel = HX711_CHANNEL_A then apply_mode fp (last_a_mode h) rep h
     else if channel = HX711_CHANNEL_B then apply_mode fp HX711_MODE_B32 rep h
     else (ESP_ERR_INVALID_ARG, rep, h))"

definition hx711_power_down :: "bool \<Rightarrow> 'd hx \<Rightarrow> esp_err_t \<times> 'd hx" where
  "hx711_power_down args h =
    (if \<not> args then (ESP_ERR_INVALID_ARG, h)
     else if \<not> ready h then (ESP_ERR_INVALID_STATE, h)
     else (ESP_OK, h\<lparr>pads := pad_write (sck_pin h) True (pads h), powered_down := True\<rparr>))"

definition hx711_power_up :: "'d fp \<Rightarrow> bool \<Rightarrow> hx_change option \<Rightarrow> 'd hx \<Rightarrow> esp_err_t \<times> hx_change option \<times> 'd hx" where
  "hx711_power_up fp args rep h =
    (let rep = map_option (\<lambda>r. zero_change) rep in
     if \<not> args then (ESP_ERR_INVALID_ARG, rep, h)
     else if \<not> ready h then (ESP_ERR_INVALID_STATE, rep, h)
     else
       let h = h\<lparr>pads := pad_write (sck_pin h) False (pads h), powered_down := False\<rparr>;
           (e, h) = wait_ready HX711_READY_TIMEOUT_MS False h in
       if e \<noteq> ESP_OK then (e, rep, h) else apply_mode fp (mode h) rep h)"

text \<open>A level that is not known is -1.\<close>

record 'd hx_status =
  s_ready :: bool
  s_dout_gpio :: int
  s_sck_gpio :: int
  s_dout_level :: int
  s_sck_level :: int
  s_powered_down :: bool
  s_mode :: int
  s_rate_measured :: bool
  s_sps :: 'd
  s_worst_high_us :: "32 word"
  s_stretched :: "32 word"
  s_scale :: "'d hx_scale"

definition hx711_get_status :: "'d fp \<Rightarrow> bool \<Rightarrow> 'd hx \<Rightarrow> esp_err_t \<times> 'd hx_status option \<times> 'd hx" where
  "hx711_get_status fp args h =
    (if \<not> args then (ESP_ERR_INVALID_ARG, None, h)
     else
       let (dl, p) = (if \<not> ready h \<or> powered_down h then (-1, pads h)
                      else let (l, p) = pad_level (dout_pin h) (pads h) in (of_bool l, p));
           (sl, p) = (if ready h then let (l, p) = pad_level (sck_pin h) p in (of_bool l, p) else (-1, p))
       in (ESP_OK,
           Some \<lparr>s_ready = ready h, s_dout_gpio = dout_pin h, s_sck_gpio = sck_pin h, s_dout_level = dl,
                 s_sck_level = sl, s_powered_down = powered_down h, s_mode = mode h,
                 s_rate_measured = fp_less fp (fp_zero fp) (measured_sps h), s_sps = measured_sps h,
                 s_worst_high_us = worst_high_us h, s_stretched = stretched_bursts h, s_scale = scale h\<rparr>,
           h\<lparr>pads := p\<rparr>))"

section \<open>Tare, calibration, weighing\<close>

definition hx711_reset_scale :: "'d fp \<Rightarrow> 'd hx option \<Rightarrow> 'd hx option" where
  "hx711_reset_scale fp h = map_option (\<lambda>h. h\<lparr>scale := zero_scale fp\<rparr>) h"

definition hx711_get_scale :: "'d hx option \<Rightarrow> 'd hx_scale option" where
  "hx711_get_scale h = map_option scale h"

definition hx711_tare :: "'d fp \<Rightarrow> bool \<Rightarrow> int \<Rightarrow> 'd hx \<Rightarrow> esp_err_t \<times> 'd hx_stats option \<times> 'd hx" where
  "hx711_tare fp args n h =
    (if \<not> args then (ESP_ERR_INVALID_ARG, None, h)
     else
       let (e, st, h) = hx711_priv_read_average fp True True n h in
       if e \<noteq> ESP_OK then (e, st, h)
       else (ESP_OK, st, h\<lparr>scale := (scale h)\<lparr>tare_counts := fp_trunc fp (mean (the st)),
                                    tare_stderr := stderr_mean (the st), tare_samples := n\<rparr>\<rparr>))"

record 'd hx_calibration =
  cal_net_counts :: 'd
  cal_uncertainty :: 'd
  cal_counts_per_unit :: 'd
  precision_percent :: 'd
  cal_mode :: int

definition HX711_CALIBRATION_SIGMA :: "'d fp \<Rightarrow> 'd" where "HX711_CALIBRATION_SIGMA fp = fp_lit fp 10"

definition hx711_calibrate ::
    "'d fp \<Rightarrow> bool \<Rightarrow> 'd \<Rightarrow> int \<Rightarrow> 'd hx \<Rightarrow> esp_err_t \<times> 'd hx_stats option \<times> 'd hx_calibration option \<times> 'd hx" where
  "hx711_calibrate fp args known_mass n h =
    (if \<not> args \<or> fp_eq fp known_mass (fp_zero fp) \<or> \<not> fp_finite fp known_mass
     then (ESP_ERR_INVALID_ARG, None, None, h)
     else
       let z = fp_zero fp;
           r = \<lparr>cal_net_counts = z, cal_uncertainty = z, cal_counts_per_unit = z, precision_percent = z,
                cal_mode = mode h\<rparr>;
           (e, st, h) = hx711_priv_read_average fp True True n h in
       if e \<noteq> ESP_OK then (e, st, Some r, h)
       else
         let net = fp_sub fp (mean (the st)) (fp_of_int fp (tare_counts (scale h)));
             r = r\<lparr>cal_net_counts := net\<rparr> in
         if n < 2 \<or> tare_samples (scale h) < 2 then (ESP_ERR_HX711_TOO_FEW_SAMPLES, st, Some r, h)
         else
           let unc = fp_hypot fp (stderr_mean (the st)) (tare_stderr (scale h));
               r = r\<lparr>cal_uncertainty := unc\<rparr> in
           if fp_less fp (fp_abs fp net) (fp_mul fp (HX711_CALIBRATION_SIGMA fp) unc)
           then (ESP_ERR_HX711_WITHIN_NOISE, st, Some r, h)
           else
             let c = fp_div fp net known_mass in
             (ESP_OK, st,
              Some (r\<lparr>cal_counts_per_unit := c,
                      precision_percent := fp_div fp (fp_mul fp (fp_lit fp 100) unc) (fp_abs fp net)\<rparr>),
              h\<lparr>scale := (scale h)\<lparr>counts_per_unit := c, calibrated := True, supplied := False\<rparr>\<rparr>))"

record 'd hx_weight =
  w_units :: 'd
  w_uncertainty :: 'd
  w_spread :: 'd
  w_net_counts :: 'd
  w_tare_taken :: bool

definition hx711_stats_to_weight :: "'d fp \<Rightarrow> bool \<Rightarrow> 'd hx_stats \<Rightarrow> 'd hx \<Rightarrow> esp_err_t \<times> 'd hx_weight option" where
  "hx711_stats_to_weight fp args st h =
    (if \<not> args then (ESP_ERR_INVALID_ARG, None)
     else if \<not> calibrated (scale h) then (ESP_ERR_INVALID_STATE, None)
     else
       let net = fp_sub fp (mean st) (fp_of_int fp (tare_counts (scale h)));
           magnitude = fp_abs fp (counts_per_unit (scale h)) in
       (ESP_OK, Some \<lparr>w_units = fp_div fp net (counts_per_unit (scale h)),
          w_uncertainty = (if samples st > 1
             then fp_div fp (fp_hypot fp (stderr_mean st) (tare_stderr (scale h))) magnitude else fp_zero fp),
          w_spread = fp_div fp (fp_of_int fp (high_count st - low_count st)) magnitude,
          w_net_counts = net, w_tare_taken = (tare_samples (scale h) > 0)\<rparr>))"

definition hx711_weigh ::
    "'d fp \<Rightarrow> bool \<Rightarrow> int \<Rightarrow> 'd hx \<Rightarrow> esp_err_t \<times> 'd hx_stats option \<times> 'd hx_weight option \<times> 'd hx" where
  "hx711_weigh fp args n h =
    (if \<not> args then (ESP_ERR_INVALID_ARG, None, None, h)
     else if \<not> calibrated (scale h) then (ESP_ERR_INVALID_STATE, None, None, h)
     else
       let (e, st, h) = hx711_priv_read_average fp True True n h in
       if e \<noteq> ESP_OK then (e, st, None, h)
       else let (e, w) = hx711_stats_to_weight fp True (the st) h in (e, st, w, h))"

end
