(* ===== verification/Hx711_Reading.thy ===== *)
theory Hx711_Reading
  imports Hx711
begin

unbundle bit_operations_syntax

text \<open>
  What a conversion of the HX711 is: one burst on the clock line, its 24 first levels the number.
\<close>

section \<open>Bursts\<close>

text \<open>A pulse: the cycle counts around its high phase, and the level seen at the end of it.\<close>

type_synonym pulse = "32 word \<times> bool \<times> 32 word"

definition held :: "pulse \<Rightarrow> 32 word" where
  "held x = snd (snd x) - fst x"

definition level_at :: "pulse \<Rightarrow> bool" where
  "level_at x = fst (snd x)"

definition pulse_events :: "int \<Rightarrow> int \<Rightarrow> pulse \<Rightarrow> pad_event list" where
  "pulse_events dout sck x =
     [Wrote sck True, Counted (fst x), Waited_us 1, Saw dout (level_at x), Counted (snd (snd x)), Wrote sck False,
      Waited_us 1]"

fun collect :: "nat \<Rightarrow> pulse list \<Rightarrow> 32 word \<Rightarrow> 32 word" where
  "collect i [] bits = bits"
| "collect i (x # xs) bits =
     collect (i + 1) xs (if i < HX711_DATA_BITS then push_bit 1 bits OR (if level_at x then 1 else 0) else bits)"

lemma burst_loop_events:
  "burst_loop dout sck i left (bits, worst, p) = (bits', worst', p') \<Longrightarrow>
     \<exists>xs. length xs = left \<and> events p' = events p @ concat (map (pulse_events dout sck) xs) \<and> world p' = world p
        \<and> bits' = collect i xs bits \<and> worst \<le> worst' \<and> (\<forall>x \<in> set xs. held x \<le> worst')"
proof (induction left arbitrary: i bits worst p)
  case 0
  then show ?case by simp
next
  case (Suc left)
  obtain rise p2 where a: "cycle_count (pad_write sck True p) = (rise, p2)" by (metis surj_pair)
  obtain level p4 where b: "pad_level dout (delay_us 1 p2) = (level, p4)" by (metis surj_pair)
  obtain fall p5 where c: "cycle_count p4 = (fall, p5)" by (metis surj_pair)
  let ?x = "(rise, level, fall)"
  let ?q = "delay_us 1 (pad_write sck False p5)"
  have q: "events ?q = events p @ pulse_events dout sck ?x" "world ?q = world p"
    using a b c new_events(5) [of "pad_write sck True p"] new_events(3) [of dout "delay_us 1 p2"] new_events(5) [of p4]
      same_world(5) [of "pad_write sck True p"] same_world(3) [of dout "delay_us 1 p2"] same_world(5) [of p4]
    by (simp_all add: pulse_events_def level_at_def)
  let ?bits = "if i < HX711_DATA_BITS then push_bit 1 bits OR (if level then 1 else 0) else bits"
  let ?w = "if fall - rise > worst then fall - rise else worst"
  have "burst_loop dout sck (i + 1) left (?bits, ?w, ?q) = (bits', worst', p')"
    using Suc.prems a b c by (simp add: clock_pulse_def Let_def HX711_SCK_HIGH_US_def HX711_SCK_LOW_US_def)
  from Suc.IH [OF this] obtain xs where xs: "length xs = left"
    "events p' = events ?q @ concat (map (pulse_events dout sck) xs)" "world p' = world ?q"
    "bits' = collect (i + 1) xs ?bits" "?w \<le> worst'" "\<forall>x \<in> set xs. held x \<le> worst'" by blast
  have "worst \<le> ?w" "held ?x \<le> ?w" by (auto simp: held_def)
  then have "worst \<le> worst'" "held ?x \<le> worst'" using xs(5) by (auto intro: order_trans)
  then show ?case
    using xs q by (intro exI [of _ "?x # xs"]) (simp add: level_at_def)
qed

text \<open>The number that levels spell, most significant first.\<close>

definition number :: "bool list \<Rightarrow> int" where
  "number ls = foldl (\<lambda>v l. 2 * v + of_bool l) 0 ls"

lemma number_snoc: "number (ls @ [l]) = 2 * number ls + of_bool l"
  by (simp add: number_def)

lemma number_range: "0 \<le> number ls \<and> number ls < 2 ^ length ls"
proof (induction ls rule: rev_induct)
  case Nil
  show ?case by (simp add: number_def)
qed (auto simp: number_snoc)

lemma shift_in:
  assumes "uint (b :: 32 word) < 2 ^ 31"
  shows "uint (push_bit 1 b OR (if l then 1 else 0)) = 2 * uint b + of_bool l"
proof -
  have "uint (push_bit 1 b) = 2 * uint b"
    using assms uint_mult_lem [of b 2] by (simp add: push_bit_eq_mult)
  moreover have "2 * x OR 1 = 2 * x + 1" for x :: int
    by (simp add: or_one_eq)
  ultimately show ?thesis by (simp add: unsigned_or_eq)
qed

lemma collect_late: "\<not> i < HX711_DATA_BITS \<Longrightarrow> collect i xs bits = bits"
  by (induction xs arbitrary: i) simp_all

lemma collect_number:
  "uint bits = number us \<Longrightarrow> length us = i \<Longrightarrow>
     uint (collect i xs bits) = number (us @ take (HX711_DATA_BITS - i) (map level_at xs))"
proof (induction xs arbitrary: i us bits)
  case (Cons x xs)
  show ?case
  proof (cases "i < HX711_DATA_BITS")
    case True
    have "number us < 2 ^ 31"
      using number_range [of us] Cons.prems(2) True power_strict_increasing_iff [of "2 :: int" i 31]
      by (fastforce simp: HX711_DATA_BITS_def)
    then have "uint (push_bit 1 bits OR (if level_at x then 1 else 0)) = number (us @ [level_at x])"
      using shift_in [of bits "level_at x"] Cons.prems(1) by (simp add: number_snoc)
    from Cons.IH [OF this, of "i + 1"] Cons.prems(2) True show ?thesis
      by (simp add: Suc_diff_Suc [symmetric])
  next
    case False
    then show ?thesis using Cons.prems(1) by (simp add: collect_late)
  qed
qed simp

section \<open>A reading\<close>

lemma clock_burst_events:
  assumes "clock_burst dout sck n p = (raw, worst, after, p')"
  shows "\<exists>xs. length xs = n
     \<and> events p' = events p @ Masked # concat (map (pulse_events dout sck) xs) @ [Saw dout after, Unmasked]
     \<and> world p' = world p \<and> uint raw = number (take HX711_DATA_BITS (map level_at xs))
     \<and> (\<forall>x \<in> set xs. held x \<le> worst)"
proof -
  obtain bits w q where b: "burst_loop dout sck 0 n (0, 0, happen Masked p) = (bits, w, q)" by (metis surj_pair)
  then have r: "raw = bits" "worst = w" "after = fst (pad_level dout q)" "p' = happen Unmasked (snd (pad_level dout q))"
    using assms by (simp_all add: clock_burst_def Let_def split_beta)
  from burst_loop_events [OF b] obtain xs where xs: "length xs = n"
    "events q = events (happen Masked p) @ concat (map (pulse_events dout sck) xs)"
    "world q = world (happen Masked p)" "bits = collect 0 xs 0" "\<forall>x \<in> set xs. held x \<le> w" by blast
  show ?thesis
    using xs collect_number [of 0 "[]" 0 xs] by (intro exI [of _ xs]) (simp add: r number_def)
qed

lemma wait_loop_frame:
  "world (snd (wait_loop precise deadline pin p)) = world p
   \<and> (\<exists>t. events (snd (wait_loop precise deadline pin p)) = events p @ t \<and> (\<forall>q l. Wrote q l \<notin> set t)
        \<and> Masked \<notin> set t \<and> (\<forall>q. Was_reset q \<notin> set t \<and> Pulled_down q \<notin> set t))"
proof (induction precise deadline pin p rule: wait_loop.induct)
  case (1 precise deadline pin p)
  obtain l p1 where a: "pad_level pin p = (l, p1)" by (metis surj_pair)
  obtain t p2 where b: "timer p1 = (t, p2)" by (metis surj_pair)
  let ?q = "if precise then delay_us HX711_READY_POLL_US p2 else delay_ticks (ms_to_ticks 1 (world p2) + 1) p2"
  have e: "events p1 = events p @ [Saw pin l]" "world p1 = world p" "events p2 = events p1 @ [Clocked t]" "world p2 = world p1"
    using new_events(3) [of pin p] new_events(4) [of p1] same_world(3) [of pin p] same_world(4) [of p1] a b by simp_all
  show ?case
  proof (cases "l \<and> \<not> t > deadline")
    case True
    then have w: "wait_loop precise deadline pin p = wait_loop precise deadline pin ?q"
      by (subst wait_loop.simps) (simp add: a b)
    have "world ?q = world p \<and> (\<exists>x. events ?q = events p @ [Saw pin l, Clocked t, x] \<and> (\<forall>q l. x \<noteq> Wrote q l)
        \<and> x \<noteq> Masked \<and> (\<forall>q. x \<noteq> Was_reset q \<and> x \<noteq> Pulled_down q))"
      using e by simp
    then obtain x where x: "world ?q = world p" "events ?q = events p @ [Saw pin l, Clocked t, x]"
      "\<forall>q l. x \<noteq> Wrote q l" "x \<noteq> Masked" "\<forall>q. x \<noteq> Was_reset q \<and> x \<noteq> Pulled_down q" by blast
    from 1 [of "(t, p2)" t p2] True a b obtain u where u: "world (snd (wait_loop precise deadline pin ?q)) = world ?q"
      "events (snd (wait_loop precise deadline pin ?q)) = events ?q @ u" "\<forall>q l. Wrote q l \<notin> set u" "Masked \<notin> set u"
      "\<forall>q. Was_reset q \<notin> set u \<and> Pulled_down q \<notin> set u" by auto
    show ?thesis
      unfolding w using x u by (intro conjI exI [of _ "[Saw pin l, Clocked t, x] @ u"]) auto
  next
    case False
    then show ?thesis using e by (subst (1 2) wait_loop.simps) (auto simp: a b)
  qed
qed

lemma wait_ready_at_once:
  assumes "\<not> fst (pad_level (dout_pin h) (snd (timer (pads h))))"
  shows "wait_ready ms precise h = (ESP_OK, h\<lparr>pads := snd (pad_level (dout_pin h) (snd (timer (pads h))))\<rparr>)"
  using assms by (simp add: wait_ready_def split_beta Let_def wait_loop.simps [of _ _ _ "snd (timer (pads h))"])

lemma wait_ready_too_late:
  assumes "fst (pad_level (dout_pin h) (snd (timer (pads h))))"
    and "fst (timer (snd (pad_level (dout_pin h) (snd (timer (pads h)))))) > now (pads h) + int ms * 1000"
  shows "wait_ready ms precise h
     = (ESP_ERR_TIMEOUT, h\<lparr>pads := snd (timer (snd (pad_level (dout_pin h) (snd (timer (pads h))))))\<rparr>)"
  using assms by (simp add: wait_ready_def split_beta Let_def wait_loop.simps [of _ _ _ "snd (timer (pads h))"])
    (simp add: timer_def)

lemma wait_ready_frame:
  assumes "wait_ready ms precise h = (e, h')"
  shows "\<exists>t. h' = h\<lparr>pads := pads h'\<rparr> \<and> world (pads h') = world (pads h) \<and> events (pads h') = events (pads h) @ t
     \<and> (\<forall>q l. Wrote q l \<notin> set t) \<and> Masked \<notin> set t \<and> (\<forall>q. Was_reset q \<notin> set t \<and> Pulled_down q \<notin> set t)"
proof -
  obtain t p where a: "timer (pads h) = (t, p)" by (metis surj_pair)
  have h': "h' = h\<lparr>pads := snd (wait_loop precise (t + int ms * 1000) (dout_pin h) p)\<rparr>"
    using assms by (simp add: wait_ready_def a Let_def split_beta)
  have "events p = events (pads h) @ [Clocked t]" "world p = world (pads h)"
    using new_events(4) [of "pads h"] same_world(4) [of "pads h"] a by simp_all
  then show ?thesis
    using wait_loop_frame [of precise "t + int ms * 1000" "dout_pin h" p] unfolding h'
    by (elim conjE exE) (rule exI [of _ "Clocked t # _"], auto)
qed

lemma noted_burst_events:
  assumes "noted_burst h = (raw, us, after, h')"
  shows "\<exists>xs worst. length xs = fst (mode_table ! nat (mode h))
     \<and> events (pads h') = events (pads h) @ Masked # concat (map (pulse_events (dout_pin h) (sck_pin h)) xs)
         @ [Saw (dout_pin h) after, Unmasked]
     \<and> world (pads h') = world (pads h) \<and> uint raw = number (take HX711_DATA_BITS (map level_at xs))
     \<and> (\<forall>x \<in> set xs. held x \<le> worst) \<and> us = cycles_to_us (world (pads h)) worst
     \<and> h' = h\<lparr>pads := pads h', worst_high_us := worst_high_us h'\<rparr>"
proof -
  obtain r w a p where b: "clock_burst (dout_pin h) (sck_pin h) (fst (mode_table ! nat (mode h))) (pads h) = (r, w, a, p)"
    by (metis surj_pair)
  from assms b have k: "raw = r" "us = cycles_to_us (world p) w" "after = a" "pads h' = p"
    "h' = h\<lparr>pads := pads h', worst_high_us := worst_high_us h'\<rparr>"
    by (auto simp: noted_burst_def Let_def)
  from clock_burst_events [OF b] obtain xs where xs: "length xs = fst (mode_table ! nat (mode h))"
    "events p = events (pads h) @ Masked # concat (map (pulse_events (dout_pin h) (sck_pin h)) xs)
         @ [Saw (dout_pin h) a, Unmasked]"
    "world p = world (pads h)" "uint r = number (take HX711_DATA_BITS (map level_at xs))"
    "\<forall>x \<in> set xs. held x \<le> w" by blast
  show ?thesis
    by (rule exI [of _ xs], rule exI [of _ w]) (use xs k in \<open>simp only: simp_thms\<close>)
qed

lemma read_one_ok:
  assumes "read_one h = (ESP_OK, v, h')"
  obtains g raw us where "wait_ready HX711_READY_TIMEOUT_MS False h = (ESP_OK, g)"
    "noted_burst g = (raw, us, True, h')" "us \<le> HX711_T3_MAX_US" "v = sign24 raw"
proof -
  obtain e g where a: "wait_ready HX711_READY_TIMEOUT_MS False h = (e, g)" by (metis surj_pair)
  obtain raw us after k where b: "noted_burst g = (raw, us, after, k)" by (metis surj_pair)
  show ?thesis
    using that [of g raw us] assms a b by (auto simp: read_one_def Let_def split: if_splits)
qed

lemma number_24: "number (take HX711_DATA_BITS ls) < 16777216"
  using number_range [of "take HX711_DATA_BITS ls"]
    power_increasing [of "length (take HX711_DATA_BITS ls)" 24 "2 :: int"]
  by (simp add: HX711_DATA_BITS_def)

lemma cycles_limit:
  assumes "cycles_to_us w c \<le> HX711_T3_MAX_US" "1000000 \<le> unat (cpu_hz w)" "x \<le> c"
  shows "unat x * 1000000 < 51 * unat (cpu_hz w)"
proof -
  let ?n = "unat c * 1000000 div unat (cpu_hz w)"
  have "?n \<le> unat c"
    using assms(2) by (metis div_le_mono2 div_mult_self_is_m less_le_trans mult_le_mono2 nonzero_mult_div_cancel_right zero_less_numeral zero_neq_numeral)
  moreover have "unat c < 4294967296"
    using unsigned_less [of c, where 'a = nat] by (simp del: unsigned_less)
  ultimately have "?n < 4294967296" by (rule le_less_trans)
  then have "unat (word_of_nat ?n :: 32 word) = ?n" by (simp add: unat_of_nat)
  moreover have "cpu_hz w \<noteq> 0" using assms(2) by auto
  ultimately have "?n < 51"
    using assms(1) by (simp add: cycles_to_us_def HX711_T3_MAX_US_def word_le_nat_alt Let_def)
  then have "unat c * 1000000 < 51 * unat (cpu_hz w)"
    using assms(2) by (simp add: div_less_iff_less_mult)
  then show ?thesis using assms(3) by (simp add: word_le_nat_alt)
qed

interpretation hx_conv: converter read_one
proof
  fix h v h'
  assume "read_one h = (ESP_OK, v, h')"
  then obtain g raw us where "noted_burst g = (raw, us, True, h')" "v = sign24 raw" by (rule read_one_ok)
  then show "- 8388608 \<le> v \<and> v < 8388608"
    using noted_burst_events number_24 sign24_range [of raw] by metis
qed

text \<open>C22. A reading is one undisturbed burst. When a conversion is read without an error, then after
  waiting without touching the clock line the driver made, with interrupts masked, exactly as many pulses
  as select the mode in force; every high phase it measured was shorter than 51 microseconds, so the
  part cannot have reset in between; the data line was high after the last pulse, which only the clock
  reaching the part causes; and the value is the one 24-bit two's complement number that the first 24
  levels spell.\<close>

theorem hx_reading_is_one_burst:
  assumes "read_one h = (ESP_OK, v, h')" "1000000 \<le> unat (cpu_hz (world (pads h)))"
  shows "\<exists>q xs. events (pads h') = events (pads h) @ q @ Masked
         # concat (map (pulse_events (dout_pin h) (sck_pin h)) xs) @ [Saw (dout_pin h) True, Unmasked]
     \<and> (\<forall>pin l. Wrote pin l \<notin> set q) \<and> Masked \<notin> set q
     \<and> length xs = fst (mode_table ! nat (mode h))
     \<and> (\<forall>x \<in> set xs. unat (held x) * 1000000 < 51 * unat (cpu_hz (world (pads h))))
     \<and> v mod 2 ^ 24 = number (take HX711_DATA_BITS (map level_at xs)) \<and> - (2 ^ 23) \<le> v \<and> v < 2 ^ 23"
proof -
  from assms(1) obtain g raw us where w: "wait_ready HX711_READY_TIMEOUT_MS False h = (ESP_OK, g)"
    and b: "noted_burst g = (raw, us, True, h')" and us: "us \<le> HX711_T3_MAX_US" and v: "v = sign24 raw"
    by (rule read_one_ok)
  from wait_ready_frame [OF w] obtain q where q: "g = h\<lparr>pads := pads g\<rparr>" "world (pads g) = world (pads h)"
    "events (pads g) = events (pads h) @ q" "\<forall>pin l. Wrote pin l \<notin> set q" "Masked \<notin> set q" by blast
  from q(1) have same: "dout_pin g = dout_pin h" "sck_pin g = sck_pin h" "mode g = mode h"
    by (metis hx.select_convs hx.surjective hx.update_convs(11))+
  from noted_burst_events [OF b] obtain xs worst where xs: "length xs = fst (mode_table ! nat (mode g))"
    "events (pads h') = events (pads g) @ Masked # concat (map (pulse_events (dout_pin g) (sck_pin g)) xs)
         @ [Saw (dout_pin g) True, Unmasked]"
    "uint raw = number (take HX711_DATA_BITS (map level_at xs))"
    "\<forall>x \<in> set xs. held x \<le> worst" "us = cycles_to_us (world (pads g)) worst" by blast
  have "\<forall>x \<in> set xs. unat (held x) * 1000000 < 51 * unat (cpu_hz (world (pads h)))"
    using cycles_limit [of "world (pads g)" worst] us xs(4,5) assms(2) by (simp add: q(2))
  moreover have "v mod 2 ^ 24 = uint raw"
  proof -
    have "uint raw < 16777216" using number_24 xs(3) by metis
    then show ?thesis
      using sign24_value [OF refl, of raw] uint_ge_0 [of raw] by (simp add: v mod_pos_pos_trivial)
  qed
  moreover have "- (2 ^ 23) \<le> v \<and> v < 2 ^ 23" using hx_conv.in_range [OF assms(1)] by simp
  ultimately show ?thesis
    using xs(1,2,3) q(3,4,5) by (intro exI [of _ q] exI [of _ xs]) (simp add: same)
qed

text \<open>A part that is ready, and whose data line is high from then on.\<close>

definition demo_world :: pad_world where
  "demo_world = \<lparr>line = (\<lambda>evs pin. Masked \<in> set evs), cycle = (\<lambda>evs. 0), config_result = (\<lambda>evs pin. ESP_OK),
     lag = (\<lambda>evs. 1), tick_hz = 100, cpu_hz = 160000000\<rparr>"

definition demo_hx :: "unit hx" where
  "demo_hx = \<lparr>ready = True, powered_down = False, dout_pin = 4, sck_pin = 5, mode = HX711_MODE_A128,
     last_a_mode = HX711_MODE_A128, scale = \<lparr>tare_counts = 0, tare_stderr = (), tare_samples = 0,
     counts_per_unit = (), calibrated = False, supplied = False\<rparr>, measured_sps = (), worst_high_us = 0,
     stretched_bursts = 0, pads = \<lparr>events = [], now = 0, world = demo_world\<rparr>\<rparr>"

lemma demo_waits: "wait_ready HX711_READY_TIMEOUT_MS False demo_hx = (ESP_OK, demo_hx\<lparr>pads :=
    \<lparr>events = [Clocked 0, Saw 4 False], now = 2, world = demo_world\<rparr>\<rparr>)"
  by (simp add: wait_ready_def wait_loop.simps timer_def pad_level_def happen_def demo_hx_def demo_world_def)

lemma demo_pulses:
  "world p = demo_world \<Longrightarrow> Masked \<in> set (events p) \<Longrightarrow> \<exists>b q. burst_loop d k i n (bits, 0, p) = (b, 0, q)
     \<and> world q = demo_world \<and> Masked \<in> set (events q)"
proof (induction n arbitrary: i bits p)
  case (Suc n)
  obtain b q where "clock_pulse d k i (bits, 0, p) = (b, 0, q)" "world q = demo_world" "Masked \<in> set (events q)"
    using Suc.prems by (simp add: clock_pulse_def cycle_count_def demo_world_def Let_def split_beta)
  then show ?case using Suc.IH [of q "i + 1" b] by simp
qed simp

lemma demo_reads: "\<exists>v. read_one demo_hx = (ESP_OK, v, snd (snd (read_one demo_hx)))"
proof -
  let ?p = "\<lparr>events = [Clocked 0, Saw 4 False], now = 2, world = demo_world\<rparr>"
  obtain b q where "burst_loop 4 5 0 25 (0, 0, happen Masked ?p) = (b, 0, q)" "world q = demo_world"
    "Masked \<in> set (events q)"
    using demo_pulses [of "happen Masked ?p" 4 5 0 25 0] by auto
  then have "\<exists>b q. clock_burst 4 5 25 ?p = (b, 0, True, q)"
    by (simp add: clock_burst_def pad_level_def demo_world_def)
  then have "\<exists>b k. noted_burst (demo_hx\<lparr>pads := ?p\<rparr>) = (b, 0, True, k)"
    by (auto simp: noted_burst_def demo_hx_def mode_table_def HX711_MODE_A128_def HX711_PULSES_A128_def
        cycles_to_us_def Let_def)
  then show ?thesis by (auto simp: read_one_def demo_waits Let_def)
qed

theorem hx_reading_is_one_burst_witness:
  "\<exists>q xs v. events (pads (snd (snd (read_one demo_hx)))) = q @ Masked
         # concat (map (pulse_events 4 5) xs) @ [Saw 4 True, Unmasked]
     \<and> length xs = 25 \<and> v mod 2 ^ 24 = number (take HX711_DATA_BITS (map level_at xs))
     \<and> fst (snd (read_one demo_hx)) = v"
proof -
  have "1000000 \<le> unat (cpu_hz (world (pads demo_hx)))" by (simp add: demo_hx_def demo_world_def)
  moreover obtain v where v: "read_one demo_hx = (ESP_OK, v, snd (snd (read_one demo_hx)))" using demo_reads ..
  ultimately obtain q xs where "events (pads (snd (snd (read_one demo_hx)))) = events (pads demo_hx) @ q @ Masked
         # concat (map (pulse_events (dout_pin demo_hx) (sck_pin demo_hx)) xs) @ [Saw (dout_pin demo_hx) True, Unmasked]"
    "length xs = fst (mode_table ! nat (mode demo_hx))" "v mod 2 ^ 24 = number (take HX711_DATA_BITS (map level_at xs))"
    using hx_reading_is_one_burst [of demo_hx v] by blast
  moreover have "fst (snd (read_one demo_hx)) = v" by (subst v) simp
  ultimately show ?thesis
    by (intro exI [of _ q] exI [of _ xs] exI [of _ v])
      (simp add: demo_hx_def mode_table_def HX711_MODE_A128_def HX711_PULSES_A128_def)
qed

end
