(* ===== verification/Hx711_Clock.thy ===== *)
theory Hx711_Clock
  imports Hx711_Reading
begin

text \<open>
  All the calls of the HX711 driver together: what they keep of the handle, where they leave the clock
  line, and what a failed change of mode leaves behind.
\<close>

section \<open>What reading keeps\<close>

definition clock_low :: "'d hx \<Rightarrow> bool" where
  "clock_low h \<longleftrightarrow> rests_at (sck_pin h) (events (pads h)) = Some False"

text \<open>\<open>kept h h'\<close>: the pins, the power state and the world are as before, and a clock that was low
  is low. \<open>reads\<close>: so are the settings.\<close>

definition kept :: "'d hx \<Rightarrow> 'd hx \<Rightarrow> bool" where
  "kept h h' \<longleftrightarrow> ready h' = ready h \<and> powered_down h' = powered_down h \<and> sck_pin h' = sck_pin h
     \<and> dout_pin h' = dout_pin h \<and> world (pads h') = world (pads h) \<and> (clock_low h \<longrightarrow> clock_low h')"

definition reads :: "'d hx \<Rightarrow> 'd hx \<Rightarrow> bool" where
  "reads h h' \<longleftrightarrow> kept h h' \<and> mode h' = mode h \<and> last_a_mode h' = last_a_mode h \<and> scale h' = scale h"

lemma kept_refl [simp]: "kept h h" and reads_refl [simp]: "reads h h"
  by (simp_all add: kept_def reads_def)

lemma kept_trans: "kept a b \<Longrightarrow> kept b c \<Longrightarrow> kept a c"
  by (simp add: kept_def)

lemma reads_trans: "reads a b \<Longrightarrow> reads b c \<Longrightarrow> reads a c"
  by (auto simp: reads_def intro: kept_trans)

lemma rests_at_quiet:
  "\<forall>q l. Wrote q l \<notin> set t \<Longrightarrow> \<forall>q. Was_reset q \<notin> set t \<and> Pulled_down q \<notin> set t \<Longrightarrow>
     rests_at pin (evs @ t) = rests_at pin evs"
proof (induction t rule: rev_induct)
  case (snoc x t)
  then have "rests_at pin (evs @ t) = rests_at pin evs" by auto
  moreover have "resting pin x r = r" for r using snoc.prems by (cases x) auto
  ultimately show ?case by (simp flip: append_assoc)
qed simp

lemma rests_at_burst:
  "rests_at sck evs = Some False \<Longrightarrow>
     rests_at sck (evs @ Masked # concat (map (pulse_events dout sck) xs) @ [Saw dout l, Unmasked]) = Some False"
proof -
  have "fold (resting sck) (concat (map (pulse_events dout sck) xs)) (Some False) = Some False"
    by (induction xs) (simp_all add: pulse_events_def)
  then show "rests_at sck evs = Some False \<Longrightarrow>
     rests_at sck (evs @ Masked # concat (map (pulse_events dout sck) xs) @ [Saw dout l, Unmasked]) = Some False"
    by (simp add: rests_at_def)
qed

lemma reads_wait: "reads h (snd (wait_ready ms precise h))"
proof -
  obtain e h' where w: "wait_ready ms precise h = (e, h')" by (metis surj_pair)
  from wait_ready_frame [OF w] obtain t where "h' = h\<lparr>pads := pads h'\<rparr>" "world (pads h') = world (pads h)"
    "events (pads h') = events (pads h) @ t" "\<forall>q l. Wrote q l \<notin> set t"
    "\<forall>q. Was_reset q \<notin> set t \<and> Pulled_down q \<notin> set t" by blast
  moreover have "f h' = f (h\<lparr>pads := pads h'\<rparr>)" for f :: "'a hx \<Rightarrow> 'b" using calculation(1) by simp
  ultimately show ?thesis
    using rests_at_quiet [of t]
    by (simp add: w reads_def kept_def clock_low_def) (metis hx.select_convs hx.surjective hx.update_convs(11))
qed

lemma reads_burst: "reads h (snd (snd (snd (noted_burst h))))"
proof -
  obtain raw us after h' where b: "noted_burst h = (raw, us, after, h')" by (metis surj_pair)
  from noted_burst_events [OF b] obtain xs where "events (pads h') = events (pads h)
       @ Masked # concat (map (pulse_events (dout_pin h) (sck_pin h)) xs) @ [Saw (dout_pin h) after, Unmasked]"
    "world (pads h') = world (pads h)" and k: "h' = h\<lparr>pads := pads h', worst_high_us := worst_high_us h'\<rparr>" by blast
  moreover have "ready h' = ready h" "powered_down h' = powered_down h" "sck_pin h' = sck_pin h" "dout_pin h' = dout_pin h"
    "mode h' = mode h" "last_a_mode h' = last_a_mode h" "scale h' = scale h"
    by (simp_all add: arg_cong [OF k, of ready] arg_cong [OF k, of powered_down] arg_cong [OF k, of sck_pin]
        arg_cong [OF k, of dout_pin] arg_cong [OF k, of mode] arg_cong [OF k, of last_a_mode] arg_cong [OF k, of scale])
  ultimately show ?thesis using rests_at_burst by (simp add: b reads_def kept_def clock_low_def)
qed

lemma reads_count: "reads h (h'\<lparr>stretched_bursts := n\<rparr>) = reads h h'"
  by (simp add: reads_def kept_def clock_low_def)

lemma reads_one: "reads h (snd (snd (read_one h)))"
proof -
  let ?g = "snd (wait_ready HX711_READY_TIMEOUT_MS False h)"
  have "reads h ?g" "reads h (snd (snd (snd (noted_burst ?g))))"
    using reads_wait reads_burst reads_trans by blast+
  then show ?thesis by (simp add: read_one_def split_beta Let_def reads_count)
qed

lemma reads_discard: "reads h (snd (discard_conversions n h))"
proof (induction n arbitrary: h)
  case (Suc n)
  then show ?case
    using reads_one [of h] reads_trans [OF reads_one [of h] Suc.IH] by (simp add: split_beta Let_def)
qed simp

lemma reads_timer: "reads h (h\<lparr>pads := snd (timer (pads h))\<rparr>)"
  by (simp add: reads_def kept_def clock_low_def)

lemma reads_rate_loop: "reads h (snd (snd (rate_loop start left count h)))"
proof (induction left arbitrary: count h)
  case (Suc left)
  obtain go g where g: "(if count < RATE_MIN_CONVERSIONS then (True, h)
      else let (t, p) = timer (pads h) in (t - start < RATE_BUDGET_US, h\<lparr>pads := p\<rparr>)) = (go, g)" by (metis surj_pair)
  then have 1: "reads h g" using reads_timer by (auto simp: split_beta Let_def split: if_splits)
  obtain e w where w: "wait_ready HX711_READY_TIMEOUT_MS True g = (e, w)" by (metis surj_pair)
  obtain raw us after k where b: "noted_burst w = (raw, us, after, k)" by (metis surj_pair)
  have eq: "rate_loop start (Suc left) count h = (if \<not> go then (ESP_OK, count, g)
      else if e \<noteq> ESP_OK then (e, count, w) else rate_loop start left (count + 1) k)"
    by (subst rate_loop.simps, subst g) (simp add: w b)
  have 2: "reads h w" using reads_trans [OF 1 reads_wait [of g HX711_READY_TIMEOUT_MS True]] by (simp add: w)
  have "reads h k" using reads_trans [OF 2 reads_burst [of w]] by (simp add: b)
  then have "reads h (snd (snd (rate_loop start left (count + 1) k)))" using Suc.IH reads_trans by blast
  with 1 2 show ?case unfolding eq by simp
qed simp

lemma reads_sample_loop: "reads h (snd (snd (snd (sample_loop fp read_one n i a h))))"
proof (induction n arbitrary: i a h)
  case (Suc n)
  show ?case
    using reads_one [of h] reads_trans [OF reads_one [of h] Suc.IH] by (simp add: split_beta Let_def)
qed simp

lemma reads_average: "reads h (snd (snd (hx711_priv_read_average fp args out n h)))"
  by (simp add: hx711_priv_read_average_def split_beta Let_def reads_sample_loop)

lemma reads_sps: "reads h (h'\<lparr>measured_sps := x\<rparr>) = reads h h'"
  by (simp add: reads_def kept_def clock_low_def)

lemma reads_rate: "reads h (snd (snd (hx711_measure_rate fp args out h)))"
proof (cases "require_ready args h \<noteq> ESP_OK \<or> \<not> out")
  case False
  obtain e g where d: "discard_conversions 1 h = (e, g)" by (metis surj_pair)
  obtain start p where t: "timer (pads g) = (start, p)" by (metis surj_pair)
  obtain e' count k where r: "rate_loop start RATE_MAX_CONVERSIONS 0 (g\<lparr>pads := p\<rparr>) = (e', count, k)" by (metis surj_pair)
  obtain t' p' where t': "timer (pads k) = (t', p')" by (metis surj_pair)
  have 1: "reads h g" using reads_discard [of h 1] unfolding d by simp
  have "reads g (g\<lparr>pads := p\<rparr>)" using reads_timer [of g] by (simp add: t)
  then have 2: "reads h k" using 1 reads_rate_loop [of "g\<lparr>pads := p\<rparr>"] r reads_trans by (metis snd_conv)
  have "reads k (k\<lparr>pads := p'\<rparr>)" using reads_timer [of k] by (simp add: t')
  then have 3: "reads h (k\<lparr>pads := p'\<rparr>)" using 2 reads_trans by blast
  show ?thesis
    using False 1 2 3 by (simp del: discard_conversions.simps One_nat_def add: hx711_measure_rate_def d t r t' reads_sps Let_def)
qed (auto simp: hx711_measure_rate_def)

section \<open>What a failed change of mode leaves\<close>

lemma apply_mode_effect:
  assumes "apply_mode fp m rep h = (e, rep', h')"
  shows "kept h h' \<and> mode h' = m \<and> (last_a_mode h' = m \<or> last_a_mode h' = last_a_mode h)
     \<and> scale h' = (if e = ESP_OK \<and> (m \<noteq> mode h \<or> \<not> ready h) then zero_scale fp else scale h)"
proof -
  let ?g = "note_mode m h"
  have g: "kept h ?g" "mode ?g = m" "last_a_mode ?g = m \<or> last_a_mode ?g = last_a_mode h" "scale ?g = scale h"
    by (simp_all add: note_mode_def kept_def clock_low_def Let_def)
  obtain e' k where d: "discard_conversions (HX711_STALE_CONVERSIONS + HX711_SETTLING_CONVERSIONS) ?g = (e', k)"
    by (metis surj_pair)
  have "reads ?g k"
    using reads_discard [of ?g "HX711_STALE_CONVERSIONS + HX711_SETTLING_CONVERSIONS"] unfolding d by simp
  then have k: "kept h k" "mode k = m" "last_a_mode k = m \<or> last_a_mode k = last_a_mode h" "scale k = scale h"
    using g kept_trans unfolding reads_def by metis+
  have "e = e'" "h' = (if e = ESP_OK \<and> (m \<noteq> mode h \<or> \<not> ready h) then k\<lparr>scale := zero_scale fp\<rparr> else k)"
    using assms by (auto simp: apply_mode_def Let_def d split: if_splits)
  moreover have "kept h (k\<lparr>scale := zero_scale fp\<rparr>)" using k(1) by (auto simp: kept_def clock_low_def)
  ultimately show ?thesis using k by (cases "e = ESP_OK \<and> (m \<noteq> mode h \<or> \<not> ready h)") auto
qed

lemma apply_mode_report:
  assumes "apply_mode fp m (Some r) h = (e, rep, h')"
  shows "\<exists>c. rep = Some c \<and> mode_changed c = (m \<noteq> mode h \<or> \<not> ready h)
     \<and> scale_invalidated c = ((m \<noteq> mode h \<or> \<not> ready h) \<and> calibrated (scale h))"
proof -
  let ?g = "note_mode m h"
  have g: "mode ?g = m" "scale ?g = scale h" by (simp_all add: note_mode_def Let_def)
  obtain e' k where d: "discard_conversions (HX711_STALE_CONVERSIONS + HX711_SETTLING_CONVERSIONS) ?g = (e', k)"
    by (metis surj_pair)
  have "rep = Some \<lparr>c_failed_stage = (if e' = ESP_OK then HX711_STAGE_NONE else HX711_STAGE_SETTLE), c_mode = m,
      mode_changed = (m \<noteq> mode h \<or> \<not> ready h), discards = HX711_STALE_CONVERSIONS + HX711_SETTLING_CONVERSIONS,
      settling_conversions = HX711_SETTLING_CONVERSIONS,
      scale_invalidated = ((m \<noteq> mode h \<or> \<not> ready h) \<and> calibrated (scale h)),
      scale_was_supplied = supplied (scale h)\<rparr>"
    using assms by (cases "e' = ESP_OK") (simp_all add: apply_mode_def Let_def d g)
  then show ?thesis by simp
qed

text \<open>A change of mode that fails lets the old scale through. When a change to another mode fails in
  its settling conversions, the new mode is in force and the tare and factor are still those of the old
  one; repeating the change, which the error invites, is then no change to the driver: it succeeds,
  reports that nothing was invalidated, and keeps a scale that belongs to another gain, which is what the
  comment at the function says must never happen.\<close>

theorem hx_failed_change_keeps_scale:
  assumes "hx711_set_mode fp True m (Some r) h = (e, rep, h1)" "e \<noteq> ESP_OK"
    and "ready h" "\<not> powered_down h" "mode_valid m" "m \<noteq> mode h"
    and "hx711_set_mode fp True m (Some r') h1 = (ESP_OK, rep', h2)"
  shows "mode h1 = m \<and> mode h2 = m \<and> scale h1 = scale h \<and> scale h2 = scale h
     \<and> (\<exists>c. rep' = Some c \<and> \<not> mode_changed c \<and> \<not> scale_invalidated c)"
proof -
  have "apply_mode fp m (Some zero_change) h = (e, rep, h1)"
    using assms(1-6) by (simp add: hx711_set_mode_def require_ready_def)
  from apply_mode_effect [OF this] assms(2,3,4) have h1: "mode h1 = m" "scale h1 = scale h" "ready h1" "\<not> powered_down h1"
    by (simp_all add: kept_def)
  then have a: "apply_mode fp m (Some zero_change) h1 = (ESP_OK, rep', h2)"
    using assms(5,7) by (simp add: hx711_set_mode_def require_ready_def)
  from apply_mode_effect [OF this] h1 have "mode h2 = m" "scale h2 = scale h" by simp_all
  moreover have "\<exists>c. rep' = Some c \<and> \<not> mode_changed c \<and> \<not> scale_invalidated c"
    using apply_mode_report [OF a] h1 by auto
  ultimately show ?thesis using h1 by simp
qed

section \<open>Any sequence of calls\<close>

text \<open>The handles a program can come to hold, when configuring a pin of the chip does not fail, which
  the platform documents for pins that exist. \<open>vi\<close> and \<open>vo\<close> are the chip's pins.\<close>

inductive hx_reachable :: "'d fp \<Rightarrow> (int \<Rightarrow> bool) \<Rightarrow> (int \<Rightarrow> bool) \<Rightarrow> 'd hx \<Rightarrow> bool" for fp vi vo where
  created: "hx711_create fp args ok dout sck p = (ESP_OK, Some h) \<Longrightarrow>
    (\<And>evs pin. config_result (world p) evs pin = ESP_OK) \<Longrightarrow> hx_reachable fp vi vo h"
| brought_up: "hx_reachable fp vi vo h \<Longrightarrow> hx_reachable fp vi vo (snd (snd (hx711_bring_up fp vi vo args opts h)))"
| read_raw: "hx_reachable fp vi vo h \<Longrightarrow> hx_reachable fp vi vo (snd (snd (hx711_read_raw args out h)))"
| read_average: "hx_reachable fp vi vo h \<Longrightarrow> hx_reachable fp vi vo (snd (snd (hx711_read_average fp args out n h)))"
| measured: "hx_reachable fp vi vo h \<Longrightarrow> hx_reachable fp vi vo (snd (snd (hx711_measure_rate fp args out h)))"
| set_mode: "hx_reachable fp vi vo h \<Longrightarrow> hx_reachable fp vi vo (snd (snd (hx711_set_mode fp args m rep h)))"
| set_channel: "hx_reachable fp vi vo h \<Longrightarrow> hx_reachable fp vi vo (snd (snd (hx711_set_channel fp args c rep h)))"
| power_down: "hx_reachable fp vi vo h \<Longrightarrow> hx_reachable fp vi vo (snd (hx711_power_down args h))"
| power_up: "hx_reachable fp vi vo h \<Longrightarrow> hx_reachable fp vi vo (snd (snd (hx711_power_up fp args rep h)))"
| status: "hx_reachable fp vi vo h \<Longrightarrow> hx_reachable fp vi vo (snd (snd (hx711_get_status fp args h)))"
| set_scale: "hx_reachable fp vi vo h \<Longrightarrow> hx_reachable fp vi vo (snd (hx711_set_scale fp args x h))"
| reset_scale: "hx_reachable fp vi vo h \<Longrightarrow> hx711_reset_scale fp (Some h) = Some h' \<Longrightarrow> hx_reachable fp vi vo h'"
| tare: "hx_reachable fp vi vo h \<Longrightarrow> hx_reachable fp vi vo (snd (snd (hx711_tare fp args n h)))"
| calibrate: "hx_reachable fp vi vo h \<Longrightarrow> hx_reachable fp vi vo (snd (snd (snd (hx711_calibrate fp args x n h))))"
| weigh: "hx_reachable fp vi vo h \<Longrightarrow> hx_reachable fp vi vo (snd (snd (snd (hx711_weigh fp args n h))))"

definition parked :: "'d hx \<Rightarrow> bool" where
  "parked h \<longleftrightarrow> mode_valid (mode h) \<and> mode_valid (last_a_mode h)
     \<and> (\<forall>evs pin. config_result (world (pads h)) evs pin = ESP_OK)
     \<and> (ready h \<longrightarrow> rests_at (sck_pin h) (events (pads h)) = Some (powered_down h))"

lemma require_ready_ok: "require_ready args h = ESP_OK \<longleftrightarrow> args \<and> ready h \<and> \<not> powered_down h"
  by (simp add: require_ready_def)

lemma parked_kept:
  "parked h \<Longrightarrow> kept h h' \<Longrightarrow> \<not> powered_down h \<Longrightarrow> mode_valid (mode h') \<Longrightarrow> mode_valid (last_a_mode h') \<Longrightarrow> parked h'"
  by (auto simp: parked_def kept_def clock_low_def)

lemma parked_reads: "parked h \<Longrightarrow> reads h h' \<Longrightarrow> \<not> powered_down h \<Longrightarrow> parked h'"
  by (rule parked_kept) (auto simp: reads_def parked_def)

lemma parked_scale [simp]: "parked (h\<lparr>scale := x\<rparr>) = parked h"
  by (simp add: parked_def)

lemma parked_disowned: "parked h \<Longrightarrow> parked (h\<lparr>ready := False\<rparr>)"
  by (simp add: parked_def)

lemma parked_apply:
  assumes "parked h" "\<not> powered_down h" "mode_valid m"
  shows "parked (snd (snd (apply_mode fp m rep h)))"
proof -
  obtain e rep' h' where a: "apply_mode fp m rep h = (e, rep', h')" by (metis surj_pair)
  note eff = apply_mode_effect [OF a]
  have "mode_valid (last_a_mode h')" using eff assms(1,3) by (auto simp: parked_def)
  then show ?thesis using parked_kept [OF assms(1), of h'] eff assms(2,3) by (simp add: a)
qed

lemma parked_average: "parked h \<Longrightarrow> parked (snd (snd (hx711_priv_read_average fp args out n h)))"
proof (cases "require_ready args h = ESP_OK")
  case True
  then show "parked h \<Longrightarrow> ?thesis" using parked_reads [OF _ reads_average] by (auto simp: require_ready_ok)
qed (simp add: hx711_priv_read_average_def)

lemma parked_rate: "parked h \<Longrightarrow> parked (snd (snd (hx711_measure_rate fp args out h)))"
proof (cases "require_ready args h = ESP_OK")
  case True
  then show "parked h \<Longrightarrow> ?thesis" using parked_reads [OF _ reads_rate] by (auto simp: require_ready_ok)
qed (simp add: hx711_measure_rate_def)

lemma parked_read_raw: "parked h \<Longrightarrow> parked (snd (snd (hx711_read_raw args out h)))"
proof (cases "require_ready args h = ESP_OK")
  case True
  then show "parked h \<Longrightarrow> ?thesis"
    using parked_reads [OF _ reads_one] by (auto simp: require_ready_ok hx711_read_raw_def)
qed (simp add: hx711_read_raw_def)

lemma modes_valid: "mode_valid HX711_MODE_A128" "mode_valid HX711_MODE_B32" "mode_valid 0"
  by (simp_all add: mode_valid_def hx_modes)

lemma parked_set_mode:
  "parked h \<Longrightarrow> parked (snd (snd (hx711_set_mode fp args m rep h)))"
  "parked h \<Longrightarrow> parked (snd (snd (hx711_set_channel fp args c rep h)))"
proof -
  assume h: "parked h"
  then have "mode_valid (last_a_mode h)" by (simp add: parked_def)
  then show "parked (snd (snd (hx711_set_mode fp args m rep h)))" "parked (snd (snd (hx711_set_channel fp args c rep h)))"
    using h parked_apply modes_valid(2)
    by (auto simp: hx711_set_mode_def hx711_set_channel_def require_ready_ok Let_def)
qed

lemma parked_power_down: "parked h \<Longrightarrow> parked (snd (hx711_power_down args h))"
  by (simp add: hx711_power_down_def parked_def)

lemma parked_power_up: "parked h \<Longrightarrow> parked (snd (snd (hx711_power_up fp args rep h)))"
proof -
  assume h: "parked h"
  let ?g = "h\<lparr>pads := pad_write (sck_pin h) False (pads h), powered_down := False\<rparr>"
  obtain e k where w: "wait_ready HX711_READY_TIMEOUT_MS False ?g = (e, k)" by (metis surj_pair)
  have g: "parked ?g" "\<not> powered_down ?g" using h by (simp_all add: parked_def)
  have r: "reads ?g k" using reads_wait [of ?g HX711_READY_TIMEOUT_MS False] by (simp add: w)
  then have k: "parked k" "\<not> powered_down k" "mode_valid (mode k)"
    using parked_reads [OF g(1) r g(2)] r g(2) by (auto simp: reads_def kept_def parked_def)
  show "parked (snd (snd (hx711_power_up fp args rep h)))"
    using h k parked_apply [OF k(1,2,3)] by (simp add: hx711_power_up_def w Let_def)
qed

lemma parked_cycled:
  assumes "parked h" "claim_pins h = (ESP_OK, stage, g)"
  shows "parked (power_cycle fp g) \<and> \<not> powered_down (power_cycle fp g)"
proof -
  have "mode g = mode h" "world (pads g) = world (pads h)" "sck_pin g = sck_pin h"
    using assms(2) by (auto simp: claim_pins_def Let_def split: prod.splits if_splits)
      (metis same_world(2,8,9) snd_conv)+
  then show ?thesis using assms(1) modes_valid by (simp add: parked_def power_cycle_def Let_def rests_at_append)
qed

lemma claim_pins_ok:
  assumes "parked h"
  shows "\<exists>g. claim_pins h = (ESP_OK, HX711_STAGE_NONE, g)"
  using assms by (simp add: claim_pins_def parked_def pin_output_def pin_input_up_def Let_def split_beta)

text \<open>A data pin that cannot be configured leaves the clock pulled up, which powers the part down.\<close>

lemma claim_failure_pulls_clock_up:
  "claim_pins h = (e, HX711_STAGE_CONFIGURE_DOUT, g) \<Longrightarrow> rests_at (sck_pin h) (events (pads g)) = Some True"
  by (auto simp: claim_pins_def Let_def split: prod.splits if_splits)

text \<open>The proof of the part, from a handle whose clock rests low.\<close>

lemma parked_prove:
  assumes "parked h" "\<not> powered_down h" "mode_valid (o_mode opts)"
  shows "parked (snd (snd (prove_part fp opts r h)))"
proof -
  obtain e1 h1 where w: "wait_ready HX711_READY_TIMEOUT_MS False h = (e1, h1)" by (metis surj_pair)
  have r1: "reads h h1" using reads_wait [of h HX711_READY_TIMEOUT_MS False] by (simp add: w)
  then have 1: "parked h1" "\<not> powered_down h1"
    using parked_reads [OF assms(1) r1 assms(2)] assms(2) by (simp_all add: reads_def kept_def)
  obtain e2 c h2 where a: "apply_mode fp (o_mode opts) (Some zero_change) h1 = (e2, c, h2)" by (metis surj_pair)
  have 2: "parked h2" using parked_apply [OF 1 assms(3), of fp "Some zero_change"] by (simp add: a)
  obtain e3 x h3 where m: "hx711_measure_rate fp True True h2 = (e3, x, h3)" by (metis surj_pair)
  have 3: "parked h3" using parked_rate [OF 2, of fp True True] by (simp add: m)
  obtain e4 y h4 where v: "hx711_priv_read_average fp True True 5 h3 = (e4, y, h4)" by (metis surj_pair)
  have 4: "parked h4" using parked_average [OF 3, of fp True True 5] by (simp add: v)
  have 5: "parked (snd (hx711_set_scale fp True z h4))" for z using 4 by (simp add: hx711_set_scale_def)
  show ?thesis
    using 1(1) 2 3 4 5 [of "o_counts_per_unit opts"]
    by (simp add: prove_part_def w a m v Let_def parked_disowned split_beta)
qed

lemma parked_bring_up: "parked h \<Longrightarrow> parked (snd (snd (hx711_bring_up fp vi vo args opts h)))"
proof -
  assume h: "parked h"
  obtain g where c: "claim_pins h = (ESP_OK, HX711_STAGE_NONE, g)" using claim_pins_ok [OF h] by blast
  note p = parked_cycled [OF h c, of fp]
  show ?thesis
    using h parked_prove [OF p [THEN conjunct1] p [THEN conjunct2]] modes_valid
    by (simp add: hx711_bring_up_def c Let_def split: option.split)
qed

lemma parked_scale_ops:
  "parked h \<Longrightarrow> parked (snd (hx711_set_scale fp args x h))"
  "parked h \<Longrightarrow> hx711_reset_scale fp (Some h) = Some h' \<Longrightarrow> parked h'"
  "parked h \<Longrightarrow> parked (snd (snd (hx711_tare fp args n h)))"
  "parked h \<Longrightarrow> parked (snd (snd (snd (hx711_calibrate fp args x n h))))"
  "parked h \<Longrightarrow> parked (snd (snd (snd (hx711_weigh fp args n h))))"
proof -
  assume h: "parked h"
  obtain e st g where a: "hx711_priv_read_average fp True True n h = (e, st, g)" by (metis surj_pair)
  have g: "parked g" using parked_average [OF h, of fp True True n] by (simp add: a)
  show "parked (snd (hx711_set_scale fp args x h))" "hx711_reset_scale fp (Some h) = Some h' \<Longrightarrow> parked h'"
    "parked (snd (snd (hx711_tare fp args n h)))" "parked (snd (snd (snd (hx711_calibrate fp args x n h))))"
    "parked (snd (snd (snd (hx711_weigh fp args n h))))"
    using h g by (auto simp: hx711_set_scale_def hx711_reset_scale_def hx711_tare_def hx711_calibrate_def
        hx711_weigh_def a Let_def split_beta)
qed

lemma parked_status: "parked h \<Longrightarrow> parked (snd (snd (hx711_get_status fp args h)))"
  by (auto simp: hx711_get_status_def parked_def Let_def split_beta)

text \<open>C23. The clock line rests where the driver says. On every handle that any sequence of calls
  produces, whatever the part answers and however the calls fail (short of configuring an existing
  pin, which the platform does not refuse), the mode is one of the three the part has, and while the part counts as ready the clock line was left low, unless the part was powered
  down, and then high: so no call, and no failure inside one, leaves a clock high that resets the part
  behind the caller's back.\<close>

theorem hx_clock_rests_as_reported:
  assumes "hx_reachable fp vi vo h"
  shows "mode_valid (mode h) \<and> (ready h \<longrightarrow> rests_at (sck_pin h) (events (pads h)) = Some (powered_down h))"
proof -
  from assms have "parked h"
  proof (induction rule: hx_reachable.induct)
    case (created args ok dout sck p h)
    then show ?case
      using modes_valid by (auto simp: hx711_create_def parked_def split: if_splits)
  qed (simp_all add: hx711_read_average_def parked_bring_up parked_average parked_rate parked_read_raw parked_set_mode
      parked_power_down parked_power_up parked_status parked_scale_ops)
  then show ?thesis by (simp add: parked_def)
qed

section \<open>Runs\<close>

text \<open>A part that misses its first deadline and then answers every time, its data line high in a burst.\<close>

definition late_world :: pad_world where
  "late_world = \<lparr>line = (\<lambda>evs pin. length evs = 1 \<or> (\<exists>n. last evs = Waited_us n)), cycle = (\<lambda>evs. 0),
     config_result = (\<lambda>evs pin. ESP_OK), lag = (\<lambda>evs. if length evs < 2 then 2000000 else 1),
     tick_hz = 100, cpu_hz = 160000000\<rparr>"

definition late_hx :: "real hx" where
  "late_hx = \<lparr>ready = True, powered_down = False, dout_pin = 4, sck_pin = 5, mode = HX711_MODE_A128,
     last_a_mode = HX711_MODE_A128, scale = \<lparr>tare_counts = 100, tare_stderr = 0, tare_samples = 10,
     counts_per_unit = 420, calibrated = True, supplied = False\<rparr>, measured_sps = 10, worst_high_us = 0,
     stretched_bursts = 0, pads = \<lparr>events = [], now = 0, world = late_world\<rparr>\<rparr>"

lemma late_fails:
  "\<exists>rep h1. hx711_set_mode real_fp True HX711_MODE_B32 (Some zero_change) late_hx = (ESP_ERR_TIMEOUT, rep, h1)
     \<and> length (events (pads h1)) = 3 \<and> world (pads h1) = late_world \<and> ready h1 \<and> \<not> powered_down h1
     \<and> mode h1 = HX711_MODE_B32"
proof -
  let ?g = "note_mode HX711_MODE_B32 late_hx"
  have g: "?g = late_hx\<lparr>mode := HX711_MODE_B32\<rparr>"
    by (simp add: note_mode_def mode_table_def HX711_MODE_B32_def HX711_CHANNEL_A_def HX711_CHANNEL_B_def)
  let ?p = "snd (timer (snd (pad_level (dout_pin ?g) (snd (timer (pads ?g))))))"
  have "wait_ready HX711_READY_TIMEOUT_MS False ?g = (ESP_ERR_TIMEOUT, ?g\<lparr>pads := ?p\<rparr>)"
    unfolding g by (rule wait_ready_too_late) (simp_all add: timer_def pad_level_def happen_def late_hx_def
        late_world_def HX711_READY_TIMEOUT_MS_def Let_def)
  then have r: "read_one ?g = (ESP_ERR_TIMEOUT, 0, ?g\<lparr>pads := ?p\<rparr>)" by (simp add: read_one_def)
  define h1 where "h1 = ?g\<lparr>pads := ?p\<rparr>"
  have h1: "length (events (pads h1)) = 3" "world (pads h1) = late_world" "ready h1" "\<not> powered_down h1"
    "mode h1 = HX711_MODE_B32" unfolding h1_def g by (simp_all add: late_hx_def)
  have "discard_conversions (HX711_STALE_CONVERSIONS + HX711_SETTLING_CONVERSIONS) ?g = (ESP_ERR_TIMEOUT, h1)"
    using discard_conversions.simps(2) [of 4 ?g] r
    by (simp add: h1_def HX711_STALE_CONVERSIONS_def HX711_SETTLING_CONVERSIONS_def)
  moreover have "require_ready True late_hx = ESP_OK" by (simp add: require_ready_def late_hx_def)
  ultimately show ?thesis
    using h1 by (simp add: hx711_set_mode_def modes_valid apply_mode_def Let_def)
qed

lemma late_pulses:
  "world p = late_world \<Longrightarrow> length (events p) > 1 \<Longrightarrow> \<exists>b q. burst_loop d k i n (bits, 0, p) = (b, 0, q)
     \<and> world q = late_world \<and> length (events q) > 1 \<and> (n > 0 \<longrightarrow> last (events q) = Waited_us 1)"
proof (induction n arbitrary: i bits p)
  case (Suc n)
  obtain b q where *: "clock_pulse d k i (bits, 0, p) = (b, 0, q)" "world q = late_world" "length (events q) > 1"
    "last (events q) = Waited_us 1"
    using Suc.prems by (simp add: clock_pulse_def cycle_count_def late_world_def Let_def split_beta HX711_SCK_LOW_US_def)
  from Suc.IH [OF *(2,3), of "i + 1" b] * show ?case by (cases n) auto
qed simp

lemma late_reads:
  assumes "world (pads h) = late_world" "length (events (pads h)) > 1" "mode h = HX711_MODE_B32"
  shows "\<exists>v h'. read_one h = (ESP_OK, v, h') \<and> world (pads h') = late_world \<and> length (events (pads h')) > 1
     \<and> mode h' = HX711_MODE_B32"
proof -
  define p where "p = snd (pad_level (dout_pin h) (snd (timer (pads h))))"
  have "\<not> fst (pad_level (dout_pin h) (snd (timer (pads h))))"
    using assms(1,2) by (auto simp: pad_level_def timer_def late_world_def happen_def Let_def)
  then have w: "wait_ready HX711_READY_TIMEOUT_MS False h = (ESP_OK, h\<lparr>pads := p\<rparr>)"
    unfolding p_def by (rule wait_ready_at_once)
  have p: "world p = late_world" "length (events p) > 1" using assms(1,2) by (simp_all add: p_def)
  obtain b q where q: "burst_loop (dout_pin h) (sck_pin h) 0 26 (0, 0, happen Masked p) = (b, 0, q)"
    "world q = late_world" "length (events q) > 1" "last (events q) = Waited_us 1"
    using late_pulses [of "happen Masked p" "dout_pin h" "sck_pin h" 0 26 0] p by fastforce
  have "fst (pad_level (dout_pin h) q)" using q(2,4) by (simp add: pad_level_def late_world_def Let_def)
  then have "noted_burst (h\<lparr>pads := p\<rparr>) = (b, 0, True, h\<lparr>pads := happen Unmasked (snd (pad_level (dout_pin h) q)),
      worst_high_us := worst_high_us h\<rparr>)"
    using q assms(3) by (simp add: noted_burst_def clock_burst_def split_beta mode_table_def HX711_MODE_B32_def
        HX711_PULSES_B32_def cycles_to_us_def Let_def late_world_def)
  then show ?thesis using q assms(3) by (auto simp: read_one_def w Let_def)
qed

lemma late_settles:
  "world (pads h) = late_world \<Longrightarrow> length (events (pads h)) > 1 \<Longrightarrow> mode h = HX711_MODE_B32 \<Longrightarrow>
     fst (discard_conversions n h) = ESP_OK"
proof (induction n arbitrary: h)
  case (Suc n)
  from late_reads [OF Suc.prems] Suc.IH show ?case by (auto simp: Let_def)
qed simp

theorem hx_failed_change_keeps_scale_witness:
  "\<exists>(h1 :: real hx) rep'. fst (hx711_set_mode real_fp True HX711_MODE_B32 (Some zero_change) h1) = ESP_OK
     \<and> mode late_hx = HX711_MODE_A128 \<and> calibrated (scale late_hx)
     \<and> h1 = snd (snd (hx711_set_mode real_fp True HX711_MODE_B32 (Some zero_change) late_hx))
     \<and> scale (snd (snd (hx711_set_mode real_fp True HX711_MODE_B32 (Some zero_change) h1))) = scale late_hx"
proof -
  obtain rep h1 where a: "hx711_set_mode real_fp True HX711_MODE_B32 (Some zero_change) late_hx = (ESP_ERR_TIMEOUT, rep, h1)"
    and h1: "length (events (pads h1)) = 3" "world (pads h1) = late_world" "ready h1" "\<not> powered_down h1"
      "mode h1 = HX711_MODE_B32" using late_fails by blast
  have "note_mode HX711_MODE_B32 h1 = h1"
    using h1(5) by (simp add: note_mode_def mode_table_def HX711_MODE_B32_def HX711_CHANNEL_A_def HX711_CHANNEL_B_def)
  then have "fst (hx711_set_mode real_fp True HX711_MODE_B32 (Some zero_change) h1) = ESP_OK"
    using h1 late_settles [of h1 "HX711_STALE_CONVERSIONS + HX711_SETTLING_CONVERSIONS"] modes_valid(2)
    by (simp add: hx711_set_mode_def require_ready_def apply_mode_def Let_def split_beta)
  moreover from this obtain rep' h2 where b: "hx711_set_mode real_fp True HX711_MODE_B32 (Some zero_change) h1 = (ESP_OK, rep', h2)"
    by (metis prod.collapse)
  moreover have "scale h2 = scale late_hx"
    using hx_failed_change_keeps_scale [OF a _ _ _ modes_valid(2) _ b]
    by (simp add: late_hx_def hx_modes)
  ultimately show ?thesis using a by (intro exI [of _ h1]) (simp add: late_hx_def)
qed

theorem hx_clock_rests_as_reported_witness:
  "mode_valid (mode (the (snd (hx711_create real_fp True True 4 5 \<lparr>events = [], now = 0, world = late_world\<rparr>))))"
proof -
  have "hx_reachable real_fp (\<lambda>_. True) (\<lambda>_. True)
      (the (snd (hx711_create real_fp True True 4 5 \<lparr>events = [], now = 0, world = late_world\<rparr>)))"
    by (rule hx_reachable.created [of real_fp True True 4 5 "\<lparr>events = [], now = 0, world = late_world\<rparr>"])
      (simp_all add: hx711_create_def late_world_def)
  from hx_clock_rests_as_reported [OF this] show ?thesis by simp
qed

end
