(* ===== verification/Sht4x.thy ===== *)
theory Sht4x
  imports I2c_Bus Floating Ci_Names
begin

unbundle bit_operations_syntax

text \<open>
  The SHT4x humidity and temperature sensor of \<open>sht4x/src/sht4x.c\<close>: the tables of settings,
  the checksum, and the commands, each a write of one byte, a wait and a separate read. An
  enumeration is the \<open>int\<close> it is in C, so that a value outside it is one the code meets.
\<close>

section \<open>Settings\<close>

type_synonym sht4x_repeatability_t = int
type_synonym sht4x_heater_t = int

definition SHT4X_REPEATABILITY_HIGH :: sht4x_repeatability_t where "SHT4X_REPEATABILITY_HIGH = 0xFD"
definition SHT4X_REPEATABILITY_MEDIUM :: sht4x_repeatability_t where "SHT4X_REPEATABILITY_MEDIUM = 0xF6"
definition SHT4X_REPEATABILITY_LOW :: sht4x_repeatability_t where "SHT4X_REPEATABILITY_LOW = 0xE0"

definition sht4x_repeatabilities :: "sht4x_repeatability_t list" where
  "sht4x_repeatabilities = [SHT4X_REPEATABILITY_HIGH, SHT4X_REPEATABILITY_MEDIUM, SHT4X_REPEATABILITY_LOW]"

definition sht4x_heaters :: "sht4x_heater_t list" where
  "sht4x_heaters = [0x39, 0x32, 0x2F, 0x24, 0x1E, 0x15]"

definition sht4x_repeatability_name :: "sht4x_repeatability_t \<Rightarrow> cptr" where
  "sht4x_repeatability_name r =
    (if r = SHT4X_REPEATABILITY_HIGH then Some ''high''
     else if r = SHT4X_REPEATABILITY_MEDIUM then Some ''medium''
     else if r = SHT4X_REPEATABILITY_LOW then Some ''low''
     else None)"

text \<open>\<open>out\<close>: what the caller's variable holds, None for a NULL pointer.\<close>

definition sht4x_repeatability_from_name ::
    "cptr \<Rightarrow> sht4x_repeatability_t option \<Rightarrow> esp_err_t \<times> sht4x_repeatability_t option" where
  "sht4x_repeatability_from_name name_arg out =
    (case (name_arg, out) of
       (Some n, Some _) \<Rightarrow>
         if strcasecmp n ''high'' = 0 then (ESP_OK, Some SHT4X_REPEATABILITY_HIGH)
         else if strcasecmp n ''medium'' = 0 \<or> strcasecmp n ''med'' = 0
         then (ESP_OK, Some SHT4X_REPEATABILITY_MEDIUM)
         else if strcasecmp n ''low'' = 0 then (ESP_OK, Some SHT4X_REPEATABILITY_LOW)
         else (ESP_ERR_INVALID_ARG, out)
     | _ \<Rightarrow> (ESP_ERR_INVALID_ARG, out))"

definition sht4x_heater_power_mw :: "sht4x_heater_t \<Rightarrow> int" where
  "sht4x_heater_power_mw h =
    (if h = 0x39 \<or> h = 0x32 then 200 else if h = 0x2F \<or> h = 0x24 then 110
     else if h = 0x1E \<or> h = 0x15 then 20 else -1)"

definition sht4x_heater_duration_ms :: "sht4x_heater_t \<Rightarrow> int" where
  "sht4x_heater_duration_ms h =
    (if h = 0x39 \<or> h = 0x2F \<or> h = 0x1E then 1000 else if h = 0x32 \<or> h = 0x24 \<or> h = 0x15 then 100
     else -1)"

definition sht4x_heater_from_values ::
    "int \<Rightarrow> int \<Rightarrow> sht4x_heater_t option \<Rightarrow> esp_err_t \<times> sht4x_heater_t option" where
  "sht4x_heater_from_values power_mw duration_ms out =
    (if out = None then (ESP_ERR_INVALID_ARG, out)
     else case find (\<lambda>h. sht4x_heater_power_mw h = power_mw \<and> sht4x_heater_duration_ms h = duration_ms)
                    sht4x_heaters of
       Some h \<Rightarrow> (ESP_OK, Some h)
     | None \<Rightarrow> (ESP_ERR_INVALID_ARG, out))"

lemma repeatability_name_back:
  "r \<in> set sht4x_repeatabilities \<Longrightarrow>
     sht4x_repeatability_from_name (sht4x_repeatability_name r) (Some x) = (ESP_OK, Some r)"
  unfolding sht4x_repeatabilities_def
  by (simp, elim disjE) (simp_all, code_simp+)

lemma repeatability_named: "sht4x_repeatability_name r \<noteq> None \<longleftrightarrow> r \<in> set sht4x_repeatabilities"
  by (auto simp: sht4x_repeatability_name_def sht4x_repeatabilities_def)

lemma heater_values_back:
  "h \<in> set sht4x_heaters \<Longrightarrow>
     sht4x_heater_from_values (sht4x_heater_power_mw h) (sht4x_heater_duration_ms h) (Some x) = (ESP_OK, Some h)"
  by (auto simp: sht4x_heaters_def sht4x_heater_from_values_def sht4x_heater_power_mw_def
      sht4x_heater_duration_ms_def)

section \<open>The checksum\<close>

definition crc_bit :: "8 word \<Rightarrow> 8 word" where
  "crc_bit crc = (if crc AND 0x80 \<noteq> 0 then push_bit 1 crc XOR 0x31 else push_bit 1 crc)"

definition crc_byte :: "8 word \<Rightarrow> 8 word \<Rightarrow> 8 word" where
  "crc_byte crc b = (crc_bit ^^ 8) (crc XOR b)"

definition crc8 :: "8 word list \<Rightarrow> 8 word" where
  "crc8 bs = foldl crc_byte 0xFF bs"

text \<open>The example of the datasheet.\<close>

lemma crc8_datasheet: "crc8 [0xBE, 0xEF] = 0x92"
  by code_simp

record sht4x_crc_error_t =
  crc_word :: int
  crc_received :: "8 word"
  crc_computed :: "8 word"

text \<open>The two words, or what is told of the one that failed.\<close>

definition decode_response :: "8 word list \<Rightarrow> sht4x_crc_error_t + 16 word \<times> 16 word" where
  "decode_response raw =
    (let first_computed = crc8 [raw ! 0, raw ! 1] in
     if first_computed \<noteq> raw ! 2
     then Inl \<lparr>crc_word = 1, crc_received = raw ! 2, crc_computed = first_computed\<rparr>
     else
       let second_computed = crc8 [raw ! 3, raw ! 4] in
       if second_computed \<noteq> raw ! 5
       then Inl \<lparr>crc_word = 2, crc_received = raw ! 5, crc_computed = second_computed\<rparr>
       else Inr (push_bit 8 (ucast (raw ! 0)) OR ucast (raw ! 1),
                 push_bit 8 (ucast (raw ! 3)) OR ucast (raw ! 4)))"

subsection \<open>What the checksum catches\<close>

text \<open>The checksum is affine: two inputs' checksums differ by one of the difference alone.\<close>

definition crc_shift :: "8 word \<Rightarrow> 8 word" where
  "crc_shift b = crc_byte 0 b"

lemma crc_bit_eq: "crc_bit c = push_bit 1 c XOR (if bit c 7 then 0x31 else 0)"
  using and_exp_eq_0_iff_not_bit [of c 7] by (simp add: crc_bit_def)

lemma crc_bit_xor: "crc_bit (a XOR b) = crc_bit a XOR crc_bit b"
  by (rule bit_word_eqI) (auto simp: crc_bit_eq bit_xor_iff bit_push_bit_iff)

lemma crc_bits_xor: "(crc_bit ^^ n) (a XOR b) = (crc_bit ^^ n) a XOR (crc_bit ^^ n) b"
  by (induction n arbitrary: a b) (simp_all add: crc_bit_xor)

lemma crc_byte_xor: "crc_byte (c XOR d) (a XOR b) = crc_byte c a XOR crc_byte d b"
proof -
  have "(c XOR d) XOR (a XOR b) = (c XOR a) XOR (d XOR b)" by (simp add: ac_simps)
  then show ?thesis unfolding crc_byte_def by (metis crc_bits_xor)
qed

lemma crc_byte_split: "crc_byte c a = crc_shift c XOR crc_shift a"
  by (simp add: crc_shift_def crc_byte_def crc_bits_xor)

lemma crc_shift_xor: "crc_shift (a XOR b) = crc_shift a XOR crc_shift b"
  using crc_byte_xor [of 0 0 a b] by (simp add: crc_shift_def)

lemma crc_shift_0: "crc_shift 0 = 0"
  using crc_shift_xor [of 0 0] by simp

lemma crc8_xor:
  "crc8 [a XOR x, b XOR y] = crc8 [a, b] XOR (crc_shift (crc_shift x) XOR crc_shift y)"
  by (simp add: crc8_def crc_byte_split crc_shift_xor ac_simps)

text \<open>How many bits of a byte are set; by how many bits two lists of bytes differ.\<close>

definition weight :: "8 word \<Rightarrow> nat" where
  "weight b = length (filter (bit b) [0..<8])"

definition flips :: "8 word list \<Rightarrow> 8 word list \<Rightarrow> nat" where
  "flips xs ys = sum_list (map2 (\<lambda>x y. weight (x XOR y)) xs ys)"

lemma filter_xor_length:
  "length (filter (bit (a XOR b)) is) + 2 * length (filter (bit (a AND b)) is)
   = length (filter (bit a) is) + length (filter (bit b) is)" for a b :: "8 word"
  by (induction "is") (auto simp: bit_xor_iff bit_and_iff)

lemma weight_xor: "even (weight (a XOR b)) \<longleftrightarrow> even (weight a + weight b)"
  unfolding weight_def using filter_xor_length [of a b "[0..<8]"] by (metis even_add even_mult_iff dvd_refl)

text \<open>One round keeps the parity, since the polynomial has an even number of terms.\<close>

lemma eight: "[0..<8] = [0, 1, 2, 3, 4, 5, 6, 7::nat]"
  by code_simp

lemma bit_twice: "bit (c * 2) 0 = False" "bit (c * 2) (Suc i) \<longleftrightarrow> i < 7 \<and> bit c i" for c :: "8 word"
  using bit_push_bit_iff [of 1 c 0] bit_push_bit_iff [of 1 c "Suc i"] by simp_all

lemma filter_push_bit:
  "\<forall>i \<in> set is. i < 7 \<Longrightarrow> length (filter (bit (push_bit 1 c)) (map Suc is)) = length (filter (bit c) is)"
  for c :: "8 word"
  by (induction "is") (simp_all add: bit_twice)

lemma weight_shift: "weight (push_bit 1 c) + (if bit c 7 then 1 else 0) = weight c"
proof -
  have "[0..<8] = 0 # map Suc [0..<7]" "[0..<8] = [0..<7] @ [7]" by code_simp+
  then have "weight (push_bit 1 c) = length (filter (bit (push_bit 1 c)) (0 # map Suc [0..<7]))"
      "weight c = length (filter (bit c) ([0..<7] @ [7]))"
    unfolding weight_def by (simp_all only:)
  then show ?thesis using filter_push_bit [of "[0..<7]" c] by (simp add: bit_twice)
qed

lemma weight_poly: "weight 0x31 = 3" "weight 0 = 0"
  by code_simp+

lemma crc_bit_parity: "even (weight (crc_bit c)) \<longleftrightarrow> even (weight c)"
  unfolding weight_shift [of c, symmetric] crc_bit_eq by (simp add: weight_xor weight_poly)

lemma crc_shift_parity: "even (weight (crc_shift b)) \<longleftrightarrow> even (weight b)"
proof -
  have "even (weight ((crc_bit ^^ n) b)) \<longleftrightarrow> even (weight b)" for n
    by (induction n) (simp_all add: crc_bit_parity)
  then show ?thesis by (simp add: crc_shift_def crc_byte_def)
qed

text \<open>A byte with one or two bits.\<close>

lemma weight_card: "weight b = card {i. i < 8 \<and> bit b i}"
  unfolding weight_def by (simp add: length_filter_conv_card cong: conj_cong)

lemma byte_bits: "b = c \<longleftrightarrow> {i. i < 8 \<and> bit b i} = {i. i < 8 \<and> bit c i}" for b c :: "8 word"
proof
  assume "{i. i < 8 \<and> bit b i} = {i. i < 8 \<and> bit c i}"
  then show "b = c" by (intro bit_word_eqI) (auto simp: set_eq_iff)
qed simp

lemma weight_0: "weight b = 0 \<Longrightarrow> b = 0"
  by (simp add: weight_card byte_bits [of b])

lemma single_bits: "i < 8 \<Longrightarrow> {k. k < 8 \<and> bit (push_bit i 1 :: 8 word) k} = {i}"
  by (auto simp: bit_exp_iff)

lemma weight_1: "weight b = 1 \<Longrightarrow> \<exists>i < 8. b = push_bit i 1"
proof -
  assume "weight b = 1"
  then obtain i where i: "{k. k < 8 \<and> bit b k} = {i}" by (auto simp: weight_card card_1_singleton_iff)
  then have "i < 8" by auto
  moreover have "b = push_bit i 1" unfolding byte_bits [of b] using i \<open>i < 8\<close> by (simp only: single_bits)
  ultimately show ?thesis by blast
qed

lemma weight_2: "weight b = 2 \<Longrightarrow> \<exists>i < 8. \<exists>j < 8. i \<noteq> j \<and> b = push_bit i 1 XOR push_bit j 1"
proof -
  assume "weight b = 2"
  then obtain i j where ij: "{k. k < 8 \<and> bit b k} = {i, j}" "i \<noteq> j" by (auto simp: weight_card card_2_iff)
  then have "i < 8" "j < 8" by auto
  moreover have "b = push_bit i 1 XOR push_bit j 1"
    using ij unfolding byte_bits [of b] by (auto simp: bit_xor_iff bit_exp_iff)
  ultimately show ?thesis using ij by blast
qed

text \<open>What single errors do to the checksum: in the first byte, in the second, in the checksum itself.\<close>

definition syndromes :: "8 word list" where
  "syndromes = [0xF4, 0xD9, 0x83, 0x37, 0x6E, 0xDC, 0x89, 0x23,
     0x31, 0x62, 0xC4, 0xB9, 0x43, 0x86, 0x3D, 0x7A, 1, 2, 4, 8, 16, 32, 64, 128]"

lemma crc_shift_rounds:
  "crc_shift b = crc_bit (crc_bit (crc_bit (crc_bit (crc_bit (crc_bit (crc_bit (crc_bit b)))))))"
  by (simp add: crc_shift_def crc_byte_def numeral_eq_Suc)

lemma syndromes_are:
  "map (\<lambda>i. crc_shift (push_bit i 1)) [0..<8] = take 8 (drop 8 syndromes)"
  "map (\<lambda>i. push_bit i 1) [0..<8] = drop 16 syndromes"
  unfolding eight by (simp_all add: crc_shift_rounds crc_bit_def syndromes_def)

lemma double_shift: "map (\<lambda>i. crc_shift (crc_shift (push_bit i 1))) [0..<8] = take 8 syndromes"
proof -
  have "map (\<lambda>i. crc_shift (crc_shift (push_bit i 1))) [0..<8] = map crc_shift (map (\<lambda>i. crc_shift (push_bit i 1)) [0..<8])"
    by simp
  also have "\<dots> = take 8 syndromes"
    unfolding syndromes_are(1) by (simp add: crc_shift_rounds crc_bit_def syndromes_def)
  finally show ?thesis .
qed

lemma syndrome_at:
  assumes "i < 8"
  shows "crc_shift (crc_shift (push_bit i 1)) = syndromes ! i"
    and "crc_shift (push_bit i 1) = syndromes ! (8 + i)" and "push_bit i 1 = syndromes ! (16 + i)"
proof -
  have l: "length syndromes = 24" by (simp add: syndromes_def)
  note m = arg_cong [OF double_shift, of "\<lambda>xs. xs ! i"] arg_cong [OF syndromes_are(1), of "\<lambda>xs. xs ! i"]
    arg_cong [OF syndromes_are(2), of "\<lambda>xs. xs ! i"]
  show "crc_shift (crc_shift (push_bit i 1)) = syndromes ! i" "crc_shift (push_bit i 1) = syndromes ! (8 + i)"
    "push_bit i 1 = syndromes ! (16 + i)"
    using m assms l by (simp_all del: push_bit_of_1)
qed

lemma syndromes_distinct: "distinct syndromes" "length syndromes = 24"
  by (simp_all add: syndromes_def)

lemma two_errors: "i < 24 \<Longrightarrow> j < 24 \<Longrightarrow> i \<noteq> j \<Longrightarrow> syndromes ! i XOR syndromes ! j \<noteq> 0"
  using syndromes_distinct by (simp add: xor_eq_0_iff nth_eq_iff_index_eq)

text \<open>So no error of one, two or three bits in a word and its checksum goes unnoticed.\<close>

lemma sum_is_2:
  assumes "a + b + c = (2::nat)"
  shows "(a, b, c) \<in> {(2, 0, 0), (0, 2, 0), (0, 0, 2), (1, 1, 0), (1, 0, 1), (0, 1, 1)}"
proof -
  have "a = 0 \<or> a = 1 \<or> a = 2" "b = 0 \<or> b = 1 \<or> b = 2" "c = 2 - a - b" "a + b \<le> 2" using assms by arith+
  then show ?thesis by (elim disjE) simp_all
qed

lemma crc_catches:
  assumes "weight x + weight y + weight z \<le> 3" "\<not> (x = 0 \<and> y = 0 \<and> z = 0)"
  shows "crc_shift (crc_shift x) XOR crc_shift y XOR z \<noteq> 0"
proof
  assume 0: "crc_shift (crc_shift x) XOR crc_shift y XOR z = 0"
  then have "even (weight (crc_shift (crc_shift x) XOR crc_shift y XOR z))" by (simp add: weight_poly)
  then have "even (weight x + weight y + weight z)" by (auto simp: weight_xor crc_shift_parity)
  moreover have "weight x + weight y + weight z \<noteq> 0" using assms(2) weight_0 by auto
  ultimately have "weight x + weight y + weight z = 2" using assms(1) by presburger
  then consider "weight x = 2" "weight y = 0" "weight z = 0" | "weight y = 2" "weight x = 0" "weight z = 0"
    | "weight z = 2" "weight x = 0" "weight y = 0" | "weight x = 1" "weight y = 1" "weight z = 0"
    | "weight x = 1" "weight z = 1" "weight y = 0" | "weight y = 1" "weight z = 1" "weight x = 0"
    using sum_is_2 [of "weight x" "weight y" "weight z"] by auto
  then show False
  proof cases
    case 1
    with weight_2 obtain i j where "i < 8" "j < 8" "i \<noteq> j" "x = push_bit i 1 XOR push_bit j 1" by blast
    with 0 1(2,3) [THEN weight_0] two_errors [of i j] show False by (simp only: crc_shift_xor crc_shift_0 syndrome_at(1)) simp
  next
    case 2
    with weight_2 obtain i j where "i < 8" "j < 8" "i \<noteq> j" "y = push_bit i 1 XOR push_bit j 1" by blast
    with 0 2(2,3) [THEN weight_0] two_errors [of "8 + i" "8 + j"] show False
      by (simp only: crc_shift_xor crc_shift_0 syndrome_at(2)) simp
  next
    case 3
    then have "x = 0" "y = 0" by (simp_all add: weight_0)
    then show False using 0 3 by (simp add: crc_shift_0 weight_poly)
  next
    case 4
    with weight_1 obtain i j where "i < 8" "j < 8" "x = push_bit i 1" "y = push_bit j 1" by meson
    with 0 4(3) [THEN weight_0] two_errors [of i "8 + j"] show False by (simp only: syndrome_at(1) [of i] syndrome_at(2) [of j]) simp
  next
    case 5
    with weight_1 obtain i j where "i < 8" "j < 8" "x = push_bit i 1" "z = push_bit j 1" by meson
    with 0 5(3) [THEN weight_0] two_errors [of i "16 + j"] show False by (simp only: syndrome_at(1) [of i] syndrome_at(3) [of j] crc_shift_0) simp
  next
    case 6
    with weight_1 obtain i j where "i < 8" "j < 8" "y = push_bit i 1" "z = push_bit j 1" by meson
    with 0 6(3) [THEN weight_0] two_errors [of "8 + i" "16 + j"] show False by (simp only: syndrome_at(2) [of i] syndrome_at(3) [of j] crc_shift_0) simp
  qed
qed

lemma one_word:
  assumes "crc8 [a, b] = c" "crc8 [a', b'] = c'" "flips [a, b, c] [a', b', c'] \<le> 3"
  shows "a = a' \<and> b = b' \<and> c = c'"
proof -
  have "crc8 [a XOR (a XOR a'), b XOR (b XOR b')] = crc8 [a, b] XOR (crc_shift (crc_shift (a XOR a')) XOR crc_shift (b XOR b'))"
    by (rule crc8_xor)
  then have "c' = c XOR (crc_shift (crc_shift (a XOR a')) XOR crc_shift (b XOR b'))"
    using assms(1,2) by (simp add: xor.assoc [symmetric])
  then have "crc_shift (crc_shift (a XOR a')) XOR crc_shift (b XOR b') XOR (c XOR c') = 0"
    by (simp add: xor.assoc [symmetric]) (simp add: xor.assoc xor.commute xor.left_commute)
  then have "a XOR a' = 0 \<and> b XOR b' = 0 \<and> c XOR c' = 0"
    using crc_catches [of "a XOR a'" "b XOR b'" "c XOR c'"] assms(3) by (auto simp: flips_def)
  then show ?thesis by (simp add: xor_eq_0_iff)
qed

section \<open>The driver\<close>

definition CMD_READ_SERIAL :: "8 word" where "CMD_READ_SERIAL = 0x89"
definition CMD_SOFT_RESET :: "8 word" where "CMD_SOFT_RESET = 0x94"
definition MEASURE_WAIT_MS :: nat where "MEASURE_WAIT_MS = 10"
definition SERIAL_WAIT_MS :: nat where "SERIAL_WAIT_MS = 10"
definition RESET_WAIT_MS :: nat where "RESET_WAIT_MS = 10"
definition HEATER_LONG_WAIT_MS :: nat where "HEATER_LONG_WAIT_MS = 1200"
definition HEATER_SHORT_WAIT_MS :: nat where "HEATER_SHORT_WAIT_MS = 200"
definition RESPONSE_LEN :: nat where "RESPONSE_LEN = 6"

text \<open>The handle, with the bus it is on. \<open>h_dev\<close>: the device is not NULL.\<close>

record sht4x_dev_t =
  h_dev :: bool
  h_bus :: bus

record 'd sht4x_measurement_t =
  temperature_c :: 'd
  humidity_pct :: 'd
  humidity_pct_cropped :: 'd
  humidity_was_cropped :: bool
  temperature_ticks :: "16 word"
  humidity_ticks :: "16 word"
  crc_error :: sht4x_crc_error_t

definition no_crc_error :: sht4x_crc_error_t where
  "no_crc_error = \<lparr>crc_word = 0, crc_received = 0, crc_computed = 0\<rparr>"

definition zero_measurement :: "'d fp \<Rightarrow> 'd sht4x_measurement_t" where
  "zero_measurement fp = \<lparr>temperature_c = fp_zero fp, humidity_pct = fp_zero fp,
     humidity_pct_cropped = fp_zero fp, humidity_was_cropped = False, temperature_ticks = 0,
     humidity_ticks = 0, crc_error = no_crc_error\<rparr>"

text \<open>\<open>hz\<close> is the tick rate the build is configured with.\<close>

definition wait_ms :: "nat \<Rightarrow> nat \<Rightarrow> sht4x_dev_t \<Rightarrow> sht4x_dev_t" where
  "wait_ms hz ms h =
    (let (e, f, b) = bus_call (Delay_ticks (ms * hz div 1000 + 1)) (h_bus h) in h\<lparr>h_bus := b\<rparr>)"

definition send_command ::
    "nat \<Rightarrow> 8 word \<Rightarrow> nat \<Rightarrow> nat \<Rightarrow> sht4x_dev_t \<Rightarrow> esp_err_t \<times> 8 word list \<times> sht4x_dev_t" where
  "send_command hz command wait_time_ms len h =
    (let (e, f, b) = bus_call (Tx [command]) (h_bus h); h = h\<lparr>h_bus := b\<rparr> in
     if e \<noteq> ESP_OK then (e, [], h)
     else
       let h = wait_ms hz wait_time_ms h in
       if len = 0 then (ESP_OK, [], h)
       else let (e, f, b) = bus_call (Rx len) (h_bus h) in (e, map f [0..<len], h\<lparr>h_bus := b\<rparr>))"

definition ticks_to_celsius :: "'d fp \<Rightarrow> 16 word \<Rightarrow> 'd" where
  "ticks_to_celsius fp t =
    fp_add fp (fp_of_int fp (- 45)) (fp_div fp (fp_mul fp (fp_of_int fp 175) (fp_of_int fp (uint t)))
      (fp_of_int fp 65535))"

definition ticks_to_humidity :: "'d fp \<Rightarrow> 16 word \<Rightarrow> 'd" where
  "ticks_to_humidity fp t =
    fp_add fp (fp_of_int fp (- 6)) (fp_div fp (fp_mul fp (fp_of_int fp 125) (fp_of_int fp (uint t)))
      (fp_of_int fp 65535))"

definition sht4x_create :: "bool \<Rightarrow> bool \<Rightarrow> bool \<Rightarrow> bus \<Rightarrow> esp_err_t \<times> sht4x_dev_t option" where
  "sht4x_create args calloc_ok dev b =
    (if \<not> args then (ESP_ERR_INVALID_ARG, None)
     else if \<not> calloc_ok then (ESP_ERR_NO_MEM, None)
     else (ESP_OK, Some \<lparr>h_dev = dev, h_bus = b\<rparr>))"

definition sht4x_set_device :: "bool \<Rightarrow> bool \<Rightarrow> sht4x_dev_t \<Rightarrow> esp_err_t \<times> sht4x_dev_t" where
  "sht4x_set_device args dev h =
    (if \<not> args then (ESP_ERR_INVALID_ARG, h) else (ESP_OK, h\<lparr>h_dev := dev\<rparr>))"

definition converted :: "'d fp \<Rightarrow> 16 word \<Rightarrow> 16 word \<Rightarrow> 'd sht4x_measurement_t" where
  "converted fp t u =
    (let rh = ticks_to_humidity fp u;
         cropped = (if fp_less fp (fp_of_int fp 100) rh then fp_of_int fp 100
                    else if fp_less fp rh (fp_of_int fp 0) then fp_of_int fp 0 else rh) in
     \<lparr>temperature_c = ticks_to_celsius fp t, humidity_pct = rh, humidity_pct_cropped = cropped,
      humidity_was_cropped = (\<not> fp_eq fp cropped rh), temperature_ticks = t, humidity_ticks = u,
      crc_error = no_crc_error\<rparr>)"

text \<open>\<open>args\<close>: neither pointer is NULL. \<open>out\<close> is what the caller's structure holds.\<close>

definition measure_with ::
    "'d fp \<Rightarrow> nat \<Rightarrow> bool \<Rightarrow> 8 word \<Rightarrow> nat \<Rightarrow> 'd sht4x_measurement_t \<Rightarrow> sht4x_dev_t
       \<Rightarrow> esp_err_t \<times> 'd sht4x_measurement_t \<times> sht4x_dev_t" where
  "measure_with fp hz args command wait_time_ms out h =
    (if \<not> args then (ESP_ERR_INVALID_ARG, out, h)
     else if \<not> h_dev h then (ESP_ERR_INVALID_STATE, out, h)
     else
       let out = zero_measurement fp; (e, raw, h) = send_command hz command wait_time_ms RESPONSE_LEN h in
       if e \<noteq> ESP_OK then (e, out, h)
       else case decode_response raw of
         Inl c \<Rightarrow> (ESP_ERR_SHT4X_CRC, out\<lparr>crc_error := c\<rparr>, h)
       | Inr (t, u) \<Rightarrow> (ESP_OK, converted fp t u, h))"

definition sht4x_measure ::
    "'d fp \<Rightarrow> nat \<Rightarrow> bool \<Rightarrow> sht4x_repeatability_t \<Rightarrow> 'd sht4x_measurement_t \<Rightarrow> sht4x_dev_t
       \<Rightarrow> esp_err_t \<times> 'd sht4x_measurement_t \<times> sht4x_dev_t" where
  "sht4x_measure fp hz args r out h =
    (if sht4x_repeatability_name r = None then (ESP_ERR_INVALID_ARG, out, h)
     else measure_with fp hz args (word_of_int r) MEASURE_WAIT_MS out h)"

definition sht4x_run_heater ::
    "'d fp \<Rightarrow> nat \<Rightarrow> bool \<Rightarrow> sht4x_heater_t \<Rightarrow> 'd sht4x_measurement_t \<Rightarrow> sht4x_dev_t
       \<Rightarrow> esp_err_t \<times> 'd sht4x_measurement_t \<times> sht4x_dev_t" where
  "sht4x_run_heater fp hz args x out h =
    (let duration_ms = sht4x_heater_duration_ms x in
     if duration_ms < 0 then (ESP_ERR_INVALID_ARG, out, h)
     else
       let wait_time = (if duration_ms = 1000 then HEATER_LONG_WAIT_MS else HEATER_SHORT_WAIT_MS) in
       measure_with fp hz args (word_of_int x) wait_time out h)"

text \<open>The serial number, and what is told of a failed checksum; None where nothing is written.\<close>

definition sht4x_read_serial ::
    "nat \<Rightarrow> bool \<Rightarrow> sht4x_dev_t \<Rightarrow> esp_err_t \<times> 32 word option \<times> sht4x_crc_error_t option \<times> sht4x_dev_t" where
  "sht4x_read_serial hz args h =
    (if \<not> args then (ESP_ERR_INVALID_ARG, None, None, h)
     else if \<not> h_dev h then (ESP_ERR_INVALID_STATE, None, None, h)
     else
       let (e, raw, h) = send_command hz CMD_READ_SERIAL SERIAL_WAIT_MS RESPONSE_LEN h in
       if e \<noteq> ESP_OK then (e, None, None, h)
       else case decode_response raw of
         Inl c \<Rightarrow> (ESP_ERR_SHT4X_CRC, None, Some c, h)
       | Inr (high, low) \<Rightarrow> (ESP_OK, Some (push_bit 16 (ucast high) OR ucast low), None, h))"

definition sht4x_soft_reset :: "nat \<Rightarrow> bool \<Rightarrow> sht4x_dev_t \<Rightarrow> esp_err_t \<times> sht4x_dev_t" where
  "sht4x_soft_reset hz args h =
    (if \<not> args then (ESP_ERR_INVALID_ARG, h)
     else if \<not> h_dev h then (ESP_ERR_INVALID_STATE, h)
     else let (e, raw, h) = send_command hz CMD_SOFT_RESET RESET_WAIT_MS 0 h in (e, h))"

section \<open>What a measurement rests on\<close>

definition valid_reply :: "8 word list \<Rightarrow> bool" where
  "valid_reply bs \<longleftrightarrow> length bs = 6 \<and> crc8 [bs ! 0, bs ! 1] = bs ! 2 \<and> crc8 [bs ! 3, bs ! 4] = bs ! 5"

text \<open>The bytes the last operation on the bus delivered, when it was a read of a reply.\<close>

definition last_reply :: "bus \<Rightarrow> 8 word list" where
  "last_reply b = map (snd (answer b (butlast (trace b)) (Rx RESPONSE_LEN))) [0..<RESPONSE_LEN]"

definition frame_word :: "8 word \<Rightarrow> 8 word \<Rightarrow> nat" where
  "frame_word hi lo = 256 * unat hi + unat lo"

lemma frame_word_value: "unat (push_bit 8 (ucast hi) OR ucast lo :: 16 word) = frame_word hi lo"
proof -
  have hi: "unat (ucast hi :: 16 word) = unat hi" and lo: "unat (ucast lo :: 16 word) = unat lo"
    by (simp_all add: unsigned_ucast_eq take_bit_nat_eq_self less_trans [OF unat_lt_8])
  have "unat (ucast hi :: 16 word) * 2 ^ 8 < 2 ^ LENGTH(16)" using unat_lt_8 [of hi] unfolding hi by simp
  from unat_push_bit [OF this] have p: "unat (push_bit 8 (ucast hi) :: 16 word) = unat hi * 256"
    unfolding hi by simp
  have le: "unat hi * 256 + unat lo < 65536"
  proof -
    have "unat hi \<le> 255" "unat lo \<le> 255" using unat_lt_8 [of hi] unat_lt_8 [of lo] by linarith+
    then show ?thesis by linarith
  qed
  have "push_bit 8 (ucast hi) AND (ucast lo :: 16 word) = 0"
    by (rule bit_word_eqI) (auto simp: bit_simps dest: bit_imp_le_length)
  then have "push_bit 8 (ucast hi) OR (ucast lo :: 16 word) = push_bit 8 (ucast hi) + ucast lo"
    by (simp add: disjunctive_add_eq_or)
  moreover have "unat (push_bit 8 (ucast hi) :: 16 word) + unat (ucast lo :: 16 word) < 2 ^ LENGTH(16)"
    unfolding p lo using le by simp
  ultimately show ?thesis
    by (simp add: unat_add_lem [THEN iffD1] p lo frame_word_def)
qed

lemma send_command_ok:
  assumes "send_command hz c ms (Suc n) h = (ESP_OK, raw, h')"
  obtains e where "trace (h_bus h') = trace (h_bus h) @
      [(Tx [c], ESP_OK), (Delay_ticks (ms * hz div 1000 + 1), e), (Rx (Suc n), ESP_OK)]"
    "raw = map (snd (answer (h_bus h') (butlast (trace (h_bus h'))) (Rx (Suc n)))) [0..<Suc n]"
  using assms
  by (auto simp: send_command_def wait_ms_def bus_call_def Let_def split_beta butlast_append split: if_splits)

lemma measured_ok:
  assumes "sht4x_measure fp hz args r out h = (ESP_OK, m, h')"
  obtains e t u where "trace (h_bus h') = trace (h_bus h) @
      [(Tx [word_of_int r], ESP_OK), (Delay_ticks (MEASURE_WAIT_MS * hz div 1000 + 1), e), (Rx RESPONSE_LEN, ESP_OK)]"
    "decode_response (last_reply (h_bus h')) = Inr (t, u)" "m = converted fp t u"
proof -
  obtain e raw g where sc: "send_command hz (word_of_int r) MEASURE_WAIT_MS RESPONSE_LEN h = (e, raw, g)"
    by (metis surj_pair)
  have r6: "RESPONSE_LEN = Suc 5" by (simp add: RESPONSE_LEN_def)
  have ok: "e = ESP_OK" "g = h'" and d: "\<exists>t u. decode_response raw = Inr (t, u) \<and> m = converted fp t u"
    using assms sc
    by (auto simp: sht4x_measure_def measure_with_def Let_def split: if_splits sum.splits prod.splits)
  from send_command_ok [OF sc [unfolded ok r6]] d that show ?thesis
    unfolding last_reply_def r6 by metis
qed

lemma decode_ok:
  assumes "decode_response raw = Inr (t, u)" "length raw = 6"
  shows "valid_reply raw" "unat t = frame_word (raw ! 0) (raw ! 1)" "unat u = frame_word (raw ! 3) (raw ! 4)"
  using assms by (auto simp: decode_response_def valid_reply_def Let_def frame_word_value split: if_splits)

lemma six: "length bs = 6 \<Longrightarrow> bs = [bs ! 0, bs ! 1, bs ! 2, bs ! 3, bs ! 4, bs ! 5]"
  by (rule nth_equalityI) (auto simp: less_Suc_eq numeral_eq_Suc)

lemma three_three: "take 3 [a, b, c, d, e, f] = [a, b, c]" "drop 3 [a, b, c, d, e, f] = [d, e, f]"
  by simp_all

lemma reply_survives:
  assumes "valid_reply sent" "valid_reply got" "flips (take 3 sent) (take 3 got) \<le> 3"
    and "flips (drop 3 sent) (drop 3 got) \<le> 3"
  shows "got = sent"
proof -
  note s = six [of sent] six [of got]
  have l: "length sent = 6" "length got = 6" using assms by (simp_all add: valid_reply_def)
  have "take 3 sent = [sent ! 0, sent ! 1, sent ! 2]" "take 3 got = [got ! 0, got ! 1, got ! 2]"
    "drop 3 sent = [sent ! 3, sent ! 4, sent ! 5]" "drop 3 got = [got ! 3, got ! 4, got ! 5]"
    using l s by (metis three_three)+
  then have "sent ! 0 = got ! 0 \<and> sent ! 1 = got ! 1 \<and> sent ! 2 = got ! 2"
    "sent ! 3 = got ! 3 \<and> sent ! 4 = got ! 4 \<and> sent ! 5 = got ! 5"
    using assms one_word [of "sent ! 0" "sent ! 1" "sent ! 2" "got ! 0" "got ! 1" "got ! 2"]
      one_word [of "sent ! 3" "sent ! 4" "sent ! 5" "got ! 3" "got ! 4" "got ! 5"]
    by (simp_all add: valid_reply_def)
  then show ?thesis using s l by simp
qed

text \<open>C24. A measurement is what the sensor sent. When \<open>sht4x_measure\<close> reports success, it has written the
  one command byte, waited, and read six bytes, in this order and each without an error. Whatever
  reply with correct checksums the sensor sent, if the bus turned over at most three bits in
  each of its two words with their checksums, then the driver got it undamaged, and the
  temperature, the humidity and the humidity cropped to 0 to 100 it reports are those of the two
  equations of the datasheet for the words sent.\<close>

theorem sht_reading_is_what_was_sent:
  assumes "sht4x_measure real_fp hz args r out h = (ESP_OK, m, h')"
    and "valid_reply sent" "got = last_reply (h_bus h')"
    and "flips (take 3 sent) (take 3 got) \<le> 3" "flips (drop 3 sent) (drop 3 got) \<le> 3"
  shows "got = sent
    \<and> (\<exists>e. trace (h_bus h') = trace (h_bus h) @ [(Tx [word_of_int r], ESP_OK),
          (Delay_ticks (MEASURE_WAIT_MS * hz div 1000 + 1), e), (Rx 6, ESP_OK)])
    \<and> temperature_c m = 175 * real (frame_word (sent ! 0) (sent ! 1)) / 65535 - 45
    \<and> humidity_pct m = 125 * real (frame_word (sent ! 3) (sent ! 4)) / 65535 - 6
    \<and> humidity_pct_cropped m = max 0 (min 100 (humidity_pct m))
    \<and> (humidity_was_cropped m \<longleftrightarrow> humidity_pct m < 0 \<or> 100 < humidity_pct m)"
proof -
  obtain e t u where tr: "trace (h_bus h') = trace (h_bus h) @
      [(Tx [word_of_int r], ESP_OK), (Delay_ticks (MEASURE_WAIT_MS * hz div 1000 + 1), e), (Rx RESPONSE_LEN, ESP_OK)]"
    and d: "decode_response got = Inr (t, u)" and m: "m = converted real_fp t u"
    using measured_ok [OF assms(1)] unfolding assms(3) by metis
  have "length got = 6" by (simp add: assms(3) last_reply_def RESPONSE_LEN_def)
  note dec = decode_ok [OF d this]
  have got: "got = sent" using reply_survives [OF assms(2) dec(1) assms(4,5)] .
  have T: "(unsigned t :: real) = real (frame_word (sent ! 0) (sent ! 1))"
    and U: "(unsigned u :: real) = real (frame_word (sent ! 3) (sent ! 4))"
    using dec(2,3) unfolding got by (metis of_nat_unat)+
  have "temperature_c m = 175 * real (frame_word (sent ! 0) (sent ! 1)) / 65535 - 45"
    "humidity_pct m = 125 * real (frame_word (sent ! 3) (sent ! 4)) / 65535 - 6"
    by (simp_all add: m converted_def Let_def ticks_to_celsius_def ticks_to_humidity_def T U)
  moreover have "humidity_pct_cropped m = max 0 (min 100 (humidity_pct m))"
    "humidity_was_cropped m \<longleftrightarrow> humidity_pct m < 0 \<or> 100 < humidity_pct m"
    by (auto simp: m converted_def Let_def)
  ultimately show ?thesis using got tr by (auto simp: RESPONSE_LEN_def)
qed

definition room_answer :: "bus_entry list \<Rightarrow> bus_op \<Rightarrow> esp_err_t \<times> (nat \<Rightarrow> 8 word)" where
  "room_answer tr x = (ESP_OK, \<lambda>i. [0x66, 0x66, 0x93, 0x80, 0x00, 0xA2] ! i)"

definition room_sensor :: sht4x_dev_t where
  "room_sensor = \<lparr>h_dev = True, h_bus = \<lparr>trace = [], answer = room_answer\<rparr>\<rparr>"

definition room_after :: sht4x_dev_t where
  "room_after = \<lparr>h_dev = True, h_bus = \<lparr>trace = [(Tx [0xFD], ESP_OK), (Delay_ticks 2, ESP_OK), (Rx 6, ESP_OK)],
     answer = room_answer\<rparr>\<rparr>"

lemma room_decoded: "decode_response [0x66, 0x66, 0x93, 0x80, 0x00, 0xA2] = Inr (0x6666, 0x8000)"
  by code_simp

lemma six_bytes: "map (\<lambda>i. [a, b, c, d, e, f] ! i) [0..<6] = [a, b, c, d, e, f]"
  by (simp add: upt_rec)

lemma room_run:
  "sht4x_measure real_fp 100 True SHT4X_REPEATABILITY_HIGH (zero_measurement real_fp) room_sensor
     = (ESP_OK, converted real_fp 0x6666 0x8000, room_after)"
  by (simp add: sht4x_measure_def sht4x_repeatability_name_def SHT4X_REPEATABILITY_HIGH_def measure_with_def
      room_sensor_def send_command_def wait_ms_def bus_call_def room_answer_def six_bytes room_decoded
      MEASURE_WAIT_MS_def RESPONSE_LEN_def room_after_def)

theorem sht_reading_is_what_was_sent_witness:
  "temperature_c (converted real_fp 0x6666 0x8000) = 175 * 26214 / 65535 - 45
     \<and> humidity_pct (converted real_fp 0x6666 0x8000) = 125 * 32768 / 65535 - 6"
proof -
  have "valid_reply [0x66, 0x66, 0x93, 0x80, 0x00, 0xA2]" by code_simp
  moreover have "last_reply (h_bus room_after) = [0x66, 0x66, 0x93, 0x80, 0x00, 0xA2]"
    by (simp add: last_reply_def room_after_def room_answer_def RESPONSE_LEN_def six_bytes)
  ultimately show ?thesis
    using sht_reading_is_what_was_sent [OF room_run, of "[0x66, 0x66, 0x93, 0x80, 0x00, 0xA2]"]
    by (simp add: flips_def weight_poly frame_word_def)
qed

end
