(* ===== verification/Mdns_Manager.thy ===== *)
theory Mdns_Manager
  imports Net_Events
begin

text \<open>
  The advertising of services of \<open>mdns_manager/src/mdns_manager.c\<close>: the table of copied
  descriptors, publishing when a link comes up, and the flag that says so. The mDNS responder is the
  platform's: every call of it is recorded with its answer, and what it answers may depend on all
  calls before. Events are handled on one task and services are added on another, with no lock between them:
  both are also modelled step by step, in any interleaving.
\<close>

section \<open>State\<close>

definition MAX_HOSTNAME :: nat where "MAX_HOSTNAME = 64"
definition MAX_INSTANCE :: nat where "MAX_INSTANCE = 64"
definition MAX_TYPE :: nat where "MAX_TYPE = 32"
definition MAX_PROTO :: nat where "MAX_PROTO = 8"
definition MAX_TXT_STR :: nat where "MAX_TXT_STR = 64"
definition MDNS_MANAGER_MAX_TXT :: nat where "MDNS_MANAGER_MAX_TXT = 8"

lemmas mdns_sizes = MAX_HOSTNAME_def MAX_INSTANCE_def MAX_TYPE_def MAX_PROTO_def MAX_TXT_STR_def
  MDNS_MANAGER_MAX_TXT_def

record mdns_manager_service_t =
  sv_type :: cptr
  sv_proto :: cptr
  sv_port :: "16 word"
  sv_instance :: cptr
  sv_txt :: "(cptr \<times> cptr) list"
  sv_txt_count :: nat

text \<open>An entry of the table; the items of \<open>txt\<close> point into the entry's own storage.\<close>

record service_entry_t =
  e_type :: string
  e_proto :: string
  e_port :: "16 word"
  e_instance :: string
  e_txt :: "(string \<times> string) list"

datatype mdns_op =
    Mdns_init
  | Mdns_free
  | Hostname_set string
  | Instance_name_set string
  | Service_add cptr string string "16 word" "(string \<times> string) list option"
  | Handler_register
  | Handler_unregister

type_synonym mdns_trace = "(mdns_op \<times> esp_err_t) list"

text \<open>\<open>s_services\<close>: the entries in use, the first \<open>s_service_count\<close> of the static table.\<close>

record mdns_t =
  MAX_SERVICES :: nat
  s_services :: "service_entry_t list"
  s_hostname :: string
  s_instance :: string
  s_started :: bool
  s_advertising :: bool
  calls :: mdns_trace
  responder :: "mdns_trace \<Rightarrow> mdns_op \<Rightarrow> esp_err_t"

definition mdns_call :: "mdns_op \<Rightarrow> mdns_t \<Rightarrow> esp_err_t \<times> mdns_t" where
  "mdns_call x s = (let e = responder s (calls s) x in (e, s\<lparr>calls := calls s @ [(x, e)]\<rparr>))"

section \<open>Operations\<close>

definition copy_str :: "nat \<Rightarrow> cptr \<Rightarrow> string" where
  "copy_str dest_size src = (case src of None \<Rightarrow> [] | Some t \<Rightarrow> strncpy_term dest_size t)"

definition add_call :: "service_entry_t \<Rightarrow> mdns_op" where
  "add_call x =
    Service_add (if e_instance x \<noteq> [] then Some (e_instance x) else None) (e_type x) (e_proto x) (e_port x)
      (if length (e_txt x) \<noteq> 0 then Some (e_txt x) else None)"

definition publish_service :: "service_entry_t \<Rightarrow> mdns_t \<Rightarrow> esp_err_t \<times> mdns_t" where
  "publish_service x s = mdns_call (add_call x) s"

fun publish_each :: "service_entry_t list \<Rightarrow> mdns_t \<Rightarrow> mdns_t" where
  "publish_each [] s = s"
| "publish_each (x # xs) s = publish_each xs (snd (publish_service x s))"

definition publish_all :: "mdns_t \<Rightarrow> mdns_t" where
  "publish_all s =
    (if s_hostname s = [] then s
     else
       let (e, s) = mdns_call (Hostname_set (s_hostname s)) s in
       if e \<noteq> ESP_OK then s
       else
         let s = (if s_instance s \<noteq> [] then snd (mdns_call (Instance_name_set (s_instance s)) s) else s);
             s = publish_each (s_services s) s in
         s\<lparr>s_advertising := True\<rparr>)"

definition on_net_event :: "net_event_id_t \<Rightarrow> mdns_t \<Rightarrow> mdns_t" where
  "on_net_event e s =
    (case e of
       NET_EVENT_LINK_UP \<Rightarrow> publish_all s
     | NET_EVENT_AP_STARTED \<Rightarrow> publish_all s
     | NET_EVENT_LINK_DOWN \<Rightarrow> s\<lparr>s_advertising := False\<rparr>
     | NET_EVENT_AP_STOPPED \<Rightarrow> s\<lparr>s_advertising := False\<rparr>
     | _ \<Rightarrow> s)"

text \<open>The configuration: host name and instance name, each of which may be NULL.\<close>

definition mdns_manager_start :: "(cptr \<times> cptr) option \<Rightarrow> mdns_t \<Rightarrow> esp_err_t \<times> mdns_t" where
  "mdns_manager_start cfg s =
    (case cfg of None \<Rightarrow> (ESP_ERR_INVALID_ARG, s)
     | Some (hostname, instance_name) \<Rightarrow>
       if hostname = None \<or> hostname = Some [] then (ESP_ERR_INVALID_ARG, s)
       else if s_started s then (ESP_ERR_INVALID_STATE, s)
       else
         let s = s\<lparr>s_hostname := copy_str MAX_HOSTNAME hostname,
                   s_instance := copy_str MAX_INSTANCE instance_name\<rparr>;
             (e, s) = mdns_call Mdns_init s in
         if e \<noteq> ESP_OK then (e, s)
         else
           let (e, s) = mdns_call Handler_register s in
           if e \<noteq> ESP_OK then (e, snd (mdns_call Mdns_free s))
           else (ESP_OK, s\<lparr>s_started := True\<rparr>))"

definition mdns_manager_stop :: "mdns_t \<Rightarrow> esp_err_t \<times> mdns_t" where
  "mdns_manager_stop s =
    (if \<not> s_started s then (ESP_ERR_INVALID_STATE, s)
     else
       let s = snd (mdns_call Mdns_free (snd (mdns_call Handler_unregister s))) in
       (ESP_OK, s\<lparr>s_started := False, s_advertising := False\<rparr>))"

definition entry_of :: "mdns_manager_service_t \<Rightarrow> service_entry_t" where
  "entry_of v =
    \<lparr>e_type = copy_str MAX_TYPE (sv_type v), e_proto = copy_str MAX_PROTO (sv_proto v), e_port = sv_port v,
     e_instance = copy_str MAX_INSTANCE (sv_instance v),
     e_txt = map (\<lambda>(k, t). (copy_str MAX_TXT_STR k, copy_str MAX_TXT_STR t)) (take (sv_txt_count v) (sv_txt v))\<rparr>"

definition mdns_manager_add_service :: "mdns_manager_service_t option \<Rightarrow> mdns_t \<Rightarrow> esp_err_t \<times> mdns_t" where
  "mdns_manager_add_service service s =
    (case service of None \<Rightarrow> (ESP_ERR_INVALID_ARG, s)
     | Some v \<Rightarrow>
       if sv_type v = None \<or> sv_proto v = None then (ESP_ERR_INVALID_ARG, s)
       else if sv_txt_count v > MDNS_MANAGER_MAX_TXT then (ESP_ERR_INVALID_SIZE, s)
       else if length (s_services s) = MAX_SERVICES s then (ESP_ERR_NO_MEM, s)
       else
         let s = s\<lparr>s_services := s_services s @ [entry_of v]\<rparr> in
         (ESP_OK, if s_advertising s then snd (publish_service (entry_of v) s) else s))"

definition mdns_manager_is_advertising :: "mdns_t \<Rightarrow> bool" where
  "mdns_manager_is_advertising s = s_advertising s"

lemma add_call_other [simp]: "add_call x \<noteq> Mdns_init" "add_call x \<noteq> Mdns_free" "add_call x \<noteq> Handler_register"
  by (simp_all add: add_call_def)

section \<open>What the responder was told\<close>

lemma mdns_call_frame [simp]:
  "s_services (snd (mdns_call x s)) = s_services s" "s_hostname (snd (mdns_call x s)) = s_hostname s"
  "s_instance (snd (mdns_call x s)) = s_instance s" "s_started (snd (mdns_call x s)) = s_started s"
  "s_advertising (snd (mdns_call x s)) = s_advertising s" "MAX_SERVICES (snd (mdns_call x s)) = MAX_SERVICES s"
  "responder (snd (mdns_call x s)) = responder s"
  by (simp_all add: mdns_call_def Let_def)

lemma mdns_call_calls [simp]: "calls (snd (mdns_call x s)) = calls s @ [(x, fst (mdns_call x s))]"
  by (simp add: mdns_call_def Let_def)

lemma publish_each_frame [simp]:
  "s_services (publish_each xs s) = s_services s" "s_hostname (publish_each xs s) = s_hostname s"
  "s_instance (publish_each xs s) = s_instance s" "s_started (publish_each xs s) = s_started s"
  "s_advertising (publish_each xs s) = s_advertising s" "MAX_SERVICES (publish_each xs s) = MAX_SERVICES s"
  "responder (publish_each xs s) = responder s"
  by (induction xs arbitrary: s) (simp_all add: publish_service_def)

text \<open>The calls since the responder was last initialised.\<close>

definition session :: "mdns_trace \<Rightarrow> mdns_trace" where
  "session t = takeWhile (\<lambda>(x, e). x \<noteq> Mdns_init \<and> x \<noteq> Mdns_free) (rev t)"

lemma session_snoc:
  "session (t @ [(x, e)]) = (if x = Mdns_init \<or> x = Mdns_free then [] else (x, e) # session t)"
  by (simp add: session_def)

text \<open>The services handed to it.\<close>

definition announced :: "mdns_trace \<Rightarrow> mdns_op set" where
  "announced t = fst ` set (session t)"

lemma announced_snoc:
  "announced (t @ [(x, e)]) = (if x = Mdns_init \<or> x = Mdns_free then {} else insert x (announced t))"
  by (simp add: announced_def session_snoc)

section \<open>What holds at all times\<close>

definition mdns_boot :: "mdns_t \<Rightarrow> bool" where
  "mdns_boot s \<longleftrightarrow> s_services s = [] \<and> \<not> s_started s \<and> \<not> s_advertising s \<and> calls s = []"

text \<open>Whether the responder is up after a sequence of calls; None when one of them was made that
  needs it up, or one that needs it down, when it was not.\<close>

definition responder_use :: "mdns_op \<times> esp_err_t \<Rightarrow> bool option \<Rightarrow> bool option" where
  "responder_use c u =
    (case u of None \<Rightarrow> None
     | Some up \<Rightarrow>
       (case fst c of
          Mdns_init \<Rightarrow> if up then None else Some (snd c = ESP_OK)
        | Mdns_free \<Rightarrow> if up then Some False else None
        | Handler_register \<Rightarrow> Some up
        | Handler_unregister \<Rightarrow> Some up
        | _ \<Rightarrow> if up then Some True else None))"

definition responder_up :: "mdns_trace \<Rightarrow> bool option" where
  "responder_up t = fold responder_use t (Some False)"

lemma responder_up_append: "responder_up (t @ u) = fold responder_use u (responder_up t)"
  by (simp add: responder_up_def)

definition entry_fits :: "service_entry_t \<Rightarrow> bool" where
  "entry_fits x \<longleftrightarrow> length (e_type x) < MAX_TYPE \<and> length (e_proto x) < MAX_PROTO
     \<and> length (e_instance x) < MAX_INSTANCE \<and> length (e_txt x) \<le> MDNS_MANAGER_MAX_TXT
     \<and> (\<forall>(k, t) \<in> set (e_txt x). length k < MAX_TXT_STR \<and> length t < MAX_TXT_STR)"

definition mdns_types :: "mdns_t \<Rightarrow> bool" where
  "mdns_types s \<longleftrightarrow> length (s_services s) \<le> MAX_SERVICES s \<and> list_all entry_fits (s_services s)
     \<and> responder_up (calls s) = Some (s_started s) \<and> (s_advertising s \<longrightarrow> s_started s)
     \<and> (s_started s \<longrightarrow> s_hostname s \<noteq> [] \<and> length (s_hostname s) < MAX_HOSTNAME
          \<and> length (s_instance s) < MAX_INSTANCE)"

lemma copy_str_length: "0 < n \<Longrightarrow> length (copy_str n x) < n"
  by (simp add: copy_str_def length_strncpy_term split: option.split)

lemma copy_str_nonempty: "x \<noteq> None \<Longrightarrow> x \<noteq> Some [] \<Longrightarrow> 1 < n \<Longrightarrow> copy_str n x \<noteq> []"
  by (auto simp: copy_str_def strncpy_term_def)

lemma entry_of_fits: "sv_txt_count v \<le> MDNS_MANAGER_MAX_TXT \<Longrightarrow> entry_fits (entry_of v)"
  by (auto simp: entry_fits_def entry_of_def mdns_sizes copy_str_length)

lemma add_call_use: "responder_use (add_call x, e) (Some True) = Some True"
  by (simp add: add_call_def responder_use_def)

lemma mdns_start_inv: "mdns_types s \<Longrightarrow> mdns_types (snd (mdns_manager_start cfg s))"
  by (auto simp: mdns_manager_start_def mdns_types_def Let_def split_beta responder_up_append
      responder_use_def copy_str_length copy_str_nonempty mdns_sizes split: option.split)

lemma mdns_stop_inv: "mdns_types s \<Longrightarrow> mdns_types (snd (mdns_manager_stop s))"
  by (auto simp: mdns_manager_stop_def mdns_types_def Let_def responder_up_append responder_use_def)

lemma mdns_boot_types: "mdns_boot s \<Longrightarrow> mdns_types s"
  by (simp add: mdns_boot_def mdns_types_def responder_up_def)

section \<open>Two tasks\<close>

text \<open>The handler runs on the task of the event loop, registrations on any other, and no lock is
  between them. So here the handler is cut at every statement that touches what they share: it is where
  \<open>publisher\<close> says, in front of the loop with its next index, or behind the loop and in front of the
  assignment of the flag. A registration is cut between entering the table and looking at the flag.\<close>

datatype publisher = Waiting | Entering | Publishing nat | Loop_done

definition publish_next :: "publisher \<Rightarrow> mdns_t \<Rightarrow> mdns_t \<times> publisher" where
  "publish_next pc s =
    (case pc of
       Waiting \<Rightarrow> (s, Waiting)
     | Entering \<Rightarrow>
         if s_hostname s = [] then (s, Waiting)
         else
           let (e, s) = mdns_call (Hostname_set (s_hostname s)) s in
           if e \<noteq> ESP_OK then (s, Waiting)
           else (if s_instance s \<noteq> [] then snd (mdns_call (Instance_name_set (s_instance s)) s) else s, Publishing 0)
     | Publishing i \<Rightarrow>
         if i < length (s_services s) then (snd (publish_service (s_services s ! i) s), Publishing (i + 1))
         else (s, Loop_done)
     | Loop_done \<Rightarrow> (s\<lparr>s_advertising := True\<rparr>, Waiting))"

definition deliver_event :: "net_event_id_t \<Rightarrow> mdns_t \<Rightarrow> mdns_t \<times> publisher" where
  "deliver_event e s =
    (case e of
       NET_EVENT_LINK_UP \<Rightarrow> (s, Entering)
     | NET_EVENT_AP_STARTED \<Rightarrow> (s, Entering)
     | NET_EVENT_LINK_DOWN \<Rightarrow> (s\<lparr>s_advertising := False\<rparr>, Waiting)
     | NET_EVENT_AP_STOPPED \<Rightarrow> (s\<lparr>s_advertising := False\<rparr>, Waiting)
     | _ \<Rightarrow> (s, Waiting))"

definition add_enter :: "mdns_manager_service_t option \<Rightarrow> mdns_t \<Rightarrow> esp_err_t \<times> service_entry_t option \<times> mdns_t" where
  "add_enter service s =
    (case service of None \<Rightarrow> (ESP_ERR_INVALID_ARG, None, s)
     | Some v \<Rightarrow>
       if sv_type v = None \<or> sv_proto v = None then (ESP_ERR_INVALID_ARG, None, s)
       else if sv_txt_count v > MDNS_MANAGER_MAX_TXT then (ESP_ERR_INVALID_SIZE, None, s)
       else if length (s_services s) = MAX_SERVICES s then (ESP_ERR_NO_MEM, None, s)
       else (ESP_OK, Some (entry_of v), s\<lparr>s_services := s_services s @ [entry_of v]\<rparr>))"

definition add_finish :: "service_entry_t \<Rightarrow> mdns_t \<Rightarrow> mdns_t" where
  "add_finish x s = (if s_advertising s then snd (publish_service x s) else s)"

text \<open>Undisturbed, the pieces make up the whole operations.\<close>

lemma add_in_two: "mdns_manager_add_service v s =
    (case add_enter v s of (e, None, t) \<Rightarrow> (e, t) | (e, Some x, t) \<Rightarrow> (e, add_finish x t))"
  by (simp add: mdns_manager_add_service_def add_enter_def add_finish_def split: option.split)

fun publish_steps :: "nat \<Rightarrow> mdns_t \<times> publisher \<Rightarrow> mdns_t \<times> publisher" where
  "publish_steps 0 x = x"
| "publish_steps (Suc n) (s, pc) = publish_steps n (publish_next pc s)"

lemma publish_loop:
  "i \<le> length (s_services s) \<Longrightarrow>
    publish_steps (length (s_services s) - i) (s, Publishing i)
      = (publish_each (drop i (s_services s)) s, Publishing (length (s_services s)))"
proof (induction "length (s_services s) - i" arbitrary: i s)
  case (Suc n)
  let ?t = "snd (publish_service (s_services s ! i) s)"
  have i: "i < length (s_services s)" using Suc(2) by simp
  have "length (s_services s) - i = Suc (length (s_services ?t) - Suc i)"
    using i by (simp add: publish_service_def)
  moreover have "publish_next (Publishing i) s = (?t, Publishing (Suc i))" using i by (simp add: publish_next_def)
  moreover have "s_services ?t = s_services s" by (simp add: publish_service_def)
  ultimately show ?case
    using Suc(1) [of ?t "Suc i"] Suc(2) i by (simp add: Cons_nth_drop_Suc [symmetric])
qed simp

lemma publish_steps_add: "publish_steps (m + n) x = publish_steps n (publish_steps m x)"
  by (induction m x rule: publish_steps.induct) simp_all

lemma publish_all_in_steps: "\<exists>n. publish_steps n (s, Entering) = (publish_all s, Waiting)"
proof -
  let ?c = "mdns_call (Hostname_set (s_hostname s)) s"
  show ?thesis
  proof (cases "s_hostname s \<noteq> [] \<and> fst ?c = ESP_OK")
    case False
    then have "publish_steps 1 (s, Entering) = (publish_all s, Waiting)"
      by (auto simp: publish_next_def publish_all_def split_beta Let_def)
    then show ?thesis by blast
  next
    case True
    define t where "t = (if s_instance s \<noteq> [] then snd (mdns_call (Instance_name_set (s_instance s)) (snd ?c)) else snd ?c)"
    have one: "publish_steps 1 (s, Entering) = (t, Publishing 0)"
      using True by (simp add: publish_next_def t_def split_beta Let_def)
    have loop: "publish_steps (length (s_services t)) (t, Publishing 0)
        = (publish_each (s_services t) t, Publishing (length (s_services t)))"
      using publish_loop [of 0 t] by simp
    have two: "publish_steps 2 (u, Publishing (length (s_services u))) = (u\<lparr>s_advertising := True\<rparr>, Waiting)" for u
      by (simp add: numeral_2_eq_2 publish_next_def)
    have "publish_steps (1 + (length (s_services t) + 2)) (s, Entering)
        = ((publish_each (s_services t) t)\<lparr>s_advertising := True\<rparr>, Waiting)"
      unfolding publish_steps_add one loop using two [of "publish_each (s_services t) t"] by simp
    moreover have "publish_all s = (publish_each (s_services t) t)\<lparr>s_advertising := True\<rparr>"
      using True by (simp add: publish_all_def t_def split_beta Let_def)
    ultimately show ?thesis by metis
  qed
qed

lemma event_in_steps: "\<exists>n. publish_steps n (deliver_event e s) = (on_net_event e s, Waiting)"
  using publish_all_in_steps [of s]
  by (cases e) (auto simp: deliver_event_def on_net_event_def intro: exI [of _ 0])

text \<open>The two tasks together. \<open>adding\<close>: the registration that is between its halves. \<open>late\<close>: the
  services whose registration looked at the flag after the handler had left its loop and before it set
  the flag. The event loop runs one handler at a time and removes none that is running, so a stop waits
  for it; calls of the manager are made by one task at a time.\<close>

record mdns_tasks =
  manager :: mdns_t
  publishing :: publisher
  adding :: "service_entry_t option"
  late :: "service_entry_t set"

inductive task_step :: "mdns_tasks \<Rightarrow> mdns_tasks \<Rightarrow> bool" where
  t_start: "adding w = None \<Longrightarrow> task_step w (w\<lparr>manager := snd (mdns_manager_start cfg (manager w))\<rparr>)"
| t_stop: "adding w = None \<Longrightarrow> publishing w = Waiting \<Longrightarrow>
    task_step w (w\<lparr>manager := snd (mdns_manager_stop (manager w))\<rparr>)"
| t_enter: "adding w = None \<Longrightarrow> add_enter v (manager w) = (e, a, m) \<Longrightarrow> task_step w (w\<lparr>manager := m, adding := a\<rparr>)"
| t_finish: "adding w = Some x \<Longrightarrow>
    task_step w (w\<lparr>manager := add_finish x (manager w), adding := None,
      late := (if publishing w = Loop_done \<and> \<not> s_advertising (manager w) then insert x (late w) else late w)\<rparr>)"
| t_event: "publishing w = Waiting \<Longrightarrow> s_started (manager w) \<Longrightarrow> deliver_event e (manager w) = (m, pc) \<Longrightarrow>
    task_step w (w\<lparr>manager := m, publishing := pc\<rparr>)"
| t_publish: "publish_next (publishing w) (manager w) = (m, pc) \<Longrightarrow> task_step w (w\<lparr>manager := m, publishing := pc\<rparr>)"

definition handed :: "mdns_t \<Rightarrow> service_entry_t \<Rightarrow> bool" where
  "handed m x \<longleftrightarrow> add_call x \<in> announced (calls m)"

definition named :: "mdns_t \<Rightarrow> bool" where
  "named m \<longleftrightarrow> (Hostname_set (s_hostname m), ESP_OK) \<in> set (session (calls m))"

lemma add_call_no_name [simp]: "add_call x \<noteq> Hostname_set h" "add_call x \<noteq> Instance_name_set h"
  by (simp_all add: add_call_def)

lemma mdns_call_told [simp]:
  "x \<noteq> Mdns_init \<Longrightarrow> x \<noteq> Mdns_free \<Longrightarrow>
    named (snd (mdns_call x m)) = (x = Hostname_set (s_hostname m) \<and> fst (mdns_call x m) = ESP_OK \<or> named m)"
  "x \<noteq> Mdns_init \<Longrightarrow> x \<noteq> Mdns_free \<Longrightarrow> handed (snd (mdns_call x m)) y = (add_call y = x \<or> handed m y)"
  by (auto simp: named_def handed_def session_snoc announced_snoc)

lemma told_fields [simp]:
  "named (m\<lparr>s_advertising := b\<rparr>) = named m" "handed (m\<lparr>s_advertising := b\<rparr>) x = handed m x"
  "named (m\<lparr>s_services := xs\<rparr>) = named m" "handed (m\<lparr>s_services := xs\<rparr>) x = handed m x"
  by (simp_all add: named_def handed_def)

definition task_inv :: "mdns_tasks \<Rightarrow> bool" where
  "task_inv w \<longleftrightarrow> (let m = manager w in
     mdns_types m \<and> (publishing w \<noteq> Waiting \<longrightarrow> s_started m)
     \<and> (s_advertising m \<or> (\<exists>i. publishing w = Publishing i) \<or> publishing w = Loop_done \<longrightarrow> named m)
     \<and> (\<forall>i. publishing w = Publishing i \<longrightarrow> i \<le> length (s_services m) \<and> (\<forall>j < i. handed m (s_services m ! j)))
     \<and> (s_advertising m \<or> publishing w = Loop_done \<longrightarrow>
          (\<forall>x \<in> set (s_services m). handed m x \<or> adding w = Some x \<or> x \<in> late w)))"

lemma start_quiet:
  "s_started m \<Longrightarrow> snd (mdns_manager_start cfg m) = m"
  "s_advertising (snd (mdns_manager_start cfg m)) = s_advertising m"
  by (simp_all add: mdns_manager_start_def split_beta Let_def split: option.split)

lemma stop_quiet: "\<not> s_started m \<Longrightarrow> snd (mdns_manager_stop m) = m" "s_started m \<Longrightarrow> \<not> s_advertising (snd (mdns_manager_stop m))"
  by (simp_all add: mdns_manager_stop_def Let_def)

lemma name_use: "responder_use (Hostname_set h, e) (Some True) = Some True"
    "responder_use (Instance_name_set h, e) (Some True) = Some True"
  by (simp_all add: responder_use_def)

lemma publish_next_types: "mdns_types m \<Longrightarrow> s_started m \<Longrightarrow> mdns_types (fst (publish_next pc m))"
  by (auto simp: publish_next_def publish_service_def mdns_types_def Let_def split_beta responder_up_append
      name_use add_call_use split: publisher.split)

lemma add_types:
  "mdns_types m \<Longrightarrow> add_enter v m = (e, a, m') \<Longrightarrow> mdns_types m'"
  "mdns_types m \<Longrightarrow> mdns_types (add_finish x m)"
  by (auto simp: add_enter_def add_finish_def mdns_types_def publish_service_def responder_up_append add_call_use
      entry_of_fits split: option.splits if_splits)

lemma publish_next_inv:
  assumes inv: "task_inv w" and step: "publish_next (publishing w) (manager w) = (m, pc)"
  shows "task_inv (w\<lparr>manager := m, publishing := pc\<rparr>)"
proof (cases "publishing w")
  case Waiting
  then show ?thesis using assms by (auto simp: publish_next_def task_inv_def Let_def)
next
  case Entering
  have t: "mdns_types m" "s_started (manager w)"
    using inv step Entering publish_next_types [of "manager w" Entering] by (auto simp: task_inv_def Let_def)
  show ?thesis
    using step t Entering inv
    by (auto simp: publish_next_def task_inv_def Let_def split_beta split: if_splits)
next
  case (Publishing i)
  have t: "mdns_types m" "s_started (manager w)"
    using inv step Publishing publish_next_types [of "manager w" "Publishing i"] by (auto simp: task_inv_def Let_def)
  show ?thesis
    using step t Publishing inv
    by (auto simp: publish_next_def publish_service_def task_inv_def Let_def less_Suc_eq in_set_conv_nth split: if_splits)
next
  case Loop_done
  have t: "mdns_types m" "s_started (manager w)"
    using inv step Loop_done publish_next_types [of "manager w" Loop_done] by (auto simp: task_inv_def Let_def)
  show ?thesis using step t Loop_done inv by (auto simp: publish_next_def task_inv_def Let_def)
qed

lemma add_enter_cases:
  assumes "add_enter v m = (e, a, m')"
  obtains "a = None" "m' = m" | x where "a = Some x" "m' = m\<lparr>s_services := s_services m @ [x]\<rparr>"
  using assms by (auto simp: add_enter_def split: option.splits if_splits)

lemma task_step_inv: "task_step w w' \<Longrightarrow> task_inv w \<Longrightarrow> task_inv w'"
proof (induction rule: task_step.induct)
  case (t_start w cfg)
  then show ?case
    using start_quiet(2) [of cfg "manager w"] mdns_start_inv [of "manager w" cfg]
    by (cases "s_started (manager w)") (auto simp: task_inv_def mdns_types_def [of "manager w"] start_quiet(1) Let_def)
next
  case (t_stop w)
  then show ?case
    using stop_quiet [of "manager w"] mdns_stop_inv [of "manager w"]
    by (cases "s_started (manager w)") (auto simp: task_inv_def Let_def)
next
  case (t_enter w v e a m)
  have t: "mdns_types m" using t_enter add_types(1) by (auto simp: task_inv_def Let_def)
  from t_enter(2) show ?case
  proof (rule add_enter_cases)
    assume "a = None" "m = manager w"
    then show ?thesis using t_enter(1,3) by (simp add: task_inv_def Let_def)
  next
    fix x
    assume x: "a = Some x" "m = (manager w)\<lparr>s_services := s_services (manager w) @ [x]\<rparr>"
    then show ?thesis using t_enter(1,3) t by (auto simp: task_inv_def Let_def nth_append)
  qed
next
  case (t_finish w x)
  then show ?case
    using add_types(2) [of "manager w" x] by (auto simp: task_inv_def Let_def add_finish_def publish_service_def)
next
  case (t_event w e m pc)
  then show ?case
    by (auto simp: task_inv_def Let_def deliver_event_def mdns_types_def split: net_event_id_t.splits)
next
  case (t_publish w m pc)
  then show ?case using publish_next_inv by blast
qed

definition tasks_boot :: "mdns_tasks \<Rightarrow> bool" where
  "tasks_boot w \<longleftrightarrow> mdns_boot (manager w) \<and> publishing w = Waiting \<and> adding w = None \<and> late w = {}"

lemma tasks_inv:
  assumes "task_step\<^sup>*\<^sup>* w t" "tasks_boot w"
  shows "task_inv t"
proof (rule steps_keep [OF assms(1)])
  show "task_inv w"
    using assms(2) mdns_boot_types [of "manager w"] by (simp add: task_inv_def tasks_boot_def mdns_boot_def Let_def)
qed (use task_step_inv in blast)

text \<open>The manager keeps to the types and the protocol of what it drives. However the two tasks interleave, and
  whatever the responder answers: the table never exceeds its capacity and every string in it fits its buffer with
  the terminator, however long the caller's was; and the responder is initialised only when it is down and
  told or freed only when it is up, which it is exactly while the manager is started.\<close>

lemma mdns_table_and_protocol:
  assumes "tasks_boot w" "task_step\<^sup>*\<^sup>* w t"
  shows "length (s_services (manager t)) \<le> MAX_SERVICES (manager t) \<and> list_all entry_fits (s_services (manager t))
    \<and> responder_up (calls (manager t)) = Some (s_started (manager t))"
  using tasks_inv [OF assms(2,1)] by (simp add: task_inv_def mdns_types_def Let_def)


section \<open>A run\<close>

definition web_service :: mdns_manager_service_t where
  "web_service = \<lparr>sv_type = Some ''_http'', sv_proto = Some ''_tcp'', sv_port = 80, sv_instance = None,
     sv_txt = [(Some ''path'', Some ''/'')], sv_txt_count = 1\<rparr>"

definition mdns_cold :: mdns_t where
  "mdns_cold = \<lparr>MAX_SERVICES = 4, s_services = [], s_hostname = [], s_instance = [], s_started = False,
     s_advertising = False, calls = [], responder = \<lambda>t x. ESP_OK\<rparr>"

definition mdns_added :: mdns_t where
  "mdns_added = snd (mdns_manager_add_service (Some web_service) mdns_cold)"

definition mdns_ready :: mdns_t where
  "mdns_ready = snd (mdns_manager_start (Some (Some ''esp'', None)) mdns_added)"

definition mdns_up :: mdns_t where
  "mdns_up = on_net_event NET_EVENT_LINK_UP mdns_ready"

lemma mdns_cold_boot: "mdns_boot mdns_cold"
  by (simp add: mdns_boot_def mdns_cold_def)

definition tasks_at :: "mdns_t \<Rightarrow> mdns_tasks" where
  "tasks_at m = \<lparr>manager = m, publishing = Waiting, adding = None, late = {}\<rparr>"

lemma publish_run: "task_step\<^sup>*\<^sup>* w (w\<lparr>manager := fst (publish_steps n (manager w, publishing w)),
    publishing := snd (publish_steps n (manager w, publishing w))\<rparr>)"
proof (induction n arbitrary: w)
  case (Suc n)
  obtain m pc where m: "publish_next (publishing w) (manager w) = (m, pc)" by fastforce
  from converse_rtranclp_into_rtranclp [OF t_publish [OF m] Suc.IH [of "w\<lparr>manager := m, publishing := pc\<rparr>"]] m
  show ?case by simp
qed simp

lemma mdns_up_reached: "task_step\<^sup>*\<^sup>* (tasks_at mdns_cold) (tasks_at mdns_up)"
proof -
  let ?x = "entry_of web_service" and ?m = "mdns_cold\<lparr>s_services := [entry_of web_service]\<rparr>"
  have v: "add_enter (Some web_service) mdns_cold = (ESP_OK, Some ?x, ?m)"
    by (simp add: add_enter_def web_service_def MDNS_MANAGER_MAX_TXT_def mdns_cold_def)
  have a: "mdns_added = add_finish ?x ?m" by (simp add: mdns_added_def add_in_two v)
  have "task_step (tasks_at mdns_cold) ((tasks_at ?m)\<lparr>adding := Some ?x\<rparr>)"
    using t_enter [of "tasks_at mdns_cold" "Some web_service"] v by (simp add: tasks_at_def)
  moreover have "task_step ((tasks_at ?m)\<lparr>adding := Some ?x\<rparr>) (tasks_at mdns_added)"
    using t_finish [of "(tasks_at ?m)\<lparr>adding := Some ?x\<rparr>" ?x] by (simp add: tasks_at_def a)
  moreover have "task_step (tasks_at mdns_added) (tasks_at mdns_ready)"
    using t_start [of "tasks_at mdns_added"] by (simp add: tasks_at_def mdns_ready_def)
  ultimately have "task_step\<^sup>*\<^sup>* (tasks_at mdns_cold) (tasks_at mdns_ready)" by (rule three_steps)
  also have "s_started mdns_ready" by code_simp
  then have "task_step (tasks_at mdns_ready) ((tasks_at mdns_ready)\<lparr>publishing := Entering\<rparr>)"
    using t_event [of "tasks_at mdns_ready" NET_EVENT_LINK_UP] by (simp add: tasks_at_def deliver_event_def)
  also obtain n where "publish_steps n (mdns_ready, Entering) = (mdns_up, Waiting)"
    using publish_all_in_steps [of mdns_ready] by (auto simp: mdns_up_def on_net_event_def)
  then have "task_step\<^sup>*\<^sup>* ((tasks_at mdns_ready)\<lparr>publishing := Entering\<rparr>) (tasks_at mdns_up)"
    using publish_run [of "(tasks_at mdns_ready)\<lparr>publishing := Entering\<rparr>" n] by (simp add: tasks_at_def)
  finally show ?thesis .
qed

lemma mdns_cold_tasks: "tasks_boot (tasks_at mdns_cold)"
  by (simp add: tasks_boot_def tasks_at_def mdns_cold_boot)


text \<open>The gap: a service registered just behind the handler's loop. The manager advertises, nothing is going on,
  and the responder has never heard of the service.\<close>

definition mdns_gap :: mdns_t where
  "mdns_gap =
    (let m = snd (mdns_manager_start (Some (Some ''esp'', None)) mdns_cold);
         (m, pc) = publish_steps 2 (deliver_event NET_EVENT_LINK_UP m);
         m = snd (mdns_manager_add_service (Some web_service) m)
     in fst (publish_next pc m))"

lemma mdns_late_service_missed:
  "mdns_manager_is_advertising mdns_gap \<and> s_services mdns_gap = [entry_of web_service]
     \<and> (add_call (entry_of web_service), e) \<notin> set (calls mdns_gap)"
  by (simp add: mdns_gap_def mdns_cold_def mdns_manager_add_service_def web_service_def MDNS_MANAGER_MAX_TXT_def
      mdns_manager_start_def mdns_call_def deliver_event_def numeral_2_eq_2 publish_next_def
      copy_str_def MAX_HOSTNAME_def MAX_INSTANCE_def strncpy_term_def mdns_manager_is_advertising_def Let_def)

section \<open>The service over the link\<close>

lemma publish_all_serves:
  "s_hostname s \<noteq> [] \<Longrightarrow> (\<And>t h. responder s t (Hostname_set h) = ESP_OK) \<Longrightarrow> s_advertising (publish_all s)"
  "s_advertising s \<Longrightarrow> s_advertising (publish_all s)"
  by (auto simp: publish_all_def Let_def split_beta) (simp add: mdns_call_def Let_def)

lemma publish_all_frame: "s_hostname (publish_all s) = s_hostname s" "responder (publish_all s) = responder s"
  by (simp_all add: publish_all_def Let_def split_beta)

interpretation mdns_link: link_service on_net_event
  "\<lambda>s. s_hostname s \<noteq> [] \<and> (\<forall>t h. responder s t (Hostname_set h) = ESP_OK)" s_advertising
  "{NET_EVENT_LINK_UP, NET_EVENT_AP_STARTED}" "{NET_EVENT_LINK_DOWN, NET_EVENT_AP_STOPPED}"
  by unfold_locales
    (auto simp: on_net_event_def publish_all_frame publish_all_serves split: net_event_id_t.splits)

end
