(* ===== verification/Ntp_Manager.thy ===== *)
theory Ntp_Manager
  imports Net_Events
begin

text \<open>
  Clock synchronisation of \<open>ntp_manager/src/ntp_manager.c\<close>: the SNTP client is started, and
  restarted, when a link comes up, and reports each time it set the clock through a callback. The client,
  the environment and the event loop are the platform's; calls of them are recorded with their answers.
\<close>

section \<open>State\<close>

record ntp_manager_config_t =
  enabled :: bool
  server :: string
  server_fallback :: string
  sync_interval_ms :: "32 word"
  timezone :: string

text \<open>Seconds and microseconds.\<close>

type_synonym timeval = "int \<times> int"

datatype ntp_op =
    Sntp_init "string list"
  | Sntp_deinit
  | Set_interval "32 word"
  | Set_timezone string
  | Handler_register
  | Handler_unregister
  | Post_synced timeval

type_synonym ntp_trace = "(ntp_op \<times> esp_err_t) list"

text \<open>\<open>MAX_SERVERS\<close> is \<open>CONFIG_LWIP_SNTP_MAX_SERVERS\<close> of the build.\<close>

record ntp_t =
  MAX_SERVERS :: nat
  s_cfg :: ntp_manager_config_t
  s_started :: bool
  s_sntp_running :: bool
  s_synced :: bool
  s_last_sync :: timeval
  calls :: ntp_trace
  platform :: "ntp_trace \<Rightarrow> ntp_op \<Rightarrow> esp_err_t"

definition ntp_call :: "ntp_op \<Rightarrow> ntp_t \<Rightarrow> esp_err_t \<times> ntp_t" where
  "ntp_call x s = (let e = platform s (calls s) x in (e, s\<lparr>calls := calls s @ [(x, e)]\<rparr>))"

section \<open>Operations\<close>

definition on_time_sync :: "timeval \<Rightarrow> ntp_t \<Rightarrow> ntp_t" where
  "on_time_sync tv s = snd (ntp_call (Post_synced tv) (s\<lparr>s_synced := True, s_last_sync := tv\<rparr>))"

definition start_sntp :: "ntp_t \<Rightarrow> ntp_t" where
  "start_sntp s =
    (let s = (if s_sntp_running s then (snd (ntp_call Sntp_deinit s))\<lparr>s_sntp_running := False\<rparr> else s);
         want_fallback = (server_fallback (s_cfg s) \<noteq> []);
         count = (if MAX_SERVERS s > 1 \<and> want_fallback then 2 else (1::nat));
         servers = server (s_cfg s) # (if count > 1 then [server_fallback (s_cfg s)] else []);
         (e, s) = ntp_call (Sntp_init servers) s in
     if e \<noteq> ESP_OK then s
     else snd (ntp_call (Set_interval (sync_interval_ms (s_cfg s))) (s\<lparr>s_sntp_running := True\<rparr>)))"

definition on_net_event :: "net_event_id_t \<Rightarrow> ntp_t \<Rightarrow> ntp_t" where
  "on_net_event e s = (case e of NET_EVENT_LINK_UP \<Rightarrow> start_sntp s | _ \<Rightarrow> s)"

definition ntp_manager_start :: "ntp_manager_config_t option \<Rightarrow> ntp_t \<Rightarrow> esp_err_t \<times> ntp_t" where
  "ntp_manager_start cfg s =
    (case cfg of None \<Rightarrow> (ESP_ERR_INVALID_ARG, s)
     | Some c \<Rightarrow>
       if s_started s then (ESP_ERR_INVALID_STATE, s)
       else
         let s = s\<lparr>s_cfg := c\<rparr> in
         if \<not> enabled c then (ESP_OK, s)
         else
           let s = (if timezone c \<noteq> [] then snd (ntp_call (Set_timezone (timezone c)) s) else s);
               (e, s) = ntp_call Handler_register s in
           if e \<noteq> ESP_OK then (e, s) else (ESP_OK, s\<lparr>s_started := True\<rparr>))"

definition ntp_manager_stop :: "ntp_t \<Rightarrow> esp_err_t \<times> ntp_t" where
  "ntp_manager_stop s =
    (if \<not> s_started s then (ESP_ERR_INVALID_STATE, s)
     else
       let s = snd (ntp_call Handler_unregister s);
           s = (if s_sntp_running s then (snd (ntp_call Sntp_deinit s))\<lparr>s_sntp_running := False\<rparr> else s) in
       (ESP_OK, s\<lparr>s_started := False\<rparr>))"

definition ntp_manager_is_synced :: "ntp_t \<Rightarrow> bool" where
  "ntp_manager_is_synced s = s_synced s"

text \<open>\<open>out\<close>: what the caller's variable holds, None for a NULL pointer.\<close>

definition ntp_manager_last_sync :: "timeval option \<Rightarrow> ntp_t \<Rightarrow> esp_err_t \<times> timeval option" where
  "ntp_manager_last_sync out s =
    (if out = None then (ESP_ERR_INVALID_ARG, out)
     else if \<not> s_synced s then (ESP_ERR_INVALID_STATE, out)
     else (ESP_OK, Some (s_last_sync s)))"

section \<open>Any history\<close>

text \<open>Network events reach the handler between its registration and its removal; the client calls
  back while it runs.\<close>

inductive ntp_step :: "ntp_t \<Rightarrow> ntp_t \<Rightarrow> bool" where
  start: "ntp_step s (snd (ntp_manager_start cfg s))"
| stop: "ntp_step s (snd (ntp_manager_stop s))"
| net: "s_started s \<Longrightarrow> ntp_step s (on_net_event e s)"
| synced: "s_sntp_running s \<Longrightarrow> ntp_step s (on_time_sync tv s)"

definition ntp_boot :: "ntp_t \<Rightarrow> bool" where
  "ntp_boot s \<longleftrightarrow> \<not> s_started s \<and> \<not> s_sntp_running s \<and> \<not> s_synced s \<and> calls s = [] \<and> 0 < MAX_SERVERS s"

text \<open>What the calls made add up to: whether the client runs (None when it was initialised while it
  ran, stopped while it did not, or given no server or more than there is room for), the time zone in
  force, and the last time that was announced.\<close>

definition client_use :: "nat \<Rightarrow> ntp_op \<times> esp_err_t \<Rightarrow> bool option \<Rightarrow> bool option" where
  "client_use n c u =
    (case u of None \<Rightarrow> None
     | Some runs \<Rightarrow>
       (case fst c of
          Sntp_init servers \<Rightarrow> if runs \<or> servers = [] \<or> length servers > n then None else Some (snd c = ESP_OK)
        | Sntp_deinit \<Rightarrow> if runs then Some False else None
        | Set_interval i \<Rightarrow> if runs then Some True else None
        | Post_synced tv \<Rightarrow> if runs then Some True else None
        | _ \<Rightarrow> Some runs))"

definition client_runs :: "nat \<Rightarrow> ntp_trace \<Rightarrow> bool option" where
  "client_runs n t = fold (client_use n) t (Some False)"

definition zone_after :: "ntp_op \<times> esp_err_t \<Rightarrow> string option \<Rightarrow> string option" where
  "zone_after c z = (case fst c of Set_timezone tz \<Rightarrow> Some tz | _ \<Rightarrow> z)"

definition zone :: "ntp_trace \<Rightarrow> string option" where
  "zone t = fold zone_after t None"

definition time_after :: "ntp_op \<times> esp_err_t \<Rightarrow> timeval option \<Rightarrow> timeval option" where
  "time_after c z = (case fst c of Post_synced tv \<Rightarrow> Some tv | _ \<Rightarrow> z)"

definition last_time :: "ntp_trace \<Rightarrow> timeval option" where
  "last_time t = fold time_after t None"

lemmas trace_folds = client_runs_def client_use_def zone_def zone_after_def last_time_def time_after_def

definition ntp_inv :: "ntp_t \<Rightarrow> bool" where
  "ntp_inv s \<longleftrightarrow> 0 < MAX_SERVERS s \<and> client_runs (MAX_SERVERS s) (calls s) = Some (s_sntp_running s)
     \<and> (s_sntp_running s \<longrightarrow> s_started s) \<and> (s_started s \<longrightarrow> enabled (s_cfg s))
     \<and> (s_started s \<and> timezone (s_cfg s) \<noteq> [] \<longrightarrow> zone (calls s) = Some (timezone (s_cfg s)))
     \<and> last_time (calls s) = (if s_synced s then Some (s_last_sync s) else None)"

lemma ntp_call_simps [simp]:
  "s_cfg (snd (ntp_call x s)) = s_cfg s" "s_started (snd (ntp_call x s)) = s_started s"
  "s_sntp_running (snd (ntp_call x s)) = s_sntp_running s" "s_synced (snd (ntp_call x s)) = s_synced s"
  "s_last_sync (snd (ntp_call x s)) = s_last_sync s" "MAX_SERVERS (snd (ntp_call x s)) = MAX_SERVERS s"
  "platform (snd (ntp_call x s)) = platform s"
  "calls (snd (ntp_call x s)) = calls s @ [(x, fst (ntp_call x s))]"
  by (simp_all add: ntp_call_def Let_def)

lemma ntp_sync_inv: "ntp_inv s \<Longrightarrow> s_sntp_running s \<Longrightarrow> ntp_inv (on_time_sync tv s)"
  by (simp add: ntp_inv_def on_time_sync_def trace_folds)

lemma ntp_start_sntp_inv: "ntp_inv s \<Longrightarrow> s_started s \<Longrightarrow> ntp_inv (start_sntp s)"
  by (auto simp: ntp_inv_def start_sntp_def trace_folds Let_def split_beta)

lemma ntp_start_inv: "ntp_inv s \<Longrightarrow> ntp_inv (snd (ntp_manager_start cfg s))"
  by (auto simp: ntp_inv_def ntp_manager_start_def trace_folds Let_def split_beta split: option.split)

lemma ntp_stop_inv: "ntp_inv s \<Longrightarrow> ntp_inv (snd (ntp_manager_stop s))"
  by (auto simp: ntp_inv_def ntp_manager_stop_def trace_folds Let_def)

lemma ntp_step_inv: "ntp_step s t \<Longrightarrow> ntp_inv s \<Longrightarrow> ntp_inv t"
  by (induction rule: ntp_step.induct)
    (auto simp: ntp_start_inv ntp_stop_inv ntp_sync_inv ntp_start_sntp_inv on_net_event_def
      split: net_event_id_t.split)

lemma ntp_boot_inv: "ntp_boot s \<Longrightarrow> ntp_inv s"
  by (simp add: ntp_boot_def ntp_inv_def trace_folds)

text \<open>The clock's story is kept straight. From boot on, in whatever order starts, stops, network events
  and callbacks come: the client is never initialised twice, never stopped when it does not run, and
  never given no server or more than the build has room for; it runs just when the manager
  believes so, and then the manager is started and was enabled. A started manager has put the
  configured time zone into force. And \<open>ntp_manager_last_sync\<close> answers with the time announced last,
  or, when none was announced since boot, with an error and nothing written.\<close>

theorem ntp_client_in_order:
  assumes "ntp_boot s" "ntp_step\<^sup>*\<^sup>* s t"
  shows "client_runs (MAX_SERVERS t) (calls t) = Some (s_sntp_running t)
    \<and> (\<not> s_sntp_running t \<or> s_started t \<and> enabled (s_cfg t))
    \<and> (if s_started t \<and> timezone (s_cfg t) \<noteq> [] then zone (calls t) = Some (timezone (s_cfg t)) else True)
    \<and> ntp_manager_last_sync (Some v) t =
        (case last_time (calls t) of None \<Rightarrow> (ESP_ERR_INVALID_STATE, Some v) | Some tv \<Rightarrow> (ESP_OK, Some tv))
    \<and> (ntp_manager_is_synced t \<longleftrightarrow> last_time (calls t) \<noteq> None)"
proof -
  have "ntp_inv t" 
    by (rule steps_keep [OF assms(2), of ntp_inv]) (use assms(1) ntp_boot_inv ntp_step_inv in blast)+
  then show ?thesis by (auto simp: ntp_inv_def ntp_manager_last_sync_def ntp_manager_is_synced_def)
qed

definition pool_config :: ntp_manager_config_t where
  "pool_config = \<lparr>enabled = True, server = ''pool'', server_fallback = ''time'', sync_interval_ms = 3600000,
     timezone = ''UTC0''\<rparr>"

definition ntp_cold :: ntp_t where
  "ntp_cold = \<lparr>MAX_SERVERS = 1, s_cfg = pool_config\<lparr>enabled := False\<rparr>, s_started = False,
     s_sntp_running = False, s_synced = False, s_last_sync = (0, 0), calls = [], platform = \<lambda>t x. ESP_OK\<rparr>"

definition ntp_waiting :: ntp_t where
  "ntp_waiting = snd (ntp_manager_start (Some pool_config) ntp_cold)"

definition ntp_asking :: ntp_t where
  "ntp_asking = on_net_event NET_EVENT_LINK_UP ntp_waiting"

definition ntp_set :: ntp_t where
  "ntp_set = on_time_sync (1700000000, 5) ntp_asking"

lemma ntp_set_reached: "ntp_step\<^sup>*\<^sup>* ntp_cold ntp_set"
proof -
  have "s_started ntp_waiting" "s_sntp_running ntp_asking" by code_simp+
  then have "ntp_step ntp_waiting ntp_asking" "ntp_step ntp_asking ntp_set"
    unfolding ntp_set_def ntp_asking_def by (auto intro: ntp_step.net ntp_step.synced)
  moreover have "ntp_step ntp_cold ntp_waiting" unfolding ntp_waiting_def by (rule ntp_step.intros)
  ultimately show ?thesis by (blast intro: three_steps)
qed

theorem ntp_client_in_order_witness:
  "client_runs 1 (calls ntp_set) = Some True \<and> zone (calls ntp_set) = Some ''UTC0''
     \<and> ntp_manager_last_sync (Some (0, 0)) ntp_set = (ESP_OK, Some (1700000000, 5))"
proof -
  have "ntp_boot ntp_cold" by code_simp
  moreover have "s_sntp_running ntp_set" "MAX_SERVERS ntp_set = 1" "s_started ntp_set"
    "timezone (s_cfg ntp_set) = ''UTC0''" "last_time (calls ntp_set) = Some (1700000000, 5)"
    by code_simp+
  ultimately show ?thesis using ntp_client_in_order [OF _ ntp_set_reached, of "(0, 0)"] by simp
qed

text \<open>The client is the service over the link.\<close>

lemma start_sntp_serves:
  "(\<And>t xs. platform s t (Sntp_init xs) = ESP_OK) \<Longrightarrow> s_sntp_running (start_sntp s)"
  "platform (start_sntp s) = platform s"
  by (simp_all add: start_sntp_def Let_def split_beta ntp_call_def)

interpretation ntp_link: link_service on_net_event
  "\<lambda>s. \<forall>t xs. platform s t (Sntp_init xs) = ESP_OK" s_sntp_running "{NET_EVENT_LINK_UP}" "{}"
  by unfold_locales (auto simp: on_net_event_def start_sntp_serves split: net_event_id_t.split)

end
