(* ===== verification/Network.thy ===== *)
theory Network
  imports Wifi_Manager Mqtt_Manager Http_Server Mdns_Manager Ntp_Manager
begin

text \<open>
  The link and the services over it: the events \<open>wifi_manager\<close> posts, delivered in order to the
  handlers of \<open>mqtt_manager\<close>, \<open>http_server\<close>, \<open>mdns_manager\<close> and \<open>ntp_manager\<close>.
\<close>

fun event_of :: "net_post \<Rightarrow> net_event_id_t" where
  "event_of (LINK_UP ip) = NET_EVENT_LINK_UP"
| "event_of LINK_DOWN = NET_EVENT_LINK_DOWN"
| "event_of (AP_STARTED ip) = NET_EVENT_AP_STARTED"
| "event_of AP_STOPPED = NET_EVENT_AP_STOPPED"

definition events :: "wifi_t \<Rightarrow> net_event_id_t list" where
  "events w = map event_of (posted w)"

text \<open>What \<open>link_posted\<close> says of the list.\<close>

lemma link_posted_split:
  "link_posted ps \<Longrightarrow> \<exists>before ip after. ps = before @ LINK_UP ip # after \<and> LINK_DOWN \<notin> set after"
proof (induction ps rule: rev_induct)
  case (snoc x ps)
  show ?case
  proof (cases "\<exists>ip. x = LINK_UP ip")
    case True
    then show ?thesis by (metis empty_iff list.set(1))
  next
    case False
    then have "link_posted ps" "x \<noteq> LINK_DOWN" using snoc.prems by (cases x; simp)+
    then obtain before ip after where "ps = before @ LINK_UP ip # after" "LINK_DOWN \<notin> set after"
      using snoc.IH by blast
    with \<open>x \<noteq> LINK_DOWN\<close> have "ps @ [x] = before @ LINK_UP ip # (after @ [x])" "LINK_DOWN \<notin> set (after @ [x])"
      by auto
    then show ?thesis by blast
  qed
qed (simp add: link_posted_def)

lemma event_of_down: "event_of x = NET_EVENT_LINK_DOWN \<longleftrightarrow> x = LINK_DOWN"
  by (cases x) simp_all

lemma events_split:
  assumes "link_posted (posted w)"
  obtains before after where "events w = before @ NET_EVENT_LINK_UP # after"
    "NET_EVENT_LINK_DOWN \<notin> set after"
proof -
  from link_posted_split [OF assms] obtain b ip a where "posted w = b @ LINK_UP ip # a" "LINK_DOWN \<notin> set a" by blast
  then show ?thesis
    by (intro that [of "map event_of b" "map event_of a"]) (auto simp: events_def event_of_down dest: sym)
qed

text \<open>The flag of \<open>mqtt_manager\<close> is exactly what the link layer last said of the link.\<close>

lemma mqtt_follows_posts:
  "\<not> s_link_up m \<Longrightarrow> s_link_up (fold (Mqtt_Manager.on_net_event a) (map event_of ps) m) = link_posted ps"
proof (induction ps rule: rev_induct)
  case (snoc x ps)
  then show ?case
    by (cases x) (simp_all add: Mqtt_Manager.on_net_event_def do_op_def Let_def)
qed (simp add: link_posted_def)

text \<open>C26. The services come up with the link. Take any run of the link layer from boot that ends with the
  station connected, and let the services be started before it and be delivered, in order, every event it posted.
  Then the MQTT manager knows the link is up, the management server listens, the SNTP client runs,
  and, if no access point was taken down on the way, the mDNS manager advertises; as long as httpd
  starts, the responder takes the host name and the client can be initialised.\<close>

theorem services_come_up_with_the_link:
  assumes "wifi_boot w0" "wifi_step\<^sup>*\<^sup>* w0 w" "state w = WIFI_MANAGER_STA_CONNECTED"
    and "\<not> s_link_up m" "h_start h = ESP_OK"
    and "Mdns_Manager.s_hostname d \<noteq> []" "\<And>t x. responder d t (Hostname_set x) = ESP_OK"
    and "\<And>t xs. platform n t (Sntp_init xs) = ESP_OK"
  shows "s_link_up (fold (Mqtt_Manager.on_net_event a) (events w) m)
    \<and> s_server (fold (Http_Server.on_net_event h) (events w) s)
    \<and> s_sntp_running (fold Ntp_Manager.on_net_event (events w) n)
    \<and> (NET_EVENT_AP_STOPPED \<in> set (events w) \<or> s_advertising (fold Mdns_Manager.on_net_event (events w) d))"
proof -
  have "link_posted (posted w)"
    using wifi_steps_inv [OF assms(2) wifi_boot_inv [OF assms(1)]] assms(3) by (simp add: wifi_inv_def)
  note up = this
  from events_split [OF up] obtain b a' where ev: "events w = b @ NET_EVENT_LINK_UP # a'"
    "NET_EVENT_LINK_DOWN \<notin> set a'" .
  have "s_link_up (fold (Mqtt_Manager.on_net_event a) (events w) m)"
    using mqtt_follows_posts [OF assms(4)] up by (simp add: events_def)
  moreover have "s_server (fold (Http_Server.on_net_event h) (events w) s)"
    unfolding ev(1) by (rule http_link.serving_after_up) (use assms(5) in simp_all)
  moreover have "s_sntp_running (fold Ntp_Manager.on_net_event (events w) n)"
    unfolding ev(1) by (rule ntp_link.serving_after_up) (use assms(8) in simp_all)
  moreover have "s_advertising (fold Mdns_Manager.on_net_event (events w) d)" if "NET_EVENT_AP_STOPPED \<notin> set (events w)"
    unfolding ev(1) by (rule mdns_link.serving_after_up) (use assms(6,7) that ev in auto)
  ultimately show ?thesis by blast
qed

text \<open>The station that comes up in the run of \<open>Wifi_Manager\<close>, with idle services.\<close>

definition idle_mqtt :: mqtt_t where
  "idle_mqtt = \<lparr>MAX_SUBSCRIPTIONS = 1, s_client = False, s_connected = False, s_running = False,
     s_link_up = False, s_cfg = None, s_prefix = [], s_lwt_topic = [], s_subs = [], s_sub_count = 0,
     net_handler = False, ops = []\<rparr>"

theorem services_come_up_with_the_link_witness:
  "s_link_up (fold (Mqtt_Manager.on_net_event willing) (events run_up) idle_mqtt)
    \<and> s_sntp_running (fold Ntp_Manager.on_net_event (events run_up) ntp_waiting)"
proof -
  have "\<not> s_link_up idle_mqtt" by (simp add: idle_mqtt_def)
  moreover have "Mdns_Manager.s_hostname mdns_ready \<noteq> []" by code_simp
  moreover have "responder mdns_ready t (Hostname_set x) = ESP_OK" for t x
    by (simp add: mdns_ready_def mdns_manager_start_def mdns_added_def mdns_manager_add_service_def mdns_cold_def
        web_service_def mdns_call_def Let_def MDNS_MANAGER_MAX_TXT_def)
  moreover have "platform ntp_waiting t (Sntp_init xs) = ESP_OK" for t xs
    by (simp add: ntp_waiting_def ntp_cold_def ntp_manager_start_def pool_config_def ntp_call_def Let_def)
  ultimately show ?thesis
    using services_come_up_with_the_link [OF run_boot_ok run_up_reached run_up_state, of idle_mqtt httpd_fine mdns_ready ntp_waiting]
    by (simp add: httpd_fine_def)
qed

end
