(* ===== verification/Wide_Regs.thy ===== *)
theory Wide_Regs
  imports I2c_Bus
begin

unbundle bit_operations_syntax

text \<open>
  Devices with registers wider than a byte, which travel most significant byte first. The temperature
  sensor and the current monitors read and write them over I2C, one of them over SPI; each has its own
  copy of these few lines in its source.
\<close>

section \<open>Bytes of a value\<close>

definition hi_byte :: "16 word \<Rightarrow> 8 word" where
  "hi_byte v = ucast (drop_bit 8 v)"

definition lo_byte :: "16 word \<Rightarrow> 8 word" where
  "lo_byte v = ucast v"

definition be16 :: "8 word \<Rightarrow> 8 word \<Rightarrow> 16 word" where
  "be16 hi lo = push_bit 8 (ucast hi) OR ucast lo"

definition be24 :: "8 word \<Rightarrow> 8 word \<Rightarrow> 8 word \<Rightarrow> 32 word" where
  "be24 a b c = push_bit 16 (ucast a) OR push_bit 8 (ucast b) OR ucast c"

lemma be16_back [simp]: "be16 (hi_byte v) (lo_byte v) = v"
  by (rule bit_word_eqI) (auto simp: be16_def hi_byte_def lo_byte_def bit_simps not_less)

lemma hi_byte_be16 [simp]: "hi_byte (be16 a b) = a"
  by (rule bit_word_eqI) (auto simp: be16_def hi_byte_def bit_simps dest: bit_imp_le_length)

lemma lo_byte_be16 [simp]: "lo_byte (be16 a b) = b"
  by (rule bit_word_eqI) (auto simp: be16_def lo_byte_def bit_simps dest: bit_imp_le_length)

section \<open>Reading and writing over I2C\<close>

text \<open>\<open>dev\<close>: the handle has a device. Without one the calls fail; the value read is the one the
  caller's variable had.\<close>

definition bus_write16 :: "bool \<Rightarrow> 8 word \<Rightarrow> 16 word \<Rightarrow> bus \<Rightarrow> esp_err_t \<times> bus" where
  "bus_write16 dev reg v b =
    (if \<not> dev then (ESP_ERR_INVALID_STATE, b)
     else let (e, f, b) = bus_call (Tx [reg, hi_byte v, lo_byte v]) b in (e, b))"

definition bus_read16 :: "bool \<Rightarrow> 8 word \<Rightarrow> 16 word \<Rightarrow> bus \<Rightarrow> esp_err_t \<times> 16 word \<times> bus" where
  "bus_read16 dev reg old b =
    (if \<not> dev then (ESP_ERR_INVALID_STATE, old, b)
     else let (e, f, b) = bus_call (TxRx [reg] 2) b in
       (e, if e = ESP_OK then be16 (f 0) (f 1) else old, b))"

definition bus_read24 :: "bool \<Rightarrow> 8 word \<Rightarrow> 32 word \<Rightarrow> bus \<Rightarrow> esp_err_t \<times> 32 word \<times> bus" where
  "bus_read24 dev reg old b =
    (if \<not> dev then (ESP_ERR_INVALID_STATE, old, b)
     else let (e, f, b) = bus_call (TxRx [reg] 3) b in
       (e, if e = ESP_OK then be24 (f 0) (f 1) (f 2) else old, b))"

section \<open>A device of such registers\<close>

text \<open>What its registers hold: a write goes to the register named, through \<open>store\<close>, which says
  what the register makes of it (bits that cannot be written, registers that only read). Values are at the
  right of 32 bits.\<close>

type_synonym wide_regs = "8 word \<Rightarrow> 32 word"
type_synonym wide_store = "8 word \<Rightarrow> 16 word \<Rightarrow> wide_regs \<Rightarrow> wide_regs"

fun wide_effect :: "wide_store \<Rightarrow> bus_op \<Rightarrow> wide_regs \<Rightarrow> wide_regs" where
  "wide_effect store (Tx [r, hi, lo]) m = store r (be16 hi lo) m"
| "wide_effect store (Spi [c, hi, lo]) m = (if bit c 0 then m else store (drop_bit 2 c) (be16 hi lo) m)"
| "wide_effect store x m = m"

definition wide_file :: "wide_store \<Rightarrow> wide_regs \<Rightarrow> bus_entry list \<Rightarrow> wide_regs" where
  "wide_file store m tr = foldl (\<lambda>m (x, e). if e = ESP_OK then wide_effect store x m else m) m tr"

lemma wide_file_simps [simp]:
  "wide_file store m [] = m"
  "wide_file store m ((x, e) # tr) = wide_file store (if e = ESP_OK then wide_effect store x m else m) tr"
  "wide_file store m (tr @ tr') = wide_file store (wide_file store m tr) tr'"
  by (simp_all add: wide_file_def)

definition be_byte :: "nat \<Rightarrow> 32 word \<Rightarrow> nat \<Rightarrow> 8 word" where
  "be_byte n v i = ucast (drop_bit (8 * (n - 1 - i)) v)"

definition wide_device :: "wide_store \<Rightarrow> wide_regs \<Rightarrow> bus_entry list \<Rightarrow> bus_op \<Rightarrow> esp_err_t \<times> (nat \<Rightarrow> 8 word)" where
  "wide_device store m tr x =
    (case x of
       TxRx bs n \<Rightarrow> (ESP_OK, be_byte n (wide_file store m tr (hd bs)))
     | Spi bs \<Rightarrow> (ESP_OK, \<lambda>i. if i = 0 then 0
                   else be_byte (length bs - 1) (wide_file store m tr (drop_bit 2 (hd bs))) (i - 1))
     | _ \<Rightarrow> (ESP_OK, \<lambda>i. 0))"

lemma be16_bytes: "be16 (be_byte 2 v 0) (be_byte 2 v 1) = ucast v"
  by (rule bit_word_eqI) (auto simp: be16_def be_byte_def bit_simps not_less)

lemma be24_bytes: "be24 (be_byte 3 v 0) (be_byte 3 v 1) (be_byte 3 v 2) = take_bit 24 v"
proof (rule bit_word_eqI)
  fix n :: nat
  assume "n < LENGTH(32)"
  consider "n < 8" | "8 \<le> n" "n < 16" | "16 \<le> n" by linarith
  then show "bit (be24 (be_byte 3 v 0) (be_byte 3 v 1) (be_byte 3 v 2)) n = bit (take_bit 24 v) n"
    by cases (use \<open>n < LENGTH(32)\<close> in \<open>auto simp: be24_def be_byte_def bit_simps\<close>)
qed

lemma read16_wide:
  assumes "answer b = wide_device store m"
  shows "bus_read16 True r old b = (ESP_OK, ucast (wide_file store m (trace b) r),
    b\<lparr>trace := trace b @ [(TxRx [r] 2, ESP_OK)]\<rparr>)"
  using assms be16_bytes by (simp add: bus_read16_def bus_call_def wide_device_def)

lemma read24_wide:
  assumes "answer b = wide_device store m"
  shows "bus_read24 True r old b = (ESP_OK, take_bit 24 (wide_file store m (trace b) r),
    b\<lparr>trace := trace b @ [(TxRx [r] 3, ESP_OK)]\<rparr>)"
  using assms be24_bytes by (simp add: bus_read24_def bus_call_def wide_device_def)

lemma write16_wide:
  assumes "answer b = wide_device store m"
  shows "bus_write16 True r v b = (ESP_OK, b\<lparr>trace := trace b @ [(Tx [r, hi_byte v, lo_byte v], ESP_OK)]\<rparr>)"
  using assms by (simp add: bus_write16_def bus_call_def wide_device_def)

text \<open>A register of 16 bits, read back from its place in 32.\<close>

lemma ucast_16_32 [simp]: "(ucast (ucast (v :: 16 word) :: 32 word) :: 16 word) = v"
  by (rule bit_word_eqI) (simp add: bit_simps)

section \<open>Every entry of a record, with what came before it\<close>

definition along :: "('a list \<Rightarrow> 'a \<Rightarrow> bool) \<Rightarrow> 'a list \<Rightarrow> bool" where
  "along P xs \<longleftrightarrow> list_all (\<lambda>i. P (take i xs) (xs ! i)) [0..<length xs]"

lemma along_Nil [simp]: "along P []"
  by (simp add: along_def)

lemma along_snoc [simp]: "along P (xs @ [x]) \<longleftrightarrow> along P xs \<and> P xs x"
  by (auto simp: along_def list_all_iff nth_append)

lemma along_append: "along P xs \<Longrightarrow> list_all (\<lambda>x. \<forall>p. P p x) ys \<Longrightarrow> along P (xs @ ys)"
proof (induction ys rule: rev_induct)
  case (snoc y ys)
  then show ?case using along_snoc [of P "xs @ ys" y] by simp
qed simp

end
