(* ===== verification/Lm75bdp.thy ===== *)
theory Lm75bdp
  imports Wide_Regs Floating
begin

unbundle bit_operations_syntax

text \<open>
  The LM75BDP temperature sensor and watchdog: the two number formats of
  \<open>lm75bdp/src/lm75bdp_calc.c\<close> and the driver of \<open>lm75bdp/src/lm75bdp.c\<close>.
\<close>

section \<open>Temperatures in registers\<close>

text \<open>A shift of a signed value is arithmetic: the quotient rounded down.\<close>

definition lm75bdp_temperature_c :: "'d fp \<Rightarrow> 16 word \<Rightarrow> 'd" where
  "lm75bdp_temperature_c fp raw = fp_mul fp (fp_of_int fp (sint raw div 2 ^ 5)) (fp_lit fp (1 / 8))"

definition lm75bdp_encode_threshold :: "'d fp \<Rightarrow> 'd \<Rightarrow> 16 word" where
  "lm75bdp_encode_threshold fp temp_c =
    (let steps = fp_lround fp (fp_mul fp temp_c (fp_of_int fp 2));
         steps = (if steps > 255 then 255 else if steps < - 256 then - 256 else steps) in
     push_bit 7 (word_of_int steps AND 0x01FF))"

definition lm75bdp_decode_threshold :: "'d fp \<Rightarrow> 16 word \<Rightarrow> 'd" where
  "lm75bdp_decode_threshold fp raw =
    (let steps = sint (raw AND 0xFF80) in fp_mul fp (fp_of_int fp (steps div 2 ^ 7)) (fp_lit fp (1 / 2)))"

section \<open>The driver\<close>

definition LM75_REG_TEMP :: "8 word" where "LM75_REG_TEMP = 0"
definition LM75_REG_CONF :: "8 word" where "LM75_REG_CONF = 1"
definition LM75_REG_THYST :: "8 word" where "LM75_REG_THYST = 2"
definition LM75_REG_TOS :: "8 word" where "LM75_REG_TOS = 3"
definition CONF_DEFAULT :: "8 word" where "CONF_DEFAULT = 0"

datatype lm75bdp_stage_t =
    LM75BDP_STAGE_NONE | LM75BDP_STAGE_IDENTIFY | LM75BDP_STAGE_CONFIGURE | LM75BDP_STAGE_THRESHOLD

definition lm75bdp_stage_name :: "lm75bdp_stage_t option \<Rightarrow> string" where
  "lm75bdp_stage_name x =
    (case x of
       Some LM75BDP_STAGE_NONE \<Rightarrow> ''none'' | Some LM75BDP_STAGE_IDENTIFY \<Rightarrow> ''confirming the part responds''
     | Some LM75BDP_STAGE_CONFIGURE \<Rightarrow> ''configuring'' | Some LM75BDP_STAGE_THRESHOLD \<Rightarrow> ''writing a threshold''
     | None \<Rightarrow> ''unknown'')"

record lm75bdp_dev_t =
  l_dev :: bool
  l_bus :: bus

record 'd lm75bdp_report_t =
  failed_stage :: lm75bdp_stage_t
  tos_C :: 'd
  thyst_C :: 'd

definition zero_lm75_report :: "'d fp \<Rightarrow> 'd lm75bdp_report_t" where
  "zero_lm75_report fp = \<lparr>failed_stage = LM75BDP_STAGE_NONE, tos_C = fp_zero fp, thyst_C = fp_zero fp\<rparr>"

definition write8 :: "8 word \<Rightarrow> 8 word \<Rightarrow> lm75bdp_dev_t \<Rightarrow> esp_err_t \<times> lm75bdp_dev_t" where
  "write8 reg v d =
    (if \<not> l_dev d then (ESP_ERR_INVALID_STATE, d)
     else let (e, f, b) = bus_call (Tx [reg, v]) (l_bus d) in (e, d\<lparr>l_bus := b\<rparr>))"

definition read8 :: "8 word \<Rightarrow> lm75bdp_dev_t \<Rightarrow> esp_err_t \<times> 8 word \<times> lm75bdp_dev_t" where
  "read8 reg d =
    (if \<not> l_dev d then (ESP_ERR_INVALID_STATE, 0xFF, d)
     else let (e, f, b) = bus_call (TxRx [reg] 1) (l_bus d) in (e, f 0, d\<lparr>l_bus := b\<rparr>))"

definition write16 :: "8 word \<Rightarrow> 16 word \<Rightarrow> lm75bdp_dev_t \<Rightarrow> esp_err_t \<times> lm75bdp_dev_t" where
  "write16 reg v d = (let (e, b) = bus_write16 (l_dev d) reg v (l_bus d) in (e, d\<lparr>l_bus := b\<rparr>))"

definition read16 :: "8 word \<Rightarrow> 16 word \<Rightarrow> lm75bdp_dev_t \<Rightarrow> esp_err_t \<times> 16 word \<times> lm75bdp_dev_t" where
  "read16 reg old d = (let (e, v, b) = bus_read16 (l_dev d) reg old (l_bus d) in (e, v, d\<lparr>l_bus := b\<rparr>))"

abbreviation at_stage :: "lm75bdp_stage_t \<Rightarrow> 'd lm75bdp_report_t option \<Rightarrow> 'd lm75bdp_report_t option" where
  "at_stage x rep \<equiv> map_option (failed_stage_update (\<lambda>_. x)) rep"

definition configure ::
    "lm75bdp_dev_t \<Rightarrow> 'd lm75bdp_report_t option \<Rightarrow> esp_err_t \<times> lm75bdp_dev_t \<times> 'd lm75bdp_report_t option" where
  "configure d rep =
    (let rep = at_stage LM75BDP_STAGE_NONE rep in
     if \<not> l_dev d then (ESP_ERR_INVALID_STATE, d, rep)
     else
       let (e, d) = write8 LM75_REG_CONF CONF_DEFAULT d in
       if e \<noteq> ESP_OK then (e, d, at_stage LM75BDP_STAGE_CONFIGURE rep)
       else
         let (e, readback, d) = read8 LM75_REG_CONF d in
         if e \<noteq> ESP_OK then (e, d, at_stage LM75BDP_STAGE_IDENTIFY rep)
         else if readback \<noteq> CONF_DEFAULT
         then (ESP_ERR_LM75BDP_WRONG_PART, d, at_stage LM75BDP_STAGE_IDENTIFY rep)
         else (ESP_OK, d, rep))"

definition lm75bdp_create ::
    "'d fp \<Rightarrow> bool \<Rightarrow> bool \<Rightarrow> bool \<Rightarrow> 'd lm75bdp_report_t option \<Rightarrow> bus
       \<Rightarrow> esp_err_t \<times> lm75bdp_dev_t option \<times> 'd lm75bdp_report_t option" where
  "lm75bdp_create fp args calloc_ok dev rep b =
    (if \<not> args then (ESP_ERR_INVALID_ARG, None, rep)
     else
       let rep = map_option (\<lambda>r. zero_lm75_report fp) rep in
       if \<not> calloc_ok then (ESP_ERR_NO_MEM, None, rep)
       else
         let d = \<lparr>l_dev = dev, l_bus = b\<rparr> in
         if dev then
           let (e, d, rep) = configure d rep in
           if e \<noteq> ESP_OK then (e, None, rep) else (ESP_OK, Some d, rep)
         else (ESP_OK, Some d, rep))"

definition lm75bdp_set_device ::
    "'d fp \<Rightarrow> bool \<Rightarrow> bool \<Rightarrow> 'd lm75bdp_report_t option \<Rightarrow> lm75bdp_dev_t
       \<Rightarrow> esp_err_t \<times> lm75bdp_dev_t \<times> 'd lm75bdp_report_t option" where
  "lm75bdp_set_device fp args dev rep d =
    (if \<not> args then (ESP_ERR_INVALID_ARG, d, rep)
     else
       let rep = map_option (\<lambda>r. zero_lm75_report fp) rep; d = d\<lparr>l_dev := dev\<rparr> in
       if dev then configure d rep else (ESP_OK, d, rep))"

definition lm75bdp_read :: "'d fp \<Rightarrow> bool \<Rightarrow> lm75bdp_dev_t \<Rightarrow> esp_err_t \<times> 'd option \<times> lm75bdp_dev_t" where
  "lm75bdp_read fp args d =
    (if \<not> args then (ESP_ERR_INVALID_ARG, None, d)
     else
       let (e, raw, d) = read16 LM75_REG_TEMP 0 d in
       if e \<noteq> ESP_OK then (e, None, d) else (ESP_OK, Some (lm75bdp_temperature_c fp raw), d))"

definition lm75bdp_set_thresholds ::
    "'d fp \<Rightarrow> bool \<Rightarrow> 'd \<Rightarrow> 'd \<Rightarrow> 'd lm75bdp_report_t option \<Rightarrow> lm75bdp_dev_t
       \<Rightarrow> esp_err_t \<times> lm75bdp_dev_t \<times> 'd lm75bdp_report_t option" where
  "lm75bdp_set_thresholds fp args tos thyst rep d =
    (if \<not> args then (ESP_ERR_INVALID_ARG, d, rep)
     else
       let rep = map_option (\<lambda>r. zero_lm75_report fp) rep;
           t = lm75bdp_encode_threshold fp tos; h = lm75bdp_encode_threshold fp thyst;
           rep = map_option (\<lambda>r. r\<lparr>tos_C := lm75bdp_decode_threshold fp t,
                                   thyst_C := lm75bdp_decode_threshold fp h\<rparr>) rep;
           (e, d) = write16 LM75_REG_TOS t d;
           (e, d) = (if e = ESP_OK then write16 LM75_REG_THYST h d else (e, d));
           rep = (if e \<noteq> ESP_OK then at_stage LM75BDP_STAGE_THRESHOLD rep else rep) in
       (e, d, rep))"

section \<open>The formats\<close>

lemma range_9_bits: "- 256 \<le> k \<Longrightarrow> k \<le> 255 \<Longrightarrow> signed_take_bit 8 k = (k :: int)"
  by (rule signed_take_bit_int_eq_self) simp_all

text \<open>Nine bits, left-justified, hold what was put in.\<close>

lemma threshold_bits:
  assumes "- 256 \<le> k" "k \<le> 255"
  shows "sint (push_bit 7 (word_of_int k AND 0x01FF) :: 16 word) = k * 128"
    "(push_bit 7 (word_of_int k AND 0x01FF) :: 16 word) AND 0xFF80 = push_bit 7 (word_of_int k AND 0x01FF)"
proof -
  have m: "(word_of_int k AND 0x01FF :: 16 word) = take_bit 9 (word_of_int k)"
    by (simp add: take_bit_eq_mask mask_numeral)
  have eq: "(push_bit 7 (word_of_int k AND 0x01FF) :: 16 word) = word_of_int (k * 128)"
    unfolding m by (rule bit_word_eqI) (auto simp: bit_simps push_bit_eq_mult [of 7 k, symmetric, simplified])
  have "signed_take_bit 15 (k * 128) = k * 128"
    by (rule signed_take_bit_int_eq_self) (use assms in simp_all)
  then show "sint (push_bit 7 (word_of_int k AND 0x01FF) :: 16 word) = k * 128"
    unfolding eq by (simp add: signed_of_int del: of_int_mult)
  show "(push_bit 7 (word_of_int k AND 0x01FF) :: 16 word) AND 0xFF80 = push_bit 7 (word_of_int k AND 0x01FF)"
  proof -
    have e: "(0xFF80 :: 16 word) = push_bit 7 (mask 9)" by (simp add: mask_numeral)
    show ?thesis unfolding m e by (rule bit_word_eqI) (auto simp: bit_simps)
  qed
qed

text \<open>The number of half degrees a threshold is rounded to.\<close>

definition half_degrees :: "real \<Rightarrow> int" where
  "half_degrees x = max (- 256) (min 255 (round_half_away (2 * x)))"

lemma encode_half_degrees:
  "sint (lm75bdp_encode_threshold real_fp x) = half_degrees x * 128"
  "lm75bdp_decode_threshold real_fp (lm75bdp_encode_threshold real_fp x) = half_degrees x / 2"
proof -
  have e: "lm75bdp_encode_threshold real_fp x = push_bit 7 (word_of_int (half_degrees x) AND 0x01FF)"
    by (simp add: lm75bdp_encode_threshold_def half_degrees_def Let_def max_def min_def mult.commute)
  have b: "- 256 \<le> half_degrees x" "half_degrees x \<le> 255" by (simp_all add: half_degrees_def)
  note t = threshold_bits [OF b]
  show "sint (lm75bdp_encode_threshold real_fp x) = half_degrees x * 128" unfolding e by (rule t)
  show "lm75bdp_decode_threshold real_fp (lm75bdp_encode_threshold real_fp x) = half_degrees x / 2"
    unfolding e lm75bdp_decode_threshold_def t(2) Let_def t(1) by (simp add: of_rat_divide)
qed

lemma half_degrees_near: "\<bar>half_degrees x / 2 - max (- 128) (min (255 / 2) x)\<bar> \<le> 1 / 4"
proof -
  have "real_of_int (half_degrees x) = max (- 256) (min 255 (real_of_int (round_half_away (2 * x))))"
    unfolding half_degrees_def by (simp add: max_def min_def)
  then show ?thesis using round_half_away_near [of "2 * x"] by linarith
qed

lemma half_degrees_mono: "x \<le> y \<Longrightarrow> half_degrees x \<le> half_degrees y"
  using round_half_away_mono [of "2 * x" "2 * y"] by (auto simp: half_degrees_def)

text \<open>A reading is the register's eighths of a degree, rounded down where there are finer bits.\<close>

lemma temperature_eighths:
  "lm75bdp_temperature_c real_fp raw \<le> real_of_int (sint raw) / 256
    \<and> real_of_int (sint raw) / 256 < lm75bdp_temperature_c real_fp raw + 1 / 8"
proof -
  have "32 * (sint raw div 32) \<le> sint raw" "sint raw < 32 * (sint raw div 32) + 32"
    using pos_mod_bound [of 32 "sint raw"] by (simp_all add: minus_mod_eq_mult_div [symmetric])
  then have "32 * real_of_int (sint raw div 32) \<le> real_of_int (sint raw)"
    "real_of_int (sint raw) < 32 * real_of_int (sint raw div 32) + 32" by linarith+
  then show ?thesis by (simp add: lm75bdp_temperature_c_def of_rat_divide)
qed

text \<open>The watchdog is set to what the report says, and that is what was asked for as nearly as the
  part can. When \<open>lm75bdp_set_thresholds\<close> succeeds, exactly two values were written, to the
  overtemperature register and to the hysteresis register; the report gives these two values in
  degrees; each is within a quarter of a degree of the one asked for, or of the end of the part's
  range of -128 to 127.5 degrees when it lies outside; and thresholds in the right order are not reversed.\<close>

theorem lm75_thresholds_as_reported:
  assumes "lm75bdp_set_thresholds real_fp True tos thyst (Some r0) d = (ESP_OK, d', Some r)"
  shows "\<exists>a b. trace (l_bus d') = trace (l_bus d) @
        [(Tx [LM75_REG_TOS, hi_byte a, lo_byte a], ESP_OK), (Tx [LM75_REG_THYST, hi_byte b, lo_byte b], ESP_OK)]
      \<and> tos_C r = real_of_int (sint a) / 256 \<and> thyst_C r = real_of_int (sint b) / 256
      \<and> \<bar>tos_C r - max (- 128) (min (255 / 2) tos)\<bar> \<le> 1 / 4
      \<and> \<bar>thyst_C r - max (- 128) (min (255 / 2) thyst)\<bar> \<le> 1 / 4
      \<and> (tos < thyst \<or> thyst_C r \<le> tos_C r)"
proof -
  let ?a = "lm75bdp_encode_threshold real_fp tos" and ?b = "lm75bdp_encode_threshold real_fp thyst"
  obtain e1 d1 e2 d2 where w: "write16 LM75_REG_TOS ?a d = (e1, d1)" "write16 LM75_REG_THYST ?b d1 = (e2, d2)"
    by (metis surj_pair)
  have ok: "e1 = ESP_OK" "e2 = ESP_OK" "d2 = d'"
    and r: "tos_C r = lm75bdp_decode_threshold real_fp ?a" "thyst_C r = lm75bdp_decode_threshold real_fp ?b"
    using assms w by (auto simp: lm75bdp_set_thresholds_def Let_def split: if_splits)
  have "trace (l_bus d') = trace (l_bus d) @
      [(Tx [LM75_REG_TOS, hi_byte ?a, lo_byte ?a], ESP_OK), (Tx [LM75_REG_THYST, hi_byte ?b, lo_byte ?b], ESP_OK)]"
    using w unfolding ok by (auto simp: write16_def bus_write16_def bus_call_def Let_def split_beta split: if_splits)
  moreover have "tos < thyst \<or> half_degrees thyst \<le> half_degrees tos" using half_degrees_mono [of thyst tos] by linarith
  ultimately show ?thesis
    using half_degrees_near [of tos] half_degrees_near [of thyst]
    by (intro exI [of _ ?a] exI [of _ ?b]) (auto simp: r encode_half_degrees)
qed

definition cool_lm75 :: lm75bdp_dev_t where
  "cool_lm75 = \<lparr>l_dev = True, l_bus = \<lparr>trace = [], answer = \<lambda>tr x. (ESP_OK, \<lambda>i. 0)\<rparr>\<rparr>"

lemma cool_run:
  "\<exists>d' r. lm75bdp_set_thresholds real_fp True 80 (- 0.7) (Some (zero_lm75_report real_fp)) cool_lm75 = (ESP_OK, d', Some r)"
  by (simp add: lm75bdp_set_thresholds_def write16_def bus_write16_def bus_call_def cool_lm75_def Let_def)

theorem lm75_thresholds_as_reported_witness:
  "\<exists>d' r. lm75bdp_set_thresholds real_fp True 80 (- 0.7) (Some (zero_lm75_report real_fp)) cool_lm75
      = (ESP_OK, d', Some r) \<and> \<bar>tos_C r - 80\<bar> \<le> 1 / 4 \<and> \<bar>thyst_C r - (- 0.7)\<bar> \<le> 1 / 4"
proof -
  from cool_run obtain d' r where run: "lm75bdp_set_thresholds real_fp True 80 (- 0.7)
      (Some (zero_lm75_report real_fp)) cool_lm75 = (ESP_OK, d', Some r)" by blast
  with lm75_thresholds_as_reported [OF run] show ?thesis by auto
qed

end
