(* ===== verification/Ina_Calibration.thy ===== *)
theory Ina_Calibration
  imports Complex_Main
begin

text \<open>
  What the calibrations of \<open>ina219\<close> and \<open>ina226\<close> promise. The part multiplies the shunt's
  reading by its calibration register; a driver computes the register from the resistor and the
  largest current asked for, and scales what it reads by the unit the register really yields.
\<close>

section \<open>The contract\<close>

text \<open>\<open>K\<close> is the part's internal constant, \<open>grain\<close> the distance of two values of its register, and
  \<open>floor_cal\<close> a lower bound of the values that are accepted. A result is the register, the unit
  in amperes and the largest current. The register is the exact quotient, nudged up by one part in
  a hundred thousand and rounded down.\<close>

locale calibration =
  fixes compute :: "real \<Rightarrow> real \<Rightarrow> (nat \<times> real \<times> real) option"
    and K :: real
    and grain :: real
    and floor_cal :: real
  assumes arguments: "compute shunt amps = Some c \<Longrightarrow> 0 < shunt \<and> 0 < amps"
    and register: "compute shunt amps = Some (cal, lsb, full) \<Longrightarrow>
          floor_cal \<le> real cal \<and> real cal \<le> K * 32768 / (amps * shunt) * (1 + 1 / 100000)
          \<and> K * 32768 / (amps * shunt) * (1 + 1 / 100000) < real cal + grain"
    and unit_of: "compute shunt amps = Some (cal, lsb, full) \<Longrightarrow> lsb = K / (real cal * shunt)"
    and span_of: "compute shunt amps = Some (cal, lsb, full) \<Longrightarrow> full = lsb * 32768"
    and positive: "0 < K" "0 < grain" "2000 * grain \<le> floor_cal"
begin

text \<open>The range the caller gets is the one asked for: short of it by no more than the nudge, beyond it by
  no more than one step of the register.\<close>

lemma range_kept:
  assumes "compute shunt amps = Some (cal, lsb, full)"
  shows "amps \<le> 1.00001 * full" "full \<le> 1.0005 * amps"
proof -
  have pos: "0 < shunt" "0 < amps" using arguments [OF assms] by simp_all
  have "0 < floor_cal" using positive by linarith
  then have cal: "0 < real cal" using register [OF assms] by linarith
  define q where "q = K * 32768 / (amps * shunt)"
  have q: "real cal \<le> q * (1 + 1 / 100000)" "q * (1 + 1 / 100000) < real cal + grain"
    using register [OF assms] by (simp_all add: q_def)
  have full: "full = amps * q / real cal"
    using pos by (simp add: span_of [OF assms] unit_of [OF assms] q_def field_simps)
  have "amps * real cal \<le> amps * (q * (1 + 1 / 100000))" using q(1) pos by (intro mult_left_mono) simp_all
  then show "amps \<le> 1.00001 * full" using cal by (simp add: full field_simps)
  have "0 < q" using positive pos by (simp add: q_def)
  then have "q < real cal + grain" using q(2) by (simp add: field_simps)
  also have "\<dots> \<le> 1.0005 * real cal" using positive register [OF assms] by simp
  finally have "amps * q \<le> amps * (1.0005 * real cal)" using pos by (intro mult_left_mono) simp_all
  then show "full \<le> 1.0005 * amps" using cal by (simp add: full field_simps)
qed

lemma unit_positive: "compute shunt amps = Some (cal, lsb, full) \<Longrightarrow> 0 < lsb \<and> 0 < full \<and> 0 < cal"
proof -
  assume a: "compute shunt amps = Some (cal, lsb, full)"
  then have "0 < shunt" "0 < real cal" using arguments [OF a] register [OF a] positive by linarith+
  then show ?thesis using positive by (simp add: unit_of [OF a] span_of [OF a])
qed

end

end
