(* ===== verification/Ina219.thy ===== *)
theory Ina219
  imports Wide_Regs Floating Ina_Calibration
begin

unbundle bit_operations_syntax

text \<open>
  The INA219 current monitor: the calibration of \<open>ina219/src/ina219_calc.c\<close> and the driver of
  \<open>ina219/src/ina219.c\<close>. The arithmetic is the C type \<open>float\<close>, a parameter.
\<close>

section \<open>Calibration\<close>

definition INA219_CAL_FS0_MASK :: "16 word" where "INA219_CAL_FS0_MASK = 0xFFFE"

definition CAL_CONSTANT :: "'d fp \<Rightarrow> 'd" where "CAL_CONSTANT fp = fp_lit fp (4096 / 100000)"
definition CURRENT_BITS :: "'d fp \<Rightarrow> 'd" where "CURRENT_BITS fp = fp_of_int fp 32768"
definition POWER_LSB_MULT :: "'d fp \<Rightarrow> 'd" where "POWER_LSB_MULT fp = fp_of_int fp 20"
definition SHUNT_LSB_V :: "'d fp \<Rightarrow> 'd" where "SHUNT_LSB_V fp = fp_lit fp (1 / 100000)"
definition BUS_LSB_V :: "'d fp \<Rightarrow> 'd" where "BUS_LSB_V fp = fp_lit fp (4 / 1000)"
definition CAL_MIN :: "'d fp \<Rightarrow> 'd" where "CAL_MIN fp = fp_of_int fp 2"
definition CAL_MAX :: "'d fp \<Rightarrow> 'd" where "CAL_MAX fp = fp_of_int fp 65535"
definition SHUNT_FULL_SCALE_SLACK :: "'d fp \<Rightarrow> 'd" where "SHUNT_FULL_SCALE_SLACK fp = fp_lit fp (10001 / 10000)"
definition CAL_TRUNC_EPSILON :: "'d fp \<Rightarrow> 'd" where "CAL_TRUNC_EPSILON fp = fp_lit fp (1 / 100000)"
definition INA219_SHUNT_FULL_SCALE_V :: "'d fp \<Rightarrow> 'd" where "INA219_SHUNT_FULL_SCALE_V fp = fp_lit fp (32 / 100)"

lemmas ina219_constants = CAL_CONSTANT_def CURRENT_BITS_def POWER_LSB_MULT_def SHUNT_LSB_V_def BUS_LSB_V_def
  CAL_MIN_def CAL_MAX_def SHUNT_FULL_SCALE_SLACK_def CAL_TRUNC_EPSILON_def INA219_SHUNT_FULL_SCALE_V_def

record 'd ina219_calibration_t =
  current_lsb_a :: 'd
  power_lsb_w :: 'd
  calibration :: "16 word"
  full_scale_a :: 'd

definition ina219_current_lsb_for :: "'d fp \<Rightarrow> 16 word \<Rightarrow> 'd \<Rightarrow> 'd" where
  "ina219_current_lsb_for fp cal shunt_ohms =
    (let effective = cal AND INA219_CAL_FS0_MASK in
     if effective = 0 \<or> \<not> fp_less fp (fp_zero fp) shunt_ohms then fp_zero fp
     else fp_div fp (CAL_CONSTANT fp) (fp_mul fp (fp_of_int fp (uint effective)) shunt_ohms))"

text \<open>None where the code answers \<open>false\<close>. \<open>args\<close>: the result pointer is not NULL.\<close>

definition ina219_calibration_compute :: "'d fp \<Rightarrow> bool \<Rightarrow> 'd \<Rightarrow> 'd \<Rightarrow> 'd ina219_calibration_t option" where
  "ina219_calibration_compute fp args shunt_ohms max_current_a =
    (if \<not> args \<or> \<not> fp_less fp (fp_zero fp) shunt_ohms \<or> \<not> fp_less fp (fp_zero fp) max_current_a
        \<or> \<not> fp_finite fp shunt_ohms \<or> \<not> fp_finite fp max_current_a then None
     else if fp_less fp (fp_mul fp (INA219_SHUNT_FULL_SCALE_V fp) (SHUNT_FULL_SCALE_SLACK fp))
                        (fp_mul fp max_current_a shunt_ohms) then None
     else
       let current_lsb = fp_div fp max_current_a (CURRENT_BITS fp);
           cal = fp_div fp (CAL_CONSTANT fp) (fp_mul fp current_lsb shunt_ohms);
           truncated = fp_truncf fp (fp_mul fp cal (fp_add fp (fp_of_int fp 1) (CAL_TRUNC_EPSILON fp))) in
       if \<not> fp_le fp (CAL_MIN fp) truncated \<or> fp_less fp (CAL_MAX fp) truncated then None
       else
         let reg = word_of_int (fp_trunc fp truncated) AND INA219_CAL_FS0_MASK;
             lsb = ina219_current_lsb_for fp reg shunt_ohms in
         Some \<lparr>current_lsb_a = lsb, power_lsb_w = fp_mul fp lsb (POWER_LSB_MULT fp), calibration = reg,
               full_scale_a = fp_mul fp lsb (CURRENT_BITS fp)\<rparr>)"

definition ina219_shunt_volts :: "'d fp \<Rightarrow> 16 word \<Rightarrow> 'd" where
  "ina219_shunt_volts fp raw = fp_mul fp (fp_of_int fp (sint raw)) (SHUNT_LSB_V fp)"

definition ina219_bus_volts :: "'d fp \<Rightarrow> 16 word \<Rightarrow> 'd" where
  "ina219_bus_volts fp raw = fp_mul fp (fp_of_int fp (uint (drop_bit 3 raw AND 0x1FFF))) (BUS_LSB_V fp)"

definition ina219_current_amps :: "'d fp \<Rightarrow> 16 word \<Rightarrow> 'd \<Rightarrow> 'd" where
  "ina219_current_amps fp raw lsb = fp_mul fp (fp_of_int fp (sint raw)) lsb"

definition ina219_power_watts :: "'d fp \<Rightarrow> 16 word \<Rightarrow> 'd \<Rightarrow> 'd" where
  "ina219_power_watts fp raw lsb = fp_mul fp (fp_of_int fp (uint raw)) lsb"

section \<open>The driver\<close>

definition I219_REG_CONFIG :: "8 word" where "I219_REG_CONFIG = 0"
definition I219_REG_SHUNT_VOLTAGE :: "8 word" where "I219_REG_SHUNT_VOLTAGE = 1"
definition I219_REG_BUS_VOLTAGE :: "8 word" where "I219_REG_BUS_VOLTAGE = 2"
definition I219_REG_POWER :: "8 word" where "I219_REG_POWER = 3"
definition I219_REG_CURRENT :: "8 word" where "I219_REG_CURRENT = 4"
definition I219_REG_CALIBRATION :: "8 word" where "I219_REG_CALIBRATION = 5"

lemmas ina219_regs = I219_REG_CONFIG_def I219_REG_SHUNT_VOLTAGE_def I219_REG_BUS_VOLTAGE_def I219_REG_POWER_def
  I219_REG_CURRENT_def I219_REG_CALIBRATION_def

definition I219_CONFIG_RESET :: "16 word" where "I219_CONFIG_RESET = 0x8000"
definition CONFIG_BVOLT_32V :: "16 word" where "CONFIG_BVOLT_32V = 0x2000"
definition CONFIG_GAIN_8 :: "16 word" where "CONFIG_GAIN_8 = 0x1800"
definition CONFIG_BADC_12BIT :: "16 word" where "CONFIG_BADC_12BIT = 0x0180"
definition CONFIG_SADC_12BIT :: "16 word" where "CONFIG_SADC_12BIT = 0x0018"
definition CONFIG_MODE_CONT :: "16 word" where "CONFIG_MODE_CONT = 0x0007"

datatype ina219_stage_t =
    INA219_STAGE_NONE | INA219_STAGE_RANGE | INA219_STAGE_IDENTIFY | INA219_STAGE_RESET
  | INA219_STAGE_CONFIGURE | INA219_STAGE_CALIBRATE

definition ina219_stage_name :: "ina219_stage_t option \<Rightarrow> string" where
  "ina219_stage_name x =
    (case x of
       Some INA219_STAGE_NONE \<Rightarrow> ''none'' | Some INA219_STAGE_RANGE \<Rightarrow> ''computing the calibration''
     | Some INA219_STAGE_IDENTIFY \<Rightarrow> ''confirming the part responds'' | Some INA219_STAGE_RESET \<Rightarrow> ''resetting''
     | Some INA219_STAGE_CONFIGURE \<Rightarrow> ''configuring'' | Some INA219_STAGE_CALIBRATE \<Rightarrow> ''writing the calibration''
     | None \<Rightarrow> ''unknown'')"

record 'd ina219_dev_t =
  i_dev :: bool
  i_cal :: "'d ina219_calibration_t"
  i_bus :: bus

record 'd ina219_report_t =
  r_stage :: ina219_stage_t
  r_current_lsb_a :: 'd
  r_full_scale_a :: 'd
  r_calibration :: "16 word"

definition zero_ina219_report :: "'d fp \<Rightarrow> 'd ina219_report_t" where
  "zero_ina219_report fp = \<lparr>r_stage = INA219_STAGE_NONE, r_current_lsb_a = fp_zero fp,
     r_full_scale_a = fp_zero fp, r_calibration = 0\<rparr>"

definition write_reg :: "8 word \<Rightarrow> 16 word \<Rightarrow> 'd ina219_dev_t \<Rightarrow> esp_err_t \<times> 'd ina219_dev_t" where
  "write_reg reg v d = (let (e, b) = bus_write16 (i_dev d) reg v (i_bus d) in (e, d\<lparr>i_bus := b\<rparr>))"

definition read_reg :: "8 word \<Rightarrow> 'd ina219_dev_t \<Rightarrow> esp_err_t \<times> 16 word \<times> 'd ina219_dev_t" where
  "read_reg reg d = (let (e, v, b) = bus_read16 (i_dev d) reg 0 (i_bus d) in (e, v, d\<lparr>i_bus := b\<rparr>))"

abbreviation i219_fail :: "ina219_stage_t \<Rightarrow> 'd ina219_report_t option \<Rightarrow> 'd ina219_report_t option" where
  "i219_fail x rep \<equiv> map_option (r_stage_update (\<lambda>_. x)) rep"

definition report_cal :: "'d ina219_calibration_t \<Rightarrow> 'd ina219_report_t \<Rightarrow> 'd ina219_report_t" where
  "report_cal c r = r\<lparr>r_current_lsb_a := current_lsb_a c, r_full_scale_a := full_scale_a c,
     r_calibration := calibration c\<rparr>"

definition configure ::
    "'d ina219_dev_t \<Rightarrow> 'd ina219_report_t option \<Rightarrow> esp_err_t \<times> 'd ina219_dev_t \<times> 'd ina219_report_t option" where
  "configure d rep =
    (let rep = map_option (\<lambda>r. report_cal (i_cal d) (r\<lparr>r_stage := INA219_STAGE_NONE\<rparr>)) rep in
     if \<not> i_dev d then (ESP_ERR_INVALID_STATE, d, rep)
     else
       let (e, d) = write_reg I219_REG_CONFIG I219_CONFIG_RESET d in
       if e \<noteq> ESP_OK then (e, d, i219_fail INA219_STAGE_RESET rep)
       else
         let config = CONFIG_BVOLT_32V OR CONFIG_GAIN_8 OR CONFIG_BADC_12BIT OR CONFIG_SADC_12BIT OR CONFIG_MODE_CONT;
             (e, d) = write_reg I219_REG_CONFIG config d in
         if e \<noteq> ESP_OK then (e, d, i219_fail INA219_STAGE_CONFIGURE rep)
         else
           let (e, d) = write_reg I219_REG_CALIBRATION (calibration (i_cal d)) d in
           if e \<noteq> ESP_OK then (e, d, i219_fail INA219_STAGE_CALIBRATE rep)
           else
             let (e, readback, d) = read_reg I219_REG_CALIBRATION d in
             if e \<noteq> ESP_OK then (e, d, i219_fail INA219_STAGE_IDENTIFY rep)
             else if readback \<noteq> calibration (i_cal d)
             then (ESP_ERR_INA219_WRONG_PART, d, i219_fail INA219_STAGE_IDENTIFY rep)
             else (ESP_OK, d, rep))"

definition ina219_create ::
    "'d fp \<Rightarrow> bool \<Rightarrow> bool \<Rightarrow> bool \<Rightarrow> 'd \<Rightarrow> 'd \<Rightarrow> 'd ina219_report_t option \<Rightarrow> bus
       \<Rightarrow> esp_err_t \<times> 'd ina219_dev_t option \<times> 'd ina219_report_t option" where
  "ina219_create fp args calloc_ok dev shunt_ohms max_current_a rep b =
    (if \<not> args then (ESP_ERR_INVALID_ARG, None, rep)
     else
       let rep = map_option (\<lambda>r. zero_ina219_report fp) rep in
       if \<not> calloc_ok then (ESP_ERR_NO_MEM, None, rep)
       else case ina219_calibration_compute fp True shunt_ohms max_current_a of
         None \<Rightarrow> (ESP_ERR_INA219_BAD_RANGE, None, i219_fail INA219_STAGE_RANGE rep)
       | Some c \<Rightarrow>
           let d = \<lparr>i_dev = dev, i_cal = c, i_bus = b\<rparr> in
           if dev then
             let (e, d, rep) = configure d rep in
             if e \<noteq> ESP_OK then (e, None, rep) else (ESP_OK, Some d, rep)
           else (ESP_OK, Some d, map_option (report_cal c) rep))"

definition ina219_set_device ::
    "'d fp \<Rightarrow> bool \<Rightarrow> bool \<Rightarrow> 'd ina219_report_t option \<Rightarrow> 'd ina219_dev_t
       \<Rightarrow> esp_err_t \<times> 'd ina219_dev_t \<times> 'd ina219_report_t option" where
  "ina219_set_device fp args dev rep d =
    (if \<not> args then (ESP_ERR_INVALID_ARG, d, rep)
     else
       let rep = map_option (\<lambda>r. zero_ina219_report fp) rep; d = d\<lparr>i_dev := dev\<rparr> in
       if \<not> dev then (ESP_OK, d, rep) else configure d rep)"

record 'd ina219_reading_t =
  shunt_voltage :: 'd
  bus_voltage :: 'd
  current :: 'd
  power :: 'd

definition ina219_read :: "'d fp \<Rightarrow> bool \<Rightarrow> 'd ina219_dev_t \<Rightarrow> esp_err_t \<times> 'd ina219_reading_t option \<times> 'd ina219_dev_t" where
  "ina219_read fp args d =
    (if \<not> args then (ESP_ERR_INVALID_ARG, None, d)
     else
       let (e, shunt, d) = read_reg I219_REG_SHUNT_VOLTAGE d;
           (e, bus, d) = (if e = ESP_OK then read_reg I219_REG_BUS_VOLTAGE d else (e, 0, d));
           (e, pow, d) = (if e = ESP_OK then read_reg I219_REG_POWER d else (e, 0, d));
           (e, cur, d) = (if e = ESP_OK then read_reg I219_REG_CURRENT d else (e, 0, d)) in
       if e \<noteq> ESP_OK then (e, None, d)
       else (ESP_OK, Some \<lparr>shunt_voltage = ina219_shunt_volts fp shunt, bus_voltage = ina219_bus_volts fp bus,
         current = ina219_current_amps fp cur (current_lsb_a (i_cal d)),
         power = ina219_power_watts fp pow (power_lsb_w (i_cal d))\<rparr>, d))"

definition ina219_clear_alert :: "bool \<Rightarrow> esp_err_t" where
  "ina219_clear_alert args = (if args then ESP_OK else ESP_ERR_INVALID_ARG)"

section \<open>What the calibration promises\<close>

lemma fs0_cleared: "unat (x AND INA219_CAL_FS0_MASK) = 2 * (unat x div 2)"
proof -
  have m: "(0xFFFE :: 16 word) = push_bit 1 (mask 15)" by (simp add: mask_numeral)
  have "x AND INA219_CAL_FS0_MASK = push_bit 1 (drop_bit 1 x)"
    unfolding INA219_CAL_FS0_MASK_def m 
    by (rule bit_word_eqI, simp only: bit_and_iff bit_push_bit_iff bit_mask_iff bit_drop_bit_eq comp_apply) auto
  moreover have d: "unat (drop_bit 1 x) = unat x div 2" by (simp add: drop_bit_eq_div unat_div)
  moreover have "unat (drop_bit 1 x) * 2 ^ 1 < 2 ^ LENGTH(16)"
    unfolding d using unat_lt_16 [of x] by (simp add: div_less_iff_less_mult)
  ultimately show ?thesis using unat_push_bit [of "drop_bit 1 x" 1] by simp
qed

lemma fs0_idem: "(x AND INA219_CAL_FS0_MASK) AND INA219_CAL_FS0_MASK = x AND INA219_CAL_FS0_MASK"
  by (simp add: and.assoc)

lemma unat_of_trunc: "0 \<le> n \<Longrightarrow> n \<le> 65535 \<Longrightarrow> unat (word_of_int n :: 16 word) = nat n"
  by (simp add: unat_eq_nat_uint uint_word_of_int)

definition ina219_quotient :: "real \<Rightarrow> real \<Rightarrow> real" where
  "ina219_quotient shunt amps = (4096 / 100000) * 32768 / (amps * shunt)"

text \<open>The calibration in exact arithmetic.\<close>

lemma ina219_compute_real:
  assumes "ina219_calibration_compute real_fp True shunt amps = Some c"
  shows "0 < shunt" "0 < amps" "amps * shunt \<le> 0.320032"
    and "unat (calibration c) = 2 * (nat \<lfloor>ina219_quotient shunt amps * (1 + 1 / 100000)\<rfloor> div 2)"
    and "\<lfloor>ina219_quotient shunt amps * (1 + 1 / 100000)\<rfloor> \<le> 65535"
    and "calibration c AND INA219_CAL_FS0_MASK = calibration c"
    and "current_lsb_a c = ina219_current_lsb_for real_fp (calibration c) shunt"
    and "full_scale_a c = current_lsb_a c * 32768" "power_lsb_w c = current_lsb_a c * 20"
proof -
  define t where "t = \<lfloor>ina219_quotient shunt amps * (1 + 1 / 100000)\<rfloor>"
  show pos: "0 < shunt" "0 < amps" and r: "amps * shunt \<le> 0.320032"
    using assms by (auto simp: ina219_calibration_compute_def ina219_constants of_rat_divide split: if_splits)
  have q: "0 < ina219_quotient shunt amps" using pos by (simp add: ina219_quotient_def)
  have cal: "4096 / 100000 / (amps / 32768 * shunt) = ina219_quotient shunt amps"
    by (simp add: ina219_quotient_def)
  have c: "2 \<le> t \<and> t \<le> 65535 \<and> c = \<lparr>current_lsb_a = ina219_current_lsb_for real_fp (word_of_int t AND INA219_CAL_FS0_MASK) shunt,
      power_lsb_w = ina219_current_lsb_for real_fp (word_of_int t AND INA219_CAL_FS0_MASK) shunt * 20,
      calibration = word_of_int t AND INA219_CAL_FS0_MASK,
      full_scale_a = ina219_current_lsb_for real_fp (word_of_int t AND INA219_CAL_FS0_MASK) shunt * 32768\<rparr>"
    using assms pos q cal
    by (auto simp: ina219_calibration_compute_def ina219_constants of_rat_divide Let_def t_def split: if_splits)
  show "\<lfloor>ina219_quotient shunt amps * (1 + 1 / 100000)\<rfloor> \<le> 65535" using c unfolding t_def by blast
  have "unat (word_of_int t :: 16 word) = nat t" using c by (intro unat_of_trunc) simp_all
  then show "unat (calibration c) = 2 * (nat \<lfloor>ina219_quotient shunt amps * (1 + 1 / 100000)\<rfloor> div 2)"
    using c unfolding t_def [symmetric] by (simp add: fs0_cleared)
  show "calibration c AND INA219_CAL_FS0_MASK = calibration c"
    "current_lsb_a c = ina219_current_lsb_for real_fp (calibration c) shunt"
    "full_scale_a c = current_lsb_a c * 32768" "power_lsb_w c = current_lsb_a c * 20"
    using c by (simp_all add: fs0_idem)
qed

definition ina219_compute :: "real \<Rightarrow> real \<Rightarrow> (nat \<times> real \<times> real) option" where
  "ina219_compute shunt amps = map_option (\<lambda>c. (unat (calibration c), current_lsb_a c, full_scale_a c))
     (ina219_calibration_compute real_fp True shunt amps)"

lemma ina219_lsb_real:
  "0 < shunt \<Longrightarrow> cal AND INA219_CAL_FS0_MASK = cal \<Longrightarrow> 0 < unat cal \<Longrightarrow>
     ina219_current_lsb_for real_fp cal shunt = (4096 / 100000) / (real (unat cal) * shunt)"
  by (auto simp: ina219_current_lsb_for_def Let_def ina219_constants of_rat_divide)

lemma ina219_register:
  assumes "ina219_calibration_compute real_fp True shunt amps = Some c"
  defines "x \<equiv> ina219_quotient shunt amps * (1 + 1 / 100000)"
  shows "4000 \<le> real (unat (calibration c))" "real (unat (calibration c)) \<le> x" "x < real (unat (calibration c)) + 2"
proof -
  note f = ina219_compute_real [OF assms(1)]
  have "4193 \<le> ina219_quotient shunt amps" using f(1-3) by (simp add: ina219_quotient_def field_simps)
  then have t: "4193 \<le> \<lfloor>x\<rfloor>" by (simp add: le_floor_iff x_def)
  have "real (unat (calibration c)) \<le> real_of_int \<lfloor>x\<rfloor>" "real_of_int \<lfloor>x\<rfloor> \<le> real (unat (calibration c)) + 1"
    and l: "4000 \<le> real (unat (calibration c))"
    unfolding f(4) x_def [symmetric] using t by linarith+
  then show "real (unat (calibration c)) \<le> x" "x < real (unat (calibration c)) + 2"
    using floor_correct [of x] by linarith+
  show "4000 \<le> real (unat (calibration c))" by (rule l)
qed

interpretation ina219_cal: calibration ina219_compute "4096 / 100000" 2 4000
proof (unfold_locales, goal_cases)
  case (1 shunt amps c)
  then show ?case using ina219_compute_real(1,2) by (auto simp: ina219_compute_def)
next
  case (2 shunt amps cal lsb full)
  then obtain c where c: "ina219_calibration_compute real_fp True shunt amps = Some c" "cal = unat (calibration c)"
    by (auto simp: ina219_compute_def)
  then show ?case using ina219_register [OF c(1)] by (simp only: c(2) ina219_quotient_def)
next
  case (3 shunt amps cal lsb full)
  then obtain c where c: "ina219_calibration_compute real_fp True shunt amps = Some c" "cal = unat (calibration c)"
    "lsb = current_lsb_a c" by (auto simp: ina219_compute_def)
  have "0 < unat (calibration c)" using ina219_register(1) [OF c(1)] by linarith
  then show ?case
    using ina219_lsb_real ina219_compute_real(1,6,7) [OF c(1)] by (simp add: c(2,3))
next
  case (4 shunt amps cal lsb full)
  then show ?case using ina219_compute_real(8) by (auto simp: ina219_compute_def)
qed simp_all

text \<open>Which ranges there are.\<close>

lemma ina219_range:
  assumes "0 < shunt" "0 < amps" "0.0205 \<le> amps * shunt" "amps * shunt \<le> 0.32"
  shows "\<exists>c. ina219_calibration_compute real_fp True shunt amps = Some c"
proof -
  let ?x = "4096 / 100000 / (amps / 32768 * shunt) * (1 + 1 / 100000)"
  have "?x = 1342.17728 * 1.00001 / (amps * shunt)" by simp
  also have "\<dots> < 65535" using assms by (simp add: divide_less_eq)
  finally have hi: "?x < 65535" .
  have "2 \<le> ?x" using assms by (simp add: le_divide_eq)
  then have "2 \<le> \<lfloor>?x\<rfloor>" "\<lfloor>?x\<rfloor> \<le> 65535" "0 \<le> ?x" using hi by (simp_all only: le_floor_iff floor_le_iff)
  then show ?thesis
    using assms(1,2,4)
    by (simp add: ina219_calibration_compute_def ina219_constants of_rat_divide Let_def not_less
        del: divide_divide_eq_left times_divide_eq_right)
qed

section \<open>On a real part\<close>

text \<open>The part resets on bit 15 of its configuration register, keeps bit 0 of its calibration register at
  0, and its other registers cannot be written.\<close>

definition ina219_store :: wide_store where
  "ina219_store r v m =
    (if r = I219_REG_CONFIG then
       if bit v 15 then m(I219_REG_CONFIG := 0x399F, I219_REG_CALIBRATION := 0) else m(I219_REG_CONFIG := ucast v)
     else if r = I219_REG_CALIBRATION then m(I219_REG_CALIBRATION := ucast (v AND INA219_CAL_FS0_MASK))
     else m)"

lemma write_reg_run:
  "i_dev d \<Longrightarrow> answer (i_bus d) = wide_device st m \<Longrightarrow>
     write_reg r v d = (ESP_OK, d\<lparr>i_bus := (i_bus d)\<lparr>trace := trace (i_bus d) @ [(Tx [r, hi_byte v, lo_byte v], ESP_OK)]\<rparr>\<rparr>)"
  by (simp add: write_reg_def write16_wide)

lemma read_reg_run:
  "i_dev d \<Longrightarrow> answer (i_bus d) = wide_device st m \<Longrightarrow>
     read_reg r d = (ESP_OK, ucast (wide_file st m (trace (i_bus d)) r),
       d\<lparr>i_bus := (i_bus d)\<lparr>trace := trace (i_bus d) @ [(TxRx [r] 2, ESP_OK)]\<rparr>\<rparr>)"
  by (simp add: read_reg_def read16_wide)

lemma ina219_configure_run:
  assumes "i_dev d" "answer (i_bus d) = wide_device ina219_store m"
    "calibration (i_cal d) AND INA219_CAL_FS0_MASK = calibration (i_cal d)"
  obtains d' where "configure d (Some r) = (ESP_OK, d', Some (report_cal (i_cal d) (r\<lparr>r_stage := INA219_STAGE_NONE\<rparr>)))"
    "i_dev d'" "i_cal d' = i_cal d" "answer (i_bus d') = wide_device ina219_store m"
    "wide_file ina219_store m (trace (i_bus d')) =
       (wide_file ina219_store m (trace (i_bus d)))(I219_REG_CONFIG := 0x399F, I219_REG_CALIBRATION := ucast (calibration (i_cal d)))"
proof -
  have cfg: "CONFIG_BVOLT_32V OR CONFIG_GAIN_8 OR CONFIG_BADC_12BIT OR CONFIG_SADC_12BIT OR CONFIG_MODE_CONT = 0x399F"
    by (simp add: CONFIG_BVOLT_32V_def CONFIG_GAIN_8_def CONFIG_BADC_12BIT_def CONFIG_SADC_12BIT_def CONFIG_MODE_CONT_def)
  have st: "ina219_store I219_REG_CONFIG I219_CONFIG_RESET n = n(I219_REG_CONFIG := 0x399F, I219_REG_CALIBRATION := 0)"
    "ina219_store I219_REG_CONFIG 0x399F n = n(I219_REG_CONFIG := 0x399F)"
    "ina219_store I219_REG_CALIBRATION (calibration (i_cal d)) n = n(I219_REG_CALIBRATION := ucast (calibration (i_cal d)))" for n
    using assms(3) by (simp_all add: ina219_store_def I219_CONFIG_RESET_def ina219_regs)
  have ne: "I219_REG_CONFIG \<noteq> I219_REG_CALIBRATION" by (simp add: ina219_regs)
  let ?d' = "d\<lparr>i_bus := (i_bus d)\<lparr>trace := trace (i_bus d) @
      [(Tx [I219_REG_CONFIG, hi_byte I219_CONFIG_RESET, lo_byte I219_CONFIG_RESET], ESP_OK),
       (Tx [I219_REG_CONFIG, hi_byte 0x399F, lo_byte 0x399F], ESP_OK),
       (Tx [I219_REG_CALIBRATION, hi_byte (calibration (i_cal d)), lo_byte (calibration (i_cal d))], ESP_OK),
       (TxRx [I219_REG_CALIBRATION] 2, ESP_OK)]\<rparr>\<rparr>"
  show ?thesis
    by (rule that [of ?d'])
      (use assms(1,2) ne in \<open>auto simp: configure_def Let_def write_reg_run read_reg_run st cfg fun_upd_twist\<close>)
qed

text \<open>C27. What a good part measures is reported in amperes. Take an INA219 on the bus, a resistor and a
  largest current that need between 20.5 and 320 mV. Then \<open>ina219_create\<close> succeeds and never takes
  the part for another; the part is left in the documented configuration with a calibration register
  \<open>cal\<close>; the unit the driver uses is the one that register yields, and the largest current it
  reports is the one asked for up to 0.05 percent above and 0.001 percent below. A reading then gives
  the current, the power and the shunt voltage of the part's registers in those units, with their signs.\<close>

theorem ina219_good_part_measures_true:
  assumes "0 < shunt" "0 < amps" "0.0205 \<le> amps * shunt" "amps * shunt \<le> 0.32"
    and "answer b = wide_device ina219_store m" "trace b = []"
  shows "\<exists>d rep x d'. ina219_create real_fp True True True shunt amps (Some r0) b = (ESP_OK, Some d, Some rep)
    \<and> ina219_read real_fp True d = (ESP_OK, Some x, d')
    \<and> (let regs = wide_file ina219_store m (trace (i_bus d)); cal = unat (regs I219_REG_CALIBRATION);
           unit = 0.04096 / (real cal * shunt) in
        regs I219_REG_CONFIG = 0x399F \<and> 0 < cal \<and> r_current_lsb_a rep = unit
        \<and> amps \<le> 1.00001 * r_full_scale_a rep \<and> r_full_scale_a rep \<le> 1.0005 * amps
        \<and> current x = real_of_int (sint (ucast (m I219_REG_CURRENT) :: 16 word)) * unit
        \<and> power x = real_of_int (uint (ucast (m I219_REG_POWER) :: 16 word)) * (20 * unit)
        \<and> shunt_voltage x = real_of_int (sint (ucast (m I219_REG_SHUNT_VOLTAGE) :: 16 word)) / 100000)"
proof -
  obtain c where c: "ina219_calibration_compute real_fp True shunt amps = Some c"
    using ina219_range [OF assms(1-4)] by blast
  note f = ina219_compute_real [OF c]
  let ?d0 = "\<lparr>i_dev = True, i_cal = c, i_bus = b\<rparr>"
  have pos: "0 < unat (calibration c)" using ina219_register(1) [OF c] by linarith
  have unit: "current_lsb_a c = 0.04096 / (real (unat (calibration c)) * shunt)"
    using ina219_lsb_real [OF assms(1) f(6) pos] f(7) by simp
  have comp: "ina219_compute shunt amps = Some (unat (calibration c), current_lsb_a c, full_scale_a c)"
    by (simp add: ina219_compute_def c)
  obtain d' where d': "configure ?d0 (Some (zero_ina219_report real_fp)) =
        (ESP_OK, d', Some (report_cal c ((zero_ina219_report real_fp)\<lparr>r_stage := INA219_STAGE_NONE\<rparr>)))"
      "i_dev d'" "i_cal d' = c" "answer (i_bus d') = wide_device ina219_store m"
      "wide_file ina219_store m (trace (i_bus d')) = m(I219_REG_CONFIG := 0x399F, I219_REG_CALIBRATION := ucast (calibration c))"
    using ina219_configure_run [of ?d0 m "zero_ina219_report real_fp"] assms(5,6) f(6) by auto
  have create: "ina219_create real_fp True True True shunt amps (Some r0) b =
      (ESP_OK, Some d', Some (report_cal c ((zero_ina219_report real_fp)\<lparr>r_stage := INA219_STAGE_NONE\<rparr>)))"
    by (simp add: ina219_create_def c d'(1))
  have read: "\<exists>d2. ina219_read real_fp True d' = (ESP_OK, Some
      \<lparr>shunt_voltage = ina219_shunt_volts real_fp (ucast (m I219_REG_SHUNT_VOLTAGE)),
       bus_voltage = ina219_bus_volts real_fp (ucast (m I219_REG_BUS_VOLTAGE)),
       current = ina219_current_amps real_fp (ucast (m I219_REG_CURRENT)) (current_lsb_a c),
       power = ina219_power_watts real_fp (ucast (m I219_REG_POWER)) (power_lsb_w c)\<rparr>, d2)"
    using d'(2,3,4,5) by (simp add: ina219_read_def Let_def read_reg_run [of _ ina219_store m] ina219_regs)
  let ?regs = "wide_file ina219_store m (trace (i_bus d'))"
  have reg: "unat (?regs I219_REG_CALIBRATION) = unat (calibration c)"
    by (simp add: d'(5) unsigned_ucast_eq take_bit_nat_eq_self less_trans [OF unat_lt_16])
  have u: "0.04096 / (real (unat (?regs I219_REG_CALIBRATION)) * shunt) = current_lsb_a c"
    unfolding reg by (rule unit [symmetric])
  obtain x d2 where x: "ina219_read real_fp True d' = (ESP_OK, Some x, d2)"
      "current x = real_of_int (sint (ucast (m I219_REG_CURRENT) :: 16 word)) * current_lsb_a c"
      "power x = real_of_int (uint (ucast (m I219_REG_POWER) :: 16 word)) * (20 * current_lsb_a c)"
      "shunt_voltage x = real_of_int (sint (ucast (m I219_REG_SHUNT_VOLTAGE) :: 16 word)) / 100000"
    using read f(9)
    by (auto simp: ina219_current_amps_def ina219_power_watts_def ina219_shunt_volts_def SHUNT_LSB_V_def of_rat_divide)
  have cfg: "?regs I219_REG_CONFIG = 0x399F" by (simp add: d'(5) ina219_regs)
  show ?thesis
    unfolding Let_def
    by (intro exI conjI, rule create, rule x(1), unfold u, unfold reg, rule cfg, rule pos)
      (use ina219_cal.range_kept [OF comp] x(2-4) in \<open>simp_all add: report_cal_def\<close>)
qed

definition bench_regs :: wide_regs where
  "bench_regs = (\<lambda>r. if r = I219_REG_CURRENT then 0xFFFF else 0)"

theorem ina219_good_part_measures_true_witness:
  "\<exists>d rep x d'. ina219_create real_fp True True True 0.1 3.2 (Some (zero_ina219_report real_fp))
        \<lparr>trace = [], answer = wide_device ina219_store bench_regs\<rparr> = (ESP_OK, Some d, Some rep)
      \<and> ina219_read real_fp True d = (ESP_OK, Some x, d') \<and> 3.2 \<le> 1.00001 * r_full_scale_a rep"
  using ina219_good_part_measures_true [of "0.1" "3.2" "\<lparr>trace = [], answer = wide_device ina219_store bench_regs\<rparr>"
      bench_regs "zero_ina219_report real_fp"]
  unfolding Let_def by fastforce

end
