(* ===== verification/Ina226.thy ===== *)
theory Ina226
  imports Wide_Regs Floating Ina_Calibration
begin

unbundle bit_operations_syntax

text \<open>
  The INA226 current monitor: the calibration of \<open>ina226/src/ina226_calc.c\<close> and the driver of
  \<open>ina226/src/ina226.c\<close>. Unlike the INA219 it can be identified, and is before anything is written.
\<close>

section \<open>Calibration\<close>

definition INA226_CAL_MAX :: int where "INA226_CAL_MAX = 32767"
definition INA226_DEVICE_ID :: "16 word" where "INA226_DEVICE_ID = 0x226"
definition INA226_MANUFACTURER_ID_TI :: "16 word" where "INA226_MANUFACTURER_ID_TI = 0x5449"

definition CAL_CONSTANT :: "'d fp \<Rightarrow> 'd" where "CAL_CONSTANT fp = fp_lit fp (512 / 100000)"
definition CURRENT_BITS :: "'d fp \<Rightarrow> 'd" where "CURRENT_BITS fp = fp_of_int fp 32768"
definition POWER_LSB_MULT :: "'d fp \<Rightarrow> 'd" where "POWER_LSB_MULT fp = fp_of_int fp 25"
definition SHUNT_LSB_V :: "'d fp \<Rightarrow> 'd" where "SHUNT_LSB_V fp = fp_lit fp (25 / 10000000)"
definition BUS_LSB_V :: "'d fp \<Rightarrow> 'd" where "BUS_LSB_V fp = fp_lit fp (125 / 100000)"
definition CAL_MIN :: "'d fp \<Rightarrow> 'd" where "CAL_MIN fp = fp_of_int fp 1"
definition SHUNT_FULL_SCALE_SLACK :: "'d fp \<Rightarrow> 'd" where "SHUNT_FULL_SCALE_SLACK fp = fp_lit fp (10001 / 10000)"
definition CAL_TRUNC_EPSILON :: "'d fp \<Rightarrow> 'd" where "CAL_TRUNC_EPSILON fp = fp_lit fp (1 / 100000)"
definition INA226_SHUNT_FULL_SCALE_V :: "'d fp \<Rightarrow> 'd" where "INA226_SHUNT_FULL_SCALE_V fp = fp_lit fp (8192 / 100000)"

lemmas ina226_constants = CAL_CONSTANT_def CURRENT_BITS_def POWER_LSB_MULT_def SHUNT_LSB_V_def BUS_LSB_V_def
  CAL_MIN_def INA226_CAL_MAX_def SHUNT_FULL_SCALE_SLACK_def CAL_TRUNC_EPSILON_def INA226_SHUNT_FULL_SCALE_V_def

record 'd ina226_calibration_t =
  current_lsb_a :: 'd
  power_lsb_w :: 'd
  calibration :: "16 word"
  full_scale_a :: 'd

definition ina226_current_lsb_for :: "'d fp \<Rightarrow> 16 word \<Rightarrow> 'd \<Rightarrow> 'd" where
  "ina226_current_lsb_for fp cal shunt_ohms =
    (if cal = 0 \<or> \<not> fp_less fp (fp_zero fp) shunt_ohms then fp_zero fp
     else fp_div fp (CAL_CONSTANT fp) (fp_mul fp (fp_of_int fp (uint cal)) shunt_ohms))"

definition ina226_calibration_compute :: "'d fp \<Rightarrow> bool \<Rightarrow> 'd \<Rightarrow> 'd \<Rightarrow> 'd ina226_calibration_t option" where
  "ina226_calibration_compute fp args shunt_ohms max_current_a =
    (if \<not> args \<or> \<not> fp_less fp (fp_zero fp) shunt_ohms \<or> \<not> fp_less fp (fp_zero fp) max_current_a
        \<or> \<not> fp_finite fp shunt_ohms \<or> \<not> fp_finite fp max_current_a then None
     else if fp_less fp (fp_mul fp (INA226_SHUNT_FULL_SCALE_V fp) (SHUNT_FULL_SCALE_SLACK fp))
                        (fp_mul fp max_current_a shunt_ohms) then None
     else
       let current_lsb = fp_div fp max_current_a (CURRENT_BITS fp);
           cal = fp_div fp (CAL_CONSTANT fp) (fp_mul fp current_lsb shunt_ohms);
           truncated = fp_truncf fp (fp_mul fp cal (fp_add fp (fp_of_int fp 1) (CAL_TRUNC_EPSILON fp))) in
       if \<not> fp_le fp (CAL_MIN fp) truncated \<or> fp_less fp (fp_of_int fp INA226_CAL_MAX) truncated then None
       else
         let reg = word_of_int (fp_trunc fp truncated);
             lsb = ina226_current_lsb_for fp reg shunt_ohms in
         Some \<lparr>current_lsb_a = lsb, power_lsb_w = fp_mul fp lsb (POWER_LSB_MULT fp), calibration = reg,
               full_scale_a = fp_mul fp lsb (CURRENT_BITS fp)\<rparr>)"

definition ina226_part_matches :: "16 word \<Rightarrow> 16 word \<Rightarrow> bool" where
  "ina226_part_matches manufacturer die \<longleftrightarrow>
     manufacturer = INA226_MANUFACTURER_ID_TI \<and> drop_bit 4 die = INA226_DEVICE_ID"

definition ina226_shunt_volts :: "'d fp \<Rightarrow> 16 word \<Rightarrow> 'd" where
  "ina226_shunt_volts fp raw = fp_mul fp (fp_of_int fp (sint raw)) (SHUNT_LSB_V fp)"

definition ina226_current_amps :: "'d fp \<Rightarrow> 16 word \<Rightarrow> 'd \<Rightarrow> 'd" where
  "ina226_current_amps fp raw lsb = fp_mul fp (fp_of_int fp (sint raw)) lsb"

definition ina226_bus_volts :: "'d fp \<Rightarrow> 16 word \<Rightarrow> 'd" where
  "ina226_bus_volts fp raw = fp_mul fp (fp_of_int fp (uint raw)) (BUS_LSB_V fp)"

definition ina226_power_watts :: "'d fp \<Rightarrow> 16 word \<Rightarrow> 'd \<Rightarrow> 'd" where
  "ina226_power_watts fp raw lsb = fp_mul fp (fp_of_int fp (uint raw)) lsb"

section \<open>The driver\<close>

definition I226_REG_CONFIG :: "8 word" where "I226_REG_CONFIG = 0"
definition I226_REG_SHUNT_VOLTAGE :: "8 word" where "I226_REG_SHUNT_VOLTAGE = 1"
definition I226_REG_BUS_VOLTAGE :: "8 word" where "I226_REG_BUS_VOLTAGE = 2"
definition I226_REG_POWER :: "8 word" where "I226_REG_POWER = 3"
definition I226_REG_CURRENT :: "8 word" where "I226_REG_CURRENT = 4"
definition I226_REG_CALIBRATION :: "8 word" where "I226_REG_CALIBRATION = 5"
definition REG_MASK_ENABLE :: "8 word" where "REG_MASK_ENABLE = 6"
definition I226_REG_MANUFACTURER_ID :: "8 word" where "I226_REG_MANUFACTURER_ID = 0xFE"
definition REG_DIE_ID :: "8 word" where "REG_DIE_ID = 0xFF"

definition I226_CONFIG_RESET :: "16 word" where "I226_CONFIG_RESET = 0x8000"
definition CONFIG_MODE_BOTH_CONT :: "16 word" where "CONFIG_MODE_BOTH_CONT = 0x0007"
definition CONFIG_VBUS_1100US :: "16 word" where "CONFIG_VBUS_1100US = 0x0100"
definition CONFIG_VSHUNT_1100US :: "16 word" where "CONFIG_VSHUNT_1100US = 0x0020"

datatype ina226_stage_t =
    INA226_STAGE_NONE | INA226_STAGE_RANGE | INA226_STAGE_IDENTIFY | INA226_STAGE_RESET
  | INA226_STAGE_CONFIGURE | INA226_STAGE_CALIBRATE

definition ina226_stage_name :: "ina226_stage_t option \<Rightarrow> string" where
  "ina226_stage_name x =
    (case x of
       Some INA226_STAGE_NONE \<Rightarrow> ''none'' | Some INA226_STAGE_RANGE \<Rightarrow> ''computing the calibration''
     | Some INA226_STAGE_IDENTIFY \<Rightarrow> ''identifying the part'' | Some INA226_STAGE_RESET \<Rightarrow> ''resetting''
     | Some INA226_STAGE_CONFIGURE \<Rightarrow> ''configuring'' | Some INA226_STAGE_CALIBRATE \<Rightarrow> ''writing the calibration''
     | None \<Rightarrow> ''unknown'')"

text \<open>\<open>i_avg\<close>: the number of the averaging asked for.\<close>

record 'd ina226_dev_t =
  i_dev :: bool
  i_avg :: "16 word"
  i_cal :: "'d ina226_calibration_t"
  i_bus :: bus

record 'd ina226_report_t =
  r_stage :: ina226_stage_t
  r_manufacturer_id :: "16 word"
  r_die_id :: "16 word"
  r_current_lsb_a :: 'd
  r_full_scale_a :: 'd
  r_calibration :: "16 word"

definition zero_ina226_report :: "'d fp \<Rightarrow> 'd ina226_report_t" where
  "zero_ina226_report fp = \<lparr>r_stage = INA226_STAGE_NONE, r_manufacturer_id = 0, r_die_id = 0,
     r_current_lsb_a = fp_zero fp, r_full_scale_a = fp_zero fp, r_calibration = 0\<rparr>"

definition write_reg :: "8 word \<Rightarrow> 16 word \<Rightarrow> 'd ina226_dev_t \<Rightarrow> esp_err_t \<times> 'd ina226_dev_t" where
  "write_reg reg v d = (let (e, b) = bus_write16 (i_dev d) reg v (i_bus d) in (e, d\<lparr>i_bus := b\<rparr>))"

definition read_reg :: "8 word \<Rightarrow> 'd ina226_dev_t \<Rightarrow> esp_err_t \<times> 16 word \<times> 'd ina226_dev_t" where
  "read_reg reg d = (let (e, v, b) = bus_read16 (i_dev d) reg 0 (i_bus d) in (e, v, d\<lparr>i_bus := b\<rparr>))"

abbreviation i226_fail :: "ina226_stage_t \<Rightarrow> 'd ina226_report_t option \<Rightarrow> 'd ina226_report_t option" where
  "i226_fail x rep \<equiv> map_option (r_stage_update (\<lambda>_. x)) rep"

definition report_cal :: "'d ina226_calibration_t \<Rightarrow> 'd ina226_report_t \<Rightarrow> 'd ina226_report_t" where
  "report_cal c r = r\<lparr>r_current_lsb_a := current_lsb_a c, r_full_scale_a := full_scale_a c,
     r_calibration := calibration c\<rparr>"

text \<open>The writes, once the part is identified.\<close>

definition configure_part ::
    "'d ina226_dev_t \<Rightarrow> 'd ina226_report_t option \<Rightarrow> esp_err_t \<times> 'd ina226_dev_t \<times> 'd ina226_report_t option" where
  "configure_part d rep =
    (let (e, d) = write_reg I226_REG_CONFIG I226_CONFIG_RESET d in
     if e \<noteq> ESP_OK then (e, d, i226_fail INA226_STAGE_RESET rep)
     else
       let config = push_bit 9 (i_avg d) OR CONFIG_VBUS_1100US OR CONFIG_VSHUNT_1100US OR CONFIG_MODE_BOTH_CONT;
           (e, d) = write_reg I226_REG_CONFIG config d in
       if e \<noteq> ESP_OK then (e, d, i226_fail INA226_STAGE_CONFIGURE rep)
       else
         let (e, d) = write_reg I226_REG_CALIBRATION (calibration (i_cal d)) d in
         if e \<noteq> ESP_OK then (e, d, i226_fail INA226_STAGE_CALIBRATE rep)
         else (ESP_OK, d, rep))"

definition configure ::
    "'d ina226_dev_t \<Rightarrow> 'd ina226_report_t option \<Rightarrow> esp_err_t \<times> 'd ina226_dev_t \<times> 'd ina226_report_t option" where
  "configure d rep =
    (let rep = map_option (\<lambda>r. report_cal (i_cal d) (r\<lparr>r_stage := INA226_STAGE_NONE\<rparr>)) rep in
     if \<not> i_dev d then (ESP_ERR_INVALID_STATE, d, rep)
     else
       let (e, manufacturer, d) = read_reg I226_REG_MANUFACTURER_ID d;
           (e, die, d) = (if e = ESP_OK then read_reg REG_DIE_ID d else (e, 0, d)) in
       if e \<noteq> ESP_OK then (e, d, i226_fail INA226_STAGE_IDENTIFY rep)
       else
         let rep = map_option (\<lambda>r. r\<lparr>r_manufacturer_id := manufacturer, r_die_id := die\<rparr>) rep in
         if \<not> ina226_part_matches manufacturer die
         then (ESP_ERR_INA226_WRONG_PART, d, i226_fail INA226_STAGE_IDENTIFY rep)
         else configure_part d rep)"

definition ina226_create ::
    "'d fp \<Rightarrow> bool \<Rightarrow> bool \<Rightarrow> bool \<Rightarrow> 'd \<Rightarrow> 'd \<Rightarrow> 16 word \<Rightarrow> 'd ina226_report_t option \<Rightarrow> bus
       \<Rightarrow> esp_err_t \<times> 'd ina226_dev_t option \<times> 'd ina226_report_t option \<times> bus" where
  "ina226_create fp args calloc_ok dev shunt_ohms max_current_a averaging rep b =
    (if \<not> args then (ESP_ERR_INVALID_ARG, None, rep, b)
     else
       let rep = map_option (\<lambda>r. zero_ina226_report fp) rep in
       if \<not> calloc_ok then (ESP_ERR_NO_MEM, None, rep, b)
       else case ina226_calibration_compute fp True shunt_ohms max_current_a of
         None \<Rightarrow> (ESP_ERR_INA226_BAD_RANGE, None, i226_fail INA226_STAGE_RANGE rep, b)
       | Some c \<Rightarrow>
           let d = \<lparr>i_dev = dev, i_avg = averaging, i_cal = c, i_bus = b\<rparr> in
           if dev then
             let (e, d, rep) = configure d rep in
             if e \<noteq> ESP_OK then (e, None, rep, i_bus d) else (ESP_OK, Some d, rep, i_bus d)
           else (ESP_OK, Some d, map_option (report_cal c) rep, b))"

definition ina226_set_device ::
    "'d fp \<Rightarrow> bool \<Rightarrow> bool \<Rightarrow> 'd ina226_report_t option \<Rightarrow> 'd ina226_dev_t
       \<Rightarrow> esp_err_t \<times> 'd ina226_dev_t \<times> 'd ina226_report_t option" where
  "ina226_set_device fp args dev rep d =
    (if \<not> args then (ESP_ERR_INVALID_ARG, d, rep)
     else
       let rep = map_option (\<lambda>r. zero_ina226_report fp) rep; d = d\<lparr>i_dev := dev\<rparr> in
       if \<not> dev then (ESP_OK, d, rep) else configure d rep)"

record 'd ina226_reading_t =
  shunt_voltage :: 'd
  bus_voltage :: 'd
  current :: 'd
  power :: 'd

definition ina226_read :: "'d fp \<Rightarrow> bool \<Rightarrow> 'd ina226_dev_t \<Rightarrow> esp_err_t \<times> 'd ina226_reading_t option \<times> 'd ina226_dev_t" where
  "ina226_read fp args d =
    (if \<not> args then (ESP_ERR_INVALID_ARG, None, d)
     else
       let (e, shunt, d) = read_reg I226_REG_SHUNT_VOLTAGE d;
           (e, bus, d) = (if e = ESP_OK then read_reg I226_REG_BUS_VOLTAGE d else (e, 0, d));
           (e, pow, d) = (if e = ESP_OK then read_reg I226_REG_POWER d else (e, 0, d));
           (e, cur, d) = (if e = ESP_OK then read_reg I226_REG_CURRENT d else (e, 0, d)) in
       if e \<noteq> ESP_OK then (e, None, d)
       else (ESP_OK, Some \<lparr>shunt_voltage = ina226_shunt_volts fp shunt, bus_voltage = ina226_bus_volts fp bus,
         current = ina226_current_amps fp cur (current_lsb_a (i_cal d)),
         power = ina226_power_watts fp pow (power_lsb_w (i_cal d))\<rparr>, d))"

definition ina226_clear_alert :: "bool \<Rightarrow> 'd ina226_dev_t \<Rightarrow> esp_err_t \<times> 'd ina226_dev_t" where
  "ina226_clear_alert args d =
    (if \<not> args then (ESP_ERR_INVALID_ARG, d)
     else let (e, mask_enable, d) = read_reg REG_MASK_ENABLE d in (e, d))"

section \<open>What the calibration promises\<close>

definition ina226_quotient :: "real \<Rightarrow> real \<Rightarrow> real" where
  "ina226_quotient shunt amps = (512 / 100000) * 32768 / (amps * shunt)"

lemma ina226_of_trunc: "0 \<le> n \<Longrightarrow> n \<le> 32767 \<Longrightarrow> unat (word_of_int n :: 16 word) = nat n"
  by (simp add: unat_eq_nat_uint uint_word_of_int)

lemma ina226_compute_real:
  assumes "ina226_calibration_compute real_fp True shunt amps = Some c"
  defines "x \<equiv> ina226_quotient shunt amps * (1 + 1 / 100000)"
  shows "0 < shunt" "0 < amps" "unat (calibration c) = nat \<lfloor>x\<rfloor>" "2000 \<le> \<lfloor>x\<rfloor>" "unat (calibration c) \<le> 32767"
    and "current_lsb_a c = (512 / 100000) / (real (unat (calibration c)) * shunt)"
    and "full_scale_a c = current_lsb_a c * 32768"
proof -
  show pos: "0 < shunt" "0 < amps"
    using assms(1) by (auto simp: ina226_calibration_compute_def split: if_splits)
  have r: "amps * shunt \<le> 0.081928192"
    using assms(1) by (auto simp: ina226_calibration_compute_def ina226_constants of_rat_divide split: if_splits)
  have q: "0 < ina226_quotient shunt amps" using pos by (simp add: ina226_quotient_def)
  then have "0 < x" by (simp add: x_def)
  have cal: "512 / 100000 / (amps / 32768 * shunt) = ina226_quotient shunt amps"
    by (simp add: ina226_quotient_def)
  have "2047 \<le> ina226_quotient shunt amps" using pos r by (simp add: ina226_quotient_def field_simps)
  then show low: "2000 \<le> \<lfloor>x\<rfloor>" by (simp add: le_floor_iff x_def)
  have c: "\<lfloor>x\<rfloor> \<le> 32767 \<and> calibration c = word_of_int \<lfloor>x\<rfloor>
      \<and> current_lsb_a c = ina226_current_lsb_for real_fp (word_of_int \<lfloor>x\<rfloor>) shunt
      \<and> full_scale_a c = current_lsb_a c * 32768"
    using assms(1) pos q cal
    by (auto simp: ina226_calibration_compute_def ina226_constants of_rat_divide Let_def x_def split: if_splits)
  then show cc: "unat (calibration c) = nat \<lfloor>x\<rfloor>" using low by (auto intro!: ina226_of_trunc)
  then show "unat (calibration c) \<le> 32767" using c by linarith
  have "calibration c \<noteq> 0" using cc low by auto
  then show "current_lsb_a c = (512 / 100000) / (real (unat (calibration c)) * shunt)"
    using c pos by (simp add: ina226_current_lsb_for_def ina226_constants of_rat_divide)
  show "full_scale_a c = current_lsb_a c * 32768" using c by blast
qed

definition ina226_compute :: "real \<Rightarrow> real \<Rightarrow> (nat \<times> real \<times> real) option" where
  "ina226_compute shunt amps = map_option (\<lambda>c. (unat (calibration c), current_lsb_a c, full_scale_a c))
     (ina226_calibration_compute real_fp True shunt amps)"

lemma ina226_compute_cases:
  assumes "ina226_compute shunt amps = Some (cal, lsb, full)"
  obtains c where "ina226_calibration_compute real_fp True shunt amps = Some c" "cal = unat (calibration c)"
    "lsb = current_lsb_a c" "full = full_scale_a c"
  using assms by (auto simp: ina226_compute_def)

interpretation ina226_cal: calibration ina226_compute "512 / 100000" 1 2000
proof (unfold_locales, goal_cases)
  case (1 shunt amps c)
  then show ?case using ina226_compute_real(1,2) by (auto simp: ina226_compute_def)
next
  case (2 shunt amps cal lsb full)
  then obtain c where c: "ina226_calibration_compute real_fp True shunt amps = Some c" "cal = unat (calibration c)"
    by (rule ina226_compute_cases)
  have "real cal = real_of_int \<lfloor>ina226_quotient shunt amps * (1 + 1 / 100000)\<rfloor>"
    using ina226_compute_real(3,4) [OF c(1)] by (simp add: c(2))
  then show ?case
    using floor_correct [of "ina226_quotient shunt amps * (1 + 1 / 100000)"] ina226_compute_real(4) [OF c(1)]
    unfolding ina226_quotient_def [symmetric] by linarith
next
  case (3 shunt amps cal lsb full)
  then show ?case by (rule ina226_compute_cases) (simp add: ina226_compute_real(6))
next
  case (4 shunt amps cal lsb full)
  then show ?case by (rule ina226_compute_cases) (simp add: ina226_compute_real(7))
qed simp_all

section \<open>Nothing else is touched\<close>

text \<open>What the two identity registers answered, as the first two operations on a bus.\<close>

definition identity_read :: "bus \<Rightarrow> 16 word \<times> 16 word" where
  "identity_read b =
    (let f = snd (answer b (trace b) (TxRx [I226_REG_MANUFACTURER_ID] 2));
         g = snd (answer b (trace b @ [(TxRx [I226_REG_MANUFACTURER_ID] 2, ESP_OK)]) (TxRx [REG_DIE_ID] 2)) in
     (be16 (f 0) (f 1), be16 (g 0) (g 1)))"

lemma configure_part_grows:
  "\<exists>w. trace (i_bus (fst (snd (configure_part d rep)))) = trace (i_bus d) @ w
     \<and> (fst (configure_part d rep) = ESP_OK \<longrightarrow>
         w = [(Tx [I226_REG_CONFIG, hi_byte I226_CONFIG_RESET, lo_byte I226_CONFIG_RESET], ESP_OK),
              (let v = push_bit 9 (i_avg d) OR CONFIG_VBUS_1100US OR CONFIG_VSHUNT_1100US OR CONFIG_MODE_BOTH_CONT in
               (Tx [I226_REG_CONFIG, hi_byte v, lo_byte v], ESP_OK)),
              (let v = calibration (i_cal d) in (Tx [I226_REG_CALIBRATION, hi_byte v, lo_byte v], ESP_OK))])"
  by (auto simp: configure_part_def write_reg_def bus_write16_def bus_call_def Let_def split_beta)


text \<open>The writes of a successful bring-up, for a register value and an averaging.\<close>

definition write_op :: "8 word \<Rightarrow> 16 word \<Rightarrow> bus_entry" where
  "write_op r v = (Tx [r, hi_byte v, lo_byte v], ESP_OK)"

definition ina226_setup :: "16 word \<Rightarrow> 16 word \<Rightarrow> bus_entry list" where
  "ina226_setup avg cal =
    [write_op I226_REG_CONFIG I226_CONFIG_RESET,
     write_op I226_REG_CONFIG (push_bit 9 avg OR CONFIG_VBUS_1100US OR CONFIG_VSHUNT_1100US OR CONFIG_MODE_BOTH_CONT),
     write_op I226_REG_CALIBRATION cal]"

definition is_write :: "bus_entry \<Rightarrow> bool" where
  "is_write x = (case fst x of Tx bs \<Rightarrow> True | _ \<Rightarrow> False)"

text \<open>What a bring-up adds to the record, by how the identification went.\<close>

lemma configure_identifies:
  assumes "configure d rep = (e, d', rep')" "i_dev d"
  obtains (unread) t where "trace (i_bus d') = trace (i_bus d) @ t" "filter is_write t = []" "e \<noteq> ESP_OK"
  | (other) t where "trace (i_bus d') = trace (i_bus d) @ t" "filter is_write t = []"
      "\<not> case_prod ina226_part_matches (identity_read (i_bus d))" "e \<noteq> ESP_OK"
  | (right) t where
      "trace (i_bus d') = trace (i_bus d) @ [(TxRx [I226_REG_MANUFACTURER_ID] 2, ESP_OK), (TxRx [REG_DIE_ID] 2, ESP_OK)] @ t"
      "case_prod ina226_part_matches (identity_read (i_bus d))"
      "e = ESP_OK \<longrightarrow> t = ina226_setup (i_avg d) (calibration (i_cal d))"
proof -
  obtain e1 f1 where 1: "answer (i_bus d) (trace (i_bus d)) (TxRx [I226_REG_MANUFACTURER_ID] 2) = (e1, f1)"
    by fastforce
  obtain e2 f2 where 2: "answer (i_bus d) (trace (i_bus d) @ [(TxRx [I226_REG_MANUFACTURER_ID] 2, ESP_OK)])
      (TxRx [REG_DIE_ID] 2) = (e2, f2)" by fastforce
  note run = configure_def read_reg_def bus_read16_def bus_call_def Let_def is_write_def identity_read_def
  consider "e1 \<noteq> ESP_OK" | "e1 = ESP_OK" "e2 \<noteq> ESP_OK" | "e1 = ESP_OK" "e2 = ESP_OK" by blast
  then show ?thesis
  proof cases
    case 3
    then have id: "identity_read (i_bus d) = (be16 (f1 0) (f1 1), be16 (f2 0) (f2 1))"
      using 1 2 by (simp add: identity_read_def)
    show ?thesis
    proof (cases "ina226_part_matches (be16 (f1 0) (f1 1)) (be16 (f2 0) (f2 1))")
      case False
      then show ?thesis using other assms 1 2 3 id by (auto simp: run)
    next
      case True
      let ?b = "(i_bus d)\<lparr>trace := trace (i_bus d) @ [(TxRx [I226_REG_MANUFACTURER_ID] 2, ESP_OK), (TxRx [REG_DIE_ID] 2, ESP_OK)]\<rparr>"
      obtain rep1 where "configure_part (d\<lparr>i_bus := ?b\<rparr>) rep1 = (e, d', rep')"
        using True assms 1 2 3 by (auto simp: run)
      then show ?thesis
        using right True id configure_part_grows [of "d\<lparr>i_bus := ?b\<rparr>" rep1]
        by (auto simp: ina226_setup_def write_op_def Let_def)
    qed
  qed (use unread assms 1 2 in \<open>auto simp: run\<close>)
qed


text \<open>Nothing is written to a part that is not an INA226. Whatever is on the bus, \<open>ina226_create\<close>
  writes to it only if the two identity registers, read first, were those of the manufacturer and of
  this part in any revision; if it answers \<open>ESP_OK\<close> the writes were the reset, the configuration
  with the averaging asked for, and the calibration register computed from the resistor and the
  largest current, in that order; and it returns a handle exactly then.\<close>

theorem ina226_writes_only_to_an_ina226:
  assumes "ina226_create fp True True True shunt amps avg rep b = (e, d, rep', b')"
  shows "\<exists>t. trace b' = trace b @ t \<and> (d \<noteq> None \<longleftrightarrow> e = ESP_OK)
    \<and> (filter is_write t \<noteq> [] \<or> e = ESP_OK \<longrightarrow> case_prod ina226_part_matches (identity_read b)
          \<and> take 2 t = [(TxRx [I226_REG_MANUFACTURER_ID] 2, ESP_OK), (TxRx [REG_DIE_ID] 2, ESP_OK)])
    \<and> (e = ESP_OK \<longrightarrow> (\<exists>c. ina226_calibration_compute fp True shunt amps = Some c
          \<and> drop 2 t = ina226_setup avg (calibration c)))"
proof (cases "ina226_calibration_compute fp True shunt amps")
  case None
  then show ?thesis using assms by (auto simp: ina226_create_def)
next
  case (Some c)
  let ?d = "\<lparr>i_dev = True, i_avg = avg, i_cal = c, i_bus = b\<rparr>"
  obtain e1 d1 rep1 where run: "configure ?d (map_option (\<lambda>r. zero_ina226_report fp) rep) = (e1, d1, rep1)"
    by (metis surj_pair)
  then have b': "b' = i_bus d1" "e1 = e" "d \<noteq> None \<longleftrightarrow> e = ESP_OK"
    using assms Some by (auto simp: ina226_create_def split: if_splits)
  show ?thesis
  proof (rule configure_identifies [OF run])
    show "i_dev ?d" by simp
  next
    fix t
    assume "trace (i_bus d1) = trace (i_bus ?d) @ t" "filter is_write t = []" "e1 \<noteq> ESP_OK"
    then show ?thesis using b' by (intro exI [of _ t]) simp
  next
    fix t
    assume "trace (i_bus d1) = trace (i_bus ?d) @ t" "filter is_write t = []" "e1 \<noteq> ESP_OK"
    then show ?thesis using b' by (intro exI [of _ t]) simp
  next
    fix t
    let ?t = "[(TxRx [I226_REG_MANUFACTURER_ID] 2, ESP_OK), (TxRx [REG_DIE_ID] 2, ESP_OK)] @ t"
    assume t: "trace (i_bus d1) = trace (i_bus ?d) @ ?t" "case_prod ina226_part_matches (identity_read (i_bus ?d))"
      "e1 = ESP_OK \<longrightarrow> t = ina226_setup (i_avg ?d) (calibration (i_cal ?d))"
    have "trace b' = trace b @ ?t" "case_prod ina226_part_matches (identity_read b)" "drop 2 ?t = t"
      using t(1,2) by (simp_all add: b'(1))
    moreover have "e = ESP_OK \<longrightarrow> t = ina226_setup avg (calibration c)" using t(3) unfolding b'(2) by simp
    moreover have "take 2 ?t = [(TxRx [I226_REG_MANUFACTURER_ID] 2, ESP_OK), (TxRx [REG_DIE_ID] 2, ESP_OK)]" by simp
    ultimately show ?thesis using b'(3) Some by metis
  qed
qed

text \<open>A board with the part of another manufacturer at the address.\<close>

theorem ina226_writes_only_to_an_ina226_witness:
  "\<exists>t. trace (snd (snd (snd (ina226_create real_fp True True True (1 / 100) 5 0 None
      \<lparr>trace = [], answer = wide_device (\<lambda>r v m. m) (\<lambda>r. 0x1234)\<rparr>)))) = t \<and> filter is_write t = []"
proof -
  let ?b = "\<lparr>trace = [], answer = wide_device (\<lambda>r v m. m) (\<lambda>r. 0x1234)\<rparr>"
  obtain e d rep' b' where run: "ina226_create real_fp True True True (1 / 100) 5 0 None ?b = (e, d, rep', b')"
    by (metis surj_pair)
  have "be16 (be_byte 2 0x1234 0) (be_byte 2 0x1234 (Suc 0)) = 0x1234"
    using be16_bytes [of "0x1234"] by simp
  then have "\<not> case_prod ina226_part_matches (identity_read ?b)"
    by (simp add: identity_read_def wide_device_def ina226_part_matches_def INA226_MANUFACTURER_ID_TI_def Let_def)
  then show ?thesis
    using ina226_writes_only_to_an_ina226 [OF run] by (auto simp: run simp del: split_paired_Ex case_prod_conv)
qed

end
