(* ===== verification/Ina237.thy ===== *)
theory Ina237
  imports Wide_Regs Floating
begin

unbundle bit_operations_syntax

text \<open>
  The INA237 current monitor, \<open>ina237/src/ina237.c\<close>. Its calibration register holds one constant; the
  shunt is in the driver's scaling alone. Arithmetic is the C type \<open>double\<close>, a parameter.
\<close>

section \<open>Constants and scaling\<close>

definition I237_REG_SHUNT_CAL :: "8 word" where "I237_REG_SHUNT_CAL = 0x02"
definition I237_REG_VSHUNT :: "8 word" where "I237_REG_VSHUNT = 0x04"
definition I237_REG_VBUS :: "8 word" where "I237_REG_VBUS = 0x05"
definition I237_REG_DIETEMP :: "8 word" where "I237_REG_DIETEMP = 0x06"
definition I237_REG_CURRENT :: "8 word" where "I237_REG_CURRENT = 0x07"
definition I237_REG_POWER :: "8 word" where "I237_REG_POWER = 0x08"
definition I237_REG_DIAG_ALRT :: "8 word" where "I237_REG_DIAG_ALRT = 0x0B"
definition I237_REG_MANUFACTURER_ID :: "8 word" where "I237_REG_MANUFACTURER_ID = 0x3E"

lemmas ina237_regs = I237_REG_SHUNT_CAL_def I237_REG_VSHUNT_def I237_REG_VBUS_def I237_REG_DIETEMP_def
  I237_REG_CURRENT_def I237_REG_POWER_def I237_REG_DIAG_ALRT_def I237_REG_MANUFACTURER_ID_def

definition DIAG_MATHOF :: "16 word" where "DIAG_MATHOF = push_bit 9 1"
definition DIAG_MEMSTAT :: "16 word" where "DIAG_MEMSTAT = push_bit 0 1"

definition VSHUNT_LSB_V :: "'d fp \<Rightarrow> 'd" where "VSHUNT_LSB_V fp = fp_lit fp (5 / 1000000)"
definition VBUS_LSB_V :: "'d fp \<Rightarrow> 'd" where "VBUS_LSB_V fp = fp_lit fp (3125 / 1000000)"
definition DIETEMP_LSB_C :: "'d fp \<Rightarrow> 'd" where "DIETEMP_LSB_C fp = fp_lit fp (1 / 8)"
definition POWER_COEFFICIENT :: "'d fp \<Rightarrow> 'd" where "POWER_COEFFICIENT fp = fp_lit fp (2 / 10)"

definition INA237_SHUNT_FULL_SCALE_V :: "'d fp \<Rightarrow> 'd" where "INA237_SHUNT_FULL_SCALE_V fp = fp_lit fp (16384 / 100000)"
definition INA237_MANUFACTURER_ID_TI :: "16 word" where "INA237_MANUFACTURER_ID_TI = 0x5449"
definition INA237_SHUNT_CAL_VALUE :: "16 word" where "INA237_SHUNT_CAL_VALUE = 4096"

lemmas ina237_constants = VSHUNT_LSB_V_def VBUS_LSB_V_def DIETEMP_LSB_C_def POWER_COEFFICIENT_def
  INA237_SHUNT_FULL_SCALE_V_def

definition ina237_current_lsb_for :: "'d fp \<Rightarrow> 'd \<Rightarrow> 'd" where
  "ina237_current_lsb_for fp shunt_ohms =
    (if \<not> fp_less fp (fp_zero fp) shunt_ohms then fp_zero fp else fp_div fp (VSHUNT_LSB_V fp) shunt_ohms)"

section \<open>The handle\<close>

datatype ina237_stage_t =
  INA237_STAGE_NONE | INA237_STAGE_PROBE | INA237_STAGE_IDENTIFY | INA237_STAGE_SHUNT_CAL

record 'd ina237_dev_t =
  n_dev :: bool
  configured :: bool
  shunt_ohms :: 'd
  current_lsb :: 'd
  n_bus :: bus

record 'd ina237_config_report_t =
  failed_stage :: ina237_stage_t
  manufacturer_id :: "16 word"
  report_lsb :: 'd
  report_full_scale :: 'd

definition zero_ina237_report :: "'d fp \<Rightarrow> 'd ina237_config_report_t" where
  "zero_ina237_report fp = \<lparr>failed_stage = INA237_STAGE_NONE, manufacturer_id = 0,
     report_lsb = fp_zero fp, report_full_scale = fp_zero fp\<rparr>"

text \<open>A register into a local variable that starts at 0.\<close>

definition read_reg16 :: "8 word \<Rightarrow> 'd ina237_dev_t \<Rightarrow> esp_err_t \<times> 16 word \<times> 'd ina237_dev_t" where
  "read_reg16 reg h = (let (e, v, b) = bus_read16 True reg 0 (n_bus h) in (e, v, h\<lparr>n_bus := b\<rparr>))"

definition read_reg24 :: "8 word \<Rightarrow> 'd ina237_dev_t \<Rightarrow> esp_err_t \<times> 32 word \<times> 'd ina237_dev_t" where
  "read_reg24 reg h = (let (e, v, b) = bus_read24 True reg 0 (n_bus h) in (e, v, h\<lparr>n_bus := b\<rparr>))"

definition write_reg16 :: "8 word \<Rightarrow> 16 word \<Rightarrow> 'd ina237_dev_t \<Rightarrow> esp_err_t \<times> 'd ina237_dev_t" where
  "write_reg16 reg v h = (let (e, b) = bus_write16 True reg v (n_bus h) in (e, h\<lparr>n_bus := b\<rparr>))"

definition ina237_create ::
    "'d fp \<Rightarrow> bool \<Rightarrow> bool \<Rightarrow> bool \<Rightarrow> 'd \<Rightarrow> bus \<Rightarrow> esp_err_t \<times> 'd ina237_dev_t option" where
  "ina237_create fp args calloc_ok dev shunt b =
    (if \<not> args then (ESP_ERR_INVALID_ARG, None)
     else if \<not> calloc_ok then (ESP_ERR_NO_MEM, None)
     else (ESP_OK, Some \<lparr>n_dev = dev, configured = False, shunt_ohms = shunt, current_lsb = fp_zero fp, n_bus = b\<rparr>))"

text \<open>A handle that is None is NULL.\<close>

definition ina237_delete :: "'d ina237_dev_t option \<Rightarrow> esp_err_t" where
  "ina237_delete h = (if h = None then ESP_ERR_INVALID_ARG else ESP_OK)"

definition ina237_set_device :: "bool \<Rightarrow> 'd ina237_dev_t option \<Rightarrow> esp_err_t \<times> 'd ina237_dev_t option" where
  "ina237_set_device dev h =
    (case h of None \<Rightarrow> (ESP_ERR_INVALID_ARG, None) | Some d \<Rightarrow> (ESP_OK, Some (d\<lparr>n_dev := dev\<rparr>)))"

definition ina237_is_configured :: "'d ina237_dev_t option \<Rightarrow> bool" where
  "ina237_is_configured h = (case h of None \<Rightarrow> False | Some d \<Rightarrow> configured d)"

definition ina237_shunt_ohms :: "'d fp \<Rightarrow> 'd ina237_dev_t option \<Rightarrow> 'd" where
  "ina237_shunt_ohms fp h = (case h of None \<Rightarrow> fp_zero fp | Some d \<Rightarrow> shunt_ohms d)"

definition ina237_current_lsb :: "'d fp \<Rightarrow> 'd ina237_dev_t option \<Rightarrow> 'd" where
  "ina237_current_lsb fp h = (case h of None \<Rightarrow> fp_zero fp | Some d \<Rightarrow> current_lsb d)"

definition ina237_full_scale_amps :: "'d fp \<Rightarrow> 'd ina237_dev_t option \<Rightarrow> 'd" where
  "ina237_full_scale_amps fp h =
    (case h of None \<Rightarrow> fp_zero fp
     | Some d \<Rightarrow> if \<not> fp_less fp (fp_zero fp) (shunt_ohms d) then fp_zero fp
                 else fp_div fp (INA237_SHUNT_FULL_SCALE_V fp) (shunt_ohms d))"

abbreviation n_fail :: "ina237_stage_t \<Rightarrow> 'd ina237_config_report_t option \<Rightarrow> 'd ina237_config_report_t option" where
  "n_fail x rep \<equiv> map_option (failed_stage_update (\<lambda>_. x)) rep"

definition ina237_configure ::
    "'d fp \<Rightarrow> bool \<Rightarrow> 'd \<Rightarrow> 'd ina237_config_report_t option \<Rightarrow> 'd ina237_dev_t
       \<Rightarrow> esp_err_t \<times> 'd ina237_dev_t \<times> 'd ina237_config_report_t option" where
  "ina237_configure fp args shunt rep h =
    (let rep = map_option (\<lambda>r. zero_ina237_report fp) rep in
     if \<not> args then (ESP_ERR_INVALID_ARG, h, rep)
     else if \<not> fp_less fp (fp_zero fp) shunt then (ESP_ERR_INVALID_ARG, h, rep)
     else if \<not> n_dev h then (ESP_ERR_INVALID_STATE, h, rep)
     else
       let (e, manufacturer, h) = read_reg16 I237_REG_MANUFACTURER_ID h in
       if e \<noteq> ESP_OK then (e, h, n_fail INA237_STAGE_PROBE rep)
       else if manufacturer \<noteq> INA237_MANUFACTURER_ID_TI
       then (ESP_ERR_INA237_WRONG_PART, h,
         map_option (\<lambda>r. r\<lparr>failed_stage := INA237_STAGE_IDENTIFY, manufacturer_id := manufacturer\<rparr>) rep)
       else
         let (e, h) = write_reg16 I237_REG_SHUNT_CAL INA237_SHUNT_CAL_VALUE h in
         if e \<noteq> ESP_OK then (e, h, n_fail INA237_STAGE_SHUNT_CAL rep)
         else
           let h = h\<lparr>shunt_ohms := shunt, current_lsb := ina237_current_lsb_for fp shunt, configured := True\<rparr> in
           (ESP_OK, h, map_option (\<lambda>r. r\<lparr>manufacturer_id := manufacturer, report_lsb := current_lsb h,
              report_full_scale := fp_div fp (INA237_SHUNT_FULL_SCALE_V fp) shunt\<rparr>) rep))"

record 'd ina237_reading_t =
  bus_v :: 'd
  shunt_v :: 'd
  temp_c :: 'd
  current_a :: 'd
  power_w :: 'd
  r_shunt_cal :: "16 word"
  r_diag :: "16 word"
  trim_checksum_ok :: bool
  math_overflow :: bool
  shunt_cal_matches :: bool

text \<open>The scaling of the raw values; the shift of the signed temperature is arithmetic.\<close>

definition ina237_reading ::
    "'d fp \<Rightarrow> 'd \<Rightarrow> 16 word \<Rightarrow> 16 word \<Rightarrow> 16 word \<Rightarrow> 16 word \<Rightarrow> 32 word \<Rightarrow> 16 word \<Rightarrow> 16 word \<Rightarrow> 'd ina237_reading_t" where
  "ina237_reading fp lsb vbus vshunt dietemp cur pow cal diag =
    \<lparr>bus_v = fp_mul fp (fp_of_int fp (uint vbus)) (VBUS_LSB_V fp),
     shunt_v = fp_mul fp (fp_of_int fp (sint vshunt)) (VSHUNT_LSB_V fp),
     temp_c = fp_mul fp (fp_of_int fp (drop_bit 4 (sint dietemp))) (DIETEMP_LSB_C fp),
     current_a = fp_mul fp (fp_of_int fp (sint cur)) lsb,
     power_w = fp_mul fp (fp_mul fp (fp_of_int fp (uint pow)) (POWER_COEFFICIENT fp)) lsb,
     r_shunt_cal = cal, r_diag = diag, trim_checksum_ok = (diag AND DIAG_MEMSTAT \<noteq> 0),
     math_overflow = (diag AND DIAG_MATHOF \<noteq> 0), shunt_cal_matches = (cal = INA237_SHUNT_CAL_VALUE)\<rparr>"

text \<open>The next read of a chain of \<open>||\<close>: it is made while none has failed.\<close>

definition or_read16 :: "esp_err_t \<Rightarrow> 8 word \<Rightarrow> 'd ina237_dev_t \<Rightarrow> esp_err_t \<times> 16 word \<times> 'd ina237_dev_t" where
  "or_read16 e reg h = (if e \<noteq> ESP_OK then (e, 0, h) else read_reg16 reg h)"

definition or_read24 :: "esp_err_t \<Rightarrow> 8 word \<Rightarrow> 'd ina237_dev_t \<Rightarrow> esp_err_t \<times> 32 word \<times> 'd ina237_dev_t" where
  "or_read24 e reg h = (if e \<noteq> ESP_OK then (e, 0, h) else read_reg24 reg h)"

definition ina237_read :: "'d fp \<Rightarrow> bool \<Rightarrow> 'd ina237_dev_t \<Rightarrow> esp_err_t \<times> 'd ina237_reading_t option \<times> 'd ina237_dev_t" where
  "ina237_read fp args h =
    (if \<not> args then (ESP_ERR_INVALID_ARG, None, h)
     else if \<not> n_dev h then (ESP_ERR_INVALID_STATE, None, h)
     else if \<not> configured h then (ESP_ERR_INVALID_STATE, None, h)
     else
       let (e, vbus, h) = read_reg16 I237_REG_VBUS h;
           (e, vshunt, h) = or_read16 e I237_REG_VSHUNT h;
           (e, dietemp, h) = or_read16 e I237_REG_DIETEMP h;
           (e, cur, h) = or_read16 e I237_REG_CURRENT h;
           (e, pow, h) = or_read24 e I237_REG_POWER h;
           (e, cal, h) = or_read16 e I237_REG_SHUNT_CAL h;
           (e, diag, h) = or_read16 e I237_REG_DIAG_ALRT h in
       if e \<noteq> ESP_OK then (e, None, h)
       else (ESP_OK, Some (ina237_reading fp (current_lsb h) vbus vshunt dietemp cur pow cal diag), h))"

definition ina237_read_register ::
    "bool \<Rightarrow> 8 word \<Rightarrow> 16 word \<Rightarrow> 'd ina237_dev_t \<Rightarrow> esp_err_t \<times> 16 word \<times> 'd ina237_dev_t" where
  "ina237_read_register args reg out h =
    (if \<not> args then (ESP_ERR_INVALID_ARG, out, h)
     else if \<not> n_dev h then (ESP_ERR_INVALID_STATE, out, h)
     else let (e, v, b) = bus_read16 True reg out (n_bus h) in (e, v, h\<lparr>n_bus := b\<rparr>))"


section \<open>What a reading is scaled by\<close>

text \<open>Equation 1 of the datasheet: the constant is the calibration of every shunt.\<close>

lemma ina237_calibration_equation:
  assumes "0 < shunt"
  shows "8192 * 10 ^ 5 * ina237_current_lsb_for real_fp shunt * shunt = real (unat INA237_SHUNT_CAL_VALUE)"
    and "ina237_current_lsb_for real_fp shunt * 32768 = INA237_SHUNT_FULL_SCALE_V real_fp / shunt"
  using assms by (simp_all add: ina237_current_lsb_for_def ina237_constants INA237_SHUNT_CAL_VALUE_def of_rat_divide)

text \<open>A part that was reset holds the same calibration: the flag of a reading does not tell.\<close>

lemma ina237_reset_unseen:
  "shunt_cal_matches (ina237_reading fp lsb vbus vshunt dietemp cur pow 0x1000 diag)"
  by (simp add: ina237_reading_def INA237_SHUNT_CAL_VALUE_def)

section \<open>The handle over any sequence of calls\<close>

inductive ina237_step :: "'d fp \<Rightarrow> 'd ina237_dev_t \<Rightarrow> 'd ina237_dev_t \<Rightarrow> bool" for fp where
  n_set: "ina237_set_device dev (Some h) = (e, Some h') \<Longrightarrow> ina237_step fp h h'"
| n_configure: "ina237_configure fp args shunt rep h = (e, h', rep') \<Longrightarrow> ina237_step fp h h'"
| n_read: "ina237_read fp args h = (e, x, h') \<Longrightarrow> ina237_step fp h h'"
| n_register: "ina237_read_register args reg out h = (e, v, h') \<Longrightarrow> ina237_step fp h h'"

inductive_cases ina237_stepE: "ina237_step fp h h'"

inductive ina237_reachable :: "'d fp \<Rightarrow> 'd ina237_dev_t \<Rightarrow> bool" for fp where
  n_create: "ina237_create fp args ok dev shunt b = (ESP_OK, Some h) \<Longrightarrow> trace b = [] \<Longrightarrow> ina237_reachable fp h"
| n_step: "ina237_reachable fp h \<Longrightarrow> ina237_step fp h h' \<Longrightarrow> ina237_reachable fp h'"

text \<open>An entry that writes is the calibration, and comes directly after an identification that
  answered with the manufacturer's number.\<close>

definition calibrates_ti :: "(bus_entry list \<Rightarrow> bus_op \<Rightarrow> esp_err_t \<times> (nat \<Rightarrow> 8 word)) \<Rightarrow> bus_entry list \<Rightarrow> bus_entry \<Rightarrow> bool" where
  "calibrates_ti ans p x =
    (case fst x of
       Tx bs \<Rightarrow> bs = [I237_REG_SHUNT_CAL, 0x10, 0x00] \<and> p \<noteq> []
         \<and> last p = (TxRx [I237_REG_MANUFACTURER_ID] 2, ESP_OK)
         \<and> (let f = snd (ans (butlast p) (TxRx [I237_REG_MANUFACTURER_ID] 2)) in
              be16 (f 0) (f 1) = INA237_MANUFACTURER_ID_TI)
     | _ \<Rightarrow> True)"

definition scaled :: "'d fp \<Rightarrow> 'd ina237_dev_t \<Rightarrow> bool" where
  "scaled fp h \<longleftrightarrow> fp_less fp (fp_zero fp) (shunt_ohms h) \<and> current_lsb h = ina237_current_lsb_for fp (shunt_ohms h)"

definition ina237_inv :: "'d fp \<Rightarrow> 'd ina237_dev_t \<Rightarrow> bool" where
  "ina237_inv fp h \<longleftrightarrow> along (calibrates_ti (answer (n_bus h))) (trace (n_bus h))
     \<and> (configured h \<longrightarrow> scaled fp h \<and> (Tx [I237_REG_SHUNT_CAL, 0x10, 0x00], ESP_OK) \<in> set (trace (n_bus h)))"

text \<open>A step that only reads: the record grows by reads, the handle is the same.\<close>

definition n_looks :: "'d ina237_dev_t \<Rightarrow> 'd ina237_dev_t \<Rightarrow> bool" where
  "n_looks h h' \<longleftrightarrow> (\<exists>t. h' = h\<lparr>n_bus := (n_bus h)\<lparr>trace := trace (n_bus h) @ t\<rparr>\<rparr>
     \<and> list_all (\<lambda>x. case fst x of TxRx bs n \<Rightarrow> True | _ \<Rightarrow> False) t)"

lemma n_looks_refl [simp]: "n_looks h h"
  unfolding n_looks_def by (rule exI [of _ "[]"]) simp

lemma n_looks_trans: "n_looks h h' \<Longrightarrow> n_looks h' h'' \<Longrightarrow> n_looks h h''"
proof -
  assume "n_looks h h'" "n_looks h' h''"
  then obtain t u where "h' = h\<lparr>n_bus := (n_bus h)\<lparr>trace := trace (n_bus h) @ t\<rparr>\<rparr>"
      "list_all (\<lambda>x. case fst x of TxRx bs n \<Rightarrow> True | _ \<Rightarrow> False) (t @ u)"
      "h'' = h'\<lparr>n_bus := (n_bus h')\<lparr>trace := trace (n_bus h') @ u\<rparr>\<rparr>"
    by (auto simp: n_looks_def)
  then show ?thesis unfolding n_looks_def by (intro exI [of _ "t @ u"]) simp
qed

lemma read16_looks: "read_reg16 r h = (e, v, h') \<Longrightarrow> n_looks h h'"
  by (auto simp: read_reg16_def bus_read16_def bus_call_def n_looks_def split_beta)

lemma read24_looks: "read_reg24 r h = (e, v, h') \<Longrightarrow> n_looks h h'"
  by (auto simp: read_reg24_def bus_read24_def bus_call_def n_looks_def split_beta)

lemma looks_keeps: "n_looks h h' \<Longrightarrow> ina237_inv fp h \<Longrightarrow> ina237_inv fp h'"
proof -
  assume "n_looks h h'" "ina237_inv fp h"
  then obtain t where "h' = h\<lparr>n_bus := (n_bus h)\<lparr>trace := trace (n_bus h) @ t\<rparr>\<rparr>"
      "list_all (\<lambda>x. case fst x of TxRx bs n \<Rightarrow> True | _ \<Rightarrow> False) t"
    by (auto simp: n_looks_def)
  moreover from this(2) have "list_all (\<lambda>x. \<forall>p. calibrates_ti (answer (n_bus h)) p x) t"
    by (rule list.pred_mono_strong) (auto simp: calibrates_ti_def split: bus_op.splits)
  ultimately show ?thesis
    using \<open>ina237_inv fp h\<close> by (auto simp: ina237_inv_def scaled_def intro: along_append)
qed


lemma or16_looks: "or_read16 e0 r h = (e, v, h') \<Longrightarrow> n_looks h h'"
  by (auto simp: or_read16_def read16_looks split: if_splits)

lemma or24_looks: "or_read24 e0 r h = (e, v, h') \<Longrightarrow> n_looks h h'"
  by (auto simp: or_read24_def read24_looks split: if_splits)

lemma ina237_read_looks:
  assumes "ina237_read fp args h = (e, x, h')"
  shows "n_looks h h'"
proof (cases "args \<and> n_dev h \<and> configured h")
  case True
  obtain e1 v1 h1 where 1: "read_reg16 I237_REG_VBUS h = (e1, v1, h1)" by (metis surj_pair)
  obtain e2 v2 h2 where 2: "or_read16 e1 I237_REG_VSHUNT h1 = (e2, v2, h2)" by (metis surj_pair)
  obtain e3 v3 h3 where 3: "or_read16 e2 I237_REG_DIETEMP h2 = (e3, v3, h3)" by (metis surj_pair)
  obtain e4 v4 h4 where 4: "or_read16 e3 I237_REG_CURRENT h3 = (e4, v4, h4)" by (metis surj_pair)
  obtain e5 v5 h5 where 5: "or_read24 e4 I237_REG_POWER h4 = (e5, v5, h5)" by (metis surj_pair)
  obtain e6 v6 h6 where 6: "or_read16 e5 I237_REG_SHUNT_CAL h5 = (e6, v6, h6)" by (metis surj_pair)
  obtain e7 v7 h7 where 7: "or_read16 e6 I237_REG_DIAG_ALRT h6 = (e7, v7, h7)" by (metis surj_pair)
  have "h' = h7" using assms True 1 2 3 4 5 6 7 by (simp add: ina237_read_def split: if_splits)
  moreover have "n_looks h h7"
    by (rule n_looks_trans, rule read16_looks, rule 1, rule n_looks_trans, rule or16_looks, rule 2,
        rule n_looks_trans, rule or16_looks, rule 3, rule n_looks_trans, rule or16_looks, rule 4,
        rule n_looks_trans, rule or24_looks, rule 5, rule n_looks_trans, rule or16_looks, rule 6,
        rule or16_looks, rule 7)
  ultimately show ?thesis by simp
next
  case False
  then show ?thesis using assms by (auto simp: ina237_read_def split: if_splits)
qed

lemma ina237_register_looks: "ina237_read_register args reg out h = (e, v, h') \<Longrightarrow> n_looks h h'"
  by (auto simp: ina237_read_register_def bus_read16_def bus_call_def n_looks_def split_beta
      simp del: n_looks_refl split: if_splits) (rule exI [of _ "[]"], simp)+

lemma cal_bytes [simp]: "hi_byte INA237_SHUNT_CAL_VALUE = 0x10" "lo_byte INA237_SHUNT_CAL_VALUE = 0x00"
  by (simp_all add: hi_byte_def lo_byte_def INA237_SHUNT_CAL_VALUE_def)

lemma identified_write:
  assumes "read_reg16 I237_REG_MANUFACTURER_ID h = (ESP_OK, INA237_MANUFACTURER_ID_TI, h1)"
    and "write_reg16 I237_REG_SHUNT_CAL INA237_SHUNT_CAL_VALUE h1 = (e, h2)"
    and "ina237_inv fp h"
  shows "ina237_inv fp h2" "e = ESP_OK \<Longrightarrow> (Tx [I237_REG_SHUNT_CAL, 0x10, 0x00], ESP_OK) \<in> set (trace (n_bus h2))"
    "answer (n_bus h2) = answer (n_bus h)"
proof -
  obtain f where f: "answer (n_bus h) (trace (n_bus h)) (TxRx [I237_REG_MANUFACTURER_ID] 2) = (ESP_OK, f)"
      "be16 (f 0) (f 1) = INA237_MANUFACTURER_ID_TI"
      "h1 = h\<lparr>n_bus := (n_bus h)\<lparr>trace := trace (n_bus h) @ [(TxRx [I237_REG_MANUFACTURER_ID] 2, ESP_OK)]\<rparr>\<rparr>"
    using assms(1) by (auto simp: read_reg16_def bus_read16_def bus_call_def split: prod.splits if_splits)
  have h2: "h2 = h\<lparr>n_bus := (n_bus h)\<lparr>trace := (trace (n_bus h) @ [(TxRx [I237_REG_MANUFACTURER_ID] 2, ESP_OK)])
      @ [(Tx [I237_REG_SHUNT_CAL, 0x10, 0x00], e)]\<rparr>\<rparr>"
    using assms(2) by (auto simp: f(3) write_reg16_def bus_write16_def bus_call_def split: prod.splits)
  have "along (calibrates_ti (answer (n_bus h))) (trace (n_bus h))" using assms(3) by (simp add: ina237_inv_def)
  then have "along (calibrates_ti (answer (n_bus h)))
      ((trace (n_bus h) @ [(TxRx [I237_REG_MANUFACTURER_ID] 2, ESP_OK)]) @ [(Tx [I237_REG_SHUNT_CAL, 0x10, 0x00], e)])"
    unfolding along_snoc using f(1,2) by (simp add: calibrates_ti_def Let_def)
  then show "ina237_inv fp h2"
    using assms(3) by (simp add: h2 ina237_inv_def scaled_def)
  show "answer (n_bus h2) = answer (n_bus h)" by (simp add: h2)
  show "(Tx [I237_REG_SHUNT_CAL, 0x10, 0x00], ESP_OK) \<in> set (trace (n_bus h2))" if "e = ESP_OK"
    using that by (simp add: h2)
qed


lemma ina237_configure_keeps:
  assumes "ina237_configure fp args shunt rep h = (e, h', rep')" "ina237_inv fp h"
  shows "ina237_inv fp h'"
proof (cases "args \<and> fp_less fp (fp_zero fp) shunt \<and> n_dev h")
  case True
  obtain e1 v1 h1 where 1: "read_reg16 I237_REG_MANUFACTURER_ID h = (e1, v1, h1)" by (metis surj_pair)
  obtain e2 h2 where 2: "write_reg16 I237_REG_SHUNT_CAL INA237_SHUNT_CAL_VALUE h1 = (e2, h2)" by (metis surj_pair)
  have kept: "ina237_inv fp h1" using read16_looks [OF 1] assms(2) by (rule looks_keeps)
  show ?thesis
  proof (cases "e1 = ESP_OK \<and> v1 = INA237_MANUFACTURER_ID_TI")
    case id: True
    note w = identified_write [OF _ 2 assms(2)]
    have "ina237_inv fp h2" "e2 = ESP_OK \<Longrightarrow> (Tx [I237_REG_SHUNT_CAL, 0x10, 0x00], ESP_OK) \<in> set (trace (n_bus h2))"
      using w(1,2) 1 id by simp_all
    then show ?thesis
      using assms(1) True id 1 2
      by (auto simp: ina237_configure_def Let_def ina237_inv_def scaled_def split: if_splits)
  next
    case False
    then show ?thesis using assms(1) True 1 kept by (auto simp: ina237_configure_def Let_def split: if_splits)
  qed
next
  case False
  then show ?thesis using assms by (auto simp: ina237_configure_def Let_def split: if_splits)
qed

lemma ina237_step_keeps: "ina237_step fp h h' \<Longrightarrow> ina237_inv fp h \<Longrightarrow> ina237_inv fp h'"
  by (erule ina237_stepE)
    (auto simp: ina237_set_device_def ina237_inv_def scaled_def
      dest: ina237_configure_keeps [unfolded ina237_inv_def scaled_def]
            looks_keeps [OF ina237_read_looks, unfolded ina237_inv_def scaled_def]
            looks_keeps [OF ina237_register_looks, unfolded ina237_inv_def scaled_def])

lemma ina237_reachable_inv: "ina237_reachable fp h \<Longrightarrow> ina237_inv fp h"
  by (induction rule: ina237_reachable.induct)
    (auto simp: ina237_create_def ina237_inv_def ina237_step_keeps split: if_splits
      dest: ina237_step_keeps [unfolded ina237_inv_def])

text \<open>A handle says it is configured only about a part that was identified and calibrated. After any
  sequence of calls on a handle, over any bus, with any of them failing at any point: the only thing
  ever written is the calibration constant, each time directly after the manufacturer's register
  answered with the right number; a handle that is configured has written it at least once, its shunt is
  positive, and its unit of current is the one of that shunt, whatever later attempts to configure it failed.\<close>

theorem ina237_configured_means_identified:
  assumes "ina237_reachable fp h"
  shows "along (calibrates_ti (answer (n_bus h))) (trace (n_bus h))
    \<and> (ina237_is_configured (Some h) \<longrightarrow>
        (Tx [I237_REG_SHUNT_CAL, 0x10, 0x00], ESP_OK) \<in> set (trace (n_bus h))
        \<and> fp_less fp (fp_zero fp) (ina237_shunt_ohms fp (Some h))
        \<and> ina237_current_lsb fp (Some h) = ina237_current_lsb_for fp (ina237_shunt_ohms fp (Some h)))"
  using ina237_reachable_inv [OF assms]
  by (simp add: ina237_inv_def scaled_def ina237_is_configured_def ina237_shunt_ohms_def ina237_current_lsb_def)

text \<open>A handle on a good part, configured.\<close>

definition bench237 :: "real ina237_dev_t" where
  "bench237 = \<lparr>n_dev = True, configured = False, shunt_ohms = 1, current_lsb = 0,
     n_bus = \<lparr>trace = [], answer = wide_device (\<lambda>r v m. m(r := ucast v)) (\<lambda>r. 0x5449)\<rparr>\<rparr>"

theorem ina237_configured_means_identified_witness:
  "let h = fst (snd (ina237_configure real_fp True (1 / 100) None bench237)) in
     ina237_is_configured (Some h) \<and> ina237_current_lsb real_fp (Some h) = 0.0005
     \<and> (Tx [I237_REG_SHUNT_CAL, 0x10, 0x00], ESP_OK) \<in> set (trace (n_bus h))"
proof -
  obtain e h rep where run: "ina237_configure real_fp True (1 / 100) None bench237 = (e, h, rep)"
    by (metis surj_pair)
  have "ina237_reachable real_fp bench237"
    by (rule n_create [where args = True and ok = True and dev = True and shunt = 1 and b = "n_bus bench237"])
      (simp_all add: bench237_def ina237_create_def)
  then have r: "ina237_reachable real_fp h" using run by (blast intro: n_step n_configure)
  have "be16 (be_byte 2 0x5449 0) (be_byte 2 0x5449 (Suc 0)) = 0x5449"
    using be16_bytes [of "0x5449"] by simp
  then have "configured h \<and> shunt_ohms h = 1 / 100"
    using run by (auto simp: ina237_configure_def bench237_def read_reg16_def bus_read16_def bus_call_def
        wide_device_def write_reg16_def bus_write16_def INA237_MANUFACTURER_ID_TI_def)
  then show ?thesis
    using ina237_configured_means_identified [OF r]
    by (simp add: run ina237_is_configured_def ina237_shunt_ohms_def ina237_current_lsb_for_def
        ina237_constants of_rat_divide)
qed

end
