(* ===== verification/Ina239.thy ===== *)
theory Ina239
  imports Wide_Regs Floating
begin

unbundle bit_operations_syntax

text \<open>
  The INA239 current monitor, \<open>ina239/src/ina239.c\<close>: the only driver here on an SPI bus, and the only
  current monitor whose range and averaging the driver sets. Arithmetic is the C type \<open>double\<close>, a
  parameter. A value of an enumeration that came from the caller is an integer, so that one outside of
  the enumeration can be refused the way the code does.
\<close>

section \<open>Registers\<close>

definition I239_REG_CONFIG :: "8 word" where "I239_REG_CONFIG = 0x00"
definition I239_REG_ADC_CONFIG :: "8 word" where "I239_REG_ADC_CONFIG = 0x01"
definition I239_REG_SHUNT_CAL :: "8 word" where "I239_REG_SHUNT_CAL = 0x02"
definition I239_REG_VSHUNT :: "8 word" where "I239_REG_VSHUNT = 0x04"
definition I239_REG_VBUS :: "8 word" where "I239_REG_VBUS = 0x05"
definition I239_REG_DIETEMP :: "8 word" where "I239_REG_DIETEMP = 0x06"
definition I239_REG_CURRENT :: "8 word" where "I239_REG_CURRENT = 0x07"
definition I239_REG_POWER :: "8 word" where "I239_REG_POWER = 0x08"
definition I239_REG_DIAG_ALRT :: "8 word" where "I239_REG_DIAG_ALRT = 0x0B"
definition I239_REG_MANUFACTURER_ID :: "8 word" where "I239_REG_MANUFACTURER_ID = 0x3E"
definition I239_REG_DEVICE_ID :: "8 word" where "I239_REG_DEVICE_ID = 0x3F"

lemmas ina239_regs = I239_REG_CONFIG_def I239_REG_ADC_CONFIG_def I239_REG_SHUNT_CAL_def I239_REG_VSHUNT_def
  I239_REG_VBUS_def I239_REG_DIETEMP_def I239_REG_CURRENT_def I239_REG_POWER_def I239_REG_DIAG_ALRT_def
  I239_REG_MANUFACTURER_ID_def I239_REG_DEVICE_ID_def

definition CMD_READ :: "8 word \<Rightarrow> 8 word" where "CMD_READ reg = push_bit 2 reg OR 0x01"
definition CMD_WRITE :: "8 word \<Rightarrow> 8 word" where "CMD_WRITE reg = push_bit 2 reg"

definition I239_CONFIG_RST :: "16 word" where "I239_CONFIG_RST = push_bit 15 1"
definition CONFIG_ADCRANGE :: "16 word" where "CONFIG_ADCRANGE = push_bit 4 1"
definition ADC_CONFIG_MODE_CONTINUOUS_ALL :: "16 word" where "ADC_CONFIG_MODE_CONTINUOUS_ALL = 0xF"
definition ADC_CONFIG_CT_DEFAULT :: "16 word" where "ADC_CONFIG_CT_DEFAULT = 0x5"

definition I239_DIAG_MATHOF :: "16 word" where "I239_DIAG_MATHOF = push_bit 9 1"
definition I239_DIAG_CNVRF :: "16 word" where "I239_DIAG_CNVRF = push_bit 1 1"
definition I239_DIAG_MEMSTAT :: "16 word" where "I239_DIAG_MEMSTAT = push_bit 0 1"

definition VSHUNT_LSB_V_LOW :: "'d fp \<Rightarrow> 'd" where "VSHUNT_LSB_V_LOW fp = fp_lit fp (5 / 1000000)"
definition VSHUNT_LSB_V_HIGH :: "'d fp \<Rightarrow> 'd" where "VSHUNT_LSB_V_HIGH fp = fp_lit fp (125 / 100000000)"
definition I239_VBUS_LSB_V :: "'d fp \<Rightarrow> 'd" where "I239_VBUS_LSB_V fp = fp_lit fp (3125 / 1000000)"
definition I239_DIETEMP_LSB_C :: "'d fp \<Rightarrow> 'd" where "I239_DIETEMP_LSB_C fp = fp_lit fp (1 / 8)"
definition I239_POWER_COEFFICIENT :: "'d fp \<Rightarrow> 'd" where "I239_POWER_COEFFICIENT fp = fp_lit fp (2 / 10)"
definition RESET_SETTLE_MS :: nat where "RESET_SETTLE_MS = 2"

definition INA239_SPI_MODE :: int where "INA239_SPI_MODE = 1"
definition INA239_SPI_MAX_HZ :: int where "INA239_SPI_MAX_HZ = 10000000"
definition INA239_MANUFACTURER_ID_TI :: "16 word" where "INA239_MANUFACTURER_ID_TI = 0x5449"
definition INA239_DEVICE_ID :: "16 word" where "INA239_DEVICE_ID = 0x239"
definition INA239_SHUNT_FULL_SCALE_V_LOW :: "'d fp \<Rightarrow> 'd" where "INA239_SHUNT_FULL_SCALE_V_LOW fp = fp_lit fp (16384 / 100000)"
definition INA239_SHUNT_FULL_SCALE_V_HIGH :: "'d fp \<Rightarrow> 'd" where "INA239_SHUNT_FULL_SCALE_V_HIGH fp = fp_lit fp (4096 / 100000)"
definition INA239_SHUNT_CAL_VALUE :: "16 word" where "INA239_SHUNT_CAL_VALUE = 4096"

section \<open>Encodings\<close>

type_synonym ina239_range_t = int
type_synonym ina239_averaging_t = int

definition INA239_RANGE_163MV :: ina239_range_t where "INA239_RANGE_163MV = 0"
definition INA239_RANGE_41MV :: ina239_range_t where "INA239_RANGE_41MV = 1"
definition INA239_AVG_1 :: ina239_averaging_t where "INA239_AVG_1 = 0"

text \<open>The enumerators of \<open>ina239_averaging_t\<close> are the numbers 0 to 7.\<close>

definition ina239_averagings :: "ina239_averaging_t list" where
  "ina239_averagings = [0, 1, 2, 3, 4, 5, 6, 7]"

definition ina239_averaging_count :: "ina239_averaging_t \<Rightarrow> int" where
  "ina239_averaging_count avg =
    (if avg = 0 then 1 else if avg = 1 then 4 else if avg = 2 then 16 else if avg = 3 then 64
     else if avg = 4 then 128 else if avg = 5 then 256 else if avg = 6 then 512 else if avg = 7 then 1024
     else -1)"

definition ina239_averaging_from_count :: "bool \<Rightarrow> int \<Rightarrow> esp_err_t \<times> ina239_averaging_t option" where
  "ina239_averaging_from_count args count =
    (if \<not> args then (ESP_ERR_INVALID_ARG, None)
     else case find (\<lambda>a. ina239_averaging_count a = count) ina239_averagings of
       Some a \<Rightarrow> (ESP_OK, Some a)
     | None \<Rightarrow> (ESP_ERR_INVALID_ARG, None))"

definition ina239_shunt_lsb_v :: "'d fp \<Rightarrow> ina239_range_t \<Rightarrow> 'd" where
  "ina239_shunt_lsb_v fp r =
    (if r = INA239_RANGE_163MV then VSHUNT_LSB_V_LOW fp
     else if r = INA239_RANGE_41MV then VSHUNT_LSB_V_HIGH fp else fp_zero fp)"

definition ina239_range_full_scale_v :: "'d fp \<Rightarrow> ina239_range_t \<Rightarrow> 'd" where
  "ina239_range_full_scale_v fp r =
    (if r = INA239_RANGE_163MV then INA239_SHUNT_FULL_SCALE_V_LOW fp
     else if r = INA239_RANGE_41MV then INA239_SHUNT_FULL_SCALE_V_HIGH fp else fp_zero fp)"

definition ina239_current_lsb_for :: "'d fp \<Rightarrow> 'd \<Rightarrow> ina239_range_t \<Rightarrow> 'd" where
  "ina239_current_lsb_for fp shunt r =
    (let lsb = ina239_shunt_lsb_v fp r in
     if \<not> fp_less fp (fp_zero fp) shunt \<or> fp_eq fp lsb (fp_zero fp) then fp_zero fp else fp_div fp lsb shunt)"

text \<open>The fields of \<open>spi_device_interface_config_t\<close> that are set; all others stay 0.\<close>

record spi_config =
  spi_mode :: int
  clock_speed_hz :: int
  spics_io_num :: int
  queue_size :: int

definition ina239_device_config :: "int \<Rightarrow> int \<Rightarrow> spi_config" where
  "ina239_device_config cs_gpio clock_hz =
    (let clock_hz = (if clock_hz \<le> 0 then 1000000 else clock_hz);
         clock_hz = (if INA239_SPI_MAX_HZ < clock_hz then INA239_SPI_MAX_HZ else clock_hz) in
     \<lparr>spi_mode = INA239_SPI_MODE, clock_speed_hz = clock_hz, spics_io_num = cs_gpio, queue_size = 2\<rparr>)"

lemma ina239_clock_in_range:
  "0 < clock_speed_hz (ina239_device_config cs hz)" "clock_speed_hz (ina239_device_config cs hz) \<le> 10000000"
  by (simp_all add: ina239_device_config_def Let_def INA239_SPI_MAX_HZ_def)

lemma ina239_averaging_roundtrip:
  "a \<in> set ina239_averagings \<longleftrightarrow> ina239_averaging_from_count True (ina239_averaging_count a) = (ESP_OK, Some a)"
  "0 \<le> ina239_averaging_count a \<longleftrightarrow> a \<in> set ina239_averagings"
  by (auto simp: ina239_averaging_from_count_def ina239_averagings_def ina239_averaging_count_def)

section \<open>The handle\<close>

datatype ina239_stage_t =
    INA239_STAGE_NONE | INA239_STAGE_PROBE | INA239_STAGE_IDENTIFY | INA239_STAGE_DEVICE_ID
  | INA239_STAGE_CONFIG | INA239_STAGE_ADC_CONFIG | INA239_STAGE_SHUNT_CAL

record 'd ina239_config_t =
  c_dev :: bool
  c_shunt_ohms :: 'd
  c_range :: ina239_range_t
  c_averaging :: ina239_averaging_t

record 'd ina239_dev_t =
  s_dev :: bool
  s_configured :: bool
  s_shunt_ohms :: 'd
  s_current_lsb :: 'd
  s_range :: ina239_range_t
  s_averaging :: ina239_averaging_t
  config_written :: "16 word"
  adc_config_written :: "16 word"
  s_bus :: bus

record 'd ina239_config_report_t =
  q_failed_stage :: ina239_stage_t
  q_manufacturer_id :: "16 word"
  q_device_id :: "16 word"
  q_die_id :: "16 word"
  q_revision :: "8 word"
  q_current_lsb :: 'd
  q_full_scale_amps :: 'd

definition zero_ina239_report :: "'d fp \<Rightarrow> 'd ina239_config_report_t" where
  "zero_ina239_report fp = \<lparr>q_failed_stage = INA239_STAGE_NONE, q_manufacturer_id = 0, q_device_id = 0,
     q_die_id = 0, q_revision = 0, q_current_lsb = fp_zero fp, q_full_scale_amps = fp_zero fp\<rparr>"

text \<open>The data of a frame begins after the byte that goes with the command. \<open>old\<close> is the value of
  the caller's variable, which a failed transfer leaves.\<close>

definition read_reg16 :: "8 word \<Rightarrow> 16 word \<Rightarrow> 'd ina239_dev_t \<Rightarrow> esp_err_t \<times> 16 word \<times> 'd ina239_dev_t" where
  "read_reg16 reg old h =
    (let (e, f, b) = bus_call (Spi [CMD_READ reg, 0, 0]) (s_bus h) in
     (e, if e = ESP_OK then be16 (f 1) (f 2) else old, h\<lparr>s_bus := b\<rparr>))"

definition read_reg24 :: "8 word \<Rightarrow> 32 word \<Rightarrow> 'd ina239_dev_t \<Rightarrow> esp_err_t \<times> 32 word \<times> 'd ina239_dev_t" where
  "read_reg24 reg old h =
    (let (e, f, b) = bus_call (Spi [CMD_READ reg, 0, 0, 0]) (s_bus h) in
     (e, if e = ESP_OK then be24 (f 1) (f 2) (f 3) else old, h\<lparr>s_bus := b\<rparr>))"

definition write_reg16 :: "8 word \<Rightarrow> 16 word \<Rightarrow> 'd ina239_dev_t \<Rightarrow> esp_err_t \<times> 'd ina239_dev_t" where
  "write_reg16 reg v h =
    (let (e, f, b) = bus_call (Spi [CMD_WRITE reg, hi_byte v, lo_byte v]) (s_bus h) in (e, h\<lparr>s_bus := b\<rparr>))"

definition ina239_create :: "'d fp \<Rightarrow> bool \<Rightarrow> 'd ina239_config_t option \<Rightarrow> bool \<Rightarrow> bus \<Rightarrow> esp_err_t \<times> 'd ina239_dev_t option" where
  "ina239_create fp calloc_ok config args b =
    (case config of
       None \<Rightarrow> (ESP_ERR_INVALID_ARG, None)
     | Some c \<Rightarrow>
         if \<not> args then (ESP_ERR_INVALID_ARG, None)
         else if \<not> calloc_ok then (ESP_ERR_NO_MEM, None)
         else (ESP_OK, Some \<lparr>s_dev = c_dev c, s_configured = False, s_shunt_ohms = c_shunt_ohms c,
           s_current_lsb = fp_zero fp, s_range = c_range c, s_averaging = c_averaging c,
           config_written = 0, adc_config_written = 0, s_bus = b\<rparr>))"

definition ina239_delete :: "'d ina239_dev_t option \<Rightarrow> esp_err_t" where
  "ina239_delete h = (if h = None then ESP_ERR_INVALID_ARG else ESP_OK)"

definition ina239_set_device :: "bool \<Rightarrow> 'd ina239_dev_t option \<Rightarrow> esp_err_t \<times> 'd ina239_dev_t option" where
  "ina239_set_device dev h =
    (case h of None \<Rightarrow> (ESP_ERR_INVALID_ARG, None) | Some d \<Rightarrow> (ESP_OK, Some (d\<lparr>s_dev := dev\<rparr>)))"

definition ina239_is_configured :: "'d ina239_dev_t option \<Rightarrow> bool" where
  "ina239_is_configured h = (case h of None \<Rightarrow> False | Some d \<Rightarrow> s_configured d)"

definition ina239_shunt_ohms :: "'d fp \<Rightarrow> 'd ina239_dev_t option \<Rightarrow> 'd" where
  "ina239_shunt_ohms fp h = (case h of None \<Rightarrow> fp_zero fp | Some d \<Rightarrow> s_shunt_ohms d)"

definition ina239_current_lsb :: "'d fp \<Rightarrow> 'd ina239_dev_t option \<Rightarrow> 'd" where
  "ina239_current_lsb fp h = (case h of None \<Rightarrow> fp_zero fp | Some d \<Rightarrow> s_current_lsb d)"

definition ina239_range :: "'d ina239_dev_t option \<Rightarrow> ina239_range_t" where
  "ina239_range h = (case h of None \<Rightarrow> INA239_RANGE_163MV | Some d \<Rightarrow> s_range d)"

definition ina239_full_scale_amps :: "'d fp \<Rightarrow> 'd ina239_dev_t option \<Rightarrow> 'd" where
  "ina239_full_scale_amps fp h =
    (case h of None \<Rightarrow> fp_zero fp
     | Some d \<Rightarrow> if \<not> fp_less fp (fp_zero fp) (s_shunt_ohms d) then fp_zero fp
                 else fp_div fp (ina239_range_full_scale_v fp (s_range d)) (s_shunt_ohms d))"


section \<open>Configuration\<close>

abbreviation q_fail :: "ina239_stage_t \<Rightarrow> 'd ina239_config_report_t option \<Rightarrow> 'd ina239_config_report_t option" where
  "q_fail x rep \<equiv> map_option (q_failed_stage_update (\<lambda>_. x)) rep"

definition config_reg :: "ina239_range_t \<Rightarrow> 16 word" where
  "config_reg r = (if r = INA239_RANGE_41MV then CONFIG_ADCRANGE else 0)"

definition adc_config_reg :: "ina239_averaging_t \<Rightarrow> 16 word" where
  "adc_config_reg avg = push_bit 12 ADC_CONFIG_MODE_CONTINUOUS_ALL OR push_bit 9 ADC_CONFIG_CT_DEFAULT
     OR push_bit 6 ADC_CONFIG_CT_DEFAULT OR push_bit 3 ADC_CONFIG_CT_DEFAULT OR word_of_int avg"

text \<open>The writes, once the part is identified, and what the handle remembers of them.\<close>

definition configure_part ::
    "'d fp \<Rightarrow> 'd ina239_config_t \<Rightarrow> 'd ina239_config_report_t option \<Rightarrow> 'd ina239_dev_t
       \<Rightarrow> esp_err_t \<times> 'd ina239_dev_t \<times> 'd ina239_config_report_t option" where
  "configure_part fp c rep h =
    (let cfg = config_reg (c_range c); (e, h) = write_reg16 I239_REG_CONFIG cfg h in
     if e \<noteq> ESP_OK then (e, h, q_fail INA239_STAGE_CONFIG rep)
     else
       let adc = adc_config_reg (c_averaging c); (e, h) = write_reg16 I239_REG_ADC_CONFIG adc h in
       if e \<noteq> ESP_OK then (e, h, q_fail INA239_STAGE_ADC_CONFIG rep)
       else
         let (e, h) = write_reg16 I239_REG_SHUNT_CAL INA239_SHUNT_CAL_VALUE h in
         if e \<noteq> ESP_OK then (e, h, q_fail INA239_STAGE_SHUNT_CAL rep)
         else
           let h = h\<lparr>s_shunt_ohms := c_shunt_ohms c, s_range := c_range c, s_averaging := c_averaging c,
             config_written := cfg, adc_config_written := adc,
             s_current_lsb := ina239_current_lsb_for fp (c_shunt_ohms c) (c_range c), s_configured := True\<rparr> in
           (ESP_OK, h, map_option (\<lambda>r. r\<lparr>q_current_lsb := s_current_lsb h,
              q_full_scale_amps := ina239_full_scale_amps fp (Some h)\<rparr>) rep))"

definition ina239_configure ::
    "'d fp \<Rightarrow> bool \<Rightarrow> 'd ina239_config_t \<Rightarrow> 'd ina239_config_report_t option \<Rightarrow> 'd ina239_dev_t
       \<Rightarrow> esp_err_t \<times> 'd ina239_dev_t \<times> 'd ina239_config_report_t option" where
  "ina239_configure fp args c rep h =
    (let rep = map_option (\<lambda>r. zero_ina239_report fp) rep in
     if \<not> args then (ESP_ERR_INVALID_ARG, h, rep)
     else if \<not> fp_less fp (fp_zero fp) (c_shunt_ohms c) then (ESP_ERR_INVALID_ARG, h, rep)
     else if fp_eq fp (ina239_shunt_lsb_v fp (c_range c)) (fp_zero fp) \<or> ina239_averaging_count (c_averaging c) < 0
     then (ESP_ERR_INVALID_ARG, h, rep)
     else if \<not> s_dev h then (ESP_ERR_INVALID_STATE, h, rep)
     else
       let (e, manufacturer, h) = read_reg16 I239_REG_MANUFACTURER_ID 0 h in
       if e \<noteq> ESP_OK then (e, h, q_fail INA239_STAGE_PROBE rep)
       else
         let rep = map_option (\<lambda>r. r\<lparr>q_manufacturer_id := manufacturer\<rparr>) rep in
         if manufacturer \<noteq> INA239_MANUFACTURER_ID_TI
         then (ESP_ERR_INA239_WRONG_PART, h, q_fail INA239_STAGE_IDENTIFY rep)
         else
           let (e, dev, h) = read_reg16 I239_REG_DEVICE_ID 0 h in
           if e \<noteq> ESP_OK then (e, h, q_fail INA239_STAGE_PROBE rep)
           else
             let rep = map_option (\<lambda>r. r\<lparr>q_device_id := dev, q_die_id := drop_bit 4 dev,
                   q_revision := ucast (dev AND 0xF)\<rparr>) rep in
             if drop_bit 4 dev \<noteq> INA239_DEVICE_ID
             then (ESP_ERR_INA239_WRONG_DEVICE, h, q_fail INA239_STAGE_DEVICE_ID rep)
             else configure_part fp c rep h)"

text \<open>After a reset the handle no longer describes the part.\<close>

definition ina239_reset :: "bool \<Rightarrow> 'd ina239_dev_t \<Rightarrow> esp_err_t \<times> 'd ina239_dev_t" where
  "ina239_reset args h =
    (if \<not> args then (ESP_ERR_INVALID_ARG, h)
     else if \<not> s_dev h then (ESP_ERR_INVALID_STATE, h)
     else
       let (e, h) = write_reg16 I239_REG_CONFIG I239_CONFIG_RST h in
       if e \<noteq> ESP_OK then (e, h)
       else
         let h = h\<lparr>s_configured := False\<rparr>; (e, f, b) = bus_call (Delay_us (RESET_SETTLE_MS * 1000)) (s_bus h) in
         (ESP_OK, h\<lparr>s_bus := b\<rparr>))"

section \<open>Reading\<close>

record 'd ina239_reading_t =
  x_bus_v :: 'd
  x_shunt_v :: 'd
  x_temp_c :: 'd
  x_current_a :: 'd
  x_power_w :: 'd
  x_config :: "16 word"
  x_adc_config :: "16 word"
  x_shunt_cal :: "16 word"
  x_diag :: "16 word"
  x_trim_checksum_ok :: bool
  x_math_overflow :: bool
  x_conversion_ready :: bool
  x_config_intact :: bool
  x_shunt_cal_matches :: bool

text \<open>The scaling of the raw values, with what the handle remembers. The shift of the signed temperature
  is arithmetic.\<close>

definition ina239_reading ::
    "'d fp \<Rightarrow> 'd ina239_dev_t \<Rightarrow> 16 word \<Rightarrow> 16 word \<Rightarrow> 16 word \<Rightarrow> 16 word \<Rightarrow> 32 word
       \<Rightarrow> 16 word \<Rightarrow> 16 word \<Rightarrow> 16 word \<Rightarrow> 16 word \<Rightarrow> 'd ina239_reading_t" where
  "ina239_reading fp h vbus vshunt dietemp cur pow cfg adc cal diag =
    \<lparr>x_bus_v = fp_mul fp (fp_of_int fp (sint vbus)) (I239_VBUS_LSB_V fp),
     x_shunt_v = fp_mul fp (fp_of_int fp (sint vshunt)) (ina239_shunt_lsb_v fp (s_range h)),
     x_temp_c = fp_mul fp (fp_of_int fp (drop_bit 4 (sint dietemp))) (I239_DIETEMP_LSB_C fp),
     x_current_a = fp_mul fp (fp_of_int fp (sint cur)) (s_current_lsb h),
     x_power_w = fp_mul fp (fp_mul fp (fp_of_int fp (uint pow)) (I239_POWER_COEFFICIENT fp)) (s_current_lsb h),
     x_config = cfg, x_adc_config = adc, x_shunt_cal = cal, x_diag = diag,
     x_trim_checksum_ok = (diag AND I239_DIAG_MEMSTAT \<noteq> 0), x_math_overflow = (diag AND I239_DIAG_MATHOF \<noteq> 0),
     x_conversion_ready = (diag AND I239_DIAG_CNVRF \<noteq> 0),
     x_config_intact = (cal = INA239_SHUNT_CAL_VALUE \<and> cfg = config_written h \<and> adc = adc_config_written h),
     x_shunt_cal_matches = (cal = INA239_SHUNT_CAL_VALUE)\<rparr>"

text \<open>The next read of a chain of \<open>||\<close>: it is made while none has failed.\<close>

definition or_read16 :: "esp_err_t \<Rightarrow> 8 word \<Rightarrow> 'd ina239_dev_t \<Rightarrow> esp_err_t \<times> 16 word \<times> 'd ina239_dev_t" where
  "or_read16 e reg h = (if e \<noteq> ESP_OK then (e, 0, h) else read_reg16 reg 0 h)"

definition or_read24 :: "esp_err_t \<Rightarrow> 8 word \<Rightarrow> 'd ina239_dev_t \<Rightarrow> esp_err_t \<times> 32 word \<times> 'd ina239_dev_t" where
  "or_read24 e reg h = (if e \<noteq> ESP_OK then (e, 0, h) else read_reg24 reg 0 h)"

definition ina239_read :: "'d fp \<Rightarrow> bool \<Rightarrow> 'd ina239_dev_t \<Rightarrow> esp_err_t \<times> 'd ina239_reading_t option \<times> 'd ina239_dev_t" where
  "ina239_read fp args h =
    (if \<not> args then (ESP_ERR_INVALID_ARG, None, h)
     else if \<not> s_dev h then (ESP_ERR_INVALID_STATE, None, h)
     else if \<not> s_configured h then (ESP_ERR_INVALID_STATE, None, h)
     else
       let (e, vbus, h) = read_reg16 I239_REG_VBUS 0 h;
           (e, vshunt, h) = or_read16 e I239_REG_VSHUNT h;
           (e, dietemp, h) = or_read16 e I239_REG_DIETEMP h;
           (e, cur, h) = or_read16 e I239_REG_CURRENT h;
           (e, pow, h) = or_read24 e I239_REG_POWER h;
           (e, cfg, h) = or_read16 e I239_REG_CONFIG h;
           (e, adc, h) = or_read16 e I239_REG_ADC_CONFIG h;
           (e, cal, h) = or_read16 e I239_REG_SHUNT_CAL h;
           (e, diag, h) = or_read16 e I239_REG_DIAG_ALRT h in
       if e \<noteq> ESP_OK then (e, None, h)
       else (ESP_OK, Some (ina239_reading fp h vbus vshunt dietemp cur pow cfg adc cal diag), h))"

section \<open>Raw access\<close>

definition ina239_read_register ::
    "bool \<Rightarrow> 8 word \<Rightarrow> 16 word \<Rightarrow> 'd ina239_dev_t \<Rightarrow> esp_err_t \<times> 16 word \<times> 'd ina239_dev_t" where
  "ina239_read_register args reg out h =
    (if \<not> args then (ESP_ERR_INVALID_ARG, out, h)
     else if \<not> s_dev h then (ESP_ERR_INVALID_STATE, out, h)
     else read_reg16 reg out h)"

definition ina239_write_register ::
    "bool \<Rightarrow> 8 word \<Rightarrow> 16 word \<Rightarrow> 'd ina239_dev_t \<Rightarrow> esp_err_t \<times> 'd ina239_dev_t" where
  "ina239_write_register args reg v h =
    (if \<not> args then (ESP_ERR_INVALID_ARG, h)
     else if \<not> s_dev h then (ESP_ERR_INVALID_STATE, h)
     else write_reg16 reg v h)"

definition s_registers :: "(8 word \<times> string \<times> nat) list" where
  "s_registers =
    [(0x00, ''CONFIG'', 16), (0x01, ''ADC_CONFIG'', 16), (0x02, ''SHUNT_CAL'', 16), (0x04, ''VSHUNT'', 16),
     (0x05, ''VBUS'', 16), (0x06, ''DIETEMP'', 16), (0x07, ''CURRENT'', 16), (0x08, ''POWER'', 24),
     (0x0B, ''DIAG_ALRT'', 16), (0x0C, ''SOVL'', 16), (0x0D, ''SUVL'', 16), (0x0E, ''BOVL'', 16),
     (0x0F, ''BUVL'', 16), (0x10, ''TEMP_LIMIT'', 16), (0x11, ''PWR_LIMIT'', 16),
     (0x3E, ''MANUFACTURER_ID'', 16), (0x3F, ''DEVICE_ID'', 16)]"

definition ina239_register_map :: "(8 word \<times> string \<times> nat) list \<times> nat" where
  "ina239_register_map = (s_registers, length s_registers)"

section \<open>What a handle remembers is what was written\<close>

inductive ina239_step :: "'d fp \<Rightarrow> 'd ina239_dev_t \<Rightarrow> 'd ina239_dev_t \<Rightarrow> bool" for fp where
  s_set: "ina239_set_device dev (Some h) = (e, Some h') \<Longrightarrow> ina239_step fp h h'"
| s_configure: "ina239_configure fp args c rep h = (e, h', rep') \<Longrightarrow> ina239_step fp h h'"
| s_reset: "ina239_reset args h = (e, h') \<Longrightarrow> ina239_step fp h h'"
| s_read: "ina239_read fp args h = (e, x, h') \<Longrightarrow> ina239_step fp h h'"
| s_readreg: "ina239_read_register args reg out h = (e, v, h') \<Longrightarrow> ina239_step fp h h'"
| s_writereg: "ina239_write_register args reg v h = (e, h') \<Longrightarrow> ina239_step fp h h'"

inductive_cases ina239_stepE: "ina239_step fp h h'"

inductive ina239_reachable :: "'d fp \<Rightarrow> 'd ina239_dev_t \<Rightarrow> bool" for fp where
  s_create: "ina239_create fp ok c args b = (ESP_OK, Some h) \<Longrightarrow> ina239_reachable fp h"
| s_step: "ina239_reachable fp h \<Longrightarrow> ina239_step fp h h' \<Longrightarrow> ina239_reachable fp h'"

text \<open>What the settings of a configured handle have to do with each other.\<close>

definition settled :: "'d fp \<Rightarrow> 'd ina239_dev_t \<Rightarrow> bool" where
  "settled fp h \<longleftrightarrow> (s_configured h \<longrightarrow>
     fp_less fp (fp_zero fp) (s_shunt_ohms h) \<and> (s_range h = INA239_RANGE_163MV \<or> s_range h = INA239_RANGE_41MV)
     \<and> 0 \<le> s_averaging h \<and> s_averaging h < 8
     \<and> config_written h = config_reg (s_range h) \<and> adc_config_written h = adc_config_reg (s_averaging h)
     \<and> s_current_lsb h = ina239_current_lsb_for fp (s_shunt_ohms h) (s_range h))"

lemma settled_simps [simp]:
  "\<not> s_configured h \<Longrightarrow> settled fp h"
  "settled fp (h\<lparr>s_bus := b\<rparr>) = settled fp h"
  "settled fp (h\<lparr>s_dev := dev\<rparr>) = settled fp h"
  by (simp_all add: settled_def)

text \<open>The rest of a handle than the bus.\<close>

definition same_handle :: "'d ina239_dev_t \<Rightarrow> 'd ina239_dev_t \<Rightarrow> bool" where
  "same_handle h h' \<longleftrightarrow> h' = h\<lparr>s_bus := s_bus h'\<rparr>"

lemma same_handle_refl [simp]: "same_handle h h"
  by (simp add: same_handle_def)

lemma same_handle_trans [trans]: "same_handle h h' \<Longrightarrow> same_handle h' h'' \<Longrightarrow> same_handle h h''"
  by (cases h, cases h', cases h'') (simp add: same_handle_def)

lemma same_dev: "same_handle h h' \<Longrightarrow> s_dev h' = s_dev h"
  by (cases h, cases h') (simp add: same_handle_def)

lemma same_settled: "same_handle h h' \<Longrightarrow> settled fp h \<Longrightarrow> settled fp h'"
  by (cases h, cases h') (simp add: same_handle_def settled_def)

lemma reg_same:
  "read_reg16 r old h = (e, v, h') \<Longrightarrow> same_handle h h'"
  "read_reg24 r old' h = (e, v', h') \<Longrightarrow> same_handle h h'"
  "write_reg16 r v h = (e, h') \<Longrightarrow> same_handle h h'"
  "or_read16 e0 r h = (e, v, h') \<Longrightarrow> same_handle h h'"
  "or_read24 e0 r h = (e, v', h') \<Longrightarrow> same_handle h h'"
  by (auto simp: read_reg16_def read_reg24_def write_reg16_def or_read16_def or_read24_def same_handle_def
      split: prod.splits if_splits)


lemma same_reading: "same_handle h h' \<Longrightarrow> ina239_reading fp h' = ina239_reading fp h"
  by (cases h, cases h') (simp add: same_handle_def ina239_reading_def fun_eq_iff)

lemma configure_part_settles:
  assumes "configure_part fp c rep h = (e, h', rep')" "settled fp h"
    and "fp_less fp (fp_zero fp) (c_shunt_ohms c)" "c_range c = INA239_RANGE_163MV \<or> c_range c = INA239_RANGE_41MV"
    and "0 \<le> c_averaging c" "c_averaging c < 8"
  shows "settled fp h'"
proof -
  obtain e1 h1 where 1: "write_reg16 I239_REG_CONFIG (config_reg (c_range c)) h = (e1, h1)" by (metis surj_pair)
  obtain e2 h2 where 2: "write_reg16 I239_REG_ADC_CONFIG (adc_config_reg (c_averaging c)) h1 = (e2, h2)" by (metis surj_pair)
  obtain e3 h3 where 3: "write_reg16 I239_REG_SHUNT_CAL INA239_SHUNT_CAL_VALUE h2 = (e3, h3)" by (metis surj_pair)
  have "settled fp h1" using same_settled [OF reg_same(3) [OF 1]] assms(2) by blast
  moreover from this have "settled fp h2" by (rule same_settled [OF reg_same(3) [OF 2]])
  moreover from this have "settled fp h3" by (rule same_settled [OF reg_same(3) [OF 3]])
  moreover have "settled fp (h3\<lparr>s_shunt_ohms := c_shunt_ohms c, s_range := c_range c, s_averaging := c_averaging c,
      config_written := config_reg (c_range c), adc_config_written := adc_config_reg (c_averaging c),
      s_current_lsb := ina239_current_lsb_for fp (c_shunt_ohms c) (c_range c), s_configured := True\<rparr>)"
    using assms(3-6) by (simp add: settled_def)
  ultimately show ?thesis
    using assms(1) 1 2 3 by (simp add: configure_part_def Let_def split: if_splits)
qed

lemma ina239_configure_settles:
  assumes "ina239_configure fp args c rep h = (e, h', rep')" "settled fp h" "fp_eq fp (fp_zero fp) (fp_zero fp)"
  shows "settled fp h'"
proof (cases "args \<and> fp_less fp (fp_zero fp) (c_shunt_ohms c)
    \<and> \<not> (fp_eq fp (ina239_shunt_lsb_v fp (c_range c)) (fp_zero fp) \<or> ina239_averaging_count (c_averaging c) < 0) \<and> s_dev h")
  case True
  then have a: "fp_less fp (fp_zero fp) (c_shunt_ohms c)" "c_range c = INA239_RANGE_163MV \<or> c_range c = INA239_RANGE_41MV"
      "0 \<le> c_averaging c" "c_averaging c < 8"
    using assms(3) by (auto simp: ina239_shunt_lsb_v_def ina239_averaging_count_def split: if_splits)
  obtain e1 v1 h1 where 1: "read_reg16 I239_REG_MANUFACTURER_ID 0 h = (e1, v1, h1)" by (metis surj_pair)
  obtain e2 v2 h2 where 2: "read_reg16 I239_REG_DEVICE_ID 0 h1 = (e2, v2, h2)" by (metis surj_pair)
  have h1: "settled fp h1" using same_settled [OF reg_same(1) [OF 1]] assms(2) by blast
  then have h2: "settled fp h2" by (rule same_settled [OF reg_same(1) [OF 2]])
  from assms(1) True 1 2 consider "h' = h1" | "h' = h2" | rep1 where "configure_part fp c rep1 h2 = (e, h', rep')"
    by (simp add: ina239_configure_def Let_def split: if_splits)
  then show ?thesis using h1 h2 configure_part_settles [OF _ h2 a] by cases simp_all
next
  case False
  then show ?thesis using assms(1,2) by (auto simp: ina239_configure_def Let_def split: if_splits)
qed

text \<open>What a reading is made of.\<close>

lemma ina239_read_cases:
  assumes "ina239_read fp args h = (e, x, h')"
  obtains (failed) "x = None" "e \<noteq> ESP_OK" "same_handle h h'"
  | (got) vbus vshunt dietemp cur pow cfg adc cal diag where "e = ESP_OK" "same_handle h h'" "s_configured h"
      "x = Some (ina239_reading fp h vbus vshunt dietemp cur pow cfg adc cal diag)"
proof (cases "args \<and> s_dev h \<and> s_configured h")
  case True
  obtain e1 v1 h1 where 1: "read_reg16 I239_REG_VBUS 0 h = (e1, v1, h1)" by (metis surj_pair)
  obtain e2 v2 h2 where 2: "or_read16 e1 I239_REG_VSHUNT h1 = (e2, v2, h2)" by (metis surj_pair)
  obtain e3 v3 h3 where 3: "or_read16 e2 I239_REG_DIETEMP h2 = (e3, v3, h3)" by (metis surj_pair)
  obtain e4 v4 h4 where 4: "or_read16 e3 I239_REG_CURRENT h3 = (e4, v4, h4)" by (metis surj_pair)
  obtain e5 v5 h5 where 5: "or_read24 e4 I239_REG_POWER h4 = (e5, v5, h5)" by (metis surj_pair)
  obtain e6 v6 h6 where 6: "or_read16 e5 I239_REG_CONFIG h5 = (e6, v6, h6)" by (metis surj_pair)
  obtain e7 v7 h7 where 7: "or_read16 e6 I239_REG_ADC_CONFIG h6 = (e7, v7, h7)" by (metis surj_pair)
  obtain e8 v8 h8 where 8: "or_read16 e7 I239_REG_SHUNT_CAL h7 = (e8, v8, h8)" by (metis surj_pair)
  obtain e9 v9 h9 where 9: "or_read16 e8 I239_REG_DIAG_ALRT h8 = (e9, v9, h9)" by (metis surj_pair)
  have same: "same_handle h h9"
    using reg_same(1) [OF 1] reg_same(4) [OF 2] reg_same(4) [OF 3] reg_same(4) [OF 4] reg_same(5) [OF 5]
      reg_same(4) [OF 6] reg_same(4) [OF 7] reg_same(4) [OF 8] reg_same(4) [OF 9]
    by (meson same_handle_trans)
  have "(e9 \<noteq> ESP_OK \<and> x = None \<and> h' = h9 \<and> e = e9)
      \<or> (e = ESP_OK \<and> h' = h9 \<and> x = Some (ina239_reading fp h9 v1 v2 v3 v4 v5 v6 v7 v8 v9))"
    using assms True 1 2 3 4 5 6 7 8 9 by (auto simp: ina239_read_def split: if_splits)
  then show ?thesis
    using failed got same same_reading [OF same, of fp] True by auto
qed (use assms failed in \<open>auto simp: ina239_read_def split: if_splits\<close>)

lemma ina239_step_settles:
  assumes "fp_eq fp (fp_zero fp) (fp_zero fp)" "ina239_step fp h h'" "settled fp h"
  shows "settled fp h'"
  using assms(2)
proof (cases rule: ina239_step.cases)
  case (s_configure args c rep e rep')
  then show ?thesis using ina239_configure_settles assms by blast
next
  case (s_reset args e)
  obtain e1 h1 where 1: "write_reg16 I239_REG_CONFIG I239_CONFIG_RST h = (e1, h1)" by (metis surj_pair)
  have "settled fp h1" using same_settled [OF reg_same(3) [OF 1]] assms(3) by blast
  then show ?thesis
    using s_reset 1 assms(3) by (auto simp: ina239_reset_def bus_call_def split: prod.splits if_splits)
next
  case (s_read args e x)
  then show ?thesis by (rule ina239_read_cases) (use assms(3) same_settled in blast)+
next
  case (s_readreg args reg out e v)
  then show ?thesis
    using assms(3) same_settled [OF reg_same(1)] by (auto simp: ina239_read_register_def split: if_splits)
next
  case (s_writereg args reg v e)
  then show ?thesis
    using assms(3) same_settled [OF reg_same(3)] by (auto simp: ina239_write_register_def split: if_splits)
qed (use assms(3) in \<open>auto simp: ina239_set_device_def\<close>)

lemma ina239_reachable_settled:
  assumes "fp_eq fp (fp_zero fp) (fp_zero fp)" "ina239_reachable fp h"
  shows "settled fp h"
  using assms(2)
proof induction
  case (s_create ok c args b h)
  then show ?case by (auto simp: ina239_create_def split: option.splits if_splits)
next
  case (s_step h h')
  then show ?case using ina239_step_settles assms(1) by blast
qed


section \<open>A reading that is called intact is scaled right\<close>

lemma config_reg_range: "bit (config_reg r) 4 \<longleftrightarrow> r = INA239_RANGE_41MV"
  by (simp add: config_reg_def CONFIG_ADCRANGE_def bit_simps)

lemma adc_config_avg:
  assumes "0 \<le> avg" "avg < 8"
  shows "uint (adc_config_reg avg AND 7) = avg" "drop_bit 12 (adc_config_reg avg) = 0xF"
proof -
  have "avg \<in> {0, 1, 2, 3, 4, 5, 6, 7}" using assms by auto
  then show "uint (adc_config_reg avg AND 7) = avg" "drop_bit 12 (adc_config_reg avg) = 0xF"
    by (auto simp: adc_config_reg_def ADC_CONFIG_MODE_CONTINUOUS_ALL_def ADC_CONFIG_CT_DEFAULT_def)
qed

text \<open>The range that a configuration register says the part is on.\<close>

definition part_range :: "16 word \<Rightarrow> ina239_range_t" where
  "part_range cfg = (if bit cfg 4 then INA239_RANGE_41MV else INA239_RANGE_163MV)"

text \<open>The nine frames of a reading, and the bytes that come back with the \<open>k\<close>-th of them when it
  follows the others on the record.\<close>

definition reading_frames :: "bus_op list" where
  "reading_frames = [Spi [CMD_READ I239_REG_VBUS, 0, 0], Spi [CMD_READ I239_REG_VSHUNT, 0, 0],
     Spi [CMD_READ I239_REG_DIETEMP, 0, 0], Spi [CMD_READ I239_REG_CURRENT, 0, 0],
     Spi [CMD_READ I239_REG_POWER, 0, 0, 0], Spi [CMD_READ I239_REG_CONFIG, 0, 0],
     Spi [CMD_READ I239_REG_ADC_CONFIG, 0, 0], Spi [CMD_READ I239_REG_SHUNT_CAL, 0, 0],
     Spi [CMD_READ I239_REG_DIAG_ALRT, 0, 0]]"

definition answered :: "bus_op list \<Rightarrow> bus_entry list" where
  "answered xs = map (\<lambda>x. (x, ESP_OK)) xs"

definition said :: "bus \<Rightarrow> nat \<Rightarrow> nat \<Rightarrow> 8 word" where
  "said b k = snd (answer b (trace b @ answered (take k reading_frames)) (reading_frames ! k))"

definition said16 :: "bus \<Rightarrow> nat \<Rightarrow> 16 word" where
  "said16 b k = be16 (said b k 1) (said b k 2)"

definition said24 :: "bus \<Rightarrow> nat \<Rightarrow> 32 word" where
  "said24 b k = be24 (said b k 1) (said b k 2) (said b k 3)"

lemma read_reg_said:
  "read_reg16 r old h = (ESP_OK, v, h') \<Longrightarrow>
    v = (let f = snd (answer (s_bus h) (trace (s_bus h)) (Spi [CMD_READ r, 0, 0])) in be16 (f 1) (f 2))
    \<and> answer (s_bus h') = answer (s_bus h) \<and> trace (s_bus h') = trace (s_bus h) @ [(Spi [CMD_READ r, 0, 0], ESP_OK)]"
  "read_reg24 r old' h = (ESP_OK, v', h') \<Longrightarrow>
    v' = (let f = snd (answer (s_bus h) (trace (s_bus h)) (Spi [CMD_READ r, 0, 0, 0])) in be24 (f 1) (f 2) (f 3))
    \<and> answer (s_bus h') = answer (s_bus h) \<and> trace (s_bus h') = trace (s_bus h) @ [(Spi [CMD_READ r, 0, 0, 0], ESP_OK)]"
  by (auto simp: read_reg16_def read_reg24_def bus_call_def split_beta Let_def)

lemma or_read_ok:
  "or_read16 e r h = (ESP_OK, v, h') \<Longrightarrow> e = ESP_OK \<and> read_reg16 r 0 h = (ESP_OK, v, h')"
  "or_read24 e r h = (ESP_OK, v', h') \<Longrightarrow> e = ESP_OK \<and> read_reg24 r 0 h = (ESP_OK, v', h')"
  by (simp_all add: or_read16_def or_read24_def split: if_splits)

text \<open>A reading is made of what came back with these frames, and of nothing else.\<close>

lemma ina239_read_said:
  assumes "ina239_read fp args h = (ESP_OK, Some x, h')"
  defines "b \<equiv> s_bus h"
  shows "x = ina239_reading fp h (said16 b 0) (said16 b 1) (said16 b 2) (said16 b 3) (said24 b 4) (said16 b 5)
      (said16 b 6) (said16 b 7) (said16 b 8)
    \<and> trace (s_bus h') = trace b @ answered reading_frames \<and> s_configured h"
proof -
  have ready: "args" "s_dev h" "s_configured h" using assms by (auto simp: ina239_read_def split: if_splits)
  obtain e1 v1 h1 where 1: "read_reg16 I239_REG_VBUS 0 h = (e1, v1, h1)" by (metis surj_pair)
  obtain e2 v2 h2 where 2: "or_read16 e1 I239_REG_VSHUNT h1 = (e2, v2, h2)" by (metis surj_pair)
  obtain e3 v3 h3 where 3: "or_read16 e2 I239_REG_DIETEMP h2 = (e3, v3, h3)" by (metis surj_pair)
  obtain e4 v4 h4 where 4: "or_read16 e3 I239_REG_CURRENT h3 = (e4, v4, h4)" by (metis surj_pair)
  obtain e5 v5 h5 where 5: "or_read24 e4 I239_REG_POWER h4 = (e5, v5, h5)" by (metis surj_pair)
  obtain e6 v6 h6 where 6: "or_read16 e5 I239_REG_CONFIG h5 = (e6, v6, h6)" by (metis surj_pair)
  obtain e7 v7 h7 where 7: "or_read16 e6 I239_REG_ADC_CONFIG h6 = (e7, v7, h7)" by (metis surj_pair)
  obtain e8 v8 h8 where 8: "or_read16 e7 I239_REG_SHUNT_CAL h7 = (e8, v8, h8)" by (metis surj_pair)
  obtain e9 v9 h9 where 9: "or_read16 e8 I239_REG_DIAG_ALRT h8 = (e9, v9, h9)" by (metis surj_pair)
  have same: "same_handle h h9"
    using reg_same(1) [OF 1] reg_same(4) [OF 2] reg_same(4) [OF 3] reg_same(4) [OF 4] reg_same(5) [OF 5]
      reg_same(4) [OF 6] reg_same(4) [OF 7] reg_same(4) [OF 8] reg_same(4) [OF 9]
    by (meson same_handle_trans)
  have got: "e9 = ESP_OK" "h' = h9" "x = ina239_reading fp h9 v1 v2 v3 v4 v5 v6 v7 v8 v9"
    using assms ready 1 2 3 4 5 6 7 8 9 by (auto simp: ina239_read_def split: if_splits)
  note r9 = or_read_ok(1) [OF 9 [unfolded got(1)]]
  note r8 = or_read_ok(1) [OF 8 [unfolded conjunct1 [OF r9]]]
  note r7 = or_read_ok(1) [OF 7 [unfolded conjunct1 [OF r8]]]
  note r6 = or_read_ok(1) [OF 6 [unfolded conjunct1 [OF r7]]]
  note r5 = or_read_ok(2) [OF 5 [unfolded conjunct1 [OF r6]]]
  note r4 = or_read_ok(1) [OF 4 [unfolded conjunct1 [OF r5]]]
  note r3 = or_read_ok(1) [OF 3 [unfolded conjunct1 [OF r4]]]
  note r2 = or_read_ok(1) [OF 2 [unfolded conjunct1 [OF r3]]]
  note s1 = read_reg_said(1) [OF 1 [unfolded conjunct1 [OF r2]]]
  note s2 = read_reg_said(1) [OF conjunct2 [OF r2]]
  note s3 = read_reg_said(1) [OF conjunct2 [OF r3]]
  note s4 = read_reg_said(1) [OF conjunct2 [OF r4]]
  note s5 = read_reg_said(2) [OF conjunct2 [OF r5]]
  note s6 = read_reg_said(1) [OF conjunct2 [OF r6]]
  note s7 = read_reg_said(1) [OF conjunct2 [OF r7]]
  note s8 = read_reg_said(1) [OF conjunct2 [OF r8]]
  note s9 = read_reg_said(1) [OF conjunct2 [OF r9]]
  have "v1 = said16 b 0 \<and> v2 = said16 b 1 \<and> v3 = said16 b 2 \<and> v4 = said16 b 3 \<and> v5 = said24 b 4 \<and> v6 = said16 b 5
      \<and> v7 = said16 b 6 \<and> v8 = said16 b 7 \<and> v9 = said16 b 8 \<and> trace (s_bus h9) = trace b @ answered reading_frames"
    using s1 s2 s3 s4 s5 s6 s7 s8 s9
    by (simp add: b_def said16_def said24_def said_def answered_def reading_frames_def Let_def)
  then show ?thesis using got same_reading [OF same, of fp] ready by simp
qed


section \<open>A part that was reset is noticed\<close>

text \<open>What a write does to the part: a reset puts the three registers back to what they hold at power
  on, and the registers of results and identity cannot be written.\<close>

definition ina239_power_on :: "wide_regs \<Rightarrow> wide_regs" where
  "ina239_power_on m = m(I239_REG_CONFIG := 0, I239_REG_ADC_CONFIG := 0xFB68, I239_REG_SHUNT_CAL := 0x1000)"

definition ina239_store :: wide_store where
  "ina239_store r v m =
    (if r = I239_REG_CONFIG \<and> bit v 15 then ina239_power_on m
     else if r \<in> {I239_REG_CONFIG, I239_REG_ADC_CONFIG, I239_REG_SHUNT_CAL} then m(r := ucast v) else m)"

lemma cmd_bytes: "bit (CMD_READ r) 0" "\<not> bit (CMD_WRITE r) 0"
  by (simp_all add: CMD_READ_def CMD_WRITE_def bit_simps)

lemma cmd_reg:
  assumes "r AND 0xC0 = 0"
  shows "drop_bit 2 (CMD_READ r) = r" "drop_bit 2 (CMD_WRITE r) = r"
proof -
  have "\<not> bit (r AND 0xC0) 6" "\<not> bit (r AND 0xC0) 7" by (simp_all add: assms)
  then have no: "\<not> bit r 6" "\<not> bit r 7" by (simp_all add: bit_simps)
  have "n < 6" if "bit r n" for n
  proof -
    have "n < 8" "n \<noteq> 6" "n \<noteq> 7" using bit_imp_le_length [OF that] that no by (simp, metis, metis)
    then show ?thesis by linarith
  qed
  then show "drop_bit 2 (CMD_READ r) = r" "drop_bit 2 (CMD_WRITE r) = r"
    by (auto intro!: bit_word_eqI simp: CMD_READ_def CMD_WRITE_def bit_simps dest: less_imp_le)
qed


text \<open>What the frames do on such a part, for the registers there are.\<close>

definition part_regs :: "wide_regs \<Rightarrow> 'd ina239_dev_t \<Rightarrow> wide_regs" where
  "part_regs m h = wide_file ina239_store m (trace (s_bus h))"

definition on_part :: "wide_regs \<Rightarrow> 'd ina239_dev_t \<Rightarrow> bool" where
  "on_part m h \<longleftrightarrow> answer (s_bus h) = wide_device ina239_store m"

lemma read16_part:
  assumes "on_part m h" "r AND 0xC0 = 0" "read_reg16 r old h = (e, v, h')"
  shows "e = ESP_OK" "v = ucast (part_regs m h r)" "on_part m h'" "part_regs m h' = part_regs m h"
proof -
  have "h' = h\<lparr>s_bus := (s_bus h)\<lparr>trace := trace (s_bus h) @ [(Spi [CMD_READ r, 0, 0], ESP_OK)]\<rparr>\<rparr>
      \<and> e = ESP_OK \<and> v = ucast (part_regs m h r)"
    using assms be16_bytes [of "part_regs m h r", unfolded numeral_2_eq_2 One_nat_def]
    by (auto simp: read_reg16_def bus_call_def on_part_def part_regs_def wide_device_def cmd_reg)
  then show "e = ESP_OK" "v = ucast (part_regs m h r)" "on_part m h'" "part_regs m h' = part_regs m h"
    using assms(1) by (simp_all add: on_part_def part_regs_def cmd_bytes)
qed

lemma read24_part:
  assumes "on_part m h" "r AND 0xC0 = 0" "read_reg24 r old h = (e, v, h')"
  shows "e = ESP_OK" "v = take_bit 24 (part_regs m h r)" "on_part m h'" "part_regs m h' = part_regs m h"
proof -
  have "h' = h\<lparr>s_bus := (s_bus h)\<lparr>trace := trace (s_bus h) @ [(Spi [CMD_READ r, 0, 0, 0], ESP_OK)]\<rparr>\<rparr>
      \<and> e = ESP_OK \<and> v = take_bit 24 (part_regs m h r)"
    using assms be24_bytes [of "part_regs m h r", unfolded numeral_3_eq_3 One_nat_def]
    by (auto simp: read_reg24_def bus_call_def on_part_def part_regs_def wide_device_def cmd_reg)
  then show "e = ESP_OK" "v = take_bit 24 (part_regs m h r)" "on_part m h'" "part_regs m h' = part_regs m h"
    using assms(1) by (simp_all add: on_part_def part_regs_def)
qed

lemma write16_part:
  assumes "on_part m h" "r AND 0xC0 = 0" "write_reg16 r v h = (e, h')"
  shows "e = ESP_OK" "on_part m h'" "part_regs m h' = ina239_store r v (part_regs m h)"
proof -
  have "h' = h\<lparr>s_bus := (s_bus h)\<lparr>trace := trace (s_bus h) @ [(Spi [CMD_WRITE r, hi_byte v, lo_byte v], ESP_OK)]\<rparr>\<rparr>
      \<and> e = ESP_OK"
    using assms by (auto simp: write_reg16_def bus_call_def on_part_def wide_device_def)
  then show "e = ESP_OK" "on_part m h'" "part_regs m h' = ina239_store r v (part_regs m h)"
    using assms(1,2) by (simp_all add: on_part_def part_regs_def cmd_bytes cmd_reg)
qed

lemma ina239_read_run:
  assumes "on_part m h" "s_dev h" "s_configured h"
  defines "g \<equiv> part_regs m h"
  shows "\<exists>h'. ina239_read fp True h = (ESP_OK, Some (ina239_reading fp h (ucast (g I239_REG_VBUS))
    (ucast (g I239_REG_VSHUNT)) (ucast (g I239_REG_DIETEMP)) (ucast (g I239_REG_CURRENT))
    (take_bit 24 (g I239_REG_POWER)) (ucast (g I239_REG_CONFIG)) (ucast (g I239_REG_ADC_CONFIG))
    (ucast (g I239_REG_SHUNT_CAL)) (ucast (g I239_REG_DIAG_ALRT))), h')"
proof -
  note r = ina239_regs
  obtain e1 v1 h1 where 1: "read_reg16 I239_REG_VBUS 0 h = (e1, v1, h1)" by (metis surj_pair)
  obtain e2 v2 h2 where 2: "read_reg16 I239_REG_VSHUNT 0 h1 = (e2, v2, h2)" by (metis surj_pair)
  obtain e3 v3 h3 where 3: "read_reg16 I239_REG_DIETEMP 0 h2 = (e3, v3, h3)" by (metis surj_pair)
  obtain e4 v4 h4 where 4: "read_reg16 I239_REG_CURRENT 0 h3 = (e4, v4, h4)" by (metis surj_pair)
  obtain e5 v5 h5 where 5: "read_reg24 I239_REG_POWER 0 h4 = (e5, v5, h5)" by (metis surj_pair)
  obtain e6 v6 h6 where 6: "read_reg16 I239_REG_CONFIG 0 h5 = (e6, v6, h6)" by (metis surj_pair)
  obtain e7 v7 h7 where 7: "read_reg16 I239_REG_ADC_CONFIG 0 h6 = (e7, v7, h7)" by (metis surj_pair)
  obtain e8 v8 h8 where 8: "read_reg16 I239_REG_SHUNT_CAL 0 h7 = (e8, v8, h8)" by (metis surj_pair)
  obtain e9 v9 h9 where 9: "read_reg16 I239_REG_DIAG_ALRT 0 h8 = (e9, v9, h9)" by (metis surj_pair)
  note f1 = read16_part [OF assms(1) _ 1, simplified r, simplified]
  note f2 = read16_part [OF f1(3) _ 2, simplified r, simplified]
  note f3 = read16_part [OF f2(3) _ 3, simplified r, simplified]
  note f4 = read16_part [OF f3(3) _ 4, simplified r, simplified]
  note f5 = read24_part [OF f4(3) _ 5, simplified r, simplified]
  note f6 = read16_part [OF f5(3) _ 6, simplified r, simplified]
  note f7 = read16_part [OF f6(3) _ 7, simplified r, simplified]
  note f8 = read16_part [OF f7(3) _ 8, simplified r, simplified]
  note f9 = read16_part [OF f8(3) _ 9, simplified r, simplified]
  have "same_handle h h9"
    using reg_same(1) [OF 1] reg_same(1) [OF 2] reg_same(1) [OF 3] reg_same(1) [OF 4] reg_same(2) [OF 5]
      reg_same(1) [OF 6] reg_same(1) [OF 7] reg_same(1) [OF 8] reg_same(1) [OF 9]
    by (meson same_handle_trans)
  then have same: "ina239_reading fp h9 = ina239_reading fp h" by (rule same_reading)
  have "ina239_read fp True h = (ESP_OK, Some (ina239_reading fp h9 v1 v2 v3 v4 v5 v6 v7 v8 v9), h9)"
    using assms(2,3) 1 2 3 4 5 6 7 8 9 f1(1) f2(1) f3(1) f4(1) f5(1) f6(1) f7(1) f8(1) f9(1)
    by (simp add: ina239_read_def or_read16_def or_read24_def)
  then show ?thesis
    unfolding same g_def r f1(2) f2(2) f3(2) f4(2) f5(2) f6(2) f7(2) f8(2) f9(2)
    using f1(4) f2(4) f3(4) f4(4) f5(4) f6(4) f7(4) f8(4) by simp
qed


definition valid239 :: "real ina239_config_t \<Rightarrow> bool" where
  "valid239 c \<longleftrightarrow> 0 < c_shunt_ohms c \<and> (c_range c = INA239_RANGE_163MV \<or> c_range c = INA239_RANGE_41MV)
     \<and> 0 \<le> c_averaging c \<and> c_averaging c < 8"

lemma valid239_accepted:
  assumes "valid239 c"
  shows "0 < c_shunt_ohms c" "ina239_shunt_lsb_v real_fp (c_range c) \<noteq> 0" "\<not> ina239_averaging_count (c_averaging c) < 0"
  using assms by (auto simp: valid239_def ina239_shunt_lsb_v_def VSHUNT_LSB_V_LOW_def VSHUNT_LSB_V_HIGH_def
      of_rat_divide ina239_averaging_count_def INA239_RANGE_163MV_def INA239_RANGE_41MV_def)

lemma configure_part_run:
  assumes "on_part m h"
  shows "\<exists>h1 rep1. configure_part fp c rep h = (ESP_OK, h1, rep1) \<and> on_part m h1 \<and> s_dev h1 = s_dev h \<and> s_configured h1
    \<and> s_range h1 = c_range c \<and> config_written h1 = config_reg (c_range c)
    \<and> adc_config_written h1 = adc_config_reg (c_averaging c)
    \<and> s_current_lsb h1 = ina239_current_lsb_for fp (c_shunt_ohms c) (c_range c)
    \<and> part_regs m h1 = (part_regs m h)(I239_REG_CONFIG := ucast (config_reg (c_range c)),
        I239_REG_ADC_CONFIG := ucast (adc_config_reg (c_averaging c)), I239_REG_SHUNT_CAL := ucast INA239_SHUNT_CAL_VALUE)"
proof -
  obtain e1 h1 where 1: "write_reg16 I239_REG_CONFIG (config_reg (c_range c)) h = (e1, h1)" by (metis surj_pair)
  obtain e2 h2 where 2: "write_reg16 I239_REG_ADC_CONFIG (adc_config_reg (c_averaging c)) h1 = (e2, h2)" by (metis surj_pair)
  obtain e3 h3 where 3: "write_reg16 I239_REG_SHUNT_CAL INA239_SHUNT_CAL_VALUE h2 = (e3, h3)" by (metis surj_pair)
  note f1 = write16_part [OF assms _ 1, simplified ina239_regs, simplified]
  note f2 = write16_part [OF f1(2) _ 2, simplified ina239_regs, simplified]
  note f3 = write16_part [OF f2(2) _ 3, simplified ina239_regs, simplified]
  have "\<not> bit (config_reg (c_range c)) 15" by (simp add: config_reg_def CONFIG_ADCRANGE_def bit_simps)
  then have "part_regs m h3 = (part_regs m h)(I239_REG_CONFIG := ucast (config_reg (c_range c)),
        I239_REG_ADC_CONFIG := ucast (adc_config_reg (c_averaging c)), I239_REG_SHUNT_CAL := ucast INA239_SHUNT_CAL_VALUE)"
    using f1(3) f2(3) f3(3) by (simp add: ina239_store_def ina239_regs)
  moreover have "s_dev h3 = s_dev h"
    using same_dev [OF reg_same(3) [OF 1]] same_dev [OF reg_same(3) [OF 2]] same_dev [OF reg_same(3) [OF 3]] by simp
  ultimately show ?thesis
    using 1 2 3 f1(1) f2(1) f3(1,2) by (simp add: configure_part_def on_part_def part_regs_def Let_def)
qed

lemma ina239_configure_run:
  assumes "on_part m h" "s_dev h" "valid239 c"
    and "ucast (part_regs m h I239_REG_MANUFACTURER_ID) = INA239_MANUFACTURER_ID_TI"
    and "drop_bit 4 (ucast (part_regs m h I239_REG_DEVICE_ID)) = INA239_DEVICE_ID"
  shows "\<exists>h2 rep1. on_part m h2 \<and> part_regs m h2 = part_regs m h \<and> s_dev h2
    \<and> ina239_configure real_fp True c rep h = configure_part real_fp c rep1 h2"
proof -
  obtain e1 v1 h1 where 1: "read_reg16 I239_REG_MANUFACTURER_ID 0 h = (e1, v1, h1)" by (metis surj_pair)
  obtain e2 v2 h2 where 2: "read_reg16 I239_REG_DEVICE_ID 0 h1 = (e2, v2, h2)" by (metis surj_pair)
  have six: "I239_REG_MANUFACTURER_ID AND 0xC0 = 0" "I239_REG_DEVICE_ID AND 0xC0 = 0" by (simp_all add: ina239_regs)
  note f1 = read16_part [OF assms(1) six(1) 1]
  note f2 = read16_part [OF f1(3) six(2) 2]
  have "s_dev h2" using same_dev [OF reg_same(1) [OF 1]] same_dev [OF reg_same(1) [OF 2]] assms(2) by simp
  moreover have "v1 = INA239_MANUFACTURER_ID_TI" "drop_bit 4 v2 = INA239_DEVICE_ID"
    using f1(2,4) f2(2) assms(4,5) by simp_all
  moreover have "\<exists>rep1. ina239_configure real_fp True c rep h = configure_part real_fp c rep1 h2"
    using 1 2 f1(1) f2(1) calculation(2,3) assms(2) valid239_accepted [OF assms(3)]
    by (simp add: ina239_configure_def Let_def) blast
  ultimately show ?thesis using f2(3,4) f1(4) by auto
qed

lemma ina239_good_part:
  assumes "on_part m h" "s_dev h" "valid239 c"
    and "ucast (part_regs m h I239_REG_MANUFACTURER_ID) = INA239_MANUFACTURER_ID_TI"
    and "drop_bit 4 (ucast (part_regs m h I239_REG_DEVICE_ID)) = INA239_DEVICE_ID"
  obtains h1 rep1 x h2 where "ina239_configure real_fp True c rep h = (ESP_OK, h1, rep1)" "on_part m h1" "s_dev h1"
      "s_configured h1" "config_written h1 = config_reg (c_range c)" "adc_config_written h1 = adc_config_reg (c_averaging c)"
      "ina239_read real_fp True h1 = (ESP_OK, Some x, h2)" "x_config_intact x"
      "x_current_a x = real_of_int (sint (ucast (part_regs m h I239_REG_CURRENT) :: 16 word))
        * ((if c_range c = INA239_RANGE_41MV then 0.00000125 else 0.000005) / c_shunt_ohms c)"
proof -
  obtain h0 rep0 where h0: "on_part m h0" "part_regs m h0 = part_regs m h" "s_dev h0"
      "ina239_configure real_fp True c rep h = configure_part real_fp c rep0 h0"
    using ina239_configure_run [OF assms] by blast
  obtain h1 rep1 where h1: "ina239_configure real_fp True c rep h = (ESP_OK, h1, rep1)" "on_part m h1" "s_dev h1"
      "s_configured h1" "config_written h1 = config_reg (c_range c)"
      "adc_config_written h1 = adc_config_reg (c_averaging c)"
      "s_current_lsb h1 = ina239_current_lsb_for real_fp (c_shunt_ohms c) (c_range c)"
      "part_regs m h1 = (part_regs m h)(I239_REG_CONFIG := ucast (config_reg (c_range c)),
        I239_REG_ADC_CONFIG := ucast (adc_config_reg (c_averaging c)), I239_REG_SHUNT_CAL := ucast INA239_SHUNT_CAL_VALUE)"
    using configure_part_run [OF h0(1), of real_fp c rep0] h0 by auto
  have lsb: "s_current_lsb h1 = (if c_range c = INA239_RANGE_41MV then 0.00000125 else 0.000005) / c_shunt_ohms c"
    using assms(3) h1(7)
    by (auto simp: valid239_def ina239_current_lsb_for_def ina239_shunt_lsb_v_def VSHUNT_LSB_V_LOW_def
        VSHUNT_LSB_V_HIGH_def of_rat_divide INA239_RANGE_163MV_def INA239_RANGE_41MV_def)
  obtain x h2 where x: "ina239_read real_fp True h1 = (ESP_OK, Some x, h2)" "x_config_intact x"
      "x_current_a x = real_of_int (sint (ucast (part_regs m h I239_REG_CURRENT) :: 16 word)) * s_current_lsb h1"
    using ina239_read_run [OF h1(2-4), of real_fp] h1(5,6,8) by (auto simp: ina239_reading_def ina239_regs)
  show ?thesis using that [OF h1(1-6) x(1,2)] x(3) unfolding lsb by blast
qed

text \<open>A board with the part, its resistor of 10 milliohms, on the narrow range with an average of four.\<close>

definition bench239_regs :: wide_regs where
  "bench239_regs = (\<lambda>r. 0)(I239_REG_MANUFACTURER_ID := 0x5449, I239_REG_DEVICE_ID := 0x2391, I239_REG_CURRENT := 0xFFFE)"

definition bench239_config :: "real ina239_config_t" where
  "bench239_config = \<lparr>c_dev = True, c_shunt_ohms = 1 / 100, c_range = INA239_RANGE_41MV, c_averaging = 1\<rparr>"

definition bench239 :: "real ina239_dev_t" where
  "bench239 = the (snd (ina239_create real_fp True (Some bench239_config) True
     \<lparr>trace = [], answer = wide_device ina239_store bench239_regs\<rparr>))"

lemma bench239_good:
  "on_part bench239_regs bench239" "s_dev bench239" "valid239 bench239_config"
  "ucast (part_regs bench239_regs bench239 I239_REG_MANUFACTURER_ID) = INA239_MANUFACTURER_ID_TI"
  "drop_bit 4 (ucast (part_regs bench239_regs bench239 I239_REG_DEVICE_ID)) = INA239_DEVICE_ID"
  "ina239_reachable real_fp bench239"
proof -
  show "ina239_reachable real_fp bench239"
    by (rule s_create [of real_fp True "Some bench239_config" True
          "\<lparr>trace = [], answer = wide_device ina239_store bench239_regs\<rparr>"])
      (simp add: bench239_def ina239_create_def)
qed (simp_all add: bench239_def bench239_config_def ina239_create_def on_part_def part_regs_def valid239_def
    bench239_regs_def ina239_regs INA239_MANUFACTURER_ID_TI_def INA239_DEVICE_ID_def)


text \<open>The supply fails for a moment: the part starts again with what it holds at power on, and its record
  begins anew. The driver's handle does not change.\<close>

definition browned_out :: "wide_regs \<Rightarrow> 'd ina239_dev_t \<Rightarrow> 'd ina239_dev_t" where
  "browned_out m h = h\<lparr>s_bus := \<lparr>trace = [], answer = wide_device ina239_store (ina239_power_on (part_regs m h))\<rparr>\<rparr>"

text \<open>A reset of the part is noticed, except with the settings it resets to, and there is no false alarm.
  On a board with an INA239, \<open>ina239_configure\<close> with a valid configuration succeeds; the reading after
  it says that the configuration is intact, and gives the part's current in the unit of the shunt and
  the range. If the part loses its supply for a moment, the next reading says the configuration
  is intact if and only if the wide range without averaging had been asked for.\<close>

theorem ina239_reset_is_noticed:
  assumes "on_part m h" "s_dev h" "valid239 c"
    and "ucast (part_regs m h I239_REG_MANUFACTURER_ID) = INA239_MANUFACTURER_ID_TI"
    and "drop_bit 4 (ucast (part_regs m h I239_REG_DEVICE_ID)) = INA239_DEVICE_ID"
  shows "\<exists>h1 rep1 x h2 y h3. ina239_configure real_fp True c rep h = (ESP_OK, h1, rep1)
    \<and> ina239_read real_fp True h1 = (ESP_OK, Some x, h2) \<and> x_config_intact x
    \<and> x_current_a x = real_of_int (sint (ucast (part_regs m h I239_REG_CURRENT) :: 16 word))
        * ((if c_range c = INA239_RANGE_41MV then 0.00000125 else 0.000005) / c_shunt_ohms c)
    \<and> ina239_read real_fp True (browned_out m h1) = (ESP_OK, Some y, h3)
    \<and> (x_config_intact y \<longleftrightarrow> c_range c = INA239_RANGE_163MV \<and> c_averaging c = INA239_AVG_1)"
proof -
  obtain h1 rep1 x h2 where h1: "ina239_configure real_fp True c rep h = (ESP_OK, h1, rep1)" "on_part m h1" "s_dev h1"
      "s_configured h1" "config_written h1 = config_reg (c_range c)" "adc_config_written h1 = adc_config_reg (c_averaging c)"
    and x: "ina239_read real_fp True h1 = (ESP_OK, Some x, h2)" "x_config_intact x"
      "x_current_a x = real_of_int (sint (ucast (part_regs m h I239_REG_CURRENT) :: 16 word))
        * ((if c_range c = INA239_RANGE_41MV then 0.00000125 else 0.000005) / c_shunt_ohms c)"
    by (rule ina239_good_part [OF assms])
  let ?b = "browned_out m h1" and ?m = "ina239_power_on (part_regs m h1)"
  have "on_part ?m ?b" "s_dev ?b" "s_configured ?b" "part_regs ?m ?b = ?m"
      "config_written ?b = config_reg (c_range c)" "adc_config_written ?b = adc_config_reg (c_averaging c)"
    using h1 by (simp_all add: on_part_def browned_out_def part_regs_def)
  then obtain y h3 where y: "ina239_read real_fp True ?b = (ESP_OK, Some y, h3)"
      "x_config_intact y \<longleftrightarrow> 0 = config_reg (c_range c) \<and> 0xFB68 = adc_config_reg (c_averaging c)"
    using ina239_read_run [of ?m ?b real_fp]
    by (auto simp: ina239_reading_def ina239_power_on_def ina239_regs INA239_SHUNT_CAL_VALUE_def)
  have cfg: "0 = config_reg (c_range c) \<longleftrightarrow> c_range c = INA239_RANGE_163MV"
    using assms(3) by (auto simp: valid239_def config_reg_def CONFIG_ADCRANGE_def INA239_RANGE_163MV_def INA239_RANGE_41MV_def)
  have adc: "0xFB68 = adc_config_reg (c_averaging c) \<longleftrightarrow> c_averaging c = INA239_AVG_1"
  proof
    assume "0xFB68 = adc_config_reg (c_averaging c)"
    moreover have "uint (adc_config_reg (c_averaging c) AND 7) = c_averaging c"
      using adc_config_avg(1) assms(3) by (simp add: valid239_def)
    ultimately have "uint ((0xFB68 :: 16 word) AND 7) = c_averaging c" by simp
    then show "c_averaging c = INA239_AVG_1" by (simp add: INA239_AVG_1_def)
  qed (simp add: adc_config_reg_def INA239_AVG_1_def ADC_CONFIG_MODE_CONTINUOUS_ALL_def ADC_CONFIG_CT_DEFAULT_def)
  show ?thesis
    by (intro exI conjI, rule h1(1), rule x(1), rule x(2)) (use x(3) y cfg adc in \<open>simp_all\<close>)
qed


theorem ina239_reset_is_noticed_witness:
  "\<exists>h1 rep1 y h3. ina239_configure real_fp True bench239_config None bench239 = (ESP_OK, h1, rep1)
     \<and> ina239_read real_fp True (browned_out bench239_regs h1) = (ESP_OK, Some y, h3) \<and> \<not> x_config_intact y"
  using ina239_reset_is_noticed [OF bench239_good(1-5), of None]
  by (auto simp: bench239_config_def INA239_RANGE_163MV_def INA239_RANGE_41MV_def)

end
