(* ===== verification/Cli_Web.thy ===== *)
theory Cli_Web
  imports Diag Cli_Repl "HOL-Library.Sublist"
begin

text \<open>
  The console in the browser, \<open>cli_web/src/cli_web.c\<close>: a sink of \<open>Diag\<close> copies the output
  into a queue, a task of its own hands it to the HTTP server, whose task sends it to every websocket;
  a line from a browser goes to \<open>cli_submit\<close> of \<open>Cli_Repl\<close>. The HTTP server, the
  queue and the tasks are the platform's: what they answer is given, and what they log while they work
  comes back to the sink on the task that logged it. What a browser received is read off the frames that
  were sent to its socket.
\<close>

section \<open>State\<close>

record web_limits =
  MAX_BROADCAST_CHUNK :: nat
  MAX_COMMAND_LEN :: nat
  TX_QUEUE_LEN :: nat

text \<open>Servers and tasks are numbers, NULL is None. An item of the queue is a chunk, or None for the
  sentinel that stops the task. \<open>works\<close>: the chunks handed to the server's task that it has not come to.
  \<open>routes\<close> and \<open>own_servers\<close>: what this component has registered and started. \<open>lost\<close>
  counts what \<open>tx_dropped\<close> counts, without its 32 bits.\<close>

record web_t =
  server :: "nat option"
  owns_server :: bool
  page_uri :: string
  ws_uri :: string
  page_registered :: bool
  tx_queue :: "string option list option"
  tx_stopped :: bool
  tx_task :: "nat option"
  tx_dropped :: "32 word"
  sending_task :: "nat option"
  works :: "string list"
  routes :: "(nat \<times> string) list"
  own_servers :: "nat list"
  lost :: nat

definition drop_one :: "web_t \<Rightarrow> web_t" where
  "drop_one w = w\<lparr>tx_dropped := tx_dropped w + 1, lost := lost w + 1\<rparr>"

section \<open>From a line of output to the queue\<close>

definition queue_send :: "web_limits \<Rightarrow> string option \<Rightarrow> web_t \<Rightarrow> web_t option" where
  "queue_send lim x w =
    (case tx_queue w of None \<Rightarrow> None
     | Some q \<Rightarrow> if length q < TX_QUEUE_LEN lim then Some (w\<lparr>tx_queue := Some (q @ [x])\<rparr>) else None)"

text \<open>The loop over the chunks of a line; \<open>ok i\<close>: the \<open>i\<close>-th allocation succeeds. Every turn takes
  a place in the queue, so it ends whatever the size of a chunk.\<close>

function send_chunks :: "web_limits \<Rightarrow> (nat \<Rightarrow> bool) \<Rightarrow> nat \<Rightarrow> string \<Rightarrow> web_t \<Rightarrow> web_t" where
  "send_chunks lim ok i bytes w =
    (if bytes = [] then w
     else
       let chunk = (if length bytes > MAX_BROADCAST_CHUNK lim then MAX_BROADCAST_CHUNK lim else length bytes) in
       if \<not> ok i then drop_one w
       else case queue_send lim (Some (take chunk bytes)) w of
         None \<Rightarrow> drop_one w
       | Some w' \<Rightarrow> send_chunks lim ok (i + 1) (drop chunk bytes) w')"
  by pat_completeness auto
termination
  by (relation "measure (\<lambda>(lim, ok, i, bytes, w). case tx_queue w of None \<Rightarrow> 0 | Some q \<Rightarrow> TX_QUEUE_LEN lim - length q)")
    (auto simp: queue_send_def split: option.splits if_splits)

declare send_chunks.simps [simp del]

definition output_sink :: "web_limits \<Rightarrow> (nat \<Rightarrow> bool) \<Rightarrow> nat \<Rightarrow> string \<Rightarrow> web_t \<Rightarrow> web_t" where
  "output_sink lim ok self bytes w =
    (if tx_queue w = None \<or> bytes = [] then w
     else if Some self = tx_task w \<or> Some self = sending_task w then drop_one w
     else send_chunks lim ok 0 bytes w)"

definition cli_web_dropped :: "web_t \<Rightarrow> 32 word" where
  "cli_web_dropped w = tx_dropped w"

section \<open>From the queue to the browsers\<close>

text \<open>One line the platform logs, with what the allocations for it answer.\<close>

type_synonym logged = "(nat \<Rightarrow> bool) \<times> string"

definition log_lines :: "web_limits \<Rightarrow> nat \<Rightarrow> logged list \<Rightarrow> web_t \<Rightarrow> web_t" where
  "log_lines lim self logs w = fold (\<lambda>(ok, bytes). output_sink lim ok self bytes) logs w"

text \<open>What becomes of a chunk the task took: \<open>accepted\<close> is the answer of \<open>httpd_queue_work\<close>,
  \<open>logs\<close> what that call logs.\<close>

definition hand_over :: "web_limits \<Rightarrow> bool \<Rightarrow> nat \<Rightarrow> logged list \<Rightarrow> string \<Rightarrow> web_t \<Rightarrow> web_t" where
  "hand_over lim accepted self logs m w =
    (if server w = None then drop_one w
     else
       let w = log_lines lim self logs w in
       if \<not> accepted then drop_one w else w\<lparr>works := works w @ [m]\<rparr>)"

text \<open>A turn of \<open>broadcaster_task\<close>: None while the queue is empty. At the sentinel the task gives the
  semaphore and ends.\<close>

definition broadcaster_turn :: "web_limits \<Rightarrow> bool \<Rightarrow> nat \<Rightarrow> logged list \<Rightarrow> web_t \<Rightarrow> web_t option" where
  "broadcaster_turn lim accepted self logs w =
    (case tx_queue w of
       Some (Some m # q) \<Rightarrow> Some (hand_over lim accepted self logs m (w\<lparr>tx_queue := Some q\<rparr>))
     | Some (None # q) \<Rightarrow> Some (w\<lparr>tx_queue := Some q\<rparr>)
     | _ \<Rightarrow> None)"

text \<open>A client of the server: its socket, whether it is a websocket, whether a send to it succeeds, and what
  the send logs. A frame: the socket it was sent to, what it carried, and whether the send succeeded.\<close>

type_synonym client = "nat \<times> bool \<times> bool \<times> logged list"
type_synonym frame = "nat \<times> string \<times> bool"

text \<open>\<open>clients\<close> is None when the list cannot be had. The result names the frames sent, in their order.\<close>

definition broadcast_work :: "web_limits \<Rightarrow> nat \<Rightarrow> client list option \<Rightarrow> web_t \<Rightarrow> (frame list \<times> web_t) option" where
  "broadcast_work lim self clients w =
    (case works w of
       [] \<Rightarrow> None
     | m # ms \<Rightarrow>
         let w = w\<lparr>works := ms, sending_task := Some self\<rparr>;
             sent = (case clients of Some cs \<Rightarrow> filter (fst \<circ> snd) cs | None \<Rightarrow> []);
             w = fold (\<lambda>(fd, ws, taken, logs). log_lines lim self logs) sent w in
         Some (map (\<lambda>(fd, ws, taken, logs). (fd, m, taken)) sent, w\<lparr>sending_task := None\<rparr>))"

section \<open>From a browser to the shell\<close>

text \<open>\<open>first\<close>: what asking for the length of a frame answers: its error, whether it is text, its length.
  \<open>second\<close>: the error and the bytes of reading it. The buffer ends with a zero, as does a C string.\<close>

definition ws_handler ::
    "web_limits \<Rightarrow> 'q queue_ops \<Rightarrow> bool \<Rightarrow> bool \<Rightarrow> esp_err_t \<times> bool \<times> nat \<Rightarrow> bool \<Rightarrow> esp_err_t \<times> string
       \<Rightarrow> ('q, 'w) repl_t \<Rightarrow> esp_err_t \<times> ('q, 'w) repl_t" where
  "ws_handler lim Q dup is_get first calloc_ok second r =
    (if is_get then (ESP_OK, r)
     else
       let (e, is_text, len) = first in
       if e \<noteq> ESP_OK then (e, r)
       else if \<not> is_text \<or> len = 0 \<or> len > MAX_COMMAND_LEN lim then (ESP_OK, r)
       else if \<not> calloc_ok then (ESP_ERR_NO_MEM, r)
       else
         let (e, payload) = second in
         if e = ESP_OK
         then (e, snd (cli_submit Q dup True (Some (takeWhile (\<lambda>c. c \<noteq> CHR 0x00) payload)) False r))
         else (e, r))"

section \<open>Start and stop\<close>

text \<open>The sink's address, as \<open>Diag\<close> knows it.\<close>

definition WEB_SINK :: nat where "WEB_SINK = 2"

record cli_web_config_t =
  c_server :: "nat option"
  c_page_uri :: cptr
  c_ws_uri :: cptr
  c_serve_page :: bool

text \<open>What the platform answers. \<open>e_work i\<close>: the \<open>i\<close>-th chunk handed over while the task winds
  down is accepted.\<close>

record web_env =
  e_start :: "esp_err_t \<times> nat"
  e_ws :: esp_err_t
  e_page :: esp_err_t
  e_queue :: bool
  e_sem :: bool
  e_task :: "nat option"
  e_work :: "nat \<Rightarrow> bool"

definition cli_web_server :: "web_t \<Rightarrow> nat option" where
  "cli_web_server w = server w"

definition register_uri :: "esp_err_t \<Rightarrow> string \<Rightarrow> web_t \<Rightarrow> esp_err_t \<times> web_t" where
  "register_uri e uri w =
    (e, if e = ESP_OK then w\<lparr>routes := (the (server w), uri) # routes w\<rparr> else w)"

definition unregister_uri :: "string \<Rightarrow> web_t \<Rightarrow> web_t" where
  "unregister_uri uri w = w\<lparr>routes := remove1 (the (server w), uri) (routes w)\<rparr>"

text \<open>The task takes what is queued until it meets the sentinel. The sink is not registered then, so
  what is logged does not come back.\<close>

fun wind_down :: "web_limits \<Rightarrow> (nat \<Rightarrow> bool) \<Rightarrow> nat \<Rightarrow> string option list \<Rightarrow> web_t \<Rightarrow> string option list \<times> web_t" where
  "wind_down lim ok i [] w = ([], w)"
| "wind_down lim ok i (None # q) w = (q, w)"
| "wind_down lim ok i (Some m # q) w = wind_down lim ok (i + 1) q (hand_over lim (ok i) 0 [] m w)"

definition stop_broadcaster :: "web_limits \<Rightarrow> (nat \<Rightarrow> bool) \<Rightarrow> web_t \<Rightarrow> web_t" where
  "stop_broadcaster lim ok w =
    (let w = (if tx_task w \<noteq> None
              then let (q, w) = wind_down lim ok 0 (the (tx_queue w) @ [None]) w in w\<lparr>tx_queue := Some q, tx_task := None\<rparr>
              else w) in
     w\<lparr>tx_queue := None, tx_stopped := False\<rparr>)"

definition stop_server :: "web_t \<Rightarrow> web_t" where
  "stop_server w =
    (let w = (if owns_server w then w\<lparr>own_servers := remove1 (the (server w)) (own_servers w)\<rparr> else w) in
     w\<lparr>server := None, owns_server := False\<rparr>)"

text \<open>The label \<open>fail_tx\<close>, which goes on to \<open>fail\<close>.\<close>

definition remove_handlers :: "web_t \<Rightarrow> web_t" where
  "remove_handlers w =
    (let w = (if page_registered w then (unregister_uri (page_uri w) w)\<lparr>page_registered := False\<rparr> else w) in
     unregister_uri (ws_uri w) w)"

definition fail_tx :: "web_limits \<Rightarrow> (nat \<Rightarrow> bool) \<Rightarrow> web_t \<Rightarrow> web_t" where
  "fail_tx lim ok w = stop_server (remove_handlers (stop_broadcaster lim ok w))"

text \<open>The second half of the start, once the handlers are registered.\<close>

definition start_broadcaster :: "web_limits \<Rightarrow> web_env \<Rightarrow> web_t \<times> diag_t \<Rightarrow> esp_err_t \<times> web_t \<times> diag_t" where
  "start_broadcaster lim env x =
    (case x of (w, d) \<Rightarrow>
       let w = w\<lparr>tx_queue := (if e_queue env then Some [] else None), tx_stopped := e_sem env\<rparr> in
       if tx_queue w = None \<or> \<not> tx_stopped w then (ESP_ERR_NO_MEM, fail_tx lim (e_work env) w, d)
       else
         let w = w\<lparr>tx_dropped := 0, lost := 0, tx_task := e_task env\<rparr> in
         if e_task env = None then (ESP_ERR_NO_MEM, fail_tx lim (e_work env) w, d)
         else
           let (e, d) = diag_sink_register (Some WEB_SINK) 0 d in
           if e \<noteq> ESP_OK then (e, fail_tx lim (e_work env) w, d) else (ESP_OK, w, d))"

definition cli_web_start ::
    "web_limits \<Rightarrow> web_env \<Rightarrow> cli_web_config_t option \<Rightarrow> web_t \<times> diag_t \<Rightarrow> esp_err_t \<times> web_t \<times> diag_t" where
  "cli_web_start lim env cfg x =
    (case x of (w, d) \<Rightarrow>
       if server w \<noteq> None then (ESP_ERR_INVALID_STATE, w, d)
       else
         let c = (case cfg of Some c \<Rightarrow> c
                  | None \<Rightarrow> \<lparr>c_server = None, c_page_uri = None, c_ws_uri = None, c_serve_page = True\<rparr>);
             w = w\<lparr>page_uri := (case c_page_uri c of Some u \<Rightarrow> u | None \<Rightarrow> ''/''),
                   ws_uri := (case c_ws_uri c of Some u \<Rightarrow> u | None \<Rightarrow> ''/ws'')\<rparr>;
             (e, w) = (case c_server c of
                Some s \<Rightarrow> (ESP_OK, w\<lparr>server := Some s, owns_server := False\<rparr>)
              | None \<Rightarrow>
                  let (e, s) = e_start env in
                  if e \<noteq> ESP_OK then (e, w\<lparr>server := None\<rparr>)
                  else (ESP_OK, w\<lparr>server := Some s, owns_server := True, own_servers := s # own_servers w\<rparr>)) in
         if e \<noteq> ESP_OK then (e, w, d)
         else
           let (e, w) = register_uri (e_ws env) (ws_uri w) w in
           if e \<noteq> ESP_OK then (e, stop_server w, d)
           else if c_serve_page c then
             let (e, w) = register_uri (e_page env) (page_uri w) w in
             if e \<noteq> ESP_OK then (e, stop_server (unregister_uri (ws_uri w) w), d)
             else start_broadcaster lim env (w\<lparr>page_registered := True\<rparr>, d)
           else start_broadcaster lim env (w, d))"

definition cli_web_stop :: "web_limits \<Rightarrow> (nat \<Rightarrow> bool) \<Rightarrow> web_t \<times> diag_t \<Rightarrow> esp_err_t \<times> web_t \<times> diag_t" where
  "cli_web_stop lim ok x =
    (case x of (w, d) \<Rightarrow>
       if server w = None then (ESP_ERR_INVALID_STATE, w, d)
       else
         let (e, d) = diag_sink_unregister (Some WEB_SINK) 0 d in
         (ESP_OK, stop_server (remove_handlers (stop_broadcaster lim ok w)), d))"


section \<open>What a line does to the queue\<close>

definition dropped :: "nat \<Rightarrow> web_t \<Rightarrow> web_t" where
  "dropped n w = w\<lparr>tx_dropped := tx_dropped w + of_nat n, lost := lost w + n\<rparr>"

lemma dropped_simps [simp]:
  "dropped 0 w = w" "dropped n (dropped k w) = dropped (n + k) w" "drop_one w = dropped 1 w"
  by (simp_all add: dropped_def drop_one_def add_ac)

lemma dropped_fields [simp]:
  "tx_queue (dropped n w) = tx_queue w" "tx_task (dropped n w) = tx_task w" "sending_task (dropped n w) = sending_task w"
  "works (dropped n w) = works w" "server (dropped n w) = server w" "lost (dropped n w) = lost w + n"
  "tx_dropped (dropped n w) = tx_dropped w + of_nat n"
  by (simp_all add: dropped_def)

lemma same_queue: "tx_queue w = Some q \<Longrightarrow> w\<lparr>tx_queue := Some q\<rparr> = w"
  by (cases w) simp

text \<open>The chunks queued are the line from its beginning, all of it unless a drop was counted.\<close>

lemma send_chunks_adds:
  assumes "tx_queue w = Some q"
  shows "\<exists>cs k rest. send_chunks lim ok i bytes w = dropped k (w\<lparr>tx_queue := Some (q @ map Some cs)\<rparr>)
    \<and> bytes = concat cs @ rest \<and> (k = 0 \<longrightarrow> rest = [])
    \<and> (length q \<le> TX_QUEUE_LEN lim \<longrightarrow> length q + length cs \<le> TX_QUEUE_LEN lim)"
  using assms
proof (induction lim ok i bytes w arbitrary: q rule: send_chunks.induct)
  case (1 lim ok i bytes w)
  define n where "n = (if length bytes > MAX_BROADCAST_CHUNK lim then MAX_BROADCAST_CHUNK lim else length bytes)"
  note unfold = send_chunks.simps [of lim ok i bytes w, folded n_def] and same = same_queue [OF 1(2)]
  show ?case
  proof (cases "bytes \<noteq> [] \<and> ok i \<and> length q < TX_QUEUE_LEN lim")
    case False
    then consider "bytes = []" | "bytes \<noteq> []" "\<not> ok i" | "bytes \<noteq> []" "ok i" "\<not> length q < TX_QUEUE_LEN lim" by blast
    then show ?thesis
    proof cases
      case 1
      then show ?thesis using \<open>tx_queue w = Some q\<close>
        by (intro exI [of _ "[]"] exI [of _ 0]) (simp add: send_chunks.simps [of lim ok i "[]" w] same)
    next
      case 2
      then show ?thesis using \<open>tx_queue w = Some q\<close>
        by - (rule exI [of _ "[]"], rule exI [of _ 1], rule exI [of _ bytes], simp add: unfold Let_def same)
    next
      case 3
      then have "queue_send lim (Some (take n bytes)) w = None" using \<open>tx_queue w = Some q\<close> by (simp add: queue_send_def)
      then show ?thesis using 3 \<open>tx_queue w = Some q\<close>
        by - (rule exI [of _ "[]"], rule exI [of _ 1], rule exI [of _ bytes], simp add: unfold Let_def same)
    qed
  next
    case True
    let ?w = "w\<lparr>tx_queue := Some (q @ [Some (take n bytes)])\<rparr>"
    have snd: "queue_send lim (Some (take n bytes)) w = Some ?w" using True 1(2) by (simp add: queue_send_def)
    have "\<exists>cs k rest. send_chunks lim ok (i + 1) (drop n bytes) ?w
          = dropped k (?w\<lparr>tx_queue := Some ((q @ [Some (take n bytes)]) @ map Some cs)\<rparr>)
        \<and> drop n bytes = concat cs @ rest \<and> (k = 0 \<longrightarrow> rest = [])
        \<and> (length (q @ [Some (take n bytes)]) \<le> TX_QUEUE_LEN lim
            \<longrightarrow> length (q @ [Some (take n bytes)]) + length cs \<le> TX_QUEUE_LEN lim)"
      using True by (intro 1(1) [OF _ n_def _ snd]) simp_all
    then obtain cs k rest where ih: "send_chunks lim ok (i + 1) (drop n bytes) ?w
          = dropped k (?w\<lparr>tx_queue := Some ((q @ [Some (take n bytes)]) @ map Some cs)\<rparr>)"
        "drop n bytes = concat cs @ rest" "k = 0 \<longrightarrow> rest = []"
        "length (q @ [Some (take n bytes)]) \<le> TX_QUEUE_LEN lim
            \<longrightarrow> length (q @ [Some (take n bytes)]) + length cs \<le> TX_QUEUE_LEN lim"
      by blast
    have "bytes = concat (take n bytes # cs) @ rest" using ih(2) by (metis append_assoc append_take_drop_id concat.simps(2))
    then show ?thesis using True ih(1,3,4) snd
      by (intro exI [of _ "take n bytes # cs"] exI [of _ k] exI [of _ rest]) (simp add: unfold)
  qed
qed

lemma sink_adds:
  assumes "tx_queue w = Some q"
  shows "\<exists>cs k rest. output_sink lim ok self bytes w = dropped k (w\<lparr>tx_queue := Some (q @ map Some cs)\<rparr>)
    \<and> bytes = concat cs @ rest \<and> (k = 0 \<longrightarrow> rest = [])
    \<and> (length q \<le> TX_QUEUE_LEN lim \<longrightarrow> length q + length cs \<le> TX_QUEUE_LEN lim)"
proof -
  note same = same_queue [OF assms]
  consider "bytes = []" | "bytes \<noteq> []" "Some self = tx_task w \<or> Some self = sending_task w"
    | "bytes \<noteq> []" "\<not> (Some self = tx_task w \<or> Some self = sending_task w)" by blast
  then show ?thesis
  proof cases
    case 1
    then show ?thesis by (intro exI [of _ "[]"] exI [of _ 0]) (simp add: output_sink_def same)
  next
    case 2
    then show ?thesis using assms
      by - (rule exI [of _ "[]"], rule exI [of _ 1], rule exI [of _ bytes], auto simp: output_sink_def same)
  next
    case 3
    then show ?thesis using send_chunks_adds [OF assms] assms by (simp add: output_sink_def)
  qed
qed

text \<open>A line logged by one of the two tasks that deliver is only counted.\<close>

definition counted :: "web_t \<Rightarrow> logged list \<Rightarrow> nat" where
  "counted w logs = (if tx_queue w = None then 0 else length (filter (\<lambda>l. snd l \<noteq> []) logs))"

lemma own_logs:
  assumes "Some self = tx_task w \<or> Some self = sending_task w"
  shows "log_lines lim self logs w = dropped (counted w logs) w"
  using assms
proof (induction logs arbitrary: w)
  case (Cons l logs)
  have "output_sink lim (fst l) self (snd l) w = dropped (counted w [l]) w"
    using Cons.prems by (auto simp: output_sink_def counted_def)
  then show ?case
    using Cons.IH [of "dropped (counted w [l]) w"] Cons.prems
    by (simp add: log_lines_def split_beta counted_def)
qed (simp add: log_lines_def counted_def)

lemma own_sends:
  assumes "Some self = sending_task w"
  shows "\<exists>k. fold (\<lambda>(fd, ws, taken, logs). log_lines lim self logs) cs w = dropped k w"
  using assms
proof (induction cs arbitrary: w)
  case (Cons c cs)
  obtain fd ws taken logs where c: "c = (fd, ws, taken, logs)" by (cases c)
  show ?case
    using Cons.IH [of "dropped (counted w logs) w"] Cons.prems own_logs [of self w lim logs]
    by (auto simp: c)
qed (auto intro: exI [of _ 0])

lemma hand_over_cases:
  assumes "tx_task w = Some self \<or> logs = []"
  shows "\<exists>k. hand_over lim accepted self logs m w = dropped (Suc k) w
     \<or> hand_over lim accepted self logs m w = dropped k (w\<lparr>works := works w @ [m]\<rparr>)"
proof -
  have "log_lines lim self logs w = dropped (counted w logs) w"
    using assms own_logs [of self w lim logs] by (auto simp: log_lines_def counted_def)
  then have "hand_over lim accepted self logs m w =
      (if server w = None then dropped (Suc 0) w
       else if \<not> accepted then dropped (Suc (counted w logs)) w
       else dropped (counted w logs) (w\<lparr>works := works w @ [m]\<rparr>))"
    by (simp add: hand_over_def dropped_def)
  then show ?thesis by metis
qed

lemma turn_cases:
  assumes "broadcaster_turn lim accepted self logs w = Some w'" "tx_task w = Some self"
  obtains (sentinel) q where "tx_queue w = Some (None # q)" "w' = w\<lparr>tx_queue := Some q\<rparr>"
  | (given_up) m q k where "tx_queue w = Some (Some m # q)" "w' = dropped (Suc k) (w\<lparr>tx_queue := Some q\<rparr>)"
  | (handed) m q k where "tx_queue w = Some (Some m # q)" "w' = dropped k (w\<lparr>tx_queue := Some q, works := works w @ [m]\<rparr>)"
proof (cases "tx_queue w")
  case (Some q)
  then show ?thesis
  proof (cases q)
    case (Cons x q)
    show ?thesis
    proof (cases x)
      case None
      then show ?thesis using sentinel assms(1) Some Cons by (simp add: broadcaster_turn_def)
    next
      case m: (Some m)
      then have "w' = hand_over lim accepted self logs m (w\<lparr>tx_queue := Some q\<rparr>)"
        using assms(1) Some Cons by (simp add: broadcaster_turn_def)
      moreover obtain k where "hand_over lim accepted self logs m (w\<lparr>tx_queue := Some q\<rparr>) = dropped (Suc k) (w\<lparr>tx_queue := Some q\<rparr>)
          \<or> hand_over lim accepted self logs m (w\<lparr>tx_queue := Some q\<rparr>) = dropped k (w\<lparr>tx_queue := Some q, works := works w @ [m]\<rparr>)"
        using hand_over_cases [of "w\<lparr>tx_queue := Some q\<rparr>" self logs lim accepted m] assms(2) by auto
      ultimately show ?thesis using given_up handed Some Cons m by blast
    qed
  qed (use assms(1) in \<open>simp add: broadcaster_turn_def\<close>)
qed (use assms(1) in \<open>simp add: broadcaster_turn_def\<close>)

lemma work_cases:
  assumes "broadcast_work lim self clients w = Some (sent, w')"
  obtains m ms k where "works w = m # ms" "w' = dropped k (w\<lparr>works := ms, sending_task := None\<rparr>)"
proof -
  obtain m ms where m: "works w = m # ms" using assms by (auto simp: broadcast_work_def split: list.splits)
  let ?w = "w\<lparr>works := ms, sending_task := Some self\<rparr>"
  let ?cs = "case clients of Some cs \<Rightarrow> filter (fst \<circ> snd) cs | None \<Rightarrow> []"
  obtain k where "fold (\<lambda>(fd, ws, taken, logs). log_lines lim self logs) ?cs ?w = dropped k ?w"
    using own_sends [of self ?w lim ?cs] by auto
  then have "w' = (dropped k ?w)\<lparr>sending_task := None\<rparr>"
    using assms m by (simp add: broadcast_work_def Let_def)
  also have "\<dots> = dropped k (w\<lparr>works := ms, sending_task := None\<rparr>)" by (simp add: dropped_def)
  finally show ?thesis by (rule that [OF m])
qed


section \<open>Delivery comes to rest\<close>

text \<open>The steps of the two tasks that deliver: a turn of the broadcaster, or a chunk sent to the
  browsers; each with whatever it logs.\<close>

inductive web_delivers :: "web_limits \<Rightarrow> web_t \<Rightarrow> web_t \<Rightarrow> bool" for lim where
  d_turn: "tx_task w = Some self \<Longrightarrow> broadcaster_turn lim accepted self logs w = Some w' \<Longrightarrow> web_delivers lim w w'"
| d_work: "broadcast_work lim self clients w = Some (sent, w') \<Longrightarrow> web_delivers lim w w'"

definition load :: "web_t \<Rightarrow> nat" where
  "load w = (case tx_queue w of None \<Rightarrow> 0 | Some q \<Rightarrow> 2 * length q) + length (works w)"

lemma delivers_load: "web_delivers lim w w' \<Longrightarrow> load w' < load w \<and> lost w \<le> lost w'"
proof (induction rule: web_delivers.induct)
  case (d_turn w self accepted logs w')
  show ?case by (rule turn_cases [OF d_turn(2,1)]) (simp_all add: load_def)
next
  case (d_work self clients w sent w')
  show ?case by (rule work_cases [OF d_work]) (simp add: load_def split: option.splits)
qed

text \<open>C30. Delivery never feeds itself. The tasks that carry output to the browsers log when a send fails, and
  what they log comes back to the sink: still, from any state, whatever each hand-over and each send logs and
  however many fail, they can take no more steps than twice the chunks queued and the chunks the server
  holds; none of their lines is queued, and the counter of lost output never goes down.\<close>

theorem web_delivery_comes_to_rest:
  assumes "(web_delivers lim ^^ n) w w'"
  shows "n + load w' \<le> load w \<and> lost w \<le> lost w'"
  using assms
proof (induction n arbitrary: w')
  case (Suc n)
  then obtain v where v: "(web_delivers lim ^^ n) w v" "web_delivers lim v w'" by auto
  show ?case using Suc.IH [OF v(1)] delivers_load [OF v(2)] by linarith
qed simp

text \<open>A chunk is queued; the server refuses it and the refusal is logged.\<close>

definition web_small :: web_limits where
  "web_small = \<lparr>MAX_BROADCAST_CHUNK = 4, MAX_COMMAND_LEN = 64, TX_QUEUE_LEN = 4\<rparr>"

definition web_busy :: web_t where
  "web_busy = \<lparr>server = Some 1, owns_server = False, page_uri = ''/'', ws_uri = ''/ws'', page_registered = False,
     tx_queue = Some [Some ''ab''], tx_stopped = True, tx_task = Some 7, tx_dropped = 0, sending_task = None,
     works = [], routes = [], own_servers = [], lost = 0\<rparr>"

theorem web_delivery_comes_to_rest_witness:
  "\<exists>w'. broadcaster_turn web_small False 7 [(\<lambda>i. True, ''busy'')] web_busy = Some w' \<and> 1 + load w' \<le> load web_busy
     \<and> lost w' = 2"
proof -
  have "\<exists>w'. broadcaster_turn web_small False 7 [(\<lambda>i. True, ''busy'')] web_busy = Some w' \<and> lost w' = 2"
    by (simp add: broadcaster_turn_def web_busy_def hand_over_def log_lines_def output_sink_def drop_one_def)
  then obtain w' where w': "broadcaster_turn web_small False 7 [(\<lambda>i. True, ''busy'')] web_busy = Some w'" "lost w' = 2"
    by blast
  have "web_delivers web_small web_busy w'" by (rule d_turn [OF _ w'(1)]) (simp add: web_busy_def)
  then have "(web_delivers web_small ^^ 1) web_busy w'" by (simp only: relpowp_1)
  from web_delivery_comes_to_rest [OF this] w' show ?thesis by blast
qed

section \<open>What a browser gets\<close>

text \<open>What one call of \<open>broadcast_work\<close> found and did: the server's clients at that moment, and the frames
  it sent. \<open>got\<close> is what a socket received, put together from the frames whose send succeeded;
  \<open>listens\<close> is about the clients alone: the socket is there, a websocket, and sends to it succeed.\<close>

type_synonym broadcast = "client list option \<times> frame list"

definition got :: "nat \<Rightarrow> broadcast list \<Rightarrow> string" where
  "got fd h = concat (map (fst \<circ> snd) (filter (\<lambda>(f, m, taken). f = fd \<and> taken) (concat (map snd h))))"

definition listens :: "nat \<Rightarrow> broadcast \<Rightarrow> bool" where
  "listens fd b = (case fst b of None \<Rightarrow> False | Some cs \<Rightarrow> list_ex (\<lambda>(f, ws, taken, logs). f = fd \<and> ws \<and> taken) cs)"

text \<open>The output between a start and a stop. With the state go the output written so far and the calls of
  \<open>broadcast_work\<close> on the server's task. Any task may write a line between the steps of delivery.
  The server lists a socket once.\<close>

inductive web_step :: "web_limits \<Rightarrow> web_t \<times> string \<times> broadcast list \<Rightarrow> web_t \<times> string \<times> broadcast list \<Rightarrow> bool" for lim where
  w_line: "web_step lim (w, out, h) (output_sink lim ok self bytes w, out @ bytes, h)"
| w_turn: "tx_task w = Some self \<Longrightarrow> broadcaster_turn lim accepted self logs w = Some w' \<Longrightarrow>
      web_step lim (w, out, h) (w', out, h)"
| w_work: "broadcast_work lim self clients w = Some (frames, w') \<Longrightarrow> (case clients of None \<Rightarrow> True | Some cs \<Rightarrow> distinct (map fst cs)) \<Longrightarrow>
      web_step lim (w, out, h) (w', out, h @ [(clients, frames)])"

lemma got_simps [simp]: "got fd [] = []" "got fd (h1 @ h2) = got fd h1 @ got fd h2"
  by (simp_all add: got_def)

fun frames_to :: "nat \<Rightarrow> string \<Rightarrow> client list \<Rightarrow> string" where
  "frames_to fd m [] = []"
| "frames_to fd m ((f, ws, taken, logs) # cs) = (if ws \<and> f = fd \<and> taken then m else []) @ frames_to fd m cs"

lemma got_frames: "got fd [(clients, map (\<lambda>(f, ws, taken, logs). (f, m, taken)) (filter (fst \<circ> snd) cs))] = frames_to fd m cs"
  by (induction fd m cs rule: frames_to.induct) (auto simp: got_def)

lemma frames_to_absent: "fd \<notin> fst ` set cs \<Longrightarrow> frames_to fd m cs = []"
  by (induction fd m cs rule: frames_to.induct) auto

lemma frames_to_once:
  "distinct (map fst cs) \<Longrightarrow> frames_to fd m cs = (if list_ex (\<lambda>(f, ws, taken, logs). f = fd \<and> ws \<and> taken) cs then m else [])"
proof (induction fd m cs rule: frames_to.induct)
  case (2 fd m f ws taken logs cs)
  moreover have "f = fd \<Longrightarrow> \<not> list_ex (\<lambda>(f, ws, taken, logs). f = fd \<and> ws \<and> taken) cs"
    using "2.prems" by (force simp: list_ex_iff)
  ultimately show ?case using frames_to_absent [of fd cs m] by (cases "f = fd") auto
qed simp

text \<open>One call sends its chunk, whole and once, to the sockets that listen, and nothing to the others.\<close>

lemma work_sends:
  assumes "broadcast_work lim self clients w = Some (frames, w')" "works w = m # ms"
    and "case clients of None \<Rightarrow> True | Some cs \<Rightarrow> distinct (map fst cs)"
  shows "got fd [(clients, frames)] = (if listens fd (clients, frames) then m else [])"
proof (cases clients)
  case None
  then show ?thesis using assms by (auto simp: got_def listens_def broadcast_work_def)
next
  case (Some cs)
  then have "frames = map (\<lambda>(f, ws, taken, logs). (f, m, taken)) (filter (fst \<circ> snd) cs)"
    using assms(1,2) by (simp add: broadcast_work_def Let_def)
  then show ?thesis using assms(3) Some by (simp add: got_frames frames_to_once listens_def)
qed

text \<open>What holds of a moment \<open>(w1, out1, h1)\<close> with the chunks \<open>cs1\<close> queued and all that follow it: what a
  socket gets in the meantime, and what is still on its way, is what was on its way and what is written.\<close>

definition web_inv :: "web_limits \<Rightarrow> nat \<Rightarrow> web_t \<times> string \<times> broadcast list \<Rightarrow> string list \<Rightarrow> web_t \<times> string \<times> broadcast list \<Rightarrow> bool" where
  "web_inv lim fd x cs1 y \<longleftrightarrow> (case (x, y) of ((w1, out1, h1), (w, out, h)) \<Rightarrow>
     \<exists>cs more h2. tx_queue w = Some (map Some cs) \<and> length cs \<le> TX_QUEUE_LEN lim
       \<and> tx_dropped w = of_nat (lost w) \<and> lost w1 \<le> lost w \<and> out = out1 @ more \<and> h = h1 @ h2
       \<and> subseq (got fd h2 @ concat (works w @ cs)) (concat (works w1 @ cs1) @ more)
       \<and> (lost w = lost w1 \<and> list_all (listens fd) h2
            \<longrightarrow> got fd h2 @ concat (works w @ cs) = concat (works w1 @ cs1) @ more))"

lemma subseq_without: "subseq (a @ b @ c) out \<Longrightarrow> subseq (a @ c) out"
  by (rule subseq_order.trans [rotated]) (auto intro: list_emb_append_mono list_emb_append2)

lemma web_step_keeps: "web_step lim y z \<Longrightarrow> web_inv lim fd x cs1 y \<Longrightarrow> web_inv lim fd x cs1 z"
proof (induction rule: web_step.induct)
  case (w_line w out h ok self bytes)
  obtain w1 out1 h1 where x: "x = (w1, out1, h1)" by (cases x)
  let ?from = "concat (works w1 @ cs1)"
  obtain cs new h2 where cs: "tx_queue w = Some (map Some cs)" "length cs \<le> TX_QUEUE_LEN lim" "tx_dropped w = of_nat (lost w)"
      "lost w1 \<le> lost w" "out = out1 @ new" "h = h1 @ h2" "subseq (got fd h2 @ concat (works w @ cs)) (?from @ new)"
      "lost w = lost w1 \<and> list_all (listens fd) h2 \<longrightarrow> got fd h2 @ concat (works w @ cs) = ?from @ new"
    using w_line by (auto simp: web_inv_def x)
  obtain ds k rest where ds: "output_sink lim ok self bytes w = dropped k (w\<lparr>tx_queue := Some (map Some cs @ map Some ds)\<rparr>)"
      "bytes = concat ds @ rest" "k = 0 \<longrightarrow> rest = []" "length cs + length ds \<le> TX_QUEUE_LEN lim"
    using sink_adds [OF cs(1), of lim ok self bytes] cs(2) by auto
  have "subseq ((got fd h2 @ concat (works w @ cs)) @ concat ds) ((?from @ new) @ bytes)"
    unfolding ds(2) by (intro list_emb_append_mono cs(7) list_emb_prefix [of _ _ "concat ds"]) simp_all
  moreover have "lost w + k = lost w1 \<and> list_all (listens fd) h2
      \<longrightarrow> (got fd h2 @ concat (works w @ cs)) @ concat ds = (?from @ new) @ bytes"
    using cs(4,8) ds(2,3) by auto
  ultimately show ?case
    unfolding ds(1) web_inv_def prod.case x
    using cs(3-6) ds(4) by (intro exI [of _ "cs @ ds"] exI [of _ "new @ bytes"] exI [of _ h2] conjI) (simp_all add: add_ac)
next
  case (w_turn w self accepted logs w' out h)
  obtain w1 out1 h1 where x: "x = (w1, out1, h1)" by (cases x)
  let ?from = "concat (works w1 @ cs1)"
  obtain cs new h2 where cs: "tx_queue w = Some (map Some cs)" "length cs \<le> TX_QUEUE_LEN lim" "tx_dropped w = of_nat (lost w)"
      "lost w1 \<le> lost w" "out = out1 @ new" "h = h1 @ h2" "subseq (got fd h2 @ concat (works w @ cs)) (?from @ new)"
      "lost w = lost w1 \<and> list_all (listens fd) h2 \<longrightarrow> got fd h2 @ concat (works w @ cs) = ?from @ new"
    using w_turn(3) by (auto simp: web_inv_def x)
  show ?case
  proof (rule turn_cases [OF w_turn(2,1)])
    fix q
    assume "tx_queue w = Some (None # q)"
    then show ?thesis using cs(1) by auto
  next
    fix m q k
    assume t: "tx_queue w = Some (Some m # q)" "w' = dropped (Suc k) (w\<lparr>tx_queue := Some q\<rparr>)"
    then obtain ds where ds: "cs = m # ds" "q = map Some ds" using cs(1) by auto
    have "subseq (got fd h2 @ concat (works w @ ds)) (?from @ new)"
      using subseq_without [of "got fd h2 @ concat (works w)" m "concat ds" "?from @ new"] cs(7) by (simp add: ds(1))
    then show ?thesis unfolding web_inv_def prod.case x using cs(2-6) ds t(2)
      by (intro exI [of _ ds] exI [of _ new] exI [of _ h2]) (simp add: add_ac)
  next
    fix m q k
    assume t: "tx_queue w = Some (Some m # q)" "w' = dropped k (w\<lparr>tx_queue := Some q, works := works w @ [m]\<rparr>)"
    then obtain ds where ds: "cs = m # ds" "q = map Some ds" using cs(1) by auto
    then show ?thesis unfolding web_inv_def prod.case x using cs(2-8) t(2)
      by (intro exI [of _ ds] exI [of _ new] exI [of _ h2]) (simp add: add_ac)
  qed
next
  case (w_work self clients w frames w' out h)
  obtain w1 out1 h1 where x: "x = (w1, out1, h1)" by (cases x)
  let ?from = "concat (works w1 @ cs1)"
  obtain cs new h2 where cs: "tx_queue w = Some (map Some cs)" "length cs \<le> TX_QUEUE_LEN lim" "tx_dropped w = of_nat (lost w)"
      "lost w1 \<le> lost w" "out = out1 @ new" "h = h1 @ h2" "subseq (got fd h2 @ concat (works w @ cs)) (?from @ new)"
      "lost w = lost w1 \<and> list_all (listens fd) h2 \<longrightarrow> got fd h2 @ concat (works w @ cs) = ?from @ new"
    using w_work(3) by (auto simp: web_inv_def x)
  obtain m ms k where t: "works w = m # ms" "w' = dropped k (w\<lparr>works := ms, sending_task := None\<rparr>)"
    by (rule work_cases [OF w_work(1)])
  note sent = work_sends [OF w_work(1) t(1) w_work(2), of fd]
  have "subseq (got fd h2 @ concat (ms @ cs)) (?from @ new)"
    using subseq_without [of "got fd h2" m "concat (ms @ cs)" "?from @ new"] cs(7) by (simp add: t(1))
  then show ?case unfolding web_inv_def prod.case x using cs t sent
    by (intro exI [of _ cs] exI [of _ new] exI [of _ "h2 @ [(clients, frames)]"]) (auto simp: add_ac)
qed

text \<open>A chunk that reaches the server's task while the list of its clients cannot be had goes to nobody, and
  the counter does not move.\<close>

lemma web_chunk_lost_uncounted:
  assumes "works w = m # ms"
  shows "broadcast_work lim self None w = Some ([], w\<lparr>works := ms, sending_task := None\<rparr>)"
  using assms by (simp add: broadcast_work_def)


section \<open>A start is undone, by a failure or by a stop\<close>

text \<open>What a state holds of the HTTP server.\<close>

definition http_part :: "web_t \<Rightarrow> nat option \<times> bool \<times> string \<times> string \<times> bool \<times> (nat \<times> string) list \<times> nat list" where
  "http_part w = (server w, owns_server w, page_uri w, ws_uri w, page_registered w, routes w, own_servers w)"

lemma http_part_tx [simp]:
  "http_part (w\<lparr>tx_queue := q\<rparr>) = http_part w" "http_part (w\<lparr>tx_task := t\<rparr>) = http_part w"
  "http_part (w\<lparr>tx_stopped := b\<rparr>) = http_part w" "http_part (w\<lparr>tx_dropped := n\<rparr>) = http_part w"
  "http_part (w\<lparr>lost := k\<rparr>) = http_part w" "http_part (w\<lparr>works := ms\<rparr>) = http_part w" "http_part (dropped k w) = http_part w"
  by (simp_all add: http_part_def dropped_def)

lemma http_part_hand_over [simp]: "http_part (hand_over lim accepted self [] m w) = http_part w"
  using hand_over_cases [of w self "[]" lim accepted m] by auto

lemma http_part_wind_down: "http_part (snd (wind_down lim ok i q w)) = http_part w"
  by (induction lim ok i q w rule: wind_down.induct) simp_all

lemma stop_broadcaster_clears:
  "http_part (stop_broadcaster lim ok w) = http_part w" "tx_queue (stop_broadcaster lim ok w) = None"
  "tx_task (stop_broadcaster lim ok w) = None" "tx_stopped (stop_broadcaster lim ok w) = False"
  using http_part_wind_down [of lim ok 0 "the (tx_queue w) @ [None]" w]
  by (simp_all add: stop_broadcaster_def split_beta)

definition idle :: "web_t \<Rightarrow> bool" where
  "idle w \<longleftrightarrow> server w = None \<and> \<not> owns_server w \<and> \<not> page_registered w \<and> tx_queue w = None \<and> \<not> tx_stopped w
     \<and> tx_task w = None"

text \<open>The handlers of a start, as they are registered, and the server it started.\<close>

definition handlers_up :: "(nat \<times> string) list \<Rightarrow> nat list \<Rightarrow> web_t \<Rightarrow> bool" where
  "handlers_up rs ss w \<longleftrightarrow> (\<exists>s. server w = Some s
     \<and> routes w = (if page_registered w then [(s, page_uri w)] else []) @ [(s, ws_uri w)] @ rs
     \<and> own_servers w = (if owns_server w then [s] else []) @ ss)"

lemma handlers_up_part: "http_part v = http_part w \<Longrightarrow> handlers_up rs ss v = handlers_up rs ss w"
  by (simp add: http_part_def handlers_up_def)

lemma taken_down:
  assumes "handlers_up rs ss w"
  shows "idle (stop_server (remove_handlers (stop_broadcaster lim ok w)))"
    "routes (stop_server (remove_handlers (stop_broadcaster lim ok w))) = rs"
    "own_servers (stop_server (remove_handlers (stop_broadcaster lim ok w))) = ss"
proof -
  define v where "v = stop_broadcaster lim ok w"
  have v: "handlers_up rs ss v" "tx_queue v = None" "tx_task v = None" "\<not> tx_stopped v"
    using stop_broadcaster_clears [of lim ok w] assms handlers_up_part [OF stop_broadcaster_clears(1) [of lim ok w]]
    by (simp_all add: v_def)
  obtain t where t: "server v = Some t" "own_servers v = (if owns_server v then [t] else []) @ ss"
      "routes v = (if page_registered v then [(t, page_uri v)] else []) @ [(t, ws_uri v)] @ rs"
    using v(1) unfolding handlers_up_def by blast
  have "idle (stop_server (remove_handlers v)) \<and> routes (stop_server (remove_handlers v)) = rs
      \<and> own_servers (stop_server (remove_handlers v)) = ss"
    by (cases "page_registered v"; cases "owns_server v")
      (simp_all add: stop_server_def remove_handlers_def unregister_uri_def idle_def t v(2-4))
  then show "idle (stop_server (remove_handlers (stop_broadcaster lim ok w)))"
    "routes (stop_server (remove_handlers (stop_broadcaster lim ok w))) = rs"
    "own_servers (stop_server (remove_handlers (stop_broadcaster lim ok w))) = ss"
    by (simp_all add: v_def)
qed

lemma start_broadcaster_cases:
  assumes "start_broadcaster lim env (w, d) = (e, w', d')" "tx_task w = None"
  obtains (up) t where "e = ESP_OK" "e_task env = Some t" "diag_sink_register (Some WEB_SINK) 0 d = (ESP_OK, d')"
      "w' = w\<lparr>tx_queue := Some [], tx_stopped := True, tx_dropped := 0, lost := 0, tx_task := Some t\<rparr>"
  | (failed) v where "e \<noteq> ESP_OK" "d' = d" "w' = fail_tx lim (e_work env) v" "http_part v = http_part w"
proof -
  obtain e1 d1 where reg: "diag_sink_register (Some WEB_SINK) 0 d = (e1, d1)" by fastforce
  have same: "e1 \<noteq> ESP_OK \<Longrightarrow> d1 = d" using reg by (auto simp: diag_sink_register_def split: if_splits)
  let ?q = "w\<lparr>tx_queue := (if e_queue env then Some [] else None), tx_stopped := e_sem env\<rparr>"
  let ?t = "?q\<lparr>tx_dropped := 0, lost := 0, tx_task := e_task env\<rparr>"
  consider "\<not> (e_queue env \<and> e_sem env)" | "e_queue env" "e_sem env" "e_task env = None"
    | "e_queue env" "e_sem env" "e_task env \<noteq> None" "e1 \<noteq> ESP_OK"
    | "e_queue env" "e_sem env" "e_task env \<noteq> None" "e1 = ESP_OK" by blast
  then show ?thesis
  proof cases
    case 1
    then show ?thesis using assms(1) by (intro failed [of ?q]) (auto simp: start_broadcaster_def Let_def split: if_splits)
  next
    case 2
    then show ?thesis using assms(1) by (intro failed [of ?t]) (auto simp: start_broadcaster_def Let_def)
  next
    case 3
    then show ?thesis using assms(1) reg same by (intro failed [of ?t]) (auto simp: start_broadcaster_def Let_def)
  next
    case 4
    then show ?thesis using assms(1) reg up by (auto simp: start_broadcaster_def Let_def)
  qed
qed


lemma start_cases:
  assumes "cli_web_start lim env cfg (w, d) = (e, w', d')" "idle w"
  obtains (early) "e \<noteq> ESP_OK" "d' = d" "idle w'" "routes w' = routes w" "own_servers w' = own_servers w"
  | (late) v where "handlers_up (routes w) (own_servers w) v" "works v = works w" "sending_task v = sending_task w"
      "tx_task v = None" "start_broadcaster lim env (v, d) = (e, w', d')"
proof -
  define c where "c = (case cfg of Some c \<Rightarrow> c
      | None \<Rightarrow> \<lparr>c_server = None, c_page_uri = None, c_ws_uri = None, c_serve_page = True\<rparr>)"
  define w1 where "w1 = w\<lparr>page_uri := (case c_page_uri c of Some u \<Rightarrow> u | None \<Rightarrow> ''/''),
      ws_uri := (case c_ws_uri c of Some u \<Rightarrow> u | None \<Rightarrow> ''/ws'')\<rparr>"
  obtain e2 s2 where start: "e_start env = (e2, s2)" by fastforce
  define no where "no \<longleftrightarrow> c_server c = None \<and> e2 \<noteq> ESP_OK"
  define w2 where "w2 = (case c_server c of Some s \<Rightarrow> w1\<lparr>server := Some s, owns_server := False\<rparr>
      | None \<Rightarrow> w1\<lparr>server := Some s2, owns_server := True, own_servers := s2 # own_servers w1\<rparr>)"
  have idle1: "idle w1" "routes w1 = routes w" "own_servers w1 = own_servers w" "works w1 = works w" "sending_task w1 = sending_task w"
    using assms(2) by (simp_all add: w1_def idle_def)
  have up: "\<exists>s. server w2 = Some s \<and> routes w2 = routes w \<and> own_servers w2 = (if owns_server w2 then [s] else []) @ own_servers w
      \<and> \<not> page_registered w2 \<and> tx_queue w2 = None \<and> \<not> tx_stopped w2 \<and> tx_task w2 = None \<and> works w2 = works w
      \<and> sending_task w2 = sending_task w"
    using idle1 by (auto simp: w2_def idle_def split: option.splits)
  then obtain s where s: "server w2 = Some s" "routes w2 = routes w"
      "own_servers w2 = (if owns_server w2 then [s] else []) @ own_servers w" "\<not> page_registered w2" "tx_queue w2 = None"
      "\<not> tx_stopped w2" "tx_task w2 = None" "works w2 = works w" "sending_task w2 = sending_task w" by blast
  let ?ws = "w2\<lparr>routes := (s, ws_uri w2) # routes w2\<rparr>"
  let ?page = "?ws\<lparr>routes := (s, page_uri w2) # (s, ws_uri w2) # routes w2, page_registered := True\<rparr>"
  have run: "(e, w', d') =
      (if no then (e2, w1\<lparr>server := None\<rparr>, d)
       else if e_ws env \<noteq> ESP_OK then (e_ws env, stop_server w2, d)
       else if \<not> c_serve_page c then start_broadcaster lim env (?ws, d)
       else if e_page env \<noteq> ESP_OK then (e_page env, stop_server (unregister_uri (ws_uri w2) ?ws), d)
       else start_broadcaster lim env (?page, d))"
    using assms(2) s(1) start unfolding assms(1) [symmetric]
    by (simp add: cli_web_start_def idle_def register_uri_def Let_def split_beta w2_def w1_def no_def
        flip: c_def split: option.splits if_splits)
  have down: "idle (stop_server w2)" "routes (stop_server w2) = routes w" "own_servers (stop_server w2) = own_servers w"
    using s by (auto simp: stop_server_def idle_def Let_def)
  have page: "stop_server (unregister_uri (ws_uri w2) ?ws) = stop_server w2"
  proof -
    have "w2\<lparr>routes := routes w2\<rparr> = w2" by (cases w2) simp
    then show ?thesis using s(1) by (simp add: unregister_uri_def)
  qed
  consider "no"
    | "\<not> no" "e_ws env \<noteq> ESP_OK"
    | "\<not> no" "e_ws env = ESP_OK" "\<not> c_serve_page c"
    | "\<not> no" "e_ws env = ESP_OK" "c_serve_page c" "e_page env \<noteq> ESP_OK"
    | "\<not> no" "e_ws env = ESP_OK" "c_serve_page c" "e_page env = ESP_OK" by blast
  then show ?thesis
  proof cases
    case 1
    then show ?thesis using run idle1 by (intro early) (simp_all add: idle_def no_def)
  next
    case 2
    then show ?thesis using run down by (intro early) simp_all
  next
    case 3
    then show ?thesis using run s by (intro late [of ?ws]) (simp_all add: handlers_up_def)
  next
    case 4
    then show ?thesis using run down page by (intro early) simp_all
  next
    case 5
    then show ?thesis using run s by (intro late [of ?page]) (simp_all add: handlers_up_def)
  qed
qed


text \<open>C29. A browser that stays connected gets the output in order, with holes only where the counter says so.
  Take any moment after a successful start, and what follows it: whatever lines any tasks write, in
  any interleaving with the tasks that deliver, with any allocation or hand-over failing and
  logging. What the frames sent to a socket since carried, with what is still on its way after them, is what
  was on its way at that moment and has been written since, in this order, with parts missing but never
  doubled, swapped or made up. If the counter has not moved since, and each time a chunk was broadcast the
  socket was in the list of clients, a websocket, and the send to it succeeded, nothing is missing, to
  the last character. The queue never exceeds its length. (A chunk is lost without being counted when the
  list of clients cannot be had; a socket that fails a send misses that chunk.)\<close>

theorem web_output_in_order:
  assumes "cli_web_start lim env cfg (w, d) = (ESP_OK, w0, d0)" "idle w" "works w = []"
    and "(web_step lim)\<^sup>*\<^sup>* (w0, [], []) (w1, out1, h1)" "(web_step lim)\<^sup>*\<^sup>* (w1, out1, h1) (w2, out2, h2)"
  shows "\<exists>cs1 cs2 new h. tx_queue w1 = Some (map Some cs1) \<and> tx_queue w2 = Some (map Some cs2)
    \<and> length cs2 \<le> TX_QUEUE_LEN lim \<and> cli_web_dropped w2 = of_nat (lost w2) \<and> lost w1 \<le> lost w2
    \<and> out2 = out1 @ new \<and> h2 = h1 @ h
    \<and> (let due = concat (works w1 @ cs1) @ new; gets = got fd h @ concat (works w2 @ cs2) in
       subseq gets due \<and> (lost w2 = lost w1 \<and> list_all (listens fd) h \<longrightarrow> gets = due))"
proof -
  have "tx_queue w0 = Some [] \<and> works w0 = [] \<and> tx_dropped w0 = 0 \<and> lost w0 = 0"
  proof (rule start_cases [OF assms(1,2)])
    fix v
    assume v: "works v = works w" "tx_task v = None" "start_broadcaster lim env (v, d) = (ESP_OK, w0, d0)"
    then show ?thesis using assms(3) by (cases rule: start_broadcaster_cases [OF v(3,2)]) auto
  qed simp
  then have "web_inv lim fd (w0, [], []) [] (w0, [], [])" by (simp add: web_inv_def)
  then have "web_inv lim fd (w0, [], []) [] (w1, out1, h1)"
    using steps_keep [OF assms(4), of "web_inv lim fd (w0, [], []) []"] web_step_keeps by blast
  then obtain cs1 where cs1: "tx_queue w1 = Some (map Some cs1)" "length cs1 \<le> TX_QUEUE_LEN lim" "tx_dropped w1 = of_nat (lost w1)"
    by (auto simp: web_inv_def)
  then have "web_inv lim fd (w1, out1, h1) cs1 (w1, out1, h1)" by (simp add: web_inv_def)
  then have "web_inv lim fd (w1, out1, h1) cs1 (w2, out2, h2)"
    using steps_keep [OF assms(5), of "web_inv lim fd (w1, out1, h1) cs1"] web_step_keeps by blast
  then show ?thesis using cs1(1) by (fastforce simp: web_inv_def cli_web_dropped_def Let_def)
qed

text \<open>A console on the device's own server, and a line longer than a chunk.\<close>

definition web_cold :: web_t where
  "web_cold = \<lparr>server = None, owns_server = False, page_uri = [], ws_uri = [], page_registered = False,
     tx_queue = None, tx_stopped = False, tx_task = None, tx_dropped = 0, sending_task = None,
     works = [], routes = [], own_servers = [], lost = 0\<rparr>"

definition web_good :: web_env where
  "web_good = \<lparr>e_start = (ESP_OK, 3), e_ws = ESP_OK, e_page = ESP_OK, e_queue = True, e_sem = True,
     e_task = Some 7, e_work = (\<lambda>i. True)\<rparr>"

definition web_diag :: diag_t where
  "web_diag = \<lparr>MAX_SINKS = 2, FORMAT_BUF_SIZE = 64, sinks = [\<lparr>s_fn = 0, s_ctx = 0\<rparr>, \<lparr>s_fn = 0, s_ctx = 0\<rparr>],
     sink_count = 0, output_mutex = True, esp_log_captured = False\<rparr>"

lemma web_bench:
  "idle web_cold" "works web_cold = []" "diag_ok web_diag" "output_mutex web_diag"
  "\<exists>w1 d1. cli_web_start web_small web_good None (web_cold, web_diag) = (ESP_OK, w1, d1) \<and> tx_queue w1 = Some []
     \<and> tx_task w1 = Some 7 \<and> sending_task w1 = None \<and> lost w1 = 0"
  by (simp_all add: web_cold_def idle_def web_diag_def diag_ok_def cli_web_start_def web_good_def register_uri_def
      start_broadcaster_def diag_sink_register_def)

theorem web_output_in_order_witness:
  "\<exists>w1 d1 w2 h. cli_web_start web_small web_good None (web_cold, web_diag) = (ESP_OK, w1, d1)
     \<and> (web_step web_small)\<^sup>*\<^sup>* (w1, [], []) (w2, ''hey'', h) \<and> got 9 h = ''hey'' \<and> lost w2 = 0"
proof -
  obtain w1 d1 where w1: "cli_web_start web_small web_good None (web_cold, web_diag) = (ESP_OK, w1, d1)"
      "tx_queue w1 = Some []" "tx_task w1 = Some 7" "sending_task w1 = None" "lost w1 = 0"
    using web_bench(5) by blast
  have w1': "works w1 = []" "server w1 = Some 3"
    using w1(1) by (auto simp: web_cold_def cli_web_start_def web_good_def register_uri_def start_broadcaster_def
        web_diag_def diag_sink_register_def)
  let ?w2 = "w1\<lparr>tx_queue := Some [Some ''hey'']\<rparr>" and ?w3 = "w1\<lparr>tx_queue := Some [], works := [''hey'']\<rparr>"
  let ?cs = "[(8, False, True, []), (9, True, True, [])]"
  let ?h = "[(Some ?cs, [(9, ''hey'', True)])]"
  have "output_sink web_small (\<lambda>i. True) 5 ''hey'' w1 = ?w2"
    using w1 by (simp add: output_sink_def send_chunks.simps queue_send_def web_small_def)
  then have 1: "web_step web_small (w1, [], []) (?w2, ''hey'', [])"
    using w_line [of web_small w1 "[]" "[]" "\<lambda>i. True" 5 "''hey''"] by simp
  have "broadcaster_turn web_small True 7 [] ?w2 = Some ?w3"
    using w1' by (simp add: broadcaster_turn_def hand_over_def log_lines_def)
  then have 2: "web_step web_small (?w2, ''hey'', []) (?w3, ''hey'', [])" using w1(3) by (intro w_turn) simp_all
  have "broadcast_work web_small 4 (Some ?cs) ?w3 = Some ([(9, ''hey'', True)], w1\<lparr>tx_queue := Some [], works := [], sending_task := None\<rparr>)"
    by (simp add: broadcast_work_def log_lines_def)
  moreover have "w1\<lparr>tx_queue := Some [], works := [], sending_task := None\<rparr> = w1" using w1(2,4) w1'(1) by simp
  ultimately have 3: "web_step web_small (?w3, ''hey'', []) (w1, ''hey'', ?h)"
    using w_work [of web_small 4 "Some ?cs" ?w3 "[(9, ''hey'', True)]" w1 "''hey''" "[]"] by simp
  have run: "(web_step web_small)\<^sup>*\<^sup>* (w1, [], []) (w1, ''hey'', ?h)" using 1 2 3 by (meson converse_rtranclp_into_rtranclp rtranclp.rtrancl_refl)
  have "got 9 ?h = ''hey''"
    using web_output_in_order [OF w1(1) web_bench(1,2) rtranclp.rtrancl_refl run, of 9] w1(2) w1'(1)
    by (auto simp: Let_def listens_def)
  then show ?thesis using w1 run by blast
qed

text \<open>C31. Starting the web console is all or nothing, and stopping it undoes it. On a console that is not
  started, \<open>cli_web_start\<close> either fails, whatever it is that failed, and then no handler, no
  server of its own, no queue, task or semaphore and no sink is left behind; or it succeeds with its
  handlers registered, one sink more and an empty queue. In that case \<open>cli_web_stop\<close>,
  whatever was queued in the meantime and whatever the server accepts of it, takes all of that away again.\<close>

theorem web_start_all_or_nothing:
  assumes "idle w" "diag_ok d" "output_mutex d" "cli_web_start lim env cfg (w, d) = (e, w1, d1)"
    and "http_part w2 = http_part w1" "cli_web_stop lim ok (w2, d1) = (e', w3, d3)"
  shows "if e = ESP_OK
    then handlers_up (routes w) (own_servers w) w1 \<and> tx_queue w1 = Some [] \<and> tx_task w1 \<noteq> None
      \<and> mset (live d1) = add_mset \<lparr>s_fn = WEB_SINK, s_ctx = 0\<rparr> (mset (live d))
      \<and> e' = ESP_OK \<and> idle w3 \<and> routes w3 = routes w \<and> own_servers w3 = own_servers w \<and> mset (live d3) = mset (live d)
    else idle w1 \<and> routes w1 = routes w \<and> own_servers w1 = own_servers w \<and> d1 = d"
proof (rule start_cases [OF assms(4,1)])
  fix v
  assume v: "handlers_up (routes w) (own_servers w) v" "tx_task v = None" "start_broadcaster lim env (v, d) = (e, w1, d1)"
  from v(3,2) show ?thesis
  proof (cases rule: start_broadcaster_cases)
    case (up t)
    then have "http_part w1 = http_part v" by simp
    then have h: "handlers_up (routes w) (own_servers w) w1" "handlers_up (routes w) (own_servers w) w2"
      using v(1) assms(5) handlers_up_part by metis+
    have "mset (live d1) = add_mset \<lparr>s_fn = WEB_SINK, s_ctx = 0\<rparr> (mset (live d))" "diag_ok d1"
      using diag_table_is_multiset [OF assms(2,3), of WEB_SINK 0] up(3) by (auto split: if_splits)
    moreover have "output_mutex d1" using up(3) assms(3) by (auto simp: diag_sink_register_def split: if_splits)
    moreover have "mset (live (snd (diag_sink_unregister (Some WEB_SINK) 0 d1))) = mset (live d)"
      using diag_table_is_multiset [OF calculation(2,3), of WEB_SINK 0] calculation(1)
      by (auto simp: split_beta Let_def split: if_splits)
    moreover have "server w2 \<noteq> None" using h(2) by (auto simp: handlers_up_def)
    ultimately show ?thesis
      using up h taken_down [OF h(2), of lim ok] assms(6) by (auto simp: cli_web_stop_def split_beta Let_def)
  next
    case (failed u)
    then show ?thesis
      using taken_down [of "routes w" "own_servers w" u lim "e_work env"] v(1) handlers_up_part [of u v]
      by (simp add: fail_tx_def)
  qed
qed simp


theorem web_start_all_or_nothing_witness:
  "\<exists>w1 d1 w3 d3. cli_web_start web_small web_good None (web_cold, web_diag) = (ESP_OK, w1, d1)
     \<and> cli_web_stop web_small (\<lambda>i. False) (w1, d1) = (ESP_OK, w3, d3) \<and> idle w3 \<and> live d3 = []"
proof -
  obtain w1 d1 where w1: "cli_web_start web_small web_good None (web_cold, web_diag) = (ESP_OK, w1, d1)"
    using web_bench(5) by blast
  obtain e' w3 d3 where w3: "cli_web_stop web_small (\<lambda>i. False) (w1, d1) = (e', w3, d3)" by (metis surj_pair)
  have "live web_diag = []" by (simp add: live_def web_diag_def)
  then show ?thesis
    using web_start_all_or_nothing [OF web_bench(1,3,4) w1 refl w3] w1 w3 by auto
qed

end
