(* ===== verification/Error_Capture.thy ===== *)
theory Error_Capture
  imports Prelude
begin

text \<open>
  The capture of parse errors, \<open>js2c/src/js2c_error_capture.c\<close>: the first error of a parse is kept in
  a buffer, with the bytes of the client's document that it quotes made harmless for a page of HTML. The
  message formatted by \<open>vsnprintf\<close> is a parameter.
\<close>

section \<open>Formatting\<close>

fun dec_nat :: "nat \<Rightarrow> string" where
  "dec_nat n = (if n < 10 then [char_of (48 + n)] else dec_nat (n div 10) @ [char_of (48 + n mod 10)])"

declare dec_nat.simps [simp del]

text \<open>\<open>%d\<close> and \<open>%i\<close>\<close>

definition dec_int :: "int \<Rightarrow> string" where
  "dec_int i = (if i < 0 then ''-'' @ dec_nat (nat (- i)) else dec_nat (nat i))"

section \<open>State\<close>

definition JS2C_ERROR_CAPTURE_SIZE :: nat where "JS2C_ERROR_CAPTURE_SIZE = 192"

record capture_t =
  s_err :: string
  s_have_err :: bool

definition js2c_error_capture_reset :: "capture_t \<Rightarrow> capture_t" where
  "js2c_error_capture_reset s = s\<lparr>s_err := [], s_have_err := False\<rparr>"

definition js2c_error_capture_get :: "capture_t \<Rightarrow> string" where
  "js2c_error_capture_get s = s_err s"

section \<open>Escaping\<close>

definition entity :: "char \<Rightarrow> string option" where
  "entity c =
    (if c = CHR ''<'' then Some ''&lt;'' else if c = CHR ''>'' then Some ''&gt;''
     else if c = CHR ''&'' then Some ''&amp;'' else if c = CHR 0x22 then Some ''&quot;'' else None)"

text \<open>The loop, with \<open>out\<close> written so far.\<close>

fun escape_from :: "nat \<Rightarrow> string \<Rightarrow> string \<Rightarrow> string" where
  "escape_from out_size [] out = out"
| "escape_from out_size (c # r) out =
    (case entity c of
       Some rep \<Rightarrow> if length out + length rep \<ge> out_size then out else escape_from out_size r (out @ rep)
     | None \<Rightarrow>
         if length out + 1 \<ge> out_size then out
         else escape_from out_size r
           (out @ [if 0x20 \<le> (of_char c :: nat) \<and> (of_char c :: nat) < 0x7F then c else CHR '' '']))"

definition escape_html :: "string \<Rightarrow> nat \<Rightarrow> string" where
  "escape_html s out_size = escape_from out_size s []"

section \<open>Recording\<close>

text \<open>The text that is escaped: as much of the message as fits, and its position if there is room.
  \<open>message\<close> is what \<open>vsnprintf\<close> makes of the format and its arguments.\<close>

definition raw_text :: "int \<Rightarrow> string \<Rightarrow> string" where
  "raw_text position message =
    (let raw = snd (snprintf JS2C_ERROR_CAPTURE_SIZE message); len = length raw in
     if position \<ge> 0 \<and> len + 1 < JS2C_ERROR_CAPTURE_SIZE
     then raw @ snd (snprintf (JS2C_ERROR_CAPTURE_SIZE - len) ('' (at byte '' @ dec_int position @ '')''))
     else raw)"

text \<open>The message is None if \<open>vsnprintf\<close> fails.\<close>

definition js2c_error_capture_record :: "int \<Rightarrow> string option \<Rightarrow> capture_t \<Rightarrow> capture_t" where
  "js2c_error_capture_record position message s =
    (if s_have_err s then s
     else
       let s = s\<lparr>s_have_err := True\<rparr> in
       case message of None \<Rightarrow> s\<lparr>s_err := []\<rparr>
       | Some m \<Rightarrow> s\<lparr>s_err := escape_html (raw_text position m) JS2C_ERROR_CAPTURE_SIZE\<rparr>)"

section \<open>What comes out is text\<close>

text \<open>A character on its own, and the characters that are neither markup nor control characters.\<close>

definition escaped :: "char \<Rightarrow> string" where
  "escaped c =
    (case entity c of Some rep \<Rightarrow> rep
     | None \<Rightarrow> [if 0x20 \<le> (of_char c :: nat) \<and> (of_char c :: nat) < 0x7F then c else CHR '' ''])"

definition harmless :: "char \<Rightarrow> bool" where
  "harmless c \<longleftrightarrow> c \<notin> {CHR ''<'', CHR ''>'', CHR 0x22} \<and> 0x20 \<le> (of_char c :: nat) \<and> (of_char c :: nat) < 0x7F"

lemma escaped_harmless: "list_all harmless (escaped c)"
  by (auto simp: escaped_def entity_def harmless_def split: if_splits)

lemma escaped_all_harmless: "list_all harmless (concat (map escaped s))"
  by (induction s) (simp_all add: escaped_harmless)

lemma escape_from_step:
  "escape_from n (c # r) out =
    (if length out + length (escaped c) \<ge> n then out else escape_from n r (out @ escaped c))"
  by (simp add: escaped_def split: option.splits)

text \<open>The result is the longest beginning whose escape fits, with every character whole.\<close>

lemma escape_from_prefix:
  assumes "length out < n"
  shows "\<exists>k. escape_from n s out = out @ concat (map escaped (take k s)) \<and> length (escape_from n s out) < n
    \<and> (k = length s \<or> k < length s \<and> n \<le> length out + length (concat (map escaped (take (Suc k) s))))"
  using assms
proof (induction s arbitrary: out)
  case (Cons c r)
  show ?case
  proof (cases "length out + length (escaped c) \<ge> n")
    case True
    then show ?thesis using Cons.prems
      by (intro exI [of _ 0]) (simp add: escape_from_step del: escape_from.simps(2))
  next
    case False
    then have "length (out @ escaped c) < n" by simp
    from Cons.IH [OF this] obtain k where k: "escape_from n r (out @ escaped c) = (out @ escaped c) @ concat (map escaped (take k r))"
        "length (escape_from n r (out @ escaped c)) < n"
        "k = length r \<or> k < length r \<and> n \<le> length (out @ escaped c) + length (concat (map escaped (take (Suc k) r)))"
      by blast
    then show ?thesis using False
      by (intro exI [of _ "Suc k"]) (auto simp: escape_from_step simp del: escape_from.simps(2))
  qed
qed simp

text \<open>The buffer holds the beginning of the whole report, and a report longer than the buffer is longer still
  once it is escaped.\<close>

definition report :: "int \<Rightarrow> string \<Rightarrow> string" where
  "report position message = message @ (if 0 \<le> position then '' (at byte '' @ dec_int position @ '')'' else [])"

lemma raw_text_is_report: "raw_text position message = take (JS2C_ERROR_CAPTURE_SIZE - 1) (report position message)"
  by (auto simp: raw_text_def report_def snprintf_def Let_def JS2C_ERROR_CAPTURE_SIZE_def min_def)

lemma length_escaped: "length s \<le> length (concat (map escaped s))"
proof (induction s)
  case (Cons c s)
  have "1 \<le> length (escaped c)" by (auto simp: escaped_def entity_def)
  then show ?case using Cons by simp
qed simp

lemma captured_text:
  "\<exists>k. escape_html (raw_text position message) JS2C_ERROR_CAPTURE_SIZE = concat (map escaped (take k (report position message)))
    \<and> length (concat (map escaped (take k (report position message)))) < JS2C_ERROR_CAPTURE_SIZE
    \<and> (k = length (report position message)
       \<or> JS2C_ERROR_CAPTURE_SIZE \<le> length (concat (map escaped (take (Suc k) (report position message)))))"
proof -
  let ?N = "JS2C_ERROR_CAPTURE_SIZE" and ?full = "report position message" and ?raw = "raw_text position message"
  have N: "?N = Suc (?N - 1)" by (simp add: JS2C_ERROR_CAPTURE_SIZE_def)
  have "length [] < ?N" by (simp add: JS2C_ERROR_CAPTURE_SIZE_def)
  from escape_from_prefix [OF this, of ?raw]
  obtain k where k: "escape_html ?raw ?N = concat (map escaped (take k ?raw))" "length (escape_html ?raw ?N) < ?N"
      "k = length ?raw \<or> k < length ?raw \<and> ?N \<le> length (concat (map escaped (take (Suc k) ?raw)))"
    unfolding escape_html_def append_Nil list.size(3) add_0_left by blast
  have same: "take j ?raw = take j ?full" if "j \<le> length ?raw" for j
    using that by (auto simp: raw_text_is_report min_def split: if_splits)
  have at: "k \<le> length ?raw" using k(3) by auto
  have "k = length ?full \<or> ?N \<le> length (concat (map escaped (take (Suc k) ?full)))"
  proof (cases "k = length ?raw")
    case True
    show ?thesis
    proof (cases "length ?full < ?N")
      case True
      then show ?thesis using \<open>k = length ?raw\<close> N by (simp add: raw_text_is_report)
    next
      case False
      then have "length (take (Suc k) ?full) = ?N" using True N by (simp add: raw_text_is_report)
      then show ?thesis using length_escaped [of "take (Suc k) ?full"] by linarith
    qed
  next
    case False
    then show ?thesis using k(3) same [of "Suc k"] by auto
  qed
  then show ?thesis using k(1,2) same [OF at] by auto
qed

text \<open>C40. An error message quotes the client and cannot harm the page it is shown on. Let the whole report be
  the message, and, if there is a position, the words "(at byte n)" with it in decimal after a space. Whatever
  a client sent and the parser quotes of it, the text captured fits the buffer with its terminating zero,
  has no character of markup and no control character, and is the whole report, character by
  character escaped: all of it, or the longest beginning that fits, never cut inside an escape. If the
  message cannot be formatted the text is empty. Later errors of the same parse do not change it.\<close>

theorem error_text_is_harmless:
  "let s1 = js2c_error_capture_record position message (js2c_error_capture_reset s); out = js2c_error_capture_get s1 in
     (case message of None \<Rightarrow> out = []
      | Some m \<Rightarrow>
          let full = m @ (if 0 \<le> position then '' (at byte '' @ dec_int position @ '')'' else []) in
          length out < 192 \<and> list_all harmless out
          \<and> (\<exists>k. out = concat (map escaped (take k full))
               \<and> (k = length full \<or> 192 \<le> length (concat (map escaped (take (Suc k) full))))))
     \<and> js2c_error_capture_record position2 message2 s1 = s1"
proof (cases message)
  case None
  then show ?thesis by (simp add: js2c_error_capture_get_def js2c_error_capture_record_def js2c_error_capture_reset_def)
next
  case (Some m)
  obtain k where k: "escape_html (raw_text position m) JS2C_ERROR_CAPTURE_SIZE = concat (map escaped (take k (report position m)))"
      "length (concat (map escaped (take k (report position m)))) < JS2C_ERROR_CAPTURE_SIZE"
      "k = length (report position m)
       \<or> JS2C_ERROR_CAPTURE_SIZE \<le> length (concat (map escaped (take (Suc k) (report position m))))"
    using captured_text [of position m] by blast
  have out: "js2c_error_capture_get (js2c_error_capture_record position (Some m) (js2c_error_capture_reset s))
      = concat (map escaped (take k (report position m)))"
    by (simp add: js2c_error_capture_get_def js2c_error_capture_record_def js2c_error_capture_reset_def k(1))
  have first: "js2c_error_capture_record position2 message2 (js2c_error_capture_record position (Some m) (js2c_error_capture_reset s))
      = js2c_error_capture_record position (Some m) (js2c_error_capture_reset s)"
    by (simp add: js2c_error_capture_record_def js2c_error_capture_reset_def)
  show ?thesis
    unfolding Let_def Some option.case out first
    using k(2,3) escaped_all_harmless [of "take k (report position m)"]
    unfolding report_def JS2C_ERROR_CAPTURE_SIZE_def by blast
qed

end
