(* ===== verification/Cli_Reader.thy ===== *)
theory Cli_Reader
  imports Cli_Repl
begin

text \<open>
  The serial reader of \<open>cli/src/cli_repl.c\<close>: it greets whoever attaches a terminal, reads a line at a time
  and waits for it to have run. The terminal (\<open>linenoise\<close> and the transport) is a parameter: whether a host is
  there, whether it answers the probe, and what it types.
\<close>

section \<open>State\<close>

text \<open>\<open>waits_for\<close>: the submit the reader is blocked in.\<close>

record reader_t =
  greeted :: bool
  dumb_mode :: bool
  line_history :: "string list"
  waits_for :: "nat option"
  open_lines :: nat

definition print_banner :: "string \<Rightarrow> string \<Rightarrow> ('q, 'w) repl_t \<Rightarrow> ('q, 'w) repl_t" where
  "print_banner target io_name r = r\<lparr>shown := shown r @
     [printf ''\<newline>'',
      (case banner_text r of Some b \<Rightarrow> printf (b @ ''\<newline>'')
       | None \<Rightarrow> printf (target @ '' shell (console: '' @ io_name @ '')\<newline>'')),
      printf (''Type 'help' to list command groups, or a group name to list '' @ ''its commands.\<newline>\<newline>'')]\<rparr>"

text \<open>\<open>probe\<close>: the terminal answers an escape sequence.\<close>

definition greet_terminal ::
    "string \<Rightarrow> string \<Rightarrow> bool \<Rightarrow> reader_t \<times> ('q, 'w) repl_t \<Rightarrow> reader_t \<times> ('q, 'w) repl_t" where
  "greet_terminal target io_name probe x =
    (case x of (t, r) \<Rightarrow>
       let t = t\<lparr>dumb_mode := \<not> probe\<rparr>; r = print_banner target io_name r in
       (t, if dumb_mode t
           then r\<lparr>shown := shown r @ [printf (''Terminal does not support escape sequences; ''
                  @ ''line editing, history and completion are disabled.\<newline>\<newline>'')]\<rparr>
           else r))"

section \<open>A turn of the task\<close>

text \<open>\<open>typed\<close>: what \<open>linenoise\<close> returns, None if it returns NULL. A line it returned is open until
  it is freed.\<close>

definition reader_turn ::
    "'q queue_ops \<Rightarrow> string \<Rightarrow> string \<Rightarrow> bool \<Rightarrow> bool \<Rightarrow> cptr \<Rightarrow> bool \<Rightarrow> bool
       \<Rightarrow> reader_t \<times> ('q, 'w) repl_t \<Rightarrow> reader_t \<times> ('q, 'w) repl_t" where
  "reader_turn Q target io_name connected probe typed dup sem x =
    (case x of (t, r) \<Rightarrow>
       if \<not> connected then (t\<lparr>greeted := False\<rparr>, r)
       else
         let (t, r) = (if \<not> greeted t
                       then let (t, r) = greet_terminal target io_name probe (t, r) in (t\<lparr>greeted := True\<rparr>, r)
                       else (t, r)) in
         case typed of None \<Rightarrow> (t, r)
         | Some [] \<Rightarrow> (t, r)
         | Some line \<Rightarrow>
             let t = t\<lparr>line_history := line_history t @ [line], open_lines := open_lines t + 1\<rparr>;
                 (res, r) = cli_submit Q dup sem (Some line) True r in
             case res of Returned v \<Rightarrow> (t\<lparr>open_lines := open_lines t - 1\<rparr>, r)
             | WaitsFor d \<Rightarrow> (t\<lparr>waits_for := Some d\<rparr>, r))"

text \<open>The submit returns once its semaphore has been given; then the line is freed.\<close>

definition reader_resume :: "reader_t \<times> ('q, 'w) repl_t \<Rightarrow> (reader_t \<times> ('q, 'w) repl_t) option" where
  "reader_resume x =
    (case x of (t, r) \<Rightarrow>
       case waits_for t of None \<Rightarrow> None
       | Some d \<Rightarrow> map_option (\<lambda>(v, r). (t\<lparr>waits_for := None, open_lines := open_lines t - 1\<rparr>, r)) (submit_resume d r))"


section \<open>The reader waits for its line\<close>

lemma greeting_keeps:
  "pending Q (snd (greet_terminal target io_name probe (t, r))) = pending Q r"
  "sems (snd (greet_terminal target io_name probe (t, r))) = sems r"
  "waits_for (fst (greet_terminal target io_name probe (t, r))) = waits_for t"
  "open_lines (fst (greet_terminal target io_name probe (t, r))) = open_lines t"
  by (simp_all add: greet_terminal_def print_banner_def pending_def Let_def)

text \<open>The turn before the line is read.\<close>

lemma reader_turn_split:
  obtains t0 r0 where "reader_turn Q target io_name True probe typed dup sem (t, r) =
      (case typed of None \<Rightarrow> (t0, r0) | Some [] \<Rightarrow> (t0, r0)
       | Some line \<Rightarrow>
           let t = t0\<lparr>line_history := line_history t0 @ [line], open_lines := open_lines t0 + 1\<rparr>;
               (res, r) = cli_submit Q dup sem (Some line) True r0 in
           case res of Returned v \<Rightarrow> (t\<lparr>open_lines := open_lines t - 1\<rparr>, r)
           | WaitsFor d \<Rightarrow> (t\<lparr>waits_for := Some d\<rparr>, r))"
    "pending Q r0 = pending Q r" "sems r0 = sems r" "waits_for t0 = waits_for t" "open_lines t0 = open_lines t"
proof (cases "greeted t")
  case True
  then show ?thesis by (intro that [of t r]) (simp_all add: reader_turn_def)
next
  case False
  obtain t1 r1 where g: "greet_terminal target io_name probe (t, r) = (t1, r1)" by fastforce
  show ?thesis
    using False g greeting_keeps(1) [of Q target io_name probe t r] greeting_keeps(2-4) [of target io_name probe t r]
    by (intro that [of "t1\<lparr>greeted := True\<rparr>" r1]) (simp_all add: reader_turn_def)
qed

text \<open>When a line is accepted the reader is blocked, its line is the last one queued, and it does not
  return before the executor has come to it; the line stays allocated until then and no longer.\<close>

lemma reader_blocks_until_run:
  assumes "fifo_queue Q" "reader_turn Q target io_name connected probe typed dup sem (t, r) = (t', r')"
    and "waits_for t = None" "waits_for t' = Some d"
  shows "\<exists>line. typed = Some line \<and> pending Q r' = pending Q r @ [\<lparr>i_line = line, i_done = Some d\<rparr>]
    \<and> reader_resume (t', r') = None \<and> open_lines t' = open_lines t + 1"
proof (cases connected)
  case True
  obtain t0 r0 where run: "reader_turn Q target io_name True probe typed dup sem (t, r) =
      (case typed of None \<Rightarrow> (t0, r0) | Some [] \<Rightarrow> (t0, r0)
       | Some line \<Rightarrow>
           let t = t0\<lparr>line_history := line_history t0 @ [line], open_lines := open_lines t0 + 1\<rparr>;
               (res, r) = cli_submit Q dup sem (Some line) True r0 in
           case res of Returned v \<Rightarrow> (t\<lparr>open_lines := open_lines t - 1\<rparr>, r)
           | WaitsFor d \<Rightarrow> (t\<lparr>waits_for := Some d\<rparr>, r))"
      and same: "pending Q r0 = pending Q r" "sems r0 = sems r" "waits_for t0 = waits_for t" "open_lines t0 = open_lines t"
    by (rule reader_turn_split)
  have "\<exists>c cs. typed = Some (c # cs)"
    using assms(2-4) run same(3) True by (auto split: option.splits list.splits)
  then obtain line where line: "typed = Some line" "line \<noteq> []" by blast
  obtain res r1 where sub: "cli_submit Q dup sem (Some line) True r0 = (res, r1)" by fastforce
  have "res = WaitsFor d \<and> r' = r1 \<and> t' = t0\<lparr>line_history := line_history t0 @ [line],
      open_lines := open_lines t0 + 1, waits_for := Some d\<rparr>"
    using assms(2-4) run same(3) True line sub
    by (auto simp: Let_def split: list.splits submit_result.splits)
  moreover have "d = next_sem r0" if "res = WaitsFor d"
    using sub that by (auto simp: cli_submit_def Let_def split: option.splits if_splits)
  ultimately show ?thesis
    using submit_accepted(1,4) [OF sub _ assms(1)] line(1) same(1,4)
    by (auto simp: reader_resume_def submit_resume_def)
next
  case False
  then show ?thesis using assms(2-4) by (auto simp: reader_turn_def)
qed

text \<open>It returns once the line has been run, and then nothing is left open.\<close>

lemma reader_returns_when_run:
  assumes "repl_inv Q split code s w0 (r, es)" "waits_for t = Some d" "sems r d \<noteq> None"
    and "Some d \<notin> set (map i_done (pending Q r))"
  shows "\<exists>r'. reader_resume (t, r) = Some (t\<lparr>waits_for := None, open_lines := open_lines t - 1\<rparr>, r')"
proof -
  have "sems r d \<noteq> Some False" using assms(1,4) unfolding repl_inv_def by blast
  then have "sems r d = Some True" using assms(3) by auto
  then show ?thesis by (simp add: reader_resume_def assms(2) submit_resume_def)
qed

end
