(* ===== verification/Token_Forest.thy ===== *)
theory Token_Forest
  imports Prelude
begin

text \<open>
  Trees written as the list of their numbers of children, parents first: what the sizes of the tokens of
  \<open>jsmn.h\<close> are, and what \<open>builtin_skip\<close> of \<open>js2c_builtins.h\<close> walks over. A list is well formed if a walk
  from any place in it comes to the end of the tree that begins there. A tree grows by a child of a node on
  its last branch.
\<close>

section \<open>Walking over trees\<close>

text \<open>What is left of the list behind \<open>k\<close> trees; None if it ends before.\<close>

fun settle :: "nat \<Rightarrow> nat list \<Rightarrow> nat list option" where
  "settle 0 xs = Some xs"
| "settle (Suc k) [] = None"
| "settle (Suc k) (s # xs) = settle (k + s) xs"

text \<open>The number of trees that are missing when the list ends before.\<close>

fun due :: "nat \<Rightarrow> nat list \<Rightarrow> nat" where
  "due 0 xs = 0"
| "due (Suc k) [] = Suc k"
| "due (Suc k) (s # xs) = due (k + s) xs"

lemma settle_append: "settle k (xs @ ys) =
    (case settle k xs of Some r \<Rightarrow> Some (r @ ys) | None \<Rightarrow> settle (due k xs) ys)"
  by (induction k xs rule: settle.induct) (simp_all split: option.splits)

lemma due_pos: "settle k xs = None \<Longrightarrow> 0 < due k xs"
  by (induction k xs rule: settle.induct) simp_all

lemma settle_add: "settle (j + k) xs = Option.bind (settle j xs) (settle k)"
proof (induction j xs rule: settle.induct)
  case (3 j s xs)
  then show ?case by (simp add: ac_simps)
qed simp_all

lemma settle_drop: "settle k xs = Some r \<Longrightarrow> r = drop (length xs - length r) xs \<and> length r \<le> length xs"
  by (induction k xs rule: settle.induct) (auto simp: Suc_diff_le)

lemma settle_shorter: "settle (Suc k) xs = Some r \<Longrightarrow> length r < length xs"
  by (cases xs) (auto dest: settle_drop)

section \<open>Well-formed lists and their last branch\<close>

definition forest :: "nat list \<Rightarrow> bool" where
  "forest sz \<longleftrightarrow> (\<forall>i < length sz. settle (Suc 0) (drop i sz) \<noteq> None)"

definition on_last_branch :: "nat list \<Rightarrow> nat \<Rightarrow> bool" where
  "on_last_branch sz i \<longleftrightarrow> i < length sz \<and> settle (Suc 0) (drop i sz) = Some []"

lemma forest_Nil [simp]: "forest []" by (simp add: forest_def)

text \<open>A new tree behind the others.\<close>

lemma forest_root: "forest sz \<Longrightarrow> forest (sz @ [0])"
  by (auto simp: forest_def settle_append less_Suc_eq split: option.splits)

lemma last_branch_new: "on_last_branch (sz @ [0]) (length sz)"
  by (simp add: on_last_branch_def)

lemma last_is_on_last_branch: "forest sz \<Longrightarrow> sz \<noteq> [] \<Longrightarrow> on_last_branch sz (length sz - 1)"
proof -
  assume f: "forest sz" and ne: "sz \<noteq> []"
  then obtain xs x where sz: "sz = xs @ [x]" by (metis rev_exhaust)
  have "settle (Suc 0) [x] \<noteq> None" using f unfolding sz forest_def by force
  then have "x = 0" by (cases x) simp_all
  then show ?thesis by (simp add: sz on_last_branch_def)
qed

text \<open>A new child of the node at \<open>p\<close>.\<close>

abbreviation grow :: "nat list \<Rightarrow> nat \<Rightarrow> nat list" where
  "grow sz p \<equiv> sz[p := Suc (sz ! p)] @ [0]"

lemma settle_grown:
  assumes "settle s b = Some []"
  shows "settle (Suc s) (b @ [0]) = Some []"
proof -
  have "settle (s + Suc 0) (b @ [0]) = Option.bind (settle s (b @ [0])) (settle (Suc 0))" by (rule settle_add)
  also have "\<dots> = Some []" using assms by (simp add: settle_append)
  finally show ?thesis by simp
qed

text \<open>A walk that passes \<open>p\<close> ends with it or goes on behind it, before and after.\<close>

lemma settle_through:
  assumes last: "settle s b = Some []" and old: "settle (Suc 0) (a @ s # b) = Some r"
  shows "settle (Suc 0) (a @ Suc s # b @ [0]) = Some (case settle (Suc 0) a of None \<Rightarrow> [] | Some r' \<Rightarrow> r' @ Suc s # b @ [0])
    \<and> (settle (Suc 0) a = None \<longleftrightarrow> r = []) \<and> (\<forall>r'. settle (Suc 0) a = Some r' \<longrightarrow> r = r' @ s # b)"
proof (cases "settle (Suc 0) a")
  case None
  then obtain d where d: "due (Suc 0) a = Suc d" using due_pos gr0_implies_Suc by blast
  have "settle (s + d) b = Some r" using old None d by (simp add: settle_append add.commute)
  then have "settle d [] = Some r" using last by (simp add: settle_add)
  then have "d = 0" "r = []" by (cases d; simp)+
  then show ?thesis using None d settle_grown [OF last] by (simp add: settle_append)
next
  case (Some r')
  then show ?thesis using old by (auto simp: settle_append)
qed

lemma split_at: "i \<le> p \<Longrightarrow> p < length sz \<Longrightarrow>
  drop i sz = take (p - i) (drop i sz) @ sz ! p # drop (Suc p) sz"
  using id_take_nth_drop [of "p - i" "drop i sz"] by simp

lemma grown_drop: "i \<le> p \<Longrightarrow> p < length sz \<Longrightarrow>
  drop i (grow sz p) = take (p - i) (drop i sz) @ Suc (sz ! p) # drop (Suc p) sz @ [0]"
proof -
  assume ip: "i \<le> p" and p: "p < length sz"
  have "drop i (grow sz p) = (drop i sz)[p - i := Suc (sz ! p)] @ [0]"
    using ip p by (simp add: drop_update_swap)
  also have "(drop i sz)[p - i := Suc (sz ! p)] = take (p - i) (drop i sz) @ Suc (sz ! p) # drop (Suc p) sz"
    using ip p by (simp add: upd_conv_take_nth_drop)
  finally show ?thesis by simp
qed

lemma grow_step:
  assumes "on_last_branch sz p" "i \<le> p" "settle (Suc 0) (drop i sz) = Some r"
  shows "\<exists>r'. settle (Suc 0) (drop i (grow sz p)) = Some r' \<and> (r = [] \<longrightarrow> r' = []) \<and> length r' \<le> Suc (length r)"
proof -
  have p: "p < length sz" and s: "settle (sz ! p) (drop (Suc p) sz) = Some []"
    using assms(1) by (auto simp: on_last_branch_def Cons_nth_drop_Suc [symmetric])
  show ?thesis
    using settle_through [OF s, of "take (p - i) (drop i sz)" r] assms(3)
    unfolding grown_drop [OF assms(2) p] split_at [OF assms(2) p, symmetric] by auto
qed

lemma forest_grow:
  assumes "forest sz" "on_last_branch sz p"
  shows "forest (grow sz p)"
  unfolding forest_def
proof (intro allI impI)
  fix i assume i: "i < length (grow sz p)"
  have p: "p < length sz" using assms(2) by (simp add: on_last_branch_def)
  consider "i \<le> p" | "p < i" "i < length sz" | "i = length sz" using i by force
  then show "settle (Suc 0) (drop i (grow sz p)) \<noteq> None"
  proof cases
    case 1
    then have "settle (Suc 0) (drop i sz) \<noteq> None" using assms(1) p by (simp add: forest_def)
    then obtain r where "settle (Suc 0) (drop i sz) = Some r" by blast
    then show ?thesis using grow_step [OF assms(2) 1] by auto
  next
    case 2
    then show ?thesis using assms(1) by (auto simp: forest_def settle_append split: option.splits)
  qed simp
qed

lemma last_branch_grow:
  assumes "on_last_branch sz p" "on_last_branch sz i" "i \<le> p"
  shows "on_last_branch (grow sz p) i"
  using grow_step [OF assms(1,3), of "[]"] assms(2) by (auto simp: on_last_branch_def)

lemma last_branch_grown: "p < length sz \<Longrightarrow> on_last_branch (grow sz p) (length sz)"
  using last_branch_new [of "sz[p := Suc (sz ! p)]"] by simp

text \<open>Where a walk from \<open>i\<close> ends. Growing never draws it nearer.\<close>

definition reach :: "nat list \<Rightarrow> nat \<Rightarrow> nat" where
  "reach sz i = length sz - length (the (settle (Suc 0) (drop i sz)))"

lemma reach_last: "on_last_branch sz i \<Longrightarrow> reach sz i = length sz"
  by (simp add: on_last_branch_def reach_def)

lemma settle_in_forest: "forest sz \<Longrightarrow> i < length sz \<Longrightarrow> \<exists>r. settle (Suc 0) (drop i sz) = Some r"
  unfolding forest_def by fastforce

lemma reach_root: "forest sz \<Longrightarrow> i < length sz \<Longrightarrow> reach (sz @ [0]) i = reach sz i"
  using settle_in_forest [of sz i] by (auto simp: reach_def settle_append)

lemma reach_grow:
  assumes "forest sz" "on_last_branch sz p" "i < length sz"
  shows "reach sz i \<le> reach (grow sz p) i"
proof -
  obtain r where r: "settle (Suc 0) (drop i sz) = Some r" using settle_in_forest [OF assms(1,3)] by blast
  show ?thesis
  proof (cases "i \<le> p")
    case True
    from grow_step [OF assms(2) this r] obtain r' where "settle (Suc 0) (drop i (grow sz p)) = Some r'" "length r' \<le> Suc (length r)"
      by blast
    then show ?thesis using r by (simp add: reach_def)
  next
    case False
    then have "settle (Suc 0) (drop i (grow sz p)) = Some (r @ [0])" using r assms(3) by (simp add: settle_append)
    then show ?thesis using r by (simp add: reach_def)
  qed
qed

end
