(* ===== verification/Jsmn.thy ===== *)
theory Jsmn
  imports Prelude "HOL-Library.Char_ord"
begin

text \<open>
  The tokenizer that every configuration document goes through, \<open>js2c/include/jsmn.h\<close>, as
  \<open>js2c_builtins.h\<close> compiles it: \<open>JSMN_STRICT\<close> is defined and \<open>JSMN_PARENT_LINKS\<close> is not. The text is
  the string that the pointer is at, of which the first \<open>len\<close> bytes belong to the document; the array of
  tokens is a list, or None for the NULL that asks for their number only. Positions are naturals: documents
  are shorter than 2 to the 31, so that every position is an \<open>int\<close>.
\<close>

section \<open>Data\<close>

datatype jsmntype_t = JSMN_UNDEFINED | JSMN_OBJECT | JSMN_ARRAY | JSMN_STRING | JSMN_PRIMITIVE

definition JSMN_ERROR_NOMEM :: int where "JSMN_ERROR_NOMEM = -1"
definition JSMN_ERROR_INVAL :: int where "JSMN_ERROR_INVAL = -2"
definition JSMN_ERROR_PART :: int where "JSMN_ERROR_PART = -3"

record jsmntok_t =
  tok_type :: jsmntype_t
  tok_start :: int
  tok_end :: int
  tok_size :: int

record jsmn_parser =
  pos :: nat
  toknext :: nat
  toksuper :: int

definition jsmn_init :: jsmn_parser where
  "jsmn_init = \<lparr>pos = 0, toknext = 0, toksuper = -1\<rparr>"

section \<open>Tokens\<close>

definition jsmn_alloc_token ::
  "jsmn_parser \<Rightarrow> jsmntok_t list \<Rightarrow> nat \<Rightarrow> (nat \<times> jsmn_parser \<times> jsmntok_t list) option" where
  "jsmn_alloc_token p toks num_tokens =
    (if toknext p \<ge> num_tokens then None
     else
       let i = toknext p in
       Some (i, p\<lparr>toknext := i + 1\<rparr>, toks[i := (toks ! i)\<lparr>tok_start := -1, tok_end := -1, tok_size := 0\<rparr>]))"

definition jsmn_fill_token :: "jsmntok_t \<Rightarrow> jsmntype_t \<Rightarrow> int \<Rightarrow> int \<Rightarrow> jsmntok_t" where
  "jsmn_fill_token t ty s e = t\<lparr>tok_type := ty, tok_start := s, tok_end := e, tok_size := 0\<rparr>"

text \<open>The token is open: it has a beginning and no end yet. The searches go from the last token down.\<close>

definition tok_open :: "jsmntok_t \<Rightarrow> bool" where
  "tok_open t \<longleftrightarrow> tok_start t \<noteq> -1 \<and> tok_end t = -1"

fun last_open :: "jsmntok_t list \<Rightarrow> nat \<Rightarrow> nat option" where
  "last_open toks 0 = None"
| "last_open toks (Suc i) = (if tok_open (toks ! i) then Some i else last_open toks i)"

definition is_container :: "jsmntype_t \<Rightarrow> bool" where
  "is_container ty \<longleftrightarrow> ty = JSMN_ARRAY \<or> ty = JSMN_OBJECT"

fun last_open_container :: "jsmntok_t list \<Rightarrow> nat \<Rightarrow> nat option" where
  "last_open_container toks 0 = None"
| "last_open_container toks (Suc i) =
    (if is_container (tok_type (toks ! i)) \<and> tok_open (toks ! i) then Some i else last_open_container toks i)"

definition super_of :: "nat option \<Rightarrow> int" where
  "super_of found = (case found of None \<Rightarrow> -1 | Some i \<Rightarrow> int i)"

section \<open>Primitives\<close>

definition NUL :: char where "NUL = CHR 0x00"

text \<open>What the loops over the text look at: there is another byte, and it is not zero.\<close>

definition has_byte :: "string \<Rightarrow> nat \<Rightarrow> nat \<Rightarrow> bool" where
  "has_byte js len q \<longleftrightarrow> q < len \<and> js ! q \<noteq> NUL"

definition is_ws :: "char \<Rightarrow> bool" where
  "is_ws c \<longleftrightarrow> c = CHR 0x09 \<or> c = CHR 0x0D \<or> c = CHR 0x0A \<or> c = CHR 0x20"

definition ends_primitive :: "char \<Rightarrow> bool" where
  "ends_primitive c \<longleftrightarrow> is_ws c \<or> c = CHR '','' \<or> c = CHR '']'' \<or> c = CHR ''}''"

datatype scan = Found nat | Invalid | Partial

function prim_scan :: "string \<Rightarrow> nat \<Rightarrow> nat \<Rightarrow> scan" where
  "prim_scan js len q =
    (if has_byte js len q then
       if ends_primitive (js ! q) then Found q
       else if (of_char (js ! q) :: nat) < 32 \<or> (of_char (js ! q) :: nat) \<ge> 127 then Invalid
       else prim_scan js len (Suc q)
     else Partial)"
  by pat_completeness auto
termination by (relation "measure (\<lambda>(js, len, q). len - q)") (auto simp: has_byte_def)

declare prim_scan.simps [simp del]

type_synonym jsmn_result = "int \<times> jsmn_parser \<times> jsmntok_t list option"

text \<open>The token that has been recognised, from \<open>s\<close> to \<open>e\<close>; \<open>start\<close> is where the parser goes back to
  if there is no room for it.\<close>

definition add_token ::
  "jsmn_parser \<Rightarrow> jsmntok_t list \<Rightarrow> nat \<Rightarrow> jsmntype_t \<Rightarrow> int \<Rightarrow> int \<Rightarrow> (jsmn_parser \<times> jsmntok_t list) option" where
  "add_token p toks num_tokens ty s e =
    (case jsmn_alloc_token p toks num_tokens of None \<Rightarrow> None
     | Some (i, p', toks') \<Rightarrow> Some (p', toks'[i := jsmn_fill_token (toks' ! i) ty s e]))"

definition jsmn_parse_primitive ::
  "jsmn_parser \<Rightarrow> string \<Rightarrow> nat \<Rightarrow> jsmntok_t list option \<Rightarrow> nat \<Rightarrow> jsmn_result" where
  "jsmn_parse_primitive p js len tokens num_tokens =
    (let start = pos p in
     case prim_scan js len start of
       Invalid \<Rightarrow> (JSMN_ERROR_INVAL, p, tokens)
     | Partial \<Rightarrow> (JSMN_ERROR_PART, p, tokens)
     | Found q \<Rightarrow>
         (case tokens of None \<Rightarrow> (0, p\<lparr>pos := q - 1\<rparr>, None)
          | Some toks \<Rightarrow>
              (case add_token p toks num_tokens JSMN_PRIMITIVE (int start) (int q) of
                 None \<Rightarrow> (JSMN_ERROR_NOMEM, p, tokens)
               | Some (p', toks') \<Rightarrow> (0, p'\<lparr>pos := q - 1\<rparr>, Some toks'))))"

section \<open>Strings\<close>

definition is_hex :: "char \<Rightarrow> bool" where
  "is_hex c \<longleftrightarrow> (let n = of_char c :: nat in 48 \<le> n \<and> n \<le> 57 \<or> 65 \<le> n \<and> n \<le> 70 \<or> 97 \<le> n \<and> n \<le> 102)"

definition simple_escape :: "char \<Rightarrow> bool" where
  "simple_escape c \<longleftrightarrow> c \<in> {CHR 0x22, CHR ''/'', CHR 0x5C, CHR ''b'', CHR ''f'', CHR ''r'', CHR ''n'', CHR ''t''}"

text \<open>The digits after \<open>\u\<close>: where they end, None if there is another character among them.\<close>

function hex_scan :: "string \<Rightarrow> nat \<Rightarrow> nat \<Rightarrow> nat \<Rightarrow> nat option" where
  "hex_scan js len i q =
    (if i < 4 \<and> has_byte js len q then
       if is_hex (js ! q) then hex_scan js len (Suc i) (Suc q) else None
     else Some q)"
  by pat_completeness auto
termination by (relation "measure (\<lambda>(js, len, i, q). 4 - i)") auto

declare hex_scan.simps [simp del]

lemma hex_scan_ge: "hex_scan js len i q = Some r \<Longrightarrow> q \<le> r"
proof (induction js len i q rule: hex_scan.induct)
  case (1 js len i q)
  then show ?case
    by (cases "i < 4 \<and> has_byte js len q \<and> is_hex (js ! q)")
      (auto simp: hex_scan.simps [of js len i q] split: if_splits)
qed

text \<open>From behind the opening quote to the closing one.\<close>

function str_scan :: "string \<Rightarrow> nat \<Rightarrow> nat \<Rightarrow> scan" where
  "str_scan js len q =
    (if has_byte js len q then
       let c = js ! q in
       if c = CHR 0x22 then Found q
       else if c = CHR 0x5C \<and> Suc q < len then
         let e = js ! Suc q in
         if simple_escape e then str_scan js len (Suc (Suc q))
         else if e = CHR ''u'' then
           (case hex_scan js len 0 (Suc (Suc q)) of None \<Rightarrow> Invalid | Some r \<Rightarrow> str_scan js len r)
         else Invalid
       else str_scan js len (Suc q)
     else Partial)"
  by pat_completeness auto
termination
  by (relation "measure (\<lambda>(js, len, q). len - q)") (auto simp: has_byte_def dest: hex_scan_ge)

declare str_scan.simps [simp del]

definition jsmn_parse_string ::
  "jsmn_parser \<Rightarrow> string \<Rightarrow> nat \<Rightarrow> jsmntok_t list option \<Rightarrow> nat \<Rightarrow> jsmn_result" where
  "jsmn_parse_string p js len tokens num_tokens =
    (let start = pos p in
     case str_scan js len (Suc start) of
       Invalid \<Rightarrow> (JSMN_ERROR_INVAL, p, tokens)
     | Partial \<Rightarrow> (JSMN_ERROR_PART, p, tokens)
     | Found q \<Rightarrow>
         (case tokens of None \<Rightarrow> (0, p\<lparr>pos := q\<rparr>, None)
          | Some toks \<Rightarrow>
              (case add_token p toks num_tokens JSMN_STRING (int (Suc start)) (int q) of
                 None \<Rightarrow> (JSMN_ERROR_NOMEM, p, tokens)
               | Some (p', toks') \<Rightarrow> (0, p'\<lparr>pos := q\<rparr>, Some toks'))))"

section \<open>The parser\<close>

text \<open>The parser, the tokens and \<open>count\<close>; a branch returns (\<open>Inl\<close>) or goes on.\<close>

type_synonym jsmn_state = "jsmn_parser \<times> jsmntok_t list option \<times> nat"

abbreviation size_up :: "jsmntok_t list \<Rightarrow> nat \<Rightarrow> jsmntok_t list" where
  "size_up toks i \<equiv> toks[i := (toks ! i)\<lparr>tok_size := tok_size (toks ! i) + 1\<rparr>]"

text \<open>\<open>if (parser->toksuper != -1) tokens[parser->toksuper].size++\<close>\<close>

definition count_child :: "jsmn_parser \<Rightarrow> jsmntok_t list \<Rightarrow> jsmntok_t list" where
  "count_child p toks = (if toksuper p \<noteq> -1 then size_up toks (nat (toksuper p)) else toks)"

definition open_bracket ::
  "char \<Rightarrow> jsmn_parser \<Rightarrow> jsmntok_t list option \<Rightarrow> nat \<Rightarrow> nat \<Rightarrow> jsmn_result + jsmn_state" where
  "open_bracket c p tokens num_tokens count =
    (case tokens of None \<Rightarrow> Inr (p, None, count + 1)
     | Some toks \<Rightarrow>
         (case jsmn_alloc_token p toks num_tokens of
            None \<Rightarrow> Inl (JSMN_ERROR_NOMEM, p, tokens)
          | Some (i, p', toks') \<Rightarrow>
              if toksuper p' \<noteq> -1 \<and> tok_type (toks' ! nat (toksuper p')) = JSMN_OBJECT
              then Inl (JSMN_ERROR_INVAL, p', Some toks')
              else
                let toks' = count_child p' toks';
                    toks' = toks'[i := (toks' ! i)\<lparr>tok_type := (if c = CHR ''{'' then JSMN_OBJECT else JSMN_ARRAY),
                                                 tok_start := int (pos p')\<rparr>] in
                Inr (p'\<lparr>toksuper := int (toknext p') - 1\<rparr>, Some toks', count + 1)))"

definition close_bracket ::
  "char \<Rightarrow> jsmn_parser \<Rightarrow> jsmntok_t list option \<Rightarrow> nat \<Rightarrow> jsmn_result + jsmn_state" where
  "close_bracket c p tokens count =
    (case tokens of None \<Rightarrow> Inr (p, None, count)
     | Some toks \<Rightarrow>
         (case last_open toks (toknext p) of
            None \<Rightarrow> Inl (JSMN_ERROR_INVAL, p, tokens)
          | Some i \<Rightarrow>
              if tok_type (toks ! i) \<noteq> (if c = CHR ''}'' then JSMN_OBJECT else JSMN_ARRAY)
              then Inl (JSMN_ERROR_INVAL, p, tokens)
              else
                let toks' = toks[i := (toks ! i)\<lparr>tok_end := int (pos p) + 1\<rparr>] in
                Inr (p\<lparr>toksuper := super_of (last_open toks' (Suc i))\<rparr>, Some toks', count)))"

definition after_comma :: "jsmn_parser \<Rightarrow> jsmntok_t list option \<Rightarrow> jsmn_parser" where
  "after_comma p tokens =
    (case tokens of None \<Rightarrow> p
     | Some toks \<Rightarrow>
         if toksuper p \<noteq> -1 \<and> \<not> is_container (tok_type (toks ! nat (toksuper p))) then
           (case last_open_container toks (toknext p) of None \<Rightarrow> p | Some i \<Rightarrow> p\<lparr>toksuper := int i\<rparr>)
         else p)"

definition starts_primitive :: "char \<Rightarrow> bool" where
  "starts_primitive c \<longleftrightarrow>
    c = CHR ''-'' \<or> 48 \<le> (of_char c :: nat) \<and> (of_char c :: nat) \<le> 57
    \<or> c = CHR ''t'' \<or> c = CHR ''f'' \<or> c = CHR ''n''"

text \<open>In strict mode a primitive is not a key, and not a second value of one.\<close>

definition primitive_misplaced :: "jsmn_parser \<Rightarrow> jsmntok_t list option \<Rightarrow> bool" where
  "primitive_misplaced p tokens \<longleftrightarrow>
    (case tokens of None \<Rightarrow> False
     | Some toks \<Rightarrow> toksuper p \<noteq> -1 \<and>
         (let t = toks ! nat (toksuper p) in
          tok_type t = JSMN_OBJECT \<or> tok_type t = JSMN_STRING \<and> tok_size t \<noteq> 0))"

text \<open>What follows a string or a primitive.\<close>

definition value_done :: "jsmn_result \<Rightarrow> nat \<Rightarrow> jsmn_result + jsmn_state" where
  "value_done res count =
    (case res of (r, p, tokens) \<Rightarrow>
       if r < 0 then Inl res else Inr (p, map_option (count_child p) tokens, count + 1))"

definition jsmn_step :: "string \<Rightarrow> nat \<Rightarrow> nat \<Rightarrow> jsmn_state \<Rightarrow> jsmn_result + jsmn_state" where
  "jsmn_step js len num_tokens st =
    (case st of (p, tokens, count) \<Rightarrow>
       let c = js ! pos p in
       if c = CHR ''{'' \<or> c = CHR ''['' then open_bracket c p tokens num_tokens count
       else if c = CHR ''}'' \<or> c = CHR '']'' then close_bracket c p tokens count
       else if c = CHR 0x22 then value_done (jsmn_parse_string p js len tokens num_tokens) count
       else if is_ws c then Inr (p, tokens, count)
       else if c = CHR '':'' then Inr (p\<lparr>toksuper := int (toknext p) - 1\<rparr>, tokens, count)
       else if c = CHR '','' then Inr (after_comma p tokens, tokens, count)
       else if starts_primitive c then
         if primitive_misplaced p tokens then Inl (JSMN_ERROR_INVAL, p, tokens)
         else value_done (jsmn_parse_primitive p js len tokens num_tokens) count
       else Inl (JSMN_ERROR_INVAL, p, tokens))"

text \<open>Each step goes on at the position it was at, or behind it.\<close>

lemma prim_scan_ge: "prim_scan js len q = Found r \<Longrightarrow> q \<le> r \<and> r < len \<and> ends_primitive (js ! r)"
proof (induction js len q rule: prim_scan.induct)
  case (1 js len q)
  then show ?case
    by (auto simp: prim_scan.simps [of js len q] has_byte_def split: if_splits)
qed

lemma str_scan_ge: "str_scan js len q = Found r \<Longrightarrow> q \<le> r \<and> r < len \<and> js ! r = CHR 0x22"
proof (induction js len q rule: str_scan.induct)
  case (1 js len q)
  note IH = 1(1-3) [OF _ refl] and found = 1(4)
  show ?case
  proof (cases "has_byte js len q \<and> js ! q \<noteq> CHR 0x22")
    case False
    then show ?thesis using found by (auto simp: str_scan.simps [of js len q] has_byte_def split: if_splits)
  next
    case plain: True
    show ?thesis
    proof (cases "js ! q = CHR 0x5C \<and> Suc q < len")
      case False
      then show ?thesis using plain found IH(3) by (auto simp: str_scan.simps [of js len q])
    next
      case esc: True
      note unfold = str_scan.simps [of js len q] Let_def
      show ?thesis
      proof (cases "simple_escape (js ! Suc q)")
        case True
        then show ?thesis using esc plain found IH(1) by (simp add: unfold)
      next
        case False
        then obtain k where u: "js ! Suc q = CHR ''u''" and k: "hex_scan js len 0 (Suc (Suc q)) = Some k"
            and rest: "str_scan js len k = Found r"
          using esc plain found by (auto simp: unfold split: if_splits option.splits)
        then show ?thesis using IH(2) [OF _ _ _ refl False u k rest] esc plain hex_scan_ge [OF k] by simp
      qed
    qed
  qed
qed

lemma alloc_facts:
  "jsmn_alloc_token p toks n = Some (i, p', toks') \<Longrightarrow>
    toknext p < n \<and> i = toknext p \<and> p' = p\<lparr>toknext := Suc (toknext p)\<rparr>
    \<and> toks' = toks[toknext p := (toks ! toknext p)\<lparr>tok_start := -1, tok_end := -1, tok_size := 0\<rparr>]"
  by (auto simp: jsmn_alloc_token_def Let_def split: if_splits)

lemma fill_token [simp]:
  "jsmn_fill_token t ty s e = \<lparr>tok_type = ty, tok_start = s, tok_end = e, tok_size = 0\<rparr>"
  by (simp add: jsmn_fill_token_def)

lemma add_token_facts:
  "add_token p toks n ty s e = Some (p', toks') \<Longrightarrow>
    toknext p < n \<and> p' = p\<lparr>toknext := Suc (toknext p)\<rparr>
    \<and> (toknext p < length toks \<longrightarrow> toks' = toks[toknext p := \<lparr>tok_type = ty, tok_start = s, tok_end = e, tok_size = 0\<rparr>])"
  by (auto simp: add_token_def split: option.splits dest!: alloc_facts)

lemma starts_not_ends: "starts_primitive c \<Longrightarrow> \<not> ends_primitive c"
  by (auto simp: starts_primitive_def ends_primitive_def is_ws_def)

lemma prim_scan_gt:
  "prim_scan js len q = Found r \<Longrightarrow> starts_primitive (js ! q) \<Longrightarrow> q < r"
  using prim_scan_ge [of js len q r] starts_not_ends [of "js ! q"] by (cases "q = r") auto

lemma step_pos:
  assumes "jsmn_step js len n (p, tokens, count) = Inr (p', tokens', count')"
  shows "pos p \<le> pos p'"
  using assms
  by (auto simp: jsmn_step_def open_bracket_def close_bracket_def after_comma_def value_done_def Let_def
      jsmn_parse_string_def jsmn_parse_primitive_def
      split: if_splits option.splits scan.splits prod.splits
      dest!: alloc_facts add_token_facts dest: prim_scan_gt str_scan_ge)

text \<open>\<open>jsmn_parse\<close>: the loop over the document, and the search for a container that was left open.\<close>

definition jsmn_finish :: "jsmn_state \<Rightarrow> jsmn_result" where
  "jsmn_finish st =
    (case st of (p, tokens, count) \<Rightarrow>
       (case tokens of None \<Rightarrow> (int count, p, tokens)
        | Some toks \<Rightarrow>
            if last_open toks (toknext p) \<noteq> None then (JSMN_ERROR_PART, p, tokens) else (int count, p, tokens)))"

function jsmn_loop :: "string \<Rightarrow> nat \<Rightarrow> nat \<Rightarrow> jsmn_state \<Rightarrow> jsmn_result" where
  "jsmn_loop js len num_tokens (p, tokens, count) =
    (if has_byte js len (pos p) then
       case jsmn_step js len num_tokens (p, tokens, count) of
         Inl result \<Rightarrow> result
       | Inr (p', tokens', count') \<Rightarrow> jsmn_loop js len num_tokens (p'\<lparr>pos := pos p' + 1\<rparr>, tokens', count')
     else jsmn_finish (p, tokens, count))"
  by pat_completeness auto
termination
  by (relation "measure (\<lambda>(js, len, n, p, tokens, count). len - pos p)")
    (auto simp: has_byte_def dest!: step_pos)

declare jsmn_loop.simps [simp del]

definition jsmn_parse :: "jsmn_parser \<Rightarrow> string \<Rightarrow> nat \<Rightarrow> jsmntok_t list option \<Rightarrow> nat \<Rightarrow> jsmn_result" where
  "jsmn_parse p js len tokens num_tokens = jsmn_loop js len num_tokens (p, tokens, toknext p)"

end
