(* ===== verification/Jsmn_Trees.thy ===== *)
theory Jsmn_Trees
  imports Jsmn Token_Forest
begin

text \<open>
  What the tokenizer of \<open>Jsmn\<close> keeps at every step, for any bytes: it stays within its arrays, and its
  tokens are trees of \<open>Token_Forest\<close>. And it reads nothing but the document.
\<close>

section \<open>The searches\<close>

lemma last_open_Some:
  "last_open toks k = Some i \<Longrightarrow> i < k \<and> tok_open (toks ! i) \<and> (\<forall>j. i < j \<and> j < k \<longrightarrow> \<not> tok_open (toks ! j))"
  by (induction toks k rule: last_open.induct) (auto split: if_splits simp: less_Suc_eq)

lemma last_open_None: "last_open toks k = None \<longleftrightarrow> (\<forall>i < k. \<not> tok_open (toks ! i))"
  by (induction toks k rule: last_open.induct) (auto simp: less_Suc_eq)

lemma last_open_container_eq:
  "\<forall>i < k. tok_open (toks ! i) \<longrightarrow> is_container (tok_type (toks ! i)) \<Longrightarrow>
    last_open_container toks k = last_open toks k"
  by (induction toks k rule: last_open.induct) auto

lemma super_of_open: "super_of (last_open toks k) = -1 \<and> (\<forall>i < k. \<not> tok_open (toks ! i))
    \<or> (\<exists>i < k. super_of (last_open toks k) = int i \<and> tok_open (toks ! i) \<and> (\<forall>j < k. tok_open (toks ! j) \<longrightarrow> j \<le> i))"
proof (cases "last_open toks k")
  case None
  then have "\<forall>i < k. \<not> tok_open (toks ! i)" by (simp only: last_open_None)
  then show ?thesis using None by (simp add: super_of_def)
next
  case (Some i)
  then show ?thesis using last_open_Some [OF Some]
    by (auto simp: super_of_def not_less intro!: exI [of _ i]) (meson not_le)
qed

section \<open>What the tokens are at every moment\<close>

definition sizes :: "jsmn_parser \<Rightarrow> jsmntok_t list \<Rightarrow> nat list" where
  "sizes p toks = map (\<lambda>t. nat (tok_size t)) (take (toknext p) toks)"

text \<open>A token within the first \<open>q\<close> bytes.\<close>

definition tok_ok :: "nat \<Rightarrow> jsmntok_t \<Rightarrow> bool" where
  "tok_ok q t \<longleftrightarrow> 0 \<le> tok_size t \<and> 0 \<le> tok_start t \<and> tok_start t \<le> int q
    \<and> (if tok_open t then is_container (tok_type t) else tok_start t \<le> tok_end t \<and> tok_end t \<le> int q)"

text \<open>The tokens are trees in the order of the text. \<open>toksuper\<close> is on the last branch, and so are the
  containers that are open, none of them below \<open>toksuper\<close>. What begins within a token is in its tree. What is
  behind \<open>toknext\<close> is as it was.\<close>

definition nested :: "nat list \<Rightarrow> nat \<Rightarrow> jsmntok_t list \<Rightarrow> bool" where
  "nested sz n toks \<longleftrightarrow> (\<forall>k < n. \<forall>i < k. \<not> tok_open (toks ! i) \<longrightarrow> tok_start (toks ! k) < tok_end (toks ! i) \<longrightarrow> k < reach sz i)"

definition parser_ok :: "nat \<Rightarrow> jsmntok_t list \<Rightarrow> jsmn_parser \<Rightarrow> jsmntok_t list \<Rightarrow> bool" where
  "parser_ok len toks0 p toks \<longleftrightarrow>
    pos p \<le> len \<and> length toks = length toks0 \<and> toknext p \<le> length toks
    \<and> drop (toknext p) toks = drop (toknext p) toks0
    \<and> forest (sizes p toks) \<and> nested (sizes p toks) (toknext p) toks
    \<and> (toksuper p = -1 \<or> 0 \<le> toksuper p \<and> on_last_branch (sizes p toks) (nat (toksuper p)))
    \<and> (\<forall>i < toknext p. tok_ok (pos p) (toks ! i)
         \<and> (tok_open (toks ! i) \<longrightarrow> int i \<le> toksuper p \<and> on_last_branch (sizes p toks) i))"

lemma length_sizes: "toknext p \<le> length toks \<Longrightarrow> length (sizes p toks) = toknext p"
  by (simp add: sizes_def)

lemma super_in_range: "parser_ok len toks0 p toks \<Longrightarrow> toksuper p \<noteq> -1 \<Longrightarrow>
    0 \<le> toksuper p \<and> nat (toksuper p) < toknext p"
  by (auto simp: parser_ok_def on_last_branch_def length_sizes)

lemma open_is_container: "parser_ok len toks0 p toks \<Longrightarrow>
    \<forall>i < toknext p. tok_open (toks ! i) \<longrightarrow> is_container (tok_type (toks ! i))"
  by (auto simp: parser_ok_def tok_ok_def)

lemma tok_ok_mono: "tok_ok q t \<Longrightarrow> q \<le> q' \<Longrightarrow> tok_ok q' t"
  by (auto simp: tok_ok_def)

lemma parser_ok_forward: "parser_ok len toks0 p toks \<Longrightarrow> pos p \<le> q \<Longrightarrow> q \<le> len \<Longrightarrow>
    parser_ok len toks0 (p\<lparr>pos := q\<rparr>) toks"
  by (auto simp: parser_ok_def sizes_def intro: tok_ok_mono)

text \<open>The token \<open>t\<close> becomes the next one, and a child of \<open>toksuper\<close> if there is one.\<close>

definition extend :: "jsmn_parser \<Rightarrow> jsmntok_t list \<Rightarrow> jsmntok_t \<Rightarrow> jsmntok_t list" where
  "extend p toks t = (count_child p toks)[toknext p := t]"

lemma sizes_extend:
  assumes ok: "parser_ok len toks0 p toks" and room: "toknext p < length toks" and t: "tok_size t = 0"
  shows "sizes (p\<lparr>toknext := Suc (toknext p), toksuper := u, pos := q\<rparr>) (extend p toks t) =
    (if toksuper p = -1 then sizes p toks @ [0] else grow (sizes p toks) (nat (toksuper p)))"
proof -
  let ?n = "toknext p" and ?k = "nat (toksuper p)"
  have take: "take (Suc ?n) (xs[?n := t]) = take ?n xs @ [t]" if "?n < length xs" for xs
    using that by (simp add: take_Suc_conv_app_nth)
  have len: "length (count_child p toks) = length toks" by (simp add: count_child_def)
  show ?thesis
  proof (cases "toksuper p = -1")
    case True
    then show ?thesis using room t by (simp add: sizes_def extend_def take count_child_def)
  next
    case False
    then have k: "?k < ?n" and s: "0 \<le> tok_size (toks ! ?k)"
      using super_in_range [OF ok] ok by (auto simp: parser_ok_def tok_ok_def)
    have "sizes (p\<lparr>toknext := Suc ?n, toksuper := u, pos := q\<rparr>) (extend p toks t)
        = map (\<lambda>t. nat (tok_size t)) (take ?n (size_up toks ?k)) @ [0]"
      using False room t by (simp add: sizes_def extend_def take len) (simp add: count_child_def)
    also have "take ?n (size_up toks ?k) = (take ?n toks)[?k := (toks ! ?k)\<lparr>tok_size := tok_size (toks ! ?k) + 1\<rparr>]"
      using k by (simp add: take_update_swap)
    finally show ?thesis using False k s room
      by (simp add: sizes_def map_update nat_add_distrib)
  qed
qed

lemma extend_nth:
  assumes "parser_ok len toks0 p toks" "i < toknext p" "toknext p < length toks"
  shows "extend p toks t ! i = (toks ! i)\<lparr>tok_size := tok_size (toks ! i) + (if toksuper p = int i then 1 else 0)\<rparr>"
  using super_in_range [OF assms(1)] assms(2,3)
  by (auto simp: extend_def count_child_def nth_list_update)

lemma parser_ok_extend:
  assumes ok: "parser_ok len toks0 p toks" and room: "toknext p < length toks"
    and t: "tok_size t = 0" "tok_ok q t" "int (pos p) \<le> tok_start t" and q: "pos p \<le> q" "q \<le> len"
    and u: "u = (if tok_open t then int (toknext p) else toksuper p)"
  shows "parser_ok len toks0 (p\<lparr>toknext := Suc (toknext p), toksuper := u, pos := q\<rparr>) (extend p toks t)"
proof -
  let ?p = "p\<lparr>toknext := Suc (toknext p), toksuper := u, pos := q\<rparr>" and ?toks = "extend p toks t"
  let ?sz = "sizes p toks"
  note sz = sizes_extend [OF ok room t(1)]
  have n: "length ?sz = toknext p" using room by (simp add: length_sizes)
  have f: "forest ?sz" and sup: "toksuper p \<noteq> -1 \<Longrightarrow> on_last_branch ?sz (nat (toksuper p)) \<and> nat (toksuper p) < toknext p"
    using ok super_in_range [OF ok] by (auto simp: parser_ok_def)
  have "forest (sizes ?p ?toks)"
    using f sup by (simp add: sz forest_root forest_grow)
  moreover have new: "on_last_branch (sizes ?p ?toks) (toknext p)"
    using sup last_branch_new [of ?sz] last_branch_grown [of "nat (toksuper p)" ?sz] by (simp add: sz n)
  moreover have old: "on_last_branch (sizes ?p ?toks) i"
    if "toksuper p \<noteq> -1" "on_last_branch ?sz i" "int i \<le> toksuper p" for i
    using that sup last_branch_grow [of ?sz "nat (toksuper p)" i] by (simp add: sz)
  moreover have "nested (sizes ?p ?toks) (Suc (toknext p)) ?toks"
    unfolding nested_def
  proof (intro allI impI)
    fix k i assume k: "k < Suc (toknext p)" "i < k" and cl: "\<not> tok_open (?toks ! i)"
      and within: "tok_start (?toks ! k) < tok_end (?toks ! i)"
    have i: "i < toknext p" using k by simp
    note nth = extend_nth [OF ok _ room]
    have cl': "\<not> tok_open (toks ! i)" "tok_end (?toks ! i) = tok_end (toks ! i)"
      using cl by (simp_all add: nth [OF i] tok_open_def)
    have "tok_ok (pos p) (toks ! i)" using ok i by (simp add: parser_ok_def)
    then have e: "tok_end (toks ! i) \<le> int (pos p)" using cl' by (simp add: tok_ok_def)
    have "?toks ! toknext p = t" using room by (simp add: extend_def count_child_def)
    then have "k \<noteq> toknext p" using within e cl' t(3) by auto
    then have "k < toknext p" using k by simp
    moreover have "tok_start (toks ! k) < tok_end (toks ! i)"
      using within cl' by (simp add: nth [OF \<open>k < toknext p\<close>])
    ultimately have "k < reach ?sz i" using ok k cl' unfolding parser_ok_def nested_def by blast
    also have "\<dots> \<le> reach (sizes ?p ?toks) i"
      using reach_root [OF f, of i] reach_grow [OF f, of "nat (toksuper p)" i] sup i n by (auto simp: sz)
    finally show "k < reach (sizes ?p ?toks) i" .
  qed
  moreover have "drop (Suc (toknext p)) ?toks = drop (Suc (toknext p)) toks0"
  proof -
    have "drop (toknext p) toks = drop (toknext p) toks0" using ok by (simp add: parser_ok_def)
    then have "drop 1 (drop (toknext p) toks) = drop 1 (drop (toknext p) toks0)" by (rule arg_cong)
    then show ?thesis using super_in_range [OF ok] by (auto simp: extend_def count_child_def)
  qed
  moreover have "tok_ok q (?toks ! i) \<and> (tok_open (?toks ! i) \<longrightarrow> int i \<le> u \<and> on_last_branch (sizes ?p ?toks) i)"
    if i: "i < Suc (toknext p)" for i
  proof (cases "i = toknext p")
    case True
    then have "?toks ! i = t" using room by (simp add: extend_def count_child_def)
    then show ?thesis using True t new u by auto
  next
    case False
    then have i: "i < toknext p" using i by simp
    have was: "tok_ok (pos p) (toks ! i)" "tok_open (toks ! i) \<Longrightarrow> int i \<le> toksuper p \<and> on_last_branch ?sz i"
      using ok i by (auto simp: parser_ok_def)
    have nth: "?toks ! i = (toks ! i)\<lparr>tok_size := tok_size (toks ! i) + (if toksuper p = int i then 1 else 0)\<rparr>"
      by (rule extend_nth [OF ok i room])
    have op: "tok_open (?toks ! i) = tok_open (toks ! i)" by (simp add: nth tok_open_def)
    have "tok_ok q (?toks ! i)" using tok_ok_mono [OF was(1) q(1)] by (auto simp: nth tok_ok_def tok_open_def)
    moreover have "int i \<le> u" if "tok_open (toks ! i)" using was(2) [OF that] i u by auto
    moreover have "on_last_branch (sizes ?p ?toks) i" if "tok_open (toks ! i)"
      using was(2) [OF that] old by fastforce
    ultimately show ?thesis by (simp add: op)
  qed
  moreover have "length ?toks = length toks" by (simp add: extend_def count_child_def)
  ultimately show ?thesis
    using ok room q(2) u sup old unfolding parser_ok_def by auto
qed

section \<open>One step\<close>

text \<open>What holds of every result, errors included.\<close>

definition in_room :: "jsmntok_t list \<Rightarrow> jsmn_parser \<Rightarrow> jsmntok_t list option \<Rightarrow> bool" where
  "in_room toks0 p tokens \<longleftrightarrow>
    (\<exists>toks. tokens = Some toks \<and> length toks = length toks0 \<and> toknext p \<le> length toks
       \<and> drop (toknext p) toks = drop (toknext p) toks0)"

lemma parser_ok_in_room: "parser_ok len toks0 p toks \<Longrightarrow> in_room toks0 p (Some toks)"
  by (auto simp: parser_ok_def in_room_def)

text \<open>A branch keeps to this: it returns with the tokens in order, or goes on behind \<open>pos\<close> with all as above.\<close>

definition branch_keeps :: "nat \<Rightarrow> jsmntok_t list \<Rightarrow> jsmn_result + jsmn_state \<Rightarrow> bool" where
  "branch_keeps len toks0 outcome \<longleftrightarrow>
    (case outcome of Inl (r, p, tokens) \<Rightarrow> r < 0 \<and> in_room toks0 p tokens
     | Inr (p, tokens, count) \<Rightarrow>
         \<exists>toks. tokens = Some toks \<and> count = toknext p \<and> parser_ok len toks0 (p\<lparr>pos := Suc (pos p)\<rparr>) toks)"

lemmas jsmn_errors = JSMN_ERROR_NOMEM_def JSMN_ERROR_INVAL_def JSMN_ERROR_PART_def

lemma in_room_alloc:
  assumes "parser_ok len toks0 p toks" "toknext p < length toks"
  shows "in_room toks0 (p\<lparr>toknext := Suc (toknext p)\<rparr>) (Some (toks[toknext p := t]))"
proof -
  have "drop (toknext p) toks = drop (toknext p) toks0" using assms(1) by (simp add: parser_ok_def)
  then have "drop 1 (drop (toknext p) toks) = drop 1 (drop (toknext p) toks0)" by (rule arg_cong)
  then show ?thesis using assms by (auto simp: in_room_def parser_ok_def)
qed

lemma open_bracket_keeps:
  assumes ok: "parser_ok len toks0 p toks" and q: "Suc (pos p) \<le> len"
  shows "branch_keeps len toks0 (open_bracket c p (Some toks) (length toks) (toknext p))"
proof (cases "toknext p < length toks")
  case False
  then show ?thesis using parser_ok_in_room [OF ok]
    by (simp add: open_bracket_def jsmn_alloc_token_def branch_keeps_def jsmn_errors)
next
  case True
  let ?fresh = "(toks ! toknext p)\<lparr>tok_start := -1, tok_end := -1, tok_size := 0\<rparr>"
  let ?t = "?fresh\<lparr>tok_type := (if c = CHR ''{'' then JSMN_OBJECT else JSMN_ARRAY), tok_start := int (pos p)\<rparr>"
  have al: "jsmn_alloc_token p toks (length toks) = Some (toknext p, p\<lparr>toknext := Suc (toknext p)\<rparr>, toks[toknext p := ?fresh])"
    using True by (simp add: jsmn_alloc_token_def Let_def)
  have ext: "(count_child (p\<lparr>toknext := Suc (toknext p)\<rparr>) (toks[toknext p := ?fresh]))[toknext p :=
      (count_child (p\<lparr>toknext := Suc (toknext p)\<rparr>) (toks[toknext p := ?fresh]) ! toknext p)
        \<lparr>tok_type := (if c = CHR ''{'' then JSMN_OBJECT else JSMN_ARRAY), tok_start := int (pos p)\<rparr>] = extend p toks ?t"
    (is "?L = _")
  proof (cases "toksuper p = -1")
    case super: False
    then have "nat (toksuper p) < toknext p" using super_in_range [OF ok] by blast
    then show ?thesis using super True
      by (simp add: extend_def count_child_def list_update_swap [of "toknext p" "nat (toksuper p)"])
  qed (use True in \<open>simp add: extend_def count_child_def\<close>)
  have "tok_ok (Suc (pos p)) ?t" by (simp add: tok_ok_def tok_open_def is_container_def)
  then have "parser_ok len toks0 (p\<lparr>toknext := Suc (toknext p), toksuper := int (toknext p), pos := Suc (pos p)\<rparr>)
      (extend p toks ?t)"
    using True q by (intro parser_ok_extend [OF ok]) (simp_all add: tok_open_def)
  then show ?thesis
    using in_room_alloc [OF ok, of ?fresh] True ext
    by (auto simp: open_bracket_def al branch_keeps_def jsmn_errors Let_def)
qed

lemma close_bracket_keeps:
  assumes ok: "parser_ok len toks0 p toks" and q: "Suc (pos p) \<le> len"
  shows "branch_keeps len toks0 (close_bracket c p (Some toks) (toknext p))"
proof (cases "last_open toks (toknext p)")
  case None
  then show ?thesis using parser_ok_in_room [OF ok]
    by (simp add: close_bracket_def branch_keeps_def jsmn_errors)
next
  case (Some i)
  let ?toks = "toks[i := (toks ! i)\<lparr>tok_end := int (pos p) + 1\<rparr>]"
  let ?u = "super_of (last_open ?toks (Suc i))"
  let ?p = "p\<lparr>pos := Suc (pos p), toksuper := ?u\<rparr>"
  have i: "i < toknext p" "tok_open (toks ! i)" "\<And>j. i < j \<Longrightarrow> j < toknext p \<Longrightarrow> \<not> tok_open (toks ! j)"
    and l: "toknext p \<le> length toks"
    using last_open_Some [OF Some] ok by (auto simp: parser_ok_def)
  have nth: "?toks ! j = (if j = i then (toks ! i)\<lparr>tok_end := int (pos p) + 1\<rparr> else toks ! j)" if "j < toknext p" for j
    using that l by (auto simp: nth_list_update)
  have closed: "\<not> tok_open (?toks ! i)" using i(1) by (simp add: nth tok_open_def)
  have sz: "sizes ?p ?toks = sizes p toks"
    using i(1) l by (auto simp: sizes_def list_eq_iff_nth_eq nth_list_update)
  have u: "?u = -1 \<and> (\<forall>j < toknext p. \<not> tok_open (?toks ! j))
      \<or> (\<exists>k < toknext p. ?u = int k \<and> tok_open (toks ! k) \<and> (\<forall>j < toknext p. tok_open (?toks ! j) \<longrightarrow> j \<le> k))"
  proof -
    have below: "j < i" if "j < toknext p" "tok_open (?toks ! j)" for j
      using that i(3) [of j] closed nth [OF that(1)] by (cases j i rule: linorder_cases) auto
    from super_of_open [of ?toks "Suc i"] show ?thesis
    proof (elim disjE exE conjE)
      fix k assume k: "k < Suc i" "?u = int k" "tok_open (?toks ! k)" "\<forall>j < Suc i. tok_open (?toks ! j) \<longrightarrow> j \<le> k"
      then have "k < toknext p" "tok_open (toks ! k)"
        using i(1) closed nth [of k] by (auto split: if_splits)
      then show ?thesis using k below by (metis less_SucI)
    qed (use below in \<open>metis less_SucI\<close>)
  qed
  have "parser_ok len toks0 ?p ?toks"
  proof -
    have was: "tok_ok (pos p) (toks ! j)" "tok_open (toks ! j) \<Longrightarrow> on_last_branch (sizes p toks) j"
      if "j < toknext p" for j using ok that by (auto simp: parser_ok_def)
    have "tok_ok (Suc (pos p)) (?toks ! j)" if j: "j < toknext p" for j
      using was(1) [OF j] by (auto simp: nth [OF j] tok_ok_def tok_open_def)
    moreover have "int j \<le> ?u \<and> on_last_branch (sizes p toks) j" if j: "j < toknext p" "tok_open (?toks ! j)" for j
      using u j was(2) [of j] nth [OF j(1)] closed by (auto split: if_splits)
    moreover have "?u = -1 \<or> 0 \<le> ?u \<and> on_last_branch (sizes p toks) (nat ?u)"
      using u was(2) by auto
    moreover have "nested (sizes p toks) (toknext p) ?toks"
      unfolding nested_def
    proof (intro allI impI)
      fix k j assume k: "k < toknext p" "j < k" "\<not> tok_open (?toks ! j)" "tok_start (?toks ! k) < tok_end (?toks ! j)"
      show "k < reach (sizes p toks) j"
      proof (cases "j = i")
        case True
        then show ?thesis using reach_last [OF was(2) [OF i(1,2)]] k(1) l by (simp add: length_sizes)
      next
        case False
        then have "\<not> tok_open (toks ! j)" "tok_start (toks ! k) < tok_end (toks ! j)"
          using k nth [of j] nth [of k] by (auto split: if_splits)
        then show ?thesis using ok k(1,2) unfolding parser_ok_def nested_def by blast
      qed
    qed
    ultimately show ?thesis
      using ok q i(1) unfolding parser_ok_def sz by auto
  qed
  moreover have "?p = (p\<lparr>toksuper := ?u\<rparr>)\<lparr>pos := Suc (pos (p\<lparr>toksuper := ?u\<rparr>))\<rparr>" by simp
  ultimately show ?thesis using Some parser_ok_in_room [OF ok]
    by (auto simp: close_bracket_def branch_keeps_def jsmn_errors Let_def simp del: last_open.simps)
qed

lemma count_child_pos [simp]: "count_child (p\<lparr>toknext := a, pos := q\<rparr>) = count_child p"
    "count_child (p\<lparr>pos := q\<rparr>) = count_child p" "count_child (p\<lparr>toknext := a\<rparr>) = count_child p"
  by (simp_all add: count_child_def fun_eq_iff)

text \<open>Strings and primitives: a token without children.\<close>

lemma added_token:
  assumes ok: "parser_ok len toks0 p toks" and add: "add_token p toks (length toks) ty a e = Some (p', toks')"
    and e: "int (pos p) \<le> a" "a \<le> e" "e \<le> int q" and q: "pos p \<le> q" "q \<le> len"
  shows "p' = p\<lparr>toknext := Suc (toknext p)\<rparr> \<and> parser_ok len toks0 (p'\<lparr>pos := q\<rparr>) (count_child p' toks')"
proof -
  let ?t = "\<lparr>tok_type = ty, tok_start = a, tok_end = e, tok_size = 0\<rparr>"
  have n: "toknext p < length toks" and p': "p' = p\<lparr>toknext := Suc (toknext p)\<rparr>" and toks': "toks' = toks[toknext p := ?t]"
    using add_token_facts [OF add] by auto
  have "count_child p' toks' = extend p toks ?t"
    using super_in_range [OF ok] n p' toks' by (auto simp: extend_def count_child_def list_update_swap)
  moreover have "p'\<lparr>pos := q\<rparr> = p\<lparr>toknext := Suc (toknext p), toksuper := toksuper p, pos := q\<rparr>"
    by (simp add: p')
  moreover have "parser_ok len toks0 (p\<lparr>toknext := Suc (toknext p), toksuper := toksuper p, pos := q\<rparr>) (extend p toks ?t)"
    using e q n by (intro parser_ok_extend [OF ok]) (auto simp: tok_ok_def tok_open_def)
  ultimately show ?thesis using p' by simp
qed

lemma string_keeps:
  assumes ok: "parser_ok len toks0 p toks"
  shows "branch_keeps len toks0 (value_done (jsmn_parse_string p js len (Some toks) (length toks)) (toknext p))"
proof (cases "str_scan js len (Suc (pos p))")
  case (Found q)
  from str_scan_ge [OF Found] have q: "Suc (pos p) \<le> q" "Suc q \<le> len" by auto
  show ?thesis
  proof (cases "add_token p toks (length toks) JSMN_STRING (1 + int (pos p)) (int q)")
    case (Some r)
    obtain p' toks' where r: "r = (p', toks')" by (cases r)
    from added_token [OF ok Some [unfolded r], of "Suc q"] q show ?thesis
      by (auto simp: jsmn_parse_string_def value_done_def branch_keeps_def Let_def Found Some r)
  qed (use parser_ok_in_room [OF ok] Found in
      \<open>simp add: jsmn_parse_string_def value_done_def branch_keeps_def Let_def jsmn_errors\<close>)
qed (use parser_ok_in_room [OF ok] in \<open>simp_all add: jsmn_parse_string_def value_done_def branch_keeps_def Let_def jsmn_errors\<close>)

lemma primitive_keeps:
  assumes ok: "parser_ok len toks0 p toks" and c: "starts_primitive (js ! pos p)"
  shows "branch_keeps len toks0 (value_done (jsmn_parse_primitive p js len (Some toks) (length toks)) (toknext p))"
proof (cases "prim_scan js len (pos p)")
  case (Found q)
  from prim_scan_gt [OF Found c] prim_scan_ge [OF Found] have q: "pos p < q" "q \<le> len" by auto
  show ?thesis
  proof (cases "add_token p toks (length toks) JSMN_PRIMITIVE (int (pos p)) (int q)")
    case (Some r)
    obtain p' toks' where r: "r = (p', toks')" by (cases r)
    from added_token [OF ok Some [unfolded r], of q] q show ?thesis
      by (auto simp: jsmn_parse_primitive_def value_done_def branch_keeps_def Let_def Found Some r)
  qed (use parser_ok_in_room [OF ok] Found in
      \<open>simp add: jsmn_parse_primitive_def value_done_def branch_keeps_def Let_def jsmn_errors\<close>)
qed (use parser_ok_in_room [OF ok] in \<open>simp_all add: jsmn_parse_primitive_def value_done_def branch_keeps_def Let_def jsmn_errors\<close>)

lemma separator_keeps:
  assumes ok: "parser_ok len toks0 p toks" and q: "Suc (pos p) \<le> len"
  shows "branch_keeps len toks0 (Inr (p\<lparr>toksuper := int (toknext p) - 1\<rparr>, Some toks, toknext p))"
    and "branch_keeps len toks0 (Inr (after_comma p (Some toks), Some toks, toknext p))"
proof -
  let ?on = "\<lambda>u. (u = -1 \<and> toknext p = 0 \<or> 0 \<le> u \<and> on_last_branch (sizes p toks) (nat u))
    \<and> (\<forall>i < toknext p. tok_open (toks ! i) \<longrightarrow> int i \<le> u)"
  have move: "parser_ok len toks0 (p\<lparr>toksuper := u, pos := Suc (pos p)\<rparr>) toks" if "?on u" for u
    using ok q that unfolding parser_ok_def sizes_def by (auto intro: tok_ok_mono)
  have n: "length (sizes p toks) = toknext p" and f: "forest (sizes p toks)"
    using ok by (simp_all add: parser_ok_def length_sizes)
  have "?on (int (toknext p) - 1)"
    using last_is_on_last_branch [OF f] n by (cases "toknext p") (fastforce simp: of_nat_diff)+
  from move [OF this] show "branch_keeps len toks0 (Inr (p\<lparr>toksuper := int (toknext p) - 1\<rparr>, Some toks, toknext p))"
    by (simp add: branch_keeps_def)
  show "branch_keeps len toks0 (Inr (after_comma p (Some toks), Some toks, toknext p))"
  proof (cases "after_comma p (Some toks) = p")
    case True
    then show ?thesis using parser_ok_forward [OF ok, of "Suc (pos p)"] q by (simp add: branch_keeps_def)
  next
    case False
    then obtain i where c: "after_comma p (Some toks) = p\<lparr>toksuper := int i\<rparr>" and i: "last_open toks (toknext p) = Some i"
      by (auto simp: after_comma_def last_open_container_eq [OF open_is_container [OF ok]] split: if_splits option.splits)
    have "?on (int i)"
      using last_open_Some [OF i] ok by (auto simp: parser_ok_def) (meson not_le)
    from move [OF this] show ?thesis by (simp add: branch_keeps_def c)
  qed
qed

lemma step_keeps:
  assumes ok: "parser_ok len toks0 p toks" and q: "has_byte js len (pos p)"
  shows "branch_keeps len toks0 (jsmn_step js len (length toks) (p, Some toks, toknext p))"
proof -
  have len: "Suc (pos p) \<le> len" using q by (simp add: has_byte_def)
  note branches = open_bracket_keeps [OF ok len] close_bracket_keeps [OF ok len] string_keeps [OF ok]
    primitive_keeps [OF ok] separator_keeps [OF ok len]
  have "branch_keeps len toks0 (Inl (JSMN_ERROR_INVAL, p, Some toks))" "branch_keeps len toks0 (Inr (p, Some toks, toknext p))"
    using parser_ok_in_room [OF ok] parser_ok_forward [OF ok _ len] by (simp_all add: branch_keeps_def jsmn_errors)
  then show ?thesis using branches by (auto simp: jsmn_step_def Let_def)
qed

section \<open>The whole run\<close>

lemma loop_keeps:
  assumes "parser_ok len toks0 p toks"
  shows "case jsmn_loop js len (length toks0) (p, Some toks, toknext p) of (r, p', tokens) \<Rightarrow>
    in_room toks0 p' tokens
    \<and> (0 \<le> r \<longrightarrow> (\<exists>toks'. tokens = Some toks' \<and> r = int (toknext p') \<and> parser_ok len toks0 p' toks'
          \<and> (\<forall>i < toknext p'. \<not> tok_open (toks' ! i))))"
  using assms
proof (induction "len - pos p" arbitrary: p toks rule: less_induct)
  case less
  have l: "length toks = length toks0" using less.prems by (simp add: parser_ok_def)
  show ?case
  proof (cases "has_byte js len (pos p)")
    case False
    then show ?thesis using less.prems parser_ok_in_room [OF less.prems]
      by (auto simp: jsmn_loop.simps jsmn_finish_def jsmn_errors last_open_None [symmetric])
  next
    case True
    note keeps = step_keeps [OF less.prems True, unfolded l]
    show ?thesis
    proof (cases "jsmn_step js len (length toks0) (p, Some toks, toknext p)")
      case (Inl a)
      then show ?thesis using keeps True
        by (auto simp: jsmn_loop.simps [of js len "length toks0" p] branch_keeps_def split: prod.splits)
    next
      case (Inr b)
      obtain p' tokens' count' where b: "b = (p', tokens', count')" by (cases b)
      with keeps Inr obtain toks' where n: "tokens' = Some toks'" "count' = toknext p'"
        and ok: "parser_ok len toks0 (p'\<lparr>pos := Suc (pos p')\<rparr>) toks'" by (auto simp: branch_keeps_def)
      have "len - pos (p'\<lparr>pos := Suc (pos p')\<rparr>) < len - pos p"
        using step_pos [OF Inr [unfolded b]] True by (auto simp: has_byte_def)
      from less.hyps [OF this ok] show ?thesis
        using True Inr b n by (simp add: jsmn_loop.simps [of js len "length toks0" p])
    qed
  qed
qed

lemma parser_ok_init: "parser_ok len toks jsmn_init toks"
  by (simp add: parser_ok_def jsmn_init_def sizes_def nested_def)

text \<open>C32. Whatever bytes a document has, the tokenizer stays within its arrays, and what it accepts are trees.
  No token behind \<open>num_tokens\<close> or behind \<open>toknext\<close> is touched, in success or error. If the document is
  accepted, the result is the number of tokens; each of them has its end, within the document and not before
  its beginning; their sizes are those of trees written parents first, so that every token is followed by
  the tokens of its value; and what begins within a token is one of these.\<close>

theorem jsmn_tokens_are_trees:
  "case jsmn_parse jsmn_init js len (Some toks) (length toks) of (r, p, tokens) \<Rightarrow>
     \<exists>toks'. tokens = Some toks' \<and> length toks' = length toks \<and> toknext p \<le> length toks
       \<and> (\<forall>i. toknext p \<le> i \<longrightarrow> i < length toks \<longrightarrow> toks' ! i = toks ! i)
       \<and> (0 \<le> r \<longrightarrow> r = int (toknext p) \<and> forest (sizes p toks')
            \<and> (\<forall>i k. i < k \<and> k < toknext p \<and> tok_start (toks' ! k) < tok_end (toks' ! i) \<longrightarrow> k < reach (sizes p toks') i)
            \<and> (\<forall>i < toknext p. 0 \<le> tok_size (toks' ! i) \<and> 0 \<le> tok_start (toks' ! i)
                 \<and> tok_start (toks' ! i) \<le> tok_end (toks' ! i) \<and> tok_end (toks' ! i) \<le> int len))"
proof -
  obtain r p tokens where run: "jsmn_parse jsmn_init js len (Some toks) (length toks) = (r, p, tokens)"
    by (metis prod_cases3)
  have keeps: "in_room toks p tokens \<and> (0 \<le> r \<longrightarrow> (\<exists>toks'. tokens = Some toks' \<and> r = int (toknext p)
      \<and> parser_ok len toks p toks' \<and> (\<forall>i < toknext p. \<not> tok_open (toks' ! i))))"
    using loop_keeps [OF parser_ok_init [of len toks], of js] run
    by (simp add: jsmn_parse_def jsmn_init_def)
  then obtain toks' where t: "tokens = Some toks'" "length toks' = length toks" "toknext p \<le> length toks"
      and d: "drop (toknext p) toks' = drop (toknext p) toks"
    by (auto simp: in_room_def)
  have "toks' ! i = toks ! i" if "toknext p \<le> i" "i < length toks" for i
    using arg_cong [OF d, of "\<lambda>xs. xs ! (i - toknext p)"] that t(2) by simp
  moreover have "tok_ok len (toks' ! i) \<and> \<not> tok_open (toks' ! i)" if "0 \<le> r" "i < toknext p" for i
    using keeps that t(1) by (auto simp: parser_ok_def intro: tok_ok_mono)
  moreover have "k < reach (sizes p toks') i"
    if "0 \<le> r" "i < k" "k < toknext p" "tok_start (toks' ! k) < tok_end (toks' ! i)" for i k
    using keeps that t(1) by (auto simp: parser_ok_def nested_def)
  ultimately show ?thesis
    using keeps t by (auto simp: run tok_ok_def parser_ok_def)
qed

theorem jsmn_tokens_are_trees_witness:
  "let buf = replicate 5 \<lparr>tok_type = JSMN_UNDEFINED, tok_start = 0, tok_end = 0, tok_size = 0\<rparr> in
   \<exists>p toks'. jsmn_parse jsmn_init ''[[]:1,2]'' 8 (Some buf) (length buf) = (4, p, Some toks')
     \<and> toknext p = 4 \<and> forest (sizes p toks')"
proof -
  let ?buf = "replicate 5 \<lparr>tok_type = JSMN_UNDEFINED, tok_start = 0, tok_end = 0, tok_size = 0\<rparr>"
  have "fst (jsmn_parse jsmn_init ''[[]:1,2]'' 8 (Some ?buf) (length ?buf)) = 4" by code_simp
  then show ?thesis using jsmn_tokens_are_trees [where js = "''[[]:1,2]''" and len = 8 and toks = ?buf] by (auto simp: Let_def split: prod.splits)
qed

section \<open>What a leaf stands for\<close>

text \<open>A primitive is a run of the scanner that ends at a separator, a string one that ends at its quote.\<close>

definition lexeme_ok :: "string \<Rightarrow> nat \<Rightarrow> jsmntok_t \<Rightarrow> bool" where
  "lexeme_ok js len t \<longleftrightarrow>
    (tok_type t = JSMN_PRIMITIVE \<longrightarrow> starts_primitive (js ! nat (tok_start t))
       \<and> prim_scan js len (nat (tok_start t)) = Found (nat (tok_end t)))
    \<and> (tok_type t = JSMN_STRING \<longrightarrow> str_scan js len (nat (tok_start t)) = Found (nat (tok_end t)))"

definition lexemes_ok :: "string \<Rightarrow> nat \<Rightarrow> jsmn_parser \<Rightarrow> jsmntok_t list option \<Rightarrow> bool" where
  "lexemes_ok js len p tokens \<longleftrightarrow>
    (case tokens of None \<Rightarrow> True | Some toks \<Rightarrow> \<forall>i < toknext p. i < length toks \<longrightarrow> lexeme_ok js len (toks ! i))"

lemma lexeme_size [simp]: "lexeme_ok js len (t\<lparr>tok_size := n\<rparr>) = lexeme_ok js len t"
  by (simp add: lexeme_ok_def)

lemma lexeme_container: "is_container (tok_type t) \<Longrightarrow> lexeme_ok js len t"
  by (auto simp: lexeme_ok_def is_container_def)

lemma lexeme_size_up [simp]: "lexeme_ok js len (size_up toks k ! i) = lexeme_ok js len (toks ! i)"
  by (cases "k < length toks"; cases "i = k") (simp_all add: list_update_beyond)

lemma nat_Suc_int [simp]: "nat (1 + int k) = Suc k"
  by simp

lemma lexemes_child: "lexemes_ok js len p (Some toks) \<Longrightarrow> lexemes_ok js len p (Some (count_child q toks))"
  by (simp add: lexemes_ok_def count_child_def)

lemma lexemes_pos [simp]: "lexemes_ok js len (p\<lparr>pos := q\<rparr>) tokens = lexemes_ok js len p tokens"
    "lexemes_ok js len (p\<lparr>toksuper := u\<rparr>) tokens = lexemes_ok js len p tokens"
  by (cases tokens; simp add: lexemes_ok_def)+

lemma lexemes_add:
  assumes "lexemes_ok js len p (Some toks)" "add_token p toks n ty a e = Some (p', toks')"
    and "lexeme_ok js len \<lparr>tok_type = ty, tok_start = a, tok_end = e, tok_size = 0\<rparr>"
  shows "lexemes_ok js len p' (Some toks')"
proof (cases "toknext p < length toks")
  case True
  then show ?thesis using add_token_facts [OF assms(2)] assms(1,3)
    by (auto simp: lexemes_ok_def nth_list_update less_Suc_eq)
next
  case False
  then have "toks' = toks"
    using assms(2) by (auto simp: add_token_def jsmn_alloc_token_def Let_def list_update_beyond split: if_splits)
  then show ?thesis using add_token_facts [OF assms(2)] assms(1) False by (auto simp: lexemes_ok_def less_Suc_eq)
qed

lemma lexemes_string:
  assumes "lexemes_ok js len p (Some toks)"
    and "value_done (jsmn_parse_string p js len (Some toks) n) count = Inr (p', tokens', count')"
  shows "lexemes_ok js len p' tokens'"
proof -
  obtain q p1 toks1 where q: "str_scan js len (Suc (pos p)) = Found q"
      and add: "add_token p toks n JSMN_STRING (int (Suc (pos p))) (int q) = Some (p1, toks1)"
      and r: "p' = p1\<lparr>pos := q\<rparr>" "tokens' = Some (count_child p1 toks1)"
    using assms(2) by (auto simp: value_done_def jsmn_parse_string_def Let_def jsmn_errors split: scan.splits option.splits)
  have "lexemes_ok js len p1 (Some toks1)"
    by (rule lexemes_add [OF assms(1) add]) (use q in \<open>simp add: lexeme_ok_def\<close>)
  then show ?thesis by (simp add: r lexemes_child)
qed

lemma lexemes_primitive:
  assumes "lexemes_ok js len p (Some toks)" "starts_primitive (js ! pos p)"
    and "value_done (jsmn_parse_primitive p js len (Some toks) n) count = Inr (p', tokens', count')"
  shows "lexemes_ok js len p' tokens'"
proof -
  obtain q p1 toks1 where q: "prim_scan js len (pos p) = Found q"
      and add: "add_token p toks n JSMN_PRIMITIVE (int (pos p)) (int q) = Some (p1, toks1)"
      and r: "p' = p1\<lparr>pos := q - 1\<rparr>" "tokens' = Some (count_child p1 toks1)"
    using assms(3) by (auto simp: value_done_def jsmn_parse_primitive_def Let_def jsmn_errors split: scan.splits option.splits)
  have "lexemes_ok js len p1 (Some toks1)"
    by (rule lexemes_add [OF assms(1) add]) (use q assms(2) in \<open>simp add: lexeme_ok_def\<close>)
  then show ?thesis by (simp add: r lexemes_child)
qed

lemma lexemes_open:
  assumes "lexemes_ok js len p (Some toks)" "open_bracket c p (Some toks) n count = Inr (p', tokens', count')"
  shows "lexemes_ok js len p' tokens'"
proof -
  let ?fresh = "(toks ! toknext p)\<lparr>tok_start := -1, tok_end := -1, tok_size := 0\<rparr>"
  let ?p1 = "p\<lparr>toknext := Suc (toknext p)\<rparr>" let ?toks1 = "count_child ?p1 (toks[toknext p := ?fresh])"
  have r: "p' = ?p1\<lparr>toksuper := int (toknext p)\<rparr>"
      "tokens' = Some (?toks1[toknext p := (?toks1 ! toknext p)\<lparr>tok_type := (if c = CHR ''{'' then JSMN_OBJECT else JSMN_ARRAY),
        tok_start := int (pos p)\<rparr>])"
    using assms(2) by (auto simp: open_bracket_def Let_def split: option.splits if_splits dest!: alloc_facts)
  show ?thesis using assms(1)
    by (auto simp: r lexemes_ok_def count_child_def nth_list_update less_Suc_eq is_container_def intro: lexeme_container)
qed

lemma lexemes_close:
  assumes "lexemes_ok js len p (Some toks)" "close_bracket c p (Some toks) count = Inr (p', tokens', count')"
  shows "lexemes_ok js len p' tokens'"
proof -
  obtain i where i: "last_open toks (toknext p) = Some i"
    using assms(2) by (auto simp: close_bracket_def split: option.splits)
  have "is_container (tok_type (toks ! i))" "toknext p' = toknext p"
      "tokens' = Some (toks[i := (toks ! i)\<lparr>tok_end := int (pos p) + 1\<rparr>])"
    using assms(2) i by (auto simp: close_bracket_def Let_def is_container_def split: if_splits)
  moreover have "lexeme_ok js len (toks[i := (toks ! i)\<lparr>tok_end := int (pos p) + 1\<rparr>] ! k)"
    if "lexeme_ok js len (toks ! k)" "is_container (tok_type (toks ! i))" for k
    using that by (cases "i < length toks"; cases "k = i") (simp_all add: list_update_beyond lexeme_container)
  ultimately show ?thesis using assms(1) by (simp add: lexemes_ok_def)
qed

lemma step_lexemes:
  assumes "lexemes_ok js len p (Some toks)" "jsmn_step js len n (p, Some toks, count) = Inr (p', tokens', count')"
  shows "lexemes_ok js len p' tokens'"
proof -
  have "lexemes_ok js len (after_comma p (Some toks)) (Some toks)"
    using assms(1) by (auto simp: after_comma_def split: option.split)
  then show ?thesis
    using assms lexemes_open [OF assms(1)] lexemes_close [OF assms(1)] lexemes_string [OF assms(1)]
      lexemes_primitive [OF assms(1)]
    by (auto simp: jsmn_step_def Let_def split: if_splits)
qed

lemma loop_lexemes:
  assumes "lexemes_ok js len p (Some toks)" "parser_ok len toks0 p toks"
    and "jsmn_loop js len (length toks0) (p, Some toks, toknext p) = (r, p', tokens)" "0 \<le> r"
  shows "lexemes_ok js len p' tokens"
  using assms
proof (induction "len - pos p" arbitrary: p toks rule: less_induct)
  case less
  have l: "length toks = length toks0" using less.prems(2) by (simp add: parser_ok_def)
  show ?case
  proof (cases "has_byte js len (pos p)")
    case False
    then show ?thesis using less.prems by (auto simp: jsmn_loop.simps jsmn_finish_def jsmn_errors split: if_splits)
  next
    case True
    note keeps = step_keeps [OF less.prems(2) True, unfolded l]
    show ?thesis
    proof (cases "jsmn_step js len (length toks0) (p, Some toks, toknext p)")
      case (Inl a)
      then show ?thesis using keeps True less.prems(3,4)
        by (auto simp: jsmn_loop.simps [of js len "length toks0" p] branch_keeps_def split: prod.splits)
    next
      case (Inr b)
      obtain p1 tokens1 count1 where b: "b = (p1, tokens1, count1)" by (cases b)
      with keeps Inr obtain toks1 where n: "tokens1 = Some toks1" "count1 = toknext p1"
        and ok: "parser_ok len toks0 (p1\<lparr>pos := Suc (pos p1)\<rparr>) toks1" by (auto simp: branch_keeps_def)
      have "len - pos (p1\<lparr>pos := Suc (pos p1)\<rparr>) < len - pos p"
        using step_pos [OF Inr [unfolded b]] True by (auto simp: has_byte_def)
      moreover have "lexemes_ok js len (p1\<lparr>pos := Suc (pos p1)\<rparr>) (Some toks1)"
        using step_lexemes [OF less.prems(1) Inr [unfolded b]] n by simp
      ultimately show ?thesis
      proof (rule less.hyps [OF _ _ ok _ less.prems(4)])
        show "jsmn_loop js len (length toks0) (p1\<lparr>pos := Suc (pos p1)\<rparr>, Some toks1, toknext (p1\<lparr>pos := Suc (pos p1)\<rparr>)) = (r, p', tokens)"
          using less.prems(3) True Inr b n by (simp add: jsmn_loop.simps [of js len "length toks0" p])
      qed
    qed
  qed
qed

text \<open>An accepted document, in one statement for those who use its tokens.\<close>

lemma accepted_tokens:
  assumes "jsmn_parse jsmn_init js len (Some buf) (length buf) = (r, p, Some toks)" "0 \<le> r"
  shows "length toks = length buf" "toknext p \<le> length toks" "r = int (toknext p)" "forest (sizes p toks)"
    and "\<And>i. i < toknext p \<Longrightarrow> tok_ok len (toks ! i) \<and> \<not> tok_open (toks ! i) \<and> lexeme_ok js len (toks ! i)"
    and "\<And>i k. i < k \<Longrightarrow> k < toknext p \<Longrightarrow> tok_start (toks ! k) < tok_end (toks ! i) \<Longrightarrow> k < reach (sizes p toks) i"
proof -
  have run: "jsmn_loop js len (length buf) (jsmn_init, Some buf, toknext jsmn_init) = (r, p, Some toks)"
    using assms(1) by (simp add: jsmn_parse_def)
  have ok: "parser_ok len buf p toks" "\<forall>i < toknext p. \<not> tok_open (toks ! i)" "r = int (toknext p)"
    using loop_keeps [OF parser_ok_init [of len buf], of js] run assms(2) by auto
  have "lexemes_ok js len p (Some toks)"
    by (rule loop_lexemes [OF _ parser_ok_init run assms(2)]) (simp add: lexemes_ok_def jsmn_init_def)
  then have "\<forall>i < toknext p. lexeme_ok js len (toks ! i)"
    using ok(1) by (auto simp: lexemes_ok_def parser_ok_def)
  then show "\<And>i. i < toknext p \<Longrightarrow> tok_ok len (toks ! i) \<and> \<not> tok_open (toks ! i) \<and> lexeme_ok js len (toks ! i)"
    using ok by (auto simp: parser_ok_def intro: tok_ok_mono)
  show "\<And>i k. i < k \<Longrightarrow> k < toknext p \<Longrightarrow> tok_start (toks ! k) < tok_end (toks ! i) \<Longrightarrow> k < reach (sizes p toks) i"
    using ok by (auto simp: parser_ok_def nested_def)
qed (use assms loop_keeps [OF parser_ok_init [of len buf], of js] in \<open>auto simp: jsmn_parse_def jsmn_init_def parser_ok_def\<close>)

section \<open>Only the document is read\<close>

definition same_text :: "nat \<Rightarrow> string \<Rightarrow> string \<Rightarrow> bool" where
  "same_text len js js' \<longleftrightarrow> (\<forall>q < len. js ! q = js' ! q)"

lemma same_more: "same_text len js js' \<Longrightarrow> has_byte js len q = has_byte js' len q"
  by (auto simp: same_text_def has_byte_def)

lemma same_nth: "same_text len js js' \<Longrightarrow> q < len \<Longrightarrow> js ! q = js' ! q"
  by (simp add: same_text_def)

lemma hex_scan_same: "same_text len js js' \<Longrightarrow> hex_scan js len i q = hex_scan js' len i q"
proof (induction js len i q rule: hex_scan.induct)
  case (1 js len i q)
  then show ?case
    by (cases "i < 4 \<and> has_byte js len q")
      (auto simp: hex_scan.simps [of _ len i q] same_more same_nth has_byte_def)
qed

lemma prim_scan_same: "same_text len js js' \<Longrightarrow> prim_scan js len q = prim_scan js' len q"
proof (induction js len q rule: prim_scan.induct)
  case (1 js len q)
  then show ?case
    by (cases "has_byte js len q")
      (auto simp: prim_scan.simps [of _ len q] same_more same_nth has_byte_def)
qed

lemma str_scan_same: "same_text len js js' \<Longrightarrow> str_scan js len q = str_scan js' len q"
proof (induction js len q rule: str_scan.induct)
  case (1 js len q)
  note same = 1(4)
  show ?case
  proof (cases "has_byte js len q")
    case False
    then show ?thesis using same_more [OF same] by (simp add: str_scan.simps [of _ len q])
  next
    case True
    then have q: "js' ! q = js ! q" using same by (simp add: same_text_def has_byte_def)
    have e: "Suc q < len \<Longrightarrow> js' ! Suc q = js ! Suc q" using same by (simp add: same_text_def)
    note IH = 1(1-3) [OF True refl]
    show ?thesis
      using IH same True q e
      by (simp add: str_scan.simps [of _ len q] same_more [OF same, symmetric] Let_def
          hex_scan_same [OF same, symmetric] split: option.split)
  qed
qed

lemma step_same:
  assumes "same_text len js js'" "pos p < len"
  shows "jsmn_step js len n (p, tokens, count) = jsmn_step js' len n (p, tokens, count)"
proof -
  have "jsmn_parse_string p js len = jsmn_parse_string p js' len"
    "jsmn_parse_primitive p js len = jsmn_parse_primitive p js' len"
    by (simp_all add: fun_eq_iff jsmn_parse_string_def jsmn_parse_primitive_def
        str_scan_same [OF assms(1)] prim_scan_same [OF assms(1)])
  then show ?thesis by (simp only: jsmn_step_def prod.case same_nth [OF assms])
qed

lemma jsmn_loop_same:
  assumes "same_text len js js'"
  shows "jsmn_loop js len n (p, tokens, count) = jsmn_loop js' len n (p, tokens, count)"
proof (induction "len - pos p" arbitrary: p tokens count rule: less_induct)
  case less
  show ?case
  proof (cases "has_byte js len (pos p)")
    case True
    then have q: "pos p < len" by (simp add: has_byte_def)
    have "jsmn_loop js len n (p'\<lparr>pos := Suc (pos p')\<rparr>, tokens', count')
        = jsmn_loop js' len n (p'\<lparr>pos := Suc (pos p')\<rparr>, tokens', count')"
      if "jsmn_step js' len n (p, tokens, count) = Inr (p', tokens', count')" for p' tokens' count'
      using step_pos [OF that] q by (intro less) auto
    then show ?thesis
      using step_same [OF assms q] True
      by (auto simp: jsmn_loop.simps [of _ len n p] same_more [OF assms] split: sum.split)
  qed (simp add: jsmn_loop.simps [of _ len n p] same_more [OF assms])
qed

text \<open>Bytes behind the document make no difference: a section can be parsed in place.\<close>

lemma jsmn_parse_same: "same_text len js js' \<Longrightarrow> jsmn_parse p js len tokens n = jsmn_parse p js' len tokens n"
  by (simp add: jsmn_parse_def jsmn_loop_same)

end
