(* ===== verification/Json_Text.thy ===== *)
theory Json_Text
  imports Jsmn_Trees
begin

text \<open>
  What the tokenizer is for: JSON. A document is a datatype with its white space, its text and the tokens
  that describe it are functions of it, and reading the text gives the tokens. A container within a document
  can be cut out and read on its own, as the sections of a configuration are.
\<close>

section \<open>Documents\<close>

datatype json =
    Prim string
  | Quoted string
  | Arr "item list" string
  | Obj "member list" string
and item = Item string json string
and member = Member string string string string json string

text \<open>The text: \<open>Item a v b\<close> is a value with the white space around it, \<open>Member a k b c v d\<close> the
  same of a key, its colon and its value; the last white space of a container is before its end.\<close>

primrec jtext :: "json \<Rightarrow> string" and jitems :: "item list \<Rightarrow> string" and jitem :: "item \<Rightarrow> string"
  and jmembers :: "member list \<Rightarrow> string" and jmember :: "member \<Rightarrow> string" where
  "jtext (Prim s) = s"
| "jtext (Quoted s) = CHR 0x22 # s @ [CHR 0x22]"
| "jtext (Arr xs w) = CHR ''['' # jitems xs @ w @ [CHR '']'']"
| "jtext (Obj ms w) = CHR ''{'' # jmembers ms @ w @ [CHR ''}'']"
| "jitems [] = []"
| "jitems (x # xs) = jitem x @ (if xs = [] then [] else CHR '','' # jitems xs)"
| "jitem (Item a v b) = a @ jtext v @ b"
| "jmembers [] = []"
| "jmembers (m # ms) = jmember m @ (if ms = [] then [] else CHR '','' # jmembers ms)"
| "jmember (Member a k b c v d) = a @ (CHR 0x22 # k @ [CHR 0x22]) @ b @ [CHR '':''] @ c @ jtext v @ d"

text \<open>The body of a string: no quote, no zero, and every backslash begins an escape.\<close>

fun body_ok :: "string \<Rightarrow> bool" where
  "body_ok [] \<longleftrightarrow> True"
| "body_ok (c # cs) \<longleftrightarrow>
    (if c = CHR 0x5C then
       (case cs of e # es \<Rightarrow>
          (if simple_escape e then body_ok es
           else if e = CHR ''u'' then length es \<ge> 4 \<and> (\<forall>h \<in> set (take 4 es). is_hex h) \<and> body_ok (drop 4 es)
           else False)
        | [] \<Rightarrow> False)
     else c \<noteq> CHR 0x22 \<and> c \<noteq> NUL \<and> body_ok cs)"

definition plain :: "char \<Rightarrow> bool" where
  "plain c \<longleftrightarrow> \<not> ends_primitive c \<and> 32 \<le> (of_char c :: nat) \<and> (of_char c :: nat) < 127"

definition ws :: "string \<Rightarrow> bool" where
  "ws w \<longleftrightarrow> list_all is_ws w"

primrec json_ok :: "json \<Rightarrow> bool" and items_ok :: "item list \<Rightarrow> bool" and item_ok :: "item \<Rightarrow> bool"
  and members_ok :: "member list \<Rightarrow> bool" and member_ok :: "member \<Rightarrow> bool" where
  "json_ok (Prim s) \<longleftrightarrow> s \<noteq> [] \<and> starts_primitive (hd s) \<and> list_all plain s"
| "json_ok (Quoted s) \<longleftrightarrow> body_ok s"
| "json_ok (Arr xs w) \<longleftrightarrow> items_ok xs \<and> ws w"
| "json_ok (Obj ms w) \<longleftrightarrow> members_ok ms \<and> ws w"
| "items_ok [] \<longleftrightarrow> True"
| "items_ok (x # xs) \<longleftrightarrow> item_ok x \<and> items_ok xs"
| "item_ok (Item a v b) \<longleftrightarrow> ws a \<and> json_ok v \<and> ws b"
| "members_ok [] \<longleftrightarrow> True"
| "members_ok (m # ms) \<longleftrightarrow> member_ok m \<and> members_ok ms"
| "member_ok (Member a k b c v d) \<longleftrightarrow> ws a \<and> body_ok k \<and> ws b \<and> ws c \<and> json_ok v \<and> ws d"

text \<open>The tokens of a document whose text begins at \<open>q\<close>: a container counts its elements, a key its value.\<close>

definition tok :: "jsmntype_t \<Rightarrow> nat \<Rightarrow> nat \<Rightarrow> nat \<Rightarrow> jsmntok_t" where
  "tok ty s e n = \<lparr>tok_type = ty, tok_start = int s, tok_end = int e, tok_size = int n\<rparr>"

primrec jtoks :: "json \<Rightarrow> nat \<Rightarrow> jsmntok_t list" and itoks :: "item list \<Rightarrow> nat \<Rightarrow> jsmntok_t list"
  and itok :: "item \<Rightarrow> nat \<Rightarrow> jsmntok_t list" and mtoks :: "member list \<Rightarrow> nat \<Rightarrow> jsmntok_t list"
  and mtok :: "member \<Rightarrow> nat \<Rightarrow> jsmntok_t list" where
  "jtoks (Prim s) q = [tok JSMN_PRIMITIVE q (q + length s) 0]"
| "jtoks (Quoted s) q = [tok JSMN_STRING (q + 1) (q + 1 + length s) 0]"
| "jtoks (Arr xs w) q = tok JSMN_ARRAY q (q + length (jtext (Arr xs w))) (length xs) # itoks xs (q + 1)"
| "jtoks (Obj ms w) q = tok JSMN_OBJECT q (q + length (jtext (Obj ms w))) (length ms) # mtoks ms (q + 1)"
| "itoks [] q = []"
| "itoks (x # xs) q = itok x q @ itoks xs (q + length (jitem x) + 1)"
| "itok (Item a v b) q = jtoks v (q + length a)"
| "mtoks [] q = []"
| "mtoks (m # ms) q = mtok m q @ mtoks ms (q + length (jmember m) + 1)"
| "mtok (Member a k b c v d) q =
    tok JSMN_STRING (q + length a + 1) (q + length a + 1 + length k) 1
    # jtoks v (q + length a + length k + length b + length c + 3)"

definition container :: "json \<Rightarrow> bool" where
  "container v \<longleftrightarrow> (case v of Arr _ _ \<Rightarrow> True | Obj _ _ \<Rightarrow> True | _ \<Rightarrow> False)"

section \<open>Text in its place\<close>

definition text_at :: "string \<Rightarrow> nat \<Rightarrow> nat \<Rightarrow> string \<Rightarrow> bool" where
  "text_at js len q s \<longleftrightarrow> q + length s \<le> len \<and> (\<forall>i < length s. js ! (q + i) = s ! i)"

lemma text_at_Nil [simp]: "text_at js len q [] \<longleftrightarrow> q \<le> len"
  by (simp add: text_at_def)

lemma text_at_Cons [simp]: "text_at js len q (c # s) \<longleftrightarrow> q < len \<and> js ! q = c \<and> text_at js len (Suc q) s"
  by (auto simp: text_at_def all_less_Suc_iff)

lemma text_at_le: "text_at js len q s \<Longrightarrow> q + length s \<le> len"
  by (simp add: text_at_def)

lemma text_at_append [simp]: "text_at js len q (a @ b) \<longleftrightarrow> text_at js len q a \<and> text_at js len (q + length a) b"
  by (induction a arbitrary: q) (auto dest: text_at_le)

lemma text_at_self: "text_at (a @ s @ b) (length (a @ s @ b)) (length a) s"
  by (auto simp: text_at_def nth_append)

section \<open>Scanning\<close>

lemma prim_scan_text:
  "list_all plain s \<Longrightarrow> text_at js len q s \<Longrightarrow> q + length s < len \<Longrightarrow> ends_primitive (js ! (q + length s)) \<Longrightarrow>
    prim_scan js len q = Found (q + length s)"
proof (induction s arbitrary: q)
  case Nil
  then show ?case by (auto simp: prim_scan.simps [of js len q] has_byte_def ends_primitive_def is_ws_def NUL_def)
next
  case (Cons c s)
  have "c \<noteq> NUL" using Cons.prems(1) by (auto simp: plain_def NUL_def)
  then show ?case using Cons.prems Cons.IH [of "Suc q"]
    by (simp add: prim_scan.simps [of js len q] has_byte_def plain_def not_less not_le)
qed

lemma hex_scan_text:
  "\<forall>h \<in> set s. is_hex h \<Longrightarrow> text_at js len q s \<Longrightarrow> i + length s = 4 \<Longrightarrow> hex_scan js len i q = Some (q + length s)"
proof (induction s arbitrary: i q)
  case Nil
  then show ?case by (subst hex_scan.simps) simp
next
  case (Cons c s)
  have "c \<noteq> NUL" using Cons.prems(1) by (auto simp: is_hex_def NUL_def)
  then show ?case using Cons.prems Cons.IH [of "Suc q" "Suc i"]
    by (simp add: hex_scan.simps [of js len i q] has_byte_def)
qed

lemma str_scan_text:
  "body_ok s \<Longrightarrow> text_at js len q (s @ [CHR 0x22]) \<Longrightarrow> str_scan js len q = Found (q + length s)"
proof (induction s arbitrary: q rule: body_ok.induct)
  case 1
  then show ?case by (simp add: str_scan.simps [of js len q] has_byte_def NUL_def)
next
  case (2 c cs)
  show ?case
  proof (cases "c = CHR 0x5C")
    case False
    then show ?thesis using 2(3) [OF False, of "Suc q"] 2(4,5)
      by (simp add: str_scan.simps [of js len q] has_byte_def)
  next
    case True
    then obtain e es where cs: "cs = e # es" using 2(4) by (auto split: list.splits)
    note esc = True 2(4,5) [unfolded cs]
    show ?thesis
    proof (cases "simple_escape e")
      case s: True
      show ?thesis using 2(1) [OF True cs s, of "Suc (Suc q)"] esc s cs
        by (simp add: str_scan.simps [of js len q] has_byte_def NUL_def Let_def)
    next
      case False
      define hs where "hs = take 4 es"
      define rs where "rs = drop 4 es"
      have u: "e = CHR ''u''" and es: "es = hs @ rs" "length hs = 4" "\<forall>h \<in> set hs. is_hex h" "body_ok rs"
        using esc(2) True False by (auto simp: hs_def rs_def min_def split: if_splits)
      have hex: "hex_scan js len 0 (Suc (Suc q)) = Some (Suc (Suc q) + 4)"
        using hex_scan_text [OF es(3), of js len "Suc (Suc q)" 0] esc(3) es(1,2) by simp
      have "str_scan js len (Suc (Suc q) + 4) = Found (Suc (Suc q) + 4 + length rs)"
        using 2(2) [OF True cs False u, of "Suc (Suc q) + 4"] esc(3) es
        by (simp add: rs_def [symmetric])
      then show ?thesis using hex True False u cs es(1,2) esc(3)
        by (simp add: str_scan.simps [of js len q] has_byte_def NUL_def Let_def)
    qed
  qed
qed

section \<open>Reading the parts of a document\<close>

text \<open>The tokenizer at \<open>q\<close>, with the tokens \<open>used\<close> so far and the room behind them.\<close>

definition st :: "nat \<Rightarrow> jsmntok_t list \<Rightarrow> jsmntok_t list \<Rightarrow> int \<Rightarrow> jsmn_state" where
  "st q used free u = (\<lparr>pos = q, toknext = length used, toksuper = u\<rparr>, Some (used @ free), length used)"

definition gets_to :: "string \<Rightarrow> nat \<Rightarrow> nat \<Rightarrow> jsmn_state \<Rightarrow> jsmn_state \<Rightarrow> bool" where
  "gets_to js len n a b \<longleftrightarrow> jsmn_loop js len n a = jsmn_loop js len n b"

lemma gets_to_refl [simp]: "gets_to js len n a a"
  by (simp add: gets_to_def)

lemma gets_to_trans [trans]: "gets_to js len n a b \<Longrightarrow> gets_to js len n b c \<Longrightarrow> gets_to js len n a c"
  by (simp add: gets_to_def)

definition bumps :: "nat \<Rightarrow> nat \<Rightarrow> jsmntok_t list \<Rightarrow> jsmntok_t list" where
  "bumps k m used = used[k := (used ! k)\<lparr>tok_size := tok_size (used ! k) + int m\<rparr>]"

definition bump :: "int \<Rightarrow> jsmntok_t list \<Rightarrow> jsmntok_t list" where
  "bump u used = (if u = -1 then used else bumps (nat u) 1 used)"

lemma length_bumps [simp]: "length (bumps k m used) = length used" by (simp add: bumps_def)
lemma length_bump [simp]: "length (bump u used) = length used" by (simp add: bump_def)
lemma bump_int [simp]: "bump (int k) used = bumps k 1 used" by (simp add: bump_def)

lemma bumps_zero [simp]: "bumps k 0 used = used" by (simp add: bumps_def)

lemma bumps_append [simp]: "k < length used \<Longrightarrow> bumps k m (used @ ts) = bumps k m used @ ts"
  by (simp add: bumps_def nth_append list_update_append1)

lemma bumps_bumps [simp]: "k < length used \<Longrightarrow> bumps k a (bumps k b used) = bumps k (a + b) used"
  by (simp add: bumps_def ac_simps)

definition super_ok :: "int \<Rightarrow> jsmntok_t list \<Rightarrow> bool" where
  "super_ok u used \<longleftrightarrow> u = -1 \<or> 0 \<le> u \<and> nat u < length used"

text \<open>A value may come here: in no container, in an array, or behind a key that has none yet.\<close>

definition place_ok :: "int \<Rightarrow> jsmntok_t list \<Rightarrow> bool" where
  "place_ok u used \<longleftrightarrow> u = -1 \<or> 0 \<le> u \<and> nat u < length used \<and>
    (tok_type (used ! nat u) = JSMN_ARRAY \<or> tok_type (used ! nat u) = JSMN_STRING \<and> tok_size (used ! nat u) = 0)"

lemma place_super: "place_ok u used \<Longrightarrow> super_ok u used"
  by (auto simp: place_ok_def super_ok_def)

text \<open>The innermost open container is \<open>k\<close>.\<close>

definition innermost :: "jsmntok_t list \<Rightarrow> nat \<Rightarrow> bool" where
  "innermost used k \<longleftrightarrow> k < length used \<and> tok_open (used ! k) \<and> is_container (tok_type (used ! k))
    \<and> (\<forall>j. k < j \<and> j < length used \<longrightarrow> \<not> tok_open (used ! j))"

lemma innermost_append: "innermost used k \<Longrightarrow> list_all (\<lambda>t. \<not> tok_open t) ts \<Longrightarrow> innermost (used @ ts) k"
  by (auto simp: innermost_def nth_append list_all_length)

lemma tok_open_bumps [simp]: "tok_open (bumps i m used ! j) = tok_open (used ! j)"
  by (cases "i < length used"; cases "j = i") (simp_all add: bumps_def tok_open_def list_update_beyond)

lemma tok_type_bumps [simp]: "tok_type (bumps i m used ! j) = tok_type (used ! j)"
  by (cases "i < length used"; cases "j = i") (simp_all add: bumps_def list_update_beyond)

lemma innermost_bumps: "innermost used k \<Longrightarrow> innermost (bumps i m used) k"
  by (simp add: innermost_def)

lemma last_open_append: "k \<le> length pre \<Longrightarrow> last_open (pre @ ts) k = last_open pre k"
  by (induction pre k rule: last_open.induct) (auto simp: nth_append)

lemma last_open_bumps: "last_open (bumps i m used) k = last_open used k"
  by (induction used k rule: last_open.induct) simp_all

lemma last_open_is: "innermost used k \<Longrightarrow> last_open used (length used) = Some k"
proof (cases "last_open used (length used)")
  case None
  moreover assume "innermost used k"
  ultimately show ?thesis by (auto simp: last_open_None innermost_def)
next
  case (Some i)
  moreover assume "innermost used k"
  ultimately show ?thesis using last_open_Some [OF Some] by (auto simp: innermost_def) (meson linorder_neqE_nat)
qed

lemma last_open_container_is: "innermost used k \<Longrightarrow> last_open_container used (length used) = Some k"
proof -
  assume k: "innermost used k"
  have "k < m \<Longrightarrow> m \<le> length used \<Longrightarrow> last_open_container used m = Some k" for m
  proof (induction m)
    case (Suc m)
    then show ?case using k by (cases "k = m") (auto simp: innermost_def)
  qed simp
  then show ?thesis using k by (simp add: innermost_def)
qed

text \<open>One character.\<close>

lemma one_step:
  assumes "has_byte js len q" "jsmn_step js len n (st q used free u) = Inr (p, tokens, count)"
    and "(p\<lparr>pos := Suc (pos p)\<rparr>, tokens, count) = b"
  shows "gets_to js len n (st q used free u) b"
  using assms by (simp add: gets_to_def st_def jsmn_loop.simps [of js len n "\<lparr>pos = q, toknext = length used, toksuper = u\<rparr>"])

lemma read_ws:
  "ws w \<Longrightarrow> text_at js len q w \<Longrightarrow> gets_to js len n (st q used free u) (st (q + length w) used free u)"
proof (induction w arbitrary: q)
  case (Cons c w)
  have c: "is_ws c" "ws w" and at: "q < len" "js ! q = c" "text_at js len (Suc q) w"
    using Cons.prems by (auto simp: ws_def)
  have "has_byte js len q" using c(1) at by (auto simp: has_byte_def is_ws_def NUL_def)
  moreover have "jsmn_step js len n (st q used free u) = Inr (st q used free u)"
    using c(1) at by (auto simp: jsmn_step_def st_def is_ws_def)
  ultimately have "gets_to js len n (st q used free u) (st (Suc q) used free u)"
    by (intro one_step) (auto simp: st_def)
  then show ?case using Cons.IH [OF c(2) at(3)] gets_to_trans by fastforce
qed simp

lemma read_colon:
  assumes "q < len" "js ! q = CHR '':''"
  shows "gets_to js len n (st q used free u) (st (Suc q) used free (int (length used) - 1))"
  using assms by (intro one_step) (auto simp: has_byte_def NUL_def jsmn_step_def st_def is_ws_def)

lemma read_comma:
  assumes "q < len" "js ! q = CHR '',''" and k: "innermost used k"
    and u: "u = int k \<or> 0 \<le> u \<and> nat u < length used \<and> \<not> is_container (tok_type (used ! nat u))"
  shows "gets_to js len n (st q used free u) (st (Suc q) used free (int k))"
proof -
  have "last_open_container (used @ free) m = last_open_container used m" if "m \<le> length used" for m
    using that by (induction m) (auto simp: nth_append)
  then have "after_comma \<lparr>pos = q, toknext = length used, toksuper = u\<rparr> (Some (used @ free))
      = \<lparr>pos = q, toknext = length used, toksuper = int k\<rparr>"
    using u k last_open_container_is [OF k] by (auto simp: after_comma_def nth_append innermost_def)
  then show ?thesis
    using assms(1,2) by (intro one_step) (auto simp: has_byte_def NUL_def jsmn_step_def st_def is_ws_def)
qed

text \<open>A token without children.\<close>

lemma count_child_at:
  assumes "super_ok u used"
  shows "count_child \<lparr>pos = q, toknext = m, toksuper = u\<rparr> (used @ ts) = bump u used @ ts"
  using assms by (auto simp: super_ok_def count_child_def bump_def bumps_def nth_append list_update_append1)

lemma add_token_at:
  "add_token \<lparr>pos = q, toknext = length used, toksuper = u\<rparr> (used @ t # free) (Suc (length used + length free)) ty a e
    = Some (\<lparr>pos = q, toknext = Suc (length used), toksuper = u\<rparr>,
        (used @ [\<lparr>tok_type = ty, tok_start = a, tok_end = e, tok_size = 0\<rparr>]) @ free)"
  by (simp add: add_token_def jsmn_alloc_token_def Let_def)

definition delim :: "string \<Rightarrow> nat \<Rightarrow> nat \<Rightarrow> bool" where
  "delim js len q \<longleftrightarrow> q < len \<and> ends_primitive (js ! q)"

lemma read_prim:
  assumes s: "json_ok (Prim s)" and at: "text_at js len q s" and d: "delim js len (q + length s)"
    and u: "place_ok u used" and n: "n = length used + Suc (length free)"
  shows "gets_to js len n (st q used (t # free) u)
    (st (q + length s) (bump u used @ [tok JSMN_PRIMITIVE q (q + length s) 0]) free u)"
proof -
  obtain c cs where cs: "s = c # cs" "starts_primitive c" using s by (cases s) auto
  have scan: "prim_scan js len q = Found (q + length s)"
    using prim_scan_text [of s js len q] s at d by (simp add: delim_def)
  have c: "js ! q = c" "q < len" using at cs by auto
  have kind: "c \<notin> {CHR ''{'', CHR ''['', CHR ''}'', CHR '']'', CHR 0x22, CHR '':'', CHR '','', NUL}" "\<not> is_ws c"
    using cs(2) by (auto simp: starts_primitive_def is_ws_def NUL_def)
  have "\<not> primitive_misplaced \<lparr>pos = q, toknext = length used, toksuper = u\<rparr> (Some (used @ t # free))"
    using u by (auto simp: primitive_misplaced_def place_ok_def nth_append Let_def)
  then have "jsmn_step js len n (st q used (t # free) u) =
      Inr (\<lparr>pos = q + length cs, toknext = Suc (length used), toksuper = u\<rparr>,
        Some (bump u used @ [tok JSMN_PRIMITIVE q (q + length s) 0] @ free), Suc (length used))"
    using c kind cs(2) n count_child_at [OF place_super [OF u]]
    by (simp add: jsmn_step_def st_def value_done_def jsmn_parse_primitive_def scan Let_def add_token_at tok_def cs(1))
  then show ?thesis
    using c kind cs(1) by (intro one_step) (auto simp: has_byte_def st_def)
qed

lemma read_string:
  assumes s: "body_ok s" and at: "text_at js len q (CHR 0x22 # s @ [CHR 0x22])"
    and u: "super_ok u used" and n: "n = length used + Suc (length free)"
  shows "gets_to js len n (st q used (t # free) u)
    (st (q + length s + 2) (bump u used @ [tok JSMN_STRING (q + 1) (q + 1 + length s) 0]) free u)"
proof -
  have scan: "str_scan js len (Suc q) = Found (Suc q + length s)"
    using str_scan_text [of s js len "Suc q"] s at by simp
  have "jsmn_step js len n (st q used (t # free) u) =
      Inr (\<lparr>pos = Suc q + length s, toknext = Suc (length used), toksuper = u\<rparr>,
        Some (bump u used @ [tok JSMN_STRING (q + 1) (q + 1 + length s) 0] @ free), Suc (length used))"
    using at n count_child_at [OF u]
    by (simp add: jsmn_step_def st_def value_done_def jsmn_parse_string_def scan Let_def add_token_at tok_def)
  then show ?thesis
    using at by (intro one_step) (auto simp: has_byte_def st_def NUL_def)
qed

text \<open>Brackets.\<close>

definition open_tok :: "jsmntype_t \<Rightarrow> nat \<Rightarrow> jsmntok_t" where
  "open_tok ty q = \<lparr>tok_type = ty, tok_start = int q, tok_end = -1, tok_size = 0\<rparr>"

lemma innermost_open: "is_container ty \<Longrightarrow> innermost (used @ [open_tok ty q]) (length used)"
  by (simp add: innermost_def open_tok_def tok_open_def)

lemma read_open:
  assumes c: "js ! q = (if ty = JSMN_OBJECT then CHR ''{'' else CHR ''['')" "q < len" and ty: "is_container ty"
    and u: "place_ok u used" and n: "n = Suc (length used + length free)"
  shows "gets_to js len n (st q used (t # free) u)
    (st (Suc q) (bump u used @ [open_tok ty q]) free (int (length used)))"
proof -
  have "count_child \<lparr>pos = q, toknext = Suc (length used), toksuper = u\<rparr> (used @ t' # free) = bump u used @ t' # free" for t'
    by (rule count_child_at [OF place_super [OF u]])
  then have "jsmn_step js len n (st q used (t # free) u) =
      Inr (\<lparr>pos = q, toknext = Suc (length used), toksuper = int (length used)\<rparr>,
        Some (bump u used @ open_tok ty q # free), Suc (length used))"
    using c ty u n
    by (auto simp: jsmn_step_def st_def open_bracket_def jsmn_alloc_token_def Let_def place_ok_def nth_append
        open_tok_def is_container_def list_update_append)
  then show ?thesis
    using c by (intro one_step) (auto simp: has_byte_def st_def NUL_def)
qed

lemma read_close:
  assumes c: "js ! q = (if ty = JSMN_OBJECT then CHR ''}'' else CHR '']'')" "q < len" and ty: "is_container ty"
    and t: "tok_type t = ty" "tok_open t" and post: "list_all (\<lambda>t. \<not> tok_open t) post"
  shows "gets_to js len n (st q (pre @ t # post) free u)
    (st (Suc q) (pre @ t\<lparr>tok_end := int q + 1\<rparr> # post) free (super_of (last_open pre (length pre))))"
proof -
  have "innermost (pre @ t # post) (length pre)"
    using t ty post by (auto simp: innermost_def nth_append nth_Cons' list_all_length)
  moreover have "last_open ((pre @ t # post) @ free) (length (pre @ t # post)) = last_open (pre @ t # post) (length (pre @ t # post))"
    by (rule last_open_append) simp
  ultimately have found: "last_open (pre @ t # post @ free) (Suc (length pre + length post)) = Some (length pre)"
    using last_open_is by fastforce
  have "last_open (pre @ t\<lparr>tok_end := int q + 1\<rparr> # post @ free) (Suc (length pre)) = last_open pre (length pre)"
    using last_open_append [of "length pre" pre] by (simp add: tok_open_def)
  then have "jsmn_step js len n (st q (pre @ t # post) free u) =
      Inr (\<lparr>pos = q, toknext = Suc (length pre + length post), toksuper = super_of (last_open pre (length pre))\<rparr>,
        Some (pre @ t\<lparr>tok_end := int q + 1\<rparr> # post @ free), Suc (length pre + length post))"
    using c ty t found
    by (auto simp: jsmn_step_def st_def close_bracket_def Let_def is_container_def is_ws_def simp del: last_open.simps)
  then show ?thesis
    using c by (intro one_step) (auto simp: has_byte_def st_def NUL_def)
qed

section \<open>Reading a document\<close>

lemma tok_closed [simp]: "\<not> tok_open (tok ty s e n)"
  by (simp add: tok_open_def tok_def)

lemma toks_closed:
  "list_all (\<lambda>t. \<not> tok_open t) (jtoks v q)"
  "list_all (\<lambda>t. \<not> tok_open t) (itoks xs q)"
  "list_all (\<lambda>t. \<not> tok_open t) (itok x q)"
  "list_all (\<lambda>t. \<not> tok_open t) (mtoks ms q)"
  "list_all (\<lambda>t. \<not> tok_open t) (mtok m q)"
  by (induction v and xs and x and ms and m arbitrary: q and q and q and q and q
      rule: jtext.induct jitems.induct jitem.induct jmembers.induct jmember.induct) simp_all

text \<open>Where \<open>toksuper\<close> is after a value: it stays, or is the container that is open.\<close>

definition after :: "json \<Rightarrow> int \<Rightarrow> jsmntok_t list \<Rightarrow> int" where
  "after v u used = (if container v then super_of (last_open used (length used)) else u)"

lemma delim_ws: "ws b \<Longrightarrow> text_at js len q b \<Longrightarrow> delim js len (q + length b) \<Longrightarrow> delim js len q"
  by (cases b) (auto simp: ws_def delim_def ends_primitive_def)

definition comma_ok :: "int \<Rightarrow> nat \<Rightarrow> jsmntok_t list \<Rightarrow> bool" where
  "comma_ok u k used \<longleftrightarrow> u = int k \<or> 0 \<le> u \<and> nat u < length used \<and> \<not> is_container (tok_type (used ! nat u))"

lemma comma_ok_append: "comma_ok u k used \<Longrightarrow> comma_ok u k (used @ ts)"
  by (auto simp: comma_ok_def nth_append)

lemma after_innermost: "innermost used k \<Longrightarrow> after v u used = (if container v then int k else u)"
  by (simp add: after_def last_open_is super_of_def)

lemma innermost_child: "innermost used k \<Longrightarrow> list_all (\<lambda>t. \<not> tok_open t) ts \<Longrightarrow> innermost (bumps i m used @ ts) k"
  by (simp add: innermost_append innermost_bumps)

lemma innermost_length: "innermost used k \<Longrightarrow> k < length used"
  by (simp add: innermost_def)

text \<open>What reading does to the tokens, for each sort of the syntax. \<open>n\<close> is the size of the array.\<close>

definition reads_json :: "string \<Rightarrow> nat \<Rightarrow> nat \<Rightarrow> json \<Rightarrow> bool" where
  "reads_json js len n v \<longleftrightarrow> (\<forall>q used free u. text_at js len q (jtext v) \<longrightarrow>
     container v \<or> delim js len (q + length (jtext v)) \<longrightarrow> place_ok u used \<longrightarrow>
     n = length used + length free \<longrightarrow> length (jtoks v q) \<le> length free \<longrightarrow>
     gets_to js len n (st q used free u)
       (st (q + length (jtext v)) (bump u used @ jtoks v q) (drop (length (jtoks v q)) free) (after v u used)))"

definition reads_part :: "string \<Rightarrow> nat \<Rightarrow> nat \<Rightarrow> jsmntype_t \<Rightarrow> string \<Rightarrow> nat \<Rightarrow> (nat \<Rightarrow> jsmntok_t list) \<Rightarrow> bool" where
  "reads_part js len n ty txt m toks \<longleftrightarrow> (\<forall>q used free k. text_at js len q txt \<longrightarrow> delim js len (q + length txt) \<longrightarrow>
     innermost used k \<longrightarrow> tok_type (used ! k) = ty \<longrightarrow>
     n = length used + length free \<longrightarrow> length (toks q) \<le> length free \<longrightarrow>
     (\<exists>u. comma_ok u k (used @ toks q) \<and>
       gets_to js len n (st q used free (int k))
         (st (q + length txt) (bumps k m used @ toks q) (drop (length (toks q)) free) u)))"

lemmas reads_jsonD = reads_json_def [THEN iffD1, rule_format]
lemmas reads_partD = reads_part_def [THEN iffD1, rule_format]

lemma reads_none: "reads_part js len n ty [] 0 (\<lambda>q. [])"
  by (auto simp: reads_part_def comma_ok_def intro!: exI [of _ "int _"])

text \<open>A part, a comma, and the rest.\<close>

lemma reads_more:
  assumes one: "reads_part js len n ty a 1 f" and rest: "reads_part js len n ty b m g" and ty: "is_container ty"
    and closed: "\<And>q. list_all (\<lambda>t. \<not> tok_open t) (f q)"
  shows "reads_part js len n ty (a @ CHR '','' # b) (Suc m) (\<lambda>q. f q @ g (q + length a + 1))"
  unfolding reads_part_def
proof (intro allI impI)
  fix q k and used free :: "jsmntok_t list"
  assume at: "text_at js len q (a @ CHR '','' # b)" and d: "delim js len (q + length (a @ CHR '','' # b))"
    and k: "innermost used k" "tok_type (used ! k) = ty" and n: "n = length used + length free"
    and room: "length (f q @ g (q + length a + 1)) \<le> length free"
  let ?q = "q + length a" and ?used = "bumps k 1 used @ f q" and ?free = "drop (length (f q)) free"
  have comma: "?q < len" "js ! ?q = CHR '',''" using at by auto
  have "delim js len ?q" using comma by (simp add: delim_def ends_primitive_def)
  then obtain u where u: "comma_ok u k (used @ f q)"
      and r1: "gets_to js len n (st q used free (int k)) (st ?q ?used ?free u)"
    using reads_partD [OF one, of q used k free] at k n room by auto
  have k': "innermost ?used k" "tok_type (?used ! k) = ty"
    using k innermost_length [OF k(1)] closed by (auto intro: innermost_child simp: nth_append)
  have "u = int k \<or> 0 \<le> u \<and> nat u < length ?used \<and> \<not> is_container (tok_type (?used ! nat u))"
    using u by (auto simp: comma_ok_def nth_append split: if_splits)
  from read_comma [OF comma k'(1) this]
  have r2: "gets_to js len n (st ?q ?used ?free u) (st (Suc ?q) ?used ?free (int k))" .
  have room': "length (g (Suc ?q)) \<le> length ?free" "length (f q) \<le> length free" using room by auto
  obtain u' where u': "comma_ok u' k (?used @ g (Suc ?q))"
      and r3: "gets_to js len n (st (Suc ?q) ?used ?free (int k))
        (st (Suc ?q + length b) (bumps k m ?used @ g (Suc ?q)) (drop (length (g (Suc ?q))) ?free) u')"
    using reads_partD [OF rest, of "Suc ?q" ?used k ?free] at d k' n room' by (auto simp: add.assoc)
  have "comma_ok u' k (used @ f q @ g (Suc ?q))"
    using u' by (auto simp: comma_ok_def nth_append split: if_splits)
  moreover have "gets_to js len n (st q used free (int k)) (st (Suc ?q + length b) (bumps k m ?used @ g (Suc ?q)) (drop (length (g (Suc ?q))) ?free) u')"
    using r1 r2 r3 by (blast intro: gets_to_trans)
  ultimately show "\<exists>u. comma_ok u k (used @ f q @ g (q + length a + 1)) \<and>
      gets_to js len n (st q used free (int k))
        (st (q + length (a @ CHR '','' # b)) (bumps k (Suc m) used @ f q @ g (q + length a + 1))
          (drop (length (f q @ g (q + length a + 1))) free) u)"
    using innermost_length [OF k(1)] by (auto simp: ac_simps intro!: exI [of _ u'])
qed

text \<open>An element of an array.\<close>

lemma reads_item:
  assumes v: "reads_json js len n v" and w: "ws a" "ws b"
  shows "reads_part js len n JSMN_ARRAY (a @ jtext v @ b) 1 (\<lambda>q. jtoks v (q + length a))"
  unfolding reads_part_def
proof (intro allI impI)
  fix q k and used free :: "jsmntok_t list"
  let ?q = "q + length a" let ?r = "?q + length (jtext v)"
  assume at: "text_at js len q (a @ jtext v @ b)" and d: "delim js len (q + length (a @ jtext v @ b))"
    and k: "innermost used k" "tok_type (used ! k) = JSMN_ARRAY" and n: "n = length used + length free"
    and room: "length (jtoks v ?q) \<le> length free"
  have at': "text_at js len q a" "text_at js len ?q (jtext v)" "text_at js len ?r b" using at by (auto simp: add.assoc)
  have dv: "delim js len ?r" using delim_ws [OF w(2) at'(3)] d by (simp add: add.assoc)
  have p: "place_ok (int k) used" using k innermost_length [OF k(1)] by (simp add: place_ok_def)
  have "gets_to js len n (st ?q used free (int k))
      (st ?r (bump (int k) used @ jtoks v ?q) (drop (length (jtoks v ?q)) free) (after v (int k) used))"
    by (rule reads_jsonD [OF v at'(2) disjI2 [OF dv] p n room])
  from gets_to_trans [OF gets_to_trans [OF read_ws [OF w(1) at'(1)] this] read_ws [OF w(2) at'(3)]]
  show "\<exists>u. comma_ok u k (used @ jtoks v ?q) \<and> gets_to js len n (st q used free (int k))
      (st (q + length (a @ jtext v @ b)) (bumps k 1 used @ jtoks v ?q) (drop (length (jtoks v ?q)) free) u)"
    using k(1) by (intro exI [of _ "int k"]) (simp add: comma_ok_def after_innermost add.assoc)
qed

text \<open>A member of an object: the key becomes the parent of the value.\<close>

lemma reads_member:
  assumes v: "reads_json js len n v" and key: "body_ok key" and w: "ws a" "ws b" "ws c" "ws d"
  shows "reads_part js len n JSMN_OBJECT (jmember (Member a key b c v d)) 1 (mtok (Member a key b c v d))"
  unfolding reads_part_def
proof (intro allI impI)
  fix q k and used free :: "jsmntok_t list"
  let ?q1 = "q + length a" let ?q2 = "?q1 + length key + 2" let ?q3 = "?q2 + length b"
  let ?q4 = "Suc ?q3 + length c" let ?q5 = "?q4 + length (jtext v)"
  let ?m = "Member a key b c v d"
  let ?key = "\<lambda>i. tok JSMN_STRING (?q1 + 1) (?q1 + 1 + length key) i"
  assume at: "text_at js len q (jmember ?m)" and d: "delim js len (q + length (jmember ?m))"
    and k: "innermost used k" "tok_type (used ! k) = JSMN_OBJECT" and n: "n = length used + length free"
    and room: "length (mtok ?m q) \<le> length free"
  have at': "text_at js len q a" "text_at js len ?q1 (CHR 0x22 # key @ [CHR 0x22])" "text_at js len ?q2 b"
      "?q3 < len" "js ! ?q3 = CHR '':''" "text_at js len (Suc ?q3) c" "text_at js len ?q4 (jtext v)" "text_at js len ?q5 d"
    using at by (auto simp: ac_simps)
  obtain t free' where f: "free = t # free'" using room by (cases free) auto
  have q4: "q + length a + length key + length b + length c + 3 = ?q4" by simp
  have room': "length (jtoks v ?q4) \<le> length free'" using room f by (simp add: q4 del: add_Suc add_Suc_right)
  let ?u1 = "bumps k 1 used @ [?key 0]" and ?l = "int (length used)"
  have kl: "k < length used" by (rule innermost_length [OF k(1)])
  have in1: "innermost ?u1 k" using k(1) by (intro innermost_child) simp_all
  have p: "place_ok ?l ?u1" by (simp add: place_ok_def nth_append tok_def)
  have dv: "delim js len ?q5" using delim_ws [OF w(4) at'(8)] d by (simp add: ac_simps)
  have n1: "n = Suc (length used + length free')" using n f by simp
  have s: "gets_to js len n (st ?q1 used (t # free') (int k)) (st ?q2 (bump (int k) used @ [?key 0]) free' (int k))"
    by (rule read_string [OF key at'(2)]) (use kl n1 in \<open>simp_all add: super_ok_def\<close>)
  have "gets_to js len n (st ?q3 ?u1 free' (int k)) (st (Suc ?q3) ?u1 free' ?l)"
    using read_colon [OF at'(4,5), of n ?u1 free' "int k"] by simp
  note upto = gets_to_trans [OF gets_to_trans [OF gets_to_trans [OF read_ws [OF w(1) at'(1)] s [unfolded bump_int]]
      read_ws [OF w(2) at'(3)]] this]
  have "gets_to js len n (st ?q4 ?u1 free' ?l)
      (st ?q5 (bump ?l ?u1 @ jtoks v ?q4) (drop (length (jtoks v ?q4)) free') (after v ?l ?u1))"
    by (rule reads_jsonD [OF v at'(7) disjI2 [OF dv] p _ room']) (simp add: n1)
  note all = gets_to_trans [OF gets_to_trans [OF gets_to_trans [OF upto read_ws [OF w(3) at'(6)]] this] read_ws [OF w(4) at'(8)]]
  have up: "bump ?l ?u1 = bumps k 1 used @ [?key 1]"
    by (simp add: bumps_def nth_append list_update_append tok_def)
  have stop: "?q5 + length d = q + length (jmember ?m)" by simp
  have mt: "mtok ?m q = ?key 1 # jtoks v ?q4" by (simp only: mtok.simps q4)
  have "gets_to js len n (st q used free (int k))
      (st (q + length (jmember ?m)) (bumps k 1 used @ mtok ?m q) (drop (length (mtok ?m q)) free) (after v ?l ?u1))"
    using all [unfolded up stop] by (simp only: mt f append_Cons append_Nil append_assoc length_Cons drop_Suc_Cons)
  moreover have "comma_ok (after v ?l ?u1) k (used @ mtok ?m q)"
    unfolding after_innermost [OF in1] by (simp add: comma_ok_def nth_append tok_def is_container_def)
  ultimately show "\<exists>u. comma_ok u k (used @ mtok ?m q) \<and> gets_to js len n (st q used free (int k))
      (st (q + length (jmember ?m)) (bumps k 1 used @ mtok ?m q) (drop (length (mtok ?m q)) free) u)" by blast
qed

text \<open>A container.\<close>

lemma reads_container:
  assumes part: "reads_part js len n ty txt m f" and w: "ws w" and ty: "is_container ty"
    and closed: "\<And>q. list_all (\<lambda>t. \<not> tok_open t) (f q)" and v: "container v"
    and body: "jtext v = (if ty = JSMN_OBJECT then CHR ''{'' else CHR ''['') # txt @ w @ [if ty = JSMN_OBJECT then CHR ''}'' else CHR '']'']"
    and toks: "\<And>q. jtoks v q = tok ty q (q + length (jtext v)) m # f (q + 1)"
  shows "reads_json js len n v"
  unfolding reads_json_def
proof (intro allI impI)
  fix q and used free :: "jsmntok_t list" and u
  let ?q1 = "Suc q + length txt" let ?q2 = "?q1 + length w"
  assume at: "text_at js len q (jtext v)" and p: "place_ok u used"
    and n: "n = length used + length free" and room: "length (jtoks v q) \<le> length free"
  have at': "js ! q = (if ty = JSMN_OBJECT then CHR ''{'' else CHR ''['')" "q < len" "text_at js len (Suc q) txt"
      "text_at js len ?q1 w" "js ! ?q2 = (if ty = JSMN_OBJECT then CHR ''}'' else CHR '']'')" "?q2 < len"
    using at body by (auto simp: ac_simps)
  obtain t free' where f: "free = t # free'" using room toks by (cases free) auto
  have n1: "n = Suc (length used + length free')" using n f by simp
  let ?u1 = "bump u used @ [open_tok ty q]" and ?k = "length used"
  have in1: "innermost ?u1 ?k" using innermost_open [OF ty, of "bump u used"] by simp
  have "delim js len ?q2" using at'(5,6) ty by (auto simp: delim_def ends_primitive_def is_container_def)
  from delim_ws [OF w at'(4) this] have "delim js len ?q1" .
  moreover have room': "length (f (Suc q)) \<le> length free'" using room f toks by simp
  moreover have "tok_type (?u1 ! ?k) = ty" by (simp add: nth_append open_tok_def)
  ultimately obtain u' where r: "gets_to js len n (st (Suc q) ?u1 free' (int ?k))
      (st ?q1 (bumps ?k m ?u1 @ f (Suc q)) (drop (length (f (Suc q))) free') u')"
    using reads_partD [OF part at'(3) _ in1, of free'] n1 by auto
  let ?t = "(open_tok ty q)\<lparr>tok_size := int m\<rparr>"
  have "bumps ?k m ?u1 @ f (Suc q) = bump u used @ ?t # f (Suc q)"
    by (simp add: bumps_def nth_append list_update_append open_tok_def)
  note upto = gets_to_trans [OF gets_to_trans [OF read_open [OF at'(1,2) ty p n1, of t] r [unfolded this]] read_ws [OF w at'(4)]]
  have "gets_to js len n (st ?q2 (bump u used @ ?t # f (Suc q)) (drop (length (f (Suc q))) free') u')
      (st (Suc ?q2) (bump u used @ ?t\<lparr>tok_end := int ?q2 + 1\<rparr> # f (Suc q)) (drop (length (f (Suc q))) free')
        (super_of (last_open (bump u used) (length (bump u used)))))"
    by (rule read_close [OF at'(5,6) ty _ _ closed]) (simp_all add: open_tok_def tok_open_def)
  note read = gets_to_trans [OF upto this]
  have t': "?t\<lparr>tok_end := int ?q2 + 1\<rparr> = tok ty q (q + length (jtext v)) m"
    by (simp add: body tok_def open_tok_def)
  have u': "super_of (last_open (bump u used) (length (bump u used))) = after v u used"
    using v by (simp add: after_def bump_def last_open_bumps)
  have stop: "Suc ?q2 = q + length (jtext v)" by (simp add: body)
  show "gets_to js len n (st q used free u)
      (st (q + length (jtext v)) (bump u used @ jtoks v q) (drop (length (jtoks v q)) free) (after v u used))"
    using read unfolding t' u' stop by (simp add: toks f)
qed

lemma read_value:
  "json_ok v \<Longrightarrow> reads_json js len n v"
  "items_ok xs \<Longrightarrow> reads_part js len n JSMN_ARRAY (jitems xs) (length xs) (itoks xs)"
  "item_ok x \<Longrightarrow> reads_part js len n JSMN_ARRAY (jitem x) 1 (itok x)"
  "members_ok ms \<Longrightarrow> reads_part js len n JSMN_OBJECT (jmembers ms) (length ms) (mtoks ms)"
  "member_ok m \<Longrightarrow> reads_part js len n JSMN_OBJECT (jmember m) 1 (mtok m)"
proof (induction v and xs and x and ms and m
    rule: jtext.induct jitems.induct jitem.induct jmembers.induct jmember.induct)
  case (Prim s)
  show ?case unfolding reads_json_def
  proof (intro allI impI)
    fix q and used free :: "jsmntok_t list" and u
    assume at: "text_at js len q (jtext (Prim s))" and d: "container (Prim s) \<or> delim js len (q + length (jtext (Prim s)))"
      and p: "place_ok u used" and n: "n = length used + length free" "length (jtoks (Prim s) q) \<le> length free"
    obtain t free' where f: "free = t # free'" using n(2) by (cases free) auto
    show "gets_to js len n (st q used free u) (st (q + length (jtext (Prim s))) (bump u used @ jtoks (Prim s) q)
        (drop (length (jtoks (Prim s) q)) free) (after (Prim s) u used))"
      using read_prim [OF Prim, of js len q u used n free' t] at d p n
      by (simp add: f after_def container_def)
  qed
next
  case (Quoted s)
  show ?case unfolding reads_json_def
  proof (intro allI impI)
    fix q and used free :: "jsmntok_t list" and u
    assume at: "text_at js len q (jtext (Quoted s))" and p: "place_ok u used"
      and n: "n = length used + length free" "length (jtoks (Quoted s) q) \<le> length free"
    obtain t free' where f: "free = t # free'" using n(2) by (cases free) auto
    show "gets_to js len n (st q used free u) (st (q + length (jtext (Quoted s))) (bump u used @ jtoks (Quoted s) q)
        (drop (length (jtoks (Quoted s) q)) free) (after (Quoted s) u used))"
      using read_string [of s js len q u used n free' t] Quoted at place_super [OF p] n
      by (simp add: f after_def container_def)
  qed
next
  case (Arr xs w)
  then show ?case
    by (intro reads_container [where ty = JSMN_ARRAY and w = w]) (auto simp: is_container_def container_def toks_closed)
next
  case (Obj ms w)
  then show ?case
    by (intro reads_container [where ty = JSMN_OBJECT and w = w]) (auto simp: is_container_def container_def toks_closed)
next
  case Nil_item
  then show ?case using reads_none by simp
next
  case (Cons_item x xs)
  then show ?case
    using reads_more [of js len n JSMN_ARRAY "jitem x" "itok x" "jitems xs" "length xs" "itoks xs"]
    by (auto simp: is_container_def toks_closed)
next
  case (Item a v b)
  then show ?case using reads_item [of js len n v a b] by simp
next
  case Nil_member
  then show ?case using reads_none by simp
next
  case (Cons_member m ms)
  then show ?case
    using reads_more [of js len n JSMN_OBJECT "jmember m" "mtok m" "jmembers ms" "length ms" "mtoks ms"]
    by (auto simp: is_container_def toks_closed)
next
  case (Member a key b c v d)
  then show ?case by (intro reads_member) simp_all
qed

section \<open>A whole document\<close>

lemma gets_to_end:
  assumes "gets_to js len n a (st len used free u)" and "list_all (\<lambda>t. \<not> tok_open t) used"
  shows "jsmn_loop js len n a = (int (length used), \<lparr>pos = len, toknext = length used, toksuper = u\<rparr>, Some (used @ free))"
proof -
  have "last_open (used @ free) (length used) = None"
    using assms(2) by (auto simp: last_open_None nth_append list_all_length)
  then show ?thesis
    using assms(1) by (simp add: gets_to_def st_def jsmn_loop.simps [of js len n "\<lparr>pos = len, toknext = length used, toksuper = u\<rparr>"]
        has_byte_def jsmn_finish_def)
qed

lemma parse_document:
  assumes v: "json_ok v" "container v" and w: "ws a" "ws b"
    and room: "length (jtoks v (length a)) \<le> length toks"
  shows "jsmn_parse jsmn_init (a @ jtext v @ b) (length (a @ jtext v @ b)) (Some toks) (length toks) =
    (int (length (jtoks v (length a))),
     \<lparr>pos = length (a @ jtext v @ b), toknext = length (jtoks v (length a)), toksuper = -1\<rparr>,
     Some (jtoks v (length a) @ drop (length (jtoks v (length a))) toks))"
proof -
  let ?js = "a @ jtext v @ b" and ?q = "length a" and ?n = "length toks"
  let ?len = "length ?js" let ?T = "jtoks v ?q"
  have at: "text_at ?js ?len 0 a" "text_at ?js ?len ?q (jtext v)" "text_at ?js ?len (?q + length (jtext v)) b"
    using text_at_self [of "[]" ?js "[]"] by simp_all
  have "gets_to ?js ?len ?n (st ?q [] toks (-1))
      (st (?q + length (jtext v)) (bump (-1) [] @ ?T) (drop (length ?T) toks) (after v (-1) []))"
    using reads_jsonD [OF read_value(1) [OF v(1)] at(2), of "-1" "[]" ?n toks] v(2) room by (simp add: place_ok_def)
  moreover have "bump (-1) [] @ ?T = ?T" "after v (-1) [] = -1" by (simp_all add: bump_def after_def super_of_def)
  ultimately have "gets_to ?js ?len ?n (st ?q [] toks (-1)) (st (?q + length (jtext v)) ?T (drop (length ?T) toks) (-1))"
    by simp
  from gets_to_trans [OF gets_to_trans [OF read_ws [OF w(1) at(1), unfolded add_0_left] this] read_ws [OF w(2) at(3)]]
  have "gets_to ?js ?len ?n (st 0 [] toks (-1)) (st ?len ?T (drop (length ?T) toks) (-1))" by (simp add: add.assoc)
  from gets_to_end [OF this] show ?thesis
    by (simp add: jsmn_parse_def jsmn_init_def st_def toks_closed)
qed

end
