(* ===== verification/Json_Sections.thy ===== *)
theory Json_Sections
  imports Json_Text
begin

text \<open>
  Documents read back, and their sections: the container that a token stands for is a document of its own,
  which can be read where it is. Its tokens are those of the whole, moved to its beginning.
\<close>

section \<open>Tokens moved and counted\<close>

definition moved :: "nat \<Rightarrow> jsmntok_t \<Rightarrow> jsmntok_t" where
  "moved d t = t\<lparr>tok_start := tok_start t + int d, tok_end := tok_end t + int d\<rparr>"

lemma moved_tok [simp]: "moved d (tok ty s e n) = tok ty (s + d) (e + d) n"
  by (simp add: moved_def tok_def)

lemma toks_moved:
  "jtoks v (q + d) = map (moved d) (jtoks v q)"
  "itoks xs (q + d) = map (moved d) (itoks xs q)"
  "itok x (q + d) = map (moved d) (itok x q)"
  "mtoks ms (q + d) = map (moved d) (mtoks ms q)"
  "mtok m (q + d) = map (moved d) (mtok m q)"
proof (induction v and xs and x and ms and m arbitrary: q and q and q and q and q
    rule: jtext.induct jitems.induct jitem.induct jmembers.induct jmember.induct)
  case (Arr xs w)
  show ?case using Arr [of "Suc q"] by (simp add: ac_simps)
next
  case (Obj ms w)
  show ?case using Obj [of "Suc q"] by (simp add: ac_simps)
next
  case (Cons_item x xs)
  show ?case using Cons_item(1) [of q] Cons_item(2) [of "Suc (q + length (jitem x))"] by (simp add: ac_simps)
next
  case (Cons_member m ms)
  show ?case using Cons_member(1) [of q] Cons_member(2) [of "Suc (q + length (jmember m))"] by (simp add: ac_simps)
next
  case (Item a v b)
  show ?case using Item [of "q + length a"] by (simp add: ac_simps)
next
  case (Member a k b c v d')
  show ?case using Member [of "q + length a + length k + length b + length c + 3"] by (simp add: ac_simps)
qed (simp_all add: ac_simps)

abbreviation tok_sizes :: "jsmntok_t list \<Rightarrow> nat list" where
  "tok_sizes toks \<equiv> map (\<lambda>t. nat (tok_size t)) toks"

lemma settle_toks:
  "settle (Suc k) (tok_sizes (jtoks v q) @ r) = settle k r"
  "settle (length xs + k) (tok_sizes (itoks xs q) @ r) = settle k r"
  "settle (Suc k) (tok_sizes (itok x q) @ r) = settle k r"
  "settle (length ms + k) (tok_sizes (mtoks ms q) @ r) = settle k r"
  "settle (Suc k) (tok_sizes (mtok m q) @ r) = settle k r"
proof (induction v and xs and x and ms and m arbitrary: q k r and q k r and q k r and q k r and q k r
    rule: jtext.induct jitems.induct jitem.induct jmembers.induct jmember.induct)
qed (simp_all add: tok_def add.commute)

section \<open>Containers within a document\<close>

text \<open>Each container token of \<open>toks\<close> stands for a document in the text.\<close>

definition stands :: "string \<Rightarrow> (nat \<Rightarrow> jsmntok_t list) \<Rightarrow> bool" where
  "stands text toks \<longleftrightarrow> (\<forall>q i. i < length (toks q) \<longrightarrow> is_container (tok_type (toks q ! i)) \<longrightarrow>
     (\<exists>v pre post r. json_ok v \<and> container v \<and> text = pre @ jtext v @ post
        \<and> drop i (toks q) = jtoks v (q + length pre) @ r))"

lemma stands_Nil [simp]: "stands t (\<lambda>q. [])"
  by (simp add: stands_def)

lemma stands_within:
  assumes "stands t f"
  shows "stands (a @ t @ b) (\<lambda>q. f (q + length a))"
  unfolding stands_def
proof (intro allI impI)
  fix q i assume "i < length (f (q + length a))" "is_container (tok_type (f (q + length a) ! i))"
  then obtain v pre post r where "json_ok v" "container v" "t = pre @ jtext v @ post"
      "drop i (f (q + length a)) = jtoks v (q + length a + length pre) @ r"
    using assms unfolding stands_def by blast
  then show "\<exists>v pre post r. json_ok v \<and> container v \<and> a @ t @ b = pre @ jtext v @ post
      \<and> drop i (f (q + length a)) = jtoks v (q + length pre) @ r"
    by (intro exI [of _ v] exI [of _ "a @ pre"] exI [of _ "post @ b"] exI [of _ r]) (simp add: add.assoc)
qed

lemma stands_then:
  assumes f: "stands t f" and g: "stands t g"
  shows "stands t (\<lambda>q. f q @ g q)"
  unfolding stands_def
proof (intro allI impI)
  fix q i assume i: "i < length (f q @ g q)" "is_container (tok_type ((f q @ g q) ! i))"
  show "\<exists>v pre post r. json_ok v \<and> container v \<and> t = pre @ jtext v @ post
      \<and> drop i (f q @ g q) = jtoks v (q + length pre) @ r"
  proof (cases "i < length (f q)")
    case True
    then have "is_container (tok_type (f q ! i))" using i(2) by (simp add: nth_append)
    with True obtain v pre post r where "json_ok v" "container v" "t = pre @ jtext v @ post"
        "drop i (f q) = jtoks v (q + length pre) @ r"
      using f unfolding stands_def by blast
    then show ?thesis using True
      by (intro exI [of _ v] exI [of _ pre] exI [of _ post] exI [of _ "r @ g q"]) simp
  next
    case False
    then have "i - length (f q) < length (g q)" "is_container (tok_type (g q ! (i - length (f q))))"
      using i by (auto simp: nth_append)
    then show ?thesis using g False unfolding stands_def by simp
  qed
qed

lemma stands_leaf: "\<not> is_container (tok_type x) \<Longrightarrow> \<forall>q. tok_type (f q) = tok_type x \<Longrightarrow> stands t (\<lambda>q. [f q])"
  by (simp add: stands_def)

lemma stands_container:
  assumes v: "json_ok v" "container v" and inside: "stands (jtext v) (\<lambda>q. f (q + 1))"
    and toks: "\<And>q. jtoks v q = c q # f (q + 1)"
  shows "stands (jtext v) (jtoks v)"
  unfolding stands_def
proof (intro allI impI)
  fix q i assume i: "i < length (jtoks v q)" "is_container (tok_type (jtoks v q ! i))"
  show "\<exists>v' pre post r. json_ok v' \<and> container v' \<and> jtext v = pre @ jtext v' @ post
      \<and> drop i (jtoks v q) = jtoks v' (q + length pre) @ r"
  proof (cases i)
    case 0
    then show ?thesis using v by (intro exI [of _ v] exI [of _ "[]"]) simp
  next
    case (Suc j)
    then show ?thesis using i inside unfolding stands_def by (simp add: toks)
  qed
qed

lemma containers_stand:
  "json_ok v \<Longrightarrow> stands (jtext v) (jtoks v)"
  "items_ok xs \<Longrightarrow> stands (jitems xs) (itoks xs)"
  "item_ok x \<Longrightarrow> stands (jitem x) (itok x)"
  "members_ok ms \<Longrightarrow> stands (jmembers ms) (mtoks ms)"
  "member_ok m \<Longrightarrow> stands (jmember m) (mtok m)"
proof (induction v and xs and x and ms and m
    rule: jtext.induct jitems.induct jitem.induct jmembers.induct jmember.induct)
  case (Arr xs w)
  then show ?case using stands_within [of "jitems xs" "itoks xs" "''[''" "w @ '']''"]
    by (intro stands_container [where f = "itoks xs"]) (auto simp: container_def)
next
  case (Obj ms w)
  then show ?case using stands_within [of "jmembers ms" "mtoks ms" "''{''" "w @ ''}''"]
    by (intro stands_container [where f = "mtoks ms"]) (auto simp: container_def)
next
  case (Cons_item x xs)
  then show ?case
    using stands_within [of "jitem x" "itok x" "[]" "if xs = [] then [] else CHR '','' # jitems xs"]
      stands_within [of "jitems xs" "itoks xs" "jitem x @ '',''" "[]"]
      stands_then [of "jitem (x) @ (if xs = [] then [] else CHR '','' # jitems xs)" "itok x"]
    by (cases "xs = []") (auto simp: add.assoc)
next
  case (Cons_member m ms)
  then show ?case
    using stands_within [of "jmember m" "mtok m" "[]" "if ms = [] then [] else CHR '','' # jmembers ms"]
      stands_within [of "jmembers ms" "mtoks ms" "jmember m @ '',''" "[]"]
      stands_then [of "jmember m @ (if ms = [] then [] else CHR '','' # jmembers ms)" "mtok m"]
    by (cases "ms = []") (auto simp: add.assoc)
next
  case (Item a v b)
  then show ?case using stands_within [of "jtext v" "jtoks v" a b] by simp
next
  case (Member a k b c v d)
  have eq: "mtok (Member a k b c v d) = (\<lambda>q. [tok JSMN_STRING (q + length a + 1) (q + length a + 1 + length k) 1]
      @ jtoks v (q + length (a @ (CHR 0x22 # k @ [CHR 0x22]) @ b @ [CHR '':''] @ c)))"
    by (rule ext) (simp add: ac_simps eval_nat_numeral)
  have "stands (jmember (Member a k b c v d)) (\<lambda>q. [tok JSMN_STRING (q + length a + 1) (q + length a + 1 + length k) 1])"
    by (rule stands_leaf [of "tok JSMN_STRING 0 0 0"]) (simp_all add: tok_def is_container_def)
  moreover have "stands (jmember (Member a k b c v d)) (\<lambda>q. jtoks v (q + length (a @ (CHR 0x22 # k @ [CHR 0x22]) @ b @ [CHR '':''] @ c)))"
    using stands_within [of "jtext v" "jtoks v" "a @ (CHR 0x22 # k @ [CHR 0x22]) @ b @ [CHR '':''] @ c" d] Member by simp
  ultimately show ?case unfolding eq by (rule stands_then)
qed (simp_all add: stands_def tok_def is_container_def)

section \<open>Reading documents and sections\<close>

text \<open>C33. The tokenizer reads JSON: whatever tokens the array held, the text of a document whose root is an
  object or an array, with white space around it, is accepted if there is room, and its tokens are those of the
  document, each with the kind, the place and the number of children that it has there. Nothing behind
  them is touched. (A text that is a string or a bare word alone is outside of this.)\<close>

theorem json_reads_back:
  assumes "json_ok v" "container v" "ws a" "ws b" "length (jtoks v (length a)) \<le> length toks"
  shows "\<exists>p. jsmn_parse jsmn_init (a @ jtext v @ b) (length (a @ jtext v @ b)) (Some toks) (length toks) =
    (int (length (jtoks v (length a))), p, Some (jtoks v (length a) @ drop (length (jtoks v (length a))) toks))"
  using parse_document [OF assms] by blast

theorem json_reads_back_witness:
  "\<exists>p. jsmn_parse jsmn_init ''{\"a\":[1,{}] } '' 14 (Some (replicate 6 (tok JSMN_UNDEFINED 0 0 0))) 6 =
    (5, p, Some [tok JSMN_OBJECT 0 13 1, tok JSMN_STRING 2 3 1, tok JSMN_ARRAY 5 11 2,
       tok JSMN_PRIMITIVE 6 7 0, tok JSMN_OBJECT 8 10 0, tok JSMN_UNDEFINED 0 0 0])"
proof -
  let ?v = "Obj [Member [] ''a'' [] [] (Arr [Item [] (Prim ''1'') [], Item [] (Obj [] []) []] []) []] '' ''"
  have "json_ok ?v" "ws []" "ws '' ''" by code_simp+
  moreover have "container ?v" by (simp add: container_def)
  ultimately show ?thesis
    using json_reads_back [of ?v "[]" "'' ''" "replicate 6 (tok JSMN_UNDEFINED 0 0 0)"]
    by (simp add: eval_nat_numeral)
qed

text \<open>C34. A section can be cut out and read where it is. For every container of a document that the
  tokenizer has read, reading the bytes from the token's start to its end, in place and with a fresh parser
  and any array that has room, is accepted again, and gives the same tokens as in the whole, counted from the
  section's own beginning; they are as many as a walk over the whole takes to pass the section.\<close>

theorem json_section_in_place:
  assumes "json_ok v" "container v" "ws a" "ws b" "length (jtoks v (length a)) \<le> length toks"
    and "jsmn_parse jsmn_init (a @ jtext v @ b) (length (a @ jtext v @ b)) (Some toks) (length toks) = (r, p, Some ts)"
    and "i < toknext p" "is_container (tok_type (ts ! i))"
    and "s = nat (tok_start (ts ! i))" "l = nat (tok_end (ts ! i) - tok_start (ts ! i))"
  shows "\<exists>ts'. ts' \<noteq> [] \<and> i + length ts' \<le> toknext p \<and> (\<forall>k < length ts'. ts ! (i + k) = moved s (ts' ! k))
    \<and> settle 1 (tok_sizes (drop i (take (toknext p) ts))) = Some (tok_sizes (drop (i + length ts') (take (toknext p) ts)))
    \<and> (\<forall>room. length ts' \<le> length room \<longrightarrow>
         (\<exists>p'. jsmn_parse jsmn_init (drop s (a @ jtext v @ b)) l (Some room) (length room)
            = (int (length ts'), p', Some (ts' @ drop (length ts') room))))"
proof -
  let ?T = "jtoks v (length a)"
  have p: "toknext p = length ?T" and ts: "ts = ?T @ drop (length ?T) toks"
    using assms(6) parse_document [OF assms(1-5)] by auto
  have i: "i < length ?T" "is_container (tok_type (?T ! i))" using assms(7,8) by (simp_all add: p ts nth_append)
  obtain w pre post rest where w: "json_ok w" "container w" "jtext v = pre @ jtext w @ post"
      and d: "drop i ?T = jtoks w (length a + length pre) @ rest"
    using containers_stand(1) [OF assms(1)] i unfolding stands_def by blast
  let ?s = "length a + length pre" let ?W = "jtoks w 0" let ?m = "length ?W"
  obtain ty c where W: "jtoks w ?s = tok ty ?s (?s + length (jtext w)) c # tl (jtoks w ?s)"
    using w(2) by (cases w) (auto simp: container_def)
  have "ts ! i = tok ty ?s (?s + length (jtext w)) c"
    using i(1) arg_cong [OF d, of hd] W by (simp add: ts nth_append hd_drop_conv_nth) (metis list.sel(1) hd_append2 list.distinct(1))
  then have s: "s = ?s" and l: "l = length (jtext w)" using assms(9,10) by (simp_all add: tok_def)
  have m: "jtoks w ?s = map (moved ?s) ?W" using toks_moved(1) [of w 0 ?s] by simp
  have im: "i + ?m \<le> length ?T" using arg_cong [OF d, of length] i(1) m by simp
  have "same_text l (drop s (a @ jtext v @ b)) (jtext w)" by (auto simp: same_text_def s l w(3) nth_append)
  note same = jsmn_parse_same [OF this]
  have run: "\<exists>p'. jsmn_parse jsmn_init (drop s (a @ jtext v @ b)) l (Some room) (length room)
      = (int ?m, p', Some (?W @ drop ?m room))" if "?m \<le> length room" for room
    using parse_document [OF w(1,2), of "[]" "[]" room] that unfolding same by (simp add: ws_def l)
  have "ts ! (i + k) = moved s (?W ! k)" if "k < ?m" for k
    using that i(1) im arg_cong [OF d, of "\<lambda>xs. xs ! k"] by (simp add: ts s m nth_append)
  moreover have "jtoks w ?s \<noteq> []" using W by (metis list.distinct(1))
  then have "?W \<noteq> []" using m by simp
  moreover have "settle 1 (tok_sizes (drop i ?T)) = Some (tok_sizes (drop (i + ?m) ?T))"
  proof -
    have "drop (i + ?m) ?T = drop ?m (drop i ?T)" by (simp add: add.commute)
    also have "\<dots> = rest" by (simp add: d m)
    finally show ?thesis using settle_toks(1) [of 0 w ?s "tok_sizes rest"] by (simp add: d)
  qed
  ultimately show ?thesis using run im by (intro exI [of _ ?W]) (simp add: p ts)
qed

theorem json_section_in_place_witness:
  "let doc = ''{\"a\":[1,{}] } ''; room = replicate 5 (tok JSMN_UNDEFINED 0 0 0) in
   \<exists>ts' p'. ts' \<noteq> [] \<and> length ts' \<le> 3
     \<and> jsmn_parse jsmn_init (drop 5 doc) 6 (Some room) 5 = (int (length ts'), p', Some (ts' @ drop (length ts') room))"
proof -
  let ?v = "Obj [Member [] ''a'' [] [] (Arr [Item [] (Prim ''1'') [], Item [] (Obj [] []) []] []) []] '' ''"
  let ?room = "replicate 5 (tok JSMN_UNDEFINED 0 0 0)"
  have ok: "json_ok ?v" "ws []" "ws '' ''" by code_simp+
  have c: "container ?v" by (simp add: container_def)
  have len: "length (jtoks ?v (length [])) \<le> length ?room" by simp
  have doc: "[] @ jtext ?v @ '' '' = ''{\"a\":[1,{}] } ''" by simp
  have toks: "jtoks ?v 0 = [tok JSMN_OBJECT 0 13 1, tok JSMN_STRING 2 3 1, tok JSMN_ARRAY 5 11 2,
      tok JSMN_PRIMITIVE 6 7 0, tok JSMN_OBJECT 8 10 0]" by (simp add: eval_nat_numeral)
  have at: "(2::nat) < toknext \<lparr>pos = length ([] @ jtext ?v @ '' ''), toknext = length (jtoks ?v (length [])), toksuper = -1\<rparr>"
      "is_container (tok_type ((jtoks ?v (length []) @ drop (length (jtoks ?v (length []))) ?room) ! 2))"
      "5 = nat (tok_start ((jtoks ?v (length []) @ drop (length (jtoks ?v (length []))) ?room) ! 2))"
      "6 = nat (tok_end ((jtoks ?v (length []) @ drop (length (jtoks ?v (length []))) ?room) ! 2)
        - tok_start ((jtoks ?v (length []) @ drop (length (jtoks ?v (length []))) ?room) ! 2))"
    unfolding list.size(3) toks by (simp_all add: tok_def is_container_def)
  from json_section_in_place [OF ok(1) c ok(2,3) len parse_document [OF ok(1) c ok(2,3) len] at]
  obtain ts' where ts': "ts' \<noteq> []" "2 + length ts' \<le> 5"
      "\<And>room. length ts' \<le> length room \<Longrightarrow> \<exists>p'. jsmn_parse jsmn_init (drop 5 ([] @ jtext ?v @ '' '')) 6 (Some room) (length room)
            = (int (length ts'), p', Some (ts' @ drop (length ts') room))"
    unfolding list.size(3) toks by auto
  show ?thesis using ts'(1,2) ts'(3) [of ?room] unfolding doc Let_def by auto
qed

end
