(* ===== verification/Js2c_Builtins.thy ===== *)
theory Js2c_Builtins
  imports Json_Sections Error_Capture Cli_Args
begin

text \<open>
  What every generated configuration parser is made of, \<open>js2c/include/js2c_builtins.h\<close>: the walk over the
  tokens of \<open>Jsmn\<close> and the reading of one value. \<open>LOG_ERROR\<close> is that of \<open>js2c_error_capture.h\<close>, so an error
  goes to \<open>Error_Capture\<close>. A function returns true for an error; an out parameter is an argument with its old
  value and a result. \<open>strtod\<close> is a parameter. Array indices are naturals, \<open>skip_tokens\<close> keeps its 32 bits.
\<close>

section \<open>State\<close>

record parse_state_t =
  json_string :: string
  current_key :: string
  ps_tokens :: "jsmntok_t list"
  current_token :: nat
  max_token_num :: nat
  inhibit_errors :: bool
  capture :: capture_t

definition LOG_ERROR :: "int \<Rightarrow> string \<Rightarrow> parse_state_t \<Rightarrow> parse_state_t" where
  "LOG_ERROR position msg s =
    s\<lparr>capture := js2c_error_capture_record position (Some msg) (capture s)\<rparr>"

definition TRY_LOG_ERROR :: "int \<Rightarrow> string \<Rightarrow> parse_state_t \<Rightarrow> parse_state_t" where
  "TRY_LOG_ERROR position msg s = (if inhibit_errors s then s else LOG_ERROR position msg s)"

definition CURRENT_TOKEN :: "parse_state_t \<Rightarrow> jsmntok_t" where
  "CURRENT_TOKEN s = ps_tokens s ! current_token s"

text \<open>The text from a token on, and the token's own bytes.\<close>

definition token_text :: "parse_state_t \<Rightarrow> jsmntok_t \<Rightarrow> string" where
  "token_text s t = drop (nat (tok_start t)) (json_string s)"

definition CURRENT_STRING_LENGTH :: "parse_state_t \<Rightarrow> int" where
  "CURRENT_STRING_LENGTH s = tok_end (CURRENT_TOKEN s) - tok_start (CURRENT_TOKEN s)"

definition token_bytes :: "parse_state_t \<Rightarrow> jsmntok_t \<Rightarrow> string" where
  "token_bytes s t = take (nat (tok_end t - tok_start t)) (token_text s t)"

text \<open>\<open>%.*s\<close> of the current token\<close>

definition CURRENT_STRING_FOR_ERROR :: "parse_state_t \<Rightarrow> string" where
  "CURRENT_STRING_FOR_ERROR s = takeWhile (\<lambda>c. c \<noteq> NUL) (token_bytes s (CURRENT_TOKEN s))"

definition token_type_as_string :: "jsmntype_t \<Rightarrow> string" where
  "token_type_as_string ty =
    (case ty of JSMN_UNDEFINED \<Rightarrow> ''UNDEFINED'' | JSMN_OBJECT \<Rightarrow> ''OBJECT'' | JSMN_ARRAY \<Rightarrow> ''ARRAY''
     | JSMN_STRING \<Rightarrow> ''STRING'' | JSMN_PRIMITIVE \<Rightarrow> ''PRIMITIVE'')"

definition jsmn_error_as_string :: "int \<Rightarrow> string" where
  "jsmn_error_as_string err =
    (if err = JSMN_ERROR_INVAL then ''Invalid character''
     else if err = JSMN_ERROR_NOMEM then ''JSON file too complex''
     else if err = JSMN_ERROR_PART then ''End-of-file reached (JSON file incomplete)''
     else ''Internal error'')"

section \<open>Checks\<close>

definition check_type :: "parse_state_t \<Rightarrow> jsmntype_t \<Rightarrow> bool \<times> parse_state_t" where
  "check_type s ty =
    (let t = CURRENT_TOKEN s in
     if tok_type t \<noteq> ty then
       (True, TRY_LOG_ERROR (tok_start t)
          (''Unexpected token in '' @ [CHR 0x27] @ current_key s @ [CHR 0x27] @ '': ''
           @ token_type_as_string (tok_type t) @ '' instead of '' @ token_type_as_string ty) s)
     else (False, s))"

definition current_string_is :: "parse_state_t \<Rightarrow> string \<Rightarrow> bool" where
  "current_string_is s str =
    (let t = CURRENT_TOKEN s in
     if tok_type t \<noteq> JSMN_STRING then False
     else if int (length str) \<noteq> tok_end t - tok_start t then False
     else token_bytes s t = str)"

text \<open>The message ''... in 'key'. Length: n. what: m.''\<close>

definition length_message :: "string \<Rightarrow> string \<Rightarrow> int \<Rightarrow> int \<Rightarrow> parse_state_t \<Rightarrow> string" where
  "length_message what limit n m s =
    what @ '' in '' @ [CHR 0x27] @ current_key s @ [CHR 0x27] @ ''. Length: '' @ dec_int n @ ''. '' @ limit @ '': '' @ dec_int m @ ''.''"

definition builtin_check_current_string :: "parse_state_t \<Rightarrow> int \<Rightarrow> int \<Rightarrow> bool \<times> parse_state_t" where
  "builtin_check_current_string s min_len max_len =
    (case check_type s JSMN_STRING of (bad, s) \<Rightarrow>
       if bad then (True, s)
       else
         let t = CURRENT_TOKEN s; n = tok_end t - tok_start t in
         if n > max_len then (True, TRY_LOG_ERROR (tok_start t) (length_message ''String too large'' ''Maximum length'' n max_len s) s)
         else if n < min_len then (True, TRY_LOG_ERROR (tok_start t) (length_message ''String too short'' ''Minimum length'' n min_len s) s)
         else (False, s))"

section \<open>Values\<close>

abbreviation advance :: "parse_state_t \<Rightarrow> parse_state_t" where
  "advance s \<equiv> s\<lparr>current_token := current_token s + 1\<rparr>"

text \<open>The bytes and their terminating zero over the beginning of the buffer.\<close>

definition store_string :: "string \<Rightarrow> string \<Rightarrow> string" where
  "store_string out bytes = bytes @ [NUL] @ drop (length bytes + 1) out"

definition builtin_parse_string :: "parse_state_t \<Rightarrow> string \<Rightarrow> int \<Rightarrow> int \<Rightarrow> bool \<times> string \<times> parse_state_t" where
  "builtin_parse_string s out min_len max_len =
    (case builtin_check_current_string s min_len max_len of (bad, s) \<Rightarrow>
       if bad then (True, out, s)
       else (False, store_string out (token_bytes s (CURRENT_TOKEN s)), advance s))"

text \<open>''Invalid ... literal in 'key': token''\<close>

definition invalid_literal :: "string \<Rightarrow> parse_state_t \<Rightarrow> parse_state_t" where
  "invalid_literal what s = TRY_LOG_ERROR (tok_start (CURRENT_TOKEN s))
    (''Invalid '' @ what @ '' literal in '' @ [CHR 0x27] @ current_key s @ [CHR 0x27] @ '': '' @ CURRENT_STRING_FOR_ERROR s) s"

definition builtin_parse_bool :: "parse_state_t \<Rightarrow> bool \<Rightarrow> bool \<times> bool \<times> parse_state_t" where
  "builtin_parse_bool s out =
    (case check_type s JSMN_PRIMITIVE of (bad, s) \<Rightarrow>
       if bad then (True, out, s)
       else
         let first_char = hd (token_text s (CURRENT_TOKEN s)) in
         if first_char \<noteq> CHR ''t'' \<and> first_char \<noteq> CHR ''f'' then (True, out, invalid_literal ''boolean'' s)
         else (False, first_char = CHR ''t'', advance s))"

text \<open>\<open>strtoll\<close> and \<open>strtoull\<close>: base 0 looks at the prefix. Both saturate; \<open>errno\<close> is not looked at. The
  value, and what is left at \<open>end_char\<close>, which is the whole text if there is no number.\<close>

definition base_of :: "nat \<Rightarrow> string \<Rightarrow> nat" where
  "base_of radix t =
    (if radix \<noteq> 0 then radix
     else case snd (split_sign (dropWhile isspace t)) of
       a # b # c # r \<Rightarrow>
         if a = CHR ''0'' \<and> (b = CHR ''x'' \<or> b = CHR ''X'') \<and> digit_val c < 16 then 16
         else if a = CHR ''0'' then 8 else 10
     | a # r \<Rightarrow> if a = CHR ''0'' then 8 else 10
     | [] \<Rightarrow> 10)"

definition strtoll :: "nat \<Rightarrow> string \<Rightarrow> int \<times> string" where
  "strtoll radix t = (case strtol 64 (base_of radix t) t of (v, rest, _, _) \<Rightarrow> (v, rest))"

definition ULLONG_MAX :: int where "ULLONG_MAX = 18446744073709551615"

definition strtoull :: "nat \<Rightarrow> string \<Rightarrow> int \<times> string" where
  "strtoull radix t =
    (let base = base_of radix t;
         (neg, t2) = split_sign (dropWhile isspace t);
         t3 = skip_0x base t2;
         ds = takeWhile (\<lambda>c. digit_val c < base) t3;
         rest = dropWhile (\<lambda>c. digit_val c < base) t3;
         v = int (digits_val base ds) in
     if ds = [] then (0, t)
     else if v > ULLONG_MAX then (ULLONG_MAX, rest)
     else ((if neg then - v else v) mod (ULLONG_MAX + 1), rest))"

text \<open>\<open>end_char == json_string + token->end\<close>\<close>

definition ends_at_token :: "parse_state_t \<Rightarrow> string \<Rightarrow> bool" where
  "ends_at_token s rest \<longleftrightarrow> int (length (json_string s)) - int (length rest) = tok_end (CURRENT_TOKEN s)"

definition number_expected :: "parse_state_t \<Rightarrow> bool \<Rightarrow> bool \<Rightarrow> bool" where
  "number_expected s number_allowed string_allowed \<longleftrightarrow>
    number_allowed \<and> tok_type (CURRENT_TOKEN s) = JSMN_PRIMITIVE
    \<or> string_allowed \<and> tok_type (CURRENT_TOKEN s) = JSMN_STRING"

definition unexpected_token :: "parse_state_t \<Rightarrow> parse_state_t" where
  "unexpected_token s = TRY_LOG_ERROR (tok_start (CURRENT_TOKEN s))
    (''Unexpected token in '' @ [CHR 0x27] @ current_key s @ [CHR 0x27] @ '': '' @ token_type_as_string (tok_type (CURRENT_TOKEN s))) s"

definition builtin_parse_signed ::
  "parse_state_t \<Rightarrow> bool \<Rightarrow> bool \<Rightarrow> nat \<Rightarrow> int \<Rightarrow> bool \<times> int \<times> parse_state_t" where
  "builtin_parse_signed s number_allowed string_allowed radix out =
    (let t = CURRENT_TOKEN s in
     if \<not> number_expected s number_allowed string_allowed then (True, out, unexpected_token s)
     else
       let radix = (if tok_type t = JSMN_PRIMITIVE then 10 else radix);
           (v, rest) = strtoll radix (token_text s t) in
       if \<not> ends_at_token s rest then (True, v, invalid_literal ''signed integer'' s)
       else (False, v, advance s))"

definition builtin_parse_unsigned ::
  "parse_state_t \<Rightarrow> bool \<Rightarrow> bool \<Rightarrow> nat \<Rightarrow> int \<Rightarrow> bool \<times> int \<times> parse_state_t" where
  "builtin_parse_unsigned s number_allowed string_allowed radix out =
    (let t = CURRENT_TOKEN s in
     if \<not> number_expected s number_allowed string_allowed then (True, out, unexpected_token s)
     else
       let radix = (if tok_type t = JSMN_PRIMITIVE then 10 else radix) in
       if hd (token_text s t) = CHR ''-'' then (True, out, invalid_literal ''unsigned integer'' s)
       else
         let (v, rest) = strtoull radix (token_text s t) in
         if \<not> ends_at_token s rest then (True, v, invalid_literal ''unsigned integer'' s)
         else (False, v, advance s))"

definition builtin_parse_double ::
  "(string \<Rightarrow> 'a \<times> string \<times> bool) \<Rightarrow> parse_state_t \<Rightarrow> 'a \<Rightarrow> bool \<times> 'a \<times> parse_state_t" where
  "builtin_parse_double strtod s out =
    (let t = CURRENT_TOKEN s in
     case check_type s JSMN_PRIMITIVE of (bad, s) \<Rightarrow>
       if bad then (True, out, s)
       else
         let start_char = token_text s t; second = start_char ! 1 in
         if tok_end t - tok_start t \<ge> 2 \<and> second \<noteq> CHR ''.'' \<and> second \<noteq> CHR ''e'' \<and> second \<noteq> CHR ''E''
            \<and> \<not> (48 \<le> (of_char second :: nat) \<and> (of_char second :: nat) \<le> 57)
         then (True, out, invalid_literal ''floating point'' s)
         else
           let (v, rest, _) = strtod start_char in
           if \<not> ends_at_token s rest then (True, v, invalid_literal ''floating point'' s)
           else (False, v, advance s))"

section \<open>Skipping a value\<close>

text \<open>The loop of \<open>builtin_skip\<close>. The token is read before the index is compared; None is a read behind the
  array, which is undefined.\<close>

function skip_loop :: "32 word \<Rightarrow> parse_state_t \<Rightarrow> (bool \<times> parse_state_t) option" where
  "skip_loop skip_tokens s =
    (if skip_tokens = 0 then Some (False, s)
     else if current_token s \<ge> length (ps_tokens s) then None
     else
       let skip_tokens = skip_tokens + word_of_int (tok_size (CURRENT_TOKEN s)) in
       if current_token s \<ge> max_token_num s then Some (True, s)
       else skip_loop (skip_tokens - 1) (advance s))"
  by pat_completeness auto
termination by (relation "measure (\<lambda>(k, s). length (ps_tokens s) - current_token s)") auto

declare skip_loop.simps [simp del]

definition builtin_skip :: "parse_state_t \<Rightarrow> (bool \<times> parse_state_t) option" where
  "builtin_skip s = skip_loop 1 s"

section \<open>A document\<close>

definition builtin_parse_json_string ::
  "parse_state_t \<Rightarrow> jsmntok_t list \<Rightarrow> nat \<Rightarrow> string \<Rightarrow> nat \<Rightarrow> bool \<times> parse_state_t" where
  "builtin_parse_json_string s token_buffer token_buffer_size js json_string_len =
    (case jsmn_parse jsmn_init js json_string_len (Some token_buffer) token_buffer_size of
       (token_num, parser, tokens) \<Rightarrow>
         let s = s\<lparr>json_string := js, ps_tokens := the tokens, current_token := 0,
                   max_token_num := token_buffer_size, current_key := ''document root'', inhibit_errors := False\<rparr> in
         if token_num < 0 then
           (True, LOG_ERROR (int (pos parser)) (''JSON syntax error: '' @ jsmn_error_as_string token_num) s)
         else if token_num = 0 then (True, LOG_ERROR (int (pos parser)) ''String did not contain any JSON tokens'' s)
         else (False, s))"

section \<open>A skip passes one value\<close>

lemma settle_needs: "settle k xs = Some r \<Longrightarrow> k + length r \<le> length xs"
  by (induction k xs rule: settle.induct) force+

lemma skip_counts:
  assumes toks: "ps_tokens s = toks" "max_token_num s = length toks" "length toks < 2 ^ 32"
    and n: "n \<le> length toks" "\<forall>i < n. 0 \<le> tok_size (toks ! i)" and i: "current_token s \<le> n"
    and walk: "settle k (drop (current_token s) (tok_sizes (take n toks))) = Some r"
  shows "skip_loop (word_of_nat k) s = Some (False, s\<lparr>current_token := n - length r\<rparr>)"
  using toks i walk
proof (induction "n - current_token s" arbitrary: s k)
  case 0
  then have "k = 0" "current_token s = n" "r = []" by (cases k; simp)+
  then show ?case by (simp add: skip_loop.simps)
next
  case (Suc d)
  let ?i = "current_token s"
  have i: "?i < n" using Suc.hyps(2) by simp
  have here: "drop ?i (tok_sizes (take n toks)) = nat (tok_size (toks ! ?i)) # drop (Suc ?i) (tok_sizes (take n toks))"
    using i n(1) by (simp add: Cons_nth_drop_Suc [symmetric])
  show ?case
  proof (cases k)
    case 0
    then have "r = drop ?i (tok_sizes (take n toks))" using Suc.prems(5) by simp
    then have "n - length r = ?i" using i n(1) by simp
    then show ?thesis using 0 by (simp add: skip_loop.simps)
  next
    case (Suc k')
    have walk: "settle (k' + nat (tok_size (toks ! ?i))) (drop (Suc ?i) (tok_sizes (take n toks))) = Some r"
      using Suc.prems(5) Suc by (simp add: here)
    have "k < 2 ^ 32" using settle_needs [OF Suc.prems(5)] n(1) Suc.prems(3) by simp
    then have nz: "(word_of_nat k :: 32 word) \<noteq> 0"
      using Suc by (simp add: word_of_nat_eq_0_iff nat_dvd_not_less del: of_nat_Suc)
    have "word_of_int (tok_size (toks ! ?i)) = (word_of_nat (nat (tok_size (toks ! ?i))) :: 32 word)"
      using n(2) i by (metis int_nat_eq of_int_of_nat_eq)
    then have "word_of_nat k + word_of_int (tok_size (toks ! ?i)) - 1
        = (word_of_nat (k' + nat (tok_size (toks ! ?i))) :: 32 word)"
      using Suc by simp
    moreover have "skip_loop (word_of_nat (k' + nat (tok_size (toks ! ?i)))) (advance s)
        = Some (False, (advance s)\<lparr>current_token := n - length r\<rparr>)"
      using Suc.hyps(1) [of "advance s" "k' + nat (tok_size (toks ! ?i))"] Suc.hyps(2) Suc.prems(1-3) i walk by simp
    ultimately show ?thesis
      using nz i n(1) Suc.prems(1,2) by (simp add: skip_loop.simps [of "word_of_nat k"] CURRENT_TOKEN_def)
  qed
qed

text \<open>An accepted document, as the generated parsers have it.\<close>

lemma accepted_document:
  assumes "builtin_parse_json_string s0 buf (length buf) js len = (False, s)"
  obtains p where "jsmn_parse jsmn_init js len (Some buf) (length buf) = (int (toknext p), p, Some (ps_tokens s))"
    "0 < toknext p" "json_string s = js" "max_token_num s = length buf" "length (ps_tokens s) = length buf"
proof -
  obtain r p tokens where run: "jsmn_parse jsmn_init js len (Some buf) (length buf) = (r, p, tokens)"
    by (metis prod_cases3)
  have r: "0 < r" using assms by (auto simp: builtin_parse_json_string_def run Let_def split: if_splits)
  obtain toks where toks: "tokens = Some toks"
    using loop_keeps [OF parser_ok_init [of len buf], of js] run by (auto simp: jsmn_parse_def in_room_def)
  note acc = accepted_tokens [OF run [unfolded toks] less_imp_le [OF r]]
  show ?thesis
    using that [of p] assms run r acc(1,3) by (auto simp: builtin_parse_json_string_def toks Let_def split: if_splits)
qed

text \<open>C35. Skipping a value passes that value. For any document the tokenizer accepts, however odd, and any of its
  tokens, \<open>builtin_skip\<close> succeeds and stops just behind the tokens of the value, within the document: as many
  as the sizes say, and nothing that begins within the value is left. It
  reads no token that is not there, the check against the end of the array never applies, and the 32-bit count
  does not wrap.\<close>

theorem skip_passes_one_value:
  assumes "builtin_parse_json_string s0 buf (length buf) js len = (False, s)" "length buf < 2 ^ 32"
  shows "\<exists>n. 0 < n \<and> n \<le> length buf \<and> (\<forall>i < n. \<exists>j. i < j \<and> j \<le> n
      \<and> builtin_skip (s\<lparr>current_token := i\<rparr>) = Some (False, s\<lparr>current_token := j\<rparr>)
      \<and> settle 1 (drop i (tok_sizes (take n (ps_tokens s)))) = Some (drop j (tok_sizes (take n (ps_tokens s))))
      \<and> (\<forall>k. i < k \<and> k < n \<and> tok_start (ps_tokens s ! k) < tok_end (ps_tokens s ! i) \<longrightarrow> k < j))"
proof -
  obtain p where run: "jsmn_parse jsmn_init js len (Some buf) (length buf) = (int (toknext p), p, Some (ps_tokens s))"
      and n: "0 < toknext p" and m: "max_token_num s = length buf" "length (ps_tokens s) = length buf"
    by (rule accepted_document [OF assms(1)])
  let ?n = "toknext p" let ?sz = "tok_sizes (take ?n (ps_tokens s))"
  have le: "?n \<le> length buf" using accepted_tokens(2) [OF run] m by simp
  have pos: "\<forall>i < ?n. 0 \<le> tok_size (ps_tokens s ! i)" using accepted_tokens(5) [OF run] by (simp add: tok_ok_def)
  have "\<exists>j. i < j \<and> j \<le> ?n \<and> builtin_skip (s\<lparr>current_token := i\<rparr>) = Some (False, s\<lparr>current_token := j\<rparr>)
      \<and> settle 1 (drop i ?sz) = Some (drop j ?sz)
      \<and> (\<forall>k. i < k \<and> k < ?n \<and> tok_start (ps_tokens s ! k) < tok_end (ps_tokens s ! i) \<longrightarrow> k < j)" if i: "i < ?n" for i
  proof -
    have "settle 1 (drop i ?sz) \<noteq> None"
      using accepted_tokens(4) [OF run] i le m by (auto simp: forest_def sizes_def)
    then obtain r where r: "settle 1 (drop i ?sz) = Some r" by blast
    have "length (drop i ?sz) = ?n - i" using le m by simp
    then have shorter: "length r < ?n - i" and eq: "r = drop (?n - i - length r) (drop i ?sz)"
      using settle_shorter [of 0 "drop i ?sz" r] settle_drop [OF r] r by auto
    have "r = drop (?n - length r) ?sz" using eq shorter by (simp add: algebra_simps)
    moreover have "skip_loop (word_of_nat 1) (s\<lparr>current_token := i\<rparr>)
        = Some (False, s\<lparr>current_token := i\<rparr>\<lparr>current_token := ?n - length r\<rparr>)"
      using assms(2) le m pos i r by (intro skip_counts [where toks = "ps_tokens s"]) simp_all
    moreover have "k < ?n - length r"
      if "i < k" "k < ?n" "tok_start (ps_tokens s ! k) < tok_end (ps_tokens s ! i)" for k
      using accepted_tokens(6) [OF run _ that] r le m by (simp add: reach_def sizes_def)
    ultimately show ?thesis using shorter r by (intro exI [of _ "?n - length r"]) (simp add: builtin_skip_def)
  qed
  then show ?thesis using n le by blast
qed

text \<open>A closed array that has been given a child: not JSON, but accepted.\<close>

definition fresh_state :: parse_state_t where
  "fresh_state = \<lparr>json_string = [], current_key = [], ps_tokens = [], current_token = 0, max_token_num = 0,
    inhibit_errors = False, capture = \<lparr>s_err = [], s_have_err = False\<rparr>\<rparr>"

theorem skip_passes_one_value_witness:
  "let s = snd (builtin_parse_json_string fresh_state (replicate 5 (tok JSMN_UNDEFINED 0 0 0)) 5 ''[[]:1,2]'' 8) in
   \<exists>n. 0 < n \<and> n \<le> 5 \<and> (\<forall>i < n. \<exists>j. i < j \<and> j \<le> n
      \<and> builtin_skip (s\<lparr>current_token := i\<rparr>) = Some (False, s\<lparr>current_token := j\<rparr>)
      \<and> settle 1 (drop i (tok_sizes (take n (ps_tokens s)))) = Some (drop j (tok_sizes (take n (ps_tokens s))))
      \<and> (\<forall>k. i < k \<and> k < n \<and> tok_start (ps_tokens s ! k) < tok_end (ps_tokens s ! i) \<longrightarrow> k < j))"
proof -
  let ?buf = "replicate 5 (tok JSMN_UNDEFINED 0 0 0)"
  let ?r = "builtin_parse_json_string fresh_state ?buf (length ?buf) ''[[]:1,2]'' 8"
  have ok: "\<not> fst ?r" by code_simp
  then obtain s where r: "?r = (False, s)" by (cases ?r) simp
  have "length ?buf < 2 ^ 32" by simp
  from skip_passes_one_value [OF r this] show ?thesis
    using r by (simp only: Let_def snd_conv length_replicate)
qed

section \<open>Integers\<close>

text \<open>The number a JSON text denotes: digits, with a minus before them or not.\<close>

definition json_integer :: "string \<Rightarrow> int \<Rightarrow> bool" where
  "json_integer t v \<longleftrightarrow> (\<exists>neg ds. t = (if neg then ''-'' else []) @ ds \<and> ds \<noteq> []
     \<and> (\<forall>c \<in> set ds. digit_val c < 10) \<and> v = signed_value neg ds)"

definition clamp :: "int \<Rightarrow> int \<Rightarrow> int \<Rightarrow> int" where
  "clamp lo hi v = max lo (min hi v)"

lemma starts_not_space: "starts_primitive c \<Longrightarrow> \<not> isspace c \<and> c \<noteq> CHR ''+''"
  by (auto simp: starts_primitive_def isspace_def)

lemma ends_not_digit: "ends_primitive c \<Longrightarrow> digit_val c = 99"
  by (auto simp: ends_primitive_def is_ws_def digit_val_def)

lemma minus_not_digit [simp]: "digit_val CHR ''-'' = 99"
  by (simp add: digit_val_def)

lemma json_integer_iff:
  "json_integer t v \<longleftrightarrow> (let (neg, ds) = (if t \<noteq> [] \<and> hd t = CHR ''-'' then (True, tl t) else (False, t)) in
     ds \<noteq> [] \<and> (\<forall>c \<in> set ds. digit_val c < 10) \<and> v = signed_value neg ds)"
proof (cases "t \<noteq> [] \<and> hd t = CHR ''-''")
  case True
  then obtain ds where t: "t = CHR ''-'' # ds" by (cases t) auto
  have "\<not> (\<forall>c \<in> set t. digit_val c < 10)" by (simp add: t)
  then show ?thesis by (auto simp: json_integer_def t split: if_splits)
next
  case False
  then show ?thesis by (auto simp: json_integer_def split: if_splits)
qed

text \<open>\<open>strtol\<close> where a primitive begins, with a separator behind it.\<close>

lemma scan_primitive:
  assumes b: "b \<noteq> []" "starts_primitive (hd b)" and r: "r \<noteq> []" "ends_primitive (hd r)"
  shows "split_sign (dropWhile isspace (b @ r)) = (if hd b = CHR ''-'' then (True, tl b @ r) else (False, b @ r))"
    and "takeWhile (\<lambda>c. digit_val c < 10) (x @ r) = takeWhile (\<lambda>c. digit_val c < 10) x"
    and "dropWhile (\<lambda>c. digit_val c < 10) (x @ r) = dropWhile (\<lambda>c. digit_val c < 10) x @ r"
proof -
  obtain c cs where c: "b = c # cs" using b(1) by (cases b) auto
  show "split_sign (dropWhile isspace (b @ r)) = (if hd b = CHR ''-'' then (True, tl b @ r) else (False, b @ r))"
    using b(2) starts_not_space [of c] by (simp add: c split_sign_def)
  obtain d ds where d: "r = d # ds" "digit_val d = 99" using r ends_not_digit by (cases r) auto
  show "takeWhile (\<lambda>c. digit_val c < 10) (x @ r) = takeWhile (\<lambda>c. digit_val c < 10) x"
    "dropWhile (\<lambda>c. digit_val c < 10) (x @ r) = dropWhile (\<lambda>c. digit_val c < 10) x @ r"
    using d by (induction x) simp_all
qed

lemma strtoll_primitive:
  assumes b: "b \<noteq> []" "starts_primitive (hd b)" and r: "r \<noteq> []" "ends_primitive (hd r)"
  shows "length (snd (strtoll 10 (b @ r))) = length r \<longleftrightarrow> (\<exists>v. json_integer b v)"
    and "json_integer b v \<Longrightarrow> fst (strtoll 10 (b @ r)) = clamp (- (2 ^ 63)) (2 ^ 63 - 1) v"
proof -
  note scan = scan_primitive [OF b r]
  define neg where "neg \<longleftrightarrow> hd b = CHR ''-''"
  define x where "x = (if neg then tl b else b)"
  have split: "split_sign (dropWhile isspace (b @ r)) = (neg, x @ r)" using scan(1) by (simp add: neg_def x_def)
  have int: "json_integer b v \<longleftrightarrow> x \<noteq> [] \<and> dropWhile (\<lambda>c. digit_val c < 10) x = [] \<and> v = signed_value neg x" for v
    using b(1) by (auto simp: json_integer_iff Let_def neg_def x_def dropWhile_eq_Nil_conv)
  have all: "takeWhile (\<lambda>c. digit_val c < 10) x = x" if "dropWhile (\<lambda>c. digit_val c < 10) x = []"
    using that by (metis append_Nil2 takeWhile_dropWhile_id)
  have long: "0 < length b" using b(1) by simp
  show "length (snd (strtoll 10 (b @ r))) = length r \<longleftrightarrow> (\<exists>v. json_integer b v)"
  proof (cases "takeWhile (\<lambda>c. digit_val c < 10) x = []")
    case True
    then have "\<not> (\<exists>v. json_integer b v)" using int all by auto
    then show ?thesis using True long by (simp add: strtoll_def base_of_def strtol_def split scan Let_def)
  next
    case False
    then have "x \<noteq> []" by auto
    then show ?thesis using False int by (simp add: strtoll_def base_of_def strtol_def split scan Let_def)
  qed
  show "fst (strtoll 10 (b @ r)) = clamp (- (2 ^ 63)) (2 ^ 63 - 1) v" if v: "json_integer b v"
  proof -
    have x: "x \<noteq> []" "v = signed_value neg x" and all: "takeWhile (\<lambda>c. digit_val c < 10) x = x"
      using v int all by auto
    show ?thesis using x(1)
      by (auto simp: strtoll_def base_of_def strtol_def split scan all Let_def clamp_def signed_value_def x(2))
  qed
qed

lemma strtoull_primitive:
  assumes b: "b \<noteq> []" "starts_primitive (hd b)" "hd b \<noteq> CHR ''-''" and r: "r \<noteq> []" "ends_primitive (hd r)"
  shows "length (snd (strtoull 10 (b @ r))) = length r \<longleftrightarrow> (\<exists>v. json_integer b v)"
    and "json_integer b v \<Longrightarrow> fst (strtoull 10 (b @ r)) = clamp 0 ULLONG_MAX v"
proof -
  note scan = scan_primitive [OF b(1,2) r]
  have split: "split_sign (dropWhile isspace (b @ r)) = (False, b @ r)" using scan(1) b(3) by simp
  have int: "json_integer b v \<longleftrightarrow> dropWhile (\<lambda>c. digit_val c < 10) b = [] \<and> v = int (digits_val 10 b)" for v
    using b by (auto simp: json_integer_iff Let_def dropWhile_eq_Nil_conv signed_value_def)
  have all: "takeWhile (\<lambda>c. digit_val c < 10) b = b" if "dropWhile (\<lambda>c. digit_val c < 10) b = []"
    using that by (metis append_Nil2 takeWhile_dropWhile_id)
  show "length (snd (strtoull 10 (b @ r))) = length r \<longleftrightarrow> (\<exists>v. json_integer b v)"
  proof (cases "takeWhile (\<lambda>c. digit_val c < 10) b = []")
    case True
    then have "\<not> (\<exists>v. json_integer b v)" using int all b(1) by auto
    then show ?thesis using True b(1) by (simp add: strtoull_def base_of_def split scan Let_def)
  next
    case False
    then show ?thesis using int by (simp add: strtoull_def base_of_def split scan Let_def)
  qed
  show "fst (strtoull 10 (b @ r)) = clamp 0 ULLONG_MAX v" if v: "json_integer b v"
  proof -
    have all: "takeWhile (\<lambda>c. digit_val c < 10) b = b" and eq: "v = int (digits_val 10 b)"
      using v int all by auto
    show ?thesis using b(1)
      by (auto simp: strtoull_def base_of_def split scan all Let_def clamp_def ULLONG_MAX_def eq)
  qed
qed

section \<open>A token of an accepted document\<close>

text \<open>A generated parser in the middle of its work: the document \<open>js\<close> of \<open>len\<close> bytes was accepted, and one of
  its \<open>n\<close> tokens is the current one.\<close>

definition parsing :: "parse_state_t \<Rightarrow> string \<Rightarrow> nat \<Rightarrow> nat \<Rightarrow> bool" where
  "parsing s js len n \<longleftrightarrow> len \<le> length js \<and> json_string s = js \<and> current_token s < n
    \<and> (\<exists>buf p. jsmn_parse jsmn_init js len (Some buf) (length buf) = (int n, p, Some (ps_tokens s)))"

lemma parsing_token:
  assumes "parsing s js len n"
  defines "t \<equiv> CURRENT_TOKEN s"
  shows "0 \<le> tok_start t" "tok_start t \<le> tok_end t" "tok_end t \<le> int len" "lexeme_ok js len t"
    and "token_text s t = token_bytes s t @ drop (nat (tok_end t)) js"
    and "int (length (token_bytes s t)) = tok_end t - tok_start t"
    and "int (length js) - int (length (drop (nat (tok_end t)) js)) = tok_end t"
    and "\<And>k. k < length (token_bytes s t) \<Longrightarrow> token_bytes s t ! k = js ! (nat (tok_start t) + k)"
proof -
  obtain buf p where run: "jsmn_parse jsmn_init js len (Some buf) (length buf) = (int n, p, Some (ps_tokens s))"
      and n: "current_token s < n" and js: "json_string s = js" "len \<le> length js"
    using assms(1) by (auto simp: parsing_def)
  note acc = accepted_tokens [OF run]
  have "current_token s < toknext p" using acc(3) n by simp
  from acc(5) [OF _ this] have t: "tok_ok len t" "\<not> tok_open t" "lexeme_ok js len t"
    by (simp_all add: t_def CURRENT_TOKEN_def)
  then show b: "0 \<le> tok_start t" "tok_start t \<le> tok_end t" "tok_end t \<le> int len" "lexeme_ok js len t"
    by (simp_all add: tok_ok_def)
  have "drop (nat (tok_end t)) js = drop (nat (tok_end t - tok_start t)) (drop (nat (tok_start t)) js)"
    using b by (simp add: nat_diff_distrib)
  then show "token_text s t = token_bytes s t @ drop (nat (tok_end t)) js"
    unfolding token_bytes_def token_text_def js by (metis append_take_drop_id)
  show "int (length (token_bytes s t)) = tok_end t - tok_start t"
    "int (length js) - int (length (drop (nat (tok_end t)) js)) = tok_end t"
    "\<And>k. k < length (token_bytes s t) \<Longrightarrow> token_bytes s t ! k = js ! (nat (tok_start t) + k)"
    using b js by (auto simp: token_bytes_def token_text_def)
qed

lemma parsing_primitive:
  assumes "parsing s js len n" "tok_type (CURRENT_TOKEN s) = JSMN_PRIMITIVE"
  defines "t \<equiv> CURRENT_TOKEN s" and "r \<equiv> drop (nat (tok_end (CURRENT_TOKEN s))) js"
  shows "token_bytes s t \<noteq> []" "starts_primitive (hd (token_bytes s t))" "r \<noteq> []" "ends_primitive (hd r)"
    and "hd (token_text s t) = hd (token_bytes s t)"
proof -
  note tok = parsing_token [OF assms(1), folded t_def]
  have start: "starts_primitive (js ! nat (tok_start t))"
      and scan: "prim_scan js len (nat (tok_start t)) = Found (nat (tok_end t))"
    using tok(4) assms(2) by (simp_all add: lexeme_ok_def t_def)
  have e: "nat (tok_start t) < nat (tok_end t)" "nat (tok_end t) < len" "ends_primitive (js ! nat (tok_end t))"
    using prim_scan_gt [OF scan start] prim_scan_ge [OF scan] by auto
  have len: "len \<le> length js" using assms(1) by (simp add: parsing_def)
  show ne: "token_bytes s t \<noteq> []" using tok(6) e by auto
  have "hd (token_bytes s t) = js ! nat (tok_start t)" using tok(8) [of 0] ne by (simp add: hd_conv_nth)
  then show "starts_primitive (hd (token_bytes s t))" using start by simp
  show "r \<noteq> []" "ends_primitive (hd r)" using e len by (simp_all add: r_def t_def [symmetric] hd_drop_conv_nth)
  show "hd (token_text s t) = hd (token_bytes s t)" using tok(5) ne by simp
qed

lemma ends_at_primitive:
  assumes "parsing s js len n"
  shows "ends_at_token s rest \<longleftrightarrow> length rest = length (drop (nat (tok_end (CURRENT_TOKEN s))) js)"
proof -
  have js: "json_string s = js" using assms by (simp add: parsing_def)
  show ?thesis using parsing_token(7) [OF assms] unfolding ends_at_token_def js by linarith
qed

lemma invalid_literal_stays [simp]: "current_token (invalid_literal what s) = current_token s"
  by (simp add: invalid_literal_def TRY_LOG_ERROR_def LOG_ERROR_def)

lemma signed_read:
  assumes "parsing s js len n" "tok_type (CURRENT_TOKEN s) = JSMN_PRIMITIVE"
  defines "b \<equiv> token_bytes s (CURRENT_TOKEN s)"
  shows "case builtin_parse_signed s True string_allowed radix out of (bad, v, s') \<Rightarrow>
      (\<not> bad \<longleftrightarrow> (\<exists>i. json_integer b i)) \<and> (\<forall>i. json_integer b i \<longrightarrow> v = clamp (- (2 ^ 63)) (2 ^ 63 - 1) i)
      \<and> current_token s' = current_token s + (if bad then 0 else 1)"
proof -
  note prim = parsing_primitive [OF assms(1,2), folded b_def]
  show ?thesis
    using strtoll_primitive [OF prim(1-4)] assms(2)
    by (simp add: builtin_parse_signed_def number_expected_def parsing_token(5) [OF assms(1), folded b_def]
        ends_at_primitive [OF assms(1)] Let_def split_beta)
qed

lemma unsigned_read:
  assumes "parsing s js len n" "tok_type (CURRENT_TOKEN s) = JSMN_PRIMITIVE"
  defines "b \<equiv> token_bytes s (CURRENT_TOKEN s)"
  shows "case builtin_parse_unsigned s True string_allowed radix out of (bad, v, s') \<Rightarrow>
      (\<not> bad \<longleftrightarrow> hd b \<noteq> CHR ''-'' \<and> (\<exists>i. json_integer b i))
      \<and> (\<forall>i. \<not> bad \<and> json_integer b i \<longrightarrow> v = clamp 0 (2 ^ 64 - 1) i)
      \<and> current_token s' = current_token s + (if bad then 0 else 1)"
proof (cases "hd b = CHR ''-''")
  note prim = parsing_primitive [OF assms(1,2), folded b_def]
  case True
  then show ?thesis using assms(2) prim(5)
    by (simp add: builtin_parse_unsigned_def number_expected_def Let_def)
next
  note prim = parsing_primitive [OF assms(1,2), folded b_def]
  case False
  then show ?thesis using strtoull_primitive [OF prim(1,2) False prim(3,4)] assms(2) prim(5)
    by (simp add: builtin_parse_unsigned_def number_expected_def parsing_token(5) [OF assms(1), folded b_def]
        ends_at_primitive [OF assms(1)] Let_def split_beta ULLONG_MAX_def)
qed

text \<open>C36. A number in a document is read as the number it denotes, or refused. Where a number is expected, a
  primitive token of an accepted document is accepted by \<open>builtin_parse_signed\<close> just if it is digits with or
  without a minus before them, by \<open>builtin_parse_unsigned\<close> just if it is digits; nothing like \<open>1.5\<close>, \<open>1e3\<close>
  or \<open>true\<close> is read in part. The value is exact within 64 bits, and the nearest bound outside of them, which
  is not an error here. The parser then stands at the next token, otherwise where it was.\<close>

theorem integers_read_exactly:
  assumes "parsing s js len n" "tok_type (CURRENT_TOKEN s) = JSMN_PRIMITIVE"
  shows "(case builtin_parse_signed s True string_allowed radix out of (bad, v, s') \<Rightarrow>
        (\<not> bad \<longleftrightarrow> (\<exists>i. json_integer (token_bytes s (CURRENT_TOKEN s)) i))
        \<and> (\<forall>i. json_integer (token_bytes s (CURRENT_TOKEN s)) i \<longrightarrow> v = clamp (- (2 ^ 63)) (2 ^ 63 - 1) i)
        \<and> current_token s' = current_token s + (if bad then 0 else 1))
    \<and> (case builtin_parse_unsigned s True string_allowed radix out of (bad, v, s') \<Rightarrow>
        (\<not> bad \<longleftrightarrow> hd (token_bytes s (CURRENT_TOKEN s)) \<noteq> CHR ''-''
           \<and> (\<exists>i. json_integer (token_bytes s (CURRENT_TOKEN s)) i))
        \<and> (\<forall>i. \<not> bad \<and> json_integer (token_bytes s (CURRENT_TOKEN s)) i \<longrightarrow> v = clamp 0 (2 ^ 64 - 1) i)
        \<and> current_token s' = current_token s + (if bad then 0 else 1))"
  by (rule conjI [OF signed_read [OF assms] unsigned_read [OF assms]])

text \<open>The state of a parser at a token of a document.\<close>

definition at_token :: "string \<Rightarrow> nat \<Rightarrow> nat \<Rightarrow> parse_state_t" where
  "at_token js n i = (snd (builtin_parse_json_string fresh_state (replicate n (tok JSMN_UNDEFINED 0 0 0)) n js (length js)))
    \<lparr>current_token := i\<rparr>"

lemma parsing_at_token:
  assumes "\<not> fst (builtin_parse_json_string fresh_state (replicate n (tok JSMN_UNDEFINED 0 0 0)) n js (length js))"
    and "i < nat (fst (jsmn_parse jsmn_init js (length js) (Some (replicate n (tok JSMN_UNDEFINED 0 0 0))) n))"
  shows "parsing (at_token js n i) js (length js) (nat (fst (jsmn_parse jsmn_init js (length js) (Some (replicate n (tok JSMN_UNDEFINED 0 0 0))) n)))"
proof -
  let ?buf = "replicate n (tok JSMN_UNDEFINED 0 0 0)"
  obtain s where s: "builtin_parse_json_string fresh_state ?buf (length ?buf) js (length js) = (False, s)"
    using assms(1) by (cases "builtin_parse_json_string fresh_state ?buf n js (length js)") simp
  obtain p where run: "jsmn_parse jsmn_init js (length js) (Some ?buf) (length ?buf) = (int (toknext p), p, Some (ps_tokens s))"
      and js: "json_string s = js"
    by (rule accepted_document [OF s])
  have "at_token js n i = s\<lparr>current_token := i\<rparr>" using s by (simp add: at_token_def)
  moreover have "i < toknext p" using assms(2) run by simp
  ultimately show ?thesis using run js unfolding parsing_def
    by (intro conjI exI [of _ ?buf] exI [of _ p]) simp_all
qed

theorem integers_read_exactly_witness:
  "let s = at_token ''{\"a\":-99999999999999999999}'' 3 2 in
   fst (snd (builtin_parse_signed s True False 10 0)) = - (2 ^ 63)
   \<and> fst (builtin_parse_unsigned s True False 10 0)"
proof -
  let ?js = "''{\"a\":-99999999999999999999}''" let ?s = "at_token ?js 3 2"
  let ?b = "''-99999999999999999999''"
  have p: "parsing ?s ?js (length ?js)
      (nat (fst (jsmn_parse jsmn_init ?js (length ?js) (Some (replicate 3 (tok JSMN_UNDEFINED 0 0 0))) 3)))"
    by (rule parsing_at_token) code_simp+
  have t: "tok_type (CURRENT_TOKEN ?s) = JSMN_PRIMITIVE" by code_simp
  have b: "token_bytes ?s (CURRENT_TOKEN ?s) = ?b" by code_simp
  have i: "json_integer ?b (-99999999999999999999)"
    by (simp add: json_integer_iff Let_def signed_value_def digits_val_def digit_val_def)
  show ?thesis
    using integers_read_exactly [OF p t, of False 10 0] i
    by (auto simp: b clamp_def Let_def split: prod.splits)
qed

section \<open>Strings\<close>

lemma hex_scan_no_nul: "hex_scan js len i q = Some r \<Longrightarrow> q \<le> k \<Longrightarrow> k < r \<Longrightarrow> js ! k \<noteq> NUL"
proof (induction js len i q rule: hex_scan.induct)
  case (1 js len i q)
  then show ?case
    by (cases "k = q") (auto simp: hex_scan.simps [of js len i q] has_byte_def split: if_splits)
qed

lemma str_scan_no_nul: "str_scan js len q = Found r \<Longrightarrow> q \<le> k \<Longrightarrow> k < r \<Longrightarrow> js ! k \<noteq> NUL"
proof (induction js len q rule: str_scan.induct)
  case (1 js len q)
  note IH = 1(1-3) [OF _ refl] and found = 1(4) and k = 1(5,6)
  note unfold = str_scan.simps [of js len q] Let_def
  show ?case
  proof (cases "k = q")
    case True
    then show ?thesis using found k by (auto simp: unfold has_byte_def split: if_splits)
  next
    case False
    then have k': "Suc q \<le> k" using k by simp
    have q: "has_byte js len q" "js ! q \<noteq> CHR 0x22"
      using found k k' by (auto simp: unfold split: if_splits)
    show ?thesis
    proof (cases "js ! q = CHR 0x5C \<and> Suc q < len")
      case False
      then show ?thesis using q found k k' IH(3) by (auto simp: unfold)
    next
      case esc: True
      have e: "js ! Suc q \<noteq> NUL"
        using found q esc by (auto simp: unfold simple_escape_def NUL_def split: if_splits)
      show ?thesis
      proof (cases "k = Suc q")
        case True
        then show ?thesis using e by simp
      next
        case False
        then have k'': "Suc (Suc q) \<le> k" using k' by simp
        show ?thesis
        proof (cases "simple_escape (js ! Suc q)")
          case True
          then show ?thesis using IH(1) esc q found k k'' by (simp add: unfold)
        next
          case False
          then obtain h where u: "js ! Suc q = CHR ''u''" and h: "hex_scan js len 0 (Suc (Suc q)) = Some h"
              and rest: "str_scan js len h = Found r"
            using esc q found by (auto simp: unfold split: if_splits option.splits)
          show ?thesis
          proof (cases "k < h")
            case True
            then show ?thesis using hex_scan_no_nul [OF h k''] by simp
          next
            case after: False
            show ?thesis using IH(2) [OF _ _ _ refl False u h rest] esc q k after by simp
          qed
        qed
      qed
    qed
  qed
qed

lemma parsing_string:
  assumes "parsing s js len n" "tok_type (CURRENT_TOKEN s) = JSMN_STRING"
  shows "NUL \<notin> set (token_bytes s (CURRENT_TOKEN s))"
proof -
  let ?t = "CURRENT_TOKEN s"
  note tok = parsing_token [OF assms(1)]
  have "str_scan js len (nat (tok_start ?t)) = Found (nat (tok_end ?t))"
    using tok(4) assms(2) by (simp add: lexeme_ok_def)
  from str_scan_no_nul [OF this]
  have "token_bytes s ?t ! k \<noteq> NUL" if "k < length (token_bytes s ?t)" for k
    using that tok(1,2,6) tok(8) [OF that] by (auto simp: nat_less_iff)
  then show ?thesis by (auto simp: in_set_conv_nth)
qed

lemma stored_string: "NUL \<notin> set b \<Longrightarrow> takeWhile (\<lambda>c. c \<noteq> NUL) (store_string out b) = b"
proof -
  assume "NUL \<notin> set b"
  then have "takeWhile (\<lambda>c. c \<noteq> NUL) (b @ NUL # r) = b" for r by (induction b) auto
  then show ?thesis by (simp add: store_string_def)
qed

text \<open>C37. A string fits its buffer and is a C string. Given a buffer of \<open>max_len + 1\<close> bytes, as the generator
  declares it, \<open>builtin_parse_string\<close> accepts a string token of an accepted document just if its length is
  within the limits; it writes nothing outside of the buffer, and what is in it up to the first zero is the
  text between the quotes, which has no zero of its own. A refused string leaves the buffer as it was.\<close>

theorem string_fits_its_buffer:
  assumes "parsing s js len n" "tok_type (CURRENT_TOKEN s) = JSMN_STRING" "length out = nat max_len + 1" "0 \<le> max_len"
  shows "case builtin_parse_string s out min_len max_len of (bad, out', s') \<Rightarrow>
    (let b = token_bytes s (CURRENT_TOKEN s) in
     (\<not> bad \<longleftrightarrow> min_len \<le> int (length b) \<and> int (length b) \<le> max_len)
     \<and> length out' = length out \<and> (bad \<longrightarrow> out' = out)
     \<and> (\<not> bad \<longrightarrow> takeWhile (\<lambda>c. c \<noteq> NUL) out' = b \<and> current_token s' = current_token s + 1))"
proof -
  have "int (length (token_bytes s (CURRENT_TOKEN s))) = tok_end (CURRENT_TOKEN s) - tok_start (CURRENT_TOKEN s)"
    by (rule parsing_token(6) [OF assms(1)])
  then show ?thesis
    using assms(2-4) stored_string [OF parsing_string [OF assms(1,2)]]
    by (auto simp: builtin_parse_string_def builtin_check_current_string_def check_type_def Let_def store_string_def
        split: if_splits)
qed

theorem string_fits_its_buffer_witness:
  "let s = at_token ''{\"a\":\"xy\"}'' 3 2 in takeWhile (\<lambda>c. c \<noteq> NUL) (fst (snd (builtin_parse_string s (replicate 5 CHR 0xFF) 1 4))) = ''xy''"
proof -
  let ?js = "''{\"a\":\"xy\"}''" let ?s = "at_token ?js 3 2"
  have p: "parsing ?s ?js (length ?js)
      (nat (fst (jsmn_parse jsmn_init ?js (length ?js) (Some (replicate 3 (tok JSMN_UNDEFINED 0 0 0))) 3)))"
    by (rule parsing_at_token) code_simp+
  have t: "tok_type (CURRENT_TOKEN ?s) = JSMN_STRING" by code_simp
  have b: "token_bytes ?s (CURRENT_TOKEN ?s) = ''xy''" by code_simp
  show ?thesis using string_fits_its_buffer [OF p t, of "replicate 5 CHR 0xFF" 4 1]
    by (auto simp: b Let_def split: prod.splits)
qed

section \<open>Errors have reasons\<close>

lemma escape_from_grows: "length out \<le> length (escape_from n s out)"
proof (induction s arbitrary: out)
  case (Cons c s)
  show ?case using Cons [of "out @ escaped c"] by (simp add: escape_from_step del: escape_from.simps(2))
qed simp

definition reason :: "parse_state_t \<Rightarrow> string" where
  "reason s = js2c_error_capture_get (capture s)"

lemma log_gives_reason:
  assumes "\<not> s_have_err (capture s)" "msg \<noteq> []" "entity (hd msg) = None"
  shows "reason (LOG_ERROR position msg s) \<noteq> []"
proof -
  obtain c m where msg: "msg = c # m" "entity c = None" using assms(2,3) by (cases msg) auto
  have "\<exists>r. raw_text position msg = c # r"
    by (auto simp: raw_text_def Let_def snprintf_def JS2C_ERROR_CAPTURE_SIZE_def msg)
  then obtain r where r: "raw_text position msg = c # r" by blast
  have "escape_html (c # r) JS2C_ERROR_CAPTURE_SIZE = escape_from JS2C_ERROR_CAPTURE_SIZE r (escaped c)"
    and "length (escaped c) = 1"
    using msg(2) by (simp_all add: escape_html_def escape_from_step escaped_def JS2C_ERROR_CAPTURE_SIZE_def del: escape_from.simps(2))
  then have "escape_html (c # r) JS2C_ERROR_CAPTURE_SIZE \<noteq> []"
    using escape_from_grows [of "escaped c" JS2C_ERROR_CAPTURE_SIZE r] by auto
  then show ?thesis
    using assms(1) by (simp add: reason_def LOG_ERROR_def js2c_error_capture_record_def js2c_error_capture_get_def Let_def r)
qed

text \<open>An error leaves a reason, or nothing at all while errors are inhibited.\<close>

definition explained :: "parse_state_t \<Rightarrow> parse_state_t \<Rightarrow> bool" where
  "explained s s' \<longleftrightarrow> (if inhibit_errors s then capture s' = capture s else reason s' \<noteq> [])"

lemma log_gives_reason_Cons: "\<not> s_have_err (capture s) \<Longrightarrow> entity c = None \<Longrightarrow> reason (LOG_ERROR position (c # m) s) \<noteq> []"
  using log_gives_reason [of s "c # m"] by simp

lemma try_log_explains:
  "\<not> s_have_err (capture s) \<Longrightarrow> entity c = None \<Longrightarrow> explained s (TRY_LOG_ERROR position (c # m) s)"
  using log_gives_reason [of s "c # m"] by (simp add: explained_def TRY_LOG_ERROR_def)

lemmas builtin_defs = check_type_def builtin_check_current_string_def builtin_parse_string_def builtin_parse_bool_def
  builtin_parse_signed_def builtin_parse_unsigned_def builtin_parse_double_def unexpected_token_def invalid_literal_def
  length_message_def

text \<open>C39. A refusal is explained. If no error was recorded since the capture was reset, then every function that
  refuses a value, and the reading of a document that refuses it, leaves a reason that can be shown to the
  client; and while the errors are inhibited, as in the trial of an alternative, none of them records anything.\<close>

theorem refusals_are_explained:
  assumes "\<not> s_have_err (capture s)"
  shows "(fst (builtin_parse_string s out1 min_len max_len) \<longrightarrow> explained s (snd (snd (builtin_parse_string s out1 min_len max_len))))
    \<and> (fst (builtin_parse_bool s out2) \<longrightarrow> explained s (snd (snd (builtin_parse_bool s out2))))
    \<and> (fst (builtin_parse_signed s na sa radix out3) \<longrightarrow> explained s (snd (snd (builtin_parse_signed s na sa radix out3))))
    \<and> (fst (builtin_parse_unsigned s na sa radix out3) \<longrightarrow> explained s (snd (snd (builtin_parse_unsigned s na sa radix out3))))
    \<and> (fst (builtin_parse_double strtod s out4) \<longrightarrow> explained s (snd (snd (builtin_parse_double strtod s out4))))
    \<and> (fst (builtin_parse_json_string s buf m js len) \<longrightarrow> reason (snd (builtin_parse_json_string s buf m js len)) \<noteq> [])"
proof (intro conjI impI)
  note ex = try_log_explains [OF assms]
  assume "fst (builtin_parse_string s out1 min_len max_len)"
  then show "explained s (snd (snd (builtin_parse_string s out1 min_len max_len)))"
    by (auto simp: builtin_defs Let_def entity_def intro!: ex split: if_splits)
next
  note ex = try_log_explains [OF assms]
  assume "fst (builtin_parse_bool s out2)"
  then show "explained s (snd (snd (builtin_parse_bool s out2)))"
    by (auto simp: builtin_defs Let_def entity_def intro!: ex split: if_splits)
next
  note ex = try_log_explains [OF assms]
  assume "fst (builtin_parse_signed s na sa radix out3)"
  then show "explained s (snd (snd (builtin_parse_signed s na sa radix out3)))"
    by (auto simp: builtin_defs Let_def entity_def split_beta intro!: ex split: if_splits)
next
  note ex = try_log_explains [OF assms]
  assume "fst (builtin_parse_unsigned s na sa radix out3)"
  then show "explained s (snd (snd (builtin_parse_unsigned s na sa radix out3)))"
    by (auto simp: builtin_defs Let_def entity_def split_beta intro!: ex split: if_splits)
next
  note ex = try_log_explains [OF assms]
  assume "fst (builtin_parse_double strtod s out4)"
  then show "explained s (snd (snd (builtin_parse_double strtod s out4)))"
    by (auto simp: builtin_defs Let_def entity_def split_beta intro!: ex split: if_splits)
next
  assume "fst (builtin_parse_json_string s buf m js len)"
  then show "reason (snd (builtin_parse_json_string s buf m js len)) \<noteq> []"
    using assms by (auto simp: builtin_parse_json_string_def Let_def log_gives_reason_Cons entity_def split: prod.splits if_splits)
qed

theorem refusals_are_explained_witness:
  "reason (snd (builtin_parse_json_string fresh_state (replicate 3 (tok JSMN_UNDEFINED 0 0 0)) 3 ''{\"a\":'' 5)) \<noteq> []"
proof -
  have "\<not> s_have_err (capture fresh_state)" by (simp add: fresh_state_def)
  note explained = refusals_are_explained [OF this, THEN conjunct2, THEN conjunct2, THEN conjunct2, THEN conjunct2, THEN conjunct2]
  have "fst (builtin_parse_json_string fresh_state (replicate 3 (tok JSMN_UNDEFINED 0 0 0)) 3 ''{\"a\":'' 5)"
    by code_simp
  then show ?thesis using explained by blast
qed

section \<open>A number written and read\<close>

lemma dec_digit: "d < 10 \<Longrightarrow> (of_char (char_of (48 + d) :: char) :: nat) = 48 + d"
  by (simp add: of_char_of)

lemma dec_nat_facts:
  "digits_val 10 (dec_nat n) = n \<and> dec_nat n \<noteq> [] \<and> (\<forall>c \<in> set (dec_nat n). 48 \<le> (of_char c :: nat) \<and> (of_char c :: nat) \<le> 57)"
proof (induction n rule: dec_nat.induct)
  case (1 n)
  have digit: "digit_val (char_of (48 + d)) = d" if "d < 10" for d
    using dec_digit [OF that] that by (simp add: digit_val_def Let_def)
  show ?case
  proof (cases "n < 10")
    case True
    then show ?thesis using digit [OF True] dec_digit [OF True]
      by (simp add: dec_nat.simps [of n] digits_val_def)
  next
    case False
    have "n mod 10 < 10" by simp
    then show ?thesis using 1 [OF False] False digit [of "n mod 10"] dec_digit [of "n mod 10"]
      by (auto simp: dec_nat.simps [of n] digits_val_def)
  qed
qed

lemma dec_char: "48 \<le> (of_char c :: nat) \<Longrightarrow> (of_char c :: nat) \<le> 57 \<Longrightarrow>
    digit_val c < 10 \<and> starts_primitive c \<and> plain c"
  by (auto simp: digit_val_def starts_primitive_def plain_def ends_primitive_def is_ws_def Let_def)

lemma dec_int_ok: "json_integer (dec_int v) v \<and> json_ok (Prim (dec_int v))"
proof -
  let ?ds = "dec_nat (nat \<bar>v\<bar>)"
  have ds: "digits_val 10 ?ds = nat \<bar>v\<bar>" "?ds \<noteq> []" "\<forall>c \<in> set ?ds. digit_val c < 10 \<and> starts_primitive c \<and> plain c"
    using dec_nat_facts [of "nat \<bar>v\<bar>"] dec_char by auto
  have t: "dec_int v = (if v < 0 then ''-'' else []) @ ?ds" by (simp add: dec_int_def)
  have v: "v = signed_value (v < 0) ?ds" by (cases "v < 0") (simp_all add: signed_value_def dec_nat_facts [THEN conjunct1])
  have "json_integer (dec_int v) v"
    unfolding json_integer_def t using ds v by (intro exI [of _ "v < 0"] exI [of _ ?ds]) blast
  moreover have "plain CHR ''-''" "starts_primitive CHR ''-''"
    by (simp_all add: plain_def ends_primitive_def is_ws_def starts_primitive_def)
  then have "json_ok (Prim (dec_int v))"
    using ds by (cases "?ds") (auto simp: t list_all_iff)
  ultimately show ?thesis by blast
qed

text \<open>C38. A number that is written into a configuration is read back. For any key and any number of 64 bits, the
  document \<open>{"key":number}\<close> is accepted with a buffer of three tokens, its second token is that key, and the
  third is read by \<open>builtin_parse_signed\<close> as that number.\<close>

theorem number_reads_back:
  assumes "body_ok key" "- (2 ^ 63) \<le> v" "v < 2 ^ 63" "3 \<le> length buf"
    and "doc = ''{\"'' @ key @ ''\":'' @ dec_int v @ ''}''"
  shows "case builtin_parse_json_string s0 buf (length buf) doc (length doc) of (bad, s) \<Rightarrow>
    \<not> bad \<and> current_string_is (s\<lparr>current_token := 1\<rparr>) key
    \<and> (case builtin_parse_signed (s\<lparr>current_token := 2\<rparr>) True string_allowed radix out of (bad, w, s') \<Rightarrow>
         \<not> bad \<and> w = v \<and> current_token s' = 3)"
proof -
  let ?v = "Obj [Member [] key [] [] (Prim (dec_int v)) []] []" let ?T = "jtoks ?v 0"
  have doc: "doc = [] @ jtext ?v @ []" by (simp add: assms(5))
  have ok: "json_ok ?v" "container ?v" using assms(1) dec_int_ok [of v] by (simp_all add: ws_def container_def)
  have T: "?T = [tok JSMN_OBJECT 0 (length doc) 1, tok JSMN_STRING 2 (2 + length key) 1,
      tok JSMN_PRIMITIVE (length key + 4) (length key + 4 + length (dec_int v)) 0]"
    by (simp add: doc eval_nat_numeral)
  obtain p where run: "jsmn_parse jsmn_init doc (length doc) (Some buf) (length buf) = (3, p, Some (?T @ drop 3 buf))"
    using parse_document [OF ok, of "[]" "[]" buf, folded doc] assms(4)
    by (simp add: ws_def T [unfolded doc] doc [symmetric] numeral_3_eq_3 del: jtext.simps jtoks.simps)
  let ?s = "s0\<lparr>json_string := doc, ps_tokens := ?T @ drop 3 buf, current_token := 0, max_token_num := length buf,
      current_key := ''document root'', inhibit_errors := False\<rparr>"
  have s: "builtin_parse_json_string s0 buf (length buf) doc (length doc) = (False, ?s)"
    by (simp add: builtin_parse_json_string_def run)
  have key: "current_string_is (?s\<lparr>current_token := 1\<rparr>) key"
    by (simp add: current_string_is_def CURRENT_TOKEN_def T tok_def Let_def token_bytes_def token_text_def assms(5))
  let ?s2 = "?s\<lparr>current_token := 2\<rparr>"
  have p2: "parsing ?s2 doc (length doc) 3" using run by (auto simp: parsing_def)
  have t2: "tok_type (CURRENT_TOKEN ?s2) = JSMN_PRIMITIVE" by (simp add: CURRENT_TOKEN_def T tok_def)
  have b2: "token_bytes ?s2 (CURRENT_TOKEN ?s2) = dec_int v"
  proof -
    have "doc = (''{\"'' @ key @ ''\":'') @ dec_int v @ ''}''" "nat (4 + int (length key)) = length (''{\"'' @ key @ ''\":'')"
      by (simp_all add: assms(5))
    then have "drop (nat (4 + int (length key))) doc = dec_int v @ ''}''" by (metis append_eq_conv_conj)
    then show ?thesis by (simp add: CURRENT_TOKEN_def T tok_def token_bytes_def token_text_def)
  qed
  have int: "json_integer (dec_int v) i \<longleftrightarrow> i = v" for i
    using dec_int_ok [of v] by (auto simp: json_integer_iff Let_def split: if_splits)
  have "case builtin_parse_signed ?s2 True string_allowed radix out of (bad, w, s') \<Rightarrow> \<not> bad \<and> w = v \<and> current_token s' = 3"
    using signed_read [OF p2 t2, of string_allowed radix out] assms(2,3) unfolding b2 int
    by (simp add: split_beta clamp_def)
  with key show ?thesis by (simp only: s prod.case not_False_eq_True simp_thms)
qed

theorem number_reads_back_witness:
  "fst (snd (builtin_parse_signed (at_token ''{\"a\":-42}'' 3 2) True False 10 0)) = -42"
proof -
  have "dec_int (-42) = ''-42''" by code_simp
  then show ?thesis
    using number_reads_back [of "''a''" "-42" "replicate 3 (tok JSMN_UNDEFINED 0 0 0)" "''{\"a\":-42}''",
        where ?s0.0 = fresh_state and string_allowed = False and radix = 10 and out = 0]
    by (simp add: NUL_def at_token_def fresh_state_def eval_nat_numeral split: prod.splits)
qed

section \<open>What is accepted besides\<close>

text \<open>A word that begins with a \<open>t\<close> is true.\<close>

lemma any_t_is_true: "builtin_parse_bool (at_token ''{\"a\":tomato}'' 3 2) False
    = (False, True, advance (at_token ''{\"a\":tomato}'' 3 2))"
  by code_simp

text \<open>An integer in a string: the empty string is 0, and a space hides the minus from the check.\<close>

lemma empty_string_is_zero: "fst (builtin_parse_signed (at_token ''{\"a\":\"\"}'' 3 2) True True 10 7) = False
    \<and> fst (snd (builtin_parse_signed (at_token ''{\"a\":\"\"}'' 3 2) True True 10 7)) = 0"
  by code_simp

lemma hidden_minus: "fst (builtin_parse_unsigned (at_token ''{\"a\":\" -1\"}'' 3 2) True True 10 7) = False
    \<and> fst (snd (builtin_parse_unsigned (at_token ''{\"a\":\" -1\"}'' 3 2) True True 10 7)) = ULLONG_MAX"
  by code_simp

text \<open>A second document behind the first is accepted with it, and an escape is kept as it is written.\<close>

lemma two_documents: "fst (builtin_parse_json_string fresh_state (replicate 3 (tok JSMN_UNDEFINED 0 0 0)) 3 ''{} []'' 5) = False"
  by code_simp

lemma escapes_are_kept: "token_bytes (at_token [CHR ''['', CHR 0x22, CHR 0x5C, CHR 0x22, CHR 0x22, CHR '']''] 2 1)
    (CURRENT_TOKEN (at_token [CHR ''['', CHR 0x22, CHR 0x5C, CHR 0x22, CHR 0x22, CHR '']''] 2 1)) = [CHR 0x5C, CHR 0x22]"
  by code_simp

end
