(* ===== verification/Spec2Isabelle.thy ===== *)
theory Spec2Isabelle
  imports Mqtt_Topic Http_Auth Config_Store Cli_Args Diag Int_Dispatch Cli_Dispatch Cli_Repl
    Mqtt_Manager Mqtt_Log_Sink Http_Server Wifi_Manager I2c_Bus Floating Batch Nau7802 Nau_Scale
    Ota Rx8130ce Pin_Port Aw9523b Pi4ioe5v6408
    Pads Hx711 Hx711_Reading Hx711_Clock Ci_Names Sht4x
    Net_Events Mdns_Manager Ntp_Manager Network
    Wide_Regs Lm75bdp Ina_Calibration Ina219 Ina226 Ina237 Ina239 Cli_Web Error_Capture Cli_Reader
    Token_Forest Jsmn Jsmn_Trees Json_Text Json_Sections Js2c_Builtins
begin

text \<open>
  A verification library for the ESP-IDF components of this repository: C code for ESP32 devices
  that brings up a network, serves a console, keeps a configuration, updates the firmware, and drives
  sensors and expanders on an I2C bus. Each component is one directory of \<open>src/\<close> with its own
  \<open>src\<close> and \<open>include\<close>; the theories follow them, in the order in which they are imported.

  \<^bold>\<open>What the program is made of, and which theory models what.\<close>

  \<^item> \<open>Prelude\<close>: the error codes (\<open>esp_err_t\<close>), C integers and pointers,
    \<open>snprintf\<close> and the other string functions of the C library, and lemmas all components share.
  \<^item> \<open>Config_Store\<close> (\<open>config_store/src\<close>): the delayed restart; the configuration file, its
    backup and its temporary file. The file system is a map from names to contents whose operations may
    fail at will; every table it passes through is recorded, so that a power cut is a point of the record.
  \<^item> \<open>Diag\<close> (\<open>diag/src/diag.c\<close>): the table of output sinks and the three calls that write
    to all of them, as sequences of actions; tasks that interleave such sequences around one recursive mutex.
  \<^item> \<open>Int_Dispatch\<close> (\<open>int_dispatch/src/int_dispatch.c\<close>): the shared interrupt line. The
    interrupt routine, the dispatcher task and the devices on the line are a step relation.
  \<^item> \<open>Cli_Args\<close>, \<open>Ci_Names\<close>, \<open>Cli_Dispatch\<close>, \<open>Cli_Repl\<close>,
    \<open>Cli_Reader\<close> (\<open>cli/src/cli_args.c\<close>, \<open>cli_dispatch.c\<close>, \<open>cli_repl.c\<close>): argument parsing; names
    compared without case; the sorted registry of command groups with help, execution and completion; the queue
    between those who submit a line and the executor task; the serial reader, which waits for its line.
    \<open>Cli_Repl\<close> runs lines through \<open>cli_execute\<close> of \<open>Cli_Dispatch\<close>.
  \<^item> \<open>Cli_Web\<close> (\<open>cli_web/src/cli_web.c\<close>): the console in the browser. Its sink is registered in the table
    of \<open>Diag\<close>, its lines go to \<open>cli_submit\<close> of \<open>Cli_Repl\<close>; between the sink and the browsers
    are a bounded queue and two tasks, which may log while they deliver.
  \<^item> \<open>Wifi_Manager\<close> (\<open>wifi_manager/src/wifi_manager.c\<close>): the station and access point
    state machine, its timers, its scans and its back-off; every event of the driver and every timer is an
    operation, and a step relation lets them come in any order. It posts the events that the managers below consume.
  \<^item> \<open>Net_Events\<close> (\<open>net_events/src/net_events.c\<close>): the events, and the contract of a service that follows
    the link, which four managers keep.
  \<^item> \<open>Mdns_Manager\<close>, \<open>Ntp_Manager\<close> (\<open>mdns_manager/src\<close>, \<open>ntp_manager/src\<close>): the advertised
    services and the clock's synchronisation. The two tasks that share the table of services, with no lock
    between them, are a step relation. \<open>Network\<close> puts the station and the four managers together.
  \<^item> \<open>Mqtt_Topic\<close>, \<open>Mqtt_Manager\<close>, \<open>Mqtt_Log_Sink\<close>
    (\<open>mqtt_manager/src\<close>): topic filters and templates; the session, its subscriptions and what it
    dispatches; the sink of \<open>Diag\<close> that publishes log lines, and does not do so for its own.
  \<^item> \<open>Http_Auth\<close>, \<open>Http_Server\<close> (\<open>http_server/src\<close>): Base64 and the comparison
    of the authorization header; the route table and the trampoline every protected request goes through.
  \<^item> \<open>Ota\<close> (\<open>ota/src/ota.c\<close>, \<open>ota_http.c\<close>): update sessions and the upload
    handler, which is registered as a protected route of \<open>Http_Server\<close>.
  \<^item> \<open>I2c_Bus\<close>: what the drivers below call. A bus records the operations asked of it, and
    answers each by an arbitrary function of that record: a theorem over any bus is a theorem over any
    device, working, broken or absent.
  \<^item> \<open>Floating\<close>, \<open>Nau7802\<close>, \<open>Nau_Scale\<close> (\<open>nau7802/src\<close>): the load cell
    converter, its bring-up, conversions, statistics and scale. Double arithmetic is a record of
    operations, instantiated with the reals where a statement needs their laws.
  \<^item> \<open>Batch\<close>: the sampling loop, its statistics and the sign extension, which the converter
    above and the next one share, with the contract of a reader that both keep.
  \<^item> \<open>Pads\<close>, \<open>Hx711\<close>, \<open>Hx711_Reading\<close>, \<open>Hx711_Clock\<close>
    (\<open>hx711/src\<close>): the converter without a bus. Pins, cycle counter and time are the world's; every
    edge of the clock line is on the record.
  \<^item> \<open>Sht4x\<close>, \<open>Wide_Regs\<close>, \<open>Lm75bdp\<close> (\<open>sht4x/src\<close>, \<open>lm75bdp/src\<close>): the humidity
    and temperature sensors; registers of two and three bytes, which the next ones share.
  \<^item> \<open>Ina_Calibration\<close>, \<open>Ina219\<close>, \<open>Ina226\<close>, \<open>Ina237\<close>, \<open>Ina239\<close> (\<open>ina219/src\<close> and
    so on): the current monitors. The first two compute a calibration, whose contract is a locale; the last is on
    an SPI bus and sets its range.
  \<^item> \<open>Error_Capture\<close> (\<open>js2c/src/js2c_error_capture.c\<close>): the parse error that is shown to a client.
  \<^item> \<open>Token_Forest\<close>, \<open>Jsmn\<close>, \<open>Jsmn_Trees\<close> (\<open>js2c/include/jsmn.h\<close>): the tokenizer that configuration
    documents go through, strict and without parent links, as it is compiled here; trees written parents first,
    and the invariant that what the tokenizer has written so far are such trees.
  \<^item> \<open>Json_Text\<close>, \<open>Json_Sections\<close>: JSON as a datatype with its white space, its text and its tokens. These
    are the specification the tokenizer is measured against, and model no code of their own.
  \<^item> \<open>Js2c_Builtins\<close> (\<open>js2c/include/js2c_builtins.h\<close>): the functions a generated parser is made of, which walk
    over the tokens of \<open>Jsmn\<close> and leave their complaints in \<open>Error_Capture\<close>.
  \<^item> \<open>Rx8130ce\<close> (\<open>rx8130ce/src\<close>): the clock, with the Gregorian calendar written out.
  \<^item> \<open>Pin_Port\<close>, \<open>Aw9523b\<close>, \<open>Pi4ioe5v6408\<close> (\<open>aw9523b/src\<close>,
    \<open>pi4ioe5v6408/src\<close>): the expanders, and the contract of an output port that both keep.

  \<^bold>\<open>How state and operations correspond.\<close> The file-level \<open>static\<close> variables of a
  component, or the structure behind its handle, are a record; an exported or static function is a
  definition of the same name that takes the record and returns it changed, along with the result.
  A pointer that may be NULL is an option, or an argument \<open>args\<close> that says all pointers a call
  requires are there. What comes from outside (an allocation, the answer of a driver, the moment a
  timer fires) is an argument, a step of a relation, or a function in a record of answers. A function
  with many exits is a chain of conditions in the order of the code. Where the code is a loop, the
  definition is a recursion on what the loop consumes, or carries a measure: nothing is partial and no
  fuel is needed. Log lines are left out.

  \<^bold>\<open>What the lemmas show.\<close> Exactness: topic matching against the wildcard rules and the
  one place where they differ, argument parsing against a grammar, Base64 and BCD codecs against their
  inverses, the 24-bit conversion and the running statistics against their definitions. Safety: a
  configuration write never loses the old one, unless \<open>stat()\<close> fails on it, and recovers from any power
  cut; a protected route is not entered without the password; only an image whose head was checked and
  which the flash verified is selected for boot; the analog supply is not switched on before its voltage
  is set, on a converter that keeps what is written to the register, and no pin becomes an output before its level is. Order and
  interleaving: output calls are atomic, lines run in the order submitted, no interrupt is lost. Progress:
  a station that is engaged always has a retry coming. Invariants: every subscription is requested in each
  session, every route is registered, a scale belongs to the settings it was made with, every service is handed
  to the responder while services are advertised, but for the ones that a second task adds in the
  moment before the flag is set. Sensors: a reading is what the part measured, with its sign, its checksum and its
  unit; a monitor is written to only once it is identified, and a current in the wrong range is noticed. A
  browser that stays connected and takes what it is sent has no hole in its output that is not counted, unless the
  server's list of clients could not be had, and delivering the output never makes more of it. A client's
  bytes never become markup. Documents: every JSON text whose root is an object or an array is read back as
  its own tokens, and a section of it can be read where it stands; bytes that are no JSON never lead out of the arrays, and what is accepted of them are still trees,
  so that skipping a value passes that value; an integer is the one that is written or, beyond 64 bits, the
  nearest, a string fits its buffer with its end, and a refusal is explained. Interfaces are locales, interpreted on the model by the theory that provides them.

  \<^bold>\<open>What is not modelled.\<close> The rounding of \<open>float\<close> and \<open>double\<close>: their operations are parameters, and a
  statement about the values takes them to be the reals. The transport of the terminal (\<open>cli_io.c\<close>),
  which sets up the platform's console; the generator of \<open>js2c\<close>, which is a Python program, and the parsers
  it writes, which are not in the repository before a build; the page and the test firmware. Documents are taken to
  be shorter than 2 to the 31 bytes, so that a position is an \<open>int\<close>, and \<open>strtod\<close> is a parameter. Deleting a sensor's handle frees memory and nothing
  else. The platform's own services, the heap's limits apart, are assumed only as far as an argument states it. That the flash ends an
  update well only for bytes it verifies is such a hypothesis, and that the converter keeps a register another; each
  is instantiated by a concrete function in the witness. A submission to the console's queue and a turn of its
  executor are one step each.
\<close>

end
